(* ===== verification/Prelude.thy ===== *)
theory Prelude
  imports Main "HOL-Library.Word"
begin

text \<open>
  Shared vocabulary of the development: the machine integers of the Rust sources, the
  control flow of an interpreter loop, results as sums, and the interface that the two
  bytecode interpreters of the runtime (classic BPF for seccomp, eBPF for devices) provide.
\<close>

unbundle bit_operations_syntax

section \<open>Machine integers\<close>

type_synonym u8 = "8 word"
type_synonym u16 = "16 word"
type_synonym u32 = "32 word"
type_synonym u64 = "64 word"
type_synonym u128 = "128 word"

lemma unat_bound: "unat (w :: 'a::len word) < 2 ^ LENGTH('a)"
  by (rule unsigned_less)

named_theorems wire \<open>constants of the kernel's interfaces, unfolded to their numbers\<close>

section \<open>Results\<close>

text \<open>\<open>'e + 'a\<close> is Rust's \<open>Result\<close>: \<open>Inl\<close> the error, \<open>Inr\<close> the value.\<close>

definition ok_of :: "'e + 'a \<Rightarrow> 'a option" where
  "ok_of r = (case r of Inl _ \<Rightarrow> None | Inr a \<Rightarrow> Some a)"

lemma ok_of_simps [simp]: "ok_of (Inl e) = None" "ok_of (Inr a) = Some a"
  by (simp_all add: ok_of_def)

lemma ok_of_Some [simp]: "ok_of r = Some a \<longleftrightarrow> r = Inr a"
  by (cases r) simp_all

definition bind_result :: "'e + 'a \<Rightarrow> ('a \<Rightarrow> 'e + 'b) \<Rightarrow> 'e + 'b" where
  "bind_result r f = (case r of Inl e \<Rightarrow> Inl e | Inr a \<Rightarrow> f a)"

lemma bind_result_simps [simp]:
  "bind_result (Inl e) f = Inl e" "bind_result (Inr a) f = f a"
  by (simp_all add: bind_result_def)

lemma bind_result_cong [fundef_cong]:
  "r = r' \<Longrightarrow> (\<And>a. r' = Inr a \<Longrightarrow> f a = g a) \<Longrightarrow> bind_result r f = bind_result r' g"
  by (cases r') simp_all

lemma bind_result_Inr_iff:
  "bind_result r f = Inr b \<longleftrightarrow> (\<exists>a. r = Inr a \<and> f a = Inr b)"
  by (cases r) simp_all

text \<open>\<open>iter().map(f).collect::<Result<Vec<_>>>()\<close>: the first error, or every value.\<close>

fun collect_results :: "('a \<Rightarrow> 'e + 'b) \<Rightarrow> 'a list \<Rightarrow> 'e + 'b list" where
  "collect_results f [] = Inr []"
| "collect_results f (x # xs) =
     (case f x of Inl e \<Rightarrow> Inl e
      | Inr y \<Rightarrow> (case collect_results f xs of Inl e \<Rightarrow> Inl e | Inr ys \<Rightarrow> Inr (y # ys)))"

lemma collect_results_Inr_iff:
  "collect_results f xs = Inr ys \<longleftrightarrow> list_all2 (\<lambda>x y. f x = Inr y) xs ys"
proof (induction xs arbitrary: ys)
  case Nil
  then show ?case by auto
next
  case (Cons x xs)
  show ?case
  proof (cases "f x")
    case (Inl e)
    then show ?thesis by (simp add: list_all2_Cons1)
  next
    case (Inr y)
    then have "collect_results f (x # xs) = Inr ys
        \<longleftrightarrow> (\<exists>zs. collect_results f xs = Inr zs \<and> ys = y # zs)"
      by (cases "collect_results f xs") auto
    with Inr Cons.IH show ?thesis by (auto simp: list_all2_Cons1)
  qed
qed

lemma collect_results_ok: "(\<exists>ys. collect_results f xs = Inr ys) \<longleftrightarrow> (\<forall>x\<in>set xs. \<exists>y. f x = Inr y)"
  by (induction xs) (auto split: sum.splits)

lemma collect_results_set:
  "collect_results f xs = Inr ys \<Longrightarrow> y \<in> set ys \<Longrightarrow> \<exists>x\<in>set xs. f x = Inr y"
  unfolding collect_results_Inr_iff by (induction rule: list_all2_induct) auto

text \<open>\<open>Iterator::position\<close>.\<close>

fun position :: "('a \<Rightarrow> bool) \<Rightarrow> 'a list \<Rightarrow> nat option" where
  "position P [] = None"
| "position P (x # xs) = (if P x then Some 0 else map_option Suc (position P xs))"

lemma position_None: "position P xs = None \<longleftrightarrow> (\<forall>x\<in>set xs. \<not> P x)"
  by (induction xs) auto

lemma position_Some:
  "position P xs = Some i \<Longrightarrow> i < length xs \<and> P (xs ! i) \<and> (\<forall>x\<in>set (take i xs). \<not> P x)"
  by (induction xs arbitrary: i) (auto split: if_splits)

lemma map_Some_the: "map f xs = map Some ys \<Longrightarrow> list_all (\<lambda>x. f x \<noteq> None) xs \<and> map (\<lambda>x. the (f x)) xs = ys"
  by (induction xs arbitrary: ys) (auto simp: Cons_eq_map_conv)

section \<open>Interpreter loops\<close>

text \<open>What one iteration of an interpreter's \<open>loop\<close> does: go round, return, or fail.\<close>

datatype ('s, 'e, 'r) flow = Continue 's | Return 'r | Fail 'e

text \<open>
  The interface of an interpreter whose jumps only go forward: \<open>exec\<close> is the loop around
  \<open>step\<close>, and every iteration that goes round uses up some of a measure. The laws give an
  induction over the run, the two ways of reasoning about it that the proofs below use, and
  that it always ends.
\<close>

locale forward_machine =
  fixes step :: "'p \<Rightarrow> 's \<Rightarrow> ('s, 'e, 'r) flow"
    and exec :: "'p \<Rightarrow> 's \<Rightarrow> 'e + 'r"
    and left :: "'p \<Rightarrow> 's \<Rightarrow> nat"
  assumes exec_unfold:
      "exec p s = (case step p s of Continue s' \<Rightarrow> exec p s' | Return r \<Rightarrow> Inr r | Fail e \<Rightarrow> Inl e)"
    and step_left: "step p s = Continue s' \<Longrightarrow> left p s' < left p s"
begin

lemma run_induct [case_names step]:
  assumes "\<And>s. (\<And>s'. step p s = Continue s' \<Longrightarrow> P s') \<Longrightarrow> P s"
  shows "P s"
proof (induction "left p s" arbitrary: s rule: less_induct)
  case less
  show ?case by (rule assms) (blast intro: less step_left)
qed

lemma exec_Continue: "step p s = Continue s' \<Longrightarrow> exec p s = exec p s'"
  by (subst exec_unfold) simp

lemma exec_Return: "step p s = Return r \<Longrightarrow> exec p s = Inr r"
  by (subst exec_unfold) simp

lemma exec_Fail: "step p s = Fail e \<Longrightarrow> exec p s = Inl e"
  by (subst exec_unfold) simp

text \<open>A step invariant says how the run can end: it returns, or fails in a way that a step
  from the invariant can.\<close>

lemma exec_result:
  assumes "I s"
    and "\<And>s s'. I s \<Longrightarrow> step p s = Continue s' \<Longrightarrow> I s'"
    and "\<And>s e. I s \<Longrightarrow> step p s = Fail e \<Longrightarrow> E e"
  shows "(\<exists>r. exec p s = Inr r) \<or> (\<exists>e. exec p s = Inl e \<and> E e)"
  using \<open>I s\<close>
proof (induction s rule: run_induct [of p])
  case (step s)
  show ?case
  proof (cases "step p s")
    case (Continue s')
    then show ?thesis using step.IH assms(2) step.prems by (auto simp: exec_Continue)
  next
    case (Return r)
    then show ?thesis by (auto simp: exec_Return)
  next
    case (Fail e)
    then show ?thesis using assms(3) step.prems by (auto simp: exec_Fail)
  qed
qed

lemma exec_returns:
  assumes "I s"
    and "\<And>s s'. I s \<Longrightarrow> step p s = Continue s' \<Longrightarrow> I s'"
    and "\<And>s e. I s \<Longrightarrow> step p s \<noteq> Fail e"
  shows "\<exists>r. exec p s = Inr r"
  using exec_result[where I = I and E = "\<lambda>_. False" and p = p and s = s] assms by blast

end

section \<open>The halves of a 64-bit word\<close>

definition hi32 :: "u64 \<Rightarrow> u32" where
  "hi32 v = ucast (drop_bit 32 v)"

definition lo32 :: "u64 \<Rightarrow> u32" where
  "lo32 v = ucast v"

lemma bit_hi32: "bit (hi32 v) n \<longleftrightarrow> n < 32 \<and> bit v (n + 32)"
proof -
  have "bit (hi32 v) n \<longleftrightarrow> n < 32 \<and> bit v (32 + n)"
    unfolding hi32_def bit_ucast_iff bit_drop_bit_eq comp_def by simp
  then show ?thesis by (simp only: add.commute[of n 32])
qed

lemma bit_lo32: "bit (lo32 v) n \<longleftrightarrow> n < 32 \<and> bit v n"
  unfolding lo32_def bit_ucast_iff by simp

lemma halves_eq_iff: "v = w \<longleftrightarrow> hi32 v = hi32 w \<and> lo32 v = lo32 w"
proof
  assume h: "hi32 v = hi32 w \<and> lo32 v = lo32 w"
  show "v = w"
  proof (rule bit_word_eqI)
    fix n assume "n < LENGTH(64)"
    show "bit v n \<longleftrightarrow> bit w n"
    proof (cases "n < 32")
      case True
      then show ?thesis using h bit_lo32[of v n] bit_lo32[of w n] by simp
    next
      case False
      then have "n - 32 < 32" "n - 32 + 32 = n" using \<open>n < LENGTH(64)\<close> by auto
      then show ?thesis using h bit_hi32[of v "n - 32"] bit_hi32[of w "n - 32"] by simp
    qed
  qed
qed simp

lemma unat_halves: "unat v = unat (hi32 v) * 2 ^ 32 + unat (lo32 v)"
proof -
  have "unat (hi32 v) = unat v div 2 ^ 32"
  proof -
    have "unat v < 2 ^ 64" using unat_bound[of v] by simp
    then have "unat v div 2 ^ 32 < 2 ^ 32" by (simp add: less_mult_imp_div_less)
    moreover have "unat (drop_bit 32 v) = unat v div 2 ^ 32"
      unfolding unsigned_drop_bit_eq
      using \<open>unat v < 2 ^ 64\<close> by (simp add: drop_bit_eq_div take_bit_nat_eq_self)
    ultimately show ?thesis
      unfolding hi32_def unsigned_ucast_eq by (simp add: take_bit_eq_mod)
  qed
  moreover have "unat (lo32 v) = unat v mod 2 ^ 32"
    by (simp add: lo32_def unsigned_ucast_eq take_bit_eq_mod)
  ultimately show ?thesis by simp
qed

lemma halves_less_iff:
  "v < w \<longleftrightarrow> hi32 v < hi32 w \<or> hi32 v = hi32 w \<and> lo32 v < lo32 w"
proof -
  have "unat (lo32 v) < 2 ^ 32" "unat (lo32 w) < 2 ^ 32"
    using unat_bound[of "lo32 v"] unat_bound[of "lo32 w"] by simp_all
  then have "unat v < unat w \<longleftrightarrow> unat (hi32 v) < unat (hi32 w)
      \<or> unat (hi32 v) = unat (hi32 w) \<and> unat (lo32 v) < unat (lo32 w)"
    unfolding unat_halves[of v] unat_halves[of w] by auto
  then show ?thesis
    by (simp add: word_less_nat_alt unsigned_word_eqI[symmetric] word_unat_eq_iff)
qed

lemma halves_and: "hi32 (v AND w) = hi32 v AND hi32 w" "lo32 (v AND w) = lo32 v AND lo32 w"
  by (rule bit_word_eqI, auto simp: bit_hi32 bit_lo32 bit_and_iff)+

lemma halves_0 [simp]: "hi32 0 = 0" "lo32 0 = 0"
  by (simp_all add: hi32_def lo32_def)

end
