(* ===== verification/Cbpf.thy ===== *)
theory Cbpf
  imports Prelude
begin

text \<open>
  Classic BPF as seccomp runs it. The instruction format and the kernel's constants are those
  of \<^verbatim>\<open>rustlet-sys/src/seccomp.rs\<close>; the decoder, the load-time checks and the
  interpreter are those of \<^verbatim>\<open>rustlet-runtime/src/seccomp/interp.rs\<close>. The main result
  is that a program the checks accept always runs to a verdict: it never falls off its end,
  reads outside \<open>seccomp_data\<close> or reaches a panic.
\<close>

section \<open>Instructions\<close>

record SockFilter =
  sf_code :: u16
  sf_jt :: u8
  sf_jf :: u8
  sf_k :: u32

definition SockFilter_stmt :: "u16 \<Rightarrow> u32 \<Rightarrow> SockFilter" where
  "SockFilter_stmt code k = \<lparr>sf_code = code, sf_jt = 0, sf_jf = 0, sf_k = k\<rparr>"

definition SockFilter_jump :: "u16 \<Rightarrow> u32 \<Rightarrow> u8 \<Rightarrow> u8 \<Rightarrow> SockFilter" where
  "SockFilter_jump code k jt jf = \<lparr>sf_code = code, sf_jt = jt, sf_jf = jf, sf_k = k\<rparr>"

lemma SockFilter_sel [simp]:
  "sf_code (SockFilter_stmt c k) = c" "sf_k (SockFilter_stmt c k) = k"
  "sf_code (SockFilter_jump c k t f) = c" "sf_k (SockFilter_jump c k t f) = k"
  "sf_jt (SockFilter_jump c k t f) = t" "sf_jf (SockFilter_jump c k t f) = f"
  by (simp_all add: SockFilter_stmt_def SockFilter_jump_def)

text \<open>Opcode parts (\<open>op\<close>), verdicts (\<open>ret\<close>), the layout of \<open>seccomp_data\<close>
  (\<open>data\<close>) and the filter flags (\<open>flags\<close>).\<close>

definition BPF_LD :: u16 where [wire]: "BPF_LD = 0x00"
definition BPF_LDX :: u16 where [wire]: "BPF_LDX = 0x01"
definition BPF_ST :: u16 where [wire]: "BPF_ST = 0x02"
definition BPF_STX :: u16 where [wire]: "BPF_STX = 0x03"
definition BPF_ALU :: u16 where [wire]: "BPF_ALU = 0x04"
definition BPF_JMP :: u16 where [wire]: "BPF_JMP = 0x05"
definition BPF_RET :: u16 where [wire]: "BPF_RET = 0x06"
definition BPF_MISC :: u16 where [wire]: "BPF_MISC = 0x07"
definition BPF_W :: u16 where [wire]: "BPF_W = 0x00"
definition BPF_ABS :: u16 where [wire]: "BPF_ABS = 0x20"
definition BPF_IMM :: u16 where [wire]: "BPF_IMM = 0x00"
definition BPF_MEM :: u16 where [wire]: "BPF_MEM = 0x60"
definition BPF_LEN :: u16 where [wire]: "BPF_LEN = 0x80"
definition BPF_AND :: u16 where [wire]: "BPF_AND = 0x50"
definition BPF_JA :: u16 where [wire]: "BPF_JA = 0x00"
definition BPF_JEQ :: u16 where [wire]: "BPF_JEQ = 0x10"
definition BPF_JGT :: u16 where [wire]: "BPF_JGT = 0x20"
definition BPF_JGE :: u16 where [wire]: "BPF_JGE = 0x30"
definition BPF_JSET :: u16 where [wire]: "BPF_JSET = 0x40"
definition BPF_K :: u16 where [wire]: "BPF_K = 0x00"
definition BPF_X :: u16 where [wire]: "BPF_X = 0x08"
definition BPF_A :: u16 where [wire]: "BPF_A = 0x10"
definition BPF_TAX :: u16 where [wire]: "BPF_TAX = 0x00"
definition BPF_TXA :: u16 where [wire]: "BPF_TXA = 0x80"

definition BPF_MAXINSNS :: nat where "BPF_MAXINSNS = 4096"
definition BPF_MEMWORDS :: u32 where [wire]: "BPF_MEMWORDS = 16"

definition RET_KILL_PROCESS :: u32 where [wire]: "RET_KILL_PROCESS = 0x80000000"
definition RET_KILL_THREAD :: u32 where [wire]: "RET_KILL_THREAD = 0x00000000"
definition RET_TRAP :: u32 where [wire]: "RET_TRAP = 0x00030000"
definition RET_ERRNO :: u32 where [wire]: "RET_ERRNO = 0x00050000"
definition RET_USER_NOTIF :: u32 where [wire]: "RET_USER_NOTIF = 0x7fc00000"
definition RET_TRACE :: u32 where [wire]: "RET_TRACE = 0x7ff00000"
definition RET_LOG :: u32 where [wire]: "RET_LOG = 0x7ffc0000"
definition RET_ALLOW :: u32 where [wire]: "RET_ALLOW = 0x7fff0000"
definition RET_DATA_MASK :: u32 where [wire]: "RET_DATA_MASK = 0x0000ffff"
definition RET_ACTION_FULL_MASK :: u32 where [wire]: "RET_ACTION_FULL_MASK = 0xffff0000"

definition DATA_NR :: u32 where [wire]: "DATA_NR = 0"
definition DATA_ARCH :: u32 where [wire]: "DATA_ARCH = 4"
definition DATA_ARGS :: u32 where [wire]: "DATA_ARGS = 16"

definition AUDIT_ARCH_X86_64 :: u32 where [wire]: "AUDIT_ARCH_X86_64 = 0xc000003e"
definition X32_SYSCALL_BIT :: u32 where [wire]: "X32_SYSCALL_BIT = 0x40000000"

definition FLAG_TSYNC :: u32 where [wire]: "FLAG_TSYNC = 1"
definition FLAG_LOG :: u32 where [wire]: "FLAG_LOG = 2"
definition FLAG_SPEC_ALLOW :: u32 where [wire]: "FLAG_SPEC_ALLOW = 4"

section \<open>What a filter sees of a syscall\<close>

text \<open>
  \<open>nr\<close> is the bit pattern of the \<open>i32\<close> (the code only ever reads it \<open>as u32\<close>);
  \<open>args\<close> is the array of six words, read at the indices 0 to 5 only.
\<close>

record SeccompData =
  sd_nr :: u32
  sd_arch :: u32
  sd_instruction_pointer :: u64
  sd_args :: "nat \<Rightarrow> u64"

definition SeccompData_SIZE :: u32 where [wire]: "SeccompData_SIZE = 64"

definition SeccompData_x86_64 :: "u32 \<Rightarrow> (nat \<Rightarrow> u64) \<Rightarrow> SeccompData" where
  "SeccompData_x86_64 nr args =
     \<lparr>sd_nr = nr, sd_arch = AUDIT_ARCH_X86_64, sd_instruction_pointer = 0, sd_args = args\<rparr>"

definition lo_hi :: "u64 \<Rightarrow> bool \<Rightarrow> u32" where
  "lo_hi v high = (if high then hi32 v else lo32 v)"

definition SeccompData_word :: "SeccompData \<Rightarrow> u32 \<Rightarrow> u32 option" where
  "SeccompData_word d offset =
     (if offset = 0 then Some (sd_nr d)
      else if offset = 4 then Some (sd_arch d)
      else if offset = 8 \<or> offset = 12 then Some (lo_hi (sd_instruction_pointer d) (offset = 12))
      else if 16 \<le> offset \<and> offset \<le> 60 \<and> offset mod 4 = 0
        then Some (lo_hi (sd_args d ((unat offset - 16) div 8)) (offset mod 8 = 4))
      else None)"

section \<open>Decoding\<close>

datatype Src = Src_K u32 | Src_X

datatype Alu = Add | Sub | Mul | Div | And | Or | Xor | Lsh | Rsh

datatype Jmp = JEq | JGt | JGe | JSet

datatype Insn =
    LdAbs u32
  | LdImm u32
  | LdxImm u32
  | LdMem u32
  | LdxMem u32
  | St u32
  | Stx u32
  | Alu Alu Src
  | Neg
  | Tax
  | Txa
  | Ja u32
  | Jmp Jmp Src u8 u8
  | RetK u32
  | RetA

definition decode_alu :: "u16 \<Rightarrow> Alu option" where
  "decode_alu x =
     (if x = 0x00 then Some Add
      else if x = 0x10 then Some Sub
      else if x = 0x20 then Some Mul
      else if x = 0x30 then Some Div
      else if x = 0x40 then Some Or
      else if x = BPF_AND then Some And
      else if x = 0x60 then Some Lsh
      else if x = 0x70 then Some Rsh
      else if x = 0xa0 then Some Xor
      else None)"

definition decode_jmp :: "u16 \<Rightarrow> Jmp option" where
  "decode_jmp x =
     (if x = BPF_JMP OR BPF_JEQ then Some JEq
      else if x = BPF_JMP OR BPF_JGT then Some JGt
      else if x = BPF_JMP OR BPF_JGE then Some JGe
      else if x = BPF_JMP OR BPF_JSET then Some JSet
      else None)"

definition decode :: "SockFilter \<Rightarrow> Insn option" where
  "decode insn =
     (let k = sf_k insn; c = sf_code insn;
          src = (if c AND BPF_X \<noteq> 0 then Src_X else Src_K k)
      in if c = BPF_LD OR BPF_W OR BPF_ABS then Some (LdAbs k)
         else if c = BPF_LD OR BPF_W OR BPF_LEN then Some (LdImm SeccompData_SIZE)
         else if c = BPF_LDX OR BPF_W OR BPF_LEN then Some (LdxImm SeccompData_SIZE)
         else if c = BPF_LD OR BPF_IMM then Some (LdImm k)
         else if c = BPF_LDX OR BPF_IMM then Some (LdxImm k)
         else if c = BPF_LD OR BPF_MEM then Some (LdMem k)
         else if c = BPF_LDX OR BPF_MEM then Some (LdxMem k)
         else if c = BPF_ST then Some (St k)
         else if c = BPF_STX then Some (Stx k)
         else if c = BPF_MISC OR BPF_TAX then Some Tax
         else if c = BPF_MISC OR BPF_TXA then Some Txa
         else if c = BPF_ALU OR 0x80 then Some Neg
         else if c AND 0x07 = BPF_ALU \<and> c AND NOT 0xf8 = BPF_ALU
           then map_option (\<lambda>alu. Alu alu src) (decode_alu (c AND 0xf0))
         else if c = BPF_JMP OR BPF_JA then Some (Ja k)
         else if c AND 0x07 = BPF_JMP
           then map_option (\<lambda>jmp. Jmp jmp src (sf_jt insn) (sf_jf insn)) (decode_jmp (c AND NOT BPF_X))
         else if c = BPF_RET OR BPF_K then Some (RetK k)
         else if c = BPF_RET OR BPF_A then Some RetA
         else None)"

section \<open>The load-time checks\<close>

text \<open>The errors the interpreter reports, each with what its message says. \<open>Panicked\<close>
  stands for an array index out of range or a failed \<open>expect\<close>.\<close>

datatype InterpError =
    BadLength nat
  | NotAllowed nat u16
  | BadLoad nat u32
  | NoScratch nat u32
  | DivisionByZero nat
  | BadShift nat u32
  | JumpPastEnd nat
  | NoRetAtEnd
  | UninitializedMemory nat u32
  | FellOffEnd nat
  | LoadOutOfRange nat u32
  | Panicked

text \<open>The \<open>match\<close> of \<open>check\<close>'s loop, for the instruction \<open>insn\<close> at \<open>pc\<close> of a
  program of \<open>len\<close> instructions.\<close>

fun check_insn :: "nat \<Rightarrow> nat \<Rightarrow> Insn \<Rightarrow> InterpError + unit" where
  "check_insn len pc (LdAbs k) =
     (if k \<ge> SeccompData_SIZE \<or> k mod 4 \<noteq> 0 then Inl (BadLoad pc k) else Inr ())"
| "check_insn len pc (LdMem k) = (if k \<ge> BPF_MEMWORDS then Inl (NoScratch pc k) else Inr ())"
| "check_insn len pc (LdxMem k) = (if k \<ge> BPF_MEMWORDS then Inl (NoScratch pc k) else Inr ())"
| "check_insn len pc (St k) = (if k \<ge> BPF_MEMWORDS then Inl (NoScratch pc k) else Inr ())"
| "check_insn len pc (Stx k) = (if k \<ge> BPF_MEMWORDS then Inl (NoScratch pc k) else Inr ())"
| "check_insn len pc (Alu Div (Src_K k)) = (if k = 0 then Inl (DivisionByZero pc) else Inr ())"
| "check_insn len pc (Alu Lsh (Src_K k)) = (if k \<ge> 32 then Inl (BadShift pc k) else Inr ())"
| "check_insn len pc (Alu Rsh (Src_K k)) = (if k \<ge> 32 then Inl (BadShift pc k) else Inr ())"
| "check_insn len pc (Ja k) = (if \<not> pc + 1 + unat k < len then Inl (JumpPastEnd pc) else Inr ())"
| "check_insn len pc (Jmp _ _ jt jf) =
     (if \<not> pc + 1 + unat jt < len \<or> \<not> pc + 1 + unat jf < len then Inl (JumpPastEnd pc) else Inr ())"
| "check_insn len pc _ = Inr ()"

fun check_loop :: "nat \<Rightarrow> nat \<Rightarrow> SockFilter list \<Rightarrow> InterpError + unit" where
  "check_loop len pc [] = Inr ()"
| "check_loop len pc (raw # rest) =
     (case decode raw of
        None \<Rightarrow> Inl (NotAllowed pc (sf_code raw))
      | Some insn \<Rightarrow>
          (case check_insn len pc insn of
             Inl e \<Rightarrow> Inl e
           | Inr _ \<Rightarrow> check_loop len (pc + 1) rest))"

text \<open>\<open>valid_at[i] &= valid\<close>, with the index check of a slice.\<close>

definition and_at :: "u16 list \<Rightarrow> nat \<Rightarrow> u16 \<Rightarrow> InterpError + u16 list" where
  "and_at valid_at i valid =
     (if i < length valid_at then Inr (valid_at[i := valid_at ! i AND valid]) else Inl Panicked)"

text \<open>\<open>1u16 << k\<close>: an overflow for \<open>k \<ge> 16\<close>.\<close>

definition mem_bit :: "u32 \<Rightarrow> InterpError + u16" where
  "mem_bit k = (if unat k < 16 then Inr (push_bit (unat k) 1) else Inl Panicked)"

text \<open>One iteration of \<open>check_memory\<close>'s loop over \<open>(valid_at, valid)\<close>.\<close>

fun check_memory_step ::
    "nat \<Rightarrow> Insn option \<Rightarrow> u16 list \<Rightarrow> u16 \<Rightarrow> InterpError + (u16 list \<times> u16)" where
  "check_memory_step pc (Some (St k)) valid_at valid =
     bind_result (mem_bit k) (\<lambda>b. Inr (valid_at, valid OR b))"
| "check_memory_step pc (Some (Stx k)) valid_at valid =
     bind_result (mem_bit k) (\<lambda>b. Inr (valid_at, valid OR b))"
| "check_memory_step pc (Some (LdMem k)) valid_at valid =
     bind_result (mem_bit k) (\<lambda>b.
       if valid AND b = 0 then Inl (UninitializedMemory pc k) else Inr (valid_at, valid))"
| "check_memory_step pc (Some (LdxMem k)) valid_at valid =
     bind_result (mem_bit k) (\<lambda>b.
       if valid AND b = 0 then Inl (UninitializedMemory pc k) else Inr (valid_at, valid))"
| "check_memory_step pc (Some (Ja k)) valid_at valid =
     bind_result (and_at valid_at (pc + 1 + unat k) valid) (\<lambda>v. Inr (v, - 1))"
| "check_memory_step pc (Some (Jmp _ _ jt jf)) valid_at valid =
     bind_result (and_at valid_at (pc + 1 + unat jt) valid) (\<lambda>v.
     bind_result (and_at v (pc + 1 + unat jf) valid) (\<lambda>v'. Inr (v', - 1)))"
| "check_memory_step pc _ valid_at valid = Inr (valid_at, valid)"

fun check_memory_loop ::
    "nat \<Rightarrow> SockFilter list \<Rightarrow> u16 list \<Rightarrow> u16 \<Rightarrow> InterpError + unit" where
  "check_memory_loop pc [] valid_at valid = Inr ()"
| "check_memory_loop pc (raw # rest) valid_at valid =
     bind_result (check_memory_step pc (decode raw) valid_at (valid AND valid_at ! pc))
       (\<lambda>(valid_at', valid'). check_memory_loop (pc + 1) rest valid_at' valid')"

definition check_memory :: "SockFilter list \<Rightarrow> InterpError + unit" where
  "check_memory program = check_memory_loop 0 program (replicate (length program) (- 1)) 0"

definition is_ret :: "Insn option \<Rightarrow> bool" where
  "is_ret i = (case i of Some (RetK _) \<Rightarrow> True | Some RetA \<Rightarrow> True | _ \<Rightarrow> False)"

definition check :: "SockFilter list \<Rightarrow> InterpError + unit" where
  "check program =
     (let len = length program
      in if len = 0 \<or> len > BPF_MAXINSNS then Inl (BadLength len)
         else bind_result (check_loop len 0 program) (\<lambda>_.
           if \<not> is_ret (decode (program ! (len - 1))) then Inl NoRetAtEnd
           else check_memory program))"

section \<open>Execution\<close>

record Machine =
  m_pc :: nat
  m_a :: u32
  m_x :: u32
  m_mem :: "u32 list"

definition Machine_init :: Machine where
  "Machine_init = \<lparr>m_pc = 0, m_a = 0, m_x = 0, m_mem = replicate 16 0\<rparr>"

definition src_value :: "Src \<Rightarrow> u32 \<Rightarrow> u32" where
  "src_value src x = (case src of Src_K k \<Rightarrow> k | Src_X \<Rightarrow> x)"

text \<open>\<open>None\<close>: the program returns 0, classic BPF's answer to a division by X = 0.\<close>

fun alu_value :: "Alu \<Rightarrow> u32 \<Rightarrow> u32 \<Rightarrow> u32 option" where
  "alu_value Add a v = Some (a + v)"
| "alu_value Sub a v = Some (a - v)"
| "alu_value Mul a v = Some (a * v)"
| "alu_value Div a v = (if v = 0 then None else Some (a div v))"
| "alu_value And a v = Some (a AND v)"
| "alu_value Or a v = Some (a OR v)"
| "alu_value Xor a v = Some (a XOR v)"
| "alu_value Lsh a v = Some (push_bit (unat v mod 32) a)"
| "alu_value Rsh a v = Some (drop_bit (unat v mod 32) a)"

fun jmp_taken :: "Jmp \<Rightarrow> u32 \<Rightarrow> u32 \<Rightarrow> bool" where
  "jmp_taken JEq a v = (a = v)"
| "jmp_taken JGt a v = (a > v)"
| "jmp_taken JGe a v = (a \<ge> v)"
| "jmp_taken JSet a v = (a AND v \<noteq> 0)"

text \<open>The \<open>match insn\<close> of the loop; \<open>s\<close> already has \<open>pc += 1\<close> done.\<close>

fun exec_insn :: "SeccompData \<Rightarrow> Insn \<Rightarrow> Machine \<Rightarrow> (Machine, InterpError, u32) flow" where
  "exec_insn data (LdAbs k) s =
     (case SeccompData_word data k of
        Some w \<Rightarrow> Continue (s\<lparr>m_a := w\<rparr>)
      | None \<Rightarrow> Fail (LoadOutOfRange (m_pc s - 1) k))"
| "exec_insn data (LdImm k) s = Continue (s\<lparr>m_a := k\<rparr>)"
| "exec_insn data (LdxImm k) s = Continue (s\<lparr>m_x := k\<rparr>)"
| "exec_insn data (LdMem k) s =
     (if unat k < length (m_mem s) then Continue (s\<lparr>m_a := m_mem s ! unat k\<rparr>) else Fail Panicked)"
| "exec_insn data (LdxMem k) s =
     (if unat k < length (m_mem s) then Continue (s\<lparr>m_x := m_mem s ! unat k\<rparr>) else Fail Panicked)"
| "exec_insn data (St k) s =
     (if unat k < length (m_mem s)
      then Continue (s\<lparr>m_mem := (m_mem s)[unat k := m_a s]\<rparr>) else Fail Panicked)"
| "exec_insn data (Stx k) s =
     (if unat k < length (m_mem s)
      then Continue (s\<lparr>m_mem := (m_mem s)[unat k := m_x s]\<rparr>) else Fail Panicked)"
| "exec_insn data (Alu alu src) s =
     (case alu_value alu (m_a s) (src_value src (m_x s)) of
        None \<Rightarrow> Return 0
      | Some v \<Rightarrow> Continue (s\<lparr>m_a := v\<rparr>))"
| "exec_insn data Neg s = Continue (s\<lparr>m_a := - m_a s\<rparr>)"
| "exec_insn data Tax s = Continue (s\<lparr>m_x := m_a s\<rparr>)"
| "exec_insn data Txa s = Continue (s\<lparr>m_a := m_x s\<rparr>)"
| "exec_insn data (Ja k) s = Continue (s\<lparr>m_pc := m_pc s + unat k\<rparr>)"
| "exec_insn data (Jmp jmp src jt jf) s =
     Continue (s\<lparr>m_pc := m_pc s
       + (if jmp_taken jmp (m_a s) (src_value src (m_x s)) then unat jt else unat jf)\<rparr>)"
| "exec_insn data (RetK k) s = Return k"
| "exec_insn data RetA s = Return (m_a s)"

definition run_step ::
    "SockFilter list \<times> SeccompData \<Rightarrow> Machine \<Rightarrow> (Machine, InterpError, u32) flow" where
  "run_step p s =
     (if m_pc s < length (fst p)
      then (case decode (fst p ! m_pc s) of
              None \<Rightarrow> Fail Panicked
            | Some insn \<Rightarrow> exec_insn (snd p) insn (s\<lparr>m_pc := m_pc s + 1\<rparr>))
      else Fail (FellOffEnd (m_pc s)))"

lemma exec_insn_pc: "exec_insn data insn s = Continue s' \<Longrightarrow> m_pc s \<le> m_pc s'"
  by (cases insn) (auto split: option.splits if_splits)

lemma run_step_pc:
  "run_step p s = Continue s' \<Longrightarrow> m_pc s < length (fst p) \<and> m_pc s < m_pc s'"
  unfolding run_step_def
  by (fastforce dest: exec_insn_pc split: if_splits option.splits)

function run_loop :: "SockFilter list \<times> SeccompData \<Rightarrow> Machine \<Rightarrow> InterpError + u32" where
  "run_loop p s =
     (case run_step p s of
        Continue s' \<Rightarrow> run_loop p s'
      | Return r \<Rightarrow> Inr r
      | Fail e \<Rightarrow> Inl e)"
  by pat_completeness auto
termination
  by (relation "measure (\<lambda>(p, s). length (fst p) - m_pc s)") (auto dest!: run_step_pc)

declare run_loop.simps [simp del]

definition run :: "SockFilter list \<Rightarrow> SeccompData \<Rightarrow> InterpError + u32" where
  "run program data = bind_result (check program) (\<lambda>_. run_loop (program, data) Machine_init)"

interpretation cbpf: forward_machine run_step run_loop "\<lambda>p s. length (fst p) - m_pc s"
proof
  fix p s
  show "run_loop p s = (case run_step p s of Continue s' \<Rightarrow> run_loop p s'
      | Return r \<Rightarrow> Inr r | Fail e \<Rightarrow> Inl e)"
    by (rule run_loop.simps)
next
  fix p s s'
  assume "run_step p s = Continue s'"
  then show "length (fst p) - m_pc s' < length (fst p) - m_pc s"
    using run_step_pc by fastforce
qed

section \<open>Checked programs run to a verdict\<close>

lemma SeccompData_word_defined:
  assumes "k < SeccompData_SIZE" and "k mod 4 = 0"
  shows "\<exists>w. SeccompData_word d k = Some w"
proof -
  have "unat k < 64" using assms(1) by (simp add: wire word_less_nat_alt)
  moreover have "unat k mod 4 = 0"
    using arg_cong[OF assms(2), of unat] by (simp add: unat_mod)
  ultimately have "unat k \<in> {0, 4, 8, 12} \<or> 16 \<le> unat k \<and> unat k \<le> 60" by auto
  then have "k \<in> {0, 4, 8, 12} \<or> 16 \<le> k \<and> k \<le> 60"
    by (simp add: word_le_nat_alt word_unat_eq_iff)
  with assms(2) show ?thesis unfolding SeccompData_word_def by auto
qed

lemma check_LdAbs:
  assumes "check_insn len pc (LdAbs k) = Inr ()"
  shows "\<exists>w. SeccompData_word d k = Some w"
proof -
  have "\<not> (SeccompData_SIZE \<le> k \<or> k mod 4 \<noteq> 0)"
    using assms unfolding check_insn.simps by (meson sum.distinct(1))
  then have "k < SeccompData_SIZE" and "k mod 4 = 0" by (simp_all add: not_le)
  then show ?thesis by (rule SeccompData_word_defined)
qed

lemma check_loop_nth:
  assumes "check_loop len pc prog = Inr ()" and "i < length prog"
  shows "\<exists>insn. decode (prog ! i) = Some insn \<and> check_insn len (pc + i) insn = Inr ()"
  using assms
proof (induction prog arbitrary: pc i)
  case (Cons raw rest)
  from Cons.prems(1) obtain insn where insn: "decode raw = Some insn"
      "check_insn len pc insn = Inr ()" "check_loop len (pc + 1) rest = Inr ()"
    by (auto split: option.splits sum.splits)
  show ?case
  proof (cases i)
    case 0
    with insn show ?thesis by simp
  next
    case (Suc j)
    with Cons.IH[OF insn(3), of j] Cons.prems(2) show ?thesis by simp
  qed
qed simp

lemma check_okD:
  assumes "check program = Inr ()"
  shows "0 < length program" and "length program \<le> BPF_MAXINSNS"
    and "check_loop (length program) 0 program = Inr ()"
    and "is_ret (decode (program ! (length program - 1)))"
    and "check_memory program = Inr ()"
  using assms
  by (auto simp: check_def Let_def bind_result_Inr_iff split: if_splits)

lemma check_nth:
  assumes "check program = Inr ()" and "i < length program"
  shows "\<exists>insn. decode (program ! i) = Some insn \<and> check_insn (length program) i insn = Inr ()"
  using check_loop_nth[OF check_okD(3)[OF assms(1)] assms(2)] by simp

definition machine_ok :: "SockFilter list \<Rightarrow> Machine \<Rightarrow> bool" where
  "machine_ok program s \<longleftrightarrow> m_pc s < length program \<and> length (m_mem s) = 16"

lemma mem_index: "k < BPF_MEMWORDS \<Longrightarrow> unat k < 16"
  by (simp add: wire word_less_nat_alt)

lemma exec_insn_checked:
  assumes "check_insn len pc insn = Inr ()" and "m_pc s = pc + 1" and "length (m_mem s) = 16"
  shows "exec_insn data insn s \<noteq> Fail e"
    and "exec_insn data insn s = Continue s' \<Longrightarrow>
      length (m_mem s') = 16 \<and> (m_pc s' = pc + 1 \<or> m_pc s' < len)"
proof -
  show "exec_insn data insn s \<noteq> Fail e"
  proof (cases insn)
    case (LdAbs k)
    then obtain w where "SeccompData_word data k = Some w"
      using check_LdAbs assms(1) by blast
    with LdAbs show ?thesis by simp
  qed (use assms in \<open>auto dest: mem_index split: option.splits if_splits simp: not_le\<close>)
  show "exec_insn data insn s = Continue s' \<Longrightarrow>
      length (m_mem s') = 16 \<and> (m_pc s' = pc + 1 \<or> m_pc s' < len)"
    using assms by (cases insn) (auto split: option.splits if_splits)
qed

lemma run_step_checked:
  assumes ok: "check program = Inr ()" and inv: "machine_ok program s"
  shows "run_step (program, data) s \<noteq> Fail e"
    and "run_step (program, data) s = Continue s' \<Longrightarrow> machine_ok program s'"
proof -
  let ?t = "s\<lparr>m_pc := m_pc s + 1\<rparr>"
  have pc: "m_pc s < length program" and mem: "length (m_mem s) = 16"
    using inv by (auto simp: machine_ok_def)
  obtain insn where insn: "decode (program ! m_pc s) = Some insn"
      "check_insn (length program) (m_pc s) insn = Inr ()"
    using check_nth[OF ok pc] by blast
  have step: "run_step (program, data) s = exec_insn data insn ?t"
    by (simp add: run_step_def pc insn(1))
  show "run_step (program, data) s \<noteq> Fail e"
    unfolding step by (rule exec_insn_checked(1)[OF insn(2)]) (simp_all add: mem)
  assume go: "run_step (program, data) s = Continue s'"
  have next_pc: "length (m_mem s') = 16 \<and> (m_pc s' = m_pc s + 1 \<or> m_pc s' < length program)"
    using exec_insn_checked(2)[OF insn(2), of ?t data s'] go step mem by simp
  have "m_pc s \<noteq> length program - 1"
  proof
    assume "m_pc s = length program - 1"
    then have "is_ret (Some insn)" using check_okD(4)[OF ok] insn(1) by simp
    then show False using go step by (cases insn) (auto simp: is_ret_def)
  qed
  then show "machine_ok program s'" using next_pc pc by (auto simp: machine_ok_def)
qed

lemma run_loop_checked:
  assumes ok: "check program = Inr ()"
  shows "\<exists>v. run_loop (program, data) Machine_init = Inr v"
proof (rule cbpf.exec_returns[where I = "machine_ok program"])
  show "machine_ok program Machine_init"
    using check_okD(1)[OF ok] by (simp add: machine_ok_def Machine_init_def)
qed (use run_step_checked[OF ok] in blast)+

text \<open>C4: a program that passes the load-time checks runs to a verdict on every syscall: no
  load, memory access or jump goes out of range and it never falls off the end.\<close>

theorem checked_program_returns:
  assumes "check program = Inr ()"
  shows "\<exists>v. run program data = Inr v"
  using run_loop_checked[OF assms] assms by (simp add: run_def)

theorem checked_program_returns_witness:
  "\<exists>v. run [SockFilter_stmt (BPF_LD OR BPF_W OR BPF_ABS) 4, SockFilter_stmt (BPF_RET OR BPF_K) 7]
     (SeccompData_x86_64 1 (\<lambda>_. 0)) = Inr v"
proof (rule checked_program_returns)
  show "check [SockFilter_stmt (BPF_LD OR BPF_W OR BPF_ABS) 4, SockFilter_stmt (BPF_RET OR BPF_K) 7] = Inr ()"
    by (simp add: check_def check_memory_def decode_def SockFilter_stmt_def is_ret_def BPF_MAXINSNS_def Let_def wire)
qed

end
