(* ===== verification/Assembler.thy ===== *)
theory Assembler
  imports Cbpf
begin

text \<open>
  The assembler of \<^verbatim>\<open>rustlet-runtime/src/seccomp/asm.rs\<close>: symbolic labels in, jump
  offsets out, with trampolines for targets more than 255 instructions away. \<open>isem\<close> says
  what a symbolic program means; the refinement lemma says that the assembled instructions
  compute exactly that, and the totality lemma that the assembler does not panic on a
  program whose labels are placed after the jumps to them.
\<close>

section \<open>Programs under construction\<close>

type_synonym Label = nat

datatype To = Next | L Label

datatype Item =
    ILabel Label
  | IStmt SockFilter
  | IJump u16 u32 To To
  | IJa Label

record Program =
  p_items :: "Item list"
  p_labels :: nat

definition Program_default :: Program where
  "Program_default = \<lparr>p_items = [], p_labels = 0\<rparr>"

definition new_label :: "Program \<Rightarrow> Label \<times> Program" where
  "new_label p = (p_labels p, p\<lparr>p_labels := p_labels p + 1\<rparr>)"

definition push_item :: "Item \<Rightarrow> Program \<Rightarrow> Program" where
  "push_item i p = p\<lparr>p_items := p_items p @ [i]\<rparr>"

definition p_place :: "Label \<Rightarrow> Program \<Rightarrow> Program" where
  "p_place l p = push_item (ILabel l) p"

definition p_stmt :: "u16 \<Rightarrow> u32 \<Rightarrow> Program \<Rightarrow> Program" where
  "p_stmt code k p = push_item (IStmt (SockFilter_stmt code k)) p"

definition p_ld :: "u32 \<Rightarrow> Program \<Rightarrow> Program" where
  "p_ld offset p = p_stmt (BPF_LD OR BPF_W OR BPF_ABS) offset p"

definition p_and :: "u32 \<Rightarrow> Program \<Rightarrow> Program" where
  "p_and m p = p_stmt (BPF_ALU OR BPF_AND OR BPF_K) m p"

definition p_ret :: "u32 \<Rightarrow> Program \<Rightarrow> Program" where
  "p_ret action p = p_stmt (BPF_RET OR BPF_K) action p"

definition p_jump :: "u16 \<Rightarrow> u32 \<Rightarrow> To \<Rightarrow> To \<Rightarrow> Program \<Rightarrow> Program" where
  "p_jump cmp k jt jf p = push_item (IJump (BPF_JMP OR cmp OR BPF_K) k jt jf) p"

definition p_jeq :: "u32 \<Rightarrow> To \<Rightarrow> To \<Rightarrow> Program \<Rightarrow> Program" where
  "p_jeq k jt jf p = p_jump BPF_JEQ k jt jf p"

definition p_jgt :: "u32 \<Rightarrow> To \<Rightarrow> To \<Rightarrow> Program \<Rightarrow> Program" where
  "p_jgt k jt jf p = p_jump BPF_JGT k jt jf p"

definition p_jge :: "u32 \<Rightarrow> To \<Rightarrow> To \<Rightarrow> Program \<Rightarrow> Program" where
  "p_jge k jt jf p = p_jump BPF_JGE k jt jf p"

definition p_jset :: "u32 \<Rightarrow> To \<Rightarrow> To \<Rightarrow> Program \<Rightarrow> Program" where
  "p_jset k jt jf p = p_jump BPF_JSET k jt jf p"

definition p_ja :: "Label \<Rightarrow> Program \<Rightarrow> Program" where
  "p_ja l p = push_item (IJa l) p"

section \<open>The backward pass\<close>

text \<open>\<open>b_rev\<close> is the program from its last instruction to its first. Every result is
  an option: \<open>None\<close> is a panic.\<close>

record Backwards =
  b_rev :: "SockFilter list"
  b_at :: "nat option list"
  b_nearest :: "nat option list"
  b_trampolines :: nat

definition MAX_OFFSET :: nat where "MAX_OFFSET = 255"

text \<open>\<open>v[l.0]\<close>, both panics in one: the index out of range, the label undefined.\<close>

definition label_at :: "nat option list \<Rightarrow> Label \<Rightarrow> nat option" where
  "label_at v l = (if l < length v then v ! l else None)"

fun resolve_to :: "Backwards \<Rightarrow> To \<Rightarrow> nat \<Rightarrow> nat option" where
  "resolve_to b Next nxt = Some nxt"
| "resolve_to b (L l) nxt = label_at (b_nearest b) l"

definition label_target :: "Backwards \<Rightarrow> Label \<Rightarrow> nat option" where
  "label_target b l = label_at (b_at b) l"

definition b_push :: "SockFilter \<Rightarrow> Backwards \<Rightarrow> Backwards" where
  "b_push insn b = b\<lparr>b_rev := b_rev b @ [insn]\<rparr>"

definition far_jump_to :: "Backwards \<Rightarrow> nat \<Rightarrow> SockFilter option" where
  "far_jump_to b t =
     (if t < length (b_rev b)
      then let tgt = b_rev b ! t
           in Some (if sf_code tgt = BPF_RET OR BPF_K then tgt
                    else SockFilter_stmt (BPF_JMP OR BPF_JA) (of_nat (length (b_rev b) - t - 1)))
      else None)"

fun trampoline :: "Backwards \<Rightarrow> To \<Rightarrow> Backwards option" where
  "trampoline b Next = None"
| "trampoline b (L l) =
     (case label_target b l of
        None \<Rightarrow> None
      | Some t \<Rightarrow>
          (case far_jump_to b t of
             None \<Rightarrow> None
           | Some insn \<Rightarrow>
               if l < length (b_nearest b)
               then Some (b_push insn (b\<lparr>b_nearest := (b_nearest b)[l := Some (length (b_rev b))],
                                       b_trampolines := b_trampolines b + 1\<rparr>))
               else None))"

text \<open>How far a jump emitted next would have to go.\<close>

definition distance :: "Backwards \<Rightarrow> To \<Rightarrow> nat \<Rightarrow> nat" where
  "distance b to nxt =
     (case resolve_to b to nxt of None \<Rightarrow> 0 | Some t \<Rightarrow> length (b_rev b) - t - 1)"

lemma trampoline_distance:
  assumes "trampoline b to = Some b'"
  shows "distance b' to nxt = 0"
    and "distance b' to' nxt \<le> distance b to' nxt + 1"
proof -
  obtain l insn where l: "to = L l" "l < length (b_nearest b)"
      "b' = b_push insn (b\<lparr>b_nearest := (b_nearest b)[l := Some (length (b_rev b))],
                         b_trampolines := b_trampolines b + 1\<rparr>)"
    using assms by (cases to) (auto split: option.splits if_splits)
  then show "distance b' to nxt = 0"
    by (simp add: distance_def label_at_def b_push_def)
  show "distance b' to' nxt \<le> distance b to' nxt + 1"
    using l by (cases to') (auto simp: distance_def label_at_def b_push_def nth_list_update split: option.split)
qed

text \<open>The distance, as far as the limit: what the emission of a jump uses up.\<close>

definition room :: "Backwards \<Rightarrow> To \<Rightarrow> nat \<Rightarrow> nat" where
  "room b to nxt = min (MAX_OFFSET + 1) (distance b to nxt)"

lemma trampoline_room:
  assumes "trampoline b to = Some b'"
    and "Some t = resolve_to b to nxt" and "MAX_OFFSET < length (b_rev b) - Suc t"
  shows "room b' to nxt + room b' to' nxt < room b to nxt + room b to' nxt"
    and "room b' to' nxt + room b' to nxt < room b to' nxt + room b to nxt"
proof -
  have "distance b to nxt > MAX_OFFSET"
    using assms(3) by (simp add: distance_def assms(2)[symmetric])
  then show "room b' to nxt + room b' to' nxt < room b to nxt + room b to' nxt"
    and "room b' to' nxt + room b' to nxt < room b to' nxt + room b to nxt"
    using trampoline_distance(1)[OF assms(1), of nxt] trampoline_distance(2)[OF assms(1), of to' nxt]
    by (simp_all add: MAX_OFFSET_def room_def)
qed

text \<open>The \<open>loop\<close> of \<open>Backwards::jump\<close>. A trampoline brings its own target next to the
  jump and moves the other at most one further away, so the loop ends.\<close>

function jump_loop :: "Backwards \<Rightarrow> u16 \<Rightarrow> u32 \<Rightarrow> To \<Rightarrow> To \<Rightarrow> nat \<Rightarrow> Backwards option" where
  "jump_loop b code k jt jf nxt =
     (case (resolve_to b jt nxt, resolve_to b jf nxt) of
        (Some t, Some f) \<Rightarrow>
          (let n = length (b_rev b)
           in if n \<le> t \<or> n \<le> f then None
              else if n - t - 1 > MAX_OFFSET then
                (case trampoline b jt of None \<Rightarrow> None
                 | Some b' \<Rightarrow> jump_loop b' code k jt jf nxt)
              else if n - f - 1 > MAX_OFFSET then
                (case trampoline b jf of None \<Rightarrow> None
                 | Some b' \<Rightarrow> jump_loop b' code k jt jf nxt)
              else Some (b_push (SockFilter_jump code k (of_nat (n - t - 1)) (of_nat (n - f - 1))) b))
      | _ \<Rightarrow> None)"
  by pat_completeness auto
termination
  by (relation "measure (\<lambda>(b, code, k, jt, jf, nxt). room b jt nxt + room b jf nxt)")
    (auto intro: trampoline_room)

declare jump_loop.simps [simp del]

definition backwards_jump :: "Backwards \<Rightarrow> u16 \<Rightarrow> u32 \<Rightarrow> To \<Rightarrow> To \<Rightarrow> Backwards option" where
  "backwards_jump b code k jt jf =
     (if b_rev b = [] then None else jump_loop b code k jt jf (length (b_rev b) - 1))"

text \<open>The body of \<open>Backwards::run\<close>'s loop.\<close>

fun backwards_item :: "Item \<Rightarrow> Backwards \<Rightarrow> Backwards option" where
  "backwards_item (ILabel l) b =
     (if b_rev b = [] \<or> length (b_at b) \<le> l \<or> length (b_nearest b) \<le> l then None
      else let pos = length (b_rev b) - 1
           in Some (b\<lparr>b_at := (b_at b)[l := Some pos], b_nearest := (b_nearest b)[l := Some pos]\<rparr>))"
| "backwards_item (IStmt s) b = Some (b_push s b)"
| "backwards_item (IJa l) b =
     (case label_target b l of None \<Rightarrow> None
      | Some t \<Rightarrow> (case far_jump_to b t of None \<Rightarrow> None | Some insn \<Rightarrow> Some (b_push insn b)))"
| "backwards_item (IJump code k jt jf) b = backwards_jump b code k jt jf"

fun backwards_loop :: "Item list \<Rightarrow> Backwards \<Rightarrow> Backwards option" where
  "backwards_loop [] b = Some b"
| "backwards_loop (i # is) b =
     (case backwards_item i b of None \<Rightarrow> None | Some b' \<Rightarrow> backwards_loop is b')"

record Assembled =
  a_insns :: "SockFilter list"
  a_trampolines :: nat

definition Backwards_init :: "nat \<Rightarrow> Backwards" where
  "Backwards_init labels =
     \<lparr>b_rev = [], b_at = replicate labels None, b_nearest = replicate labels None, b_trampolines = 0\<rparr>"

definition assemble :: "Program \<Rightarrow> Assembled option" where
  "assemble p =
     (case backwards_loop (rev (p_items p)) (Backwards_init (p_labels p)) of
        None \<Rightarrow> None
      | Some b \<Rightarrow> Some \<lparr>a_insns = rev (b_rev b), a_trampolines = b_trampolines b\<rparr>)"

section \<open>What a symbolic program means\<close>

text \<open>The items behind the next placement of a label.\<close>

fun after :: "Label \<Rightarrow> Item list \<Rightarrow> Item list" where
  "after l [] = []"
| "after l (i # is) = (if i = ILabel l then is else after l is)"

fun landing :: "To \<Rightarrow> Item list \<Rightarrow> Item list" where
  "landing Next is = is"
| "landing (L l) is = after l is"

lemma length_after: "length (after l is) \<le> length is"
  by (induction "is") auto

lemma length_landing: "length (landing to is) \<le> length is"
  by (cases to) (auto simp: length_after)

text \<open>
  The verdict of a symbolic program from a machine state (its \<open>pc\<close> plays no part);
  \<open>None\<close> when it has none.
\<close>

function isem :: "SeccompData \<Rightarrow> Item list \<Rightarrow> Machine \<Rightarrow> u32 option" where
  "isem data [] s = None"
| "isem data (ILabel l # is) s = isem data is s"
| "isem data (IStmt f # is) s =
     (case decode f of
        None \<Rightarrow> None
      | Some insn \<Rightarrow>
          (case exec_insn data insn s of
             Continue s' \<Rightarrow> isem data is s' | Return r \<Rightarrow> Some r | Fail e \<Rightarrow> None))"
| "isem data (IJump code k jt jf # is) s =
     (case decode (SockFilter_jump code k 0 0) of
        Some (Jmp jmp src _ _) \<Rightarrow>
          isem data (landing (if jmp_taken jmp (m_a s) (src_value src (m_x s)) then jt else jf) is) s
      | _ \<Rightarrow> None)"
| "isem data (IJa l # is) s = isem data (after l is) s"
  by pat_completeness auto
termination
  by (relation "measure (\<lambda>(data, is, s). length is)")
    (auto simp: less_Suc_eq_le length_after length_landing)

section \<open>Running a suffix of a program\<close>

definition run_at :: "SockFilter list \<Rightarrow> SeccompData \<Rightarrow> nat \<Rightarrow> Machine \<Rightarrow> u32 option" where
  "run_at code data i s = ok_of (run_loop (code, data) (s\<lparr>m_pc := i\<rparr>))"

lemma val_pc [simp]: "run_at code data i (s\<lparr>m_pc := j\<rparr>) = run_at code data i s"
  by (simp add: run_at_def)

text \<open>An instruction acts on the machine in the same way wherever it stands; only what an
  error says of its place differs.\<close>

abbreviation outcome :: "('s \<Rightarrow> 't) \<Rightarrow> ('s, 'e, 'r) flow \<Rightarrow> ('t, unit, 'r) flow" where
  "outcome f \<equiv> map_flow f (\<lambda>_. ()) id"

lemma exec_insn_move:
  "outcome id (exec_insn data insn (s\<lparr>m_pc := m_pc s + n\<rparr>)) =
   outcome (\<lambda>s'. s'\<lparr>m_pc := m_pc s' + n\<rparr>) (exec_insn data insn s)"
  by (cases insn) (auto split: option.splits)

lemma run_step_Cons:
  "outcome id (run_step (c # code, data) (s\<lparr>m_pc := m_pc s + 1\<rparr>)) =
   outcome (\<lambda>s'. s'\<lparr>m_pc := m_pc s' + 1\<rparr>) (run_step (code, data) s)"
  using exec_insn_move[of data _ "s\<lparr>m_pc := m_pc s + 1\<rparr>" 1]
  by (auto simp: run_step_def split: option.split)

lemma run_loop_Cons:
  "ok_of (run_loop (c # code, data) (s\<lparr>m_pc := m_pc s + 1\<rparr>)) = ok_of (run_loop (code, data) s)"
proof (induction s rule: cbpf.run_induct [of "(code, data)"])
  case (step s)
  show ?case
    using run_step_Cons[of c code data s] step.IH
    by (cases "run_step (code, data) s"; cases "run_step (c # code, data) (s\<lparr>m_pc := m_pc s + 1\<rparr>)")
      (auto simp: cbpf.exec_Continue cbpf.exec_Return cbpf.exec_Fail)
qed

lemma val_Cons_Suc: "run_at (c # code) data (Suc i) s = run_at code data i s"
  using run_loop_Cons[of c code data "s\<lparr>m_pc := i\<rparr>"] by (simp add: run_at_def)

fun plain_insn :: "Insn \<Rightarrow> bool" where
  "plain_insn (Ja _) = False"
| "plain_insn (Jmp _ _ _ _) = False"
| "plain_insn _ = True"

lemma exec_plain_pc:
  "plain_insn insn \<Longrightarrow> exec_insn data insn s = Continue s' \<Longrightarrow> m_pc s' = m_pc s"
  by (cases insn) (auto split: option.splits if_splits)

lemma pc_self: "m_pc (t :: Machine) = i \<Longrightarrow> t\<lparr>m_pc := i\<rparr> = t"
  by (cases t) simp

lemma exec_insn_anywhere:
  "outcome (\<lambda>t. t\<lparr>m_pc := 0\<rparr>) (exec_insn data insn (s\<lparr>m_pc := i\<rparr>)) =
   outcome (\<lambda>t. t\<lparr>m_pc := 0\<rparr>) (exec_insn data insn s)"
  by (cases insn) (auto split: option.splits)

lemma val_same_registers: "s\<lparr>m_pc := 0\<rparr> = t\<lparr>m_pc := 0\<rparr> \<Longrightarrow> run_at code data i s = run_at code data i t"
  by (metis val_pc)

lemma val_plain:
  assumes "decode f = Some insn" and "plain_insn insn"
  shows "run_at (f # code) data 0 s =
    (case exec_insn data insn s of
       Continue s' \<Rightarrow> run_at code data 0 s' | Return r \<Rightarrow> Some r | Fail e \<Rightarrow> None)"
proof -
  have step: "run_step (f # code, data) (s\<lparr>m_pc := 0\<rparr>) = exec_insn data insn (s\<lparr>m_pc := 1\<rparr>)"
    by (simp add: run_step_def assms(1))
  note same = exec_insn_anywhere[where data = data and insn = insn and s = s and i = 1]
  show ?thesis
  proof (cases "exec_insn data insn (s\<lparr>m_pc := 1\<rparr>)")
    case (Continue t)
    then have pc: "m_pc t = Suc 0" using exec_plain_pc[OF assms(2) Continue] by simp
    have "run_at (f # code) data 0 s = ok_of (run_loop (f # code, data) t)"
      unfolding run_at_def using step Continue by (simp add: cbpf.exec_Continue)
    also have "\<dots> = run_at (f # code) data (Suc 0) t"
      using pc by (simp add: run_at_def pc_self)
    finally have run: "run_at (f # code) data 0 s = run_at code data 0 t" by (simp add: val_Cons_Suc)
    obtain t' where t': "exec_insn data insn s = Continue t'" "t\<lparr>m_pc := 0\<rparr> = t'\<lparr>m_pc := 0\<rparr>"
      using same Continue by (cases "exec_insn data insn s") auto
    then show ?thesis using run val_same_registers[OF t'(2)] by simp
  next
    case (Return r)
    then show ?thesis
      using same step by (cases "exec_insn data insn s") (auto simp: run_at_def cbpf.exec_Return)
  next
    case (Fail e)
    then show ?thesis
      using same step by (cases "exec_insn data insn s") (auto simp: run_at_def cbpf.exec_Fail)
  qed
qed

lemma val_ja:
  assumes "decode f = Some (Ja k)"
  shows "run_at (f # code) data 0 s = run_at code data (unat k) s"
proof -
  have "run_step (f # code, data) (s\<lparr>m_pc := 0\<rparr>) = Continue (s\<lparr>m_pc := Suc (unat k)\<rparr>)"
    by (simp add: run_step_def assms)
  then have "run_at (f # code) data 0 s = run_at (f # code) data (Suc (unat k)) s"
    unfolding run_at_def by (simp add: cbpf.exec_Continue)
  then show ?thesis by (simp add: val_Cons_Suc)
qed

lemma val_jmp:
  assumes "decode f = Some (Jmp jmp src jt jf)"
  shows "run_at (f # code) data 0 s =
    run_at code data (unat (if jmp_taken jmp (m_a s) (src_value src (m_x s)) then jt else jf)) s"
proof -
  let ?off = "unat (if jmp_taken jmp (m_a s) (src_value src (m_x s)) then jt else jf)"
  have "run_step (f # code, data) (s\<lparr>m_pc := 0\<rparr>) = Continue (s\<lparr>m_pc := Suc ?off\<rparr>)"
    by (simp add: run_step_def assms)
  then have "run_at (f # code) data 0 s = run_at (f # code) data (Suc ?off) s"
    unfolding run_at_def by (simp add: cbpf.exec_Continue)
  then show ?thesis by (simp only: val_Cons_Suc)
qed

lemma val_Nil: "run_at [] data i s = None"
  unfolding run_at_def by (simp add: cbpf.exec_Fail[of _ _ "FellOffEnd i"] run_step_def)

section \<open>Opcodes the assembler writes\<close>

lemma decode_ja: "decode (SockFilter_stmt (BPF_JMP OR BPF_JA) k) = Some (Ja k)"
  by (simp add: decode_def wire)

lemma decode_ret: "sf_code f = BPF_RET OR BPF_K \<Longrightarrow> decode f = Some (RetK (sf_k f))"
  by (simp add: decode_def wire)

fun jmp_code :: "Jmp \<Rightarrow> u16" where
  "jmp_code JEq = BPF_JMP OR BPF_JEQ OR BPF_K"
| "jmp_code JGt = BPF_JMP OR BPF_JGT OR BPF_K"
| "jmp_code JGe = BPF_JMP OR BPF_JGE OR BPF_K"
| "jmp_code JSet = BPF_JMP OR BPF_JSET OR BPF_K"

lemma decode_jmp_code: "decode (SockFilter_jump (jmp_code j) k jt jf) = Some (Jmp j (Src_K k) jt jf)"
  by (cases j) (simp_all add: decode_def decode_jmp_def wire)

section \<open>Well-formed symbolic programs\<close>

text \<open>An item that becomes an instruction follows.\<close>

fun emits :: "Item list \<Rightarrow> bool" where
  "emits [] = False"
| "emits (ILabel _ # is) = emits is"
| "emits (_ # is) = True"

fun to_ok :: "To \<Rightarrow> Item list \<Rightarrow> bool" where
  "to_ok Next is = True"
| "to_ok (L l) is = (ILabel l \<in> set is)"

definition plain_stmt :: "SockFilter \<Rightarrow> bool" where
  "plain_stmt f = (case decode f of None \<Rightarrow> False | Some insn \<Rightarrow> plain_insn insn)"

text \<open>Labels are placed behind the jumps to them and in front of an instruction, and a
  conditional jump is never last.\<close>

fun items_ok :: "nat \<Rightarrow> Item list \<Rightarrow> bool" where
  "items_ok n [] = True"
| "items_ok n (ILabel l # is) = (l < n \<and> emits is \<and> items_ok n is)"
| "items_ok n (IStmt f # is) = (plain_stmt f \<and> items_ok n is)"
| "items_ok n (IJump c k jt jf # is) =
     (c \<in> set (map jmp_code [JEq, JGt, JGe, JSet]) \<and> emits is \<and> to_ok jt is \<and> to_ok jf is \<and> items_ok n is)"
| "items_ok n (IJa l # is) = (ILabel l \<in> set is \<and> items_ok n is)"

section \<open>The invariant of the backward pass\<close>

text \<open>
  The instruction at reverse index \<open>p\<close> acts like the items \<open>is\<close>. Offsets of a \<open>ja\<close> are
  32 bits wide, so this is only promised for programs that fit in them.
\<close>

definition acts :: "Backwards \<Rightarrow> nat \<Rightarrow> Item list \<Rightarrow> bool" where
  "acts b p is \<longleftrightarrow> p < length (b_rev b) \<and>
     (length (b_rev b) \<le> 2 ^ 32 \<longrightarrow>
       (\<forall>data s. run_at (rev (b_rev b)) data (length (b_rev b) - 1 - p) s = isem data is s))"

lemma b_rev_push [simp]: "b_rev (b_push f b) = b_rev b @ [f]"
  by (simp add: b_push_def)

lemma acts_push: "acts b p is \<Longrightarrow> acts (b_push f b) p is"
proof -
  assume a: "acts b p is"
  then have "length (b_rev b) - p = Suc (length (b_rev b) - 1 - p)" by (auto simp: acts_def)
  with a show ?thesis by (auto simp: acts_def val_Cons_Suc)
qed

lemma acts_cong: "b_rev b' = b_rev b \<Longrightarrow> acts b' p is = acts b p is"
  by (simp add: acts_def)

lemma acts_new:
  assumes "\<And>data s. length (b_rev b) < 2 ^ 32 \<Longrightarrow> run_at (f # rev (b_rev b)) data 0 s = isem data is s"
  shows "acts (b_push f b) (length (b_rev b)) is"
  using assms by (simp add: acts_def)

lemma acts_far_jump:
  assumes "acts b t is"
  shows "\<exists>f. far_jump_to b t = Some f \<and> acts (b_push f b) (length (b_rev b)) is"
proof -
  let ?n = "length (b_rev b)"
  have t: "t < ?n" using assms by (simp add: acts_def)
  let ?tgt = "b_rev b ! t"
  show ?thesis
  proof (cases "sf_code ?tgt = BPF_RET OR BPF_K")
    case True
    then have fj: "far_jump_to b t = Some ?tgt" using t by (simp add: far_jump_to_def)
    have "acts (b_push ?tgt b) ?n is"
    proof (rule acts_new)
      fix data s assume small: "?n < 2 ^ 32"
      have code: "rev (b_rev b) ! (?n - 1 - t) = ?tgt"
        using t by (simp add: rev_nth)
      have "run_at (rev (b_rev b)) data (?n - 1 - t) s = Some (sf_k ?tgt)"
        unfolding run_at_def using t
        by (simp add: cbpf.exec_Return[of _ _ "sf_k ?tgt"] run_step_def decode_ret[OF True] rev_nth)
      moreover have "run_at (?tgt # rev (b_rev b)) data 0 s = Some (sf_k ?tgt)"
        using val_plain[OF decode_ret[OF True]] by simp
      ultimately show "run_at (?tgt # rev (b_rev b)) data 0 s = isem data is s"
        using assms small by (simp add: acts_def)
    qed
    with fj show ?thesis by blast
  next
    case False
    let ?f = "SockFilter_stmt (BPF_JMP OR BPF_JA) (of_nat (?n - t - 1))"
    have fj: "far_jump_to b t = Some ?f" using t False by (simp add: far_jump_to_def)
    have "acts (b_push ?f b) ?n is"
    proof (rule acts_new)
      fix data s assume small: "?n < 2 ^ 32"
      then have "unat (of_nat (?n - t - 1) :: u32) = ?n - 1 - t"
        by (simp add: unat_of_nat)
      then show "run_at (?f # rev (b_rev b)) data 0 s = isem data is s"
        using assms small val_ja[OF decode_ja] by (simp add: acts_def)
    qed
    with fj show ?thesis by blast
  qed
qed

definition labels_ok :: "nat \<Rightarrow> Item list \<Rightarrow> Backwards \<Rightarrow> bool" where
  "labels_ok n is b \<longleftrightarrow> length (b_at b) = n \<and> length (b_nearest b) = n \<and>
     (\<forall>l. ILabel l \<in> set is \<longrightarrow> l < n
        \<and> (\<exists>p. b_at b ! l = Some p \<and> acts b p (after l is))
        \<and> (\<exists>q. b_nearest b ! l = Some q \<and> acts b q (after l is)))"

lemma push_labels [simp]: "b_at (b_push f b) = b_at b" "b_nearest (b_push f b) = b_nearest b"
  by (simp_all add: b_push_def)

lemma core_push: "labels_ok n is b \<Longrightarrow> labels_ok n is (b_push f b)"
  by (fastforce simp: labels_ok_def intro: acts_push)

lemma core_target:
  assumes "labels_ok n is b" and "ILabel l \<in> set is"
  shows "\<exists>t. label_target b l = Some t \<and> acts b t (after l is)"
  using assms by (auto simp: labels_ok_def label_target_def label_at_def)

lemma core_resolve:
  assumes "labels_ok n is b" and "to_ok to is" and "acts b nxt is"
  shows "\<exists>t. resolve_to b to nxt = Some t \<and> acts b t (landing to is)"
  using assms by (cases to) (auto simp: labels_ok_def label_at_def)

lemma core_trampoline:
  assumes labels_ok: "labels_ok n is b" and l: "ILabel l \<in> set is"
  shows "\<exists>f b'. trampoline b (L l) = Some b' \<and> labels_ok n is b' \<and> b_rev b' = b_rev b @ [f]"
proof -
  obtain t where t: "label_target b l = Some t" "acts b t (after l is)"
    using core_target[OF labels_ok l] by blast
  obtain f where f: "far_jump_to b t = Some f"
      "acts (b_push f b) (length (b_rev b)) (after l is)"
    using acts_far_jump[OF t(2)] by blast
  define b' where "b' = b_push f (b\<lparr>b_nearest := (b_nearest b)[l := Some (length (b_rev b))],
                          b_trampolines := b_trampolines b + 1\<rparr>)"
  have "l < length (b_nearest b)" using labels_ok l by (auto simp: labels_ok_def)
  then have tr: "trampoline b (L l) = Some b'" using t(1) f(1) by (simp add: b'_def)
  have sel: "b_at b' = b_at b" "b_nearest b' = (b_nearest b)[l := Some (length (b_rev b))]"
      "b_rev b' = b_rev b @ [f]"
    by (simp_all add: b'_def b_push_def)
  have same: "acts b' p js = acts (b_push f b) p js" for p js
    by (rule acts_cong) (simp add: sel)
  have "\<exists>q. b_nearest b' ! m = Some q \<and> acts b' q (after m is)" if "ILabel m \<in> set is" for m
  proof (cases "m = l")
    case True
    then show ?thesis using f(2) \<open>l < length (b_nearest b)\<close> by (simp add: sel same)
  next
    case False
    then show ?thesis using core_push[OF labels_ok, of f] that by (simp add: labels_ok_def sel same)
  qed
  then have "labels_ok n is b'"
    using core_push[OF labels_ok, of f] by (simp add: labels_ok_def same sel)
  with tr sel(3) show ?thesis by blast
qed

text \<open>One trampoline per target at most, so the next instruction stays in reach.\<close>

definition jump_inv :: "Backwards \<Rightarrow> To \<Rightarrow> To \<Rightarrow> nat \<Rightarrow> bool" where
  "jump_inv b jt jf nxt \<longleftrightarrow> (let c = length (b_rev b) - nxt - 1
     in c \<le> 2 \<and> (c = 1 \<longrightarrow> distance b jt nxt = 0 \<or> distance b jf nxt = 0)
        \<and> (c = 2 \<longrightarrow> distance b jt nxt \<le> 1 \<and> distance b jf nxt \<le> 1))"

lemma jump_inv_sym: "jump_inv b jt jf nxt = jump_inv b jf jt nxt"
  by (auto simp: jump_inv_def Let_def)

lemma jump_inv_trampoline:
  assumes "jump_inv b to to' nxt" and "nxt < length (b_rev b)"
    and "distance b to nxt > MAX_OFFSET"
    and "trampoline b to = Some b'" and "b_rev b' = b_rev b @ [f]"
  shows "jump_inv b' to to' nxt"
  using assms(1,2,3,5) trampoline_distance(1)[OF assms(4), of nxt]
    trampoline_distance(2)[OF assms(4), of to' nxt]
  by (auto simp: jump_inv_def Let_def MAX_OFFSET_def)

lemma far_is_label:
  assumes "jump_inv b to to' nxt" and "distance b to nxt > MAX_OFFSET"
  shows "\<exists>l. to = L l"
  using assms by (cases to) (auto simp: jump_inv_def Let_def distance_def MAX_OFFSET_def)

lemma core_far:
  assumes labels_ok: "labels_ok n is b" and nxt: "acts b nxt is" and inv: "jump_inv b to to' nxt"
    and ok: "to_ok to is" and far: "distance b to nxt > MAX_OFFSET"
  shows "\<exists>b'. trampoline b to = Some b' \<and> labels_ok n is b' \<and> acts b' nxt is \<and> jump_inv b' to to' nxt"
proof -
  obtain l where l: "to = L l" using far_is_label[OF inv far] by blast
  then obtain f b' where b': "trampoline b to = Some b'" "labels_ok n is b'" "b_rev b' = b_rev b @ [f]"
    using core_trampoline[OF labels_ok, of l] ok by auto
  have "acts b' nxt is"
    using acts_push[OF nxt, of f] acts_cong[of b' "b_push f b"] b'(3) by simp
  moreover have "nxt < length (b_rev b)" using nxt by (simp add: acts_def)
  ultimately show ?thesis using b' jump_inv_trampoline[OF inv _ far b'(1,3)] by blast
qed

lemma jump_near:
  assumes t: "acts b t (landing jt is)" and f: "acts b f (landing jf is)"
    and near: "length (b_rev b) - t - 1 \<le> MAX_OFFSET" "length (b_rev b) - f - 1 \<le> MAX_OFFSET"
  shows "acts (b_push (SockFilter_jump (jmp_code j) k (of_nat (length (b_rev b) - t - 1))
      (of_nat (length (b_rev b) - f - 1))) b) (length (b_rev b)) (IJump (jmp_code j) k jt jf # is)"
proof (rule acts_new)
  let ?n = "length (b_rev b)"
  fix data s assume small: "?n < 2 ^ 32"
  have "unat (of_nat (?n - t - 1) :: u8) = ?n - 1 - t" "unat (of_nat (?n - f - 1) :: u8) = ?n - 1 - f"
    using near by (simp_all add: unat_of_nat MAX_OFFSET_def)
  then show "run_at (SockFilter_jump (jmp_code j) k (of_nat (?n - t - 1)) (of_nat (?n - f - 1)) # rev (b_rev b))
      data 0 s = isem data (IJump (jmp_code j) k jt jf # is) s"
    using t f small by (simp add: val_jmp[OF decode_jmp_code] decode_jmp_code acts_def)
qed

lemma core_jump_loop:
  assumes "labels_ok n is b" and "acts b nxt is" and "jump_inv b jt jf nxt"
    and "to_ok jt is" and "to_ok jf is" and "c = jmp_code j"
  shows "\<exists>b'. jump_loop b c k jt jf nxt = Some b' \<and> labels_ok n is b'
    \<and> acts b' (length (b_rev b') - 1) (IJump c k jt jf # is)"
  using assms
proof (induction b c k jt jf nxt rule: jump_loop.induct)
  case (1 b c k jt jf nxt)
  obtain t where t: "resolve_to b jt nxt = Some t" "acts b t (landing jt is)"
    using core_resolve[OF "1.prems"(1) "1.prems"(4) "1.prems"(2)] by blast
  obtain f where f: "resolve_to b jf nxt = Some f" "acts b f (landing jf is)"
    using core_resolve[OF "1.prems"(1) "1.prems"(5) "1.prems"(2)] by blast
  let ?n = "length (b_rev b)"
  have lt: "t < ?n" "f < ?n" using t(2) f(2) by (auto simp: acts_def)
  have dist: "distance b jt nxt = ?n - t - 1" "distance b jf nxt = ?n - f - 1"
    using t f by (simp_all add: distance_def)
  consider (jt) "?n - t - 1 > MAX_OFFSET"
    | (jf) "\<not> ?n - t - 1 > MAX_OFFSET" "?n - f - 1 > MAX_OFFSET"
    | (near) "\<not> ?n - t - 1 > MAX_OFFSET" "\<not> ?n - f - 1 > MAX_OFFSET" by blast
  then show ?case
  proof cases
    case jt
    then obtain b' where b': "trampoline b jt = Some b'" "labels_ok n is b'" "acts b' nxt is"
        "jump_inv b' jt jf nxt"
      using core_far[OF "1.prems"(1,2,3,4)] dist by auto
    have "jump_loop b c k jt jf nxt = jump_loop b' c k jt jf nxt"
      using t f lt jt b'(1) by (subst jump_loop.simps) (simp add: Let_def del: of_nat_diff)
    then show ?thesis
      using "1.IH"(1)[OF refl t(1) f(1) refl _ jt b'(1) b'(2,3,4) "1.prems"(4,5,6)] lt by simp
  next
    case jf
    then obtain b' where b': "trampoline b jf = Some b'" "labels_ok n is b'" "acts b' nxt is"
        "jump_inv b' jt jf nxt"
      using core_far[OF "1.prems"(1,2) _ "1.prems"(5), of jt] dist "1.prems"(3)
      by (auto simp: jump_inv_sym[of _ jf jt])
    have "jump_loop b c k jt jf nxt = jump_loop b' c k jt jf nxt"
      using t f lt jf b'(1) by (subst jump_loop.simps) (simp add: Let_def del: of_nat_diff)
    then show ?thesis
      using "1.IH"(2)[OF refl t(1) f(1) refl _ jf b'(1) b'(2,3,4) "1.prems"(4,5,6)] lt by simp
  next
    case near
    let ?b' = "b_push (SockFilter_jump c k (of_nat (?n - t - 1)) (of_nat (?n - f - 1))) b"
    have "jump_loop b c k jt jf nxt = Some ?b'"
      using t f lt near by (subst jump_loop.simps) (simp add: Let_def del: of_nat_diff)
    moreover have "acts ?b' ?n (IJump c k jt jf # is)"
      unfolding "1.prems"(6) by (rule jump_near[OF t(2) f(2)]) (use near in simp_all)
    ultimately show ?thesis using core_push[OF "1.prems"(1)] by simp
  qed
qed

section \<open>The assembler computes what the items mean\<close>

definition head_ok :: "Item list \<Rightarrow> Backwards \<Rightarrow> bool" where
  "head_ok is b \<longleftrightarrow> (if is = [] then b_rev b = [] else acts b (length (b_rev b) - 1) is)"

lemma items_ok_emits: "items_ok n is \<Longrightarrow> is \<noteq> [] \<Longrightarrow> emits is"
  by (cases "is" rule: emits.cases) auto

lemma head_val:
  assumes "head_ok is b" and "length (b_rev b) \<le> 2 ^ 32"
  shows "run_at (rev (b_rev b)) data 0 s = isem data is s"
  using assms by (cases "is = []") (auto simp: head_ok_def acts_def val_Nil)

lemma head_nonempty: "head_ok is b \<Longrightarrow> is \<noteq> [] \<Longrightarrow> b_rev b \<noteq> [] \<and> acts b (length (b_rev b) - 1) is"
  by (auto simp: head_ok_def acts_def)

lemma core_Cons_other:
  "labels_ok n is b \<Longrightarrow> (\<And>l. i \<noteq> ILabel l) \<Longrightarrow> labels_ok n (i # is) b"
  by (cases i) (auto simp: labels_ok_def)

lemma item_label:
  assumes "labels_ok n is b" and "head_ok is b" and "items_ok n (ILabel l # is)"
  shows "\<exists>b'. backwards_item (ILabel l) b = Some b' \<and> labels_ok n (ILabel l # is) b' \<and> head_ok (ILabel l # is) b'"
proof -
  have ne: "is \<noteq> []" and ln: "l < n" using assms(3) by auto
  have nonempty: "b_rev b \<noteq> []" and top: "acts b (length (b_rev b) - 1) is"
    using head_nonempty[OF assms(2) ne] by auto
  define pos where "pos = length (b_rev b) - 1"
  define b' where "b' = b\<lparr>b_at := (b_at b)[l := Some pos], b_nearest := (b_nearest b)[l := Some pos]\<rparr>"
  have sel: "b_at b' = (b_at b)[l := Some pos]" "b_nearest b' = (b_nearest b)[l := Some pos]"
      "b_rev b' = b_rev b" by (simp_all add: b'_def)
  have same: "acts b' p js = acts b p js" for p js by (rule acts_cong) (simp add: sel)
  have "backwards_item (ILabel l) b = Some b'"
    using nonempty ln assms(1) by (simp add: labels_ok_def b'_def pos_def Let_def)
  moreover have "labels_ok n (ILabel l # is) b'"
    using assms(1) ln top unfolding pos_def[symmetric]
    by (auto simp: labels_ok_def sel same nth_list_update)
  moreover have "head_ok (ILabel l # is) b'"
    using top nonempty by (auto simp: head_ok_def acts_def sel)
  ultimately show ?thesis by blast
qed

lemma item_stmt:
  assumes "labels_ok n is b" and "head_ok is b" and "items_ok n (IStmt f # is)"
  shows "labels_ok n (IStmt f # is) (b_push f b)" and "head_ok (IStmt f # is) (b_push f b)"
proof -
  show "labels_ok n (IStmt f # is) (b_push f b)"
    by (rule core_Cons_other[OF core_push[OF assms(1)]]) simp
  obtain insn where insn: "decode f = Some insn" "plain_insn insn"
    using assms(3) by (auto simp: plain_stmt_def split: option.splits)
  have "acts (b_push f b) (length (b_rev b)) (IStmt f # is)"
  proof (rule acts_new)
    fix data s assume "length (b_rev b) < 2 ^ 32"
    then show "run_at (f # rev (b_rev b)) data 0 s = isem data (IStmt f # is) s"
      using head_val[OF assms(2)] by (simp add: val_plain[OF insn] insn(1) split: flow.split)
  qed
  then show "head_ok (IStmt f # is) (b_push f b)" by (simp add: head_ok_def)
qed

lemma item_ja:
  assumes "labels_ok n is b" and "items_ok n (IJa l # is)"
  shows "\<exists>b'. backwards_item (IJa l) b = Some b' \<and> labels_ok n (IJa l # is) b' \<and> head_ok (IJa l # is) b'"
proof -
  obtain t where t: "label_target b l = Some t" "acts b t (after l is)"
    using core_target[OF assms(1)] assms(2) by auto
  obtain f where f: "far_jump_to b t = Some f" "acts (b_push f b) (length (b_rev b)) (after l is)"
    using acts_far_jump[OF t(2)] by blast
  have "labels_ok n (IJa l # is) (b_push f b)"
    by (rule core_Cons_other[OF core_push[OF assms(1)]]) simp
  moreover have "head_ok (IJa l # is) (b_push f b)"
    using f(2) by (simp add: head_ok_def acts_def)
  ultimately show ?thesis using t(1) f(1) by simp
qed

lemma jmp_code_image: "c \<in> set (map jmp_code js) \<Longrightarrow> \<exists>j. c = jmp_code j"
  by auto

lemma item_jump:
  assumes "labels_ok n is b" and "head_ok is b" and ok: "items_ok n (IJump c k jt jf # is)"
  shows "\<exists>b'. backwards_item (IJump c k jt jf) b = Some b' \<and> labels_ok n (IJump c k jt jf # is) b'
    \<and> head_ok (IJump c k jt jf # is) b'"
proof -
  have ne: "is \<noteq> []" using ok by auto
  have nonempty: "b_rev b \<noteq> []" and top: "acts b (length (b_rev b) - 1) is"
    using head_nonempty[OF assms(2) ne] by auto
  have inv: "jump_inv b jt jf (length (b_rev b) - 1)" using nonempty by (simp add: jump_inv_def)
  have to: "to_ok jt is" "to_ok jf is" using ok by auto
  obtain j where j: "c = jmp_code j"
    using ok jmp_code_image[of c] unfolding items_ok.simps by blast
  obtain b' where b': "jump_loop b c k jt jf (length (b_rev b) - 1) = Some b'" "labels_ok n is b'"
      "acts b' (length (b_rev b') - 1) (IJump c k jt jf # is)"
    using core_jump_loop[OF assms(1) top inv to j] by blast
  moreover have "labels_ok n (IJump c k jt jf # is) b'" by (rule core_Cons_other[OF b'(2)]) simp
  ultimately show ?thesis using nonempty by (simp add: backwards_jump_def head_ok_def)
qed

lemma backwards_item_correct:
  assumes "labels_ok n is b" and "head_ok is b" and "items_ok n (i # is)"
  shows "\<exists>b'. backwards_item i b = Some b' \<and> labels_ok n (i # is) b' \<and> head_ok (i # is) b'"
proof (cases i)
  case (ILabel l)
  then show ?thesis using item_label assms by simp
next
  case (IStmt f)
  then show ?thesis using item_stmt assms by simp
next
  case (IJump c k jt jf)
  then show ?thesis using item_jump assms by simp
next
  case (IJa l)
  then show ?thesis using item_ja assms by simp
qed

lemma backwards_loop_append:
  "backwards_loop (xs @ ys) b =
     (case backwards_loop xs b of None \<Rightarrow> None | Some b' \<Rightarrow> backwards_loop ys b')"
  by (induction xs arbitrary: b) (auto split: option.split)

lemma backwards_loop_correct:
  assumes "items_ok n is"
  shows "\<exists>b. backwards_loop (rev is) (Backwards_init n) = Some b \<and> labels_ok n is b \<and> head_ok is b"
  using assms
proof (induction "is")
  case Nil
  show ?case by (simp add: labels_ok_def head_ok_def Backwards_init_def)
next
  case (Cons i "is")
  then have "items_ok n is" by (cases i) auto
  then obtain b where b: "backwards_loop (rev is) (Backwards_init n) = Some b" "labels_ok n is b" "head_ok is b"
    using Cons.IH by blast
  then show ?case
    using backwards_item_correct[OF b(2,3) Cons.prems] by (auto simp: backwards_loop_append)
qed

lemma assemble_total:
  assumes "items_ok (p_labels p) (p_items p)"
  shows "\<exists>a. assemble p = Some a"
  using backwards_loop_correct[OF assms] by (auto simp: assemble_def)

lemma assemble_correct:
  assumes "items_ok (p_labels p) (p_items p)" and "assemble p = Some a"
    and "length (a_insns a) \<le> 2 ^ 32"
  shows "ok_of (run_loop (a_insns a, data) Machine_init) = isem data (p_items p) Machine_init"
proof -
  obtain b where b: "backwards_loop (rev (p_items p)) (Backwards_init (p_labels p)) = Some b"
      "head_ok (p_items p) b"
    using backwards_loop_correct[OF assms(1)] by blast
  then have a: "a_insns a = rev (b_rev b)" using assms(2) by (auto simp: assemble_def)
  have "run_at (rev (b_rev b)) data 0 Machine_init = isem data (p_items p) Machine_init"
    using head_val[OF b(2)] assms(3) a by simp
  moreover have "Machine_init\<lparr>m_pc := 0\<rparr> = Machine_init" by (simp add: Machine_init_def)
  ultimately show ?thesis by (simp add: run_at_def a)
qed

section \<open>What the assembler writes passes the load-time checks\<close>

text \<open>Jumps stay inside the program, seen from each instruction towards the end; and
  everything else is one of the instructions the code generator uses.\<close>

fun simple_insn :: "Insn \<Rightarrow> bool" where
  "simple_insn (LdAbs k) = (k < SeccompData_SIZE \<and> k mod 4 = 0)"
| "simple_insn (Alu And (Src_K _)) = True"
| "simple_insn (RetK _) = True"
| "simple_insn _ = False"

fun insn_in :: "nat \<Rightarrow> Insn \<Rightarrow> bool" where
  "insn_in n (Ja k) = (unat k < n)"
| "insn_in n (Jmp _ _ jt jf) = (unat jt < n \<and> unat jf < n)"
| "insn_in n i = simple_insn i"

fun code_ok :: "SockFilter list \<Rightarrow> bool" where
  "code_ok [] = True"
| "code_ok (f # rest) =
     ((case decode f of None \<Rightarrow> False | Some i \<Rightarrow> insn_in (length rest) i) \<and> code_ok rest)"

abbreviation b_ok :: "Backwards \<Rightarrow> bool" where
  "b_ok b \<equiv> code_ok (rev (b_rev b))"

lemma unat_of_nat_le: "unat (of_nat n :: 'a::len word) \<le> n"
  by (simp add: unat_of_nat)

lemma far_jump_ok:
  assumes "far_jump_to b t = Some f" and "b_ok b"
  shows "b_ok (b_push f b)"
proof -
  have t: "t < length (b_rev b)" using assms(1) by (auto simp: far_jump_to_def split: if_splits)
  show ?thesis
  proof (cases "sf_code (b_rev b ! t) = BPF_RET OR BPF_K")
    case True
    then have "f = b_rev b ! t" using assms(1) t by (simp add: far_jump_to_def)
    then have "decode f = Some (RetK (sf_k f))" using True decode_ret by simp
    then show ?thesis using assms(2) by simp
  next
    case False
    then have "decode f = Some (Ja (of_nat (length (b_rev b) - t - 1)))"
      using assms(1) t decode_ja by (auto simp: far_jump_to_def Let_def simp del: of_nat_diff)
    moreover have "unat (of_nat (length (b_rev b) - t - 1) :: u32) < length (b_rev b)"
      using unat_of_nat_le[of "length (b_rev b) - t - 1", where 'a = 32] t by linarith
    ultimately show ?thesis using assms(2) by (simp del: of_nat_diff)
  qed
qed

lemma trampoline_ok: "trampoline b to = Some b' \<Longrightarrow> b_ok b \<Longrightarrow> b_ok b'"
proof (cases to)
  case (L l)
  assume tr: "trampoline b to = Some b'" and ok: "b_ok b"
  obtain t f where "far_jump_to b t = Some f" "b_rev b' = b_rev b @ [f]"
    using tr L by (auto simp: b_push_def split: option.splits if_splits)
  then show ?thesis using far_jump_ok[of b t f] ok by simp
qed simp

text \<open>What holds of the state and survives trampolines holds when the jump is emitted.\<close>

lemma jump_loop_result:
  assumes "jump_loop b c k jt jf nxt = Some b'" and "P b"
    and tramp: "\<And>b to b1. trampoline b to = Some b1 \<Longrightarrow> P b \<Longrightarrow> P b1"
    and emit: "\<And>b t f. t < length (b_rev b) \<Longrightarrow> f < length (b_rev b) \<Longrightarrow> P b \<Longrightarrow>
      Q (b_push (SockFilter_jump c k (of_nat (length (b_rev b) - t - 1))
        (of_nat (length (b_rev b) - f - 1))) b)"
  shows "Q b'"
  using assms(1,2) emit
proof (induction b c k jt jf nxt rule: jump_loop.induct)
  case (1 b c k jt jf nxt)
  let ?n = "length (b_rev b)"
  obtain t f where r: "resolve_to b jt nxt = Some t" "resolve_to b jf nxt = Some f" "t < ?n" "f < ?n"
    using "1.prems"(1) by (subst (asm) jump_loop.simps) (auto simp: Let_def split: option.splits if_splits)
  have unfold: "jump_loop b c k jt jf nxt =
      (if ?n - t - 1 > MAX_OFFSET then
         (case trampoline b jt of None \<Rightarrow> None | Some b1 \<Rightarrow> jump_loop b1 c k jt jf nxt)
       else if ?n - f - 1 > MAX_OFFSET then
         (case trampoline b jf of None \<Rightarrow> None | Some b1 \<Rightarrow> jump_loop b1 c k jt jf nxt)
       else Some (b_push (SockFilter_jump c k (of_nat (?n - t - 1)) (of_nat (?n - f - 1))) b))"
    using r by (subst jump_loop.simps) (simp add: Let_def)
  consider (jt) b1 where "?n - t - 1 > MAX_OFFSET" "trampoline b jt = Some b1"
        "jump_loop b1 c k jt jf nxt = Some b'"
    | (jf) b1 where "\<not> ?n - t - 1 > MAX_OFFSET" "?n - f - 1 > MAX_OFFSET" "trampoline b jf = Some b1"
        "jump_loop b1 c k jt jf nxt = Some b'"
    | (near) "b' = b_push (SockFilter_jump c k (of_nat (?n - t - 1)) (of_nat (?n - f - 1))) b"
    using "1.prems"(1) unfolding unfold by (auto split: if_splits option.splits simp del: of_nat_diff)
  then show ?case
  proof cases
    case jt
    show ?thesis
      by (rule "1.IH"(1)[OF refl r(1,2) refl _ jt(1,2,3)])
        (use r(3,4) tramp[OF jt(2) "1.prems"(2)] "1.prems"(3) in \<open>simp_all del: of_nat_diff\<close>)
  next
    case jf
    show ?thesis
      by (rule "1.IH"(2)[OF refl r(1,2) refl _ jf(1,2,3,4)])
        (use r(3,4) tramp[OF jf(3) "1.prems"(2)] "1.prems"(3) in \<open>simp_all del: of_nat_diff\<close>)
  next
    case near
    show ?thesis unfolding near by (rule "1.prems"(3)[OF r(3,4) "1.prems"(2)])
  qed
qed

lemma jump_loop_ok:
  assumes "jump_loop b (jmp_code j) k jt jf nxt = Some b'" and "b_ok b"
  shows "b_ok b'"
proof (rule jump_loop_result[where P = b_ok and Q = b_ok, OF assms])
  fix b to b1
  assume "trampoline b to = Some b1" "b_ok b"
  then show "b_ok b1" by (rule trampoline_ok)
next
  fix b :: Backwards and t f
  let ?n = "length (b_rev b)"
  assume r: "t < ?n" "f < ?n" and ok: "b_ok b"
  have "unat (of_nat (?n - t - 1) :: u8) < ?n" "unat (of_nat (?n - f - 1) :: u8) < ?n"
    using unat_of_nat_le[of "?n - t - 1", where 'a = 8] unat_of_nat_le[of "?n - f - 1", where 'a = 8]
      r by linarith+
  then show "b_ok (b_push (SockFilter_jump (jmp_code j) k (of_nat (?n - t - 1)) (of_nat (?n - f - 1))) b)"
    using ok by (simp add: decode_jmp_code del: of_nat_diff)
qed

fun item_simple :: "Item \<Rightarrow> bool" where
  "item_simple (IStmt f) = (case decode f of None \<Rightarrow> False | Some i \<Rightarrow> simple_insn i)"
| "item_simple (IJump c k jt jf) = (c \<in> set (map jmp_code [JEq, JGt, JGe, JSet]))"
| "item_simple _ = True"

lemma simple_insn_in: "simple_insn i \<Longrightarrow> insn_in n i"
  by (cases i) auto

lemma simple_plain: "simple_insn i \<Longrightarrow> plain_insn i"
  by (cases i) auto

lemma backwards_item_ok:
  assumes "backwards_item i b = Some b'" and "b_ok b" and "item_simple i"
  shows "b_ok b'"
proof (cases i)
  case (ILabel l)
  then show ?thesis using assms by (auto simp: Let_def split: if_splits)
next
  case (IStmt f)
  then show ?thesis using assms by (auto simp: simple_insn_in split: option.splits)
next
  case (IJump c k jt jf)
  then obtain j where "c = jmp_code j" using assms(3) jmp_code_image[of c]
    unfolding IJump item_simple.simps by blast
  then show ?thesis
    using assms(1,2) IJump jump_loop_ok by (auto simp: backwards_jump_def split: if_splits)
next
  case (IJa l)
  then show ?thesis using assms far_jump_ok by (auto split: option.splits)
qed

lemma backwards_loop_ok:
  "backwards_loop is b = Some b' \<Longrightarrow> b_ok b \<Longrightarrow> \<forall>i\<in>set is. item_simple i \<Longrightarrow> b_ok b'"
  by (induction "is" arbitrary: b) (auto split: option.splits dest: backwards_item_ok)

lemma assemble_code_ok:
  assumes "assemble p = Some a" and "\<forall>i\<in>set (p_items p). item_simple i"
  shows "code_ok (a_insns a)"
  using assms backwards_loop_ok[of "rev (p_items p)" "Backwards_init (p_labels p)"]
  by (auto simp: assemble_def Backwards_init_def split: option.splits)

text \<open>The pass only ever appends, so the last statement of the items ends the program.\<close>

lemma trampoline_grows: "trampoline b to = Some b' \<Longrightarrow> \<exists>f. b_rev b' = b_rev b @ [f]"
  by (cases to) (auto simp: b_push_def split: option.splits if_splits)

lemma jump_loop_grows:
  assumes "jump_loop b c k jt jf nxt = Some b'"
  shows "\<exists>fs. b_rev b' = b_rev b @ fs"
  by (rule jump_loop_result[where P = "\<lambda>b1. \<exists>fs. b_rev b1 = b_rev b @ fs", OF assms])
    (use trampoline_grows in fastforce)+

lemma backwards_item_grows: "backwards_item i b = Some b' \<Longrightarrow> \<exists>fs. b_rev b' = b_rev b @ fs"
  by (cases i)
    (auto simp: Let_def backwards_jump_def b_push_def dest: jump_loop_grows split: if_splits option.splits)

lemma backwards_loop_grows: "backwards_loop is b = Some b' \<Longrightarrow> \<exists>fs. b_rev b' = b_rev b @ fs"
  by (induction "is" arbitrary: b) (fastforce split: option.splits dest: backwards_item_grows)+

lemma assemble_last:
  assumes "assemble p = Some a" and "p_items p = is @ [IStmt f]"
  shows "a_insns a \<noteq> [] \<and> last (a_insns a) = f"
proof -
  obtain b where b: "backwards_loop (rev (p_items p)) (Backwards_init (p_labels p)) = Some b"
      "a_insns a = rev (b_rev b)"
    using assms(1) by (auto simp: assemble_def split: option.splits)
  then have "backwards_loop (rev is) (b_push f (Backwards_init (p_labels p))) = Some b"
    using assms(2) by simp
  then obtain fs where "b_rev b = [f] @ fs"
    using backwards_loop_grows by (force simp: Backwards_init_def)
  then show ?thesis using b(2) by simp
qed

lemma check_insn_in: "insn_in (len - Suc pc) i \<Longrightarrow> check_insn len pc i = Inr ()"
  by (cases i; (auto simp: not_le)?) (rename_tac alu src; case_tac alu; case_tac src; simp)+

lemma code_ok_check_loop: "code_ok code \<Longrightarrow> check_loop (pc + length code) pc code = Inr ()"
proof (induction code arbitrary: pc)
  case (Cons f rest)
  then obtain i where i: "decode f = Some i" "insn_in (length rest) i"
    by (auto split: option.splits)
  have "check_insn (pc + length (f # rest)) pc i = Inr ()"
    by (rule check_insn_in) (use i(2) in simp)
  then show ?case using i(1) Cons.IH[of "pc + 1"] Cons.prems by simp
qed simp

lemma code_ok_memory:
  "code_ok code \<Longrightarrow> length valid_at = pc + length code \<Longrightarrow>
   check_memory_loop pc code valid_at valid = Inr ()"
proof (induction code arbitrary: pc valid_at valid)
  case (Cons f rest)
  then obtain i where i: "decode f = Some i" "insn_in (length rest) i"
    by (auto split: option.splits)
  define v where "v = valid AND valid_at ! pc"
  have "\<exists>valid_at' valid'. check_memory_step pc (Some i) valid_at v = Inr (valid_at', valid')
      \<and> length valid_at' = length valid_at"
    using i(2) Cons.prems(2) by (cases i) (auto simp: and_at_def)
  then show ?case using Cons.IH Cons.prems i(1) by (auto simp: v_def)
qed simp

lemma code_ok_check:
  assumes "code_ok code" and "code \<noteq> []" and "length code \<le> BPF_MAXINSNS"
    and "is_ret (decode (last code))"
  shows "check code = Inr ()"
  using assms code_ok_check_loop[OF assms(1), of 0] code_ok_memory[OF assms(1), of _ 0]
  by (simp add: check_def Let_def check_memory_def last_conv_nth)

text \<open>C5: the assembler never panics on a program whose labels are placed behind the jumps to
  them and in front of an instruction, and the assembled instructions, trampolines and all,
  give exactly the verdict of the symbolic program.\<close>

theorem assemble_refines:
  assumes "items_ok (p_labels p) (p_items p)"
  shows "\<exists>a. assemble p = Some a \<and> (length (a_insns a) \<le> 2 ^ 32 \<longrightarrow>
    (\<forall>data. ok_of (run_loop (a_insns a, data) Machine_init) = isem data (p_items p) Machine_init))"
  using assemble_total[OF assms] assemble_correct[OF assms] by blast

theorem assemble_refines_witness:
  "\<exists>a. assemble \<lparr>p_items = [IJa 0, ILabel 0, IStmt (SockFilter_stmt (BPF_RET OR BPF_K) 7)], p_labels = 1\<rparr> = Some a \<and>
     (length (a_insns a) \<le> 2 ^ 32 \<longrightarrow>
       (\<forall>data. ok_of (run_loop (a_insns a, data) Machine_init) =
          isem data [IJa 0, ILabel 0, IStmt (SockFilter_stmt (BPF_RET OR BPF_K) 7)] Machine_init))"
  using assemble_refines[of "\<lparr>p_items = [IJa 0, ILabel 0, IStmt (SockFilter_stmt (BPF_RET OR BPF_K) 7)], p_labels = 1\<rparr>"]
  by (simp add: plain_stmt_def decode_ret SockFilter_stmt_def)

end
