(* ===== verification/Seccomp.thy ===== *)
theory Seccomp
  imports Assembler
begin

text \<open>
  The seccomp compiler of \<^verbatim>\<open>rustlet-runtime/src/seccomp/compile.rs\<close>: an OCI
  \<open>linux.seccomp\<close> profile becomes a classic-BPF program in three passes (\<open>resolve\<close>,
  \<open>simplify\<close>, code generation with \<open>Gen\<close>) and is then assembled. This theory holds the
  three passes; \<^verbatim>\<open>SeccompCorrect\<close> proves what the compiled program decides.
\<close>

section \<open>The profile\<close>

text \<open>
  The fields of \<open>oci_spec\<close>'s \<open>LinuxSeccomp\<close> that the compiler reads. Architectures other
  than the native one are only counted, so one constructor with its name stands for them.
\<close>

datatype Arch = ScmpArchNative | ScmpArchX86_64 | ScmpArchOther string

datatype LinuxSeccompFilterFlag =
    SeccompFilterFlagLog
  | SeccompFilterFlagSpecAllow
  | SeccompFilterFlagTsync
  | SeccompFilterFlagWaitKillableRecv

datatype LinuxSeccompAction =
    ScmpActKill
  | ScmpActKillThread
  | ScmpActKillProcess
  | ScmpActTrap
  | ScmpActErrno
  | ScmpActTrace
  | ScmpActLog
  | ScmpActAllow
  | ScmpActNotify

datatype LinuxSeccompOperator =
    ScmpCmpEq | ScmpCmpNe | ScmpCmpLt | ScmpCmpLe | ScmpCmpGt | ScmpCmpGe | ScmpCmpMaskedEq

record LinuxSeccompArg =
  arg_index :: nat
  arg_value :: u64
  arg_value_two :: "u64 option"
  arg_op :: LinuxSeccompOperator

record LinuxSyscall =
  sc_names :: "string list"
  sc_action :: LinuxSeccompAction
  sc_errno_ret :: "u32 option"
  sc_args :: "LinuxSeccompArg list option"

record LinuxSeccomp =
  ls_default_action :: LinuxSeccompAction
  ls_default_errno_ret :: "u32 option"
  ls_architectures :: "Arch list option"
  ls_flags :: "LinuxSeccompFilterFlag list option"
  ls_listener_path :: "string option"
  ls_syscalls :: "LinuxSyscall list option"

text \<open>\<open>as_deref().unwrap_or_default()\<close> of an optional list.\<close>

definition or_empty :: "'a list option \<Rightarrow> 'a list" where
  "or_empty o' = (case o' of None \<Rightarrow> [] | Some xs \<Rightarrow> xs)"

text \<open>Which field a message is about, instead of its spelling.\<close>

datatype Field =
    F_listenerPath
  | F_flags_wait_killable_recv
  | F_default
  | F_syscalls nat

datatype SeccompError =
    BadArchitectures "Arch list"
  | ErrnoTooLarge Field u32
  | NoSuchArgument Field nat
  | Unsupported "Field list"
  | FilterTooLarge nat
  | CompilerPanicked

section \<open>Pass 1: resolve\<close>

definition EPERM :: u32 where [wire]: "EPERM = 1"
definition ENOSYS :: u32 where [wire]: "ENOSYS = 38"
definition MAX_ERRNO :: u32 where [wire]: "MAX_ERRNO = 4095"

datatype Cmp = Eq | Ne | Lt | Le | Gt | Ge | MaskedEq

record Cond =
  c_index :: u32
  c_op :: Cmp
  c_value :: u64
  c_value_two :: u64

record Rule =
  r_conds :: "Cond list"
  r_action :: u32

text \<open>\<open>rules\<close> is the \<open>BTreeMap\<close>: an association list sorted by syscall number.\<close>

record Resolved =
  res_default :: u32
  res_flags :: u32
  res_rules :: "(u32 \<times> Rule list) list"
  res_enosys_above :: "u32 option"
  res_skipped :: "string list"

definition check_architectures :: "Arch list \<Rightarrow> SeccompError + unit" where
  "check_architectures archs =
     (if archs = [] \<or> list_ex (\<lambda>a. a = ScmpArchNative \<or> a = ScmpArchX86_64) archs
      then Inr () else Inl (BadArchitectures archs))"

fun filter_flag :: "LinuxSeccompFilterFlag \<Rightarrow> u32 \<times> Field list" where
  "filter_flag SeccompFilterFlagLog = (FLAG_LOG, [])"
| "filter_flag SeccompFilterFlagSpecAllow = (FLAG_SPEC_ALLOW, [])"
| "filter_flag SeccompFilterFlagTsync = (FLAG_TSYNC, [])"
| "filter_flag SeccompFilterFlagWaitKillableRecv = (0, [F_flags_wait_killable_recv])"

definition filter_flags ::
    "LinuxSeccompFilterFlag list \<Rightarrow> Field list \<Rightarrow> u32 \<times> Field list" where
  "filter_flags fs unsupported =
     foldl (\<lambda>(bits, u) f. (bits OR fst (filter_flag f), u @ snd (filter_flag f))) (0, unsupported) fs"

text \<open>The closure \<open>data\<close> of \<open>action\<close>: the low 16 bits of an ERRNO or TRACE verdict.\<close>

definition errno_data :: "u32 option \<Rightarrow> Field \<Rightarrow> SeccompError + u32" where
  "errno_data errno_ret field =
     (let v = (case errno_ret of None \<Rightarrow> EPERM | Some v \<Rightarrow> v)
      in if v > MAX_ERRNO then Inl (ErrnoTooLarge field v) else Inr v)"

fun seccomp_action ::
    "LinuxSeccompAction \<Rightarrow> u32 option \<Rightarrow> Field \<Rightarrow> Field list \<Rightarrow> SeccompError + (u32 \<times> Field list)" where
  "seccomp_action ScmpActKill e field u = Inr (RET_KILL_THREAD, u)"
| "seccomp_action ScmpActKillThread e field u = Inr (RET_KILL_THREAD, u)"
| "seccomp_action ScmpActKillProcess e field u = Inr (RET_KILL_PROCESS, u)"
| "seccomp_action ScmpActTrap e field u = Inr (RET_TRAP, u)"
| "seccomp_action ScmpActErrno e field u = bind_result (errno_data e field) (\<lambda>v. Inr (RET_ERRNO OR v, u))"
| "seccomp_action ScmpActTrace e field u = bind_result (errno_data e field) (\<lambda>v. Inr (RET_TRACE OR v, u))"
| "seccomp_action ScmpActLog e field u = Inr (RET_LOG, u)"
| "seccomp_action ScmpActAllow e field u = Inr (RET_ALLOW, u)"
| "seccomp_action ScmpActNotify e field u = Inr (RET_USER_NOTIF, u @ [field])"

fun cmp_of :: "LinuxSeccompOperator \<Rightarrow> Cmp" where
  "cmp_of ScmpCmpEq = Eq"
| "cmp_of ScmpCmpNe = Ne"
| "cmp_of ScmpCmpLt = Lt"
| "cmp_of ScmpCmpLe = Le"
| "cmp_of ScmpCmpGt = Gt"
| "cmp_of ScmpCmpGe = Ge"
| "cmp_of ScmpCmpMaskedEq = MaskedEq"

definition seccomp_cond :: "LinuxSeccompArg \<Rightarrow> Field \<Rightarrow> SeccompError + Cond" where
  "seccomp_cond a field =
     (if arg_index a > 5 then Inl (NoSuchArgument field (arg_index a))
      else Inr \<lparr>c_index = of_nat (arg_index a), c_op = cmp_of (arg_op a), c_value = arg_value a,
                c_value_two = (case arg_value_two a of None \<Rightarrow> 0 | Some v \<Rightarrow> v)\<rparr>)"

definition stub_wanted :: "u32 \<Rightarrow> bool" where
  "stub_wanted dflt =
     (let act = dflt AND RET_ACTION_FULL_MASK
      in if act = RET_ALLOW \<or> act = RET_LOG \<or> act = RET_TRACE then False
         else if act = RET_ERRNO then dflt AND RET_DATA_MASK \<noteq> ENOSYS
         else True)"

text \<open>\<open>rules.entry(nr).or_default().push(rule)\<close> on a \<open>BTreeMap\<close>.\<close>

fun entry_push :: "u32 \<Rightarrow> 'r \<Rightarrow> (u32 \<times> 'r list) list \<Rightarrow> (u32 \<times> 'r list) list" where
  "entry_push nr rule [] = [(nr, [rule])]"
| "entry_push nr rule ((n, rs) # m) =
     (if nr < n then (nr, [rule]) # (n, rs) # m
      else if nr = n then (n, rs @ [rule]) # m
      else (n, rs) # entry_push nr rule m)"

record Gathered =
  ga_rules :: "(u32 \<times> Rule list) list"
  ga_skipped :: "string list"
  ga_highest :: "u32 option"

text \<open>The loop over \<open>entry.names()\<close>. \<open>number\<close> is \<open>syscalls::number\<close>, a lookup in the
  table that the build generates from the kernel's.\<close>

fun gather_names ::
    "(string \<Rightarrow> u32 option) \<Rightarrow> Rule \<Rightarrow> string list \<Rightarrow> Gathered \<Rightarrow> Gathered" where
  "gather_names number rule [] ga = ga"
| "gather_names number rule (name # names) ga =
     gather_names number rule names
       (case number name of
          Some nr \<Rightarrow> ga\<lparr>ga_rules := entry_push nr rule (ga_rules ga),
                        ga_highest := Some (case ga_highest ga of None \<Rightarrow> nr | Some h \<Rightarrow> max h nr)\<rparr>
        | None \<Rightarrow> if name \<notin> set (ga_skipped ga)
                  then ga\<lparr>ga_skipped := ga_skipped ga @ [name]\<rparr> else ga)"

text \<open>The loop over \<open>spec.syscalls()\<close>, from entry \<open>i\<close> on.\<close>

fun gather ::
    "(string \<Rightarrow> u32 option) \<Rightarrow> nat \<Rightarrow> LinuxSyscall list \<Rightarrow> Gathered \<Rightarrow> Field list \<Rightarrow>
     SeccompError + (Gathered \<times> Field list)" where
  "gather number i [] ga unsupported = Inr (ga, unsupported)"
| "gather number i (entry # entries) ga unsupported =
     bind_result (seccomp_action (sc_action entry) (sc_errno_ret entry) (F_syscalls i) unsupported)
       (\<lambda>(act, unsupported').
     bind_result (collect_results (\<lambda>a. seccomp_cond a (F_syscalls i)) (or_empty (sc_args entry)))
       (\<lambda>conds.
     gather number (i + 1) entries
       (gather_names number \<lparr>r_conds = conds, r_action = act\<rparr> (sc_names entry) ga) unsupported'))"

definition resolve :: "(string \<Rightarrow> u32 option) \<Rightarrow> LinuxSeccomp \<Rightarrow> SeccompError + Resolved" where
  "resolve number spec =
     (let unsupported = (if ls_listener_path spec \<noteq> None then [F_listenerPath] else [])
      in bind_result (check_architectures (or_empty (ls_architectures spec))) (\<lambda>_.
         let (flags, unsupported) = filter_flags (or_empty (ls_flags spec)) unsupported
         in bind_result (seccomp_action (ls_default_action spec) (ls_default_errno_ret spec) F_default unsupported)
              (\<lambda>(dflt, unsupported).
            bind_result (gather number 0 (or_empty (ls_syscalls spec))
                \<lparr>ga_rules = [], ga_skipped = [], ga_highest = None\<rparr> unsupported)
              (\<lambda>(ga, unsupported).
            if unsupported \<noteq> [] then Inl (Unsupported unsupported)
            else Inr \<lparr>res_default = dflt, res_flags = flags, res_rules = ga_rules ga,
                      res_enosys_above = (if stub_wanted dflt then ga_highest ga else None),
                      res_skipped = ga_skipped ga\<rparr>))))"

section \<open>Pass 2: simplify\<close>

text \<open>\<open>Cond::constant\<close>: what the condition is, if the argument's value doesn't matter.\<close>

definition cond_constant :: "Cond \<Rightarrow> bool option" where
  "cond_constant c =
     (case c_op c of
        Lt \<Rightarrow> if c_value c = 0 then Some False else None
      | Ge \<Rightarrow> if c_value c = 0 then Some True else None
      | Gt \<Rightarrow> if c_value c = - 1 then Some False else None
      | Le \<Rightarrow> if c_value c = - 1 then Some True else None
      | MaskedEq \<Rightarrow>
          if c_value_two c AND NOT (c_value c) \<noteq> 0 then Some False
          else if c_value c = 0 then Some True else None
      | _ \<Rightarrow> None)"

text \<open>The inner loop: the conditions kept, and whether one can never hold.\<close>

fun simplify_conds :: "Cond list \<Rightarrow> Cond list \<Rightarrow> bool \<Rightarrow> Cond list \<times> bool" where
  "simplify_conds [] conds never = (conds, never)"
| "simplify_conds (c # cs) conds never =
     (case cond_constant c of
        Some True \<Rightarrow> simplify_conds cs conds never
      | Some False \<Rightarrow> simplify_conds cs conds True
      | None \<Rightarrow> simplify_conds cs (if c \<notin> set conds then conds @ [c] else conds) never)"

fun simplify_rules :: "Rule list \<Rightarrow> Rule list \<Rightarrow> Rule list" where
  "simplify_rules [] out = out"
| "simplify_rules (rule # rules) out =
     (let (conds, never) = simplify_conds (r_conds rule) [] False;
          rule = \<lparr>r_conds = conds, r_action = r_action rule\<rparr>
      in if never \<or> rule \<in> set out then simplify_rules rules out
         else if conds = [] then out @ [rule]
         else simplify_rules rules (out @ [rule]))"

text \<open>The \<open>while\<close> that pops trailing rules with the default's action.\<close>

definition pop_default :: "u32 \<Rightarrow> Rule list \<Rightarrow> Rule list" where
  "pop_default dflt out = rev (dropWhile (\<lambda>r. r_action r = dflt) (rev out))"

definition simplify :: "Rule list \<Rightarrow> u32 \<Rightarrow> Rule list" where
  "simplify rules dflt = pop_default dflt (simplify_rules rules [])"

section \<open>Pass 3: code generation\<close>

record Run =
  run_lo :: u32
  run_hi :: u32
  run_block :: nat

definition push_run :: "u32 \<Rightarrow> u32 \<Rightarrow> nat \<Rightarrow> Run list \<Rightarrow> Run list" where
  "push_run lo hi block runs =
     (if runs \<noteq> [] \<and> run_block (last runs) = block
      then butlast runs @ [(last runs)\<lparr>run_hi := hi\<rparr>]
      else runs @ [\<lparr>run_lo = lo, run_hi = hi, run_block = block\<rparr>])"

fun runs_loop :: "(u32 \<times> nat) list \<Rightarrow> nat \<Rightarrow> u32 \<Rightarrow> Run list \<Rightarrow> u32 \<times> Run list" where
  "runs_loop [] dflt nxt runs = (nxt, runs)"
| "runs_loop ((nr, block) # targets) dflt nxt runs =
     (let runs = (if nr > nxt then push_run nxt (nr - 1) dflt runs else runs)
      in runs_loop targets dflt (nr + 1) (push_run nr nr block runs))"

definition dispatch_runs :: "(u32 \<times> nat) list \<Rightarrow> nat \<Rightarrow> u32 \<Rightarrow> Run list" where
  "dispatch_runs targets dflt highest =
     (let (nxt, rs) = runs_loop targets dflt 0 []
      in if nxt \<le> highest then push_run nxt highest dflt rs else rs)"

definition MAX_CHAIN :: nat where "MAX_CHAIN = 3"

fun every_second :: "'a list \<Rightarrow> 'a list" where
  "every_second [] = []"
| "every_second [x] = [x]"
| "every_second (x # _ # xs) = x # every_second xs"

definition jeq_chain :: "Run list \<Rightarrow> (nat \<times> (u32 \<times> nat) list) option" where
  "jeq_chain rs =
     (if even (length rs) \<or> length rs > 2 * MAX_CHAIN + 1 then None
      else let background = run_block (rs ! 0);
               shape_ok = list_all (\<lambda>(i, r). if even i then run_block r = background
                                             else run_lo r = run_hi r) (enumerate 0 rs)
           in if shape_ok
              then Some (background, map (\<lambda>r. (run_lo r, run_block r)) (every_second (drop 1 rs)))
              else None)"

record Gen =
  g_p :: Program
  g_blocks :: "Rule list list"
  g_ids :: "Rule list \<rightharpoonup> nat"
  g_labels :: "Label list"
  g_default :: u32

definition emit :: "(Program \<Rightarrow> Program) \<Rightarrow> Gen \<Rightarrow> Gen" where
  "emit f g = g\<lparr>g_p := f (g_p g)\<rparr>"

definition fresh :: "Gen \<Rightarrow> Label \<times> Gen" where
  "fresh g = (let (l, p) = new_label (g_p g) in (l, g\<lparr>g_p := p\<rparr>))"

definition gen_block :: "Rule list \<Rightarrow> Gen \<Rightarrow> nat \<times> Gen" where
  "gen_block rules g =
     (case g_ids g rules of
        Some i \<Rightarrow> (i, g)
      | None \<Rightarrow>
          let i = length (g_blocks g);
              g = g\<lparr>g_ids := (g_ids g)(rules \<mapsto> i), g_blocks := g_blocks g @ [rules]\<rparr>;
              (l, g) = fresh g
          in (i, g\<lparr>g_labels := g_labels g @ [l]\<rparr>))"

definition single_ret :: "Gen \<Rightarrow> nat \<Rightarrow> u32 option" where
  "single_ret g i =
     (case g_blocks g ! i of
        [] \<Rightarrow> Some (g_default g)
      | [rule] \<Rightarrow> if r_conds rule = [] then Some (r_action rule) else None
      | _ \<Rightarrow> None)"

definition gen_entry :: "Run list \<Rightarrow> Gen \<Rightarrow> Label \<times> Gen" where
  "gen_entry rs g = (case rs of [r] \<Rightarrow> (g_labels g ! run_block r, g) | _ \<Rightarrow> fresh g)"

fun gen_chain :: "nat \<Rightarrow> (u32 \<times> nat) list \<Rightarrow> Gen \<Rightarrow> Gen" where
  "gen_chain background [] g = g"
| "gen_chain background ((nr, b) # singles) g =
     gen_chain background singles
       (emit (p_jeq nr (L (g_labels g ! b))
          (if singles = [] then L (g_labels g ! background) else Next)) g)"

text \<open>The dispatch tree; the result is its depth. (\<open>runs\<close> is never empty here: \<open>compile\<close>
  starts with at least one run, and both halves of two or more are smaller and not empty.)\<close>

function gen_tree :: "Run list \<Rightarrow> Label \<Rightarrow> Gen \<Rightarrow> nat \<times> Gen" where
  "gen_tree rs l g =
     (if length rs \<le> 1 then (0, g)
      else let g = emit (p_place l) g
           in case jeq_chain rs of
                Some (background, singles) \<Rightarrow> (length singles, gen_chain background singles g)
              | None \<Rightarrow>
                  let left = take (length rs div 2) rs;
                      right = drop (length rs div 2) rs;
                      (ll, g) = gen_entry left g;
                      (lr, g) = gen_entry right g;
                      g = emit (p_jge (run_lo (right ! 0)) (L lr) (L ll)) g;
                      (depth_left, g) = gen_tree left ll g;
                      (depth_right, g) = gen_tree right lr g
                  in (1 + max depth_left depth_right, g))"
  by pat_completeness auto
termination
  by (relation "measure (\<lambda>(rs, l, g). length rs)") auto

declare gen_tree.simps [simp del]

text \<open>\<open>halves\<close>\<close>

definition halves :: "u64 \<Rightarrow> u32 \<times> u32" where
  "halves v = (hi32 v, lo32 v)"

text \<open>The body of the \<open>MaskedEq\<close> loop, for one word.\<close>

definition masked_word :: "u32 \<Rightarrow> u32 \<Rightarrow> u32 \<Rightarrow> Label \<Rightarrow> Gen \<Rightarrow> Gen" where
  "masked_word offset m want fail g =
     (if m = 0 then g
      else let g = emit (p_ld offset) g;
               g = (if m \<noteq> - 1 then emit (p_and m) g else g)
           in emit (p_jeq want Next (L fail)) g)"

definition gen_cond :: "Cond \<Rightarrow> Label \<Rightarrow> Gen \<Rightarrow> Gen" where
  "gen_cond c fail g =
     (let lo = DATA_ARGS + 8 * c_index c;
          hi = lo + 4;
          (vh, vl) = halves (c_value c);
          (pass, g) = fresh g;
          g = (case c_op c of
                 Eq \<Rightarrow>
                   emit (p_jeq vl Next (L fail))
                   (emit (p_ld lo)
                   (emit (p_jeq vh Next (L fail))
                   (emit (p_ld hi) g)))
               | Ne \<Rightarrow>
                   emit (p_jeq vl (L fail) Next)
                   (emit (p_ld lo)
                   (emit (p_jeq vh Next (L pass))
                   (emit (p_ld hi) g)))
               | Gt \<Rightarrow>
                   emit (p_jgt vl Next (L fail))
                   (emit (p_ld lo)
                   ((if vh \<noteq> 0 then emit (p_jeq vh Next (L fail)) else id)
                   (emit (p_jgt vh (L pass) Next)
                   (emit (p_ld hi) g))))
               | Ge \<Rightarrow>
                   emit (p_jge vl Next (L fail))
                   (emit (p_ld lo)
                   ((if vh \<noteq> 0 then emit (p_jeq vh Next (L fail)) else id)
                   (emit (p_jgt vh (L pass) Next)
                   (emit (p_ld hi) g))))
               | Lt \<Rightarrow>
                   emit (p_jge vl (L fail) Next)
                   (emit (p_ld lo)
                   ((if vh \<noteq> 0 then emit (p_jeq vh Next (L pass)) else id)
                   (emit (p_jgt vh (L fail) Next)
                   (emit (p_ld hi) g))))
               | Le \<Rightarrow>
                   emit (p_jgt vl (L fail) Next)
                   (emit (p_ld lo)
                   ((if vh \<noteq> 0 then emit (p_jeq vh Next (L pass)) else id)
                   (emit (p_jgt vh (L fail) Next)
                   (emit (p_ld hi) g))))
               | MaskedEq \<Rightarrow>
                   (let (mh, ml) = halves (c_value c);
                        (wh, wl) = halves (c_value_two c)
                    in masked_word lo ml wl fail (masked_word hi mh wh fail g)))
      in emit (p_place pass) g)"

fun gen_conds :: "Cond list \<Rightarrow> Label \<Rightarrow> Gen \<Rightarrow> Gen" where
  "gen_conds [] fail g = g"
| "gen_conds (c # cs) fail g = gen_conds cs fail (gen_cond c fail g)"

text \<open>The loop of \<open>Gen::rules\<close> over the rules that are left.\<close>

fun gen_rules_loop :: "Rule list \<Rightarrow> Label \<Rightarrow> Gen \<Rightarrow> Gen" where
  "gen_rules_loop [] dflt g = g"
| "gen_rules_loop (rule # rules) dflt g =
     (let last = (rules = []);
          (fail, g) = (if last then (dflt, g) else fresh g);
          g = gen_conds (r_conds rule) fail g;
          g = emit (p_ret (r_action rule)) g;
          g = (if \<not> last then emit (p_place fail) g else g)
      in gen_rules_loop rules dflt g)"

definition gen_rules :: "nat \<Rightarrow> Gen \<Rightarrow> Gen" where
  "gen_rules i g = gen_rules_loop (g_blocks g ! i) (g_labels g ! 0) g"

section \<open>All three passes\<close>

record Filter =
  f_program :: "SockFilter list"
  f_flags :: u32

record Stats =
  st_instructions :: nat
  st_syscalls :: nat
  st_skipped :: "string list"
  st_default_action :: u32
  st_enosys_above :: "u32 option"
  st_ranges :: nat
  st_dispatch_depth :: nat
  st_blocks :: nat
  st_trampolines :: nat

definition Gen_init :: "u32 \<Rightarrow> Gen" where
  "Gen_init dflt =
     \<lparr>g_p = Program_default, g_blocks = [], g_ids = Map.empty, g_labels = [], g_default = dflt\<rparr>"

fun gen_targets :: "(u32 \<times> Rule list) list \<Rightarrow> Gen \<Rightarrow> (u32 \<times> nat) list \<times> Gen" where
  "gen_targets [] g = ([], g)"
| "gen_targets ((nr, rules) # m) g =
     (let (i, g) = gen_block (simplify rules (g_default g)) g;
          (ts, g) = gen_targets m g
      in ((nr, i) # ts, g))"

text \<open>The steps 1 to 3 of \<open>compile\<close>: the architecture, x32, the ENOSYS stub.\<close>

definition gen_header :: "u32 option \<Rightarrow> Gen \<Rightarrow> Gen" where
  "gen_header enosys_above g =
     (let g = emit (p_ld DATA_ARCH) g;
          (arch_ok, g) = fresh g;
          g = emit (p_jeq AUDIT_ARCH_X86_64 (L arch_ok) Next) g;
          g = emit (p_ret RET_KILL_PROCESS) g;
          g = emit (p_place arch_ok) g;
          g = emit (p_ld DATA_NR) g;
          (nr_ok, g) = fresh g;
          g = emit (p_jset X32_SYSCALL_BIT Next (L nr_ok)) g;
          g = emit (p_jeq (- 1) (L nr_ok) Next) g;
          g = emit (p_ret RET_KILL_PROCESS) g;
          g = emit (p_place nr_ok) g
      in case enosys_above of
           None \<Rightarrow> g
         | Some highest \<Rightarrow>
             (let (known, g) = fresh g;
                  g = emit (p_jgt highest Next (L known)) g;
                  g = emit (p_ret (RET_ERRNO OR ENOSYS)) g
              in emit (p_place known) g))"

text \<open>Step 5: the rule blocks, then the blocks that are a single \<open>ret\<close>.\<close>

definition gen_rule_block :: "nat \<Rightarrow> Gen \<Rightarrow> Gen" where
  "gen_rule_block i g =
     (if single_ret g i = None then gen_rules i (emit (p_place (g_labels g ! i)) g) else g)"

definition gen_ret_block :: "nat \<Rightarrow> Gen \<Rightarrow> Gen" where
  "gen_ret_block i g =
     (case single_ret g i of
        None \<Rightarrow> g
      | Some act \<Rightarrow> emit (p_ret act) (emit (p_place (g_labels g ! i)) g))"

definition gen_blocks :: "Gen \<Rightarrow> Gen" where
  "gen_blocks g =
     (let g' = fold gen_rule_block [0..<length (g_blocks g)] g
      in fold gen_ret_block [0..<length (g_blocks g')] g')"

definition compile :: "(string \<Rightarrow> u32 option) \<Rightarrow> LinuxSeccomp \<Rightarrow> SeccompError + (Filter \<times> Stats)" where
  "compile number spec =
     bind_result (resolve number spec) (\<lambda>r.
       let (default_block, g) = gen_block [] (Gen_init (res_default r));
           (targets, g) = gen_targets (res_rules r) g;
           rs = dispatch_runs targets default_block (case res_enosys_above r of None \<Rightarrow> - 1 | Some h \<Rightarrow> h);
           g = gen_header (res_enosys_above r) g
       in if rs = [] then Inl CompilerPanicked
          else
            let (l, g) = gen_entry rs g;
                (depth, g) = gen_tree rs l g;
                g = (if length rs = 1 then emit (p_ja l) g else g);
                g = gen_blocks g
            in case assemble (g_p g) of
                 None \<Rightarrow> Inl CompilerPanicked
               | Some asm \<Rightarrow>
                   if length (a_insns asm) > BPF_MAXINSNS
                   then Inl (FilterTooLarge (length (a_insns asm)))
                   else Inr (\<lparr>f_program = a_insns asm, f_flags = res_flags r\<rparr>,
                     \<lparr>st_instructions = length (a_insns asm), st_syscalls = length (res_rules r),
                      st_skipped = res_skipped r, st_default_action = res_default r,
                      st_enosys_above = res_enosys_above r, st_ranges = length rs,
                      st_dispatch_depth = depth, st_blocks = length (g_blocks g),
                      st_trampolines = a_trampolines asm\<rparr>))"

end
