(* ===== verification/SeccompSimplify.thy ===== *)
theory SeccompSimplify
  imports Seccomp
begin

text \<open>
  What a syscall's rule list decides, and that the second pass of the seccomp compiler
  (\<open>simplify\<close> in \<^verbatim>\<open>compile.rs\<close>) keeps every verdict while leaving only conditions that
  the code generator can compile.
\<close>

section \<open>What a rule list decides\<close>

text \<open>The documented semantics: a rule's conditions are ANDed, comparisons are unsigned and
  64 bits wide, the first matching rule decides, and no match means the default.\<close>

definition arg_of :: "SeccompData \<Rightarrow> Cond \<Rightarrow> u64" where
  "arg_of d c = sd_args d (unat (c_index c))"

fun cmp_holds :: "Cmp \<Rightarrow> u64 \<Rightarrow> u64 \<Rightarrow> u64 \<Rightarrow> bool" where
  "cmp_holds Eq a v w = (a = v)"
| "cmp_holds Ne a v w = (a \<noteq> v)"
| "cmp_holds Lt a v w = (a < v)"
| "cmp_holds Le a v w = (a \<le> v)"
| "cmp_holds Gt a v w = (a > v)"
| "cmp_holds Ge a v w = (a \<ge> v)"
| "cmp_holds MaskedEq a v w = (a AND v = w)"

definition cond_holds :: "SeccompData \<Rightarrow> Cond \<Rightarrow> bool" where
  "cond_holds d c = cmp_holds (c_op c) (arg_of d c) (c_value c) (c_value_two c)"

definition rule_matches :: "SeccompData \<Rightarrow> Rule \<Rightarrow> bool" where
  "rule_matches d r = list_all (cond_holds d) (r_conds r)"

definition verdict :: "SeccompData \<Rightarrow> u32 \<Rightarrow> Rule list \<Rightarrow> u32" where
  "verdict d dflt rules =
     (case find (rule_matches d) rules of Some r \<Rightarrow> r_action r | None \<Rightarrow> dflt)"

lemma verdict_Nil [simp]: "verdict d dflt [] = dflt"
  by (simp add: verdict_def)

lemma verdict_Cons:
  "verdict d dflt (r # rs) = (if rule_matches d r then r_action r else verdict d dflt rs)"
  by (simp add: verdict_def)

lemma verdict_append:
  "verdict d dflt (xs @ ys) =
     (if \<exists>r\<in>set xs. rule_matches d r then verdict d dflt xs else verdict d dflt ys)"
  by (induction xs) (auto simp: verdict_Cons)

section \<open>Pass 2 keeps every verdict\<close>

lemma masked_outside:
  assumes "w AND NOT v \<noteq> (0 :: u64)"
  shows "a AND v \<noteq> w"
proof
  assume "a AND v = w"
  then have "w AND NOT v = a AND (v AND NOT v)" by (metis and.assoc)
  then show False using assms by simp
qed

lemma cond_constant_sound: "cond_constant c = Some b \<Longrightarrow> cond_holds d c = b"
  unfolding cond_constant_def cond_holds_def
  using masked_outside[of "c_value_two c" "c_value c" "arg_of d c"]
  by (auto split: Cmp.splits if_splits simp: word_n1_ge)

lemma simplify_conds_sound:
  "simplify_conds cs conds never = (conds', never') \<Longrightarrow>
   (\<not> never' \<and> list_all (cond_holds d) conds') \<longleftrightarrow>
   (\<not> never \<and> list_all (cond_holds d) conds \<and> list_all (cond_holds d) cs)"
proof (induction cs arbitrary: conds never)
  case (Cons c cs)
  show ?case
  proof (cases "cond_constant c")
    case None
    then show ?thesis using Cons by (auto simp: list_all_iff split: if_splits)
  next
    case (Some b)
    then show ?thesis using Cons cond_constant_sound[OF Some, of d] by (cases b) auto
  qed
qed simp

lemma simplify_conds_nonconstant:
  "simplify_conds cs conds never = (conds', never') \<Longrightarrow>
   \<forall>c\<in>set conds. P c \<and> cond_constant c = None \<Longrightarrow> \<forall>c\<in>set cs. P c \<Longrightarrow>
   \<forall>c\<in>set conds'. P c \<and> cond_constant c = None"
proof (induction cs arbitrary: conds never)
  case (Cons c cs)
  show ?case
  proof (cases "cond_constant c")
    case None
    let ?conds = "if c \<notin> set conds then conds @ [c] else conds"
    have "simplify_conds cs ?conds never = (conds', never')" using Cons.prems(1) None by simp
    moreover have "\<forall>c\<in>set ?conds. P c \<and> cond_constant c = None" using Cons.prems(2,3) None by simp
    ultimately show ?thesis using Cons.IH Cons.prems(3) by (meson list.set_intros(2))
  next
    case (Some b)
    then obtain n where "simplify_conds cs conds n = (conds', never')"
      using Cons.prems(1) by (cases b) auto
    then show ?thesis using Cons.IH Cons.prems(2,3) by (meson list.set_intros(2))
  qed
qed simp

lemma simplify_rules_sound:
  "verdict d dflt (simplify_rules rules out) = verdict d dflt (out @ rules)"
proof (induction rules out rule: simplify_rules.induct)
  case (2 rule rules out)
  obtain conds never where sc: "simplify_conds (r_conds rule) [] False = (conds, never)"
    by (cases "simplify_conds (r_conds rule) [] False")
  let ?r = "\<lparr>r_conds = conds, r_action = r_action rule\<rparr>"
  have same: "rule_matches d rule \<longleftrightarrow> \<not> never \<and> rule_matches d ?r"
    using simplify_conds_sound[OF sc, of d] by (simp add: rule_matches_def)
  consider (drop) "never \<or> ?r \<in> set out" | (stop) "\<not> never" "?r \<notin> set out" "conds = []"
    | (keep) "\<not> never" "?r \<notin> set out" "conds \<noteq> []" by blast
  then show ?case
  proof cases
    case drop
    have "verdict d dflt (out @ rule # rules) = verdict d dflt (out @ rules)"
      using drop same by (auto simp: verdict_append verdict_Cons)
    then show ?thesis using "2.IH"(1) sc drop by simp
  next
    case stop
    then have "rule_matches d rule" using same by (simp add: rule_matches_def)
    then show ?thesis using sc stop same by (auto simp: verdict_append verdict_Cons)
  next
    case keep
    have "verdict d dflt ((out @ [?r]) @ rules) = verdict d dflt (out @ rule # rules)"
      using keep same by (simp add: verdict_append verdict_Cons)
    then show ?thesis using "2.IH"(2)[OF sc[symmetric] refl refl] sc keep by simp
  qed
qed simp

lemma verdict_all_default: "\<forall>r\<in>set rs. r_action r = dflt \<Longrightarrow> verdict d dflt rs = dflt"
  by (induction rs) (auto simp: verdict_Cons)

lemma pop_default_sound: "verdict d dflt (pop_default dflt rs) = verdict d dflt rs"
proof -
  have "rs = pop_default dflt rs @ rev (takeWhile (\<lambda>r. r_action r = dflt) (rev rs))"
    unfolding pop_default_def by (metis rev_append rev_rev_ident takeWhile_dropWhile_id)
  moreover have "verdict d dflt (rev (takeWhile (\<lambda>r. r_action r = dflt) (rev rs))) = dflt"
    by (rule verdict_all_default) (auto dest: set_takeWhileD)
  ultimately show ?thesis
    by (metis (no_types, lifting) verdict_append verdict_def find_None_iff option.simps(4))
qed

lemma simplify_sound: "verdict d dflt (simplify rules dflt) = verdict d dflt rules"
  by (simp add: simplify_def pop_default_sound simplify_rules_sound)

definition rules_ready :: "Rule list \<Rightarrow> bool" where
  "rules_ready rs \<longleftrightarrow>
     (\<forall>r\<in>set rs. \<forall>c\<in>set (r_conds r). c_index c \<le> 5 \<and> cond_constant c = None)"

lemma simplify_rules_ready:
  "rules_ready out \<Longrightarrow> \<forall>r\<in>set rules. \<forall>c\<in>set (r_conds r). c_index c \<le> 5 \<Longrightarrow>
   rules_ready (simplify_rules rules out)"
proof (induction rules out rule: simplify_rules.induct)
  case (2 rule rules out)
  obtain conds never where sc: "simplify_conds (r_conds rule) [] False = (conds, never)"
    by (cases "simplify_conds (r_conds rule) [] False")
  let ?r = "\<lparr>r_conds = conds, r_action = r_action rule\<rparr>"
  have "\<forall>c\<in>set conds. c_index c \<le> 5 \<and> cond_constant c = None"
    using simplify_conds_nonconstant[OF sc, of "\<lambda>c. c_index c \<le> 5"] "2.prems"(2) by simp
  then have ready: "rules_ready (out @ [?r])" using "2.prems"(1) by (auto simp: rules_ready_def)
  show ?case
    using "2.IH"(1) "2.IH"(2)[OF sc[symmetric] refl refl] "2.prems" ready sc
    by (auto simp: Let_def)
qed simp

lemma simplify_ready:
  assumes "\<forall>r\<in>set rules. \<forall>c\<in>set (r_conds r). c_index c \<le> 5"
  shows "rules_ready (simplify rules dflt)"
proof -
  have "set (simplify rules dflt) \<subseteq> set (simplify_rules rules [])"
    unfolding simplify_def pop_default_def by (auto dest: set_dropWhileD)
  then show ?thesis
    using simplify_rules_ready[of "[]", OF _ assms] by (fastforce simp: rules_ready_def)
qed

text \<open>Dropping conditions that always hold, rules that never match or were seen before, and
  what follows an unconditional rule or ends in the default's action changes no verdict.\<close>

theorem simplify_keeps_verdict: "verdict d dflt (simplify rules dflt) = verdict d dflt rules"
  by (rule simplify_sound)

end
