(* ===== verification/SeccompDispatch.thy ===== *)
theory SeccompDispatch
  imports Seccomp
begin

text \<open>
  The ranges of syscall numbers that the seccomp compiler dispatches on (\<open>runs\<close> and
  \<open>jeq_chain\<close> in \<^verbatim>\<open>compile.rs\<close>): they lie side by side, cover every number up to
  the highest, and send each to the block its target names.
\<close>

section \<open>Ranges of syscall numbers\<close>

text \<open>The runs lie side by side, from \<open>a\<close> up to (not including) \<open>b\<close>.\<close>

fun covers :: "nat \<Rightarrow> Run list \<Rightarrow> nat \<Rightarrow> bool" where
  "covers a [] b = (a = b)"
| "covers a (r # rs) b =
     (unat (run_lo r) = a \<and> a \<le> unat (run_hi r) \<and> covers (unat (run_hi r) + 1) rs b)"

definition runs_map :: "(nat \<Rightarrow> nat) \<Rightarrow> Run list \<Rightarrow> bool" where
  "runs_map f rs \<longleftrightarrow>
     (\<forall>r\<in>set rs. \<forall>n. unat (run_lo r) \<le> n \<longrightarrow> n \<le> unat (run_hi r) \<longrightarrow> run_block r = f n)"

lemma covers_append: "covers a (xs @ ys) b \<longleftrightarrow> (\<exists>m. covers a xs m \<and> covers m ys b)"
  by (induction xs arbitrary: a) auto

lemma covers_le: "covers a rs b \<Longrightarrow> a \<le> b"
  by (induction rs arbitrary: a) fastforce+

lemma covers_hit:
  assumes "covers a rs b" and "a \<le> n" and "n < b"
  shows "\<exists>r\<in>set rs. unat (run_lo r) \<le> n \<and> n \<le> unat (run_hi r)"
  using assms
proof (induction rs arbitrary: a)
  case (Cons r rs)
  show ?case
  proof (cases "n \<le> unat (run_hi r)")
    case True
    then show ?thesis using Cons.prems by auto
  next
    case False
    then have "\<exists>r\<in>set rs. unat (run_lo r) \<le> n \<and> n \<le> unat (run_hi r)"
      using Cons.IH[of "unat (run_hi r) + 1"] Cons.prems by auto
    then show ?thesis by auto
  qed
qed simp

lemma covers_above: "covers a rs b \<Longrightarrow> \<forall>r\<in>set rs. a \<le> unat (run_lo r)"
  by (induction rs arbitrary: a) fastforce+

lemma every_second_set: "set (every_second xs) \<subseteq> set xs"
  by (induction xs rule: every_second.induct) auto

lemma push_run_covers:
  assumes "covers a rs (unat lo)" and "lo \<le> hi"
  shows "covers a (push_run lo hi b rs) (unat hi + 1)"
proof (cases "rs \<noteq> [] \<and> run_block (last rs) = b")
  case True
  then obtain ys r where rs: "rs = ys @ [r]" by (metis append_butlast_last_id)
  then have "covers a ys (unat (run_lo r))" "unat (run_hi r) + 1 = unat lo"
      "unat (run_lo r) \<le> unat (run_hi r)"
    using assms(1) by (auto simp: covers_append)
  then show ?thesis
    using True rs assms(2) by (simp add: push_run_def covers_append word_le_nat_alt)
next
  case False
  then have "push_run lo hi b rs = rs @ [\<lparr>run_lo = lo, run_hi = hi, run_block = b\<rparr>]"
    by (auto simp: push_run_def)
  then show ?thesis using assms by (auto simp: covers_append word_le_nat_alt)
qed

lemma push_run_map:
  assumes "covers a rs (unat lo)" and "runs_map f rs"
    and "\<And>n. unat lo \<le> n \<Longrightarrow> n \<le> unat hi \<Longrightarrow> f n = b"
  shows "runs_map f (push_run lo hi b rs)"
proof (cases "rs \<noteq> [] \<and> run_block (last rs) = b")
  case True
  then obtain ys r where rs: "rs = ys @ [r]" by (metis append_butlast_last_id)
  then have hi: "unat (run_hi r) + 1 = unat lo" and b: "run_block r = b"
    using assms(1) True by (auto simp: covers_append)
  have old: "run_block r = f n" if "unat (run_lo r) \<le> n" "n \<le> unat (run_hi r)" for n
    using assms(2) rs that by (simp add: runs_map_def)
  have "run_block r = f n" if "unat (run_lo r) \<le> n" "n \<le> unat hi" for n
    using old[of n] assms(3)[of n] that hi b by (cases "n \<le> unat (run_hi r)") auto
  then show ?thesis
    using True rs assms(2) by (simp add: push_run_def runs_map_def)
next
  case False
  then have "push_run lo hi b rs = rs @ [\<lparr>run_lo = lo, run_hi = hi, run_block = b\<rparr>]"
    by (auto simp: push_run_def)
  then show ?thesis using assms(2,3) by (auto simp: runs_map_def)
qed

text \<open>Which block a number goes to.\<close>

definition block_of :: "(u32 \<times> nat) list \<Rightarrow> nat \<Rightarrow> nat \<Rightarrow> nat" where
  "block_of targets dflt n =
     (case find (\<lambda>(nr, b). unat nr = n) targets of Some (nr, b) \<Rightarrow> b | None \<Rightarrow> dflt)"

text \<open>Sorted by number, and no number is the largest \<open>u32\<close> (so \<open>nr + 1\<close> is one more).\<close>

definition targets_ok :: "(u32 \<times> 'b) list \<Rightarrow> bool" where
  "targets_ok ts \<longleftrightarrow> sorted_wrt (<) (map fst ts) \<and> (\<forall>(nr, b)\<in>set ts. nr < - 1)"

lemma unat_Suc: "nr < - 1 \<Longrightarrow> unat (nr + 1 :: u32) = unat nr + 1"
proof -
  assume "nr < - 1"
  then have "unat nr < 2 ^ 32 - 1"
    by (simp add: word_less_nat_alt unsigned_minus_1_eq_mask mask_eq_exp_minus_1)
  then show ?thesis by (simp add: unat_word_ariths)
qed

lemma unat_pred: "nxt < nr \<Longrightarrow> unat (nr - 1 :: u32) + 1 = unat nr \<and> nxt \<le> nr - 1"
proof -
  assume less: "nxt < nr"
  then have "unat nr \<noteq> 0" by (simp add: word_less_nat_alt)
  then have "1 \<le> nr" by (simp add: word_le_nat_alt)
  then have "unat (nr - 1) = unat nr - 1" by (simp add: unat_sub)
  then show ?thesis using less by (simp add: word_less_nat_alt word_le_nat_alt)
qed

lemma block_of_Cons:
  "block_of ((nr, b) # ts) dflt n = (if unat nr = n then b else block_of ts dflt n)"
  by (simp add: block_of_def)

lemma block_of_before:
  assumes "\<forall>(nr, b)\<in>set ts. n < unat nr"
  shows "block_of ts dflt n = dflt"
proof -
  have "find (\<lambda>(nr, b). unat nr = n) ts = None"
    using assms by (force simp: find_None_iff)
  then show ?thesis by (simp add: block_of_def)
qed

text \<open>The loop keeps the ranges so far side by side; what is still to come lies above them.\<close>

lemma runs_loop_ok:
  assumes "covers 0 rs (unat nxt)" and "runs_map f rs" and "targets_ok ts"
    and "\<forall>(nr, b)\<in>set ts. nxt \<le> nr"
    and "\<And>n. unat nxt \<le> n \<Longrightarrow> f n = block_of ts dflt n"
    and "runs_loop ts dflt nxt rs = (nxt', rs')"
  shows "covers 0 rs' (unat nxt') \<and> runs_map f rs' \<and> (\<forall>n \<ge> unat nxt'. f n = dflt)
    \<and> (\<forall>(nr, b)\<in>set ts. nr < nxt')"
  using assms
proof (induction ts dflt nxt rs rule: runs_loop.induct)
  case (1 dflt nxt rs)
  then show ?case by (simp add: block_of_def)
next
  case (2 nr block ts dflt nxt rs)
  define mid where "mid = (if nr > nxt then push_run nxt (nr - 1) dflt rs else rs)"
  have nr: "nr < - 1" and above: "\<forall>(n, b)\<in>set ts. nr < n" and ts: "targets_ok ts" and le: "nxt \<le> nr"
    using "2.prems"(3,4) by (auto simp: targets_ok_def)
  have gap: "f n = dflt" if "unat nxt \<le> n" "n < unat nr" for n
  proof -
    have "block_of ts dflt n = dflt"
      by (rule block_of_before) (use above that in \<open>auto simp: word_less_nat_alt\<close>)
    then show ?thesis using "2.prems"(5)[of n] that by (simp add: block_of_Cons)
  qed
  have mid: "covers 0 mid (unat nr) \<and> runs_map f mid"
  proof (cases "nr > nxt")
    case True
    then have pred: "unat (nr - 1) + 1 = unat nr" "nxt \<le> nr - 1"
      using unat_pred by auto
    then show ?thesis
      using push_run_covers[OF "2.prems"(1), of "nr - 1" dflt]
        push_run_map[OF "2.prems"(1,2), of "nr - 1" dflt] gap True
      by (simp add: mid_def)
  next
    case False
    then show ?thesis using le "2.prems"(1,2) by (auto simp: mid_def)
  qed
  have here: "f (unat nr) = block"
    using "2.prems"(5)[of "unat nr"] le by (simp add: block_of_Cons word_le_nat_alt)
  have out: "covers 0 (push_run nr nr block mid) (unat (nr + 1))"
      "runs_map f (push_run nr nr block mid)"
    using push_run_covers[of 0 mid nr nr block] push_run_map[of 0 mid nr f nr block] mid here
    by (auto simp: unat_Suc[OF nr])
  have later: "f n = block_of ts dflt n" if "unat (nr + 1) \<le> n" for n
    using that le "2.prems"(5)[of n] by (simp add: block_of_Cons unat_Suc[OF nr] word_le_nat_alt)
  have up: "\<forall>(n, b)\<in>set ts. nr + 1 \<le> n"
    using above by (auto simp: inc_le)
  have step: "runs_loop ts dflt (nr + 1) (push_run nr nr block mid) = (nxt', rs')"
    using "2.prems"(6) by (simp add: mid_def)
  have "nr < nxt'" if "ts = []"
    using that step nr unat_Suc[OF nr] by (simp add: word_less_nat_alt)
  moreover have "nr < nxt'" if "ts \<noteq> []" "\<forall>(n, b)\<in>set ts. n < nxt'"
    using that above by (cases ts) auto
  ultimately show ?case
    using "2.IH"[OF refl, folded mid_def, OF out ts up later step] by auto
qed

lemma runs_loop_next:
  assumes "targets_ok ts" and "runs_loop ts dflt nxt rs = (nxt', rs')"
    and "\<forall>(nr, b)\<in>set ts. nr \<le> highest"
  shows "nxt' = nxt \<or> unat nxt' \<le> unat highest + 1"
  using assms
proof (induction ts dflt nxt rs rule: runs_loop.induct)
  case (2 nr block ts dflt nxt rs)
  have "unat (nr + 1) \<le> unat highest + 1"
    using "2.prems"(1,3) unat_Suc[of nr] by (auto simp: targets_ok_def word_le_nat_alt)
  moreover have "targets_ok ts" using "2.prems"(1) by (simp add: targets_ok_def)
  ultimately show ?case using "2.IH"[OF refl] "2.prems"(2,3) by auto
qed simp

lemma dispatch_runs_ok:
  assumes "targets_ok ts" and "\<forall>(nr, b)\<in>set ts. nr \<le> highest"
  shows "covers 0 (dispatch_runs ts dflt highest) (unat highest + 1)"
    and "runs_map (block_of ts dflt) (dispatch_runs ts dflt highest)"
proof -
  let ?f = "block_of ts dflt"
  obtain nxt rs where loop: "runs_loop ts dflt 0 [] = (nxt, rs)" by (cases "runs_loop ts dflt 0 []")
  have rs: "covers 0 rs (unat nxt)" "runs_map ?f rs" "\<forall>n \<ge> unat nxt. ?f n = dflt"
    using runs_loop_ok[of "[]" 0 ?f ts dflt nxt rs, OF _ _ assms(1) _ _ loop]
    by (auto simp: runs_map_def)
  have "covers 0 (dispatch_runs ts dflt highest) (unat highest + 1)
      \<and> runs_map ?f (dispatch_runs ts dflt highest)"
  proof (cases "nxt \<le> highest")
    case True
    then show ?thesis
      using push_run_covers[OF rs(1) True, of dflt] push_run_map[OF rs(1,2), of highest dflt] rs(3)
      by (simp add: dispatch_runs_def loop)
  next
    case False
    have "unat nxt = unat highest + 1"
    proof (rule antisym)
      show "unat highest + 1 \<le> unat nxt" using False by (simp add: word_le_nat_alt)
      show "unat nxt \<le> unat highest + 1"
        using runs_loop_next[OF assms(1) loop assms(2)] False by (auto simp: word_le_nat_alt)
    qed
    then show ?thesis using rs False by (simp add: dispatch_runs_def loop)
  qed
  then show "covers 0 (dispatch_runs ts dflt highest) (unat highest + 1)"
    and "runs_map ?f (dispatch_runs ts dflt highest)" by auto
qed

section \<open>Chains of single numbers\<close>

text \<open>A \<open>jeq\<close> chain names exactly the single numbers that leave the background block.\<close>

fun chain_shape :: "nat \<Rightarrow> nat \<Rightarrow> Run list \<Rightarrow> bool" where
  "chain_shape bg k [] = True"
| "chain_shape bg k (r # rs) =
     ((if even k then run_block r = bg else run_lo r = run_hi r) \<and> chain_shape bg (Suc k) rs)"

lemma chain_shape_enumerate:
  "list_all (\<lambda>(i, r). if even i then run_block r = bg else run_lo r = run_hi r) (enumerate k rs)
   = chain_shape bg k rs"
  by (induction rs arbitrary: k) auto

lemma chain_tail:
  assumes "even (length xs)" and "chain_shape bg k xs"
    and "odd k" and "covers a xs b" and "runs_map f xs" and "a \<le> n" and "n < b"
  shows "f n = block_of (map (\<lambda>r. (run_lo r, run_block r)) (every_second xs)) bg n"
  using assms
proof (induction xs arbitrary: a k rule: every_second.induct)
  case (3 q e xs)
  have q: "run_lo q = run_hi q" and e: "run_block e = bg"
    using "3.prems"(2,3) by auto
  have cov: "unat (run_lo q) = a" "unat (run_lo e) = Suc a" "covers (unat (run_hi e) + 1) xs b"
    using "3.prems"(4) q by auto
  have blocks: "\<And>n. unat (run_lo q) \<le> n \<Longrightarrow> n \<le> unat (run_hi q) \<Longrightarrow> f n = run_block q"
      "\<And>n. unat (run_lo e) \<le> n \<Longrightarrow> n \<le> unat (run_hi e) \<Longrightarrow> f n = run_block e"
    using "3.prems"(5) by (auto simp: runs_map_def)
  consider (q) "n = a" | (e) "a < n" "n \<le> unat (run_hi e)" | (later) "unat (run_hi e) + 1 \<le> n"
    using "3.prems"(6) by linarith
  then show ?case
  proof cases
    case later
    have "f n = block_of (map (\<lambda>r. (run_lo r, run_block r)) (every_second xs)) bg n"
    proof (rule "3.IH"[of "Suc (Suc k)" "unat (run_hi e) + 1"])
      show "runs_map f xs" using "3.prems"(5) by (simp add: runs_map_def)
      show "even (length xs)" "chain_shape bg (Suc (Suc k)) xs" "odd (Suc (Suc k))"
        using "3.prems"(1,2,3) by simp_all
    qed (use "3.prems"(7) later cov(3) in simp_all)
    moreover have "a < n" using later cov "3.prems"(4) by auto
    ultimately show ?thesis using cov by (simp add: block_of_Cons)
  next
    case q
    then show ?thesis using blocks(1)[of n] cov \<open>run_lo q = run_hi q\<close> by (simp add: block_of_Cons)
  next
    case e
    have above: "\<forall>r\<in>set xs. n < unat (run_lo r)"
      using covers_above[OF cov(3)] e(2) by fastforce
    then have "block_of (map (\<lambda>r. (run_lo r, run_block r)) (every_second xs)) bg n = bg"
      using every_second_set[of xs] by (intro block_of_before) auto
    then show ?thesis using blocks(2)[of n] cov e \<open>run_block e = bg\<close> by (simp add: block_of_Cons)
  qed
qed auto

lemma jeq_chain_ok:
  assumes "jeq_chain rs = Some (bg, singles)" and "covers a rs b" and "runs_map f rs"
    and "a \<le> n" and "n < b"
  shows "f n = block_of singles bg n"
proof -
  obtain r xs where rs: "rs = r # xs"
    using assms(1) by (cases rs) (auto simp: jeq_chain_def)
  have len: "even (length xs)" and bg: "bg = run_block r"
    and shape: "chain_shape bg (Suc 0) xs"
    and singles: "singles = map (\<lambda>r. (run_lo r, run_block r)) (every_second xs)"
    using assms(1) rs unfolding jeq_chain_def Let_def chain_shape_enumerate by (auto split: if_splits)
  have cov: "unat (run_lo r) = a" "covers (unat (run_hi r) + 1) xs b"
    using assms(2) rs by auto
  have m: "runs_map f xs" "\<And>n. unat (run_lo r) \<le> n \<Longrightarrow> n \<le> unat (run_hi r) \<Longrightarrow> f n = run_block r"
    using assms(3) rs by (auto simp: runs_map_def)
  show ?thesis
  proof (cases "n \<le> unat (run_hi r)")
    case True
    have "\<forall>r\<in>set xs. n < unat (run_lo r)" using covers_above[OF cov(2)] True by fastforce
    then have "block_of singles bg n = bg"
      using every_second_set[of xs] unfolding singles by (intro block_of_before) auto
    then show ?thesis using m(2)[of n] True assms(4) cov bg by simp
  next
    case False
    then show ?thesis
      using chain_tail[OF len shape _ cov(2) m(1), of n] assms(5) singles by simp
  qed
qed

lemma jeq_chain_singles:
  assumes "jeq_chain rs = Some (bg, singles)"
  shows "rs \<noteq> []" and "bg \<in> run_block ` set rs" and "snd ` set singles \<subseteq> run_block ` set rs"
    and "length rs > 1 \<Longrightarrow> singles \<noteq> []"
proof -
  show "rs \<noteq> []" "bg \<in> run_block ` set rs"
    using assms by (cases rs; auto simp: jeq_chain_def Let_def split: if_splits)+
  show "snd ` set singles \<subseteq> run_block ` set rs"
  proof -
    have "singles = map (\<lambda>r. (run_lo r, run_block r)) (every_second (drop 1 rs))"
      using assms by (auto simp: jeq_chain_def Let_def split: if_splits)
    moreover have "set (every_second (drop 1 rs)) \<subseteq> set rs"
      using every_second_set[of "drop 1 rs"] set_drop_subset[of 1 rs] by blast
    ultimately show ?thesis by force
  qed
  show "singles \<noteq> []" if "length rs > 1"
    using assms that by (cases rs; cases "tl rs"; cases "tl (tl rs)") (auto simp: jeq_chain_def Let_def split: if_splits)
qed

text \<open>The ranges handed to the dispatch tree cover every syscall number up to the highest,
  and the range of a number goes to the block of its target, or to the default's.\<close>

theorem dispatch_covers:
  assumes "targets_ok targets" and "\<forall>(n, b)\<in>set targets. n \<le> highest" and "nr \<le> highest"
  shows "\<exists>r\<in>set (dispatch_runs targets dflt highest).
    run_lo r \<le> nr \<and> nr \<le> run_hi r \<and> run_block r = block_of targets dflt (unat nr)"
proof -
  note runs = dispatch_runs_ok[OF assms(1,2), of dflt]
  have "unat nr < unat highest + 1" using assms(3) by (simp add: word_le_nat_alt)
  then obtain r where "r \<in> set (dispatch_runs targets dflt highest)"
      "unat (run_lo r) \<le> unat nr" "unat nr \<le> unat (run_hi r)"
    using covers_hit[OF runs(1)] by blast
  then show ?thesis using runs(2) by (auto simp: runs_map_def word_le_nat_alt)
qed

theorem dispatch_covers_witness:
  "\<exists>r\<in>set (dispatch_runs [(2, 1), (3, 1)] 0 9).
     run_lo r \<le> 5 \<and> 5 \<le> run_hi r \<and> run_block r = 0"
proof -
  have "targets_ok [(2, 1 :: nat), (3, 1)]" by (simp add: targets_ok_def word_less_nat_alt unsigned_minus_1_eq_mask mask_eq_exp_minus_1)
  moreover have "block_of [(2, 1), (3, 1)] 0 (unat (5 :: u32)) = 0" by (simp add: block_of_def)
  ultimately show ?thesis using dispatch_covers[of "[(2, 1), (3, 1)]" 9 5 0] by simp
qed

end
