(* ===== verification/SeccompCodegen.thy ===== *)
theory SeccompCodegen
  imports SeccompSimplify SeccompDispatch
begin

text \<open>
  The third pass of the seccomp compiler (\<open>Gen\<close> in \<^verbatim>\<open>compile.rs\<close>): what each piece of
  generated code computes, in terms of the symbolic semantics \<open>isem\<close> of the assembler. Every
  generator function appends a fragment that places only its own labels and jumps only to
  labels placed later (\<open>grows\<close>); conditions, rule lists, the dispatch tree and the blocks each
  have a lemma that says where control goes.
\<close>

section \<open>Fragments of symbolic programs\<close>

abbreviation i_ld :: "u32 \<Rightarrow> Item" where
  "i_ld k \<equiv> IStmt (SockFilter_stmt (BPF_LD OR BPF_W OR BPF_ABS) k)"

abbreviation i_and :: "u32 \<Rightarrow> Item" where
  "i_and k \<equiv> IStmt (SockFilter_stmt (BPF_ALU OR BPF_AND OR BPF_K) k)"

abbreviation i_ret :: "u32 \<Rightarrow> Item" where
  "i_ret k \<equiv> IStmt (SockFilter_stmt (BPF_RET OR BPF_K) k)"

abbreviation i_jmp :: "Jmp \<Rightarrow> u32 \<Rightarrow> To \<Rightarrow> To \<Rightarrow> Item" where
  "i_jmp j k jt jf \<equiv> IJump (jmp_code j) k jt jf"

lemma decode_ld: "decode (SockFilter_stmt (BPF_LD OR BPF_W OR BPF_ABS) k) = Some (LdAbs k)"
  by (simp add: decode_def SockFilter_stmt_def wire)

lemma decode_and: "decode (SockFilter_stmt (BPF_ALU OR BPF_AND OR BPF_K) k) = Some (Alu And (Src_K k))"
  by (simp add: decode_def decode_alu_def SockFilter_stmt_def wire)

lemma decode_ret_k: "decode (SockFilter_stmt (BPF_RET OR BPF_K) k) = Some (RetK k)"
  by (simp add: decode_ret SockFilter_stmt_def)

lemma isem_ld:
  "SeccompData_word data k = Some w \<Longrightarrow> isem data (i_ld k # is) s = isem data is (s\<lparr>m_a := w\<rparr>)"
  by (simp add: decode_ld isem.simps)

lemma isem_and: "isem data (i_and k # is) s = isem data is (s\<lparr>m_a := m_a s AND k\<rparr>)"
  by (simp add: decode_and src_value_def)

lemma isem_ret: "isem data (i_ret k # is) s = Some k"
  by (simp add: decode_ret_k isem.simps)

lemma isem_jmp:
  "isem data (i_jmp j k jt jf # is) s =
   isem data (landing (if jmp_taken j (m_a s) k then jt else jf) is) s"
  by (simp add: decode_jmp_code src_value_def)

lemmas isem_items = isem_and isem_ret isem_jmp

lemma jmp_code_mem: "jmp_code j \<in> set (map jmp_code [JEq, JGt, JGe, JSet])"
  by (cases j) simp_all

declare jmp_code.simps [simp del] isem.simps(3,4) [simp del]

lemma item_simple_gen [simp]:
  "item_simple (i_and k)" "item_simple (i_ret k)" "item_simple (i_jmp j k jt jf)"
  "k < SeccompData_SIZE \<and> k mod 4 = 0 \<Longrightarrow> item_simple (i_ld k)"
  using jmp_code_mem[of j] by (simp_all add: decode_and decode_ret_k decode_ld)

declare item_simple.simps(1,2) [simp del]

lemma emit_items:
  "p_items (g_p (emit (p_place l) g)) = p_items (g_p g) @ [ILabel l]"
  "p_items (g_p (emit (p_ld k) g)) = p_items (g_p g) @ [i_ld k]"
  "p_items (g_p (emit (p_and k) g)) = p_items (g_p g) @ [i_and k]"
  "p_items (g_p (emit (p_ret k) g)) = p_items (g_p g) @ [i_ret k]"
  "p_items (g_p (emit (p_ja l) g)) = p_items (g_p g) @ [IJa l]"
  "p_items (g_p (emit (p_jeq k jt jf) g)) = p_items (g_p g) @ [i_jmp JEq k jt jf]"
  "p_items (g_p (emit (p_jgt k jt jf) g)) = p_items (g_p g) @ [i_jmp JGt k jt jf]"
  "p_items (g_p (emit (p_jge k jt jf) g)) = p_items (g_p g) @ [i_jmp JGe k jt jf]"
  "p_items (g_p (emit (p_jset k jt jf) g)) = p_items (g_p g) @ [i_jmp JSet k jt jf]"
  by (simp_all add: emit_def p_place_def p_ld_def p_and_def p_ret_def p_ja_def p_stmt_def p_jeq_def
      p_jgt_def p_jge_def p_jset_def p_jump_def push_item_def jmp_code.simps)

lemma emit_labels:
  "p_labels (g_p (emit (p_place l) g)) = p_labels (g_p g)"
  "p_labels (g_p (emit (p_ld k) g)) = p_labels (g_p g)"
  "p_labels (g_p (emit (p_and k) g)) = p_labels (g_p g)"
  "p_labels (g_p (emit (p_ret k) g)) = p_labels (g_p g)"
  "p_labels (g_p (emit (p_ja l) g)) = p_labels (g_p g)"
  "p_labels (g_p (emit (p_jeq k jt jf) g)) = p_labels (g_p g)"
  "p_labels (g_p (emit (p_jgt k jt jf) g)) = p_labels (g_p g)"
  "p_labels (g_p (emit (p_jge k jt jf) g)) = p_labels (g_p g)"
  "p_labels (g_p (emit (p_jset k jt jf) g)) = p_labels (g_p g)"
  by (simp_all add: emit_def p_place_def p_ld_def p_and_def p_ret_def p_ja_def p_stmt_def p_jeq_def
      p_jgt_def p_jge_def p_jset_def p_jump_def push_item_def)

lemma emit_blocks [simp]:
  "g_blocks (emit f g) = g_blocks g" "g_ids (emit f g) = g_ids g"
  "g_labels (emit f g) = g_labels g" "g_default (emit f g) = g_default g"
  by (simp_all add: emit_def)

lemmas emits_simps [simp] = emit_items emit_labels

definition with_labels :: "nat \<Rightarrow> Gen \<Rightarrow> Gen" where
  "with_labels n g = g\<lparr>g_p := (g_p g)\<lparr>p_labels := n\<rparr>\<rparr>"

lemma with_labels_simps [simp]:
  "p_items (g_p (with_labels n g)) = p_items (g_p g)" "p_labels (g_p (with_labels n g)) = n"
  "g_blocks (with_labels n g) = g_blocks g" "g_ids (with_labels n g) = g_ids g"
  "g_labels (with_labels n g) = g_labels g" "g_default (with_labels n g) = g_default g"
  by (simp_all add: with_labels_def)

lemma fresh_eq: "fresh g = (p_labels (g_p g), with_labels (p_labels (g_p g) + 1) g)"
  by (simp add: fresh_def new_label_def with_labels_def)

text \<open>The labels a fragment places, and where control is after a jump.\<close>

definition placed :: "Item list \<Rightarrow> Label set" where
  "placed is = {l. ILabel l \<in> set is}"

lemma placed_simps [simp]:
  "placed [] = {}" "placed (ILabel l # is) = insert l (placed is)"
  "placed (IStmt f # is) = placed is" "placed (IJump c k jt jf # is) = placed is"
  "placed (IJa l # is) = placed is" "placed (xs @ ys) = placed xs \<union> placed ys"
  by (auto simp: placed_def)

lemma after_append:
  "after l (xs @ ys) = (if l \<in> placed xs then after l xs @ ys else after l ys)"
  by (induction xs) (auto simp: placed_def)

lemma after_skip [simp]: "l \<notin> placed xs \<Longrightarrow> after l (xs @ ys) = after l ys"
  by (simp add: after_append)

text \<open>Jumps go forward: to a label placed behind them or to one of \<open>E\<close>, placed by what follows.\<close>

fun to_in :: "Label set \<Rightarrow> To \<Rightarrow> bool" where
  "to_in E Next = True"
| "to_in E (L l) = (l \<in> E)"

fun frag :: "Label set \<Rightarrow> Item list \<Rightarrow> bool" where
  "frag E [] = True"
| "frag E (ILabel l # is) = frag E is"
| "frag E (IStmt f # is) = frag E is"
| "frag E (IJump c k jt jf # is) = (to_in (E \<union> placed is) jt \<and> to_in (E \<union> placed is) jf \<and> frag E is)"
| "frag E (IJa l # is) = (l \<in> E \<union> placed is \<and> frag E is)"

lemma to_in_mono: "to_in E t \<Longrightarrow> E \<subseteq> F \<Longrightarrow> to_in F t"
  by (cases t) auto

lemma frag_mono: "frag E is \<Longrightarrow> E \<subseteq> F \<Longrightarrow> frag F is"
  by (induction E "is" rule: frag.induct) (auto elim!: to_in_mono)

lemma frag_append: "frag (E \<union> placed ys) xs \<Longrightarrow> frag E ys \<Longrightarrow> frag E (xs @ ys)"
  by (induction xs rule: frag.induct) (auto simp: Un_assoc Un_commute elim!: to_in_mono)

text \<open>From fragments to the well-formedness that the assembler asks for.\<close>

lemma to_in_ok: "to_in (placed is) t \<Longrightarrow> to_ok t is"
  by (cases t) (auto simp: placed_def)

lemma emits_last: "emits (is @ [IStmt f])"
  by (induction "is" rule: emits.induct) auto

lemma frag_items_ok:
  assumes "frag {} (is @ [IStmt f])" and "\<forall>i\<in>set (is @ [IStmt f]). item_simple i"
    and "\<forall>l\<in>placed is. l < n"
  shows "items_ok n (is @ [IStmt f])"
  using assms
proof (induction "is")
  case Nil
  then show ?case by (auto simp: plain_stmt_def simple_plain item_simple.simps split: option.splits)
next
  case (Cons i "is")
  note rest = emits_last[of "is" f]
  show ?case
  proof (cases i)
    case (IStmt g)
    then show ?thesis using Cons by (auto simp: plain_stmt_def simple_plain item_simple.simps split: option.splits)
  next
    case (IJump c k jt jf)
    then have c: "c \<in> set (map jmp_code [JEq, JGt, JGe, JSet])"
      using Cons.prems(2) by (simp add: item_simple.simps)
    have "to_ok jt (is @ [IStmt f])" "to_ok jf (is @ [IStmt f])"
      using Cons.prems(1) IJump to_in_ok by auto
    then show ?thesis using c rest Cons IJump unfolding IJump append_Cons items_ok.simps by auto
  next
    case (IJa l)
    then show ?thesis using Cons by (auto simp: placed_def)
  qed (use Cons rest in auto)
qed

text \<open>
  A step of the code generator appends a fragment, takes some fresh labels and leaves the
  blocks alone; the fragment places only labels of its own and \<open>P\<close>, and jumps only there
  and to \<open>E\<close>.
\<close>

definition same_blocks :: "Gen \<Rightarrow> Gen \<Rightarrow> bool" where
  "same_blocks g g' \<longleftrightarrow> g_blocks g' = g_blocks g \<and> g_ids g' = g_ids g \<and>
     g_labels g' = g_labels g \<and> g_default g' = g_default g"

definition grows :: "Label set \<Rightarrow> Label set \<Rightarrow> Gen \<Rightarrow> Item list \<Rightarrow> Gen \<Rightarrow> bool" where
  "grows P E g new g' \<longleftrightarrow>
     p_items (g_p g') = p_items (g_p g) @ new \<and> same_blocks g g' \<and>
     p_labels (g_p g) \<le> p_labels (g_p g') \<and>
     placed new \<subseteq> P \<union> {p_labels (g_p g) ..< p_labels (g_p g')} \<and>
     frag E new \<and> (\<forall>i\<in>set new. item_simple i)"

lemma grows_refl: "grows P E g [] g"
  by (simp add: grows_def same_blocks_def)

lemma grows_trans:
  assumes "grows P E1 g xs g1" and "grows Q E g1 ys g2"
    and "E1 \<subseteq> E \<union> placed ys"
  shows "grows (P \<union> Q) E g (xs @ ys) g2"
  using assms frag_append[of E ys xs] frag_mono[of E1 xs "E \<union> placed ys"]
  unfolding grows_def same_blocks_def by (auto simp: subset_iff)

lemma grows_mono:
  assumes "grows P E g xs g'" and "P \<subseteq> P'" and "E \<subseteq> E'"
  shows "grows P' E' g xs g'"
  using assms frag_mono[of E xs E'] unfolding grows_def by auto

section \<open>Conditions\<close>

definition masked_items :: "u32 \<Rightarrow> u32 \<Rightarrow> u32 \<Rightarrow> Label \<Rightarrow> Item list" where
  "masked_items offset m want fail =
     (if m = 0 then []
      else i_ld offset # (if m \<noteq> - 1 then [i_and m] else []) @ [i_jmp JEq want Next (L fail)])"

definition cond_items :: "Cond \<Rightarrow> Label \<Rightarrow> Label \<Rightarrow> Item list" where
  "cond_items c pass fail =
     (let lo = DATA_ARGS + 8 * c_index c; hi = lo + 4;
          vh = hi32 (c_value c); vl = lo32 (c_value c);
          unless_0 = (\<lambda>i. if vh \<noteq> 0 then [i] else [])
      in (case c_op c of
            Eq \<Rightarrow> [i_ld hi, i_jmp JEq vh Next (L fail), i_ld lo, i_jmp JEq vl Next (L fail)]
          | Ne \<Rightarrow> [i_ld hi, i_jmp JEq vh Next (L pass), i_ld lo, i_jmp JEq vl (L fail) Next]
          | Gt \<Rightarrow> [i_ld hi, i_jmp JGt vh (L pass) Next] @ unless_0 (i_jmp JEq vh Next (L fail))
                   @ [i_ld lo, i_jmp JGt vl Next (L fail)]
          | Ge \<Rightarrow> [i_ld hi, i_jmp JGt vh (L pass) Next] @ unless_0 (i_jmp JEq vh Next (L fail))
                   @ [i_ld lo, i_jmp JGe vl Next (L fail)]
          | Lt \<Rightarrow> [i_ld hi, i_jmp JGt vh (L fail) Next] @ unless_0 (i_jmp JEq vh Next (L pass))
                   @ [i_ld lo, i_jmp JGe vl (L fail) Next]
          | Le \<Rightarrow> [i_ld hi, i_jmp JGt vh (L fail) Next] @ unless_0 (i_jmp JEq vh Next (L pass))
                   @ [i_ld lo, i_jmp JGt vl (L fail) Next]
          | MaskedEq \<Rightarrow> masked_items hi vh (hi32 (c_value_two c)) fail
                         @ masked_items lo vl (lo32 (c_value_two c)) fail)
         @ [ILabel pass])"

lemma arg_words:
  assumes "i \<le> (5 :: u32)"
  shows "SeccompData_word d (DATA_ARGS + 8 * i + 4) = Some (hi32 (sd_args d (unat i)))"
    and "SeccompData_word d (DATA_ARGS + 8 * i) = Some (lo32 (sd_args d (unat i)))"
    and "DATA_ARGS + 8 * i < SeccompData_SIZE \<and> (DATA_ARGS + 8 * i) mod 4 = 0"
    and "DATA_ARGS + 8 * i + 4 < SeccompData_SIZE \<and> (DATA_ARGS + 8 * i + 4) mod 4 = 0"
proof -
  have "of_nat n \<in> {0, 1, 2, 3, 4, 5 :: u32}" if "n \<le> 5" for n :: nat
    using that by (auto simp: le_Suc_eq eval_nat_numeral)
  from this[of "unat i"]
  have "i = 0 \<or> i = 1 \<or> i = 2 \<or> i = 3 \<or> i = 4 \<or> i = 5"
    using assms by (simp add: word_le_nat_alt)
  then show "SeccompData_word d (DATA_ARGS + 8 * i + 4) = Some (hi32 (sd_args d (unat i)))"
    and "SeccompData_word d (DATA_ARGS + 8 * i) = Some (lo32 (sd_args d (unat i)))"
    and "DATA_ARGS + 8 * i < SeccompData_SIZE \<and> (DATA_ARGS + 8 * i) mod 4 = 0"
    and "DATA_ARGS + 8 * i + 4 < SeccompData_SIZE \<and> (DATA_ARGS + 8 * i + 4) mod 4 = 0"
    by (elim disjE; simp add: SeccompData_word_def lo_hi_def wire)+
qed

lemma masked_sem:
  assumes "SeccompData_word d k = Some w" and "m = 0 \<Longrightarrow> want = 0"
  shows "\<exists>a. isem d (masked_items k m want fail @ is) s =
      isem d (if w AND m = want then is else after fail is) (s\<lparr>m_a := a\<rparr>)"
proof (cases "m = 0")
  case True
  then show ?thesis using assms(2) by (auto simp: masked_items_def intro!: exI[of _ "m_a s"])
next
  case False
  then show ?thesis
    by (cases "m = - 1")
      (auto simp: masked_items_def isem_ld[OF assms(1)] isem_items intro: exI[of _ w] exI[of _ "w AND m"])
qed

lemma masked_placed [simp]: "placed (masked_items k m want fail) = {}"
  by (simp add: masked_items_def)

lemma masked_subset:
  "w AND NOT v = 0 \<Longrightarrow> (hi32 v = 0 \<longrightarrow> hi32 w = 0) \<and> (lo32 v = 0 \<longrightarrow> lo32 w = (0 :: u32))"
proof -
  assume 0: "w AND NOT v = 0"
  have "w = w AND v"
  proof (rule bit_word_eqI)
    fix n assume "n < LENGTH(64)"
    have "\<not> bit (w AND NOT v) n" unfolding 0 by simp
    then show "bit w n \<longleftrightarrow> bit (w AND v) n" using \<open>n < LENGTH(64)\<close> by (auto simp: bit_and_iff bit_not_iff)
  qed
  then show ?thesis by (metis halves_and and_zero_eq)
qed

lemma cond_sem_order:
  assumes "c_index c \<le> 5" and "pass \<noteq> fail" and "c_op c \<noteq> MaskedEq"
  shows "\<exists>a. isem d (cond_items c pass fail @ rest) s =
      isem d (if cond_holds d c then rest else after fail rest) (s\<lparr>m_a := a\<rparr>)"
proof -
  define ah al vh vl where "ah = hi32 (sd_args d (unat (c_index c)))"
    and "al = lo32 (sd_args d (unat (c_index c)))" and "vh = hi32 (c_value c)" and "vl = lo32 (c_value c)"
  note ld = isem_ld[OF arg_words(1)[OF assms(1), of d], folded ah_def]
    isem_ld[OF arg_words(2)[OF assms(1), of d], folded al_def]
  have eq: "sd_args d (unat (c_index c)) = c_value c \<longleftrightarrow> ah = vh \<and> al = vl"
    and less: "sd_args d (unat (c_index c)) < c_value c \<longleftrightarrow> ah < vh \<or> ah = vh \<and> al < vl"
    and greater: "c_value c < sd_args d (unat (c_index c)) \<longleftrightarrow> vh < ah \<or> vh = ah \<and> vl < al"
    unfolding ah_def al_def vh_def vl_def by (rule halves_eq_iff halves_less_iff)+
  have le: "sd_args d (unat (c_index c)) \<le> c_value c \<longleftrightarrow> \<not> (vh < ah \<or> vh = ah \<and> vl < al)"
    and ge: "c_value c \<le> sd_args d (unat (c_index c)) \<longleftrightarrow> \<not> (ah < vh \<or> ah = vh \<and> al < vl)"
    by (simp_all only: less[symmetric] greater[symmetric] not_less)
  have holds: "cond_holds d c = cmp_holds (c_op c) (sd_args d (unat (c_index c))) (c_value c) (c_value_two c)"
    by (simp add: cond_holds_def arg_of_def)
  note items = cond_items_def[of c pass fail, folded vh_def vl_def]
  note all = holds eq less greater le ge items Let_def ld isem_items
  consider "ah < vh" "vh \<noteq> 0" | "ah = vh" | "vh < ah" using word_neq_0_conv by fastforce
  then show ?thesis
  proof cases
    case 1
    then show ?thesis using assms(2,3) by (cases "c_op c") (auto simp: all)
  next
    case 2
    then show ?thesis using assms(2,3) by (cases "c_op c"; cases "vh = 0") (auto simp: all not_le)
  next
    case 3
    then show ?thesis using assms(2,3) by (cases "c_op c") (auto simp: all)
  qed
qed

lemma cond_sem_masked:
  assumes "c_index c \<le> 5" and "c_op c = MaskedEq" and "cond_constant c = None" and "pass \<noteq> fail"
  shows "\<exists>a. isem d (cond_items c pass fail @ rest) s =
      isem d (if cond_holds d c then rest else after fail rest) (s\<lparr>m_a := a\<rparr>)"
proof -
  let ?v = "c_value c" and ?w = "c_value_two c" and ?a = "sd_args d (unat (c_index c))"
  let ?lo = "masked_items (DATA_ARGS + 8 * c_index c) (lo32 ?v) (lo32 ?w) fail"
  let ?rest = "[ILabel pass] @ rest"
  have sub: "?w AND NOT ?v = 0" using assms(2,3) by (auto simp: cond_constant_def split: if_splits)
  obtain a where a: "isem d (masked_items (DATA_ARGS + 8 * c_index c + 4) (hi32 ?v) (hi32 ?w) fail @ ?lo @ ?rest) s =
      isem d (if hi32 ?a AND hi32 ?v = hi32 ?w then ?lo @ ?rest else after fail (?lo @ ?rest)) (s\<lparr>m_a := a\<rparr>)"
    using masked_sem[OF arg_words(1)[OF assms(1), of d]] masked_subset[OF sub] by metis
  obtain b where b: "isem d (?lo @ ?rest) (s\<lparr>m_a := a\<rparr>) =
      isem d (if lo32 ?a AND lo32 ?v = lo32 ?w then ?rest else after fail ?rest) (s\<lparr>m_a := a, m_a := b\<rparr>)"
    using masked_sem[OF arg_words(2)[OF assms(1), of d]] masked_subset[OF sub] by metis
  have holds: "cond_holds d c \<longleftrightarrow> hi32 ?a AND hi32 ?v = hi32 ?w \<and> lo32 ?a AND lo32 ?v = lo32 ?w"
    using assms(2) by (simp add: cond_holds_def arg_of_def halves_eq_iff[of "?a AND ?v"] halves_and)
  have items: "cond_items c pass fail @ rest =
      masked_items (DATA_ARGS + 8 * c_index c + 4) (hi32 ?v) (hi32 ?w) fail @ ?lo @ ?rest"
    using assms(2) by (simp add: cond_items_def Let_def)
  show ?thesis
  proof (cases "hi32 ?a AND hi32 ?v = hi32 ?w")
    case True
    then show ?thesis unfolding items a using b assms(4) holds by auto
  next
    case False
    then show ?thesis unfolding items a using assms(4) holds by auto
  qed
qed

lemma cond_placed [simp]: "placed (cond_items c pass fail) = {pass}"
  by (cases "c_op c") (auto simp: cond_items_def Let_def)

lemma masked_frag: "frag {fail} (masked_items k m want fail)"
  by (simp add: masked_items_def)

lemma cond_frag: "frag {fail} (cond_items c pass fail)"
proof (cases "c_op c = MaskedEq")
  case True
  then show ?thesis
    by (auto simp: cond_items_def Let_def intro!: frag_append intro: frag_mono[OF masked_frag])
next
  case False
  then show ?thesis by (cases "c_op c") (auto simp: cond_items_def Let_def)
qed

lemma cond_simple:
  assumes "c_index c \<le> 5"
  shows "\<forall>i\<in>set (cond_items c pass fail). item_simple i"
proof -
  have ld: "item_simple (i_ld (DATA_ARGS + 8 * c_index c))" "item_simple (i_ld (DATA_ARGS + 8 * c_index c + 4))"
    by (rule item_simple_gen(4), rule arg_words, rule assms)+
  then show ?thesis
    by (cases "c_op c") (auto simp: cond_items_def masked_items_def Let_def)
qed

lemma masked_word_items:
  "p_items (g_p (masked_word k m want fail g)) = p_items (g_p g) @ masked_items k m want fail"
  "p_labels (g_p (masked_word k m want fail g)) = p_labels (g_p g)"
  "same_blocks g (masked_word k m want fail g)"
  by (auto simp: masked_word_def masked_items_def same_blocks_def Let_def)

lemma gen_cond_grows:
  assumes "c_index c \<le> 5"
  shows "grows {} {fail} g (cond_items c (p_labels (g_p g)) fail) (gen_cond c fail g)"
proof (cases "c_op c = MaskedEq")
  case True
  then show ?thesis
    using cond_frag[of fail c "p_labels (g_p g)"] cond_simple[OF assms]
    by (simp add: grows_def gen_cond_def halves_def fresh_eq same_blocks_def masked_word_items[unfolded same_blocks_def]
      cond_items_def Let_def)
next
  case False
  then show ?thesis
    using cond_frag[of fail c "p_labels (g_p g)"] cond_simple[OF assms]
    by (cases "c_op c") (simp_all add: grows_def gen_cond_def halves_def fresh_eq same_blocks_def cond_items_def Let_def)
qed

lemma cond_sem:
  assumes "c_index c \<le> 5" and "cond_constant c = None" and "pass \<noteq> fail"
  shows "\<exists>a. isem d (cond_items c pass fail @ rest) s =
      isem d (if cond_holds d c then rest else after fail rest) (s\<lparr>m_a := a\<rparr>)"
  using cond_sem_order cond_sem_masked assms by (cases "c_op c = MaskedEq") blast+

section \<open>Rules\<close>

definition ready_conds :: "Cond list \<Rightarrow> bool" where
  "ready_conds cs \<longleftrightarrow> (\<forall>c\<in>set cs. c_index c \<le> 5 \<and> cond_constant c = None)"

lemma gen_conds_ok:
  assumes "ready_conds cs" and "fail < p_labels (g_p g)"
  shows "\<exists>new. grows {} {fail} g new (gen_conds cs fail g) \<and>
    (\<forall>d rest s. \<exists>a. isem d (new @ rest) s =
       isem d (if list_all (cond_holds d) cs then rest else after fail rest) (s\<lparr>m_a := a\<rparr>))"
  using assms
proof (induction cs arbitrary: g)
  case Nil
  have "\<exists>a. isem d rest s = isem d rest (s\<lparr>m_a := a\<rparr>)" for d rest s
    by (rule exI[of _ "m_a s"]) simp
  then show ?case using grows_refl[of "{}" "{fail}" g] by (intro exI[of _ "[]"]) simp
next
  case (Cons c cs)
  let ?pass = "p_labels (g_p g)" and ?g = "gen_cond c fail g"
  let ?xs = "cond_items c ?pass fail"
  have c: "c_index c \<le> 5" "cond_constant c = None" "ready_conds cs"
    using Cons.prems(1) by (auto simp: ready_conds_def)
  have xs: "grows {} {fail} g ?xs ?g" by (rule gen_cond_grows[OF c(1)])
  then have "fail < p_labels (g_p ?g)" using Cons.prems(2) by (auto simp: grows_def)
  then obtain ys where ys: "grows {} {fail} ?g ys (gen_conds cs fail ?g)"
    and sem: "\<And>d rest s. \<exists>a. isem d (ys @ rest) s =
       isem d (if list_all (cond_holds d) cs then rest else after fail rest) (s\<lparr>m_a := a\<rparr>)"
    using Cons.IH[OF c(3)] by blast
  have skip: "fail \<notin> placed ys"
    using ys Cons.prems(2) xs by (auto simp: grows_def)
  have "\<exists>a. isem d ((?xs @ ys) @ rest) s =
      isem d (if list_all (cond_holds d) (c # cs) then rest else after fail rest) (s\<lparr>m_a := a\<rparr>)" for d rest s
  proof -
    obtain a where a: "isem d (?xs @ ys @ rest) s =
        isem d (if cond_holds d c then ys @ rest else after fail (ys @ rest)) (s\<lparr>m_a := a\<rparr>)"
      using cond_sem[OF c(1,2), of ?pass fail] Cons.prems(2) by blast
    show ?thesis
    proof (cases "cond_holds d c")
      case True
      then show ?thesis using a sem[of d rest "s\<lparr>m_a := a\<rparr>"] by auto
    next
      case False
      then show ?thesis using a skip by auto
    qed
  qed
  moreover have "grows {} {fail} g (?xs @ ys) (gen_conds (c # cs) fail g)"
    using grows_trans[OF xs ys] by simp
  ultimately show ?case by blast
qed

lemma gen_rules_loop_ok:
  assumes "rules \<noteq> []" and "rules_ready rules" and "dflt < p_labels (g_p g)"
  shows "\<exists>new. grows {} {dflt} g new (gen_rules_loop rules dflt g) \<and>
    (\<forall>d def rest. (\<forall>s. isem d (after dflt rest) s = Some def) \<longrightarrow>
       (\<forall>s. isem d (new @ rest) s = Some (verdict d def rules)))"
  using assms
proof (induction rules arbitrary: g)
  case (Cons rule rules)
  have conds: "ready_conds (r_conds rule)" and rules: "rules_ready rules"
    using Cons.prems(2) by (auto simp: rules_ready_def ready_conds_def)
  show ?case
  proof (cases "rules = []")
    case True
    obtain xs where xs: "grows {} {dflt} g xs (gen_conds (r_conds rule) dflt g)"
      and sem: "\<And>d rest s. \<exists>a. isem d (xs @ rest) s =
         isem d (if list_all (cond_holds d) (r_conds rule) then rest else after dflt rest) (s\<lparr>m_a := a\<rparr>)"
      using gen_conds_ok[OF conds Cons.prems(3)] by blast
    have "grows {} {dflt} g (xs @ [i_ret (r_action rule)]) (gen_rules_loop (rule # rules) dflt g)"
      using xs True frag_append[of "{dflt}" "[i_ret (r_action rule)]" xs]
      by (auto simp: grows_def same_blocks_def)
    moreover have "isem d ((xs @ [i_ret (r_action rule)]) @ rest) s = Some (verdict d def (rule # rules))"
      if "\<forall>s. isem d (after dflt rest) s = Some def" for d def rest s
      using sem[of d "i_ret (r_action rule) # rest" s] that True
      by (auto simp: isem_items verdict_Cons rule_matches_def split: if_splits)
    ultimately show ?thesis by blast
  next
    case False
    define fail where "fail = p_labels (g_p g)"
    define g1 where "g1 = with_labels (fail + 1) g"
    define g2 where "g2 = gen_conds (r_conds rule) fail g1"
    define g3 where "g3 = emit (p_place fail) (emit (p_ret (r_action rule)) g2)"
    obtain xs where xs: "grows {} {fail} g1 xs g2"
      and sem: "\<And>d rest s. \<exists>a. isem d (xs @ rest) s =
         isem d (if list_all (cond_holds d) (r_conds rule) then rest else after fail rest) (s\<lparr>m_a := a\<rparr>)"
      using gen_conds_ok[OF conds, of fail g1] by (auto simp: g1_def g2_def)
    let ?xs = "xs @ [i_ret (r_action rule), ILabel fail]"
    have first: "grows {} {} g ?xs g3"
      using xs frag_append[of "{}" "[i_ret (r_action rule), ILabel fail]" xs]
      by (auto simp: grows_def same_blocks_def g3_def g1_def fail_def)
    have "dflt < p_labels (g_p g3)" using first Cons.prems(3) by (simp add: grows_def)
    then obtain ys where ys: "grows {} {dflt} g3 ys (gen_rules_loop rules dflt g3)"
      and IH: "\<And>d def rest s. \<forall>s. isem d (after dflt rest) s = Some def \<Longrightarrow>
          isem d (ys @ rest) s = Some (verdict d def rules)"
      using Cons.IH[OF False rules] by blast
    have loop: "gen_rules_loop (rule # rules) dflt g = gen_rules_loop rules dflt g3"
      using False by (simp add: fresh_eq g3_def g2_def g1_def fail_def Let_def)
    have "isem d ((?xs @ ys) @ rest) s = Some (verdict d def (rule # rules))"
      if "\<forall>s. isem d (after dflt rest) s = Some def" for d def rest s
      using sem[of d "i_ret (r_action rule) # ILabel fail # ys @ rest" s] IH[OF that]
      by (auto simp: isem_items verdict_Cons rule_matches_def split: if_splits)
    then show ?thesis using grows_trans[OF first ys] unfolding loop by auto
  qed
qed simp

section \<open>The dispatch tree\<close>

lemma gen_chain_ok:
  assumes "singles \<noteq> []"
  shows "\<exists>new. grows {} ((!) (g_labels g) ` insert bg (snd ` set singles)) g new (gen_chain bg singles g) \<and>
    placed new = {} \<and>
    (\<forall>d rest s. isem d (new @ rest) s = isem d (after (g_labels g ! block_of singles bg (unat (m_a s))) rest) s)"
  using assms
proof (induction singles arbitrary: g)
  case (Cons x singles)
  obtain nr b where x: "x = (nr, b)" by (cases x)
  let ?lab = "(!) (g_labels g)"
  define i where "i = i_jmp JEq nr (L (?lab b)) (if singles = [] then L (?lab bg) else Next)"
  define g1 where "g1 = emit (p_jeq nr (L (?lab b)) (if singles = [] then L (?lab bg) else Next)) g"
  have i: "grows {} (?lab ` {bg, b}) g [i] g1"
    by (auto simp: grows_def i_def g1_def same_blocks_def)
  have lab: "g_labels g1 = g_labels g" by (simp add: g1_def)
  show ?case
  proof (cases "singles = []")
    case True
    have "gen_chain bg (x # singles) g = g1" by (simp add: x True g1_def)
    moreover have "isem d ([i] @ rest) s = isem d (after (?lab (block_of (x # singles) bg (unat (m_a s)))) rest) s" for d rest s
      by (auto simp: i_def isem_items x True block_of_Cons block_of_def word_unat_eq_iff)
    ultimately show ?thesis using i True
      by (intro exI[of _ "[i]"]) (auto simp: x i_def elim!: grows_mono)
  next
    case False
    obtain ys where ys: "grows {} (?lab ` insert bg (snd ` set singles)) g1 ys (gen_chain bg singles g1)"
        "placed ys = {}"
      and sem: "\<And>d rest s. isem d (ys @ rest) s = isem d (after (?lab (block_of singles bg (unat (m_a s)))) rest) s"
      using Cons.IH[OF False, of g1] unfolding lab by blast
    have "gen_chain bg (x # singles) g = gen_chain bg singles g1" by (simp add: x g1_def)
    moreover have "isem d (([i] @ ys) @ rest) s = isem d (after (?lab (block_of (x # singles) bg (unat (m_a s)))) rest) s" for d rest s
      using False ys(2) sem by (auto simp: i_def isem_items x block_of_Cons word_unat_eq_iff)
    moreover have "grows {} (?lab ` insert bg (snd ` set (x # singles))) g ([i] @ ys) (gen_chain bg singles g1)"
      using grows_trans[OF i grows_mono[OF ys(1), of "{}" "?lab ` insert bg (snd ` set (x # singles))"]]
      by (auto simp: x)
    moreover have "placed ([i] @ ys) = {}" using ys(2) by (simp add: i_def)
    ultimately show ?thesis by metis
  qed
qed simp

text \<open>
  Where the tree (or the single block it stands for) is entered, control reaches the
  block of the number in \<open>A\<close>: \<open>X\<close> is what lies between the jump and the tree.
\<close>

definition dispatches ::
    "(nat \<Rightarrow> Label) \<Rightarrow> nat \<Rightarrow> nat \<Rightarrow> Label \<Rightarrow> Item list \<Rightarrow> bool" where
  "dispatches target a b l new \<longleftrightarrow>
     (\<forall>d X rest s. a \<le> unat (m_a s) \<longrightarrow> unat (m_a s) < b \<longrightarrow>
        l \<notin> placed X \<longrightarrow> target (unat (m_a s)) \<notin> placed X \<longrightarrow>
        isem d (after l (X @ new @ rest)) s = isem d (after (target (unat (m_a s))) rest) s)"

definition entry_ok :: "Run list \<Rightarrow> Label \<Rightarrow> Gen \<Rightarrow> bool" where
  "entry_ok rs l g \<longleftrightarrow>
     (if length rs = 1 then l = g_labels g ! run_block (rs ! 0)
      else l < p_labels (g_p g) \<and> l \<notin> set (g_labels g)) \<and>
     (\<forall>x\<in>set (g_labels g). x < p_labels (g_p g)) \<and>
     (\<forall>r\<in>set rs. run_block r < length (g_labels g))"

abbreviation own_label :: "Run list \<Rightarrow> Label \<Rightarrow> Label set" where
  "own_label rs l \<equiv> if length rs = 1 then {} else {l}"

lemma tree_single:
  assumes "length rs = 1" and "entry_ok rs l g" and "covers a rs b" and "runs_map f rs"
  shows "dispatches (\<lambda>n. g_labels g ! f n) a b l []"
proof -
  obtain r where r: "rs = [r]" using assms(1) by (cases rs) auto
  have "run_block r = f n" if "a \<le> n" "n < b" for n
    using assms(3,4) r that by (auto simp: runs_map_def)
  then show ?thesis using assms(2) r by (auto simp: dispatches_def entry_ok_def)
qed

lemma tree_chain:
  assumes "length rs > 1" and "jeq_chain rs = Some (bg, singles)"
    and "entry_ok rs l g" and "covers a rs b" and "runs_map f rs"
  shows "\<exists>new. grows {l} ((!) (g_labels g) ` run_block ` set rs) g new (snd (gen_tree rs l g)) \<and>
      (\<exists>ys. new = ILabel l # ys) \<and> dispatches (\<lambda>n. g_labels g ! f n) a b l new"
proof -
  define g1 where "g1 = emit (p_place l) g"
  note chain = jeq_chain_singles[OF assms(2)]
  let ?E = "(!) (g_labels g) ` run_block ` set rs"
  obtain ys where ys: "grows {} ((!) (g_labels g1) ` insert bg (snd ` set singles)) g1 ys (gen_chain bg singles g1)"
      "placed ys = {}"
    and sem: "\<And>d rest s. isem d (ys @ rest) s =
        isem d (after (g_labels g1 ! block_of singles bg (unat (m_a s))) rest) s"
    using gen_chain_ok[OF chain(4)[OF assms(1)], of g1 bg] by blast
  have lab: "g_labels g1 = g_labels g" by (simp add: g1_def)
  have first: "grows {l} ?E g [ILabel l] g1" by (auto simp: grows_def g1_def same_blocks_def)
  have "grows {} ?E g1 ys (gen_chain bg singles g1)"
    by (rule grows_mono[OF ys(1)]) (use chain(2,3) in \<open>auto simp: lab\<close>)
  from grows_trans[OF first this]
  have "grows {l} ?E g ([ILabel l] @ ys) (gen_chain bg singles g1)" by auto
  moreover have "snd (gen_tree rs l g) = gen_chain bg singles g1"
    using assms(1,2) by (simp add: gen_tree.simps[of rs] g1_def)
  moreover have "dispatches (\<lambda>n. g_labels g ! f n) a b l ([ILabel l] @ ys)"
    using jeq_chain_ok[OF assms(2,4,5)] sem by (simp add: dispatches_def lab)
  ultimately show ?thesis by (intro exI[of _ "[ILabel l] @ ys"]) simp
qed

lemma gen_entry_ok:
  assumes "rs \<noteq> []" and "gen_entry rs g = (l, g')" and "\<forall>x\<in>set (g_labels g). x < p_labels (g_p g)"
    and "\<forall>r\<in>set rs. run_block r < length (g_labels g)"
  shows "entry_ok rs l g' \<and> same_blocks g g' \<and> p_items (g_p g') = p_items (g_p g) \<and>
      p_labels (g_p g) \<le> p_labels (g_p g') \<and>
      (if length rs = 1 then l = g_labels g ! run_block (rs ! 0) \<and> g' = g
       else p_labels (g_p g) = l \<and> p_labels (g_p g') = l + 1)"
  using assms
  by (cases rs; cases "tl rs") (auto simp: gen_entry_def fresh_eq entry_ok_def same_blocks_def less_Suc_eq)

lemma grows_absorb:
  assumes "grows (P \<union> Q) E g new g'" and "Q \<subseteq> {p_labels (g_p g) ..< p_labels (g_p g')}"
  shows "grows P E g new g'"
  using assms by (auto simp: grows_def)

lemma entry_ok_later:
  "entry_ok rs l g \<Longrightarrow> same_blocks g g' \<Longrightarrow> p_labels (g_p g) \<le> p_labels (g_p g') \<Longrightarrow> entry_ok rs l g'"
  by (auto simp: entry_ok_def same_blocks_def split: if_splits)

lemma same_blocks_trans: "same_blocks g g1 \<Longrightarrow> same_blocks g1 g2 \<Longrightarrow> same_blocks g g2"
  by (simp add: same_blocks_def)

lemma target_in:
  assumes "entry_ok rs l g" and "covers a rs b" and "runs_map f rs" and "a \<le> n" and "n < b"
  shows "g_labels g ! f n \<in> set (g_labels g)" and "f n < length (g_labels g)"
proof -
  obtain r where "r \<in> set rs" "unat (run_lo r) \<le> n" "n \<le> unat (run_hi r)"
    using covers_hit[OF assms(2,4,5)] by blast
  then have "run_block r = f n" "r \<in> set rs" using assms(3) by (auto simp: runs_map_def)
  then have "f n \<in> run_block ` set rs" by force
  then show "f n < length (g_labels g)" using assms(1) by (auto simp: entry_ok_def)
  then show "g_labels g ! f n \<in> set (g_labels g)" by simp
qed

text \<open>A node: a comparison with the first number of the right half, then both halves.\<close>

lemma dispatches_node:
  assumes "dispatches t a m ll xs" and "dispatches t m b lr ys" and "unat k = m"
    and "lr \<notin> placed xs"
    and "\<And>n. a \<le> n \<Longrightarrow> n < b \<Longrightarrow> t n \<notin> placed xs \<and> t n \<notin> placed ys"
  shows "dispatches t a b l ([ILabel l, i_jmp JGe k (L lr) (L ll)] @ xs @ ys)"
  unfolding dispatches_def
proof (intro allI impI)
  fix d X rest and s :: Machine
  let ?t = "t (unat (m_a s))"
  assume n: "a \<le> unat (m_a s)" "unat (m_a s) < b" and X: "l \<notin> placed X"
  have "isem d (after l (X @ ([ILabel l, i_jmp JGe k (L lr) (L ll)] @ xs @ ys) @ rest)) s =
      isem d (after (if k \<le> m_a s then lr else ll) (xs @ ys @ rest)) s"
    using X by (simp add: isem_items)
  also have "\<dots> = isem d (after ?t rest) s"
  proof (cases "k \<le> m_a s")
    case True
    then show ?thesis
      using assms(2)[unfolded dispatches_def, rule_format, of s xs d rest] assms(3,4) assms(5)[OF n] n
      by (simp add: word_le_nat_alt)
  next
    case False
    then show ?thesis
      using assms(1)[unfolded dispatches_def, rule_format, of s "[]" d "ys @ rest"] assms(3) assms(5)[OF n] n
      by (simp add: word_le_nat_alt)
  qed
  finally show "isem d (after l (X @ ([ILabel l, i_jmp JGe k (L lr) (L ll)] @ xs @ ys) @ rest)) s =
      isem d (after ?t rest) s" .
qed

text \<open>Both halves of a node have an entry; where one of them is a single run it is the
  block's own label, and otherwise a fresh one that its subtree places.\<close>

definition entered :: "Run list \<Rightarrow> Label \<Rightarrow> Gen \<Rightarrow> Gen \<Rightarrow> bool" where
  "entered rs l g g' \<longleftrightarrow>
     (if length rs = 1 then l \<in> (!) (g_labels g) ` run_block ` set rs
      else p_labels (g_p g) \<le> l \<and> l < p_labels (g_p g'))"

lemma node_head:
  assumes "left \<noteq> []" and "right \<noteq> []" and "\<forall>x\<in>set (g_labels g). x < p_labels (g_p g)"
    and "\<forall>r\<in>set (left @ right). run_block r < length (g_labels g)"
    and e1: "gen_entry left (emit (p_place l) g) = (ll, g1)" and e2: "gen_entry right g1 = (lr, g2)"
  shows "grows {l} {ll, lr} g [ILabel l, i_jmp JGe k (L lr) (L ll)] (emit (p_jge k (L lr) (L ll)) g2)"
    and "entry_ok left ll (emit (p_jge k (L lr) (L ll)) g2)"
    and "entry_ok right lr (emit (p_jge k (L lr) (L ll)) g2)"
    and "entered left ll g (emit (p_jge k (L lr) (L ll)) g2)"
    and "entered right lr g (emit (p_jge k (L lr) (L ll)) g2)"
    and "length left \<noteq> 1 \<Longrightarrow> length right \<noteq> 1 \<Longrightarrow> ll \<noteq> lr"
proof -
  let ?g3 = "emit (p_jge k (L lr) (L ll)) g2"
  have E1: "entry_ok left ll g1" "same_blocks g g1" "p_items (g_p g1) = p_items (g_p g) @ [ILabel l]"
      "p_labels (g_p g) \<le> p_labels (g_p g1)"
      "if length left = 1 then ll = g_labels g ! run_block (left ! 0)
       else ll = p_labels (g_p g) \<and> p_labels (g_p g1) = ll + 1"
    using gen_entry_ok[OF assms(1) e1] assms(3,4) by (auto simp: same_blocks_def split: if_splits)
  have lab1: "g_labels g1 = g_labels g" using E1(2) by (simp add: same_blocks_def)
  have E2: "entry_ok right lr g2" "same_blocks g1 g2" "p_items (g_p g2) = p_items (g_p g1)"
      "p_labels (g_p g1) \<le> p_labels (g_p g2)"
      "if length right = 1 then lr = g_labels g ! run_block (right ! 0)
       else lr = p_labels (g_p g1) \<and> p_labels (g_p g2) = lr + 1"
    using gen_entry_ok[OF assms(2) e2] assms(3,4) E1(4) by (fastforce simp: lab1 split: if_splits)+
  have same: "same_blocks g1 ?g3" "same_blocks g2 ?g3" using E2(2) by (auto simp: same_blocks_def)
  show "grows {l} {ll, lr} g [ILabel l, i_jmp JGe k (L lr) (L ll)] ?g3"
    using E1 E2 by (auto simp: grows_def same_blocks_def)
  show "entry_ok left ll ?g3" "entry_ok right lr ?g3"
    using entry_ok_later[OF E1(1) same(1)] entry_ok_later[OF E2(1) same(2)] E2(4) by auto
  show "entered left ll g ?g3" "entered right lr g ?g3"
    using assms(1,2) E1(4,5) E2(4,5) by (auto simp: entered_def split: if_splits)
  show "ll \<noteq> lr" if "length left \<noteq> 1" "length right \<noteq> 1" using that E1(5) E2(5) by auto
qed

lemma node_join:
  assumes head: "grows {l} {ll, lr} g zs g3"
    and xs: "grows (own_label left ll) ((!) (g_labels g) ` run_block ` set left) g3 xs g4"
    and ys: "grows (own_label right lr) ((!) (g_labels g) ` run_block ` set right) g4 ys g5"
    and ent: "entered left ll g g3" "entered right lr g g3"
    and own: "length left \<noteq> 1 \<longrightarrow> ll \<in> placed xs" "length right \<noteq> 1 \<longrightarrow> lr \<in> placed ys"
  shows "grows {l} ((!) (g_labels g) ` run_block ` set (left @ right)) g (zs @ xs @ ys) g5"
proof -
  let ?E = "(!) (g_labels g) ` run_block ` set (left @ right)"
  have "grows (own_label left ll) ?E g3 xs g4" by (rule grows_mono[OF xs]) auto
  moreover have "grows (own_label right lr) ?E g4 ys g5" by (rule grows_mono[OF ys]) auto
  ultimately have body: "grows (own_label left ll \<union> own_label right lr) ?E g3 (xs @ ys) g5"
    by (rule grows_trans) auto
  have "{ll, lr} \<subseteq> ?E \<union> placed (xs @ ys)"
    using ent own unfolding entered_def by (auto split: if_splits)
  from grows_trans[OF head body this]
  show ?thesis
    by (rule grows_absorb) (use ent head xs ys in \<open>auto simp: entered_def grows_def split: if_splits\<close>)
qed

lemma node_clear:
  assumes "grows (own_label left ll) E g3 xs g4" and "grows (own_label right lr) E' g4 ys g5"
    and "p_labels (g_p g) \<le> p_labels (g_p g3)" and "\<forall>x\<in>set (g_labels g). x < p_labels (g_p g)"
    and "\<forall>r\<in>set right. run_block r < length (g_labels g)"
    and "entered left ll g g3" "entered right lr g g3"
    and "length left \<noteq> 1 \<Longrightarrow> length right \<noteq> 1 \<Longrightarrow> ll \<noteq> lr"
  shows "x \<in> set (g_labels g) \<Longrightarrow> x \<notin> placed xs \<and> x \<notin> placed ys" and "lr \<notin> placed xs"
proof -
  have px: "placed xs \<subseteq> own_label left ll \<union> {p_labels (g_p g3) ..< p_labels (g_p g4)}"
    and py: "placed ys \<subseteq> own_label right lr \<union> {p_labels (g_p g4) ..< p_labels (g_p g5)}"
    and "p_labels (g_p g3) \<le> p_labels (g_p g4)"
    using assms(1,2) by (auto simp: grows_def)
  then show clear: "x \<notin> placed xs \<and> x \<notin> placed ys" if "x \<in> set (g_labels g)" for x
    using assms(3,4,6,7) that by (force simp: entered_def split: if_splits)
  show "lr \<notin> placed xs"
  proof (cases "length right = 1")
    case True
    then have "lr \<in> set (g_labels g)" using assms(5,7) by (auto simp: entered_def)
    then show ?thesis using clear by blast
  next
    case False
    then show ?thesis using px assms(6-8) by (auto simp: entered_def split: if_splits)
  qed
qed

lemma gen_tree_ok:
  assumes "rs \<noteq> []" and "entry_ok rs l g" and "covers a rs b" and "runs_map f rs"
  shows "\<exists>new. grows (own_label rs l) ((!) (g_labels g) ` run_block ` set rs) g new (snd (gen_tree rs l g)) \<and>
      (length rs \<noteq> 1 \<longrightarrow> (\<exists>ys. new = ILabel l # ys)) \<and> dispatches (\<lambda>n. g_labels g ! f n) a b l new"
  using assms
proof (induction "length rs" arbitrary: rs l g a b rule: less_induct)
  case less
  consider (single) "length rs = 1" | (chain) c where "length rs > 1" "jeq_chain rs = Some c"
    | (node) "length rs > 1" "jeq_chain rs = None"
    using less.prems(1) by (metis One_nat_def Suc_lessI length_greater_0_conv not_None_eq)
  then show ?case
  proof cases
    case single
    have "snd (gen_tree rs l g) = g" using single by (simp add: gen_tree.simps[of rs])
    then show ?thesis using single tree_single[OF single less.prems(2-4)] grows_refl by auto
  next
    case chain
    then show ?thesis using tree_chain[OF chain(1) _ less.prems(2-4)] by (cases c) simp
  next
    case node
    let ?lab = "g_labels g"
    define left right where "left = take (length rs div 2) rs" and "right = drop (length rs div 2) rs"
    have rs: "rs = left @ right" and ne: "left \<noteq> []" "right \<noteq> []"
      and shorter: "length left < length rs" "length right < length rs"
      using node(1) by (auto simp: left_def right_def)
    obtain m where m: "covers a left m" "covers m right b" using less.prems(3) rs covers_append by auto
    have maps: "runs_map f left" "runs_map f right" using less.prems(4) rs by (auto simp: runs_map_def)
    define k where "k = run_lo (right ! 0)"
    have k: "unat k = m" using m(2) ne(2) by (cases right) (auto simp: k_def)
    obtain ll g1 where e1: "gen_entry left (emit (p_place l) g) = (ll, g1)"
      by (cases "gen_entry left (emit (p_place l) g)")
    obtain lr g2 where e2: "gen_entry right g1 = (lr, g2)" by (cases "gen_entry right g1")
    define g3 where "g3 = emit (p_jge k (L lr) (L ll)) g2"
    define g4 where "g4 = snd (gen_tree left ll g3)"
    have lab: "\<forall>x\<in>set ?lab. x < p_labels (g_p g)" "\<forall>r\<in>set (left @ right). run_block r < length ?lab"
      using less.prems(2) rs by (auto simp: entry_ok_def)
    note head = node_head(1-5)[where k = k, OF ne lab e1 e2, folded g3_def] node_head(6)[OF ne lab e1 e2]
    have same3: "g_labels g3 = ?lab" using head(1) by (simp add: grows_def same_blocks_def)
    obtain xs where xs: "grows (own_label left ll) ((!) ?lab ` run_block ` set left) g3 xs g4"
        "length left \<noteq> 1 \<longrightarrow> ll \<in> placed xs" "dispatches (\<lambda>n. ?lab ! f n) a m ll xs"
      using less.hyps[OF shorter(1) ne(1) head(2) m(1) maps(1)] same3 unfolding g4_def by (metis insertI1 placed_simps(2))
    have g4: "same_blocks g3 g4" "p_labels (g_p g3) \<le> p_labels (g_p g4)" using xs(1) by (auto simp: grows_def)
    have same4: "g_labels g4 = ?lab" using g4(1) same3 by (simp add: same_blocks_def)
    obtain ys where ys: "grows (own_label right lr) ((!) ?lab ` run_block ` set right) g4 ys (snd (gen_tree right lr g4))"
        "length right \<noteq> 1 \<longrightarrow> lr \<in> placed ys" "dispatches (\<lambda>n. ?lab ! f n) m b lr ys"
      using less.hyps[OF shorter(2) ne(2) entry_ok_later[OF head(3) g4] m(2) maps(2)] same4 by (metis insertI1 placed_simps(2))
    have tree: "snd (gen_tree rs l g) = snd (gen_tree right lr g4)"
      using node e1 e2 unfolding gen_tree.simps[of rs]
      by (simp add: Let_def left_def[symmetric] right_def[symmetric] k_def[symmetric]
          g3_def[symmetric] g4_def split_beta)
    have up: "p_labels (g_p g) \<le> p_labels (g_p g3)" using head(1) by (simp add: grows_def)
    have right: "\<forall>r\<in>set right. run_block r < length ?lab" using lab(2) by simp
    note clear = node_clear[OF xs(1) ys(1) up lab(1) right head(4,5,6)]
    have "dispatches (\<lambda>n. ?lab ! f n) a b l ([ILabel l, i_jmp JGe k (L lr) (L ll)] @ xs @ ys)"
      using dispatches_node[OF xs(3) ys(3) k clear(2)] clear(1) target_in[OF less.prems(2-4)] by blast
    then show ?thesis
      using node_join[OF head(1) xs(1) ys(1) head(4,5) xs(2) ys(2)] node(1) unfolding tree rs[symmetric]
      by (intro exI[of _ "[ILabel l, i_jmp JGe k (L lr) (L ll)] @ xs @ ys"]) simp
  qed
qed

section \<open>The blocks\<close>

definition blocks_ready :: "Gen \<Rightarrow> bool" where
  "blocks_ready g \<longleftrightarrow>
     length (g_labels g) = length (g_blocks g) \<and> distinct (g_labels g) \<and>
     (\<forall>x\<in>set (g_labels g). x < p_labels (g_p g)) \<and> (\<forall>rules\<in>set (g_blocks g). rules_ready rules) \<and>
     g_blocks g \<noteq> [] \<and> g_blocks g ! 0 = []"

lemma single_ret_same: "same_blocks g g' \<Longrightarrow> single_ret g' i = single_ret g i"
  by (auto simp: same_blocks_def single_ret_def split: list.split)

lemma single_ret_None: "single_ret g i = None \<Longrightarrow> g_blocks g ! i \<noteq> []"
  by (auto simp: single_ret_def)

lemma single_ret_verdict:
  "single_ret g i = Some act \<Longrightarrow> verdict d (g_default g) (g_blocks g ! i) = act"
  by (auto simp: single_ret_def verdict_Cons rule_matches_def split: list.splits if_splits)

lemma blocks_ready_later:
  "blocks_ready g \<Longrightarrow> same_blocks g g' \<Longrightarrow> p_labels (g_p g) \<le> p_labels (g_p g') \<Longrightarrow> blocks_ready g'"
  by (auto simp: blocks_ready_def same_blocks_def)

abbreviation block_sem :: "Gen \<Rightarrow> nat \<Rightarrow> Item list \<Rightarrow> bool" where
  "block_sem g i is \<equiv>
     \<forall>d s. isem d (after (g_labels g ! i) is) s = Some (verdict d (g_default g) (g_blocks g ! i))"

lemma block_sem_same: "same_blocks g g' \<Longrightarrow> block_sem g' i is \<longleftrightarrow> block_sem g i is"
  by (simp add: same_blocks_def)

lemma rule_block_ok:
  assumes "blocks_ready g" and "i < length (g_blocks g)" and "single_ret g i = None"
  shows "\<exists>new. grows {g_labels g ! i} {g_labels g ! 0} g (ILabel (g_labels g ! i) # new) (gen_rule_block i g) \<and>
    placed new \<inter> set (g_labels g) = {} \<and>
    (\<forall>rest. block_sem g 0 rest \<longrightarrow> block_sem g i (ILabel (g_labels g ! i) # new @ rest))"
proof -
  let ?lab = "(!) (g_labels g)"
  define g1 where "g1 = emit (p_place (?lab i)) g"
  have 0: "g_blocks g ! 0 = []" "?lab 0 < p_labels (g_p g1)"
    and ready: "rules_ready (g_blocks g ! i)"
    using assms(1,2) by (auto simp: blocks_ready_def g1_def)
  obtain xs where xs: "grows {} {?lab 0} g1 xs (gen_rules_loop (g_blocks g ! i) (?lab 0) g1)"
    and sem: "\<And>d def rest. \<forall>s. isem d (after (?lab 0) rest) s = Some def \<Longrightarrow>
        \<forall>s. isem d (xs @ rest) s = Some (verdict d def (g_blocks g ! i))"
    using gen_rules_loop_ok[OF single_ret_None[OF assms(3)] ready 0(2)] by blast
  have gen: "gen_rule_block i g = gen_rules_loop (g_blocks g ! i) (?lab 0) g1"
    using assms(3) by (simp add: gen_rule_block_def gen_rules_def g1_def)
  have "grows {?lab i} {?lab 0} g (ILabel (?lab i) # xs) (gen_rule_block i g)"
    using xs by (auto simp: grows_def g1_def same_blocks_def gen)
  moreover have "placed xs \<inter> set (g_labels g) = {}"
    using xs assms(1) by (fastforce simp: grows_def blocks_ready_def g1_def)
  moreover have "block_sem g i (ILabel (?lab i) # xs @ rest)" if "block_sem g 0 rest" for rest
    using sem that 0(1) by simp
  ultimately show ?thesis by blast
qed

definition rule_ids :: "Gen \<Rightarrow> nat list \<Rightarrow> nat set" where
  "rule_ids g is = {i\<in>set is. single_ret g i = None}"

lemma rule_blocks_ok:
  assumes "blocks_ready g" and "distinct is" and "\<forall>i\<in>set is. i < length (g_blocks g)"
  shows "\<exists>new. grows ((!) (g_labels g) ` rule_ids g is) {g_labels g ! 0} g new (fold gen_rule_block is g) \<and>
    (!) (g_labels g) ` rule_ids g is \<subseteq> placed new \<and>
    (\<forall>rest. block_sem g 0 rest \<longrightarrow> (\<forall>i\<in>rule_ids g is. block_sem g i (new @ rest)))"
  using assms
proof (induction "is" arbitrary: g)
  case Nil
  then show ?case using grows_refl[of "{}" "{g_labels g ! 0}" g] by (intro exI[of _ "[]"]) (simp add: rule_ids_def)
next
  case (Cons i "is")
  let ?lab = "(!) (g_labels g)"
  let ?R = "rule_ids g is"
  define g1 where "g1 = gen_rule_block i g"
  show ?case
  proof (cases "single_ret g i")
    case (Some act)
    then have "gen_rule_block i g = g" by (simp add: gen_rule_block_def)
    moreover have "rule_ids g (i # is) = ?R" using Some by (auto simp: rule_ids_def)
    ultimately show ?thesis using Cons.IH[OF Cons.prems(1)] Cons.prems by (simp add: rule_ids_def)
  next
    case None
    obtain xs where xs: "grows {?lab i} {?lab 0} g (ILabel (?lab i) # xs) g1"
        "placed xs \<inter> set (g_labels g) = {}"
      and sem: "\<And>rest. block_sem g 0 rest \<Longrightarrow> block_sem g i (ILabel (?lab i) # xs @ rest)"
      using rule_block_ok[OF Cons.prems(1) _ None] Cons.prems(3) unfolding g1_def by auto
    have same: "same_blocks g g1" using xs(1) by (simp add: grows_def)
    note sr = single_ret_same[OF same]
    have ready: "blocks_ready g1" by (rule blocks_ready_later[OF Cons.prems(1) same]) (use xs(1) in \<open>simp add: grows_def\<close>)
    have labels: "g_labels g1 = g_labels g" "g_blocks g1 = g_blocks g" "g_default g1 = g_default g"
      using same by (auto simp: same_blocks_def)
    obtain ys where ys: "grows (?lab ` ?R) {?lab 0} g1 ys (fold gen_rule_block is g1)"
        "?lab ` ?R \<subseteq> placed ys"
      and IH: "\<And>rest. block_sem g 0 rest \<Longrightarrow> \<forall>j\<in>?R. block_sem g j (ys @ rest)"
      using Cons.IH[OF ready] Cons.prems(2,3) unfolding rule_ids_def labels sr by auto
    have lab: "distinct (g_labels g)" "length (g_labels g) = length (g_blocks g)"
        "\<forall>x\<in>set (g_labels g). x < p_labels (g_p g1)" "g_blocks g \<noteq> []"
      using Cons.prems(1) ready labels by (auto simp: blocks_ready_def)
    have z: "single_ret g 0 = Some (g_default g)"
      using Cons.prems(1) by (simp add: blocks_ready_def single_ret_def)
    have "j \<noteq> 0" if "j \<in> ?R" for j
      by (rule notI) (use that z in \<open>simp add: rule_ids_def\<close>)
    then have R': "\<forall>j\<in>?R. j < length (g_labels g) \<and> j \<noteq> 0 \<and> j \<noteq> i"
      using Cons.prems(2,3) lab(2) by (auto simp: rule_ids_def)
    have i0: "i < length (g_labels g)" using Cons.prems(3) lab(2) by simp
    have "?lab 0 \<notin> placed ys"
    proof
      assume "?lab 0 \<in> placed ys"
      moreover have "?lab 0 < p_labels (g_p g1)" using lab by simp
      ultimately obtain j where "j \<in> ?R" "?lab 0 = ?lab j" using ys(1) by (auto simp: grows_def)
      then show False using R' lab(1,2,4) by (metis length_greater_0_conv nth_eq_iff_index_eq)
    qed
    then have here: "block_sem g i ((ILabel (?lab i) # xs @ ys) @ rest)" if "block_sem g 0 rest" for rest
      using sem[of "ys @ rest"] that by simp
    have there: "block_sem g j ((ILabel (?lab i) # xs @ ys) @ rest)" if "block_sem g 0 rest" "j \<in> ?R" for rest j
    proof -
      have "?lab j \<noteq> ?lab i" "?lab j \<notin> placed xs"
        using R' that(2) i0 lab(1) xs(2) by (auto simp: nth_eq_iff_index_eq)
      then show ?thesis using IH[OF that(1)] that(2) by simp
    qed
    have "rule_ids g (i # is) = insert i ?R" using None by (auto simp: rule_ids_def)
    moreover have "grows (?lab ` insert i ?R) {?lab 0} g (ILabel (?lab i) # xs @ ys) (fold gen_rule_block (i # is) g)"
      using grows_trans[OF xs(1) ys(1)] by (simp add: g1_def)
    ultimately show ?thesis
      using here there ys(2) by (intro exI[of _ "ILabel (?lab i) # xs @ ys"]) auto
  qed
qed

definition ret_items :: "Gen \<Rightarrow> nat \<Rightarrow> Item list" where
  "ret_items g i =
     (case single_ret g i of None \<Rightarrow> [] | Some act \<Rightarrow> [ILabel (g_labels g ! i), i_ret act])"

lemma ret_blocks_items:
  "\<exists>g'. fold gen_ret_block is g = g' \<and>
     grows ((!) (g_labels g) ` set is) {} g (concat (map (ret_items g) is)) g'"
proof (induction "is" arbitrary: g)
  case Nil
  then show ?case using grows_refl by simp
next
  case (Cons i "is")
  define g1 where "g1 = gen_ret_block i g"
  have one: "grows {g_labels g ! i} {} g (ret_items g i) g1"
    by (auto simp: g1_def gen_ret_block_def ret_items_def grows_def same_blocks_def split: option.split)
  then have same: "same_blocks g g1" by (simp add: grows_def)
  then have items: "ret_items g1 = ret_items g" "g_labels g1 = g_labels g"
    using single_ret_same[OF same] by (auto simp: ret_items_def same_blocks_def fun_eq_iff split: option.split)
  show ?case using grows_trans[OF one Cons.IH[of g1, simplified items, simplified]] by (simp add: g1_def)
qed

text \<open>Every block is placed, and control that reaches its label gets its verdict.\<close>

lemma ret_items_last: "concat (map (ret_items g) is) \<noteq> [] \<Longrightarrow>
   \<exists>xs act. concat (map (ret_items g) is) = xs @ [i_ret act]"
proof (induction "is")
  case (Cons i "is")
  show ?case
  proof (cases "concat (map (ret_items g) is) = []")
    case True
    have "ret_items g i \<noteq> []" using True Cons.prems by (metis append_Nil2 concat.simps(2) list.simps(9))
    then obtain act where "ret_items g i = [ILabel (g_labels g ! i)] @ [i_ret act]"
      by (auto simp: ret_items_def split: option.splits)
    then show ?thesis using True by (metis append_Nil2 concat.simps(2) list.simps(9))
  next
    case False
    then obtain xs act where "concat (map (ret_items g) is) = xs @ [i_ret act]" using Cons.IH by blast
    then show ?thesis by (intro exI[of _ "ret_items g i @ xs"] exI[of _ act]) simp
  qed
qed simp

lemma ret_items_placed:
  "placed (concat (map (ret_items g) is)) = (!) (g_labels g) ` {i\<in>set is. single_ret g i \<noteq> None}"
  by (induction "is") (auto simp: ret_items_def split: option.split)

lemma ret_items_sem:
  assumes "distinct (g_labels g)" and "\<forall>j\<in>set is. j < length (g_labels g)" and "distinct is"
    and "i \<in> set is" and "single_ret g i = Some act"
  shows "isem d (after (g_labels g ! i) (concat (map (ret_items g) is) @ rest)) s = Some act"
  using assms
proof (induction "is")
  case (Cons j "is")
  show ?case
  proof (cases "j = i")
    case True
    then show ?thesis using Cons.prems(5) by (simp add: ret_items_def isem_items)
  next
    case False
    then have "g_labels g ! i \<notin> placed (ret_items g j)"
      using Cons.prems by (auto simp: ret_items_def nth_eq_iff_index_eq split: option.split)
    then show ?thesis using Cons False by simp
  qed
qed simp

lemma gen_blocks_ok:
  assumes "blocks_ready g"
  shows "\<exists>new. grows (set (g_labels g)) {} g new (gen_blocks g) \<and> set (g_labels g) \<subseteq> placed new \<and>
    (\<forall>i < length (g_blocks g). block_sem g i new) \<and> (\<exists>xs act. new = xs @ [i_ret act])"
proof -
  let ?is = "[0..<length (g_blocks g)]" and ?lab = "(!) (g_labels g)"
  define g1 where "g1 = fold gen_rule_block ?is g"
  obtain xs where xs: "grows (?lab ` rule_ids g ?is) {?lab 0} g xs g1" "?lab ` rule_ids g ?is \<subseteq> placed xs"
    and rules: "\<And>rest. block_sem g 0 rest \<Longrightarrow> \<forall>i\<in>rule_ids g ?is. block_sem g i (xs @ rest)"
    using rule_blocks_ok[OF assms, of ?is] unfolding g1_def by auto
  have same: "same_blocks g g1" using xs(1) by (simp add: grows_def)
  note sr = single_ret_same[OF same]
  have lab: "distinct (g_labels g)" "length (g_labels g) = length (g_blocks g)" "g_blocks g \<noteq> []"
      "\<forall>x\<in>set (g_labels g). x < p_labels (g_p g)"
    and zero: "single_ret g 0 = Some (g_default g)"
    using assms by (auto simp: blocks_ready_def single_ret_def)
  have labels: "g_labels g1 = g_labels g" "g_blocks g1 = g_blocks g" "ret_items g1 = ret_items g"
    using same sr by (auto simp: same_blocks_def ret_items_def fun_eq_iff split: option.split)
  define ys where "ys = concat (map (ret_items g) ?is)"
  have ys: "grows (?lab ` set ?is) {} g1 ys (gen_blocks g)"
    using ret_blocks_items[of ?is g1] by (simp add: gen_blocks_def labels ys_def g1_def[symmetric])
  have sem: "isem d (after (?lab i) ys) s = Some act"
    if "i < length (g_blocks g)" "single_ret g i = Some act" for d s i act
    using ret_items_sem[of g ?is i act d "[]" s] lab(1,2) that by (simp add: ys_def)
  have zero_sem: "block_sem g 0 ys"
    using sem[OF _ zero] lab(3) single_ret_verdict[OF zero] by simp
  have clear: "?lab i \<notin> placed xs" if "i < length (g_blocks g)" "single_ret g i \<noteq> None" for i
  proof
    assume "?lab i \<in> placed xs"
    moreover have "?lab i < p_labels (g_p g)" using that(1) lab(2,4) by simp
    ultimately obtain j where "j \<in> rule_ids g ?is" "?lab i = ?lab j" using xs(1) by (auto simp: grows_def)
    then show False using that lab(1,2) by (auto simp: rule_ids_def nth_eq_iff_index_eq)
  qed
  have all: "block_sem g i (xs @ ys)" if "i < length (g_blocks g)" for i
  proof (cases "single_ret g i")
    case None
    then show ?thesis using rules[OF zero_sem] that by (simp add: rule_ids_def)
  next
    case (Some act)
    then show ?thesis using sem[OF that Some] clear[of i] that single_ret_verdict[OF Some] by simp
  qed
  have labs: "set (g_labels g) = ?lab ` set ?is" using lab(2) by (auto simp: in_set_conv_nth)
  have placed: "?lab ` set ?is \<subseteq> placed (xs @ ys)"
  proof (rule image_subsetI)
    fix i assume "i \<in> set ?is"
    then show "?lab i \<in> placed (xs @ ys)"
      using xs(2) ret_items_placed[of g ?is]
      by (cases "single_ret g i = None") (fastforce simp: ys_def rule_ids_def)+
  qed
  have "ret_items g 0 \<noteq> []" "0 \<in> set ?is" using zero lab(3) by (auto simp: ret_items_def)
  then have "ys \<noteq> []" unfolding ys_def by (metis concat_eq_Nil_conv image_eqI list.set_map)
  then obtain zs act where "ys = zs @ [i_ret act]" using ret_items_last unfolding ys_def by blast
  moreover have "grows (set (g_labels g)) {} g (xs @ ys) (gen_blocks g)"
    by (rule grows_mono[OF grows_trans[OF xs(1) ys]])
      (use labs ret_items_placed[of g ?is] zero lab(3) in \<open>auto simp: rule_ids_def ys_def\<close>)
  ultimately show ?thesis using all placed unfolding labs
    by (intro exI[of _ "xs @ ys"]) auto
qed

text \<open>The code for a 64-bit comparison, made of 32-bit loads and jumps, falls through when
  the condition holds and goes to \<open>fail\<close> when it does not, whatever follows it and whatever the
  accumulator held before.\<close>

theorem gen_cond_compares:
  assumes "c_index c \<le> 5" and "cond_constant c = None" and "fail < p_labels (g_p g)"
  shows "\<exists>new. p_items (g_p (gen_cond c fail g)) = p_items (g_p g) @ new \<and>
    (\<forall>d rest s. \<exists>a. isem d (new @ rest) s =
       isem d (if cond_holds d c then rest else after fail rest) (s\<lparr>m_a := a\<rparr>))"
proof -
  have "p_labels (g_p g) \<noteq> fail" using assms(3) by simp
  then show ?thesis
    using gen_cond_grows[OF assms(1), of fail g] cond_sem[OF assms(1,2)] unfolding grows_def by blast
qed

theorem gen_cond_compares_witness:
  "\<exists>new. p_items (g_p (gen_cond \<lparr>c_index = 1, c_op = Gt, c_value = 0x100000002, c_value_two = 0\<rparr> 0
       (with_labels 1 (Gen_init 0)))) = new \<and>
    (\<forall>d rest s. \<exists>a. isem d (new @ rest) s =
       isem d (if 0x100000002 < sd_args d 1 then rest else after 0 rest) (s\<lparr>m_a := a\<rparr>))"
  using gen_cond_compares[of "\<lparr>c_index = 1, c_op = Gt, c_value = 0x100000002, c_value_two = 0\<rparr>" 0
      "with_labels 1 (Gen_init 0)"]
  by (simp add: cond_constant_def cond_holds_def arg_of_def Gen_init_def Program_default_def)

end
