(* ===== verification/SeccompCorrect.thy ===== *)
theory SeccompCorrect
  imports SeccompCodegen
begin

text \<open>
  What a compiled seccomp filter decides. \<open>profile_verdict\<close> reads the profile directly: the
  first entry that names the syscall and whose conditions hold gives the action, and no entry
  means the default, behind the guards for a foreign architecture, x32 numbers and syscalls
  newer than the profile. The passes are then put together: \<open>resolve\<close> keeps that meaning, the
  generated code computes it, and the assembler and the interpreter agree with it.
\<close>

section \<open>Collecting the blocks\<close>

definition blocks_inv :: "Gen \<Rightarrow> bool" where
  "blocks_inv g \<longleftrightarrow>
     p_items (g_p g) = [] \<and> g_labels g = [0..<length (g_blocks g)] \<and> p_labels (g_p g) = length (g_blocks g) \<and>
     (\<forall>rules i. g_ids g rules = Some i \<longrightarrow> i < length (g_blocks g) \<and> g_blocks g ! i = rules) \<and>
     (\<forall>rules\<in>set (g_blocks g). rules_ready rules)"

lemma gen_block_ok:
  assumes "blocks_inv g" and "rules_ready rules" and "gen_block rules g = (i, g')"
  shows "blocks_inv g' \<and> i < length (g_blocks g') \<and> g_blocks g' ! i = rules \<and>
    g_default g' = g_default g \<and> (\<exists>more. g_blocks g' = g_blocks g @ more)"
proof (cases "g_ids g rules")
  case None
  then show ?thesis
    using assms by (auto simp: gen_block_def blocks_inv_def fresh_eq Let_def nth_append less_Suc_eq split: if_splits)
next
  case (Some j)
  then show ?thesis using assms by (auto simp: gen_block_def blocks_inv_def)
qed

text \<open>A target names the block of its number's simplified rules.\<close>

definition names_block :: "Gen \<Rightarrow> u32 \<times> Rule list \<Rightarrow> u32 \<times> nat \<Rightarrow> bool" where
  "names_block g e t \<longleftrightarrow> fst t = fst e \<and> snd t < length (g_blocks g) \<and>
     g_blocks g ! snd t = simplify (snd e) (g_default g)"

lemma gen_targets_ok:
  assumes "blocks_inv g" and "gen_targets m g = (ts, g')"
    and "\<forall>(nr, rules)\<in>set m. \<forall>r\<in>set rules. \<forall>c\<in>set (r_conds r). c_index c \<le> 5"
  shows "blocks_inv g' \<and> list_all2 (names_block g') m ts \<and>
    g_default g' = g_default g \<and> (\<exists>more. g_blocks g' = g_blocks g @ more)"
  using assms
proof (induction m arbitrary: g ts g')
  case (Cons e m)
  obtain nr rules where e: "e = (nr, rules)" by (cases e)
  obtain i g1 where b: "gen_block (simplify rules (g_default g)) g = (i, g1)"
    by (cases "gen_block (simplify rules (g_default g)) g")
  obtain ts' where t: "gen_targets m g1 = (ts', g')" and ts: "ts = (nr, i) # ts'"
    using Cons.prems(2) e b by (cases "gen_targets m g1") (auto simp: split_beta)
  have "rules_ready (simplify rules (g_default g))"
    using Cons.prems(3) e by (intro simplify_ready) auto
  note one = gen_block_ok[OF Cons.prems(1) this b]
  have IH: "blocks_inv g'" "list_all2 (names_block g') m ts'" "g_default g' = g_default g1"
      "\<exists>more. g_blocks g' = g_blocks g1 @ more"
    using Cons.IH[OF _ t] one Cons.prems(3) by auto
  then have "names_block g' e (nr, i)"
    using one e by (auto simp: names_block_def nth_append)
  then show ?case using one IH ts by auto
qed auto

lemma names_block_range:
  assumes "list_all2 (names_block g) m ts" and "dflt < length (g_blocks g)"
  shows "block_of ts dflt n < length (g_blocks g)"
  using assms
  by (induction m ts rule: list_all2_induct) (auto simp: block_of_def names_block_def)

lemma names_block_lookup:
  assumes "list_all2 (names_block g) m ts"
  shows "case map_of m nr of None \<Rightarrow> block_of ts dflt (unat nr) = dflt
     | Some rules \<Rightarrow> g_blocks g ! block_of ts dflt (unat nr) = simplify rules (g_default g)"
  using assms
proof (induction m ts rule: list_all2_induct)
  case (Cons e m t ts)
  obtain x rules i where et: "e = (x, rules)" "t = (x, i)" "g_blocks g ! i = simplify rules (g_default g)"
    using Cons.hyps(1) by (cases e; cases t) (auto simp: names_block_def)
  show ?case
  proof (cases "nr = x")
    case False
    then have "unat x \<noteq> unat nr" by (simp add: word_unat_eq_iff)
    then show ?thesis using Cons.IH False et by (simp add: block_of_Cons split: option.splits)
  qed (simp add: et block_of_Cons)
qed (simp add: block_of_def)

section \<open>The header\<close>

definition header_verdict :: "u32 option \<Rightarrow> SeccompData \<Rightarrow> u32 option" where
  "header_verdict enosys_above d =
     (if sd_arch d \<noteq> AUDIT_ARCH_X86_64 then Some RET_KILL_PROCESS
      else if sd_nr d AND X32_SYSCALL_BIT \<noteq> 0 \<and> sd_nr d \<noteq> - 1 then Some RET_KILL_PROCESS
      else case enosys_above of
             None \<Rightarrow> None
           | Some highest \<Rightarrow> if sd_nr d > highest then Some (RET_ERRNO OR ENOSYS) else None)"

lemma data_words:
  "SeccompData_word d DATA_ARCH = Some (sd_arch d)" "SeccompData_word d DATA_NR = Some (sd_nr d)"
  by (simp_all add: SeccompData_word_def wire)

lemma gen_header_ok:
  "\<exists>new. grows {} {} g new (gen_header enosys_above g) \<and>
     (\<forall>d rest s. isem d (new @ rest) s =
        (case header_verdict enosys_above d of
           Some v \<Rightarrow> Some v | None \<Rightarrow> isem d rest (s\<lparr>m_a := sd_nr d\<rparr>)))"
proof -
  define n where "n = p_labels (g_p g)"
  define front where "front =
    [i_ld DATA_ARCH, i_jmp JEq AUDIT_ARCH_X86_64 (L n) Next, i_ret RET_KILL_PROCESS, ILabel n,
     i_ld DATA_NR, i_jmp JSet X32_SYSCALL_BIT Next (L (Suc n)), i_jmp JEq (- 1) (L (Suc n)) Next,
     i_ret RET_KILL_PROCESS, ILabel (Suc n)]"
  define stub where "stub = (case enosys_above of None \<Rightarrow> []
     | Some h \<Rightarrow> [i_jmp JGt h Next (L (Suc (Suc n))), i_ret (RET_ERRNO OR ENOSYS), ILabel (Suc (Suc n))])"
  have ld: "item_simple (i_ld DATA_ARCH)" "item_simple (i_ld DATA_NR)"
    by (rule item_simple_gen, simp add: wire)+
  have items: "p_items (g_p (gen_header enosys_above g)) = p_items (g_p g) @ front @ stub"
    and labels: "p_labels (g_p (gen_header enosys_above g)) = (if enosys_above = None then n + 2 else n + 3)"
    and same: "same_blocks g (gen_header enosys_above g)"
    by (auto simp: gen_header_def fresh_eq Let_def same_blocks_def front_def stub_def n_def split: option.split)
  have "grows {} {} g (front @ stub) (gen_header enosys_above g)"
    using ld same unfolding grows_def items labels
    by (auto simp: front_def stub_def n_def[symmetric] split: option.split)
  moreover have "isem d ((front @ stub) @ rest) s =
        (case header_verdict enosys_above d of
           Some v \<Rightarrow> Some v | None \<Rightarrow> isem d rest (s\<lparr>m_a := sd_nr d\<rparr>))" for d rest s
    by (auto simp: front_def stub_def header_verdict_def isem_items isem_ld data_words split: option.split)
  ultimately show ?thesis by blast
qed

section \<open>The whole program\<close>

text \<open>What the resolved profile decides.\<close>

definition resolved_verdict :: "Resolved \<Rightarrow> SeccompData \<Rightarrow> u32" where
  "resolved_verdict r d =
     (case header_verdict (res_enosys_above r) d of
        Some v \<Rightarrow> v
      | None \<Rightarrow> verdict d (res_default r)
          (case map_of (res_rules r) (sd_nr d) of None \<Rightarrow> [] | Some rules \<Rightarrow> rules))"

definition resolved_ok :: "Resolved \<Rightarrow> bool" where
  "resolved_ok r \<longleftrightarrow>
     targets_ok (res_rules r) \<and>
     (\<forall>(nr, rules)\<in>set (res_rules r). \<forall>rule\<in>set rules. \<forall>c\<in>set (r_conds rule). c_index c \<le> 5) \<and>
     (\<forall>h. res_enosys_above r = Some h \<longrightarrow> (\<forall>(nr, rules)\<in>set (res_rules r). nr \<le> h))"

definition highest_nr :: "Resolved \<Rightarrow> u32" where
  "highest_nr r = (case res_enosys_above r of None \<Rightarrow> - 1 | Some h \<Rightarrow> h)"

text \<open>The blocks, the ranges and the code that \<open>compile\<close> hands to the assembler.\<close>

definition plan :: "Resolved \<Rightarrow> Run list \<times> Gen" where
  "plan r =
     (let (default_block, g) = gen_block [] (Gen_init (res_default r));
          (targets, g) = gen_targets (res_rules r) g
      in (dispatch_runs targets default_block (highest_nr r), g))"

definition generate :: "Resolved \<Rightarrow> Run list \<Rightarrow> Gen \<Rightarrow> nat \<times> Gen" where
  "generate r rs g =
     (let g = gen_header (res_enosys_above r) g;
          (l, g) = gen_entry rs g;
          (depth, g) = gen_tree rs l g;
          g = (if length rs = 1 then emit (p_ja l) g else g)
      in (depth, gen_blocks g))"

lemma targets_ok_keys:
  "targets_ok ts \<longleftrightarrow> sorted_wrt (<) (map fst ts) \<and> (\<forall>nr\<in>set (map fst ts). nr < - 1)"
  by (auto simp: targets_ok_def)

lemma plan_ok:
  assumes "resolved_ok r" and "plan r = (rs, g)"
  shows "blocks_ready g" and "g_default g = res_default r" and "p_items (g_p g) = []"
    and "\<exists>f. covers 0 rs (unat (highest_nr r) + 1) \<and> runs_map f rs \<and> (\<forall>n. f n < length (g_blocks g)) \<and>
      (\<forall>nr d. verdict d (res_default r) (g_blocks g ! f (unat nr)) = verdict d (res_default r)
         (case map_of (res_rules r) nr of None \<Rightarrow> [] | Some rules \<Rightarrow> rules))"
proof -
  obtain b0 g0 where e0: "gen_block [] (Gen_init (res_default r)) = (b0, g0)"
    by (cases "gen_block [] (Gen_init (res_default r))")
  obtain ts where e1: "gen_targets (res_rules r) g0 = (ts, g)" and rs: "rs = dispatch_runs ts b0 (highest_nr r)"
    using assms(2) e0 by (auto simp: plan_def split: prod.splits)
  have "blocks_inv (Gen_init (res_default r))" by (simp add: blocks_inv_def Gen_init_def Program_default_def)
  moreover have "rules_ready []" by (simp add: rules_ready_def)
  ultimately have g0: "blocks_inv g0" "g_default g0 = res_default r"
    using gen_block_ok[OF _ _ e0] by (auto simp: Gen_init_def)
  have b0: "b0 = 0" "g_blocks g0 = [[]]"
    using e0 by (auto simp: gen_block_def Gen_init_def Let_def split_beta fresh_eq)
  have conds: "\<forall>(nr, rules)\<in>set (res_rules r). \<forall>rule\<in>set rules. \<forall>c\<in>set (r_conds rule). c_index c \<le> 5"
    using assms(1) by (simp add: resolved_ok_def)
  have g: "blocks_inv g" "list_all2 (names_block g) (res_rules r) ts" "g_default g = g_default g0"
      "\<exists>more. g_blocks g = [[]] @ more"
    using gen_targets_ok[OF g0(1) e1 conds] b0(2) by auto
  show "blocks_ready g" using g(1,4) by (auto simp: blocks_ready_def blocks_inv_def)
  show dflt: "g_default g = res_default r" using g(3) g0(2) by simp
  show "p_items (g_p g) = []" using g(1) by (simp add: blocks_inv_def)
  have keys: "map fst ts = map fst (res_rules r)"
    using g(2) by (induction rule: list_all2_induct) (auto simp: names_block_def)
  have "targets_ok ts"
    using assms(1) unfolding resolved_ok_def targets_ok_keys keys by blast
  moreover have "\<forall>(nr, b)\<in>set ts. nr \<le> highest_nr r"
  proof -
    have "\<forall>nr\<in>fst ` set (res_rules r). nr \<le> highest_nr r"
      using assms(1) by (auto simp: resolved_ok_def highest_nr_def split: option.split)
    moreover have "fst ` set ts = fst ` set (res_rules r)" using keys by (metis list.set_map)
    ultimately show ?thesis by force
  qed
  ultimately have runs: "covers 0 rs (unat (highest_nr r) + 1)" "runs_map (block_of ts b0) rs"
    unfolding rs by (rule dispatch_runs_ok)+
  have range: "block_of ts b0 n < length (g_blocks g)" for n
    using names_block_range[OF g(2)] g(4) b0(1) by auto
  have "verdict d (res_default r) (g_blocks g ! block_of ts b0 (unat nr)) = verdict d (res_default r)
         (case map_of (res_rules r) nr of None \<Rightarrow> [] | Some rules \<Rightarrow> rules)" for nr d
    using names_block_lookup[OF g(2), where nr = nr and dflt = b0] g(4) b0(1) dflt
    by (auto simp: simplify_sound split: option.splits)
  then show "\<exists>f. covers 0 rs (unat (highest_nr r) + 1) \<and> runs_map f rs \<and> (\<forall>n. f n < length (g_blocks g)) \<and>
      (\<forall>nr d. verdict d (res_default r) (g_blocks g ! f (unat nr)) = verdict d (res_default r)
         (case map_of (res_rules r) nr of None \<Rightarrow> [] | Some rules \<Rightarrow> rules))"
    using runs range by blast
qed

lemma header_passes: "header_verdict e d = None \<Longrightarrow>
    unat (sd_nr d) < unat (case e of None \<Rightarrow> - 1 | Some h \<Rightarrow> h) + 1"
  using word_le_nat_alt[of "sd_nr d"] word_n1_ge[of "sd_nr d"]
  by (auto simp: header_verdict_def less_Suc_eq_le not_less split: if_splits option.splits)

lemma covers_runs:
  "covers a rs b \<Longrightarrow> runs_map f rs \<Longrightarrow> \<forall>q\<in>set rs. \<exists>n. run_block q = f n"
  by (induction rs arbitrary: a) (auto simp: runs_map_def)

text \<open>After the header the dispatch reaches the block of the number, in a tree or by one jump.\<close>

lemma dispatch_ok:
  assumes "blocks_ready g" and "rs \<noteq> []" and "covers 0 rs b" and "runs_map f rs"
    and "\<forall>n. f n < length (g_blocks g)" and "\<forall>r\<in>set rs. run_block r < length (g_blocks g)"
    and "gen_entry rs g = (l, g1)" and "gen_tree rs l g1 = (depth, g2)"
  shows "\<exists>new. grows {} (set (g_labels g)) g new (if length rs = 1 then emit (p_ja l) g2 else g2) \<and>
    (\<forall>d rest s. unat (m_a s) < b \<longrightarrow>
       isem d (new @ rest) s = isem d (after (g_labels g ! f (unat (m_a s))) rest) s)"
proof -
  have lab: "\<forall>x\<in>set (g_labels g). x < p_labels (g_p g)" "length (g_labels g) = length (g_blocks g)"
    using assms(1) by (auto simp: blocks_ready_def)
  have "entry_ok rs l g1" and same: "same_blocks g g1" and items: "p_items (g_p g1) = p_items (g_p g)"
    and up: "p_labels (g_p g) \<le> p_labels (g_p g1)"
    and l: "if length rs = 1 then l = g_labels g ! run_block (rs ! 0) \<and> g1 = g
            else p_labels (g_p g) = l \<and> p_labels (g_p g1) = l + 1"
    using gen_entry_ok[OF assms(2,7)] lab assms(6) by auto
  then obtain xs where xs: "grows (own_label rs l) ((!) (g_labels g) ` run_block ` set rs) g1 xs g2"
      "length rs \<noteq> 1 \<longrightarrow> (\<exists>ys. xs = ILabel l # ys)" "dispatches (\<lambda>n. g_labels g ! f n) 0 b l xs"
    using gen_tree_ok[OF assms(2) _ assms(3,4), of l g1] same assms(8) unfolding same_blocks_def by auto
  have E: "(!) (g_labels g) ` run_block ` set rs \<subseteq> set (g_labels g)" using assms(6) lab(2) by auto
  have own: "grows (own_label rs l) (set (g_labels g)) g xs g2"
    using xs(1) same items up frag_mono[OF _ E, of xs] by (auto simp: grows_def same_blocks_def)
  have tree: "grows {} (set (g_labels g)) g xs g2"
  proof (rule grows_absorb[where Q = "own_label rs l"])
    show "grows ({} \<union> own_label rs l) (set (g_labels g)) g xs g2" using own by simp
    show "own_label rs l \<subseteq> {p_labels (g_p g)..<p_labels (g_p g2)}"
      using l xs(1) by (auto simp: grows_def)
  qed
  have sem: "isem d (after l (xs @ rest)) s = isem d (after (g_labels g ! f (unat (m_a s))) rest) s"
    if "unat (m_a s) < b" for d rest s
    using xs(3)[unfolded dispatches_def, rule_format, of s "[]" d rest] that by simp
  show ?thesis
  proof (cases "length rs = 1")
    case True
    then have "xs = []" "l \<in> set (g_labels g)"
      using xs(1) l assms(2,6,8) lab(2) by (auto simp: grows_def gen_tree.simps[of rs])
    then have "grows {} (set (g_labels g)) g [IJa l] (emit (p_ja l) g2)"
      using tree by (auto simp: grows_def same_blocks_def)
    moreover have "isem d ([IJa l] @ rest) s = isem d (after l (xs @ rest)) s" for d rest s
      using \<open>xs = []\<close> by simp
    ultimately show ?thesis using True sem by (intro exI[of _ "[IJa l]"]) simp
  next
    case False
    then obtain ys where ys: "xs = ILabel l # ys"
      using xs(2) by blast
    then have "isem d (xs @ rest) s = isem d (after l (xs @ rest)) s" for d rest s by simp
    then show ?thesis using False tree sem by (intro exI[of _ xs]) simp
  qed
qed

lemma generate_ok:
  assumes "resolved_ok r" and "plan r = (rs, g)" and "generate r rs g = (depth, g')"
  shows "rs \<noteq> []" and "items_ok (p_labels (g_p g')) (p_items (g_p g'))"
    and "\<forall>i\<in>set (p_items (g_p g')). item_simple i" and "\<exists>xs act. p_items (g_p g') = xs @ [i_ret act]"
    and "isem d (p_items (g_p g')) s = Some (resolved_verdict r d)"
proof -
  note plan = plan_ok[OF assms(1,2)]
  obtain f where f: "covers 0 rs (unat (highest_nr r) + 1)" "runs_map f rs" "\<forall>n. f n < length (g_blocks g)"
    and rules: "\<And>nr d. verdict d (res_default r) (g_blocks g ! f (unat nr)) = verdict d (res_default r)
         (case map_of (res_rules r) nr of None \<Rightarrow> [] | Some rules \<Rightarrow> rules)"
    using plan(4) by blast
  show ne: "rs \<noteq> []" using f(1) by auto
  define g1 where "g1 = gen_header (res_enosys_above r) g"
  obtain xs where xs: "grows {} {} g xs g1"
    and header: "\<And>d rest s. isem d (xs @ rest) s = (case header_verdict (res_enosys_above r) d of
           Some v \<Rightarrow> Some v | None \<Rightarrow> isem d rest (s\<lparr>m_a := sd_nr d\<rparr>))"
    using gen_header_ok[of g "res_enosys_above r"] unfolding g1_def by blast
  have same1: "same_blocks g g1" using xs by (simp add: grows_def)
  have ready1: "blocks_ready g1" by (rule blocks_ready_later[OF plan(1) same1]) (use xs in \<open>simp add: grows_def\<close>)
  have b1: "g_blocks g1 = g_blocks g" "g_labels g1 = g_labels g" "g_default g1 = res_default r"
    using same1 plan(2) by (auto simp: same_blocks_def)
  obtain l g2 where e2: "gen_entry rs g1 = (l, g2)" by (cases "gen_entry rs g1")
  obtain g3 where e3: "gen_tree rs l g2 = (depth, g3)"
      and g': "g' = gen_blocks (if length rs = 1 then emit (p_ja l) g3 else g3)"
    using assms(3) e2 by (auto simp: generate_def g1_def Let_def split: prod.splits)
  define g4 where "g4 = (if length rs = 1 then emit (p_ja l) g3 else g3)"
  have "\<forall>q\<in>set rs. run_block q < length (g_blocks g)"
    using covers_runs[OF f(1,2)] f(3) by metis
  then obtain ys where ys: "grows {} (set (g_labels g)) g1 ys g4"
    and dispatch: "\<And>d rest s. unat (m_a s) < unat (highest_nr r) + 1 \<Longrightarrow>
       isem d (ys @ rest) s = isem d (after (g_labels g ! f (unat (m_a s))) rest) s"
    using dispatch_ok[OF ready1 ne f(1,2) _ _ e2 e3] f(3) unfolding g4_def b1 by blast
  have same4: "same_blocks g1 g4" using ys by (simp add: grows_def)
  have b4: "g_blocks g4 = g_blocks g" "g_labels g4 = g_labels g" "g_default g4 = res_default r"
    using same4 b1 by (auto simp: same_blocks_def)
  have "blocks_ready g4" by (rule blocks_ready_later[OF ready1 same4]) (use ys in \<open>simp add: grows_def\<close>)
  then obtain zs where zs: "grows (set (g_labels g)) {} g4 zs g'" "set (g_labels g) \<subseteq> placed zs"
      "\<exists>xs act. zs = xs @ [i_ret act]"
    and blocks: "\<And>i d s. i < length (g_blocks g) \<Longrightarrow>
        isem d (after (g_labels g ! i) zs) s = Some (verdict d (res_default r) (g_blocks g ! i))"
    using gen_blocks_ok[of g4] unfolding g' g4_def[symmetric] b4 by blast
  have "grows ({} \<union> set (g_labels g)) {} g1 (ys @ zs) g'"
    by (rule grows_trans[OF ys zs(1)]) (use zs(2) in auto)
  from grows_trans[OF xs this]
  have all: "grows (set (g_labels g)) {} g (xs @ ys @ zs) g'" by auto
  then have items: "p_items (g_p g') = xs @ ys @ zs" using plan(3) by (simp add: grows_def)
  show simple: "\<forall>i\<in>set (p_items (g_p g')). item_simple i" using all items by (simp add: grows_def)
  show "\<exists>xs act. p_items (g_p g') = xs @ [i_ret act]" using zs(3) items by auto
  then obtain ws act where ws: "p_items (g_p g') = ws @ [i_ret act]" by blast
  have "\<forall>x\<in>placed (p_items (g_p g')). x < p_labels (g_p g')"
    using all plan(1) unfolding items by (fastforce simp: grows_def blocks_ready_def)
  moreover have "frag {} (ws @ [i_ret act])" using all items ws by (simp add: grows_def)
  ultimately show "items_ok (p_labels (g_p g')) (p_items (g_p g'))"
    using simple unfolding ws by (intro frag_items_ok) auto
  show "isem d (p_items (g_p g')) s = Some (resolved_verdict r d)"
  proof (cases "header_verdict (res_enosys_above r) d")
    case None
    then show ?thesis
      using header_passes[OF None] dispatch[of "s\<lparr>m_a := sd_nr d\<rparr>" d zs] blocks f(3) rules[of d "sd_nr d"]
      by (simp add: items header resolved_verdict_def highest_nr_def)
  qed (simp add: items header resolved_verdict_def)
qed

section \<open>What a profile means\<close>

fun ret_of :: "LinuxSeccompAction \<Rightarrow> u32 option \<Rightarrow> u32" where
  "ret_of ScmpActKill e = RET_KILL_THREAD"
| "ret_of ScmpActKillThread e = RET_KILL_THREAD"
| "ret_of ScmpActKillProcess e = RET_KILL_PROCESS"
| "ret_of ScmpActTrap e = RET_TRAP"
| "ret_of ScmpActErrno e = RET_ERRNO OR (case e of None \<Rightarrow> EPERM | Some v \<Rightarrow> v)"
| "ret_of ScmpActTrace e = RET_TRACE OR (case e of None \<Rightarrow> EPERM | Some v \<Rightarrow> v)"
| "ret_of ScmpActLog e = RET_LOG"
| "ret_of ScmpActAllow e = RET_ALLOW"
| "ret_of ScmpActNotify e = RET_USER_NOTIF"

definition arg_holds :: "SeccompData \<Rightarrow> LinuxSeccompArg \<Rightarrow> bool" where
  "arg_holds d a = cmp_holds (cmp_of (arg_op a)) (sd_args d (arg_index a)) (arg_value a)
     (case arg_value_two a of None \<Rightarrow> 0 | Some v \<Rightarrow> v)"

definition entry_matches :: "(string \<Rightarrow> u32 option) \<Rightarrow> SeccompData \<Rightarrow> LinuxSyscall \<Rightarrow> bool" where
  "entry_matches number d e \<longleftrightarrow>
     list_ex (\<lambda>name. number name = Some (sd_nr d)) (sc_names e) \<and>
     list_all (arg_holds d) (or_empty (sc_args e))"

definition entries_verdict ::
    "(string \<Rightarrow> u32 option) \<Rightarrow> SeccompData \<Rightarrow> u32 \<Rightarrow> LinuxSyscall list \<Rightarrow> u32" where
  "entries_verdict number d dflt entries =
     (case find (entry_matches number d) entries of
        Some e \<Rightarrow> ret_of (sc_action e) (sc_errno_ret e) | None \<Rightarrow> dflt)"

definition named :: "(string \<Rightarrow> u32 option) \<Rightarrow> LinuxSyscall list \<Rightarrow> u32 list" where
  "named number entries = List.map_filter number (concat (map sc_names entries))"

definition top_of :: "u32 list \<Rightarrow> u32 option" where
  "top_of nrs = (if nrs = [] then None else Some (Max (set nrs)))"

definition profile_verdict :: "(string \<Rightarrow> u32 option) \<Rightarrow> LinuxSeccomp \<Rightarrow> SeccompData \<Rightarrow> u32" where
  "profile_verdict number spec d =
     (let dflt = ret_of (ls_default_action spec) (ls_default_errno_ret spec);
          entries = or_empty (ls_syscalls spec)
      in case header_verdict (if stub_wanted dflt then top_of (named number entries) else None) d of
           Some v \<Rightarrow> v
         | None \<Rightarrow> entries_verdict number d dflt entries)"

section \<open>Pass 1 keeps the meaning\<close>

definition rules_of :: "(u32 \<times> 'r list) list \<Rightarrow> u32 \<Rightarrow> 'r list" where
  "rules_of m nr = (case map_of m nr of None \<Rightarrow> [] | Some rs \<Rightarrow> rs)"

lemma entry_push_keys: "fst ` set (entry_push nr rule m) = insert nr (fst ` set m)"
  by (induction nr rule m rule: entry_push.induct) auto

lemma entry_push_sorted:
  "sorted_wrt (<) (map fst m) \<Longrightarrow> sorted_wrt (<) (map fst (entry_push nr rule m))"
proof (induction nr rule m rule: entry_push.induct)
  case (2 nr rule n rs m)
  have "fst ` set (entry_push nr rule m) = insert nr (fst ` set m)" by (rule entry_push_keys)
  then have "\<forall>x\<in>set (map fst (entry_push nr rule m)). n < x" if "n < nr"
    using 2(2) that by auto
  then show ?case using 2 by (auto simp: not_less_iff_gr_or_eq)
qed simp

lemma rules_of_push:
  "sorted_wrt (<) (map fst m) \<Longrightarrow>
   rules_of (entry_push nr rule m) n = (if n = nr then rules_of m n @ [rule] else rules_of m n)"
proof (induction nr rule m rule: entry_push.induct)
  case (2 nr rule x rs m)
  have "map_of m nr = None" if "nr < x"
    using 2(2) that by (auto simp: map_of_eq_None_iff)
  then show ?case using 2 by (auto simp: rules_of_def)
qed (simp add: rules_of_def)

definition idx_ok :: "(u32 \<times> Rule list) list \<Rightarrow> bool" where
  "idx_ok m \<longleftrightarrow> (\<forall>(nr, rules)\<in>set m. \<forall>rule\<in>set rules. \<forall>c\<in>set (r_conds rule). c_index c \<le> 5)"

lemma entry_push_idx:
  "idx_ok m \<Longrightarrow> \<forall>c\<in>set (r_conds rule). c_index c \<le> 5 \<Longrightarrow> idx_ok (entry_push nr rule m)"
  by (induction nr rule m rule: entry_push.induct) (auto simp: idx_ok_def)

text \<open>The loop has seen the numbers \<open>seen\<close>.\<close>

definition gathered :: "u32 list \<Rightarrow> Gathered \<Rightarrow> bool" where
  "gathered seen ga \<longleftrightarrow>
     sorted_wrt (<) (map fst (ga_rules ga)) \<and> fst ` set (ga_rules ga) = set seen \<and>
     ga_highest ga = top_of seen \<and> idx_ok (ga_rules ga)"

lemma top_of_snoc: "top_of (seen @ [nr]) = Some (case top_of seen of None \<Rightarrow> nr | Some h \<Rightarrow> max h nr)"
  by (simp add: top_of_def max.commute)

lemma gather_names_ok:
  assumes "gathered seen ga" and "\<forall>c\<in>set (r_conds rule). c_index c \<le> 5"
  shows "gathered (seen @ List.map_filter number names) (gather_names number rule names ga)"
    and "rules_of (ga_rules (gather_names number rule names ga)) nr =
      rules_of (ga_rules ga) nr @ map (\<lambda>_. rule) (filter (\<lambda>name. number name = Some nr) names)"
proof -
  have "gathered (seen @ List.map_filter number names) (gather_names number rule names ga) \<and>
    rules_of (ga_rules (gather_names number rule names ga)) nr =
      rules_of (ga_rules ga) nr @ map (\<lambda>_. rule) (filter (\<lambda>name. number name = Some nr) names)"
    using assms
  proof (induction names arbitrary: ga seen)
    case (Cons name names)
    show ?case
    proof (cases "number name")
      case None
      define ga1 where "ga1 = (if name \<notin> set (ga_skipped ga) then ga\<lparr>ga_skipped := ga_skipped ga @ [name]\<rparr> else ga)"
      have "gathered seen ga1" "ga_rules ga1 = ga_rules ga" using Cons.prems(1) by (auto simp: ga1_def gathered_def)
      then show ?thesis using Cons.IH[of seen ga1] Cons.prems(2) None by (simp add: ga1_def map_filter_simps)
    next
      case (Some n)
      define ga1 where "ga1 = ga\<lparr>ga_rules := entry_push n rule (ga_rules ga),
          ga_highest := Some (case ga_highest ga of None \<Rightarrow> n | Some h \<Rightarrow> max h n)\<rparr>"
      have "gathered (seen @ [n]) ga1"
        using Cons.prems entry_push_keys[of n rule "ga_rules ga"]
        by (auto simp: gathered_def ga1_def top_of_snoc entry_push_sorted entry_push_idx)
      moreover have "rules_of (ga_rules ga1) nr = (if nr = n then rules_of (ga_rules ga) nr @ [rule] else rules_of (ga_rules ga) nr)"
        using Cons.prems(1) by (simp add: ga1_def gathered_def rules_of_push)
      ultimately show ?thesis
        using Cons.IH[of "seen @ [n]" ga1] Cons.prems(2) Some by (simp add: ga1_def map_filter_simps)
    qed
  qed (simp add: map_filter_simps)
  then show "gathered (seen @ List.map_filter number names) (gather_names number rule names ga)"
    and "rules_of (ga_rules (gather_names number rule names ga)) nr =
      rules_of (ga_rules ga) nr @ map (\<lambda>_. rule) (filter (\<lambda>name. number name = Some nr) names)" by auto
qed

lemma seccomp_action_ret: "seccomp_action act e field u = Inr (v, u') \<Longrightarrow> v = ret_of act e \<and> (\<exists>more. u' = u @ more)"
  by (cases act) (auto simp: errno_data_def Let_def split: if_splits)

lemma seccomp_cond_holds:
  "seccomp_cond a field = Inr c \<Longrightarrow> c_index c \<le> 5 \<and> cond_holds d c = arg_holds d a"
proof -
  assume c: "seccomp_cond a field = Inr c"
  then have i: "arg_index a \<le> 5" and index: "c_index c = of_nat (arg_index a)"
    by (auto simp: seccomp_cond_def split: if_splits)
  then have "unat (c_index c) = arg_index a" by (simp add: unat_of_nat)
  moreover have "c_index c \<le> 5" using i index by (simp add: word_le_nat_alt unat_of_nat)
  ultimately show ?thesis
    using c by (auto simp: seccomp_cond_def cond_holds_def arg_holds_def arg_of_def split: if_splits)
qed

lemma conds_hold:
  "list_all2 (\<lambda>a c. seccomp_cond a field = Inr c) as cs \<Longrightarrow>
   (\<forall>c\<in>set cs. c_index c \<le> 5) \<and> list_all (cond_holds d) cs = list_all (arg_holds d) as"
  by (induction rule: list_all2_induct) (auto dest: seccomp_cond_holds)

lemma gather_step:
  assumes "gather number i (e # es) ga u = Inr (ga', u')"
  obtains conds u1 where
    "list_all2 (\<lambda>a c. seccomp_cond a (F_syscalls i) = Inr c) (or_empty (sc_args e)) conds"
    "seccomp_action (sc_action e) (sc_errno_ret e) (F_syscalls i) u = Inr (ret_of (sc_action e) (sc_errno_ret e), u1)"
    "gather number (Suc i) es (gather_names number
        \<lparr>r_conds = conds, r_action = ret_of (sc_action e) (sc_errno_ret e)\<rparr> (sc_names e) ga) u1 = Inr (ga', u')"
proof -
  obtain v u1 where act: "seccomp_action (sc_action e) (sc_errno_ret e) (F_syscalls i) u = Inr (v, u1)"
    using assms by (cases "seccomp_action (sc_action e) (sc_errno_ret e) (F_syscalls i) u") auto
  obtain conds where conds: "collect_results (\<lambda>a. seccomp_cond a (F_syscalls i)) (or_empty (sc_args e)) = Inr conds"
    using assms act by (cases "collect_results (\<lambda>a. seccomp_cond a (F_syscalls i)) (or_empty (sc_args e))") auto
  show ?thesis
    using that[OF conds[unfolded collect_results_Inr_iff]] assms act conds seccomp_action_ret[OF act] by simp
qed

lemma named_Cons: "named number (e # es) = List.map_filter number (sc_names e) @ named number es"
  by (simp add: named_def map_filter_def)

lemma entries_verdict_Cons:
  "entries_verdict number d dflt (e # es) =
     (if entry_matches number d e then ret_of (sc_action e) (sc_errno_ret e) else entries_verdict number d dflt es)"
  by (simp add: entries_verdict_def)

lemma verdict_same: "verdict d dflt (map (\<lambda>_. rule) xs @ rs) =
    (if xs \<noteq> [] \<and> rule_matches d rule then r_action rule else verdict d dflt rs)"
  by (induction xs) (auto simp: verdict_Cons)

lemma gather_ok:
  assumes "gather number i es ga u = Inr (ga', u')" and "gathered seen ga"
  shows "gathered (seen @ named number es) ga' \<and>
    (\<forall>nr. \<exists>new. rules_of (ga_rules ga') nr = rules_of (ga_rules ga) nr @ new \<and>
      (\<forall>d dflt. sd_nr d = nr \<longrightarrow> verdict d dflt new = entries_verdict number d dflt es))"
  using assms
proof (induction es arbitrary: i ga u seen)
  case Nil
  then show ?case by (simp add: named_def map_filter_simps entries_verdict_def)
next
  case (Cons e es)
  obtain conds u1 where conds: "list_all2 (\<lambda>a c. seccomp_cond a (F_syscalls i) = Inr c) (or_empty (sc_args e)) conds"
    and rest: "gather number (Suc i) es (gather_names number
        \<lparr>r_conds = conds, r_action = ret_of (sc_action e) (sc_errno_ret e)\<rparr> (sc_names e) ga) u1 = Inr (ga', u')"
    using Cons.prems(1) by (rule gather_step)
  define rule where "rule = \<lparr>r_conds = conds, r_action = ret_of (sc_action e) (sc_errno_ret e)\<rparr>"
  define ga1 where "ga1 = gather_names number rule (sc_names e) ga"
  have idx: "\<forall>c\<in>set (r_conds rule). c_index c \<le> 5" using conds_hold[OF conds] by (simp add: rule_def)
  note names = gather_names_ok[OF Cons.prems(2) idx, of number "sc_names e", folded ga1_def]
  have IH: "gathered ((seen @ List.map_filter number (sc_names e)) @ named number es) ga'"
      "\<And>nr. \<exists>new. rules_of (ga_rules ga') nr = rules_of (ga_rules ga1) nr @ new \<and>
        (\<forall>d dflt. sd_nr d = nr \<longrightarrow> verdict d dflt new = entries_verdict number d dflt es)"
    using Cons.IH[OF rest[folded rule_def, folded ga1_def] names(1)] by auto
  have "\<exists>new. rules_of (ga_rules ga') nr = rules_of (ga_rules ga) nr @ new \<and>
      (\<forall>d dflt. sd_nr d = nr \<longrightarrow> verdict d dflt new = entries_verdict number d dflt (e # es))" for nr
  proof -
    let ?own = "map (\<lambda>_. rule) (filter (\<lambda>name. number name = Some nr) (sc_names e))"
    obtain new where new: "rules_of (ga_rules ga') nr = rules_of (ga_rules ga1) nr @ new"
        "\<And>d dflt. sd_nr d = nr \<Longrightarrow> verdict d dflt new = entries_verdict number d dflt es"
      using IH(2)[of nr] by blast
    have "verdict d dflt (?own @ new) = entries_verdict number d dflt (e # es)" if "sd_nr d = nr" for d dflt
    proof -
      have "rule_matches d rule = list_all (arg_holds d) (or_empty (sc_args e))"
        using conds_hold[OF conds, of d] by (simp add: rule_matches_def rule_def)
      moreover have "filter (\<lambda>name. number name = Some nr) (sc_names e) \<noteq> [] \<longleftrightarrow>
          list_ex (\<lambda>name. number name = Some (sd_nr d)) (sc_names e)"
        using that by (auto simp: filter_empty_conv list_ex_iff)
      ultimately show ?thesis
        using new(2)[OF that] by (simp add: verdict_same entries_verdict_Cons entry_matches_def rule_def)
    qed
    then show ?thesis using new(1) names(2) by (intro exI[of _ "?own @ new"]) simp
  qed
  then show ?case using IH(1) by (simp add: named_Cons)
qed

text \<open>No syscall has the largest number (it is the kernel's \<open>-1\<close>, no syscall at all).\<close>

definition numbers_ok :: "(string \<Rightarrow> u32 option) \<Rightarrow> bool" where
  "numbers_ok number \<longleftrightarrow> (\<forall>name. number name \<noteq> Some (- 1))"

lemma resolve_step:
  assumes "resolve number spec = Inr r"
  obtains ga u where
    "gather number 0 (or_empty (ls_syscalls spec)) \<lparr>ga_rules = [], ga_skipped = [], ga_highest = None\<rparr> u = Inr (ga, [])"
    "res_default r = ret_of (ls_default_action spec) (ls_default_errno_ret spec)"
    "res_rules r = ga_rules ga"
    "res_enosys_above r = (if stub_wanted (res_default r) then ga_highest ga else None)"
  using assms seccomp_action_ret
  by (fastforce simp: resolve_def Let_def bind_result_Inr_iff split_beta split: if_splits)

lemma resolve_ok:
  assumes "resolve number spec = Inr r" and "numbers_ok number"
  shows "resolved_ok r" and "resolved_verdict r d = profile_verdict number spec d"
proof -
  let ?es = "or_empty (ls_syscalls spec)"
  obtain ga u where ga: "gather number 0 ?es \<lparr>ga_rules = [], ga_skipped = [], ga_highest = None\<rparr> u = Inr (ga, [])"
    and r: "res_default r = ret_of (ls_default_action spec) (ls_default_errno_ret spec)"
      "res_rules r = ga_rules ga" "res_enosys_above r = (if stub_wanted (res_default r) then ga_highest ga else None)"
    using assms(1) by (rule resolve_step)
  have "gathered [] \<lparr>ga_rules = [], ga_skipped = [], ga_highest = None\<rparr>"
    by (simp add: gathered_def top_of_def idx_ok_def)
  note all = gather_ok[OF ga this]
  have G: "gathered (named number ?es) ga" using all by simp
  obtain new where new: "rules_of (ga_rules ga) (sd_nr d) = new"
      "\<And>dflt. verdict d dflt new = entries_verdict number d dflt ?es"
    using all by (auto simp: rules_of_def)
  have nums: "nr < - 1" if "nr \<in> set (named number ?es)" for nr
  proof -
    have "nr \<noteq> - 1" using that assms(2) by (auto simp: named_def map_filter_def numbers_ok_def)
    then show ?thesis using word_n1_ge[of nr] by (simp add: order_less_le)
  qed
  have "\<forall>nr\<in>set (map fst (ga_rules ga)). nr < - 1" using nums G by (simp add: gathered_def)
  then have "targets_ok (ga_rules ga)" using G unfolding targets_ok_keys gathered_def by blast
  moreover have "\<forall>(nr, rules)\<in>set (ga_rules ga). nr \<le> h" if "top_of (named number ?es) = Some h" for h
  proof -
    have "\<forall>nr\<in>fst ` set (ga_rules ga). nr \<le> h"
      using that G by (auto simp: gathered_def top_of_def split: if_splits)
    then show ?thesis by auto
  qed
  ultimately show "resolved_ok r"
    using G r by (auto simp: resolved_ok_def gathered_def idx_ok_def split: if_splits)
  have "verdict d (res_default r) (case map_of (res_rules r) (sd_nr d) of None \<Rightarrow> [] | Some rules \<Rightarrow> rules) =
      entries_verdict number d (res_default r) ?es"
    using new r(2) by (simp add: rules_of_def)
  moreover have "ga_highest ga = top_of (named number ?es)" using G by (simp add: gathered_def)
  ultimately show "resolved_verdict r d = profile_verdict number spec d"
    unfolding resolved_verdict_def profile_verdict_def Let_def r(1)[symmetric] using r(3)
    by (simp cong: option.case_cong)
qed

section \<open>Which profiles are accepted\<close>

definition action_ok :: "LinuxSeccompAction \<Rightarrow> u32 option \<Rightarrow> bool" where
  "action_ok act e \<longleftrightarrow>
     (act = ScmpActErrno \<or> act = ScmpActTrace \<longrightarrow> (case e of None \<Rightarrow> EPERM | Some v \<Rightarrow> v) \<le> MAX_ERRNO)"

definition entry_ok_spec :: "LinuxSyscall \<Rightarrow> bool" where
  "entry_ok_spec e \<longleftrightarrow>
     action_ok (sc_action e) (sc_errno_ret e) \<and> (\<forall>a\<in>set (or_empty (sc_args e)). arg_index a \<le> 5)"

definition profile_ok :: "LinuxSeccomp \<Rightarrow> bool" where
  "profile_ok spec \<longleftrightarrow>
     (let archs = or_empty (ls_architectures spec); entries = or_empty (ls_syscalls spec)
      in (archs = [] \<or> ScmpArchNative \<in> set archs \<or> ScmpArchX86_64 \<in> set archs) \<and>
         ls_listener_path spec = None \<and>
         SeccompFilterFlagWaitKillableRecv \<notin> set (or_empty (ls_flags spec)) \<and>
         ls_default_action spec \<noteq> ScmpActNotify \<and>
         action_ok (ls_default_action spec) (ls_default_errno_ret spec) \<and>
         (\<forall>e\<in>set entries. sc_action e \<noteq> ScmpActNotify \<and> entry_ok_spec e))"

lemma seccomp_action_cases:
  "if action_ok act e
   then seccomp_action act e field u = Inr (ret_of act e, u @ (if act = ScmpActNotify then [field] else []))
   else \<exists>v. seccomp_action act e field u = Inl (ErrnoTooLarge field v)"
  by (cases act) (auto simp: action_ok_def errno_data_def Let_def split: option.splits)

lemma collect_conds_ok:
  "(\<forall>a\<in>set as. arg_index a \<le> 5) \<Longrightarrow> \<exists>cs. collect_results (\<lambda>a. seccomp_cond a field) as = Inr cs"
  by (induction as) (auto simp: seccomp_cond_def split: sum.split)

lemma collect_conds_bad:
  "\<not> (\<forall>a\<in>set as. arg_index a \<le> 5) \<Longrightarrow>
   \<exists>i. collect_results (\<lambda>a. seccomp_cond a field) as = Inl (NoSuchArgument field i)"
proof (induction as)
  case (Cons a as)
  show ?case
  proof (cases "arg_index a \<le> 5")
    case True
    then obtain i where "collect_results (\<lambda>a. seccomp_cond a field) as = Inl (NoSuchArgument field i)"
      using Cons by auto
    then show ?thesis by (cases "seccomp_cond a field") (auto simp: seccomp_cond_def split: if_splits)
  qed (simp add: seccomp_cond_def)
qed simp

lemma gather_cases:
  "if \<forall>e\<in>set es. entry_ok_spec e
   then \<exists>ga' u'. gather number i es ga u = Inr (ga', u') \<and>
          (u' = [] \<longleftrightarrow> u = [] \<and> (\<forall>e\<in>set es. sc_action e \<noteq> ScmpActNotify))
   else \<exists>err. gather number i es ga u = Inl err \<and> err \<noteq> CompilerPanicked"
proof (induction es arbitrary: i ga u)
  case (Cons e es)
  note act = seccomp_action_cases[of "sc_action e" "sc_errno_ret e" "F_syscalls i" u]
  show ?case
  proof (cases "entry_ok_spec e")
    case True
    then obtain conds where conds: "collect_results (\<lambda>a. seccomp_cond a (F_syscalls i)) (or_empty (sc_args e)) = Inr conds"
      using collect_conds_ok[of "or_empty (sc_args e)" "F_syscalls i"] by (auto simp: entry_ok_spec_def)
    have ok: "action_ok (sc_action e) (sc_errno_ret e)" using True by (simp add: entry_ok_spec_def)
    show ?thesis
      using Cons.IH[of "i + 1" "gather_names number \<lparr>r_conds = conds, r_action = ret_of (sc_action e) (sc_errno_ret e)\<rparr> (sc_names e) ga"
          "u @ (if sc_action e = ScmpActNotify then [F_syscalls i] else [])"] act ok conds True
      by (auto split: if_splits)
  next
    case False
    then consider "\<not> action_ok (sc_action e) (sc_errno_ret e)"
      | "action_ok (sc_action e) (sc_errno_ret e)" "\<not> (\<forall>a\<in>set (or_empty (sc_args e)). arg_index a \<le> 5)"
      by (auto simp: entry_ok_spec_def)
    then show ?thesis
    proof cases
      case 1
      then show ?thesis using act False by auto
    next
      case 2
      then show ?thesis using act collect_conds_bad[OF 2(2), of "F_syscalls i"] False by auto
    qed
  qed
qed simp

lemma filter_flags_unsupported:
  "snd (filter_flags fs u) = [] \<longleftrightarrow> u = [] \<and> SeccompFilterFlagWaitKillableRecv \<notin> set fs"
proof -
  have "snd (foldl (\<lambda>(bits, u) f. (bits OR fst (filter_flag f), u @ snd (filter_flag f))) (b, u) fs) = [] \<longleftrightarrow>
      u = [] \<and> SeccompFilterFlagWaitKillableRecv \<notin> set fs" for b
  proof (induction fs arbitrary: b u)
    case (Cons f fs)
    then show ?case by (cases f) auto
  qed simp
  then show ?thesis by (simp add: filter_flags_def)
qed

lemma resolve_cases:
  "if profile_ok spec then \<exists>r. resolve number spec = Inr r
   else \<exists>err. resolve number spec = Inl err \<and> err \<noteq> CompilerPanicked"
proof -
  let ?es = "or_empty (ls_syscalls spec)" and ?u = "if ls_listener_path spec \<noteq> None then [F_listenerPath] else []"
  let ?ga = "\<lparr>ga_rules = [], ga_skipped = [], ga_highest = None\<rparr>"
  obtain flags u1 where ff: "filter_flags (or_empty (ls_flags spec)) ?u = (flags, u1)"
    by (cases "filter_flags (or_empty (ls_flags spec)) ?u")
  have u1: "u1 = [] \<longleftrightarrow> ls_listener_path spec = None \<and> SeccompFilterFlagWaitKillableRecv \<notin> set (or_empty (ls_flags spec))"
    using filter_flags_unsupported[of "or_empty (ls_flags spec)" ?u] ff by auto
  let ?dok = "action_ok (ls_default_action spec) (ls_default_errno_ret spec)"
  let ?u2 = "u1 @ (if ls_default_action spec = ScmpActNotify then [F_default] else [])"
  note act = seccomp_action_cases[of "ls_default_action spec" "ls_default_errno_ret spec" F_default u1]
  note ga = gather_cases[of ?es number 0 ?ga ?u2]
  show ?thesis
  proof (cases "check_architectures (or_empty (ls_architectures spec)) = Inr () \<and> ?dok")
    case False
    then show ?thesis
      using act ff by (auto simp: resolve_def check_architectures_def profile_ok_def Let_def list_ex_iff split: if_splits)
  next
    case True
    then have res: "resolve number spec = bind_result (gather number 0 ?es ?ga ?u2) (\<lambda>(ga, unsupported).
        if unsupported \<noteq> [] then Inl (Unsupported unsupported)
        else Inr \<lparr>res_default = ret_of (ls_default_action spec) (ls_default_errno_ret spec), res_flags = flags,
          res_rules = ga_rules ga,
          res_enosys_above = (if stub_wanted (ret_of (ls_default_action spec) (ls_default_errno_ret spec)) then ga_highest ga else None),
          res_skipped = ga_skipped ga\<rparr>)"
      using act ff by (simp add: resolve_def Let_def)
    have arch: "or_empty (ls_architectures spec) = [] \<or> ScmpArchNative \<in> set (or_empty (ls_architectures spec))
        \<or> ScmpArchX86_64 \<in> set (or_empty (ls_architectures spec))"
      using True by (auto simp: check_architectures_def list_ex_iff split: if_splits)
    show ?thesis
    proof (cases "\<forall>e\<in>set ?es. entry_ok_spec e")
      case entries: True
      then obtain g' u' where g: "gather number 0 ?es ?ga ?u2 = Inr (g', u')"
          "u' = [] \<longleftrightarrow> ?u2 = [] \<and> (\<forall>e\<in>set ?es. sc_action e \<noteq> ScmpActNotify)"
        using ga by auto
      have "profile_ok spec \<longleftrightarrow> u' = []"
        using g(2) arch True entries u1 by (auto simp: profile_ok_def Let_def)
      then show ?thesis using res g(1) by auto
    next
      case False
      then have "\<not> profile_ok spec" by (auto simp: profile_ok_def Let_def)
      then show ?thesis using ga False res by auto
    qed
  qed
qed

section \<open>All three passes and the assembler\<close>

lemma compile_eq:
  assumes "resolve number spec = Inr r" and "plan r = (rs, g)" and "generate r rs g = (depth, g')"
  shows "compile number spec =
     (if rs = [] then Inl CompilerPanicked
      else case assemble (g_p g') of
             None \<Rightarrow> Inl CompilerPanicked
           | Some asm \<Rightarrow>
               if length (a_insns asm) > BPF_MAXINSNS then Inl (FilterTooLarge (length (a_insns asm)))
               else Inr (\<lparr>f_program = a_insns asm, f_flags = res_flags r\<rparr>,
                     \<lparr>st_instructions = length (a_insns asm), st_syscalls = length (res_rules r),
                      st_skipped = res_skipped r, st_default_action = res_default r,
                      st_enosys_above = res_enosys_above r, st_ranges = length rs,
                      st_dispatch_depth = depth, st_blocks = length (g_blocks g'),
                      st_trampolines = a_trampolines asm\<rparr>))"
proof -
  obtain b0 g0 where b: "gen_block [] (Gen_init (res_default r)) = (b0, g0)"
    by (cases "gen_block [] (Gen_init (res_default r))")
  obtain ts where t: "gen_targets (res_rules r) g0 = (ts, g)" and rs: "rs = dispatch_runs ts b0 (highest_nr r)"
    using assms(2) b by (auto simp: plan_def split: prod.splits)
  obtain l g2 where e: "gen_entry rs (gen_header (res_enosys_above r) g) = (l, g2)"
    by (cases "gen_entry rs (gen_header (res_enosys_above r) g)")
  obtain g3 where tr: "gen_tree rs l g2 = (depth, g3)"
      and g': "g' = gen_blocks (if length rs = 1 then emit (p_ja l) g3 else g3)"
    using assms(3) e by (auto simp: generate_def Let_def split: prod.splits)
  show ?thesis
    unfolding compile_def assms(1) bind_result_simps b t prod.case Let_def rs[unfolded highest_nr_def, symmetric] e tr g' ..
qed

lemma compile_ok:
  assumes "compile number spec = Inr (f, st)" and "numbers_ok number"
  shows "check (f_program f) = Inr ()"
    and "run_loop (f_program f, d) Machine_init = Inr (profile_verdict number spec d)"
proof -
  obtain r where r: "resolve number spec = Inr r"
    using assms(1) by (cases "resolve number spec") (auto simp: compile_def)
  obtain rs g where p: "plan r = (rs, g)" by (cases "plan r")
  obtain depth g' where gen: "generate r rs g = (depth, g')" by (cases "generate r rs g")
  note ok = resolve_ok[OF r assms(2)]
  note G = generate_ok[OF ok(1) p gen]
  obtain asm where asm: "assemble (g_p g') = Some asm" "f_program f = a_insns asm"
      "length (a_insns asm) \<le> BPF_MAXINSNS"
    using assms(1) G(1) unfolding compile_eq[OF r p gen] by (auto split: option.splits if_splits)
  obtain xs act where last: "p_items (g_p g') = xs @ [i_ret act]" using G(4) by blast
  note end' = assemble_last[OF asm(1) last]
  show "check (f_program f) = Inr ()"
    unfolding asm(2)
    by (rule code_ok_check[OF assemble_code_ok[OF asm(1) G(3)]]) (use end' asm(3) in \<open>auto simp: decode_ret_k is_ret_def\<close>)
  have "length (a_insns asm) \<le> 2 ^ 32" using asm(3) by (simp add: BPF_MAXINSNS_def)
  then show "run_loop (f_program f, d) Machine_init = Inr (profile_verdict number spec d)"
    using assemble_correct[OF G(2) asm(1)] G(5) ok(2) asm(2) by (simp add: flip: ok_of_Some)
qed

section \<open>A sample profile\<close>

definition sample_number :: "string \<Rightarrow> u32 option" where
  "sample_number name = (if name = ''read'' then Some 0 else None)"

definition sample_profile :: LinuxSeccomp where
  "sample_profile =
     \<lparr>ls_default_action = ScmpActErrno, ls_default_errno_ret = None,
      ls_architectures = Some [ScmpArchX86_64], ls_flags = None, ls_listener_path = None,
      ls_syscalls = Some
        [\<lparr>sc_names = [''read''], sc_action = ScmpActAllow, sc_errno_ret = None, sc_args = None\<rparr>]\<rparr>"

definition sample_call :: "u32 \<Rightarrow> SeccompData" where
  "sample_call nr = SeccompData_x86_64 nr (\<lambda>_. 0)"

definition sample_items :: "Item list" where
  "sample_items =
     [i_ld DATA_ARCH, i_jmp JEq AUDIT_ARCH_X86_64 (L 2) Next, i_ret RET_KILL_PROCESS, ILabel 2,
      i_ld DATA_NR, i_jmp JSet X32_SYSCALL_BIT Next (L 3), i_jmp JEq (- 1) (L 3) Next,
      i_ret RET_KILL_PROCESS, ILabel 3, i_jmp JGt 0 Next (L 4), i_ret (RET_ERRNO OR ENOSYS), ILabel 4,
      IJa 1, ILabel 0, i_ret (RET_ERRNO OR 1), ILabel 1, i_ret RET_ALLOW]"

lemma sample_resolves:
  "\<exists>r. resolve sample_number sample_profile = Inr r \<and>
     res_rules r = [(0, [\<lparr>r_conds = [], r_action = RET_ALLOW\<rparr>])] \<and>
     res_default r = RET_ERRNO OR 1 \<and> res_enosys_above r = Some 0"
  by (simp add: resolve_def sample_profile_def or_empty_def check_architectures_def filter_flags_def
      errno_data_def wire sample_number_def stub_wanted_def Let_def)

lemma sample_plan:
  assumes "res_rules r = [(0, [\<lparr>r_conds = [], r_action = RET_ALLOW\<rparr>])]"
    and "res_default r = RET_ERRNO OR 1" and "res_enosys_above r = Some 0"
  shows "\<exists>g. plan r = ([\<lparr>run_lo = 0, run_hi = 0, run_block = 1\<rparr>], g) \<and>
    g_blocks g = [[], [\<lparr>r_conds = [], r_action = RET_ALLOW\<rparr>]] \<and> g_labels g = [0, 1] \<and>
    p_labels (g_p g) = 2 \<and> p_items (g_p g) = [] \<and> g_default g = res_default r"
  using assms
  by (simp add: plan_def gen_block_def Gen_init_def fresh_def new_label_def simplify_def pop_default_def
      wire dispatch_runs_def push_run_def highest_nr_def Program_default_def)

lemma sample_generate:
  assumes "g_blocks g = [[], [\<lparr>r_conds = [], r_action = RET_ALLOW\<rparr>]]" and "g_labels g = [0, 1]"
    and "p_labels (g_p g) = 2" and "p_items (g_p g) = []" and "g_default g = res_default r"
    and "res_enosys_above r = Some 0" and "res_default r = RET_ERRNO OR 1"
  shows "p_labels (g_p (snd (generate r [\<lparr>run_lo = 0, run_hi = 0, run_block = 1\<rparr>] g))) = 5"
    and "p_items (g_p (snd (generate r [\<lparr>run_lo = 0, run_hi = 0, run_block = 1\<rparr>] g))) = sample_items"
  using assms
  by (simp_all add: generate_def gen_header_def fresh_eq gen_entry_def gen_tree.simps[of "[_]"]
      gen_blocks_def gen_rule_block_def single_ret_def gen_ret_block_def Let_def upt_rec sample_items_def)

lemma sample_assembles:
  assumes "p_items p = sample_items" and "p_labels p = 5"
  shows "\<exists>a. assemble p = Some a \<and> length (a_insns a) \<le> BPF_MAXINSNS"
  using assms
  by (simp add: assemble_def Backwards_init_def b_push_def far_jump_to_def label_target_def label_at_def
      backwards_jump_def MAX_OFFSET_def BPF_MAXINSNS_def eval_nat_numeral jump_loop.simps sample_items_def)

lemma sample_compiles: "\<exists>f st. compile sample_number sample_profile = Inr (f, st)"
proof -
  obtain r where r: "resolve sample_number sample_profile = Inr r"
      "res_rules r = [(0, [\<lparr>r_conds = [], r_action = RET_ALLOW\<rparr>])]"
      "res_default r = RET_ERRNO OR 1" "res_enosys_above r = Some 0"
    using sample_resolves by blast
  let ?rs = "[\<lparr>run_lo = 0, run_hi = 0, run_block = 1\<rparr>] :: Run list"
  obtain g where g: "plan r = (?rs, g)" "g_blocks g = [[], [\<lparr>r_conds = [], r_action = RET_ALLOW\<rparr>]]"
      "g_labels g = [0, 1]" "p_labels (g_p g) = 2" "p_items (g_p g) = []" "g_default g = res_default r"
    using sample_plan[OF r(2-4)] by blast
  obtain depth g' where gen: "generate r ?rs g = (depth, g')" by (cases "generate r ?rs g")
  obtain a where "assemble (g_p g') = Some a" "length (a_insns a) \<le> BPF_MAXINSNS"
    using sample_assembles[of "g_p g'"] sample_generate[OF g(2-6) r(4,3)] gen by auto
  then show ?thesis unfolding compile_eq[OF r(1) g(1) gen] by simp
qed

lemma sample_numbers: "numbers_ok sample_number"
  by (simp add: numbers_ok_def sample_number_def)

section \<open>The compiler's contract\<close>

text \<open>C1: a filter that the compiler returns, run on any syscall, gives exactly the verdict that
  the profile asks for: the first entry that names the syscall and whose conditions all hold
  (unsigned, 64 bits wide), else the default; a foreign architecture and x32 numbers are killed,
  and a syscall newer than every one the profile names gets ENOSYS when the default denies.
  The only assumption is that no syscall in the generated table has the number \<open>2^32 - 1\<close>.\<close>

theorem compile_decides:
  assumes "numbers_ok number" and "compile number spec = Inr (f, st)"
  shows "run (f_program f) d = Inr (profile_verdict number spec d)"
  using compile_ok[OF assms(2,1)] by (simp add: run_def)

theorem compile_decides_witness:
  "\<exists>f st. compile sample_number sample_profile = Inr (f, st) \<and>
     run (f_program f) (sample_call 0) = Inr RET_ALLOW \<and>
     run (f_program f) (sample_call 1) = Inr (RET_ERRNO OR ENOSYS)"
proof -
  obtain f st where "compile sample_number sample_profile = Inr (f, st)" using sample_compiles by blast
  moreover have "profile_verdict sample_number sample_profile (sample_call 0) = RET_ALLOW"
    and "profile_verdict sample_number sample_profile (sample_call 1) = RET_ERRNO OR ENOSYS"
    by (simp_all add: profile_verdict_def sample_profile_def sample_call_def or_empty_def stub_wanted_def
        named_def top_of_def header_verdict_def entries_verdict_def entry_matches_def sample_number_def
        map_filter_simps SeccompData_x86_64_def wire)
  ultimately show ?thesis using compile_decides[OF sample_numbers] by metis
qed

text \<open>C2: the kernel's load-time checks accept every filter that the compiler returns.\<close>

theorem compile_passes_check:
  assumes "numbers_ok number" and "compile number spec = Inr (f, st)"
  shows "check (f_program f) = Inr ()"
  by (rule compile_ok(1)[OF assms(2,1)])

theorem compile_passes_check_witness:
  "\<exists>f st. compile sample_number sample_profile = Inr (f, st) \<and> check (f_program f) = Inr ()"
  using sample_compiles compile_passes_check[OF sample_numbers] by metis

text \<open>C3: the compiler accepts exactly the profiles it documents (the native architecture or
  none named, no listener, no notify action, no wait-killable flag, errno values up to 4095,
  argument indices up to 5); the only other failure is a filter above the kernel's 4096
  instructions, and it never panics.\<close>

theorem compile_accepts:
  assumes "numbers_ok number"
  shows "if profile_ok spec
    then (\<exists>f st. compile number spec = Inr (f, st)) \<or>
         (\<exists>n > BPF_MAXINSNS. compile number spec = Inl (FilterTooLarge n))
    else (\<exists>err. compile number spec = Inl err \<and> err \<noteq> CompilerPanicked)"
proof (cases "profile_ok spec")
  case True
  then obtain r where r: "resolve number spec = Inr r" using resolve_cases[of spec number] by auto
  obtain rs g where p: "plan r = (rs, g)" by (cases "plan r")
  obtain depth g' where gen: "generate r rs g = (depth, g')" by (cases "generate r rs g")
  note G = generate_ok[OF resolve_ok(1)[OF r assms] p gen]
  obtain asm where "assemble (g_p g') = Some asm" using assemble_total[OF G(2)] by blast
  then show ?thesis using G(1) True unfolding compile_eq[OF r p gen] by auto
next
  case False
  then show ?thesis using resolve_cases[of spec number] by (auto simp: compile_def)
qed

theorem compile_accepts_witness:
  "(\<exists>f st. compile sample_number sample_profile = Inr (f, st)) \<or>
   (\<exists>n > BPF_MAXINSNS. compile sample_number sample_profile = Inl (FilterTooLarge n))"
  using compile_accepts[OF sample_numbers, of sample_profile]
  by (simp add: profile_ok_def sample_profile_def or_empty_def action_ok_def entry_ok_spec_def wire)

end
