(* ===== verification/Ebpf.thy ===== *)
theory Ebpf
  imports Prelude
begin

text \<open>
  The eBPF subset of the device filter: the instruction encoding of
  \<^verbatim>\<open>rustlet-sys/src/bpf.rs\<close> and the checker and interpreter of
  \<^verbatim>\<open>rustlet-runtime/src/cgroups/devices/interp.rs\<close>. A program that passes the checks
  never panics: no register, context field or jump is out of range.
\<close>

section \<open>Instructions\<close>

text \<open>\<open>off\<close> is an \<open>i16\<close> and \<open>imm\<close> an \<open>i32\<close>: words that are read with \<open>sint\<close> where the
  sign matters.\<close>

record BpfInsn =
  bi_code :: u8
  bi_regs :: u8
  bi_off :: u16
  bi_imm :: u32

definition BpfInsn_new :: "u8 \<Rightarrow> u8 \<Rightarrow> u8 \<Rightarrow> u16 \<Rightarrow> u32 \<Rightarrow> BpfInsn" where
  "BpfInsn_new code dst src off imm =
     \<lparr>bi_code = code, bi_regs = (push_bit 4 src) OR (dst AND 0x0f), bi_off = off, bi_imm = imm\<rparr>"

definition BpfInsn_dst :: "BpfInsn \<Rightarrow> u8" where
  "BpfInsn_dst i = bi_regs i AND 0x0f"

definition BpfInsn_src :: "BpfInsn \<Rightarrow> u8" where
  "BpfInsn_src i = drop_bit 4 (bi_regs i)"

definition EBPF_LDX :: u8 where [wire]: "EBPF_LDX = 0x01"
definition EBPF_ALU :: u8 where [wire]: "EBPF_ALU = 0x04"
definition EBPF_JMP :: u8 where [wire]: "EBPF_JMP = 0x05"
definition EBPF_JMP32 :: u8 where [wire]: "EBPF_JMP32 = 0x06"
definition EBPF_W :: u8 where [wire]: "EBPF_W = 0x00"
definition EBPF_MEM :: u8 where [wire]: "EBPF_MEM = 0x60"
definition EBPF_K :: u8 where [wire]: "EBPF_K = 0x00"
definition EBPF_X :: u8 where [wire]: "EBPF_X = 0x08"
definition EBPF_OR :: u8 where [wire]: "EBPF_OR = 0x40"
definition EBPF_AND :: u8 where [wire]: "EBPF_AND = 0x50"
definition EBPF_RSH :: u8 where [wire]: "EBPF_RSH = 0x70"
definition EBPF_XOR :: u8 where [wire]: "EBPF_XOR = 0xa0"
definition EBPF_MOV :: u8 where [wire]: "EBPF_MOV = 0xb0"
definition EBPF_JA :: u8 where [wire]: "EBPF_JA = 0x00"
definition EBPF_JEQ :: u8 where [wire]: "EBPF_JEQ = 0x10"
definition EBPF_JNE :: u8 where [wire]: "EBPF_JNE = 0x50"
definition EBPF_EXIT :: u8 where [wire]: "EBPF_EXIT = 0x90"

definition R_CTX :: u8 where [wire]: "R_CTX = 1"
definition R_FP :: u8 where [wire]: "R_FP = 10"
definition CTX_ACCESS_TYPE :: u16 where [wire]: "CTX_ACCESS_TYPE = 0"
definition CTX_MAJOR :: u16 where [wire]: "CTX_MAJOR = 4"
definition CTX_MINOR :: u16 where [wire]: "CTX_MINOR = 8"
definition MAX_INSNS :: nat where "MAX_INSNS = 1000000"

text \<open>\<open>struct bpf_cgroup_dev_ctx\<close>\<close>

record Ctx =
  ctx_access_type :: u32
  ctx_major :: u32
  ctx_minor :: u32

datatype ESrc = ESrcK u32 | ESrcX u8

datatype EAlu = EMov | EAnd | EOr | EXor | ERsh | ELsh

datatype EJmp = EEq | ENe

datatype EInsn =
    Ldxw u8 u8 u16
  | EAluOp EAlu u8 ESrc
  | Jmp32 EJmp u8 ESrc u16
  | EJa u16
  | EExit

section \<open>Decoding\<close>

definition edecode_alu :: "u8 \<Rightarrow> EAlu option" where
  "edecode_alu aop =
     (if aop = EBPF_MOV then Some EMov else if aop = EBPF_AND then Some EAnd
      else if aop = EBPF_OR then Some EOr else if aop = EBPF_XOR then Some EXor
      else if aop = EBPF_RSH then Some ERsh else if aop = 0x60 then Some ELsh else None)"

definition edecode_jmp :: "u8 \<Rightarrow> EJmp option" where
  "edecode_jmp aop = (if aop = EBPF_JEQ then Some EEq else if aop = EBPF_JNE then Some ENe else None)"

definition edecode :: "BpfInsn \<Rightarrow> EInsn option" where
  "edecode i =
     (let src = (if bi_code i AND EBPF_X \<noteq> 0 then ESrcX (BpfInsn_src i) else ESrcK (bi_imm i));
          cls = bi_code i AND 0x07;
          aop = bi_code i AND 0xf0
      in if cls = EBPF_LDX \<and> bi_code i = EBPF_LDX OR EBPF_W OR EBPF_MEM
           then Some (Ldxw (BpfInsn_dst i) (BpfInsn_src i) (bi_off i))
         else if cls = EBPF_ALU then
           (case edecode_alu aop of None \<Rightarrow> None | Some alu \<Rightarrow> Some (EAluOp alu (BpfInsn_dst i) src))
         else if cls = EBPF_JMP32 then
           (case edecode_jmp aop of None \<Rightarrow> None | Some jmp \<Rightarrow> Some (Jmp32 jmp (BpfInsn_dst i) src (bi_off i)))
         else if cls = EBPF_JMP \<and> bi_code i = EBPF_JMP OR EBPF_JA then Some (EJa (bi_off i))
         else if cls = EBPF_JMP \<and> bi_code i = EBPF_JMP OR EBPF_EXIT then Some EExit
         else None)"

section \<open>The checks\<close>

datatype EbpfError =
    EBadLength nat
  | ENotUsed nat
  | EReadsNoRegister nat
  | EOverwritesCtx nat
  | EWrites nat u8
  | ELoads nat
  | EShift nat
  | EJump nat
  | ELastNotExit
  | EUnreachable nat
  | EReadBeforeWritten nat
  | EReturns u64
  | EPanicked

definition reg_bit :: "u8 \<Rightarrow> u16" where
  "reg_bit r = push_bit (unat r) 1"

fun src_bit :: "ESrc \<Rightarrow> u16" where
  "src_bit (ESrcX r) = reg_bit r"
| "src_bit (ESrcK _) = 0"

text \<open>Registers an instruction reads, and the one it writes.\<close>

fun eregs :: "EInsn \<Rightarrow> u16 \<times> u8 option" where
  "eregs (Ldxw dst src off) = (reg_bit src, Some dst)"
| "eregs (EAluOp EMov dst src) = (src_bit src, Some dst)"
| "eregs (EAluOp _ dst src) = (reg_bit dst OR src_bit src, Some dst)"
| "eregs (Jmp32 jmp dst src off) = (reg_bit dst OR src_bit src, None)"
| "eregs (EJa off) = (0, None)"
| "eregs EExit = (reg_bit 0, None)"

definition check_writes :: "nat \<Rightarrow> u8 option \<Rightarrow> EbpfError + unit" where
  "check_writes pc writes =
     (case writes of
        None \<Rightarrow> Inr ()
      | Some r \<Rightarrow> if r = R_CTX then Inl (EOverwritesCtx pc) else if r \<ge> R_FP then Inl (EWrites pc r) else Inr ())"

definition bad_jump :: "nat \<Rightarrow> nat \<Rightarrow> u16 \<Rightarrow> bool" where
  "bad_jump len pc off \<longleftrightarrow> sint off < 0 \<or> pc + 1 + nat (sint off) \<ge> len"

fun check_shape :: "nat \<Rightarrow> nat \<Rightarrow> EInsn \<Rightarrow> EbpfError + unit" where
  "check_shape len pc (Ldxw dst src off) =
     (if src \<noteq> R_CTX \<or> off \<notin> {CTX_ACCESS_TYPE, CTX_MAJOR, CTX_MINOR} then Inl (ELoads pc) else Inr ())"
| "check_shape len pc (EAluOp alu dst (ESrcK k)) =
     (if (alu = ERsh \<or> alu = ELsh) \<and> \<not> (0 \<le> sint k \<and> sint k < 32) then Inl (EShift pc) else Inr ())"
| "check_shape len pc (Jmp32 jmp dst src off) = (if bad_jump len pc off then Inl (EJump pc) else Inr ())"
| "check_shape len pc (EJa off) = (if bad_jump len pc off then Inl (EJump pc) else Inr ())"
| "check_shape len pc _ = Inr ()"

definition echeck_insn :: "nat \<Rightarrow> nat \<Rightarrow> EInsn \<Rightarrow> EbpfError + unit" where
  "echeck_insn len pc insn =
     (if fst (eregs insn) AND NOT 0x7ff \<noteq> 0 then Inl (EReadsNoRegister pc)
      else bind_result (check_writes pc (snd (eregs insn))) (\<lambda>_. check_shape len pc insn))"

text \<open>The loop of \<open>check\<close>; the result is \<open>decoded\<close>.\<close>

fun echeck_loop :: "nat \<Rightarrow> nat \<Rightarrow> BpfInsn list \<Rightarrow> EbpfError + EInsn list" where
  "echeck_loop len pc [] = Inr []"
| "echeck_loop len pc (raw # rest) =
     (case edecode raw of
        None \<Rightarrow> Inl (ENotUsed pc)
      | Some insn \<Rightarrow>
          bind_result (echeck_insn len pc insn) (\<lambda>_.
          bind_result (echeck_loop len (pc + 1) rest) (\<lambda>insns. Inr (insn # insns))))"

definition reach :: "u16 \<Rightarrow> nat \<Rightarrow> u16 option list \<Rightarrow> u16 option list option" where
  "reach after to known =
     (if to < length known
      then Some (known[to := Some (case known ! to of None \<Rightarrow> after | Some k \<Rightarrow> k AND after)])
      else None)"

fun successors :: "nat \<Rightarrow> EInsn \<Rightarrow> nat list" where
  "successors pc EExit = []"
| "successors pc (EJa off) = [pc + 1 + nat (sint off)]"
| "successors pc (Jmp32 jmp dst src off) = [pc + 1, pc + 1 + nat (sint off)]"
| "successors pc _ = [pc + 1]"

fun reach_all :: "u16 \<Rightarrow> nat list \<Rightarrow> u16 option list \<Rightarrow> u16 option list option" where
  "reach_all after [] known = Some known"
| "reach_all after (to # tos) known =
     (case reach after to known of None \<Rightarrow> None | Some known' \<Rightarrow> reach_all after tos known')"

fun check_paths_loop :: "nat \<Rightarrow> EInsn list \<Rightarrow> u16 option list \<Rightarrow> EbpfError + unit" where
  "check_paths_loop pc [] known = Inr ()"
| "check_paths_loop pc (insn # rest) known =
     (case known ! pc of
        None \<Rightarrow> Inl (EUnreachable pc)
      | Some here \<Rightarrow>
          if fst (eregs insn) AND NOT here \<noteq> 0 then Inl (EReadBeforeWritten pc)
          else (case reach_all
                    (here OR (case snd (eregs insn) of None \<Rightarrow> 0 | Some r \<Rightarrow> reg_bit r))
                    (successors pc insn) known of
                  None \<Rightarrow> Inl EPanicked
                | Some known' \<Rightarrow> check_paths_loop (pc + 1) rest known'))"

definition check_paths :: "EInsn list \<Rightarrow> EbpfError + unit" where
  "check_paths program =
     check_paths_loop 0 program
       ((replicate (length program) None)[0 := Some (reg_bit R_CTX OR reg_bit R_FP)])"

definition echeck :: "BpfInsn list \<Rightarrow> EbpfError + unit" where
  "echeck program =
     (let len = length program
      in if len = 0 \<or> len > MAX_INSNS then Inl (EBadLength len)
         else bind_result (echeck_loop len 0 program) (\<lambda>decoded.
              if decoded ! (len - 1) \<noteq> EExit then Inl ELastNotExit
              else check_paths decoded))"

section \<open>Running\<close>

record EMachine =
  e_r :: "u64 list"
  e_pc :: nat

definition EMachine_init :: EMachine where
  "EMachine_init = \<lparr>e_r = replicate 11 0, e_pc = 0\<rparr>"

definition ctx_field :: "Ctx \<Rightarrow> u16 \<Rightarrow> u32" where
  "ctx_field ctx off =
     (if off = CTX_ACCESS_TYPE then ctx_access_type ctx
      else if off = CTX_MAJOR then ctx_major ctx else ctx_minor ctx)"

fun ealu_value :: "EAlu \<Rightarrow> u32 \<Rightarrow> u32 \<Rightarrow> u32" where
  "ealu_value EMov d v = v"
| "ealu_value EAnd d v = d AND v"
| "ealu_value EOr d v = d OR v"
| "ealu_value EXor d v = d XOR v"
| "ealu_value ERsh d v = drop_bit (unat v mod 32) d"
| "ealu_value ELsh d v = push_bit (unat v mod 32) d"

text \<open>\<open>None\<close> is an index out of range.\<close>

definition reg32 :: "EMachine \<Rightarrow> u8 \<Rightarrow> u32 option" where
  "reg32 s r = (if unat r < length (e_r s) then Some (ucast (e_r s ! unat r)) else None)"

fun esrc_value :: "EMachine \<Rightarrow> ESrc \<Rightarrow> u32 option" where
  "esrc_value s (ESrcK k) = Some k"
| "esrc_value s (ESrcX r) = reg32 s r"

definition set_reg :: "u8 \<Rightarrow> u32 \<Rightarrow> EMachine \<Rightarrow> (EMachine, EbpfError, u32) flow" where
  "set_reg r v s =
     (if unat r < length (e_r s) then Continue (s\<lparr>e_r := (e_r s)[unat r := ucast v]\<rparr>) else Fail EPanicked)"

definition jump_by :: "u16 \<Rightarrow> EMachine \<Rightarrow> (EMachine, EbpfError, u32) flow" where
  "jump_by off s =
     (if sint off < 0 then Fail EPanicked else Continue (s\<lparr>e_pc := e_pc s + nat (sint off)\<rparr>))"

fun eexec :: "Ctx \<Rightarrow> EInsn \<Rightarrow> EMachine \<Rightarrow> (EMachine, EbpfError, u32) flow" where
  "eexec ctx (Ldxw dst src off) s = set_reg dst (ctx_field ctx off) s"
| "eexec ctx (EAluOp alu dst src) s =
     (case (esrc_value s src, reg32 s dst) of
        (Some v, Some d) \<Rightarrow> set_reg dst (ealu_value alu d v) s
      | _ \<Rightarrow> Fail EPanicked)"
| "eexec ctx (Jmp32 jmp dst src off) s =
     (case (esrc_value s src, reg32 s dst) of
        (Some v, Some d) \<Rightarrow> if (jmp = EEq) = (d = v) then jump_by off s else Continue s
      | _ \<Rightarrow> Fail EPanicked)"
| "eexec ctx (EJa off) s = jump_by off s"
| "eexec ctx EExit s =
     (if e_r s = [] then Fail EPanicked
      else if e_r s ! 0 = 0 \<or> e_r s ! 0 = 1 then Return (ucast (e_r s ! 0))
      else Fail (EReturns (e_r s ! 0)))"

definition erun_step :: "EInsn list \<times> Ctx \<Rightarrow> EMachine \<Rightarrow> (EMachine, EbpfError, u32) flow" where
  "erun_step p s =
     (if e_pc s < length (fst p)
      then eexec (snd p) (fst p ! e_pc s) (s\<lparr>e_pc := e_pc s + 1\<rparr>)
      else Fail EPanicked)"

lemma set_reg_pc: "set_reg r v s = Continue s' \<Longrightarrow> e_pc s' = e_pc s"
  by (auto simp: set_reg_def split: if_splits)

lemma jump_by_pc: "jump_by off s = Continue s' \<Longrightarrow> e_pc s \<le> e_pc s'"
  by (auto simp: jump_by_def split: if_splits)

lemma eexec_pc: "eexec ctx insn s = Continue s' \<Longrightarrow> e_pc s \<le> e_pc s'"
  by (cases insn) (auto dest: set_reg_pc jump_by_pc split: option.splits if_splits)

lemma erun_step_pc: "erun_step p s = Continue s' \<Longrightarrow> e_pc s < length (fst p) \<and> e_pc s < e_pc s'"
  unfolding erun_step_def by (fastforce dest: eexec_pc split: if_splits)

function erun_loop :: "EInsn list \<times> Ctx \<Rightarrow> EMachine \<Rightarrow> EbpfError + u32" where
  "erun_loop p s =
     (case erun_step p s of
        Continue s' \<Rightarrow> erun_loop p s'
      | Return r \<Rightarrow> Inr r
      | Fail e \<Rightarrow> Inl e)"
  by pat_completeness auto
termination
  by (relation "measure (\<lambda>(p, s). length (fst p) - e_pc s)") (auto dest!: erun_step_pc)

declare erun_loop.simps [simp del]

definition erun :: "BpfInsn list \<Rightarrow> Ctx \<Rightarrow> EbpfError + u32" where
  "erun program ctx =
     bind_result (echeck program) (\<lambda>_.
       if list_all (\<lambda>i. edecode i \<noteq> None) program
       then erun_loop (map (\<lambda>i. the (edecode i)) program, ctx) EMachine_init
       else Inl EPanicked)"

interpretation ebpf: forward_machine erun_step erun_loop "\<lambda>p s. length (fst p) - e_pc s"
proof
  fix p s
  show "erun_loop p s = (case erun_step p s of Continue s' \<Rightarrow> erun_loop p s'
      | Return r \<Rightarrow> Inr r | Fail e \<Rightarrow> Inl e)"
    by (rule erun_loop.simps)
next
  fix p s s'
  assume "erun_step p s = Continue s'"
  then show "length (fst p) - e_pc s' < length (fst p) - e_pc s"
    using erun_step_pc by fastforce
qed

section \<open>Running a suffix\<close>

text \<open>Jumps only go forward, so a program's result is a function of the instructions still
  ahead and the registers.\<close>

function esem :: "Ctx \<Rightarrow> EInsn list \<Rightarrow> u64 list \<Rightarrow> u32 option" where
  "esem ctx [] r = None"
| "esem ctx (i # is) r =
     (case eexec ctx i \<lparr>e_r = r, e_pc = 0\<rparr> of
        Continue s \<Rightarrow> esem ctx (drop (e_pc s) is) (e_r s)
      | Return v \<Rightarrow> Some v
      | Fail e \<Rightarrow> None)"
  by pat_completeness auto
termination
  by (relation "measure (\<lambda>(ctx, is, r). length is)") auto

declare esem.simps(2) [simp del]

lemma eexec_move:
  "map_flow (\<lambda>s. (e_r s, e_pc s)) id id (eexec ctx i (s\<lparr>e_pc := n\<rparr>)) =
   map_flow (\<lambda>s. (e_r s, e_pc s + n)) id id (eexec ctx i \<lparr>e_r = e_r s, e_pc = 0\<rparr>)"
proof (cases i)
  case (EAluOp alu dst src)
  then show ?thesis
    by (cases src) (auto simp: set_reg_def reg32_def split: option.splits)
next
  case (Jmp32 jmp dst src off)
  then show ?thesis
    by (cases src) (auto simp: jump_by_def reg32_def split: option.splits)
qed (auto simp: set_reg_def jump_by_def)

lemma erun_loop_esem: "ok_of (erun_loop (p, ctx) s) = esem ctx (drop (e_pc s) p) (e_r s)"
proof (induction s rule: ebpf.run_induct [of "(p, ctx)"])
  case (step s)
  show ?case
  proof (cases "e_pc s < length p")
    case False
    then have "erun_step (p, ctx) s = Fail EPanicked" by (simp add: erun_step_def)
    then show ?thesis using False by (simp add: ebpf.exec_Fail)
  next
    case True
    let ?i = "p ! e_pc s"
    have d: "drop (e_pc s) p = ?i # drop (e_pc s + 1) p" using True by (simp add: Cons_nth_drop_Suc)
    have st: "erun_step (p, ctx) s = eexec ctx ?i (s\<lparr>e_pc := e_pc s + 1\<rparr>)"
      using True by (simp add: erun_step_def)
    note move = eexec_move[where ctx = ctx and i = ?i and s = s and n = "e_pc s + 1"]
    show ?thesis
    proof (cases "erun_step (p, ctx) s")
      case (Continue s')
      then obtain s0 where "eexec ctx ?i \<lparr>e_r = e_r s, e_pc = 0\<rparr> = Continue s0" "e_r s0 = e_r s'"
          "e_pc s' = e_pc s0 + (e_pc s + 1)"
        using move st by (cases "eexec ctx ?i \<lparr>e_r = e_r s, e_pc = 0\<rparr>") auto
      then show ?thesis
        using step.IH[OF Continue] Continue unfolding d
        by (simp add: ebpf.exec_Continue esem.simps add.commute)
    next
      case (Return v)
      then have "eexec ctx ?i \<lparr>e_r = e_r s, e_pc = 0\<rparr> = Return v"
        using move st by (cases "eexec ctx ?i \<lparr>e_r = e_r s, e_pc = 0\<rparr>") auto
      then show ?thesis using Return unfolding d by (simp add: ebpf.exec_Return esem.simps)
    next
      case (Fail e)
      then have "eexec ctx ?i \<lparr>e_r = e_r s, e_pc = 0\<rparr> = Fail e"
        using move st by (cases "eexec ctx ?i \<lparr>e_r = e_r s, e_pc = 0\<rparr>") auto
      then show ?thesis using Fail unfolding d by (simp add: ebpf.exec_Fail esem.simps)
    qed
  qed
qed

lemma esem_set:
  assumes "eexec ctx i \<lparr>e_r = r, e_pc = 0\<rparr> = Continue \<lparr>e_r = r', e_pc = n\<rparr>"
  shows "esem ctx (i # is) r = esem ctx (drop n is) r'"
  using assms by (simp add: esem.simps)

lemma ucast_32_64 [simp]: "(ucast (ucast (x :: u32) :: u64) :: u32) = x"
  by (rule bit_word_eqI) (simp add: bit_ucast_iff)

section \<open>Checked programs do not panic\<close>

lemma echeck_loop_nth:
  assumes "echeck_loop len pc raw = Inr insns" and "i < length raw"
  shows "edecode (raw ! i) = Some (insns ! i) \<and> echeck_insn len (pc + i) (insns ! i) = Inr () \<and>
    length insns = length raw"
  using assms
proof (induction raw arbitrary: pc i insns)
  case (Cons f raw)
  obtain x xs where x: "insns = x # xs" "edecode f = Some x" "echeck_insn len pc x = Inr ()"
      "echeck_loop len (pc + 1) raw = Inr xs"
    using Cons.prems(1) by (auto simp: bind_result_Inr_iff split: option.splits)
  have len: "length xs = length raw"
    using Cons.IH[OF x(4), of 0] x(4) by (cases raw) auto
  show ?case
  proof (cases i)
    case 0
    then show ?thesis using x len by simp
  next
    case (Suc j)
    then show ?thesis using Cons.IH[OF x(4), of j] Cons.prems(2) x(1) len by simp
  qed
qed simp

lemma reg_small:
  assumes "reg_bit r AND NOT 0x7ff = 0" and "r < 16"
  shows "unat r < 11"
proof (rule ccontr)
  assume "\<not> unat r < 11"
  moreover have "unat r < 16" using assms(2) by (simp add: word_less_nat_alt)
  ultimately have r: "unat r = 11 \<or> unat r = 12 \<or> unat r = 13 \<or> unat r = 14 \<or> unat r = 15" by linarith
  then show False using assms(1) unfolding reg_bit_def by (elim disjE) simp_all
qed

lemma decode_regs:
  assumes "edecode i = Some insn"
  shows "case insn of
      Ldxw dst src off \<Rightarrow> dst < 16 \<and> src < 16
    | EAluOp alu dst src \<Rightarrow> dst < 16 \<and> (case src of ESrcX r \<Rightarrow> r < 16 | _ \<Rightarrow> True)
    | Jmp32 jmp dst src off \<Rightarrow> dst < 16 \<and> (case src of ESrcX r \<Rightarrow> r < 16 | _ \<Rightarrow> True)
    | _ \<Rightarrow> True"
proof -
  have dst: "BpfInsn_dst i < 16"
  proof -
    have "BpfInsn_dst i \<le> 0x0f" unfolding BpfInsn_dst_def by (rule word_and_le1)
    then show ?thesis by (simp add: word_le_nat_alt word_less_nat_alt)
  qed
  have src: "BpfInsn_src i < 16"
  proof -
    have "unat (BpfInsn_src i) = unat (bi_regs i) div 16"
      by (simp add: BpfInsn_src_def drop_bit_eq_div unat_div)
    moreover have "unat (bi_regs i) < 256" using unat_bound[of "bi_regs i"] by simp
    ultimately show ?thesis by (simp add: word_less_nat_alt less_mult_imp_div_less)
  qed
  show ?thesis
    using assms dst src unfolding edecode_def Let_def by (auto split: if_splits option.splits)
qed


definition reads_ok :: "EInsn \<Rightarrow> bool" where
  "reads_ok insn \<longleftrightarrow> (case insn of
      Ldxw dst src off \<Rightarrow> unat dst < 11
    | EAluOp alu dst src \<Rightarrow> unat dst < 11 \<and> (case src of ESrcX r \<Rightarrow> unat r < 11 | _ \<Rightarrow> True)
    | Jmp32 jmp dst src off \<Rightarrow> unat dst < 11 \<and> (case src of ESrcX r \<Rightarrow> unat r < 11 | _ \<Rightarrow> True)
    | _ \<Rightarrow> True)"

lemma and_or_zero: "(a OR b) AND c = 0 \<longleftrightarrow> a AND c = 0 \<and> b AND c = (0 :: u16)"
proof
  assume "(a OR b) AND c = 0"
  then have "\<not> bit ((a OR b) AND c) n" for n by simp
  then have "\<not> bit (a AND c) n \<and> \<not> bit (b AND c) n" for n by (auto simp: bit_and_iff bit_or_iff)
  then show "a AND c = 0 \<and> b AND c = 0" by (auto intro: bit_word_eqI)
next
  assume "a AND c = 0 \<and> b AND c = 0"
  then show "(a OR b) AND c = 0" by (simp add: bit.conj_disj_distrib2)
qed

lemma writes_small: "check_writes pc (Some dst) = Inr () \<Longrightarrow> unat dst < 11"
  by (auto simp: check_writes_def wire word_le_nat_alt not_le split: if_splits)

lemma checked_reads:
  assumes "edecode i = Some insn" and "echeck_insn len pc insn = Inr ()"
  shows "reads_ok insn"
proof (cases insn)
  case (EAluOp alu dst src)
  have "unat dst < 11" using assms(2) EAluOp writes_small
    by (cases alu) (auto simp: echeck_insn_def bind_result_Inr_iff split: if_splits)
  moreover have "unat r < 11" if "src = ESrcX r" for r
    using assms(2) EAluOp that decode_regs[OF assms(1)] reg_small[of r]
    by (cases alu) (auto simp: echeck_insn_def and_or_zero split: if_splits)
  ultimately show ?thesis using EAluOp by (auto simp: reads_ok_def split: ESrc.splits)
next
  case (Jmp32 jmp dst src off)
  have "unat dst < 11" and "\<And>r. src = ESrcX r \<Longrightarrow> unat r < 11"
    using assms(2) Jmp32 decode_regs[OF assms(1)] reg_small
    by (auto simp: echeck_insn_def and_or_zero split: if_splits)
  then show ?thesis using Jmp32 by (auto simp: reads_ok_def split: ESrc.splits)
next
  case (Ldxw dst src off)
  then show ?thesis using assms(2) writes_small
    by (auto simp: reads_ok_def echeck_insn_def bind_result_Inr_iff split: if_splits)
qed (auto simp: reads_ok_def)

text \<open>The invariant of a run: eleven registers, and a program counter inside the program.\<close>

lemma eexec_checked:
  assumes "reads_ok insn" and "echeck_insn len pc insn = Inr ()" and "length (e_r s) = 11" and "e_pc s = pc + 1"
  shows "eexec ctx insn s = Fail e \<Longrightarrow> \<exists>v. e = EReturns v"
    and "eexec ctx insn s = Continue s' \<Longrightarrow>
      insn \<noteq> EExit \<and> length (e_r s') = 11 \<and> (e_pc s' = pc + 1 \<or> e_pc s' < len)"
proof -
  have jump: "\<not> bad_jump len pc off" if "insn = EJa off \<or> (\<exists>jmp dst src. insn = Jmp32 jmp dst src off)" for off
    using assms(2) that by (auto simp: echeck_insn_def bind_result_Inr_iff split: if_splits)
  have reg: "\<exists>v. reg32 s r = Some v" if "unat r < 11" for r using that assms(3) by (simp add: reg32_def)
  have src: "\<exists>v. esrc_value s x = Some v" if "case x of ESrcX r \<Rightarrow> unat r < 11 | _ \<Rightarrow> True" for x
    using that reg by (cases x) auto
  have both: "(eexec ctx insn s = Fail e \<longrightarrow> (\<exists>v. e = EReturns v)) \<and> (eexec ctx insn s = Continue s' \<longrightarrow>
      insn \<noteq> EExit \<and> length (e_r s') = 11 \<and> (e_pc s' = pc + 1 \<or> e_pc s' < len))"
  proof (cases insn)
    case (Ldxw dst src off)
    then show ?thesis using assms by (auto simp: reads_ok_def set_reg_def)
  next
    case (EAluOp alu dst src)
    then obtain v d where "esrc_value s src = Some v" "reg32 s dst = Some d" "unat dst < 11"
      using assms(1) src[of src] reg[of dst] by (auto simp: reads_ok_def)
    then show ?thesis using EAluOp assms(3,4) by (auto simp: set_reg_def)
  next
    case (Jmp32 jmp dst src off)
    then obtain v d where "esrc_value s src = Some v" "reg32 s dst = Some d"
      using assms(1) src[of src] reg[of dst] by (auto simp: reads_ok_def)
    then show ?thesis using Jmp32 assms(3,4) jump[of off] by (auto simp: jump_by_def bad_jump_def)
  next
    case (EJa off)
    then show ?thesis using assms(3,4) jump[of off] by (auto simp: jump_by_def bad_jump_def)
  next
    case EExit
    then show ?thesis using assms(3) by auto
  qed
  show "eexec ctx insn s = Fail e \<Longrightarrow> \<exists>v. e = EReturns v"
    and "eexec ctx insn s = Continue s' \<Longrightarrow>
      insn \<noteq> EExit \<and> length (e_r s') = 11 \<and> (e_pc s' = pc + 1 \<or> e_pc s' < len)"
    using both by auto
qed

lemma erun_checked:
  assumes "echeck program = Inr ()"
  shows "(\<exists>v. erun program ctx = Inr v) \<or> (\<exists>v. erun program ctx = Inl (EReturns v))"
proof -
  obtain insns where ne: "length program \<noteq> 0" and loop: "echeck_loop (length program) 0 program = Inr insns"
      and last: "insns ! (length program - 1) = EExit"
    using assms by (auto simp: echeck_def Let_def bind_result_Inr_iff split: if_splits)
  have each: "edecode (program ! i) = Some (insns ! i)" "echeck_insn (length program) i (insns ! i) = Inr ()"
      "length insns = length program" if "i < length program" for i
    using echeck_loop_nth[OF loop that] by auto
  have len: "length insns = length program" using each(3)[of 0] ne by simp
  have "map edecode program = map Some insns"
    using each(1) len by (intro nth_equalityI) auto
  then have run: "erun program ctx = erun_loop (insns, ctx) EMachine_init"
    using map_Some_the[of edecode program insns] assms by (simp add: erun_def)
  let ?I = "\<lambda>s :: EMachine. e_pc s < length program \<and> length (e_r s) = 11"
  have at: "erun_step (insns, ctx) s = eexec ctx (insns ! e_pc s) (s\<lparr>e_pc := e_pc s + 1\<rparr>)"
      "reads_ok (insns ! e_pc s)" if "?I s" for s
    using that len checked_reads[OF each(1,2)] by (auto simp: erun_step_def)
  have "(\<exists>v. erun_loop (insns, ctx) EMachine_init = Inr v) \<or>
      (\<exists>e. erun_loop (insns, ctx) EMachine_init = Inl e \<and> (\<exists>v. e = EReturns v))"
  proof (rule ebpf.exec_result[where I = ?I])
    show "?I EMachine_init" using ne by (simp add: EMachine_init_def)
    fix s e s'
    assume I: "?I s"
    note step = at[OF I] each(2)[of "e_pc s"]
    show "\<exists>v. e = EReturns v" if "erun_step (insns, ctx) s = Fail e"
      using eexec_checked(1)[OF step(2,3), of "s\<lparr>e_pc := e_pc s + 1\<rparr>" ctx e] that step(1) I by simp
    assume go: "erun_step (insns, ctx) s = Continue s'"
    have "insns ! e_pc s \<noteq> EExit \<and> length (e_r s') = 11 \<and> (e_pc s' = e_pc s + 1 \<or> e_pc s' < length program)"
      using eexec_checked(2)[OF step(2,3), of "s\<lparr>e_pc := e_pc s + 1\<rparr>" ctx s'] go step(1) I by simp
    moreover have "e_pc s \<noteq> length program - 1" if "insns ! e_pc s \<noteq> EExit" using that last by auto
    ultimately show "?I s'" using I by auto
  qed
  then show ?thesis unfolding run by auto
qed

text \<open>C9: a device program that passes the checks runs to its exit on every request: no register,
  context field or jump is out of range, and the only failure left is a verdict other than 0
  and 1.\<close>

theorem checked_device_program_exits:
  assumes "echeck program = Inr ()"
  shows "(\<exists>v. erun program ctx = Inr v) \<or> (\<exists>v. erun program ctx = Inl (EReturns v))"
  by (rule erun_checked[OF assms])

definition sample_device_program :: "BpfInsn list" where
  "sample_device_program =
     [BpfInsn_new (EBPF_ALU OR EBPF_MOV OR EBPF_K) 0 0 0 1, BpfInsn_new (EBPF_JMP OR EBPF_EXIT) 0 0 0 0]"

theorem checked_device_program_exits_witness:
  "(\<exists>v. erun sample_device_program \<lparr>ctx_access_type = 1, ctx_major = 2, ctx_minor = 3\<rparr> = Inr v) \<or>
   (\<exists>v. erun sample_device_program \<lparr>ctx_access_type = 1, ctx_major = 2, ctx_minor = 3\<rparr> = Inl (EReturns v))"
proof (rule checked_device_program_exits)
  show "echeck sample_device_program = Inr ()"
    by (simp add: sample_device_program_def echeck_def MAX_INSNS_def edecode_def edecode_alu_def BpfInsn_new_def
        BpfInsn_dst_def BpfInsn_src_def echeck_insn_def check_writes_def check_paths_def reach_def reg_bit_def Let_def wire)
qed

end
