(* ===== verification/Devices.thy ===== *)
theory Devices
  imports Ebpf
begin

text \<open>
  The device filter of \<^verbatim>\<open>rustlet-runtime/src/cgroups/devices\<close>: access bits, rules and
  their reference semantics \<open>decide\<close>, the validation of a spec's rules, the optimiser and the
  compiler from rules to eBPF. \<^verbatim>\<open>DevicesCorrect\<close> proves that the compiled program decides
  what \<open>decide\<close> says.
\<close>

section \<open>Access bits\<close>

definition MAX_MAJOR :: u32 where [wire]: "MAX_MAJOR = 0xfff"
definition MAX_MINOR :: u32 where [wire]: "MAX_MINOR = 0xfffff"
definition MAX_RULES :: nat where "MAX_RULES = 2000"

datatype DevType = BlockDev | CharDev

fun DevType_bits :: "DevType \<Rightarrow> u32" where
  "DevType_bits BlockDev = 1"
| "DevType_bits CharDev = 2"

text \<open>\<open>struct Access(u8)\<close>: only the three low bits are ever set (\<open>access_ok\<close> in
  \<^verbatim>\<open>DevicesCorrect\<close>).\<close>

type_synonym Access = u8

definition Access_NONE :: Access where [wire]: "Access_NONE = 0"
definition Access_MKNOD :: Access where [wire]: "Access_MKNOD = 1"
definition Access_READ :: Access where [wire]: "Access_READ = 2"
definition Access_WRITE :: Access where [wire]: "Access_WRITE = 4"
definition Access_ALL :: Access where [wire]: "Access_ALL = 7"

definition Access_bits :: "Access \<Rightarrow> u32" where
  "Access_bits a = ucast a"

definition Access_from_bits :: "u32 \<Rightarrow> Access" where
  "Access_from_bits bits = ucast (bits AND 7)"

definition Access_union :: "Access \<Rightarrow> Access \<Rightarrow> Access" where
  "Access_union a b = a OR b"

definition Access_contains :: "Access \<Rightarrow> Access \<Rightarrow> bool" where
  "Access_contains a b \<longleftrightarrow> a AND b = b"

definition Access_is_empty :: "Access \<Rightarrow> bool" where
  "Access_is_empty a \<longleftrightarrow> a = 0"

fun access_letter :: "char \<Rightarrow> Access option" where
  "access_letter c =
     (if c = CHR ''r'' then Some Access_READ else if c = CHR ''w'' then Some Access_WRITE
      else if c = CHR ''m'' then Some Access_MKNOD else None)"

text \<open>The \<open>try_fold\<close> of \<open>Access::parse\<close>.\<close>

fun parse_letters :: "Access \<Rightarrow> string \<Rightarrow> Access option" where
  "parse_letters acc [] = Some acc"
| "parse_letters acc (c # cs) =
     (case access_letter c of None \<Rightarrow> None | Some b \<Rightarrow> parse_letters (Access_union acc b) cs)"

definition Access_parse :: "string \<Rightarrow> Access option" where
  "Access_parse s = (if s = [] then None else parse_letters Access_NONE s)"

definition Access_fmt :: "Access \<Rightarrow> string" where
  "Access_fmt a =
     (if Access_is_empty a then ''-''
      else concat (map (\<lambda>(b, c). if Access_contains a b then [c] else [])
             [(Access_READ, CHR ''r''), (Access_WRITE, CHR ''w''), (Access_MKNOD, CHR ''m'')]))"

section \<open>Rules\<close>

datatype Origin = Origin_Spec nat | Origin_Default | Origin_Node nat

record DevRule =
  dr_allow :: bool
  dr_typ :: "DevType option"
  dr_major :: "u32 option"
  dr_minor :: "u32 option"
  dr_access :: Access
  dr_origin :: Origin

definition Rule_allow :: "DevType \<Rightarrow> u32 \<Rightarrow> u32 option \<Rightarrow> Access \<Rightarrow> Origin \<Rightarrow> DevRule" where
  "Rule_allow typ major minor access origin =
     \<lparr>dr_allow = True, dr_typ = Some typ, dr_major = Some major, dr_minor = minor,
      dr_access = access, dr_origin = origin\<rparr>"

definition is_none_or :: "('a \<Rightarrow> bool) \<Rightarrow> 'a option \<Rightarrow> bool" where
  "is_none_or f x = (case x of None \<Rightarrow> True | Some v \<Rightarrow> f v)"

definition Rule_matches :: "DevRule \<Rightarrow> DevType \<Rightarrow> u32 \<Rightarrow> u32 \<Rightarrow> bool" where
  "Rule_matches r typ major minor \<longleftrightarrow>
     is_none_or (\<lambda>t. t = typ) (dr_typ r) \<and> is_none_or (\<lambda>m. m = major) (dr_major r) \<and>
     is_none_or (\<lambda>m. m = minor) (dr_minor r)"

definition is_reset :: "DevRule \<Rightarrow> bool" where
  "is_reset r \<longleftrightarrow>
     dr_typ r = None \<and> dr_major r = None \<and> dr_minor r = None \<and> dr_access r = Access_ALL"

record Request =
  rq_typ :: DevType
  rq_major :: u32
  rq_minor :: u32
  rq_access :: Access

text \<open>The reference semantics: each requested bit is decided by the last rule that matches
  the device and has that bit.\<close>

definition decide_bit :: "DevRule list \<Rightarrow> Request \<Rightarrow> Access \<Rightarrow> bool" where
  "decide_bit rules req b =
     (case find (\<lambda>r. Access_contains (dr_access r) b \<and>
                     Rule_matches r (rq_typ req) (rq_major req) (rq_minor req)) (rev rules) of
        None \<Rightarrow> False | Some r \<Rightarrow> dr_allow r)"

definition decide :: "DevRule list \<Rightarrow> Request \<Rightarrow> bool" where
  "decide rules req =
     list_all (decide_bit rules req)
       (filter (Access_contains (rq_access req)) [Access_READ, Access_WRITE, Access_MKNOD])"

definition DEFAULT_DEVICES :: "(string \<times> u32 \<times> u32) list" where
  "DEFAULT_DEVICES =
     [(''null'', 1, 3), (''zero'', 1, 5), (''full'', 1, 7), (''random'', 1, 8), (''urandom'', 1, 9),
      (''tty'', 5, 0)]"

definition default_rules :: "DevRule list" where
  "default_rules =
     map (\<lambda>(_, major, minor). Rule_allow CharDev major (Some minor) Access_ALL Origin_Default) DEFAULT_DEVICES
     @ [Rule_allow CharDev 5 (Some 2) Access_ALL Origin_Default,
        Rule_allow CharDev 136 None Access_ALL Origin_Default]"

section \<open>Rules from a spec\<close>

text \<open>\<open>oci_spec\<close>'s \<open>LinuxDeviceCgroup\<close>; the type a missing \<open>type\<close> stands for
  (\<open>LinuxDeviceType::default\<close>) is that crate's and a parameter below.\<close>

datatype LinuxDeviceType = DT_A | DT_B | DT_C | DT_U | DT_P

record LinuxDeviceCgroup =
  dc_allow :: bool
  dc_typ :: "LinuxDeviceType option"
  dc_major :: "int option"
  dc_minor :: "int option"
  dc_access :: "string option"

datatype DeviceError =
    BadType nat
  | NumberOutOfRange nat string int
  | AccessMissing nat
  | BadAccess nat string
  | NotExactlyReset nat
  | TooManyRules nat
  | BadProgram EbpfError

definition device_type :: "nat \<Rightarrow> LinuxDeviceType \<Rightarrow> DeviceError + DevType option" where
  "device_type i t =
     (case t of DT_A \<Rightarrow> Inr None | DT_B \<Rightarrow> Inr (Some BlockDev) | DT_C \<Rightarrow> Inr (Some CharDev) | _ \<Rightarrow> Inl (BadType i))"

definition device_number :: "nat \<Rightarrow> string \<Rightarrow> int option \<Rightarrow> u32 \<Rightarrow> DeviceError + u32 option" where
  "device_number i what n mx =
     (case n of
        None \<Rightarrow> Inr None
      | Some n \<Rightarrow>
          if n = - 1 then Inr None
          else if 0 \<le> n \<and> n \<le> uint mx then Inr (Some (word_of_int n))
          else Inl (NumberOutOfRange i what n))"

definition device_access :: "nat \<Rightarrow> string option \<Rightarrow> DeviceError + Access" where
  "device_access i a =
     (case a of
        None \<Rightarrow> Inl (AccessMissing i)
      | Some s \<Rightarrow>
          if s = '''' then Inl (AccessMissing i)
          else case Access_parse s of None \<Rightarrow> Inl (BadAccess i s) | Some acc \<Rightarrow> Inr acc)"

definition rule_from_spec ::
    "LinuxDeviceType \<Rightarrow> nat \<Rightarrow> LinuxDeviceCgroup \<Rightarrow> DeviceError + DevRule" where
  "rule_from_spec default_type i d =
     bind_result (device_type i (case dc_typ d of None \<Rightarrow> default_type | Some t \<Rightarrow> t)) (\<lambda>typ.
     bind_result (device_number i ''major'' (dc_major d) MAX_MAJOR) (\<lambda>major.
     bind_result (device_number i ''minor'' (dc_minor d) MAX_MINOR) (\<lambda>minor.
     bind_result (device_access i (dc_access d)) (\<lambda>access.
       let rule = \<lparr>dr_allow = dc_allow d, dr_typ = typ, dr_major = major, dr_minor = minor,
                   dr_access = access, dr_origin = Origin_Spec i\<rparr>
       in if typ = None \<and> \<not> is_reset rule then Inl (NotExactlyReset i) else Inr rule))))"

definition rules_from_spec ::
    "LinuxDeviceType \<Rightarrow> LinuxDeviceCgroup list \<Rightarrow> DeviceError + DevRule list" where
  "rules_from_spec default_type spec =
     collect_results (\<lambda>(i, d). rule_from_spec default_type i d) (enumerate 0 spec)"

section \<open>The optimiser\<close>

text \<open>The loop over what follows the last reset.\<close>

fun keep_rules :: "Access option \<Rightarrow> DevRule list \<Rightarrow> DevRule list" where
  "keep_rules uniform [] = []"
| "keep_rules uniform (r # rs) =
     (let no_op = (case uniform of
                     None \<Rightarrow> False
                   | Some a \<Rightarrow> if a = Access_ALL then dr_allow r
                                else if a = Access_NONE then \<not> dr_allow r else False)
      in if no_op then keep_rules uniform rs else r # keep_rules None rs)"

text \<open>\<open>rposition(is_reset)\<close> and the slice behind it: walking from the end, the rules behind
  the last reset and that reset.\<close>

fun split_reset :: "DevRule list \<Rightarrow> DevRule list \<Rightarrow> DevRule option \<times> DevRule list" where
  "split_reset [] rest = (None, rest)"
| "split_reset (r # rev_rules) rest =
     (if is_reset r then (Some r, rest) else split_reset rev_rules (r # rest))"

definition optimise :: "DevRule list \<Rightarrow> Access \<times> DevRule list" where
  "optimise rules =
     (let (reset, rest) = split_reset (rev rules) [];
          initial = (case reset of None \<Rightarrow> Access_NONE
                     | Some r \<Rightarrow> if dr_allow r then Access_ALL else Access_NONE)
      in (initial, keep_rules (Some initial) rest))"

section \<open>The compiler\<close>

definition R_TYPE :: u8 where [wire]: "R_TYPE = 2"
definition R_ACCESS :: u8 where [wire]: "R_ACCESS = 3"
definition R_MAJOR :: u8 where [wire]: "R_MAJOR = 4"
definition R_MINOR :: u8 where [wire]: "R_MINOR = 5"
definition R_ALLOWED :: u8 where [wire]: "R_ALLOWED = 6"
definition R_SCRATCH :: u8 where [wire]: "R_SCRATCH = 7"

definition ldxw :: "u8 \<Rightarrow> u8 \<Rightarrow> u16 \<Rightarrow> BpfInsn" where
  "ldxw dst src off = BpfInsn_new (EBPF_LDX OR EBPF_W OR EBPF_MEM) dst src off 0"

definition alu32_k :: "u8 \<Rightarrow> u8 \<Rightarrow> u32 \<Rightarrow> BpfInsn" where
  "alu32_k aop dst imm = BpfInsn_new (EBPF_ALU OR aop OR EBPF_K) dst 0 0 imm"

definition alu32_x :: "u8 \<Rightarrow> u8 \<Rightarrow> u8 \<Rightarrow> BpfInsn" where
  "alu32_x aop dst src = BpfInsn_new (EBPF_ALU OR aop OR EBPF_X) dst src 0 0"

definition jne32_k :: "u8 \<Rightarrow> u32 \<Rightarrow> u16 \<Rightarrow> BpfInsn" where
  "jne32_k dst imm off = BpfInsn_new (EBPF_JMP32 OR EBPF_JNE OR EBPF_K) dst 0 off imm"

definition jne32_x :: "u8 \<Rightarrow> u8 \<Rightarrow> u16 \<Rightarrow> BpfInsn" where
  "jne32_x dst src off = BpfInsn_new (EBPF_JMP32 OR EBPF_JNE OR EBPF_X) dst src off 0"

definition EXIT :: BpfInsn where
  "EXIT = BpfInsn_new (EBPF_JMP OR EBPF_EXIT) 0 0 0 0"

definition rule_checks :: "DevRule \<Rightarrow> (u8 \<times> u32) list" where
  "rule_checks rule =
     (case dr_typ rule of None \<Rightarrow> [] | Some t \<Rightarrow> [(R_TYPE, DevType_bits t)]) @
     (case dr_major rule of None \<Rightarrow> [] | Some m \<Rightarrow> [(R_MAJOR, m)]) @
     (case dr_minor rule of None \<Rightarrow> [] | Some m \<Rightarrow> [(R_MINOR, m)])"

text \<open>The loop over the checks; \<open>rest\<close> is \<open>3 * (checks that follow) + 1\<close>.\<close>

fun emit_checks :: "(u8 \<times> u32) list \<Rightarrow> BpfInsn list" where
  "emit_checks [] = []"
| "emit_checks ((reg, val) # checks) =
     [alu32_x EBPF_MOV R_SCRATCH reg, alu32_k EBPF_XOR R_SCRATCH val,
      jne32_k R_SCRATCH 0 (of_nat (3 * length checks + 1))] @ emit_checks checks"

definition emit_rule :: "DevRule \<Rightarrow> BpfInsn list" where
  "emit_rule rule =
     emit_checks (rule_checks rule) @
     [if dr_allow rule then alu32_k EBPF_OR R_ALLOWED (Access_bits (dr_access rule))
      else alu32_k EBPF_AND R_ALLOWED (NOT (Access_bits (dr_access rule)) AND Access_bits Access_ALL)]"

definition dev_compile :: "Access \<Rightarrow> DevRule list \<Rightarrow> BpfInsn list" where
  "dev_compile initial rules =
     (if initial = Access_ALL \<and> rules = [] then [alu32_k EBPF_MOV 0 1, EXIT]
      else [ldxw R_TYPE R_CTX CTX_ACCESS_TYPE, alu32_x EBPF_MOV R_ACCESS R_TYPE,
            alu32_k EBPF_RSH R_ACCESS 16, alu32_k EBPF_AND R_TYPE 0xffff,
            ldxw R_MAJOR R_CTX CTX_MAJOR, ldxw R_MINOR R_CTX CTX_MINOR,
            alu32_k EBPF_MOV R_ALLOWED (Access_bits initial)]
           @ concat (map emit_rule rules)
           @ [alu32_x EBPF_AND R_ALLOWED R_ACCESS, alu32_k EBPF_MOV 0 0,
              jne32_x R_ALLOWED R_ACCESS 1, alu32_k EBPF_MOV 0 1, EXIT])"

section \<open>The filter\<close>

record DeviceFilter =
  df_rules :: "DevRule list"
  df_initial :: Access
  df_compiled :: "DevRule list"
  df_program :: "BpfInsn list"

definition from_rules :: "DevRule list \<Rightarrow> DeviceError + DeviceFilter" where
  "from_rules rules =
     (let (initial, compiled) = optimise rules
      in if length compiled > MAX_RULES then Inl (TooManyRules (length compiled))
         else let program = dev_compile initial compiled
              in case echeck program of
                   Inl e \<Rightarrow> Inl (BadProgram e)
                 | Inr _ \<Rightarrow> Inr \<lparr>df_rules = rules, df_initial = initial, df_compiled = compiled,
                                  df_program = program\<rparr>)"

definition DeviceFilter_build ::
    "LinuxDeviceType \<Rightarrow> LinuxDeviceCgroup list \<Rightarrow> (nat \<times> DevType \<times> u32 \<times> u32) list \<Rightarrow> DeviceError + DeviceFilter" where
  "DeviceFilter_build default_type spec nodes =
     bind_result (rules_from_spec default_type spec) (\<lambda>rules.
       from_rules (rules @ default_rules @
         map (\<lambda>(i, typ, major, minor). Rule_allow typ major (Some minor) Access_MKNOD (Origin_Node i)) nodes))"

definition Ctx_from :: "Request \<Rightarrow> Ctx" where
  "Ctx_from r =
     \<lparr>ctx_access_type = push_bit 16 (Access_bits (rq_access r)) OR DevType_bits (rq_typ r),
      ctx_major = rq_major r, ctx_minor = rq_minor r\<rparr>"

text \<open>\<open>None\<close> is the panic of \<open>expect\<close>.\<close>

definition allows :: "DeviceFilter \<Rightarrow> Request \<Rightarrow> bool option" where
  "allows f req =
     (case erun (df_program f) (Ctx_from req) of Inl _ \<Rightarrow> None | Inr v \<Rightarrow> Some (v = 1))"

end
