(* ===== verification/DevicesCorrect.thy ===== *)
theory DevicesCorrect
  imports Devices
begin

text \<open>
  The compiled device filter decides what the reference semantics \<open>decide\<close> says, and always
  passes the interpreter's checks. The decoded program is a head, a block per rule and a tail;
  each piece is run with \<open>esem\<close> on the instructions that follow, a rule's block changes the
  allowed bits as \<open>apply_rule\<close> does, and the optimiser drops only rules that change nothing.
\<close>

section \<open>The compiled program, decoded\<close>

lemma decode_insns:
  "edecode (ldxw R_TYPE R_CTX off) = Some (Ldxw 2 1 off)"
  "edecode (ldxw R_MAJOR R_CTX off) = Some (Ldxw 4 1 off)"
  "edecode (ldxw R_MINOR R_CTX off) = Some (Ldxw 5 1 off)"
  "edecode (alu32_x EBPF_MOV R_ACCESS R_TYPE) = Some (EAluOp EMov 3 (ESrcX 2))"
  "edecode (alu32_k EBPF_RSH R_ACCESS v) = Some (EAluOp ERsh 3 (ESrcK v))"
  "edecode (alu32_k EBPF_AND R_TYPE v) = Some (EAluOp EAnd 2 (ESrcK v))"
  "edecode (alu32_k EBPF_MOV R_ALLOWED v) = Some (EAluOp EMov 6 (ESrcK v))"
  "edecode (alu32_k EBPF_OR R_ALLOWED v) = Some (EAluOp EOr 6 (ESrcK v))"
  "edecode (alu32_k EBPF_AND R_ALLOWED v) = Some (EAluOp EAnd 6 (ESrcK v))"
  "edecode (alu32_k EBPF_XOR R_SCRATCH v) = Some (EAluOp EXor 7 (ESrcK v))"
  "edecode (alu32_x EBPF_MOV R_SCRATCH R_TYPE) = Some (EAluOp EMov 7 (ESrcX 2))"
  "edecode (alu32_x EBPF_MOV R_SCRATCH R_MAJOR) = Some (EAluOp EMov 7 (ESrcX 4))"
  "edecode (alu32_x EBPF_MOV R_SCRATCH R_MINOR) = Some (EAluOp EMov 7 (ESrcX 5))"
  "edecode (jne32_k R_SCRATCH v off) = Some (Jmp32 ENe 7 (ESrcK v) off)"
  "edecode (alu32_x EBPF_AND R_ALLOWED R_ACCESS) = Some (EAluOp EAnd 6 (ESrcX 3))"
  "edecode (alu32_k EBPF_MOV 0 v) = Some (EAluOp EMov 0 (ESrcK v))"
  "edecode (jne32_x R_ALLOWED R_ACCESS off) = Some (Jmp32 ENe 6 (ESrcX 3) off)"
  "edecode EXIT = Some EExit"
  by (simp_all add: edecode_def edecode_alu_def edecode_jmp_def ldxw_def alu32_k_def alu32_x_def jne32_k_def
      jne32_x_def EXIT_def BpfInsn_new_def BpfInsn_dst_def BpfInsn_src_def Let_def wire)

definition skip_of :: "nat \<Rightarrow> u16" where
  "skip_of n = of_nat n"

fun dchecks :: "(u8 \<times> u32) list \<Rightarrow> EInsn list" where
  "dchecks [] = []"
| "dchecks ((reg, val) # checks) =
     [EAluOp EMov 7 (ESrcX reg), EAluOp EXor 7 (ESrcK val),
      Jmp32 ENe 7 (ESrcK 0) (skip_of (3 * length checks + 1))] @ dchecks checks"

definition dfinal :: "DevRule \<Rightarrow> EInsn" where
  "dfinal rule =
     (if dr_allow rule then EAluOp EOr 6 (ESrcK (Access_bits (dr_access rule)))
      else EAluOp EAnd 6 (ESrcK (NOT (Access_bits (dr_access rule)) AND Access_bits Access_ALL)))"

definition drule :: "DevRule \<Rightarrow> EInsn list" where
  "drule rule = dchecks (rule_checks rule) @ [dfinal rule]"

definition dhead :: "Access \<Rightarrow> EInsn list" where
  "dhead initial =
     [Ldxw 2 1 CTX_ACCESS_TYPE, EAluOp EMov 3 (ESrcX 2), EAluOp ERsh 3 (ESrcK 16),
      EAluOp EAnd 2 (ESrcK 0xffff), Ldxw 4 1 CTX_MAJOR, Ldxw 5 1 CTX_MINOR,
      EAluOp EMov 6 (ESrcK (Access_bits initial))]"

definition dtail :: "EInsn list" where
  "dtail =
     [EAluOp EAnd 6 (ESrcX 3), EAluOp EMov 0 (ESrcK 0), Jmp32 ENe 6 (ESrcX 3) 1,
      EAluOp EMov 0 (ESrcK 1), EExit]"

definition dprog :: "Access \<Rightarrow> DevRule list \<Rightarrow> EInsn list" where
  "dprog initial rules =
     (if initial = Access_ALL \<and> rules = [] then [EAluOp EMov 0 (ESrcK 1), EExit]
      else dhead initial @ concat (map drule rules) @ dtail)"

abbreviation check_regs :: "u8 set" where
  "check_regs \<equiv> {2, 4, 5}"

lemma rule_checks_regs: "fst ` set (rule_checks rule) \<subseteq> check_regs"
  by (auto simp: rule_checks_def wire split: option.splits)

lemma rule_checks_length: "length (rule_checks rule) \<le> 3"
  by (auto simp: rule_checks_def split: option.split)

lemma decode_checks:
  "fst ` set checks \<subseteq> check_regs \<Longrightarrow> map edecode (emit_checks checks) = map Some (dchecks checks)"
proof (induction checks rule: emit_checks.induct)
  case (2 reg val checks)
  then have "reg = R_TYPE \<or> reg = R_MAJOR \<or> reg = R_MINOR" by (auto simp: wire)
  then have "edecode (alu32_x EBPF_MOV R_SCRATCH reg) = Some (EAluOp EMov 7 (ESrcX reg))"
    using decode_insns(11-13) by (auto simp: R_TYPE_def R_MAJOR_def R_MINOR_def)
  then show ?case using 2 by (auto simp: decode_insns skip_of_def)
qed simp

lemma decode_program: "map edecode (dev_compile initial rules) = map Some (dprog initial rules)"
proof -
  have rule: "map edecode (emit_rule r) = map Some (drule r)" for r
    using decode_checks[OF rule_checks_regs[of r]]
    by (auto simp: emit_rule_def drule_def dfinal_def decode_insns)
  have "map edecode (concat (map emit_rule rules)) = map Some (concat (map drule rules))"
    by (induction rules) (auto simp: rule)
  then show ?thesis
    by (auto simp: dev_compile_def dprog_def dhead_def dtail_def decode_insns)
qed

section \<open>What the program computes\<close>

text \<open>A rule's effect on the allowed bits of a device.\<close>

definition apply_rule :: "Request \<Rightarrow> DevRule \<Rightarrow> u32 \<Rightarrow> u32" where
  "apply_rule req rule al =
     (if Rule_matches rule (rq_typ req) (rq_major req) (rq_minor req)
      then (if dr_allow rule then al OR Access_bits (dr_access rule)
            else al AND (NOT (Access_bits (dr_access rule)) AND Access_bits Access_ALL))
      else al)"

definition regs_hold :: "Request \<Rightarrow> u32 \<Rightarrow> u64 list \<Rightarrow> bool" where
  "regs_hold req al r \<longleftrightarrow>
     length r = 11 \<and> r ! 2 = ucast (DevType_bits (rq_typ req)) \<and> r ! 3 = ucast (Access_bits (rq_access req)) \<and>
     r ! 4 = ucast (rq_major req) \<and> r ! 5 = ucast (rq_minor req) \<and> r ! 6 = ucast al"

lemma sint_small: "n < 2 ^ 15 \<Longrightarrow> sint (of_nat n :: u16) = int n"
  by (simp add: signed_of_nat signed_take_bit_int_eq_self_iff)

lemma xor_eq_0: "(a :: u32) XOR b = 0 \<longleftrightarrow> a = b"
  by (metis xor.left_neutral xor.assoc xor_self_eq)

lemma esem_alu:
  assumes "unat dst < length r" and "esrc_value \<lparr>e_r = r, e_pc = 0\<rparr> src = Some v"
  shows "esem ctx (EAluOp alu dst src # is) r =
    esem ctx is (r[unat dst := ucast (ealu_value alu (ucast (r ! unat dst)) v)])"
  using assms by (simp add: esem.simps set_reg_def reg32_def)

lemma esem_jne:
  assumes "unat dst < length r" and "esrc_value \<lparr>e_r = r, e_pc = 0\<rparr> src = Some v" and "n < 2 ^ 15"
  shows "esem ctx (Jmp32 ENe dst src (skip_of n) # is) r =
    esem ctx (if ucast (r ! unat dst) \<noteq> v then drop n is else is) r"
  using assms by (simp add: esem.simps jump_by_def reg32_def skip_of_def sint_small)

lemma length_dchecks: "length (dchecks checks) = 3 * length checks"
  by (induction checks rule: dchecks.induct) auto

lemma esem_checks:
  assumes "fst ` set checks \<subseteq> check_regs" and "length checks \<le> 3" and "length r = 11"
  shows "\<exists>v. esem ctx (dchecks checks @ i # rest) r =
    esem ctx (if \<forall>(reg, val)\<in>set checks. ucast (r ! unat reg) = val then i # rest else rest) (r[7 := v])"
  using assms
proof (induction checks arbitrary: r rule: dchecks.induct)
  case 1
  then show ?case by (intro exI[of _ "r ! 7"]) simp
next
  case (2 reg val checks)
  have reg: "unat reg < 11" "unat reg \<noteq> 7" and regs: "fst ` set checks \<subseteq> check_regs"
    using "2.prems"(1) by auto
  let ?a = "ucast (r ! unat reg) :: u32"
  define r1 where "r1 = r[7 := ucast (?a XOR val)]"
  have "3 * length checks + 1 < 2 ^ 15" using "2.prems"(2) by simp
  then have step: "esem ctx (dchecks ((reg, val) # checks) @ i # rest) r =
      esem ctx (if ?a XOR val \<noteq> 0 then rest else dchecks checks @ i # rest) r1"
    using reg "2.prems"(3) by (simp add: esem_alu esem_jne reg32_def r1_def length_dchecks)
  have same: "(\<forall>(reg, val)\<in>set checks. ucast (r1 ! unat reg) = val) \<longleftrightarrow>
      (\<forall>(reg, val)\<in>set checks. ucast (r ! unat reg) = (val :: u32))"
    using regs by (fastforce simp: r1_def)
  show ?case
  proof (cases "?a = val")
    case False
    then show ?thesis using step by (auto simp: xor_eq_0 r1_def)
  next
    case True
    obtain v where "esem ctx (dchecks checks @ i # rest) r1 =
        esem ctx (if \<forall>(reg, val)\<in>set checks. ucast (r1 ! unat reg) = val then i # rest else rest) (r1[7 := v])"
      using "2.IH"[OF regs, of r1] "2.prems"(2,3) by (force simp: r1_def)
    then show ?thesis using step True unfolding same by (auto simp: xor_eq_0 r1_def)
  qed
qed

lemma checks_match:
  assumes "regs_hold req al r"
  shows "(\<forall>(reg, val)\<in>set (rule_checks rule). ucast (r ! unat reg) = val) \<longleftrightarrow>
    Rule_matches rule (rq_typ req) (rq_major req) (rq_minor req)"
proof -
  have kind: "DevType_bits (rq_typ req) = DevType_bits t \<longleftrightarrow> t = rq_typ req" for t
    by (cases t; cases "rq_typ req") auto
  have r: "ucast (r ! 2) = DevType_bits (rq_typ req)" "ucast (r ! 4) = rq_major req"
      "ucast (r ! 5) = rq_minor req"
    using assms by (simp_all add: regs_hold_def)
  have regs: "unat R_TYPE = 2" "unat R_MAJOR = 4" "unat R_MINOR = 5" by (simp_all add: wire)
  show ?thesis
    unfolding rule_checks_def Rule_matches_def is_none_or_def
    by (cases "dr_typ rule"; cases "dr_major rule"; cases "dr_minor rule")
      (auto simp: regs r kind)
qed

lemma regs_hold_scratch: "regs_hold req al r \<Longrightarrow> regs_hold req al (r[7 := v])"
  by (simp add: regs_hold_def)

lemma regs_hold_allowed: "regs_hold req al r \<Longrightarrow> regs_hold req al' (r[6 := ucast al'])"
  by (simp add: regs_hold_def)

lemma esem_rule:
  assumes "regs_hold req al r"
  shows "\<exists>r'. regs_hold req (apply_rule req rule al) r' \<and> esem ctx (drule rule @ rest) r = esem ctx rest r'"
proof -
  have len: "length r = 11" using assms by (simp add: regs_hold_def)
  obtain v where v: "esem ctx (dchecks (rule_checks rule) @ dfinal rule # rest) r =
      esem ctx (if Rule_matches rule (rq_typ req) (rq_major req) (rq_minor req) then dfinal rule # rest else rest)
        (r[7 := v])"
    using esem_checks[OF rule_checks_regs rule_checks_length len, where i = "dfinal rule" and rest = rest and ctx = ctx]
    unfolding checks_match[OF assms] by blast
  let ?r = "r[7 := v]"
  have hold: "regs_hold req al ?r" by (rule regs_hold_scratch[OF assms])
  then have 6: "ucast (?r ! 6) = al" "length ?r = 11" by (simp_all add: regs_hold_def)
  have "esem ctx (dfinal rule # rest) ?r = esem ctx rest (?r[6 := ucast (if dr_allow rule
      then al OR Access_bits (dr_access rule)
      else al AND (NOT (Access_bits (dr_access rule)) AND Access_bits Access_ALL))])"
    using 6 by (simp add: dfinal_def esem_alu)
  then show ?thesis
    using v hold regs_hold_allowed[OF hold] by (auto simp: drule_def apply_rule_def)
qed

lemma esem_rules:
  assumes "regs_hold req al r"
  shows "\<exists>r'. regs_hold req (fold (apply_rule req) rules al) r' \<and>
    esem ctx (concat (map drule rules) @ rest) r = esem ctx rest r'"
  using assms
proof (induction rules arbitrary: al r)
  case (Cons rule rules)
  obtain r1 where "regs_hold req (apply_rule req rule al) r1"
      "esem ctx (drule rule @ concat (map drule rules) @ rest) r = esem ctx (concat (map drule rules) @ rest) r1"
    using esem_rule[OF Cons.prems] by blast
  then show ?case using Cons.IH by auto
qed auto

lemma esem_tail:
  assumes "regs_hold req al r"
  shows "esem ctx dtail r = Some (if al AND Access_bits (rq_access req) = Access_bits (rq_access req) then 1 else 0)"
proof -
  have "skip_of 1 = 1" by (simp add: skip_of_def)
  moreover have "r \<noteq> []" using assms by (auto simp: regs_hold_def)
  moreover have "esem ctx [EExit] r' = Some (ucast (r' ! 0))" if "r' \<noteq> []" "r' ! 0 = 0 \<or> r' ! 0 = 1" for r'
    using that by (simp add: esem.simps)
  ultimately show ?thesis
    using assms esem_jne[where n = 1 and dst = 6 and src = "ESrcX 3"]
    by (simp add: dtail_def esem_alu reg32_def regs_hold_def)
qed

section \<open>Access bits\<close>

definition access_ok :: "Access \<Rightarrow> bool" where
  "access_ok a \<longleftrightarrow> a AND 7 = a"

lemma access_cases: "access_ok a \<Longrightarrow> a \<in> {0, 1, 2, 3, 4, 5, 6, 7}"
proof -
  assume "access_ok a"
  then have "a = take_bit 3 a" by (simp add: access_ok_def take_bit_eq_mask mask_eq_exp_minus_1)
  then have "unat a = take_bit 3 (unat a)" by (metis unsigned_take_bit_eq)
  then have "unat a < 2 ^ 3" by (metis take_bit_nat_less_exp)
  then have "unat a \<le> 7" by simp
  then have "unat a \<in> {0, 1, 2, 3, 4, 5, 6, 7}" by auto
  then have "of_nat (unat a) \<in> {0, 1, 2, 3, 4, 5, 6, 7 :: u8}" by (elim insertE) simp_all
  then show ?thesis by simp
qed

lemma zeros: "replicate 11 (0 :: u64) = [0, 0, 0, 0, 0, 0, 0, 0, 0, 0, 0]"
  by (simp add: numeral_eq_Suc)

lemma esem_ldxw:
  "unat dst < length r \<Longrightarrow> esem ctx (Ldxw dst src off # is) r = esem ctx is (r[unat dst := ucast (ctx_field ctx off)])"
  by (simp add: esem.simps set_reg_def)

lemma esem_head:
  assumes "access_ok (rq_access req)"
  shows "\<exists>r. regs_hold req (Access_bits initial) r \<and>
    esem (Ctx_from req) (dhead initial @ rest) (replicate 11 0) = esem (Ctx_from req) rest r"
proof -
  let ?at = "ctx_access_type (Ctx_from req)"
  have "?at AND 0xffff = DevType_bits (rq_typ req)" "drop_bit 16 ?at = Access_bits (rq_access req)"
    using access_cases[OF assms] by (cases "rq_typ req"; auto simp: Ctx_from_def Access_bits_def)+
  then show ?thesis
    by (intro exI[of _ "[0, 0, ucast (DevType_bits (rq_typ req)), ucast (Access_bits (rq_access req)),
        ucast (rq_major req), ucast (rq_minor req), ucast (Access_bits initial), 0, 0, 0, 0]"])
      (simp add: dhead_def zeros esem_alu esem_ldxw ctx_field_def reg32_def wire regs_hold_def Ctx_from_def)
qed

lemma program_value:
  assumes "access_ok (rq_access req)"
  shows "esem (Ctx_from req) (dprog initial rules) (replicate 11 0) =
    Some (if fold (apply_rule req) rules (Access_bits initial) AND Access_bits (rq_access req)
             = Access_bits (rq_access req) then 1 else 0)"
proof (cases "initial = Access_ALL \<and> rules = []")
  case True
  have "Access_bits Access_ALL AND Access_bits (rq_access req) = Access_bits (rq_access req)"
    using access_cases[OF assms] by (auto simp: Access_bits_def wire)
  then show ?thesis using True by (simp add: dprog_def zeros esem_alu) (simp add: esem.simps)
next
  case False
  obtain r where r: "regs_hold req (Access_bits initial) r"
      "esem (Ctx_from req) (dhead initial @ concat (map drule rules) @ dtail) (replicate 11 0) =
       esem (Ctx_from req) (concat (map drule rules) @ dtail) r"
    using esem_head[OF assms] by blast
  obtain r' where "regs_hold req (fold (apply_rule req) rules (Access_bits initial)) r'"
      "esem (Ctx_from req) (concat (map drule rules) @ dtail) r = esem (Ctx_from req) dtail r'"
    using esem_rules[OF r(1)] by blast
  moreover have "dprog initial rules = dhead initial @ concat (map drule rules) @ dtail"
    using False by (auto simp: dprog_def)
  ultimately show ?thesis using r(2) esem_tail by simp
qed

section \<open>From bits to decisions\<close>

abbreviation rule_for :: "Request \<Rightarrow> DevRule \<Rightarrow> bool" where
  "rule_for req r \<equiv> Rule_matches r (rq_typ req) (rq_major req) (rq_minor req)"

lemma bit_7: "bit (7 :: 'a::len word) k \<longleftrightarrow> k < 3 \<and> k < LENGTH('a)"
proof -
  have "(7 :: 'a word) = mask 3" by (simp add: mask_eq_exp_minus_1)
  then show ?thesis by (simp only: bit_mask_iff) auto
qed

lemma bit_Access_bits: "bit (Access_bits a) k \<longleftrightarrow> k < 8 \<and> bit a k"
  by (auto simp: Access_bits_def bit_ucast_iff dest: bit_imp_le_length)

lemma bit_apply_rule:
  assumes "k < 3"
  shows "bit (apply_rule req rule al) k \<longleftrightarrow>
    (if rule_for req rule \<and> bit (dr_access rule) k then dr_allow rule else bit al k)"
  using assms bit_7[of k, where 'a = 8]
  by (auto simp: apply_rule_def bit_or_iff bit_and_iff bit_not_iff bit_Access_bits Access_ALL_def)

lemma bit_fold_rules:
  assumes "k < 3"
  shows "bit (fold (apply_rule req) rules al) k \<longleftrightarrow>
    (case find (\<lambda>r. bit (dr_access r) k \<and> rule_for req r) (rev rules) of
       None \<Rightarrow> bit al k | Some r \<Rightarrow> dr_allow r)"
  by (induction rules rule: rev_induct) (auto simp: bit_apply_rule[OF assms])

lemma and_eq_iff: "a AND b = b \<longleftrightarrow> (\<forall>k. bit b k \<longrightarrow> bit a k)" for a b :: "'a::len word"
proof
  assume "a AND b = b"
  then show "\<forall>k. bit b k \<longrightarrow> bit a k" by (metis bit_and_iff)
qed (rule bit_word_eqI, auto simp: bit_and_iff)

lemma and_bit: "n < 8 \<Longrightarrow> (a :: u8) AND 2 ^ n = 2 ^ n \<longleftrightarrow> bit a n"
  by (auto simp: and_eq_iff bit_exp_iff)

lemma contains_bit:
  "Access_contains a Access_READ \<longleftrightarrow> bit a 1" "Access_contains a Access_WRITE \<longleftrightarrow> bit a 2"
  "Access_contains a Access_MKNOD \<longleftrightarrow> bit a 0"
  using and_bit[of 1 a] and_bit[of 2 a] and_bit[of 0 a] by (simp_all add: Access_contains_def wire)


lemma request_bits:
  assumes "access_ok acc"
  shows "al AND Access_bits acc = Access_bits acc \<longleftrightarrow> (\<forall>k < 3. bit acc k \<longrightarrow> bit al k)"
proof -
  have acc: "bit acc k \<longrightarrow> k < 3" for k
    using assms by (metis access_ok_def bit_and_iff bit_7)
  show ?thesis using acc unfolding and_eq_iff by (force simp: bit_Access_bits)
qed

lemma less_3: "(\<forall>k < 3. P k) \<longleftrightarrow> P 1 \<and> P 2 \<and> P (0 :: nat)"
  by (auto simp: numeral_eq_Suc less_Suc_eq)

lemma fold_decides:
  assumes "access_ok (rq_access req)"
  shows "fold (apply_rule req) rules 0 AND Access_bits (rq_access req) = Access_bits (rq_access req)
    \<longleftrightarrow> decide rules req"
proof -
  have "bit (fold (apply_rule req) rules 0) k \<longleftrightarrow>
      (case find (\<lambda>r. bit (dr_access r) k \<and> rule_for req r) (rev rules) of None \<Rightarrow> False | Some r \<Rightarrow> dr_allow r)"
    if "k < 3" for k
    unfolding bit_fold_rules[OF that] by (simp cong: option.case_cong)
  then show ?thesis
    unfolding request_bits[OF assms] less_3 decide_def decide_bit_def by (simp add: contains_bit)
qed

section \<open>The optimiser\<close>

lemma fold_mask:
  assumes "al AND 7 = al" and "\<forall>r\<in>set rules. access_ok (dr_access r)"
  shows "fold (apply_rule req) rules al AND 7 = fold (apply_rule req) rules al"
  using assms
proof (induction rules arbitrary: al)
  case (Cons r rules)
  have "Access_bits (dr_access r) AND 7 = Access_bits (dr_access r)"
    using access_cases[of "dr_access r"] Cons.prems(2) by (auto simp: Access_bits_def)
  then have "apply_rule req r al AND 7 = apply_rule req r al"
    using Cons.prems(1) by (auto simp: apply_rule_def Access_bits_def wire bit_eq_iff bit_and_iff bit_or_iff bit_7)
  then show ?case using Cons by simp
qed simp

lemma reset_value:
  assumes "is_reset r" and "al AND 7 = al"
  shows "apply_rule req r al = (if dr_allow r then Access_bits Access_ALL else Access_bits Access_NONE)"
proof -
  have "al OR 7 = 7" using assms(2) by (auto simp: bit_eq_iff bit_and_iff bit_or_iff)
  then show ?thesis
    using assms(1) by (simp add: apply_rule_def is_reset_def Rule_matches_def is_none_or_def Access_bits_def wire)
qed

lemma split_reset_cases:
  "split_reset rev_rules rest = (reset, rest') \<Longrightarrow>
   (case reset of None \<Rightarrow> rest' = rev rev_rules @ rest
    | Some r \<Rightarrow> is_reset r \<and> (\<exists>pre. rev rev_rules @ rest = pre @ r # rest'))"
  by (induction rev_rules rest rule: split_reset.induct) (auto split: if_splits option.splits)

lemma keep_rules_sound:
  assumes "\<And>a. uniform = Some a \<Longrightarrow> al = Access_bits a" and "\<forall>r\<in>set rules. access_ok (dr_access r)"
  shows "fold (apply_rule req) (keep_rules uniform rules) al = fold (apply_rule req) rules al"
  using assms
proof (induction uniform rules arbitrary: al rule: keep_rules.induct)
  case (2 uniform r rs)
  define no_op where "no_op \<longleftrightarrow> (case uniform of None \<Rightarrow> False
    | Some a \<Rightarrow> if a = Access_ALL then dr_allow r else if a = Access_NONE then \<not> dr_allow r else False)"
  show ?case
  proof (cases no_op)
    case True
    then obtain a where a: "uniform = Some a" "a = Access_ALL \<and> dr_allow r \<or> a = Access_NONE \<and> \<not> dr_allow r"
      by (auto simp: no_op_def split: option.splits if_splits)
    have "7 OR Access_bits (dr_access r) = 7"
      using access_cases[of "dr_access r"] "2.prems"(2) by (auto simp: Access_bits_def)
    then have "apply_rule req r al = al"
      using a "2.prems"(1)[OF a(1)] by (auto simp: apply_rule_def Access_bits_def wire)
    then show ?thesis using "2.IH"(1)[of no_op al] "2.prems" True by (simp add: no_op_def Let_def)
  next
    case False
    then show ?thesis using "2.IH"(2)[of no_op "apply_rule req r al"] "2.prems" by (simp add: no_op_def Let_def)
  qed
qed simp

lemma optimise_sound:
  assumes "optimise rules = (initial, kept)" and "\<forall>r\<in>set rules. access_ok (dr_access r)"
  shows "fold (apply_rule req) kept (Access_bits initial) = fold (apply_rule req) rules 0"
proof -
  obtain reset rest where s: "split_reset (rev rules) [] = (reset, rest)" by (cases "split_reset (rev rules) []")
  note c = split_reset_cases[OF s]
  have kept: "kept = keep_rules (Some initial) rest"
    and initial: "initial = (case reset of None \<Rightarrow> Access_NONE | Some r \<Rightarrow> if dr_allow r then Access_ALL else Access_NONE)"
    using assms(1) s by (auto simp: optimise_def Let_def)
  have sub: "\<forall>r\<in>set rest. access_ok (dr_access r)" 
  proof (cases reset)
    case None
    then show ?thesis using c assms(2) by simp
  next
    case (Some r)
    then obtain pre where "rules = pre @ r # rest" using c by auto
    then show ?thesis using assms(2) by simp
  qed
  have "fold (apply_rule req) kept (Access_bits initial) = fold (apply_rule req) rest (Access_bits initial)"
    unfolding kept by (rule keep_rules_sound[OF _ sub]) simp
  also have "\<dots> = fold (apply_rule req) rules 0"
  proof (cases reset)
    case None
    then show ?thesis using c initial by (simp add: Access_bits_def wire)
  next
    case (Some r)
    then obtain pre where pre: "is_reset r" "rules = pre @ r # rest" using c by auto
    have "fold (apply_rule req) pre 0 AND 7 = fold (apply_rule req) pre 0"
      using fold_mask[of 0 pre req] assms(2) pre(2) by simp
    then show ?thesis using reset_value[OF pre(1)] pre(2) initial Some by simp
  qed
  finally show ?thesis .
qed

section \<open>The compiled program passes the checks\<close>

text \<open>The checks seen from each instruction towards the end.\<close>

definition fits :: "nat \<Rightarrow> u16 \<Rightarrow> bool" where
  "fits n off \<longleftrightarrow> 0 \<le> sint off \<and> nat (sint off) < n"

fun insn_fine :: "nat \<Rightarrow> EInsn \<Rightarrow> bool" where
  "insn_fine n (Jmp32 jmp dst src off) = (fst (eregs (Jmp32 jmp dst src off)) AND NOT 0x7ff = 0 \<and> fits n off)"
| "insn_fine n (EJa off) = fits n off"
| "insn_fine n i = (echeck_insn 0 0 i = Inr ())"

fun code_fine :: "EInsn list \<Rightarrow> bool" where
  "code_fine [] = True"
| "code_fine (i # is) = (insn_fine (length is) i \<and> code_fine is)"

lemma check_writes_pc: "check_writes pc w = Inr () \<longleftrightarrow> check_writes 0 w = Inr ()"
  by (auto simp: check_writes_def split: option.split if_splits)

lemma insn_fine_check:
  assumes "insn_fine n i"
  shows "echeck_insn (pc + 1 + n) pc i = Inr ()"
proof (cases i)
  case (EAluOp alu dst src)
  then show ?thesis
    using assms check_writes_pc[of pc "Some dst"]
    by (cases src; cases alu) (auto simp: echeck_insn_def bind_result_Inr_iff split: if_splits)
next
  case (Ldxw dst src off)
  then show ?thesis
    using assms check_writes_pc[of pc "Some dst"] by (auto simp: echeck_insn_def bind_result_Inr_iff split: if_splits)
qed (use assms in \<open>auto simp: echeck_insn_def check_writes_def bad_jump_def fits_def reg_bit_def\<close>)

lemma code_fine_loop:
  "map edecode raw = map Some insns \<Longrightarrow> code_fine insns \<Longrightarrow> echeck_loop (pc + length raw) pc raw = Inr insns"
proof (induction raw arbitrary: insns pc)
  case (Cons f raw)
  then obtain i rest where i: "insns = i # rest" "edecode f = Some i" "map edecode raw = map Some rest"
    by (auto simp: Cons_eq_map_conv)
  then have "length raw = length rest" by (metis length_map)
  then have "echeck_insn (pc + length (f # raw)) pc i = Inr ()"
    using insn_fine_check[of "length rest" i pc] Cons.prems(2) i(1) by simp
  then show ?case using i Cons.IH[OF i(3), of "pc + 1"] Cons.prems(2) by simp
qed simp

lemma fits_skip: "k < n \<Longrightarrow> k < 2 ^ 15 \<Longrightarrow> fits n (skip_of k)"
  by (simp add: fits_def skip_of_def sint_small)

lemma code_fine_checks:
  assumes "fst ` set checks \<subseteq> check_regs" and "length checks \<le> 3" and "code_fine (i # rest)" and "rest \<noteq> []"
  shows "code_fine (dchecks checks @ i # rest)"
  using assms
proof (induction checks rule: dchecks.induct)
  case (2 reg val checks)
  have "fits (length (dchecks checks @ i # rest)) (skip_of (3 * length checks + 1))"
    by (rule fits_skip) (use "2.prems"(2,4) in \<open>auto simp: length_dchecks\<close>)
  moreover have "reg = 2 \<or> reg = 4 \<or> reg = 5" using "2.prems"(1) by auto
  ultimately show ?case
    using 2 by (auto simp: echeck_insn_def check_writes_def reg_bit_def wire)
qed simp

lemma code_fine_rule: "code_fine rest \<Longrightarrow> rest \<noteq> [] \<Longrightarrow> code_fine (drule r @ rest)"
  using code_fine_checks[OF rule_checks_regs rule_checks_length, of "dfinal r" rest r]
  by (auto simp: drule_def dfinal_def echeck_insn_def check_writes_def reg_bit_def wire)

lemma code_fine_rules: "code_fine rest \<Longrightarrow> rest \<noteq> [] \<Longrightarrow> code_fine (concat (map drule rules) @ rest)"
proof (induction rules)
  case (Cons r rules)
  then show ?case using code_fine_rule[of "concat (map drule rules) @ rest" r] by simp
qed simp

lemma code_fine_program: "code_fine (dprog initial rules)"
proof -
  have "code_fine dtail"
    by (simp add: dtail_def echeck_insn_def check_writes_def reg_bit_def fits_def wire)
  then have "code_fine (concat (map drule rules) @ dtail)"
    by (rule code_fine_rules) (simp add: dtail_def)
  then show ?thesis
    by (simp add: dprog_def dhead_def echeck_insn_def check_writes_def reg_bit_def wire)
qed


text \<open>The path check, again towards the end: \<open>ks\<close> is what is known from here on.\<close>

fun offsets :: "EInsn \<Rightarrow> nat list" where
  "offsets EExit = []"
| "offsets (EJa off) = [nat (sint off)]"
| "offsets (Jmp32 jmp dst src off) = [0, nat (sint off)]"
| "offsets _ = [0]"

lemma successors_offsets: "successors pc i = map (\<lambda>n. pc + 1 + n) (offsets i)"
  by (cases i) auto

definition after_insn :: "EInsn \<Rightarrow> u16 \<Rightarrow> u16" where
  "after_insn i here = here OR (case snd (eregs i) of None \<Rightarrow> 0 | Some r \<Rightarrow> reg_bit r)"

fun paths_ok :: "EInsn list \<Rightarrow> u16 option list \<Rightarrow> bool" where
  "paths_ok [] ks = True"
| "paths_ok (i # is) (Some here # ks) =
     (fst (eregs i) AND NOT here = 0 \<and>
      (case reach_all (after_insn i here) (offsets i) ks of None \<Rightarrow> False | Some ks' \<Rightarrow> paths_ok is ks'))"
| "paths_ok (i # is) _ = False"

lemma reach_all_drop:
  assumes "reach_all a ns (drop m known) = Some ks"
  shows "\<exists>known'. reach_all a (map (\<lambda>n. m + n) ns) known = Some known' \<and> drop m known' = ks \<and>
    length known' = length known"
  using assms
proof (induction ns arbitrary: known)
  case (Cons n ns)
  have n: "n < length (drop m known)" using Cons.prems by (auto simp: reach_def split: if_splits option.splits)
  let ?v = "Some (case known ! (m + n) of None \<Rightarrow> a | Some k \<Rightarrow> k AND a)"
  have "drop m (known[m + n := ?v]) = (drop m known)[n := ?v]"
    using n by (simp add: drop_update_swap)
  then have "reach_all a ns (drop m (known[m + n := ?v])) = Some ks"
    using Cons.prems n by (simp add: reach_def)
  from Cons.IH[OF this] show ?case using n by (simp add: reach_def)
qed simp

lemma paths_ok_loop:
  assumes "length known = pc + length insns" and "paths_ok insns (drop pc known)"
  shows "check_paths_loop pc insns known = Inr ()"
  using assms
proof (induction insns arbitrary: pc known)
  case (Cons i rest)
  then have d: "drop pc known = known ! pc # drop (Suc pc) known" by (simp add: Cons_nth_drop_Suc)
  then obtain here ks where here: "known ! pc = Some here" "fst (eregs i) AND NOT here = 0"
      "reach_all (after_insn i here) (offsets i) (drop (Suc pc) known) = Some ks" "paths_ok rest ks"
    using Cons.prems(2) by (cases "known ! pc") (auto split: option.splits)
  obtain known' where "reach_all (after_insn i here) (map (\<lambda>n. Suc pc + n) (offsets i)) known = Some known'"
      "drop (Suc pc) known' = ks" "length known' = length known"
    using reach_all_drop[OF here(3)] by blast
  then show ?case
    using Cons.IH[of known' "Suc pc"] Cons.prems(1) here(1,2,4)
    by (simp add: successors_offsets after_insn_def)
qed simp

text \<open>Registers that hold a value: \<open>r1\<close>, \<open>r10\<close> and \<open>w2\<close> to \<open>w6\<close>, and maybe \<open>w7\<close>.\<close>

abbreviation live :: "u16 \<Rightarrow> bool" where
  "live here \<equiv> here = 0x47e \<or> here = 0x4fe"

lemma paths_checks:
  assumes "fst ` set checks \<subseteq> check_regs" and "length checks \<le> 3" and "live here"
    and e: "e = None \<or> e = Some 0x4fe" "checks = [] \<or> e = None \<or> here = 0x4fe"
    and rest: "\<And>e' here'. live here' \<Longrightarrow> (checks = [] \<longrightarrow> e' = e \<and> here' = here) \<Longrightarrow>
      (checks \<noteq> [] \<longrightarrow> e' = Some 0x4fe \<and> here' = 0x4fe) \<Longrightarrow> paths_ok (i # is) (Some here' # e' # ks)"
  shows "paths_ok (dchecks checks @ i # is) (Some here # replicate (3 * length checks) None @ e # ks)"
  using assms
proof (induction checks arbitrary: here e rule: dchecks.induct)
  case (2 reg val checks)
  have reg: "reg = 2 \<or> reg = 4 \<or> reg = 5" using "2.prems"(1) by auto
  have off: "nat (sint (skip_of (3 * length checks + 1))) = 3 * length checks + 1"
    using "2.prems"(2) unfolding skip_of_def by (subst sint_small) simp_all
  have "paths_ok (dchecks checks @ i # is) (Some 0x4fe # replicate (3 * length checks) None @ Some 0x4fe # ks)"
    by (rule "2.IH") (use "2.prems" in auto)
  then show ?case
    using reg "2.prems"(3,4) off
    by (auto simp: after_insn_def reg_bit_def reach_def nth_append list_update_append numeral_3_eq_3)
qed simp


lemma dfinal_paths:
  assumes "live here" and "e = None \<or> e = Some 0x4fe" and "e = None \<or> here = 0x4fe"
    and "paths_ok is (Some here # ks)"
  shows "paths_ok (dfinal r # is) (Some here # e # ks)"
  using assms by (auto simp: dfinal_def after_insn_def reg_bit_def reach_def)

lemma paths_rule:
  assumes "live here" and "\<And>here'. live here' \<Longrightarrow> paths_ok is (Some here' # ks)"
  shows "paths_ok (drule r @ is) (Some here # replicate (length (drule r)) None @ ks)"
proof -
  have "paths_ok (dchecks (rule_checks r) @ dfinal r # is)
      (Some here # replicate (3 * length (rule_checks r)) None @ None # ks)"
  proof (rule paths_checks[OF rule_checks_regs rule_checks_length assms(1)])
    fix e' :: "u16 option" and here' :: u16
    assume *: "live here'" "rule_checks r = [] \<longrightarrow> e' = None \<and> here' = here"
      "rule_checks r \<noteq> [] \<longrightarrow> e' = Some 0x4fe \<and> here' = 0x4fe"
    then show "paths_ok (dfinal r # is) (Some here' # e' # ks)"
      by (intro dfinal_paths assms(2)) auto
  qed simp_all
  moreover have "replicate (length (drule r)) None @ ks = replicate (3 * length (rule_checks r)) None @ None # ks"
    by (simp add: drule_def length_dchecks replicate_append_same flip: replicate_Suc)
  ultimately show ?thesis by (simp add: drule_def)
qed

lemma nones: "replicate 4 None = [None, None, None, None]"
  by (simp add: numeral_eq_Suc)

lemma paths_tail: "live here \<Longrightarrow> paths_ok dtail (Some here # replicate 4 None)"
  unfolding nones by (auto simp: dtail_def after_insn_def reg_bit_def reach_def)

lemma paths_rules:
  "live here \<Longrightarrow> paths_ok (concat (map drule rules) @ dtail)
     (Some here # replicate (length (concat (map drule rules)) + 4) None)"
proof (induction rules arbitrary: here)
  case Nil
  then show ?case using paths_tail by simp
next
  case (Cons r rules)
  show ?case
    using paths_rule[OF Cons.prems, of "concat (map drule rules) @ dtail"
        "replicate (length (concat (map drule rules)) + 4) None" r] Cons.IH
    by (simp add: replicate_add)
qed


lemma paths_program: "paths_ok (dprog initial rules) (Some 0x402 # replicate (length (dprog initial rules) - 1) None)"
proof (cases "initial = Access_ALL \<and> rules = []")
  case True
  then show ?thesis by (simp add: dprog_def after_insn_def reg_bit_def reach_def)
next
  case False
  let ?n = "length (concat (map drule rules)) + 4"
  have prog: "dprog initial rules = dhead initial @ concat (map drule rules) @ dtail"
    using False by (auto simp: dprog_def)
  have len: "replicate (length (dprog initial rules) - 1) None =
      [None, None, None, None, None, None] @ None # replicate ?n None"
    unfolding prog by (simp add: dhead_def dtail_def numeral_eq_Suc)
  show ?thesis
    unfolding len unfolding prog
    using paths_rules[where here = "0x47e" and rules = rules] by (simp add: dhead_def after_insn_def reg_bit_def reach_def)
qed

lemma check_paths_program: "check_paths (dprog initial rules) = Inr ()"
proof -
  let ?p = "dprog initial rules"
  have "?p \<noteq> []" by (simp add: dprog_def dhead_def)
  then have ks: "(replicate (length ?p) None)[0 := Some (reg_bit R_CTX OR reg_bit R_FP)] =
      Some 0x402 # replicate (length ?p - 1) None"
    by (cases ?p) (simp_all add: reg_bit_def wire)
  then show ?thesis
    unfolding check_paths_def ks using paths_program \<open>?p \<noteq> []\<close> by (intro paths_ok_loop) simp_all
qed

lemma length_drule: "length (drule r) \<le> 10"
  using rule_checks_length[of r] by (simp add: drule_def length_dchecks)

lemma length_dprog: "length (dprog initial rules) \<le> 12 + 10 * length rules"
proof -
  have "length (concat (map drule rules)) \<le> 10 * length rules"
    by (induction rules) (use length_drule in \<open>auto simp: add.commute intro: add_mono\<close>)
  then show ?thesis by (simp add: dprog_def dhead_def dtail_def)
qed

lemma last_dprog: "dprog initial rules ! (length (dprog initial rules) - 1) = EExit"
  by (simp add: dprog_def dtail_def dhead_def nth_append)

lemma program_checks:
  assumes "length rules \<le> MAX_RULES"
  shows "echeck (dev_compile initial rules) = Inr ()"
proof -
  let ?p = "dev_compile initial rules" and ?d = "dprog initial rules"
  have len: "length ?p = length ?d" using decode_program by (metis length_map)
  have "echeck_loop (length ?p) 0 ?p = Inr ?d"
    using code_fine_loop[OF decode_program code_fine_program, of 0] by simp
  moreover have "length ?p \<noteq> 0 \<and> length ?p \<le> MAX_INSNS"
    using length_dprog[of initial rules] assms unfolding len
    by (auto simp: MAX_RULES_def MAX_INSNS_def dprog_def dhead_def)
  ultimately show ?thesis
    using last_dprog[of initial rules] check_paths_program len by (auto simp: echeck_def Let_def)
qed

lemma program_runs:
  assumes "length rules \<le> MAX_RULES" and "access_ok (rq_access req)"
  shows "erun (dev_compile initial rules) (Ctx_from req) =
    Inr (if fold (apply_rule req) rules (Access_bits initial) AND Access_bits (rq_access req)
            = Access_bits (rq_access req) then 1 else 0)"
proof -
  have d: "list_all (\<lambda>i. edecode i \<noteq> None) (dev_compile initial rules)"
      "map (\<lambda>i. the (edecode i)) (dev_compile initial rules) = dprog initial rules"
    using map_Some_the[OF decode_program] by auto
  have "ok_of (erun_loop (dprog initial rules, Ctx_from req) EMachine_init) =
      esem (Ctx_from req) (dprog initial rules) (replicate 11 0)"
    using erun_loop_esem[of "dprog initial rules" "Ctx_from req" EMachine_init] by (simp add: EMachine_init_def)
  then show ?thesis
    unfolding erun_def program_checks[OF assms(1)] bind_result_simps
    using d program_value[OF assms(2), of initial rules] by (simp add: split: if_splits)
qed

end
