(* ===== verification/DevicesFilter.thy ===== *)
theory DevicesFilter
  imports DevicesCorrect
begin

text \<open>
  The contract of \<open>DeviceFilter\<close>: what a built filter allows, which devices no spec can take
  away or give, which specs are accepted, and the round trip of the access letters.
\<close>

section \<open>The filter\<close>

definition rules_ok :: "DevRule list \<Rightarrow> bool" where
  "rules_ok rules \<longleftrightarrow> (\<forall>r\<in>set rules. access_ok (dr_access r))"

lemma keep_rules_length: "length (keep_rules u rules) \<le> length rules"
proof (induction rules arbitrary: u)
  case (Cons r rules)
  show ?case using Cons[of u] Cons[of None] by (simp add: Let_def)
qed simp

lemma split_reset_length: "length (snd (split_reset rs rest)) \<le> length rs + length rest"
  by (induction rs rest rule: split_reset.induct) auto

lemma optimise_length: "length (snd (optimise rules)) \<le> length rules"
  using keep_rules_length split_reset_length[of "rev rules" "[]"]
  by (auto simp: optimise_def Let_def split_beta intro: order_trans)

lemma from_rules_cases:
  "from_rules rules =
     (let (initial, kept) = optimise rules
      in if length kept > MAX_RULES then Inl (TooManyRules (length kept))
         else Inr \<lparr>df_rules = rules, df_initial = initial, df_compiled = kept,
                   df_program = dev_compile initial kept\<rparr>)"
  by (simp add: from_rules_def program_checks Let_def split_beta)

lemma from_rules_allows:
  assumes "from_rules rules = Inr f" and "rules_ok rules" and "access_ok (rq_access req)"
  shows "allows f req = Some (decide rules req)"
proof -
  obtain initial kept where o: "optimise rules = (initial, kept)" by (cases "optimise rules")
  have f: "length kept \<le> MAX_RULES" "df_program f = dev_compile initial kept"
    using assms(1) unfolding from_rules_cases by (auto simp: o split: if_splits)
  have "fold (apply_rule req) kept (Access_bits initial) = fold (apply_rule req) rules 0"
    using optimise_sound[OF o] assms(2) by (simp add: rules_ok_def)
  then show ?thesis
    using program_runs[OF f(1) assms(3), of initial] fold_decides[OF assms(3), of rules]
    by (simp add: allows_def f(2))
qed

lemma parse_letters_ok: "parse_letters acc s = Some a \<Longrightarrow> access_ok acc \<Longrightarrow> access_ok a"
proof (induction acc s rule: parse_letters.induct)
  case (2 acc c cs)
  obtain b where b: "access_letter c = Some b" "parse_letters (Access_union acc b) cs = Some a"
    using "2.prems"(1) by (auto split: option.splits)
  have "b \<in> {1, 2, 4}" using b(1) by (auto simp: wire split: if_splits)
  then have "access_ok (Access_union acc b)"
    using "2.prems"(2) by (auto simp: access_ok_def Access_union_def bit.conj_disj_distrib2)
  then show ?case using "2.IH" b by blast
qed simp

lemma rule_from_spec_access:
  assumes "rule_from_spec t i d = Inr r"
  shows "access_ok (dr_access r)"
proof -
  have "\<exists>s. Access_parse s = Some (dr_access r)"
    using assms by (auto simp: rule_from_spec_def device_access_def bind_result_Inr_iff Let_def
        split: if_splits option.splits)
  then show ?thesis
    using parse_letters_ok[of Access_NONE] by (auto simp: Access_parse_def access_ok_def wire split: if_splits)
qed

abbreviation node_rules :: "(nat \<times> DevType \<times> u32 \<times> u32) list \<Rightarrow> DevRule list" where
  "node_rules nodes \<equiv>
     map (\<lambda>(i, typ, major, minor). Rule_allow typ major (Some minor) Access_MKNOD (Origin_Node i)) nodes"

lemma build_step:
  assumes "DeviceFilter_build t spec nodes = Inr f"
  obtains rules where "rules_from_spec t spec = Inr rules"
    and "from_rules (rules @ default_rules @ node_rules nodes) = Inr f"
    and "df_rules f = rules @ default_rules @ node_rules nodes"
    and "rules_ok (rules @ default_rules @ node_rules nodes)"
proof -
  obtain rules where r: "rules_from_spec t spec = Inr rules"
      "from_rules (rules @ default_rules @ node_rules nodes) = Inr f"
    using assms by (auto simp: DeviceFilter_build_def bind_result_Inr_iff)
  have "df_rules f = rules @ default_rules @ node_rules nodes"
    using r(2) unfolding from_rules_cases by (auto simp: split_beta split: if_splits)
  moreover have "rules_ok rules"
    using r(1) unfolding rules_from_spec_def rules_ok_def
    by (auto dest!: collect_results_set dest: rule_from_spec_access)
  moreover have "rules_ok default_rules" "rules_ok (node_rules nodes)"
    by (auto simp: rules_ok_def default_rules_def DEFAULT_DEVICES_def Rule_allow_def access_ok_def wire)
  ultimately show thesis using that r by (simp add: rules_ok_def ball_Un)
qed

lemma find_rev_suffix:
  assumes "y \<in> set ys" and "P y"
  shows "\<exists>z\<in>set ys. find P (rev (xs @ ys)) = Some z"
proof -
  have "find P (rev ys) \<noteq> None" using assms by (simp add: find_None_iff) blast
  then obtain z where z: "find P (rev ys) = Some z" by blast
  moreover have "find P (as @ bs) = (case find P as of None \<Rightarrow> find P bs | Some z \<Rightarrow> Some z)" for as bs
    by (induction as) auto
  ultimately show ?thesis by (metis find_Some_iff in_set_conv_nth option.simps(5) rev_append set_rev)
qed

lemma decide_allow_suffix:
  assumes "\<forall>r\<in>set ys. dr_allow r" and "y \<in> set ys" and "rule_for req y" and "dr_access y = Access_ALL"
  shows "decide (xs @ ys) req"
proof -
  have "decide_bit (xs @ ys) req b" if "b \<in> {Access_READ, Access_WRITE, Access_MKNOD}" for b
  proof -
    have "Access_contains (dr_access y) b" using that assms(4) by (auto simp: Access_contains_def wire)
    then show ?thesis
      using find_rev_suffix[of y ys "\<lambda>r. Access_contains (dr_access r) b \<and> rule_for req r" xs] assms(1-3)
      by (auto simp: decide_bit_def)
  qed
  then show ?thesis by (auto simp: decide_def list_all_iff)
qed

section \<open>The filter's contract\<close>

text \<open>C6: the compiled program decides exactly what the reference semantics says of the rules:
  each requested bit by the last rule that matches the device and has the bit, denied if there
  is none; running it never panics.\<close>

theorem filter_decides:
  assumes "DeviceFilter_build default_type spec nodes = Inr f" and "access_ok (rq_access req)"
  shows "allows f req = Some (decide (df_rules f) req)"
  using assms(1) by (rule build_step) (use from_rules_allows assms(2) in auto)

definition sample_filter_spec :: "LinuxDeviceCgroup list" where
  "sample_filter_spec =
     [\<lparr>dc_allow = False, dc_typ = Some DT_A, dc_major = None, dc_minor = None, dc_access = Some ''rwm''\<rparr>]"

definition sample_request :: "u32 \<Rightarrow> u32 \<Rightarrow> Request" where
  "sample_request major minor = \<lparr>rq_typ = CharDev, rq_major = major, rq_minor = minor, rq_access = 6\<rparr>"

lemma sample_builds: "\<exists>f. DeviceFilter_build DT_A sample_filter_spec [] = Inr f \<and>
    df_rules f = \<lparr>dr_allow = False, dr_typ = None, dr_major = None, dr_minor = None, dr_access = 7,
      dr_origin = Origin_Spec 0\<rparr> # default_rules"
proof -
  let ?deny = "\<lparr>dr_allow = False, dr_typ = None, dr_major = None, dr_minor = None, dr_access = 7, dr_origin = Origin_Spec 0\<rparr>"
  have rules: "rules_from_spec DT_A sample_filter_spec = Inr [?deny]"
    by (simp add: rules_from_spec_def sample_filter_spec_def rule_from_spec_def device_type_def device_number_def
        device_access_def Access_parse_def Access_union_def is_reset_def Let_def wire)
  have "length (snd (optimise (?deny # default_rules))) \<le> length (?deny # default_rules)" by (rule optimise_length)
  then show ?thesis
    by (simp add: DeviceFilter_build_def rules from_rules_cases split_beta MAX_RULES_def default_rules_def DEFAULT_DEVICES_def)
qed


theorem filter_decides_witness:
  "\<exists>f. DeviceFilter_build DT_A sample_filter_spec [] = Inr f \<and>
       allows f (sample_request 1 3) = Some True \<and> allows f (sample_request 8 0) = Some False"
proof -
  obtain f where f: "DeviceFilter_build DT_A sample_filter_spec [] = Inr f"
      "df_rules f = \<lparr>dr_allow = False, dr_typ = None, dr_major = None, dr_minor = None, dr_access = 7,
        dr_origin = Origin_Spec 0\<rparr> # default_rules"
    using sample_builds by blast
  have ok: "access_ok (rq_access (sample_request a b))" for a b
    by (simp add: access_ok_def sample_request_def wire)
  show ?thesis
    using f(1) filter_decides[OF f(1) ok, of 1 3] filter_decides[OF f(1) ok, of 8 0]
    by (simp add: f(2) decide_def decide_bit_def sample_request_def default_rules_def DEFAULT_DEVICES_def
        Rule_allow_def Rule_matches_def is_none_or_def Access_contains_def wire)
qed

text \<open>The devices init makes in the container's \<open>/dev\<close>, the pty multiplexer and the pty slaves.\<close>

definition default_device :: "Request \<Rightarrow> bool" where
  "default_device req \<longleftrightarrow> rq_typ req = CharDev \<and>
     ((rq_major req, rq_minor req) \<in> {(1, 3), (1, 5), (1, 7), (1, 8), (1, 9), (5, 0), (5, 2)} \<or>
      rq_major req = 136)"

lemma default_rules_match: "(\<exists>r\<in>set default_rules. rule_for req r) \<longleftrightarrow> default_device req"
  by (cases "rq_typ req")
    (simp_all add: default_device_def default_rules_def DEFAULT_DEVICES_def Rule_allow_def Rule_matches_def
      is_none_or_def eq_commute[of _ "rq_major req"] eq_commute[of _ "rq_minor req"])

lemma default_rules_access: "r \<in> set default_rules \<Longrightarrow> dr_access r = Access_ALL"
  by (auto simp: default_rules_def Rule_allow_def)

text \<open>No spec can take a default device away: whatever rules it has, a filter that builds lets
  the container read, write and create the devices init makes in its \<open>/dev\<close>, the pty
  multiplexer and every pty slave.\<close>

theorem default_devices_stay:
  assumes "DeviceFilter_build default_type spec nodes = Inr f"
    and "access_ok (rq_access req)" and "default_device req"
  shows "allows f req = Some True"
  using assms(1)
proof (rule build_step)
  fix rules
  let ?tail = "default_rules @ node_rules nodes"
  assume f: "from_rules (rules @ ?tail) = Inr f" and ok: "rules_ok (rules @ ?tail)"
  have "\<forall>r\<in>set ?tail. dr_allow r"
    by (auto simp: default_rules_def DEFAULT_DEVICES_def Rule_allow_def)
  moreover have "\<exists>r\<in>set default_rules. rule_for req r \<and> dr_access r = Access_ALL"
    using assms(3) default_rules_match default_rules_access by blast
  ultimately have "decide (rules @ ?tail) req"
    using decide_allow_suffix[of ?tail _ req rules] unfolding set_append by blast
  then show ?thesis using from_rules_allows[OF f ok assms(2)] by simp
qed

theorem default_devices_stay_witness:
  "\<exists>f. DeviceFilter_build DT_A sample_filter_spec [] = Inr f \<and> allows f (sample_request 136 9) = Some True"
proof -
  obtain f where f: "DeviceFilter_build DT_A sample_filter_spec [] = Inr f"
    using sample_builds by blast
  have "allows f (sample_request 136 9) = Some True"
    by (rule default_devices_stay[OF f]) (simp_all add: access_ok_def default_device_def sample_request_def wire)
  then show ?thesis using f by blast
qed

definition spec_silent :: "LinuxDeviceCgroup list \<Rightarrow> bool" where
  "spec_silent spec \<longleftrightarrow> (\<forall>d\<in>set spec. \<not> dc_allow d)"

lemma rule_from_spec_allow: "rule_from_spec t i d = Inr r \<Longrightarrow> dr_allow r = dc_allow d"
  by (auto simp: rule_from_spec_def bind_result_Inr_iff Let_def split: if_splits)

lemma decide_needs_allow:
  assumes "decide rules req" and "Access_contains (rq_access req) b"
    and "b \<in> {Access_READ, Access_WRITE, Access_MKNOD}"
  shows "\<exists>r\<in>set rules. dr_allow r \<and> rule_for req r \<and> Access_contains (dr_access r) b"
proof -
  have "decide_bit rules req b" using assms by (auto simp: decide_def list_all_iff)
  then show ?thesis
    by (auto simp: decide_bit_def find_Some_iff split: option.splits) (metis length_rev nth_mem set_rev)
qed

text \<open>C7: with a spec that only denies, a container can reach nothing but the defaults and create
  nothing but the defaults and the listed nodes: \<open>CAP_MKNOD\<close> alone gives it no disk.\<close>

theorem only_listed_devices:
  assumes "DeviceFilter_build default_type spec nodes = Inr f" and "access_ok (rq_access req)"
    and "spec_silent spec" and "allows f req = Some True" and "rq_access req \<noteq> Access_NONE"
  shows "default_device req \<or>
         rq_access req = Access_MKNOD \<and>
           (rq_typ req, rq_major req, rq_minor req) \<in> snd ` set nodes"
  using assms(1)
proof (rule build_step)
  fix rules
  assume r: "rules_from_spec default_type spec = Inr rules"
    and f: "from_rules (rules @ default_rules @ node_rules nodes) = Inr f"
    and ok: "rules_ok (rules @ default_rules @ node_rules nodes)"
  have "decide (rules @ default_rules @ node_rules nodes) req"
    using from_rules_allows[OF f ok assms(2)] assms(4) by simp
  note allowing = decide_needs_allow[OF this]
  have silent: "\<not> dr_allow r" if "r \<in> set rules" for r
    using collect_results_set[OF r[unfolded rules_from_spec_def] that] assms(3) rule_from_spec_allow
    by (auto simp: spec_silent_def in_set_enumerate_eq)
  have dflt: "default_device req" if "r \<in> set default_rules" "rule_for req r" for r
    using that default_rules_match by blast
  have node: "(rq_typ req, rq_major req, rq_minor req) \<in> snd ` set nodes \<and> dr_access r = Access_MKNOD"
    if "r \<in> set (node_rules nodes)" "rule_for req r" for r
    using that by (force simp: Rule_allow_def Rule_matches_def is_none_or_def)
  show ?thesis
  proof (cases "rq_access req = Access_MKNOD")
    case True
    then have "Access_contains (rq_access req) Access_MKNOD" by (simp add: Access_contains_def)
    then obtain r where r: "r \<in> set default_rules \<or> r \<in> set (node_rules nodes)" "rule_for req r"
      using allowing[of Access_MKNOD] silent unfolding set_append by blast
    then show ?thesis using dflt[OF _ r(2)] node[OF _ r(2)] True by blast
  next
    case False
    have "Access_contains (rq_access req) Access_READ \<or> Access_contains (rq_access req) Access_WRITE"
      using access_cases[OF assms(2)] False assms(5) by (auto simp: Access_contains_def wire)
    then obtain b where b: "Access_contains (rq_access req) b" "b \<in> {Access_READ, Access_WRITE}" by blast
    then obtain r where r: "r \<in> set default_rules \<or> r \<in> set (node_rules nodes)" "rule_for req r" "Access_contains (dr_access r) b"
      using allowing[of b] silent unfolding set_append by blast
    have "dr_access r \<noteq> Access_MKNOD" using r(3) b(2) by (auto simp: Access_contains_def wire)
    then show ?thesis using dflt[OF _ r(2)] node[OF _ r(2)] r(1) by blast
  qed
qed

theorem only_listed_devices_witness:
  "\<exists>f. DeviceFilter_build DT_A sample_filter_spec [] = Inr f \<and> allows f (sample_request 8 0) \<noteq> Some True"
proof -
  obtain f where f: "DeviceFilter_build DT_A sample_filter_spec [] = Inr f"
    using sample_builds by blast
  have "allows f (sample_request 8 0) \<noteq> Some True"
    using only_listed_devices[OF f, of "sample_request 8 0"]
    by (auto simp: access_ok_def default_device_def sample_request_def spec_silent_def sample_filter_spec_def wire)
  then show ?thesis using f by blast
qed

section \<open>Validation\<close>

text \<open>What the module's documentation asks of an entry.\<close>

definition in_device_range :: "int option \<Rightarrow> int \<Rightarrow> bool" where
  "in_device_range n mx \<longleftrightarrow> (case n of None \<Rightarrow> True | Some n \<Rightarrow> - 1 \<le> n \<and> n \<le> mx)"

definition any_number :: "int option \<Rightarrow> bool" where
  "any_number n \<longleftrightarrow> n = None \<or> n = Some (- 1)"

definition entry_valid :: "LinuxDeviceType \<Rightarrow> LinuxDeviceCgroup \<Rightarrow> bool" where
  "entry_valid default_type d \<longleftrightarrow>
     (let t = (case dc_typ d of None \<Rightarrow> default_type | Some t \<Rightarrow> t);
          letters = (case dc_access d of None \<Rightarrow> '''' | Some s \<Rightarrow> s)
      in in_device_range (dc_major d) 4095 \<and> in_device_range (dc_minor d) 0xfffff \<and>
         letters \<noteq> '''' \<and> set letters \<subseteq> set ''rwm'' \<and>
         (t = DT_B \<or> t = DT_C \<or>
          t = DT_A \<and> any_number (dc_major d) \<and> any_number (dc_minor d) \<and> set ''rwm'' \<subseteq> set letters))"

lemma device_type_Inr:
  "device_type i t = Inr r \<longleftrightarrow> t = DT_A \<and> r = None \<or> t = DT_B \<and> r = Some BlockDev \<or> t = DT_C \<and> r = Some CharDev"
  by (cases t) (auto simp: device_type_def)

lemma device_number_Inr:
  "(\<exists>r. device_number i w n mx = Inr r) \<longleftrightarrow> in_device_range n (uint mx)"
  using order_trans[OF _ uint_ge_0[of mx], of "- 1"]
  by (auto simp: device_number_def in_device_range_def split: option.splits)

lemma device_number_None:
  "device_number i w n mx = Inr r \<Longrightarrow> r = None \<longleftrightarrow> any_number n"
  by (auto simp: device_number_def any_number_def split: option.splits if_splits)

lemma parse_letters_value:
  "parse_letters acc s = (if set s \<subseteq> set ''rwm''
     then Some (acc OR (if CHR ''r'' \<in> set s then 2 else 0) OR (if CHR ''w'' \<in> set s then 4 else 0)
                    OR (if CHR ''m'' \<in> set s then 1 else 0))
     else None)"
  by (induction s arbitrary: acc) (auto simp: Access_union_def wire ac_simps)

lemma device_access_Inr:
  "(\<exists>a. device_access i s = Inr a) \<longleftrightarrow> (\<exists>l. s = Some l \<and> l \<noteq> '''' \<and> set l \<subseteq> set ''rwm'')"
  by (auto simp: device_access_def Access_parse_def parse_letters_value wire split: option.splits)

lemma device_access_all:
  "device_access i s = Inr a \<Longrightarrow> a = Access_ALL \<longleftrightarrow> set ''rwm'' \<subseteq> set (the s)"
  by (auto simp: device_access_def Access_parse_def parse_letters_value wire split: option.splits if_splits)

lemma rule_from_spec_valid: "(\<exists>r. rule_from_spec t i d = Inr r) \<longleftrightarrow> entry_valid t d"
proof (cases "(\<exists>a. device_access i (dc_access d) = Inr a) \<and> (\<exists>r. device_number i ''major'' (dc_major d) MAX_MAJOR = Inr r)
    \<and> (\<exists>r. device_number i ''minor'' (dc_minor d) MAX_MINOR = Inr r)")
  case True
  then obtain a ma mi l where ok: "device_access i (dc_access d) = Inr a"
      "device_number i ''major'' (dc_major d) MAX_MAJOR = Inr ma"
      "device_number i ''minor'' (dc_minor d) MAX_MINOR = Inr mi"
      and l: "dc_access d = Some l" "l \<noteq> ''''" "set l \<subseteq> set ''rwm''"
    using device_access_Inr by blast
  have ranges: "in_device_range (dc_major d) 4095" "in_device_range (dc_minor d) 0xfffff"
    using ok(2,3) device_number_Inr[of i "''major''" "dc_major d" MAX_MAJOR]
      device_number_Inr[of i "''minor''" "dc_minor d" MAX_MINOR] by (simp_all add: wire)
  note wild = device_number_None[OF ok(2)] device_number_None[OF ok(3)] device_access_all[OF ok(1)]
  show ?thesis
    using ranges l wild ok
    by (cases "case dc_typ d of None \<Rightarrow> t | Some t \<Rightarrow> t")
      (auto simp: rule_from_spec_def entry_valid_def device_type_def is_reset_def Let_def)
next
  case False
  then have "\<not> entry_valid t d"
    using device_access_Inr[of i "dc_access d"] device_number_Inr[of i "''major''" "dc_major d" MAX_MAJOR]
      device_number_Inr[of i "''minor''" "dc_minor d" MAX_MINOR]
    by (auto simp: entry_valid_def Let_def wire split: option.splits)
  moreover have "rule_from_spec t i d \<noteq> Inr r" for r
    using False by (auto simp: rule_from_spec_def bind_result_Inr_iff)
  ultimately show ?thesis by blast
qed

lemma rules_from_spec_valid:
  "(\<exists>rules. rules_from_spec t spec = Inr rules) \<longleftrightarrow> list_all (entry_valid t) spec"
proof -
  have "(\<exists>rules. rules_from_spec t spec = Inr rules) \<longleftrightarrow> (\<forall>x\<in>set (enumerate 0 spec). entry_valid t (snd x))"
    by (simp add: rules_from_spec_def collect_results_ok rule_from_spec_valid split_beta)
  also have "\<dots> \<longleftrightarrow> (\<forall>d\<in>set (map snd (enumerate 0 spec)). entry_valid t d)"
    unfolding set_map by blast
  finally show ?thesis by (simp add: list_all_iff)
qed

text \<open>C8: a filter builds exactly when every entry of the spec is what the documentation asks for
  (numbers in the kernel's range or any, letters from \<open>rwm\<close>, a rule for all types exactly
  \<open>a *:* rwm\<close>) and at most 2000 rules survive the optimiser; the program check never refuses
  what the compiler emits.\<close>

theorem filter_builds:
  "(\<exists>f. DeviceFilter_build t spec nodes = Inr f) \<longleftrightarrow>
     list_all (entry_valid t) spec \<and>
     (\<exists>rules. rules_from_spec t spec = Inr rules \<and>
        length (snd (optimise (rules @ default_rules @ node_rules nodes))) \<le> 2000)"
  unfolding rules_from_spec_valid[symmetric]
  by (auto simp: DeviceFilter_build_def bind_result_Inr_iff from_rules_cases MAX_RULES_def split_beta
      not_less linorder_not_le)

text \<open>printing a set of access bits and parsing it back gives the set; only the empty set,
  printed as a dash, has no OCI form.\<close>

theorem Access_roundtrip:
  assumes "access_ok a"
  shows "Access_parse (Access_fmt a) = (if a = Access_NONE then None else Some a)"
  using access_cases[OF assms]
  by (elim insertE emptyE)
    (simp_all add: Access_fmt_def Access_parse_def Access_is_empty_def Access_contains_def Access_union_def wire)

theorem Access_roundtrip_witness: "Access_parse (Access_fmt 5) = Some 5"
  using Access_roundtrip[of 5] by (simp add: access_ok_def wire)

end
