(* ===== verification/Ipam.thy ===== *)
theory Ipam
  imports Text
begin

text \<open>
  Address management of \<^verbatim>\<open>rustlet-net/src/ipam.rs\<close>: subnets, the search for a free subnet and a free
  address, the allocators, and the MAC address of a container. An \<open>Ipv4Addr\<close> is its \<open>u32\<close>, an
  \<open>Ipv6Addr\<close> its \<open>u128\<close> (\<open>u32::from\<close>, \<open>u128::from\<close> and back are the identity). The text form of
  an IPv4 subnet is modelled; that of an IPv6 one is not.
\<close>

section \<open>IPv4 subnets\<close>

record Subnet =
  sn_network :: u32
  sn_prefix_len :: u8

datatype NetError = BadPrefixLen | HostBitsSet | NotASubnet | NotAnAddress | NotAPrefixLen

definition Subnet_mask :: "Subnet \<Rightarrow> u32" where
  "Subnet_mask s = push_bit (32 - unat (sn_prefix_len s)) (- 1)"

definition Subnet_new :: "u32 \<Rightarrow> u8 \<Rightarrow> NetError + Subnet" where
  "Subnet_new network prefix_len =
     (if \<not> (8 \<le> prefix_len \<and> prefix_len \<le> 30) then Inl BadPrefixLen
      else let s = \<lparr>sn_network = network, sn_prefix_len = prefix_len\<rparr>
           in if network AND NOT (Subnet_mask s) \<noteq> 0 then Inl HostBitsSet else Inr s)"

definition Subnet_broadcast :: "Subnet \<Rightarrow> u32" where
  "Subnet_broadcast s = sn_network s OR NOT (Subnet_mask s)"

definition Subnet_first_host :: "Subnet \<Rightarrow> u32" where
  "Subnet_first_host s = sn_network s + 1"

definition Subnet_last_host :: "Subnet \<Rightarrow> u32" where
  "Subnet_last_host s = Subnet_broadcast s - 1"

definition Subnet_contains :: "Subnet \<Rightarrow> u32 \<Rightarrow> bool" where
  "Subnet_contains s ip \<longleftrightarrow> ip AND Subnet_mask s = sn_network s"

definition Subnet_overlaps :: "Subnet \<Rightarrow> Subnet \<Rightarrow> bool" where
  "Subnet_overlaps s t \<longleftrightarrow> Subnet_contains s (sn_network t) \<or> Subnet_contains t (sn_network s)"

definition Subnet_overlaps_block :: "Subnet \<Rightarrow> u32 \<Rightarrow> u8 \<Rightarrow> bool" where
  "Subnet_overlaps_block s addr prefix_len =
     (let len = min prefix_len (sn_prefix_len s);
          m = (if len = 0 then 0 else push_bit (32 - unat len) (- 1))
      in addr AND m = sn_network s AND m)"

definition Subnet_is_host :: "Subnet \<Rightarrow> u32 \<Rightarrow> bool" where
  "Subnet_is_host s ip \<longleftrightarrow> Subnet_contains s ip \<and> ip \<noteq> sn_network s \<and> ip \<noteq> Subnet_broadcast s"

subsection \<open>Text form\<close>

text \<open>\<open>Ipv4Addr\<close> of the standard library: four decimal octets of at most three digits without a
  leading zero.\<close>

definition octets :: "u32 \<Rightarrow> u8 list" where
  "octets ip = [ucast (drop_bit 24 ip), ucast (drop_bit 16 ip), ucast (drop_bit 8 ip), ucast ip]"

definition from_octets :: "u8 list \<Rightarrow> u32" where
  "from_octets bs = foldl (\<lambda>a b. push_bit 8 a OR ucast b) 0 bs"

definition Ipv4Addr_fmt :: "u32 \<Rightarrow> string" where
  "Ipv4Addr_fmt ip = join_with ''.'' (map (\<lambda>b. dec (unat b)) (octets ip))"

definition parse_octet :: "string \<Rightarrow> u8 option" where
  "parse_octet s =
     (if length s > 3 \<or> length s > 1 \<and> hd s = CHR ''0'' then None
      else case parse_digits s of
             None \<Rightarrow> None
           | Some n \<Rightarrow> if n < 256 then Some (of_nat n) else None)"

definition Ipv4Addr_parse :: "string \<Rightarrow> u32 option" where
  "Ipv4Addr_parse s =
     (if length s > 15 then None
      else let parts = map parse_octet (split_on (CHR ''.'') s)
           in if length parts = 4 \<and> None \<notin> set parts then Some (from_octets (map the parts)) else None)"

definition Subnet_parse :: "string \<Rightarrow> NetError + Subnet" where
  "Subnet_parse s =
     (case split_once (CHR ''/'') s of
        None \<Rightarrow> Inl NotASubnet
      | Some (addr, len) \<Rightarrow>
          (case Ipv4Addr_parse addr of
             None \<Rightarrow> Inl NotAnAddress
           | Some addr \<Rightarrow>
               (case parse_uint 8 len of
                  None \<Rightarrow> Inl NotAPrefixLen
                | Some len \<Rightarrow> Subnet_new addr (of_nat len))))"

definition Subnet_fmt :: "Subnet \<Rightarrow> string" where
  "Subnet_fmt s = Ipv4Addr_fmt (sn_network s) @ ''/'' @ dec (unat (sn_prefix_len s))"

section \<open>IPv6 subnets\<close>

record Subnet6 =
  sn6_network :: u128
  sn6_prefix_len :: u8

definition Subnet6_mask :: "Subnet6 \<Rightarrow> u128" where
  "Subnet6_mask s = push_bit (128 - unat (sn6_prefix_len s)) (- 1)"

definition Subnet6_new :: "u128 \<Rightarrow> u8 \<Rightarrow> NetError + Subnet6" where
  "Subnet6_new network prefix_len =
     (if \<not> (8 \<le> prefix_len \<and> prefix_len \<le> 126) then Inl BadPrefixLen
      else let s = \<lparr>sn6_network = network, sn6_prefix_len = prefix_len\<rparr>
           in if network AND NOT (Subnet6_mask s) \<noteq> 0 then Inl HostBitsSet else Inr s)"

text \<open>The digest of the seed is \<open>sha2\<close>'s: the parameter \<open>sha256\<close>.\<close>

definition Ipv6Addr_from_octets :: "u8 list \<Rightarrow> u128" where
  "Ipv6Addr_from_octets bs = foldl (\<lambda>a b. push_bit 8 a OR ucast b) 0 bs"

definition Subnet6_ula :: "(u8 list \<Rightarrow> u8 list) \<Rightarrow> u8 list \<Rightarrow> Subnet6" where
  "Subnet6_ula sha256 seed =
     (let digest = sha256 seed;
          octets = 0xfd # take 5 digest @ replicate 10 0
      in \<lparr>sn6_network = Ipv6Addr_from_octets octets, sn6_prefix_len = 48\<rparr>)"

definition Subnet6_first_host :: "Subnet6 \<Rightarrow> u128" where
  "Subnet6_first_host s = sn6_network s + 1"

definition Subnet6_last_host :: "Subnet6 \<Rightarrow> u128" where
  "Subnet6_last_host s = sn6_network s OR NOT (Subnet6_mask s)"

definition Subnet6_contains :: "Subnet6 \<Rightarrow> u128 \<Rightarrow> bool" where
  "Subnet6_contains s ip \<longleftrightarrow> ip AND Subnet6_mask s = sn6_network s"

definition Subnet6_overlaps :: "Subnet6 \<Rightarrow> Subnet6 \<Rightarrow> bool" where
  "Subnet6_overlaps s t \<longleftrightarrow> Subnet6_contains s (sn6_network t) \<or> Subnet6_contains t (sn6_network s)"

definition Subnet6_overlaps_block :: "Subnet6 \<Rightarrow> u128 \<Rightarrow> u8 \<Rightarrow> bool" where
  "Subnet6_overlaps_block s addr prefix_len =
     (let len = min prefix_len (sn6_prefix_len s);
          m = (if len = 0 then 0 else push_bit (128 - unat len) (- 1))
      in addr AND m = sn6_network s AND m)"

definition Subnet6_is_host :: "Subnet6 \<Rightarrow> u128 \<Rightarrow> bool" where
  "Subnet6_is_host s ip \<longleftrightarrow> Subnet6_contains s ip \<and> ip \<noteq> sn6_network s"

section \<open>Searches\<close>

definition MAX_STEPS :: nat where
  "MAX_STEPS = 2 ^ 24"

text \<open>\<open>(i..n).map(f).find_map(..)\<close> over a range, one candidate at a time.\<close>

function find_map_range :: "nat \<Rightarrow> nat \<Rightarrow> (nat \<Rightarrow> 'a option) \<Rightarrow> 'a option" where
  "find_map_range i n f =
     (if i < n then case f i of Some y \<Rightarrow> Some y | None \<Rightarrow> find_map_range (i + 1) n f else None)"
  by pat_completeness auto
termination by (relation "measure (\<lambda>(i, n, f). n - i)") auto

declare find_map_range.simps [simp del]

definition filter_new :: "(NetError + 's) \<Rightarrow> ('s \<Rightarrow> bool) \<Rightarrow> 's option" where
  "filter_new r taken = (case ok_of r of None \<Rightarrow> None | Some s \<Rightarrow> if taken s then None else Some s)"

text \<open>The loop over \<open>start + i * step\<close> up to \<open>end\<close>. The \<open>u64\<close> sums stay below \<open>2^34\<close>.\<close>

function free_subnet_from :: "nat \<Rightarrow> nat \<Rightarrow> nat \<Rightarrow> u8 \<Rightarrow> (Subnet \<Rightarrow> bool) \<Rightarrow> Subnet option" where
  "free_subnet_from addr step last_addr prefix_len taken =
     (if addr \<le> last_addr \<and> 0 < step
      then case filter_new (Subnet_new (of_nat addr) prefix_len) taken of
             Some s \<Rightarrow> Some s
           | None \<Rightarrow> free_subnet_from (addr + step) step last_addr prefix_len taken
      else None)"
  by pat_completeness auto
termination by (relation "measure (\<lambda>(addr, step, l, p, t). l + 1 - addr)") auto

declare free_subnet_from.simps [simp del]

text \<open>A prefix above 32 overflows the subtraction: the outer \<open>None\<close>.\<close>

definition free_subnet :: "Subnet \<Rightarrow> u8 \<Rightarrow> (Subnet \<Rightarrow> bool) \<Rightarrow> Subnet option option" where
  "free_subnet pool prefix_len taken =
     (if prefix_len < sn_prefix_len pool then Some None
      else if prefix_len > 32 then None
      else let step = 2 ^ (32 - unat prefix_len)
           in Some (free_subnet_from (unat (sn_network pool)) step (unat (Subnet_broadcast pool)) prefix_len taken))"

definition free_subnet6 :: "Subnet6 \<Rightarrow> u8 \<Rightarrow> (Subnet6 \<Rightarrow> bool) \<Rightarrow> Subnet6 option" where
  "free_subnet6 pool prefix_len taken =
     (if prefix_len < sn6_prefix_len pool \<or> prefix_len > 126 then None
      else let step = push_bit (128 - unat prefix_len) (1 :: u128);
               blocks = (if unat (prefix_len - sn6_prefix_len pool) < 128
                         then unat (push_bit (unat (prefix_len - sn6_prefix_len pool)) (1 :: u128)) else 2 ^ 128 - 1);
               start = sn6_network pool
           in find_map_range 0 (min blocks MAX_STEPS)
                (\<lambda>i. filter_new (Subnet6_new (start + of_nat i * step) prefix_len) taken))"

text \<open>\<open>u128\<close> as numbers, with \<open>saturating_add\<close> and the wrap-around of the sum written out.\<close>

definition next_usable :: "nat \<Rightarrow> nat \<Rightarrow> nat option \<Rightarrow> (nat \<Rightarrow> bool) \<Rightarrow> nat option" where
  "next_usable fst_addr last_addr after usable =
     (let count = min (last_addr - fst_addr + 1) (2 ^ 128 - 1);
          start = (case after of
                     Some a \<Rightarrow> if fst_addr \<le> a \<and> a \<le> last_addr \<and> a < last_addr then a + 1 else fst_addr
                   | None \<Rightarrow> fst_addr)
      in find_map_range 0 (min count MAX_STEPS)
           (\<lambda>i. let candidate = (fst_addr + (start - fst_addr + i) mod 2 ^ 128 mod count) mod 2 ^ 128
                in if usable candidate then Some candidate else None))"

section \<open>Allocators\<close>

record Allocator =
  al_subnet :: Subnet
  al_gateway :: u32
  al_last :: "u32 option"

definition Allocator_new :: "Subnet \<Rightarrow> u32 \<Rightarrow> Allocator" where
  "Allocator_new subnet gateway = \<lparr>al_subnet = subnet, al_gateway = gateway, al_last = None\<rparr>"

definition Allocator_allocate :: "Allocator \<Rightarrow> (u32 \<Rightarrow> bool) \<Rightarrow> u32 option \<times> Allocator" where
  "Allocator_allocate a in_use =
     (case next_usable (unat (Subnet_first_host (al_subnet a))) (unat (Subnet_last_host (al_subnet a)))
             (map_option unat (al_last a)) (\<lambda>c. of_nat c \<noteq> al_gateway a \<and> \<not> in_use (of_nat c)) of
        None \<Rightarrow> (None, a)
      | Some c \<Rightarrow> (Some (of_nat c), a\<lparr>al_last := Some (of_nat c)\<rparr>))"

record Allocator6 =
  al6_subnet :: Subnet6
  al6_gateway :: u128
  al6_last :: "u128 option"

definition Allocator6_new :: "Subnet6 \<Rightarrow> u128 \<Rightarrow> Allocator6" where
  "Allocator6_new subnet gateway = \<lparr>al6_subnet = subnet, al6_gateway = gateway, al6_last = None\<rparr>"

definition Allocator6_allocate :: "Allocator6 \<Rightarrow> (u128 \<Rightarrow> bool) \<Rightarrow> u128 option \<times> Allocator6" where
  "Allocator6_allocate a in_use =
     (case next_usable (unat (Subnet6_first_host (al6_subnet a))) (unat (Subnet6_last_host (al6_subnet a)))
             (map_option unat (al6_last a)) (\<lambda>c. of_nat c \<noteq> al6_gateway a \<and> \<not> in_use (of_nat c)) of
        None \<Rightarrow> (None, a)
      | Some c \<Rightarrow> (Some (of_nat c), a\<lparr>al6_last := Some (of_nat c)\<rparr>))"

section \<open>MAC addresses\<close>

definition mac_for :: "u32 \<Rightarrow> u8 list" where
  "mac_for ip = [0x02, 0x52] @ octets ip"

definition format_mac :: "u8 list \<Rightarrow> string" where
  "format_mac mac = join_with '':'' (map hex_byte mac)"

end
