(* ===== verification/IpamCorrect.thy ===== *)
theory IpamCorrect
  imports Ipam
begin

text \<open>
  Correctness of the address management: the locale \<open>address_blocks\<close> (a subnet as a block of
  addresses of any width), its extension \<open>subnet_search\<close> (the blocks of a pool) and
  \<open>host_range\<close> (what an allocator relies on), each interpreted for IPv4 and IPv6, the search
  \<open>next_usable\<close>, and the properties of the subnets, searches and allocators.
\<close>

section \<open>Blocks of addresses\<close>

definition block_mask :: "nat \<Rightarrow> 'a::len word" where
  "block_mask n = push_bit (LENGTH('a) - n) (- 1)"

lemma bit_block_mask: "bit (block_mask n :: 'a::len word) k \<longleftrightarrow> LENGTH('a) - n \<le> k \<and> k < LENGTH('a)"
  by (auto simp: block_mask_def bit_simps)

lemma unat_and_block:
  "unat (ip AND block_mask n :: 'a::len word) = unat ip div 2 ^ (LENGTH('a) - n) * 2 ^ (LENGTH('a) - n)"
proof -
  let ?h = "LENGTH('a) - n"
  have "ip AND block_mask n = push_bit ?h (drop_bit ?h ip)"
    by (rule bit_word_eqI) (auto simp: bit_simps bit_block_mask)
  then have "unat (ip AND block_mask n) = take_bit LENGTH('a) (push_bit ?h (drop_bit ?h (unat ip)))"
    by (simp only: unsigned_push_bit_eq unat_drop_bit_eq)
  moreover have "unat ip div 2 ^ ?h * 2 ^ ?h < 2 ^ LENGTH('a)"
    using unat_bound[of ip] div_times_less_eq_dividend[of "unat ip" "2 ^ ?h"] by linarith
  ultimately show ?thesis
    by (simp add: push_bit_eq_mult drop_bit_eq_div take_bit_nat_eq_self)
qed

lemma div_eq_block: "0 < b \<Longrightarrow> x div b = q \<longleftrightarrow> q * b \<le> x \<and> x < (q + 1) * b" for x :: nat
  using div_times_less_eq_dividend[of x b] dividend_less_div_times[of b x] div_nat_eqI[of b q x]
  by (auto simp: mult.commute)

lemma block_size_le: "2 ^ (LENGTH('a) - n) \<le> (2 ^ LENGTH('a::len) :: nat)"
  by (rule power_increasing) simp_all

definition aligned :: "nat \<Rightarrow> 'a::len word \<Rightarrow> bool" where
  "aligned n net \<longleftrightarrow> net AND NOT (block_mask n) = 0"

lemma aligned_and: "aligned n net \<longleftrightarrow> net AND block_mask n = net"
  unfolding aligned_def bit_eq_iff by (auto simp: bit_simps)

lemma aligned_dvd: "aligned n (net :: 'a::len word) \<longleftrightarrow> 2 ^ (LENGTH('a) - n) dvd unat net"
  unfolding aligned_and word_unat_eq_iff unat_and_block by (metis dvd_div_mult_self dvd_triv_right)

lemma aligned_last:
  assumes "aligned n (net :: 'a::len word)"
  shows "unat (net OR NOT (block_mask n)) = unat net + (2 ^ (LENGTH('a) - n) - 1)"
proof -
  let ?h = "LENGTH('a) - n"
  have m: "unat (NOT (block_mask n) :: 'a word) = 2 ^ ?h - 1"
  proof -
    have "NOT (block_mask n) = (take_bit ?h (- 1) :: 'a word)"
      by (rule bit_word_eqI) (auto simp: bit_simps bit_block_mask)
    then have "unat (NOT (block_mask n) :: 'a word) = take_bit ?h (mask LENGTH('a))"
      by (simp only: unsigned_take_bit_eq unsigned_minus_1_eq_mask)
    also have "\<dots> = mask ?h" by (rule bit_eqI) (auto simp: bit_simps)
    finally show ?thesis by (simp add: mask_eq_exp_minus_1)
  qed
  have "net OR NOT (block_mask n) = net + NOT (block_mask n)"
    using assms by (simp add: aligned_def disjunctive_add_eq_or)
  moreover have "unat net + (2 ^ ?h - 1) < 2 ^ LENGTH('a)"
  proof -
    obtain q where q: "unat net = 2 ^ ?h * q" using assms aligned_dvd by blast
    obtain r where r: "2 ^ LENGTH('a) = (2 :: nat) ^ ?h * r" using le_imp_power_dvd[of ?h "LENGTH('a)" 2] by auto
    have "2 ^ ?h * q < 2 ^ ?h * r" using unat_bound[of net] q r by simp
    then have "q + 1 \<le> r" by simp
    then have "2 ^ ?h * (q + 1) \<le> 2 ^ ?h * r" by (rule mult_le_mono2)
    then have "2 ^ ?h * q + 2 ^ ?h \<le> 2 ^ ?h * r" by (simp only: distrib_left mult_1_right)
    moreover have "(0 :: nat) < 2 ^ ?h" by simp
    ultimately show ?thesis unfolding q r by linarith
  qed
  ultimately show ?thesis by (simp add: unat_word_ariths m)
qed

locale address_blocks =
  fixes net :: "'s \<Rightarrow> 'a::len word" and plen8 :: "'s \<Rightarrow> u8" and ok :: "'s \<Rightarrow> bool"
    and contains :: "'s \<Rightarrow> 'a word \<Rightarrow> bool" and overlaps :: "'s \<Rightarrow> 's \<Rightarrow> bool"
    and overlaps_block :: "'s \<Rightarrow> 'a word \<Rightarrow> u8 \<Rightarrow> bool"
  assumes ok_aligned: "ok s \<Longrightarrow> aligned (unat (plen8 s)) (net s)"
    and contains_mask: "contains s ip \<longleftrightarrow> ip AND block_mask (unat (plen8 s)) = net s"
    and overlaps_either: "overlaps s t \<longleftrightarrow> contains s (net t) \<or> contains t (net s)"
    and overlaps_block_mask: "overlaps_block s addr n \<longleftrightarrow>
      addr AND block_mask (min (unat n) (unat (plen8 s))) = net s AND block_mask (min (unat n) (unat (plen8 s)))"
begin

abbreviation plen :: "'s \<Rightarrow> nat" where
  "plen s \<equiv> unat (plen8 s)"

lemma contains_bits:
  assumes "ok s"
  shows "contains s ip \<longleftrightarrow> (\<forall>k. LENGTH('a) - plen s \<le> k \<longrightarrow> k < LENGTH('a) \<longrightarrow> bit ip k = bit (net s) k)"
  using ok_aligned[OF assms] unfolding contains_mask aligned_def bit_eq_iff
  by (auto simp: bit_simps bit_block_mask)

lemma contains_range:
  assumes "ok s"
  shows "contains s ip \<longleftrightarrow> net s \<le> ip \<and> ip \<le> net s OR NOT (block_mask (plen s))"
proof -
  let ?b = "2 ^ (LENGTH('a) - plen s) :: nat"
  obtain q where q: "unat (net s) = q * ?b"
    using ok_aligned[OF assms] unfolding aligned_dvd by (auto simp: mult.commute)
  have "contains s ip \<longleftrightarrow> unat ip div ?b = q"
    by (simp add: contains_mask word_unat_eq_iff unat_and_block q)
  also have "\<dots> \<longleftrightarrow> q * ?b \<le> unat ip \<and> unat ip < (q + 1) * ?b"
    by (rule div_eq_block) simp
  also have "\<dots> \<longleftrightarrow> net s \<le> ip \<and> ip \<le> net s OR NOT (block_mask (plen s))"
    using aligned_last[OF ok_aligned[OF assms]] less_Suc_eq_le[of "unat ip" "q * ?b + (?b - 1)"]
    by (simp add: word_le_nat_alt q add.commute)
  finally show ?thesis .
qed

lemma net_contained: "ok s \<Longrightarrow> contains s (net s)"
  using ok_aligned by (simp add: contains_mask aligned_and)

lemma overlaps_shared:
  assumes "ok s" and "ok t"
  shows "overlaps s t \<longleftrightarrow> (\<exists>ip. contains s ip \<and> contains t ip)"
proof
  assume "overlaps s t"
  then show "\<exists>ip. contains s ip \<and> contains t ip"
    using net_contained assms overlaps_either by blast
next
  have *: "contains s (net t)" if "contains s ip" "contains t ip" "plen s \<le> plen t" "ok s" "ok t" for s t ip
    using that contains_bits by (smt (verit) diff_le_mono2 le_trans)
  assume "\<exists>ip. contains s ip \<and> contains t ip"
  then show "overlaps s t"
    using *[of s _ t] *[of t _ s] assms unfolding overlaps_either by (meson nle_le)
qed

lemma overlaps_block_shared:
  assumes "ok s"
  shows "overlaps_block s addr n \<longleftrightarrow>
    (\<exists>ip. contains s ip \<and> ip AND block_mask (unat n) = addr AND block_mask (unat n))"
proof -
  have b: "ip AND block_mask m = addr AND block_mask m \<longleftrightarrow>
      (\<forall>k. LENGTH('a) - m \<le> k \<longrightarrow> k < LENGTH('a) \<longrightarrow> bit ip k = bit addr k)" for ip addr :: "'a word" and m
    unfolding bit_eq_iff by (auto simp: bit_simps bit_block_mask)
  show ?thesis
  proof (cases "unat n \<le> plen s")
    case True
    then have "overlaps_block s addr n \<longleftrightarrow> net s AND block_mask (unat n) = addr AND block_mask (unat n)"
      using overlaps_block_mask by (auto simp: min_def)
    then show ?thesis
      using net_contained[OF assms(1)] contains_bits[OF assms(1)] True unfolding b
      by (smt (verit) diff_le_mono2 le_trans)
  next
    case False
    then have *: "overlaps_block s addr n \<longleftrightarrow> contains s addr"
      using overlaps_block_mask ok_aligned[OF assms(1)] by (auto simp: contains_mask aligned_and)
    show ?thesis
      using False contains_bits[OF assms(1)] unfolding * b by (smt (verit) diff_le_mono2 le_trans nle_le)
  qed
qed

end

definition Subnet_ok :: "Subnet \<Rightarrow> bool" where
  "Subnet_ok s \<longleftrightarrow> 8 \<le> sn_prefix_len s \<and> sn_prefix_len s \<le> 30 \<and> sn_network s AND NOT (Subnet_mask s) = 0"

definition Subnet6_ok :: "Subnet6 \<Rightarrow> bool" where
  "Subnet6_ok s \<longleftrightarrow> 8 \<le> sn6_prefix_len s \<and> sn6_prefix_len s \<le> 126 \<and> sn6_network s AND NOT (Subnet6_mask s) = 0"

lemma Subnet_mask_block: "Subnet_mask s = block_mask (unat (sn_prefix_len s))"
  by (simp add: Subnet_mask_def block_mask_def)

lemma Subnet6_mask_block: "Subnet6_mask s = block_mask (unat (sn6_prefix_len s))"
  by (simp add: Subnet6_mask_def block_mask_def)

lemma unat_min: "unat (min a b :: 'a::len word) = min (unat a) (unat b)"
  by (simp add: min_def word_le_nat_alt)

lemma block_mask_0 [simp]: "block_mask 0 = 0"
  by (rule bit_word_eqI) (simp add: bit_block_mask)

interpretation v4: address_blocks sn_network sn_prefix_len Subnet_ok Subnet_contains Subnet_overlaps Subnet_overlaps_block
  by unfold_locales
    (auto simp: Subnet_ok_def aligned_def Subnet_mask_block Subnet_contains_def Subnet_overlaps_def
      Subnet_overlaps_block_def Let_def block_mask_def[symmetric, where ?'a = 32, simplified] unat_min[symmetric] unat_eq_zero)

interpretation v6: address_blocks sn6_network sn6_prefix_len Subnet6_ok Subnet6_contains Subnet6_overlaps
  Subnet6_overlaps_block
  by unfold_locales
    (auto simp: Subnet6_ok_def aligned_def Subnet6_mask_block Subnet6_contains_def Subnet6_overlaps_def
      Subnet6_overlaps_block_def Let_def block_mask_def[symmetric, where ?'a = 128, simplified] unat_min[symmetric] unat_eq_zero)

section \<open>The search for an address\<close>

lemma find_map_range_None: "find_map_range i n f = None \<longleftrightarrow> (\<forall>j. i \<le> j \<longrightarrow> j < n \<longrightarrow> f j = None)"
proof (induction i n f rule: find_map_range.induct)
  case (1 i n f)
  show ?case
  proof (cases "i < n \<and> f i = None")
    case True
    then have "(\<forall>j. i \<le> j \<longrightarrow> j < n \<longrightarrow> f j = None) \<longleftrightarrow> (\<forall>j. i + 1 \<le> j \<longrightarrow> j < n \<longrightarrow> f j = None)"
      by (metis Suc_eq_plus1 Suc_leD not_less_eq_eq order_antisym)
    then show ?thesis using True 1 by (subst find_map_range.simps) simp
  qed (subst find_map_range.simps, auto split: option.splits)
qed

lemma find_map_range_Some:
  "find_map_range i n f = Some y \<Longrightarrow> \<exists>j. i \<le> j \<and> j < n \<and> f j = Some y \<and> (\<forall>k. i \<le> k \<longrightarrow> k < j \<longrightarrow> f k = None)"
proof (induction i n f rule: find_map_range.induct)
  case (1 i n f)
  have i: "i < n" using "1.prems" by (subst (asm) find_map_range.simps) (simp split: if_splits)
  show ?case
  proof (cases "f i")
    case None
    then have "find_map_range (i + 1) n f = Some y"
      using "1.prems" i by (subst (asm) find_map_range.simps) simp
    then obtain j where "i + 1 \<le> j" "j < n" "f j = Some y" "\<forall>k. i + 1 \<le> k \<longrightarrow> k < j \<longrightarrow> f k = None"
      using "1.IH"[OF i None] by blast
    then show ?thesis using None by (intro exI[of _ j]) (metis Suc_eq_plus1 Suc_leD le_less less_eq_Suc_le)
  next
    case (Some z)
    then show ?thesis using "1.prems" i by (subst (asm) find_map_range.simps) (intro exI[of _ i], auto)
  qed
qed

lemma find_map_range_cong:
  "(\<And>j. i \<le> j \<Longrightarrow> j < n \<Longrightarrow> f j = g j) \<Longrightarrow> find_map_range i n f = find_map_range i n g"
proof (induction i n f rule: find_map_range.induct)
  case (1 i n f)
  show ?case
    by (subst (1 2) find_map_range.simps) (use 1 in \<open>auto split: option.splits\<close>)
qed

text \<open>Where the search starts, and after how many candidates it comes to an address.\<close>

definition search_start :: "nat \<Rightarrow> nat \<Rightarrow> nat option \<Rightarrow> nat" where
  "search_start lo hi after = (case after of Some a \<Rightarrow> if lo \<le> a \<and> a < hi then a + 1 else lo | None \<Rightarrow> lo)"

definition turn :: "nat \<Rightarrow> nat \<Rightarrow> nat option \<Rightarrow> nat \<Rightarrow> nat" where
  "turn lo hi after d = (d + (hi - lo + 1) - search_start lo hi after) mod (hi - lo + 1)"

definition candidate :: "nat \<Rightarrow> nat \<Rightarrow> nat option \<Rightarrow> nat \<Rightarrow> nat" where
  "candidate lo hi after i = lo + (search_start lo hi after - lo + i) mod (hi - lo + 1)"

lemma search_start_range: "lo \<le> hi \<Longrightarrow> lo \<le> search_start lo hi after \<and> search_start lo hi after \<le> hi"
  by (auto simp: search_start_def split: option.splits)

lemma candidate_range: "lo \<le> hi \<Longrightarrow> lo \<le> candidate lo hi after i \<and> candidate lo hi after i \<le> hi"
proof -
  assume "lo \<le> hi"
  moreover have "(search_start lo hi after - lo + i) mod (hi - lo + 1) < hi - lo + 1"
    by (rule mod_less_divisor) simp
  ultimately show ?thesis unfolding candidate_def by linarith
qed

lemma mod_shift: "a \<le> n \<Longrightarrow> x < n \<Longrightarrow> (a + (x + n - a) mod n) mod n = x" for a n x :: nat
  by (simp add: mod_add_right_eq)

lemma mod_unshift: "a \<le> n \<Longrightarrow> i < n \<Longrightarrow> ((a + i) mod n + n - a) mod n = i" for a n i :: nat
proof -
  assume a: "a \<le> n" and i: "i < n"
  have "((a + i) mod n + n - a) mod n = ((a + i) mod n + (n - a)) mod n" using a by simp
  also have "\<dots> = (a + i + (n - a)) mod n" by (rule mod_add_left_eq)
  also have "a + i + (n - a) = i + n" using a by simp
  finally show ?thesis using i by simp
qed

lemma candidate_turn:
  assumes "lo \<le> d" and "d \<le> hi"
  shows "candidate lo hi after (turn lo hi after d) = d"
proof -
  let ?s = "search_start lo hi after" and ?n = "hi - lo + 1"
  have s: "lo \<le> ?s" "?s \<le> hi" using search_start_range[of lo hi after] assms by auto
  have "d + ?n - ?s = (d - lo) + ?n - (?s - lo)" using assms s by linarith
  then show ?thesis
    using mod_shift[of "?s - lo" ?n "d - lo"] assms s by (simp add: candidate_def turn_def)
qed

lemma turn_candidate:
  assumes "lo \<le> hi" and "i < hi - lo + 1"
  shows "turn lo hi after (candidate lo hi after i) = i"
proof -
  let ?s = "search_start lo hi after" and ?n = "hi - lo + 1"
  have s: "lo \<le> ?s" "?s \<le> hi" using search_start_range[of lo hi after] assms by auto
  have "lo + m + ?n - ?s = m + ?n - (?s - lo)" for m using s by linarith
  then show ?thesis
    using mod_unshift[of "?s - lo" ?n i] assms s by (simp add: candidate_def turn_def)
qed

lemma turn_less: "turn lo hi after d < hi - lo + 1"
  by (simp add: turn_def)

lemma next_usable_candidates:
  assumes "lo \<le> hi" and "hi < 2 ^ 128" and "hi - lo < 2 ^ 127"
  shows "next_usable lo hi after usable =
    find_map_range 0 (min (hi - lo + 1) MAX_STEPS)
      (\<lambda>i. if usable (candidate lo hi after i) then Some (candidate lo hi after i) else None)"
proof -
  let ?s = "search_start lo hi after" and ?n = "hi - lo + 1"
  have s: "lo \<le> ?s" "?s \<le> hi" using search_start_range[of lo hi after] assms by auto
  have start: "(case after of None \<Rightarrow> lo | Some a \<Rightarrow> if lo \<le> a \<and> a \<le> hi \<and> a < hi then a + 1 else lo) = ?s"
    by (auto simp: search_start_def split: option.splits)
  have count: "min ?n (2 ^ 128 - 1) = ?n" using assms(3) by simp
  have "(lo + (?s - lo + i) mod 2 ^ 128 mod ?n) mod 2 ^ 128 = candidate lo hi after i" if "i < MAX_STEPS" for i
  proof -
    have "?s - lo + i < 2 ^ 128" using s assms(3) that by (simp add: MAX_STEPS_def)
    then show ?thesis
      using candidate_range[OF assms(1), of after i] assms(2) by (simp add: candidate_def)
  qed
  then show ?thesis
    unfolding next_usable_def Let_def start count by (intro find_map_range_cong) auto
qed

lemma next_usable_Some:
  assumes "lo \<le> hi" and "hi < 2 ^ 128" and "hi - lo < 2 ^ 127" and "next_usable lo hi after usable = Some c"
  shows "lo \<le> c \<and> c \<le> hi \<and> usable c \<and> 
    (\<forall>d. lo \<le> d \<longrightarrow> d \<le> hi \<longrightarrow> usable d \<longrightarrow> turn lo hi after c \<le> turn lo hi after d)"
proof -
  obtain j where j: "j < min (hi - lo + 1) MAX_STEPS" "usable (candidate lo hi after j)" "c = candidate lo hi after j"
      and before: "\<forall>k<j. \<not> usable (candidate lo hi after k)"
    using find_map_range_Some[OF assms(4)[unfolded next_usable_candidates[OF assms(1-3)]]]
    by (auto split: if_splits)
  have "turn lo hi after c \<le> turn lo hi after d" if "lo \<le> d" "d \<le> hi" "usable d" for d
  proof (rule ccontr)
    assume "\<not> ?thesis"
    then have "turn lo hi after d < j" using turn_candidate[OF assms(1)] j by simp
    then show False using before candidate_turn[OF that(1,2)] that(3) by metis
  qed
  then show ?thesis using candidate_range[OF assms(1)] j by auto
qed

lemma next_usable_None:
  assumes "lo \<le> hi" and "hi < 2 ^ 128" and "hi - lo < 2 ^ 127" and "next_usable lo hi after usable = None"
    and "lo \<le> d" and "d \<le> hi" and "turn lo hi after d < MAX_STEPS"
  shows "\<not> usable d"
proof -
  have "\<forall>j < min (hi - lo + 1) MAX_STEPS. \<not> usable (candidate lo hi after j)"
    using assms(4) unfolding next_usable_candidates[OF assms(1-3)] find_map_range_None by (auto split: if_splits)
  then show ?thesis using candidate_turn[OF assms(5,6)] turn_less assms(7) by (metis min_less_iff_conj)
qed

lemma next_usable_None_card:
  assumes "lo \<le> hi" and "hi < 2 ^ 128" and "hi - lo < 2 ^ 127" and "next_usable lo hi after usable = None"
  shows "min (hi - lo + 1) MAX_STEPS \<le> card {d. lo \<le> d \<and> d \<le> hi \<and> \<not> usable d}"
proof -
  let ?n = "min (hi - lo + 1) MAX_STEPS"
  have "candidate lo hi after ` {..<?n} \<subseteq> {d. lo \<le> d \<and> d \<le> hi \<and> \<not> usable d}"
    using assms(4) candidate_range[OF assms(1)]
    unfolding next_usable_candidates[OF assms(1-3)] find_map_range_None by (auto split: if_splits)
  moreover have "inj_on (candidate lo hi after) {..<?n}"
    using turn_candidate[OF assms(1)] by (intro inj_on_inverseI[of _ "turn lo hi after"]) auto
  ultimately show ?thesis
    using card_inj_on_le[of "candidate lo hi after" "{..<?n}"] by auto
qed

section \<open>Hosts\<close>

lemma unat_of_nat_below: "n \<le> unat (w :: 'a::len word) \<Longrightarrow> unat (of_nat n :: 'a word) = n"
  using le_less_trans[OF _ unat_bound[of w]] by (simp add: unat_of_nat)

lemma Subnet_sizes:
  assumes "Subnet_ok s"
  defines "b \<equiv> 2 ^ (32 - unat (sn_prefix_len s)) :: nat"
  shows "unat (Subnet_broadcast s) = unat (sn_network s) + (b - 1)"
    and "unat (Subnet_first_host s) = unat (sn_network s) + 1"
    and "unat (Subnet_last_host s) = unat (sn_network s) + (b - 2)"
    and "4 \<le> b" and "b \<le> 2 ^ 24"
proof -
  show b: "4 \<le> b" "b \<le> 2 ^ 24"
  proof -
    have "8 \<le> unat (sn_prefix_len s)" "unat (sn_prefix_len s) \<le> 30"
      using assms(1) by (auto simp: Subnet_ok_def word_le_nat_alt)
    then have "(2 :: nat) ^ 2 \<le> b" "b \<le> 2 ^ 24"
      unfolding b_def by (intro power_increasing; simp)+
    then show "4 \<le> b" "b \<le> 2 ^ 24" by simp_all
  qed
  show bc: "unat (Subnet_broadcast s) = unat (sn_network s) + (b - 1)"
    using aligned_last[OF v4.ok_aligned[OF assms(1)]]
    by (simp add: Subnet_broadcast_def Subnet_mask_block b_def)
  have fits: "unat (sn_network s) + (b - 1) < 2 ^ 32" unfolding bc[symmetric] using unat_bound[of "Subnet_broadcast s"] by simp
  then show "unat (Subnet_first_host s) = unat (sn_network s) + 1"
    using b(1) by (simp add: Subnet_first_host_def unat_word_ariths)
  have "(1 :: u32) \<le> Subnet_broadcast s" using bc b(1) by (simp add: word_le_nat_alt)
  then show "unat (Subnet_last_host s) = unat (sn_network s) + (b - 2)"
    using bc b(1) by (simp add: Subnet_last_host_def unat_sub)
qed

lemma Subnet6_sizes:
  assumes "Subnet6_ok s"
  defines "b \<equiv> 2 ^ (128 - unat (sn6_prefix_len s)) :: nat"
  shows "unat (Subnet6_first_host s) = unat (sn6_network s) + 1"
    and "unat (Subnet6_last_host s) = unat (sn6_network s) + (b - 1)"
    and "4 \<le> b" and "b \<le> 2 ^ 120"
proof -
  show b: "4 \<le> b" "b \<le> 2 ^ 120"
  proof -
    have "8 \<le> unat (sn6_prefix_len s)" "unat (sn6_prefix_len s) \<le> 126"
      using assms(1) by (auto simp: Subnet6_ok_def word_le_nat_alt)
    then have "(2 :: nat) ^ 2 \<le> b" "b \<le> 2 ^ 120"
      unfolding b_def by (intro power_increasing; simp)+
    then show "4 \<le> b" "b \<le> 2 ^ 120" by simp_all
  qed
  show lh: "unat (Subnet6_last_host s) = unat (sn6_network s) + (b - 1)"
    using aligned_last[OF v6.ok_aligned[OF assms(1)]]
    by (simp add: Subnet6_last_host_def Subnet6_mask_block b_def)
  have fits: "unat (sn6_network s) + (b - 1) < 2 ^ 128" unfolding lh[symmetric] using unat_bound[of "Subnet6_last_host s"] by simp
  then show "unat (Subnet6_first_host s) = unat (sn6_network s) + 1"
    using b(1) by (simp add: Subnet6_first_host_def unat_word_ariths)
qed

text \<open>What an allocator relies on: the hosts of a subnet are a range of addresses.\<close>

locale host_range =
  fixes hosts :: "'s \<Rightarrow> 'a::len word \<Rightarrow> bool" and lo :: "'s \<Rightarrow> 'a word" and hi :: "'s \<Rightarrow> 'a word"
    and ok :: "'s \<Rightarrow> bool"
  assumes hosts_range: "ok s \<Longrightarrow> hosts s ip \<longleftrightarrow> lo s \<le> ip \<and> ip \<le> hi s"
    and lo_le_hi: "ok s \<Longrightarrow> lo s \<le> hi s"
    and small: "ok s \<Longrightarrow> unat (hi s) - unat (lo s) < 2 ^ 127"
    and width: "LENGTH('a) \<le> 128"
begin

abbreviation search :: "'s \<Rightarrow> 'a word option \<Rightarrow> 'a word \<Rightarrow> ('a word \<Rightarrow> bool) \<Rightarrow> nat option" where
  "search s prev gateway in_use \<equiv> next_usable (unat (lo s)) (unat (hi s)) (map_option unat prev)
     (\<lambda>c. of_nat c \<noteq> gateway \<and> \<not> in_use (of_nat c))"

definition rotation :: "'s \<Rightarrow> 'a word option \<Rightarrow> 'a word \<Rightarrow> nat" where
  "rotation s prev ip = turn (unat (lo s)) (unat (hi s)) (map_option unat prev) (unat ip)"

lemma range_facts:
  assumes "ok s"
  shows "unat (lo s) \<le> unat (hi s)" and "unat (hi s) < 2 ^ 128" and "unat (hi s) - unat (lo s) < 2 ^ 127"
proof -
  show "unat (hi s) < 2 ^ 128"
    using unat_bound[of "hi s"] power_increasing[OF width, of "2 :: nat"] by linarith
qed (use assms lo_le_hi small in \<open>auto simp: word_le_nat_alt\<close>)

lemma search_Some:
  assumes "ok s" and "search s prev gateway in_use = Some c"
  shows "hosts s (of_nat c) \<and> of_nat c \<noteq> gateway \<and> \<not> in_use (of_nat c) \<and>
    (\<forall>ip. hosts s ip \<longrightarrow> ip \<noteq> gateway \<longrightarrow> \<not> in_use ip \<longrightarrow> rotation s prev (of_nat c) \<le> rotation s prev ip)"
proof -
  note next_usable_Some[OF range_facts[OF assms(1)] assms(2)]
  then have c: "unat (lo s) \<le> c" "c \<le> unat (hi s)" "of_nat c \<noteq> gateway" "\<not> in_use (of_nat c)"
      and first: "\<forall>d. unat (lo s) \<le> d \<longrightarrow> d \<le> unat (hi s) \<longrightarrow> of_nat d \<noteq> gateway \<and> \<not> in_use (of_nat d) \<longrightarrow>
        turn (unat (lo s)) (unat (hi s)) (map_option unat prev) c \<le> turn (unat (lo s)) (unat (hi s)) (map_option unat prev) d"
    by blast+
  have "unat (of_nat c :: 'a word) = c" by (rule unat_of_nat_below[OF c(2)])
  moreover have "rotation s prev (of_nat c) \<le> rotation s prev ip"
    if "hosts s ip" "ip \<noteq> gateway" "\<not> in_use ip" for ip
    using first[rule_format, of "unat ip"] that hosts_range[OF assms(1)] calculation
    by (simp add: rotation_def word_le_nat_alt)
  ultimately show ?thesis
    using c hosts_range[OF assms(1), of "of_nat c"] by (simp add: word_le_nat_alt)
qed

lemma search_None:
  assumes "ok s" and "search s prev gateway in_use = None"
    and "hosts s ip" and "rotation s prev ip < MAX_STEPS"
  shows "ip = gateway \<or> in_use ip"
  using next_usable_None[OF range_facts[OF assms(1)] assms(2), of "unat ip"] assms(3,4) hosts_range[OF assms(1)]
  by (auto simp: rotation_def word_le_nat_alt)

lemma search_None_full:
  assumes "ok s" and "search s prev gateway in_use = None" and "unat (hi s) - unat (lo s) < MAX_STEPS"
    and "hosts s ip"
  shows "ip = gateway \<or> in_use ip"
proof (rule search_None[OF assms(1,2,4)])
  have "rotation s prev ip < unat (hi s) - unat (lo s) + 1" unfolding rotation_def by (rule turn_less)
  then show "rotation s prev ip < MAX_STEPS" using assms(3) by linarith
qed

lemma search_None_card:
  assumes "ok s" and "search s prev gateway in_use = None"
  shows "min (unat (hi s) - unat (lo s) + 1) MAX_STEPS \<le> card {ip. hosts s ip \<and> (ip = gateway \<or> in_use ip)}"
proof -
  have "{d. unat (lo s) \<le> d \<and> d \<le> unat (hi s) \<and> \<not> (of_nat d \<noteq> gateway \<and> \<not> in_use (of_nat d))}
      \<subseteq> unat ` {ip. hosts s ip \<and> (ip = gateway \<or> in_use ip)}"
  proof
    fix d
    assume d: "d \<in> {d. unat (lo s) \<le> d \<and> d \<le> unat (hi s) \<and> \<not> (of_nat d \<noteq> gateway \<and> \<not> in_use (of_nat d))}"
    then have "unat (of_nat d :: 'a word) = d" using unat_of_nat_below[of d "hi s"] by blast
    then show "d \<in> unat ` {ip. hosts s ip \<and> (ip = gateway \<or> in_use ip)}"
      using d hosts_range[OF assms(1), of "of_nat d"] by (intro image_eqI[of _ _ "of_nat d"]) (auto simp: word_le_nat_alt)
  qed
  then have "card {d. unat (lo s) \<le> d \<and> d \<le> unat (hi s) \<and> \<not> (of_nat d \<noteq> gateway \<and> \<not> in_use (of_nat d))}
      \<le> card {ip. hosts s ip \<and> (ip = gateway \<or> in_use ip)}"
    by (meson card_image_le card_mono finite finite_imageI le_trans)
  then show ?thesis using next_usable_None_card[OF range_facts[OF assms(1)] assms(2)] by linarith
qed

end

interpretation hosts4: host_range Subnet_is_host Subnet_first_host Subnet_last_host Subnet_ok
proof
  fix s ip
  assume ok: "Subnet_ok s"
  note sz = Subnet_sizes[OF ok]
  have "Subnet_contains s ip \<longleftrightarrow> unat (sn_network s) \<le> unat ip \<and> unat ip \<le> unat (Subnet_broadcast s)"
    using v4.contains_range[OF ok] by (simp add: word_le_nat_alt Subnet_broadcast_def Subnet_mask_block)
  then show "Subnet_is_host s ip \<longleftrightarrow> Subnet_first_host s \<le> ip \<and> ip \<le> Subnet_last_host s"
    unfolding Subnet_is_host_def word_le_nat_alt word_unat_eq_iff sz(1,2,3) using sz(4) by linarith
  show "Subnet_first_host s \<le> Subnet_last_host s" using sz by (simp add: word_le_nat_alt)
  show "unat (Subnet_last_host s) - unat (Subnet_first_host s) < 2 ^ 127" using sz(2,3,5) by simp
qed simp

interpretation hosts6: host_range Subnet6_is_host Subnet6_first_host Subnet6_last_host Subnet6_ok
proof
  fix s ip
  assume ok: "Subnet6_ok s"
  note sz = Subnet6_sizes[OF ok]
  have "Subnet6_contains s ip \<longleftrightarrow> unat (sn6_network s) \<le> unat ip \<and> unat ip \<le> unat (Subnet6_last_host s)"
    using v6.contains_range[OF ok] by (simp add: word_le_nat_alt Subnet6_last_host_def Subnet6_mask_block)
  then show "Subnet6_is_host s ip \<longleftrightarrow> Subnet6_first_host s \<le> ip \<and> ip \<le> Subnet6_last_host s"
    unfolding Subnet6_is_host_def word_le_nat_alt word_unat_eq_iff sz(1,2) by linarith
  show "Subnet6_first_host s \<le> Subnet6_last_host s" using sz by (simp add: word_le_nat_alt)
  show "unat (Subnet6_last_host s) - unat (Subnet6_first_host s) < 2 ^ 127" using sz(1,2,4) by simp
qed simp

section \<open>The search for a subnet\<close>

locale subnet_search = address_blocks net plen8 ok contains overlaps overlaps_block
  for net :: "'s \<Rightarrow> 'a::len word" and plen8 and ok and contains and overlaps and overlaps_block +
  fixes new :: "'a word \<Rightarrow> u8 \<Rightarrow> NetError + 's"
  assumes new_iff: "new n p = Inr s \<longleftrightarrow> ok s \<and> net s = n \<and> plen8 s = p"
    and plen_width: "ok s \<Longrightarrow> plen s \<le> LENGTH('a)"
begin

definition fits_in :: "'s \<Rightarrow> u8 \<Rightarrow> 's \<Rightarrow> bool" where
  "fits_in pool p s \<longleftrightarrow> ok s \<and> plen8 s = p \<and> contains pool (net s)"

definition block_at :: "'s \<Rightarrow> u8 \<Rightarrow> nat \<Rightarrow> 'a word" where
  "block_at pool p i = net pool + of_nat i * push_bit (LENGTH('a) - unat p) 1"

lemma block_sizes:
  assumes "ok pool" and "plen pool \<le> unat p" and "unat p \<le> LENGTH('a)"
  shows "(2 :: nat) ^ (LENGTH('a) - plen pool) = 2 ^ (unat p - plen pool) * 2 ^ (LENGTH('a) - unat p)"
  using assms by (simp add: power_add[symmetric])

lemma block_at_unat:
  assumes "ok pool" and "plen pool \<le> unat p" and "unat p \<le> LENGTH('a)" and "i < 2 ^ (unat p - plen pool)"
  shows "unat (block_at pool p i) = unat (net pool) + i * 2 ^ (LENGTH('a) - unat p)"
    and "contains pool (block_at pool p i)" and "aligned (unat p) (block_at pool p i)"
proof -
  let ?b = "2 ^ (LENGTH('a) - unat p) :: nat" and ?B = "2 ^ (LENGTH('a) - plen pool) :: nat"
  note B = block_sizes[OF assms(1-3)]
  have "(i + 1) * ?b \<le> ?B" unfolding B by (rule mult_le_mono1) (use assms(4) in simp)
  then have "i * ?b + ?b \<le> ?B" by (simp only: distrib_right mult_1)
  moreover have "0 < ?b" by simp
  ultimately have le: "i * ?b \<le> ?B - 1" by linarith
  have top_addr: "unat (net pool OR NOT (block_mask (plen pool))) = unat (net pool) + (?B - 1)"
    by (rule aligned_last[OF ok_aligned[OF assms(1)]])
  have at: "block_at pool p i = of_nat (unat (net pool) + i * ?b)"
    by (simp add: block_at_def push_bit_eq_mult)
  show u: "unat (block_at pool p i) = unat (net pool) + i * ?b"
    unfolding at by (rule unat_of_nat_below[of _ "net pool OR NOT (block_mask (plen pool))"]) (use le top_addr in linarith)
  show "contains pool (block_at pool p i)"
    unfolding contains_range[OF assms(1)] word_le_nat_alt u top_addr using le by linarith
  have "?b dvd unat (net pool)"
    using ok_aligned[OF assms(1)] unfolding aligned_dvd B by (rule dvd_mult_right)
  then show "aligned (unat p) (block_at pool p i)" unfolding aligned_dvd u by simp
qed

lemma block_index:
  assumes "ok pool" and "plen pool \<le> unat p" and "fits_in pool p s"
  shows "\<exists>i < 2 ^ (unat p - plen pool). net s = block_at pool p i"
proof -
  let ?b = "2 ^ (LENGTH('a) - unat p) :: nat" and ?n = "2 ^ (unat p - plen pool) :: nat"
  have s: "ok s" "plen8 s = p" "contains pool (net s)" using assms(3) by (auto simp: fits_in_def)
  have pw: "unat p \<le> LENGTH('a)" using plen_width[OF s(1)] s(2) by simp
  note B = block_sizes[OF assms(1,2) pw]
  obtain q where q: "unat (net s) = ?b * q"
    using ok_aligned[OF s(1)] s(2) unfolding aligned_dvd by auto
  obtain Q where "unat (net pool) = ?n * ?b * Q"
    using ok_aligned[OF assms(1)] unfolding aligned_dvd B by (auto elim: dvdE)
  then have Q: "unat (net pool) = ?b * (?n * Q)" by (simp add: ac_simps)
  have "unat (net pool) \<le> unat (net s) \<and> unat (net s) < unat (net pool) + ?n * ?b"
    using s(3) unfolding contains_range[OF assms(1)] word_le_nat_alt aligned_last[OF ok_aligned[OF assms(1)]] B
    by (simp add: less_Suc_eq_le[symmetric])
  then have "?b * (?n * Q) \<le> ?b * q" "?b * q < ?b * (?n * Q + ?n)"
    unfolding q Q by (simp_all add: distrib_left ac_simps)
  then have "?n * Q \<le> q" "q < ?n * Q + ?n" by simp_all
  then obtain i where i: "i < ?n" "q = ?n * Q + i"
    using le_Suc_ex[of "?n * Q" q] by auto
  have "unat (net s) = unat (net pool) + i * ?b"
    unfolding q Q i(2) by (simp add: distrib_left)
  then have "net s = block_at pool p i"
    using block_at_unat(1)[OF assms(1,2) pw i(1)] by (simp only: word_unat_eq_iff)
  then show ?thesis using i(1) by blast
qed

abbreviation find_block :: "'s \<Rightarrow> u8 \<Rightarrow> ('s \<Rightarrow> bool) \<Rightarrow> nat \<Rightarrow> 's option" where
  "find_block pool p taken n \<equiv> find_map_range 0 n (\<lambda>i. filter_new (new (block_at pool p i) p) taken)"

lemma filter_new_Some: "filter_new (new n p) taken = Some s \<longleftrightarrow> ok s \<and> net s = n \<and> plen8 s = p \<and> \<not> taken s"
proof (cases "new n p")
  case (Inr r)
  then show ?thesis
    using new_iff[of n p r] new_iff[of n p s] by (auto simp: filter_new_def split: if_splits)
qed (use new_iff[of n p s] in \<open>auto simp: filter_new_def\<close>)

lemma find_block_Some:
  assumes "ok pool" and "plen pool \<le> unat p" and "n \<le> 2 ^ (unat p - plen pool)" and "find_block pool p taken n = Some s"
  shows "fits_in pool p s \<and> \<not> taken s \<and> (\<forall>t. fits_in pool p t \<longrightarrow> \<not> taken t \<longrightarrow> net s \<le> net t)"
proof -
  obtain j where j: "j < n" "ok s" "net s = block_at pool p j" "plen8 s = p" "\<not> taken s"
      and before: "\<forall>k<j. filter_new (new (block_at pool p k) p) taken = None"
    using find_map_range_Some[OF assms(4)] unfolding filter_new_Some by auto
  have pw: "unat p \<le> LENGTH('a)" using plen_width[OF j(2)] j(4) by simp
  note at = block_at_unat[OF assms(1,2) pw]
  have jn: "j < 2 ^ (unat p - plen pool)" using j(1) assms(3) by linarith
  have "net s \<le> net t" if t: "fits_in pool p t" "\<not> taken t" for t
  proof -
    obtain i where i: "i < 2 ^ (unat p - plen pool)" "net t = block_at pool p i"
      using block_index[OF assms(1,2) t(1)] by blast
    have "filter_new (new (block_at pool p i) p) taken = Some t"
      using t i(2) by (simp add: filter_new_Some fits_in_def)
    then have "j \<le> i" using before by (metis not_le option.distinct(1))
    then show ?thesis unfolding j(3) i(2) word_le_nat_alt at(1)[OF jn] at(1)[OF i(1)] by simp
  qed
  then show ?thesis using j at(2)[OF jn] by (simp add: fits_in_def)
qed

lemma find_block_None:
  assumes "ok pool" and "plen pool \<le> unat p" and "find_block pool p taken n = None" and "fits_in pool p t"
    and "unat (net t) < unat (net pool) + n * 2 ^ (LENGTH('a) - unat p)"
  shows "taken t"
proof (rule ccontr)
  assume free: "\<not> taken t"
  have pw: "unat p \<le> LENGTH('a)" using plen_width[of t] assms(4) by (auto simp: fits_in_def)
  obtain i where i: "i < 2 ^ (unat p - plen pool)" "net t = block_at pool p i"
    using block_index[OF assms(1,2,4)] by blast
  have "i < n" using assms(5) unfolding i(2) block_at_unat(1)[OF assms(1,2) pw i(1)] by simp
  moreover have "filter_new (new (block_at pool p i) p) taken = Some t"
    using assms(4) free i(2) by (simp add: filter_new_Some fits_in_def)
  ultimately show False using assms(3) unfolding find_map_range_None by simp
qed

lemma find_block_all:
  assumes "ok pool" and "plen pool \<le> unat p" and "find_block pool p taken (2 ^ (unat p - plen pool)) = None"
    and "fits_in pool p t"
  shows "taken t"
proof (rule find_block_None[OF assms])
  have "unat p \<le> LENGTH('a)" using plen_width[of t] assms(4) by (auto simp: fits_in_def)
  moreover obtain i where "i < 2 ^ (unat p - plen pool)" "net t = block_at pool p i"
    using block_index[OF assms(1,2,4)] by blast
  ultimately show "unat (net t) < unat (net pool) + 2 ^ (unat p - plen pool) * 2 ^ (LENGTH('a) - unat p)"
    using block_at_unat(1)[OF assms(1,2)] by simp
qed

end

lemma Subnet_new_iff: "Subnet_new n p = Inr s \<longleftrightarrow> Subnet_ok s \<and> sn_network s = n \<and> sn_prefix_len s = p"
  by (cases s) (auto simp: Subnet_new_def Subnet_ok_def Subnet_mask_def Let_def)

lemma Subnet6_new_iff: "Subnet6_new n p = Inr s \<longleftrightarrow> Subnet6_ok s \<and> sn6_network s = n \<and> sn6_prefix_len s = p"
  by (cases s) (auto simp: Subnet6_new_def Subnet6_ok_def Subnet6_mask_def Let_def)


interpretation search6: subnet_search sn6_network sn6_prefix_len Subnet6_ok Subnet6_contains Subnet6_overlaps
  Subnet6_overlaps_block Subnet6_new
  by unfold_locales (auto simp: Subnet6_new_iff Subnet6_ok_def word_le_nat_alt)



lemma free_subnet6_blocks:
  assumes "Subnet6_ok pool" and "sn6_prefix_len pool \<le> p" and "p \<le> 126"
  shows "free_subnet6 pool p taken =
    search6.find_block pool p taken (min (2 ^ (unat p - unat (sn6_prefix_len pool))) MAX_STEPS)"
proof -
  have p: "unat (p - sn6_prefix_len pool) = unat p - unat (sn6_prefix_len pool)" "unat p \<le> 126"
    using assms(2,3) by (simp_all add: unat_sub word_le_nat_alt)
  have "unat (push_bit (unat p - unat (sn6_prefix_len pool)) (1 :: u128)) = 2 ^ (unat p - unat (sn6_prefix_len pool))"
  proof -
    have "(2 :: nat) ^ (unat p - unat (sn6_prefix_len pool)) < 2 ^ 128"
      by (rule power_strict_increasing) (use p(2) in simp_all)
    then have "unat (of_nat (2 ^ (unat p - unat (sn6_prefix_len pool))) :: u128) = 2 ^ (unat p - unat (sn6_prefix_len pool))"
      by (simp only: unat_of_nat mod_less len_num1 len_bit0 mult_1_right) simp
    then show ?thesis by (simp add: push_bit_eq_mult)
  qed
  moreover have "\<not> p < sn6_prefix_len pool" "\<not> 126 < p" "unat p - unat (sn6_prefix_len pool) < 128"
    using assms(2,3) p(2) by auto
  moreover have "search6.block_at pool p = (\<lambda>i. sn6_network pool + of_nat i * push_bit (128 - unat p) 1)"
    by (simp add: search6.block_at_def fun_eq_iff)
  ultimately show ?thesis
    unfolding free_subnet6_def Let_def p(1) by simp
qed

section \<open>Round trip of the text form\<close>

lemma unat_octets: "from_octets (octets ip) = ip"
proof (rule bit_word_eqI)
  fix n
  assume "n < LENGTH(32)"
  then consider "n < 8" | "8 \<le> n" "n < 16" | "16 \<le> n" "n < 24" | "24 \<le> n" "n < 32" by fastforce
  then show "bit (from_octets (octets ip)) n = bit ip n"
    by cases (simp_all add: from_octets_def octets_def bit_simps less_diff_conv2)
qed

lemma octet_roundtrip: "parse_octet (dec (unat (b :: u8))) = Some b"
proof -
  have b: "unat b < 256" using unat_bound[of b] by simp
  then have "length (dec (unat b)) \<le> 3" by (intro dec_length) simp_all
  moreover have "\<not> (1 < length (dec (unat b)) \<and> hd (dec (unat b)) = CHR ''0'')"
    unfolding dec_leading_zero by (subst dec.simps) auto
  ultimately show ?thesis using b by (simp add: parse_octet_def)
qed

lemma Ipv4Addr_roundtrip: "Ipv4Addr_parse (Ipv4Addr_fmt ip) = Some ip"
proof -
  let ?parts = "map (\<lambda>b. dec (unat b)) (octets ip)"
  have split: "split_on (CHR ''.'') (Ipv4Addr_fmt ip) = ?parts"
    unfolding Ipv4Addr_fmt_def
    by (rule split_on_join) (auto simp: octets_def is_digit_def intro!: dec_no)
  have short: "length (dec (unat (b :: u8))) \<le> 3" for b
    using unat_bound[of b] by (intro dec_length) simp_all
  obtain a b c d where "octets ip = [a, b, c, d]" by (simp add: octets_def)
  then have "length (Ipv4Addr_fmt ip) \<le> 15"
    unfolding Ipv4Addr_fmt_def using short[of a] short[of b] short[of c] short[of d] by simp
  then show ?thesis
    using unat_octets[of ip]
    by (simp add: Ipv4Addr_parse_def split Let_def octets_def octet_roundtrip)
qed

section \<open>Properties\<close>

lemma foldl_zero_octets:
  "foldl (\<lambda>a b. push_bit 8 a OR ucast b) w (replicate m 0 :: u8 list) = push_bit (8 * m) (w :: u128)"
  by (induction m arbitrary: w) (simp_all add: add.commute)

lemma ula_ok:
  assumes "length (sha256 seed) = 32"
  shows "Subnet6_ok (Subnet6_ula sha256 seed)"
proof -
  have "push_bit 80 w AND NOT (block_mask 48) = (0 :: u128)" for w
    by (rule bit_word_eqI) (simp add: bit_simps bit_block_mask)
  moreover have "Ipv6Addr_from_octets (0xfd # take 5 (sha256 seed) @ replicate 10 0) =
      push_bit 80 (foldl (\<lambda>a b. push_bit 8 a OR ucast b) 0 (0xfd # take 5 (sha256 seed)))"
    using foldl_zero_octets[of _ 10] by (simp add: Ipv6Addr_from_octets_def)
  ultimately show ?thesis
    by (simp add: Subnet6_ok_def Subnet6_ula_def Subnet6_mask_block Let_def)
qed

definition sample_subnet :: Subnet where
  "sample_subnet = \<lparr>sn_network = 0x0a590000, sn_prefix_len = 24\<rparr>"

definition sample_subnet6 :: Subnet6 where
  "sample_subnet6 = \<lparr>sn6_network = push_bit 120 0xfd, sn6_prefix_len = 120\<rparr>"

lemma sample_subnet_ok: "Subnet_ok sample_subnet"
  by (simp add: Subnet_ok_def sample_subnet_def Subnet_mask_def mask_eq_exp_minus_1)

lemma sample_subnet6_ok: "Subnet6_ok sample_subnet6"
  by (simp add: Subnet6_ok_def sample_subnet6_def Subnet6_mask_def mask_eq_exp_minus_1)

text \<open>C11: two subnets overlap, as the code tests it by the network addresses alone, exactly when some
  address is in both; and a subnet overlaps a route's block of any prefix length exactly when it
  has an address that the block's prefix matches. Both hold for IPv4 and IPv6.\<close>

theorem overlaps_iff_shared_address:
  assumes "Subnet_ok s" and "Subnet_ok t" and "Subnet6_ok s6" and "Subnet6_ok t6"
  shows "(Subnet_overlaps s t \<longleftrightarrow> (\<exists>ip. Subnet_contains s ip \<and> Subnet_contains t ip)) \<and>
    (Subnet6_overlaps s6 t6 \<longleftrightarrow> (\<exists>ip. Subnet6_contains s6 ip \<and> Subnet6_contains t6 ip)) \<and>
    (Subnet_overlaps_block s addr len \<longleftrightarrow>
      (\<exists>ip. Subnet_contains s ip \<and> ip AND block_mask (unat len) = addr AND block_mask (unat len))) \<and>
    (Subnet6_overlaps_block s6 addr6 len \<longleftrightarrow>
      (\<exists>ip. Subnet6_contains s6 ip \<and> ip AND block_mask (unat len) = addr6 AND block_mask (unat len)))"
  by (intro conjI v4.overlaps_shared[OF assms(1,2)] v6.overlaps_shared[OF assms(3,4)]
      v4.overlaps_block_shared[OF assms(1)] v6.overlaps_block_shared[OF assms(3)])

theorem overlaps_iff_shared_address_witness:
  "Subnet_overlaps sample_subnet sample_subnet \<and> Subnet_overlaps_block sample_subnet 0x0a590080 32"
proof -
  have "Subnet_contains sample_subnet 0x0a590080"
    by (simp add: Subnet_contains_def sample_subnet_def Subnet_mask_def mask_eq_exp_minus_1)
  then show ?thesis
    using overlaps_iff_shared_address[OF sample_subnet_ok sample_subnet_ok sample_subnet6_ok sample_subnet6_ok]
    by blast
qed

text \<open>C10: an allocation gives a host address that is neither the gateway nor in use, the first such
  one in the cyclic order that starts after the address given last, so a released address comes
  back last; it remembers that address. It fails only when every host address is the gateway or
  in use, and then changes nothing.\<close>

theorem allocate_next_free:
  assumes "Subnet_ok (al_subnet a)"
  shows "case Allocator_allocate a in_use of
      (None, a') \<Rightarrow> a' = a \<and> (\<forall>ip. Subnet_is_host (al_subnet a) ip \<longrightarrow> ip = al_gateway a \<or> in_use ip)
    | (Some ip, a') \<Rightarrow>
        a' = a\<lparr>al_last := Some ip\<rparr> \<and> Subnet_is_host (al_subnet a) ip \<and> ip \<noteq> al_gateway a \<and> \<not> in_use ip \<and>
        (\<forall>other. Subnet_is_host (al_subnet a) other \<longrightarrow> other \<noteq> al_gateway a \<longrightarrow> \<not> in_use other \<longrightarrow>
           hosts4.rotation (al_subnet a) (al_last a) ip \<le> hosts4.rotation (al_subnet a) (al_last a) other)"
proof (cases "hosts4.search (al_subnet a) (al_last a) (al_gateway a) in_use")
  case None
  have "unat (Subnet_last_host (al_subnet a)) - unat (Subnet_first_host (al_subnet a)) < MAX_STEPS"
    using Subnet_sizes[OF assms] by (simp add: MAX_STEPS_def)
  then show ?thesis
    using hosts4.search_None_full[OF assms None] None by (simp add: Allocator_allocate_def)
next
  case (Some c)
  then show ?thesis
    using hosts4.search_Some[OF assms Some] by (simp add: Allocator_allocate_def)
qed

theorem allocate_next_free_witness:
  "case Allocator_allocate (Allocator_new sample_subnet 0x0a590001) (\<lambda>ip. ip < 0x0a590003) of
     (None, _) \<Rightarrow> False | (Some ip, _) \<Rightarrow> Subnet_is_host sample_subnet ip \<and> 0x0a590003 \<le> ip"
proof -
  have "Subnet_is_host sample_subnet 0x0a590003"
    by (simp add: Subnet_is_host_def Subnet_contains_def Subnet_broadcast_def sample_subnet_def Subnet_mask_def
        mask_eq_exp_minus_1)
  then show ?thesis
    using allocate_next_free[of "Allocator_new sample_subnet 0x0a590001" "\<lambda>ip. ip < 0x0a590003"] sample_subnet_ok
    by (auto simp: Allocator_new_def not_less split: prod.splits option.splits)
qed

text \<open>An IPv6 allocation succeeds whenever fewer addresses are in use than the subnet has hosts,
  the gateway counted in, up to the search bound of \<open>2^24\<close> candidates; what it gives is a free
  host address.\<close>

theorem allocate6_succeeds:
  assumes "Subnet6_ok (al6_subnet a)"
    and "card {ip. Subnet6_is_host (al6_subnet a) ip \<and> (ip = al6_gateway a \<or> in_use ip)}
       < min (2 ^ (128 - unat (sn6_prefix_len (al6_subnet a))) - 1) (2 ^ 24)"
  shows "\<exists>ip. Allocator6_allocate a in_use = (Some ip, a\<lparr>al6_last := Some ip\<rparr>) \<and>
    Subnet6_is_host (al6_subnet a) ip \<and> ip \<noteq> al6_gateway a \<and> \<not> in_use ip"
proof (cases "hosts6.search (al6_subnet a) (al6_last a) (al6_gateway a) in_use")
  case None
  have "unat (Subnet6_last_host (al6_subnet a)) - unat (Subnet6_first_host (al6_subnet a)) + 1 =
      2 ^ (128 - unat (sn6_prefix_len (al6_subnet a))) - 1"
    unfolding Subnet6_sizes(1,2)[OF assms(1)] using Subnet6_sizes(3)[OF assms(1)] by linarith
  then have False
    using hosts6.search_None_card[OF assms(1) None] assms(2) unfolding MAX_STEPS_def by linarith
  then show ?thesis ..
next
  case (Some c)
  then show ?thesis
    using hosts6.search_Some[OF assms(1) Some] by (simp add: Allocator6_allocate_def)
qed

theorem allocate6_succeeds_witness:
  "\<exists>ip. Allocator6_allocate (Allocator6_new sample_subnet6 (push_bit 120 0xfd + 1)) (\<lambda>_. False) =
      (Some ip, (Allocator6_new sample_subnet6 (push_bit 120 0xfd + 1))\<lparr>al6_last := Some ip\<rparr>) \<and>
    Subnet6_is_host sample_subnet6 ip \<and> ip \<noteq> push_bit 120 0xfd + 1"
proof -
  let ?a = "Allocator6_new sample_subnet6 (push_bit 120 0xfd + 1)"
  have "card {ip. Subnet6_is_host sample_subnet6 ip \<and> ip = push_bit 120 0xfd + 1} \<le> card {push_bit 120 0xfd + 1 :: u128}"
    by (rule card_mono) auto
  then show ?thesis
    using allocate6_succeeds[of ?a "\<lambda>_. False"] sample_subnet6_ok
    by (simp add: Allocator6_new_def) (simp add: sample_subnet6_def)
qed



text \<open>A search of an IPv6 pool gives the lowest block of the wanted size inside the pool that is
  not taken; it gives none only if the first \<open>2^24\<close> blocks (all of them, if there are fewer) are
  taken.\<close>

theorem free_subnet6_lowest:
  assumes "Subnet6_ok pool" and "sn6_prefix_len pool \<le> p" and "p \<le> 126"
  defines "inside t \<equiv> Subnet6_ok t \<and> sn6_prefix_len t = p \<and> Subnet6_contains pool (sn6_network t)"
  shows "case free_subnet6 pool p taken of
      None \<Rightarrow> \<forall>t. inside t \<longrightarrow>
        unat (sn6_network t) < unat (sn6_network pool) +
          min (2 ^ (unat p - unat (sn6_prefix_len pool))) (2 ^ 24) * 2 ^ (128 - unat p) \<longrightarrow> taken t
    | Some s \<Rightarrow> inside s \<and> \<not> taken s \<and> (\<forall>t. inside t \<longrightarrow> \<not> taken t \<longrightarrow> sn6_network s \<le> sn6_network t)"
proof -
  have p: "unat (sn6_prefix_len pool) \<le> unat p" using assms(2) by (simp add: word_le_nat_alt)
  let ?n = "min (2 ^ (unat p - unat (sn6_prefix_len pool))) MAX_STEPS"
  have inside: "inside t = search6.fits_in pool p t" for t by (simp add: inside_def search6.fits_in_def)
  show ?thesis
  proof (cases "search6.find_block pool p taken ?n")
    case None
    then show ?thesis
      unfolding free_subnet6_blocks[OF assms(1-3)] None inside
      using search6.find_block_None[OF assms(1) p None] by (simp add: MAX_STEPS_def)
  next
    case (Some s)
    then show ?thesis
      unfolding free_subnet6_blocks[OF assms(1-3)] Some inside
      using search6.find_block_Some[OF assms(1) p min.cobounded1 Some] by simp
  qed
qed

theorem free_subnet6_lowest_witness:
  "case free_subnet6 \<lparr>sn6_network = push_bit 120 0xfd, sn6_prefix_len = 48\<rparr> 64 (\<lambda>_. False) of
     Some s \<Rightarrow> Subnet6_ok s \<and> sn6_prefix_len s = 64 | None \<Rightarrow> False"
proof -
  let ?pool = "\<lparr>sn6_network = push_bit 120 0xfd, sn6_prefix_len = 48\<rparr>"
    and ?t = "\<lparr>sn6_network = push_bit 120 0xfd, sn6_prefix_len = 64\<rparr>"
  have "Subnet6_ok ?pool" "Subnet6_ok ?t" "Subnet6_contains ?pool (push_bit 120 0xfd)"
    by (simp_all add: Subnet6_ok_def Subnet6_mask_def Subnet6_contains_def mask_eq_exp_minus_1)
  moreover have "case free_subnet6 ?pool 64 (\<lambda>_. False) of
      None \<Rightarrow> \<not> (Subnet6_ok ?t \<and> Subnet6_contains ?pool (push_bit 120 0xfd)) | Some s \<Rightarrow> Subnet6_ok s \<and> sn6_prefix_len s = 64"
    using free_subnet6_lowest[of ?pool 64 "\<lambda>_. False"] calculation(1)
    by (cases "free_subnet6 ?pool 64 (\<lambda>_. False)") (auto dest!: spec[of _ ?t])
  ultimately show ?thesis by (simp split: option.splits)
qed

text \<open>A well-formed subnet printed and parsed again is the same subnet.\<close>

theorem Subnet_roundtrip:
  assumes "Subnet_ok s"
  shows "Subnet_parse (Subnet_fmt s) = Inr s"
proof -
  have "CHR ''/'' \<notin> set (Ipv4Addr_fmt n)" for n
    using dec_no[of "CHR ''/''"] by (auto simp: Ipv4Addr_fmt_def octets_def is_digit_def)
  then have "split_once (CHR ''/'') (Subnet_fmt s) = Some (Ipv4Addr_fmt (sn_network s), dec (unat (sn_prefix_len s)))"
    by (simp add: Subnet_fmt_def split_once_append)
  moreover have "unat (sn_prefix_len s) < 2 ^ 8" using unat_bound[of "sn_prefix_len s"] by simp
  ultimately show ?thesis
    using assms by (simp add: Subnet_parse_def Ipv4Addr_roundtrip Subnet_new_iff)
qed

theorem Subnet_roundtrip_witness: "Subnet_parse (Subnet_fmt sample_subnet) = Inr sample_subnet"
  by (rule Subnet_roundtrip) (rule sample_subnet_ok)

text \<open>a container's MAC address, as printed, identifies its IPv4 address.\<close>

theorem mac_identifies_address:
  "format_mac (mac_for a) = format_mac (mac_for b) \<longleftrightarrow> a = b"
proof
  have hex: "hex_byte x = hex_byte y \<Longrightarrow> x = y" for x y :: u8
  proof -
    assume "hex_byte x = hex_byte y"
    then have "hex_value (hex_char (unat x div 16)) = hex_value (hex_char (unat y div 16))"
        "hex_value (hex_char (unat x mod 16)) = hex_value (hex_char (unat y mod 16))"
      by (simp_all add: hex_byte_def)
    moreover have "unat x div 16 < 16" "unat y div 16 < 16"
      using unat_bound[of x] unat_bound[of y] by simp_all
    ultimately have "unat x div 16 = unat y div 16" "unat x mod 16 = unat y mod 16" by simp_all
    then show "x = y" by (metis div_mult_mod_eq word_unat_eq_iff)
  qed
  assume "format_mac (mac_for a) = format_mac (mac_for b)"
  then have "octets a = octets b"
    by (simp add: format_mac_def mac_for_def octets_def) (auto simp: hex_byte_def intro!: hex)
  then show "a = b" using unat_octets by metis
qed simp

end
