(* ===== verification/Interpolate.thy ===== *)
theory Interpolate
  imports Text
begin

text \<open>
  Variables of compose files, \<^verbatim>\<open>rustlet-compose/src/interpolate.rs\<close>: the substitution of
  \<open>${VAR}\<close> in a text and in every string of a document, and the parser of \<open>.env\<close> files. A text is
  its bytes; the character classes of the \<open>.env\<close> parser are those of ASCII. Error messages are
  kept as the data they are formatted from. The YAML value is \<open>serde_yaml_ng\<close>'s; only its shape
  matters here.
\<close>

section \<open>Substitution\<close>

datatype InvalidWhy = UnclosedBrace | NoName string | BadOperator string string

datatype SubstError = Invalid string InvalidWhy | Required string string

definition name_length :: "string \<Rightarrow> nat" where
  "name_length s =
     length (takeWhile (\<lambda>(i, b). b = CHR ''_'' \<or> is_alpha b \<or> i > 0 \<and> is_digit b) (enumerate 0 s))"

text \<open>\<open>closing_brace\<close>: the loop from index \<open>i\<close>, the bytes from there in \<open>s\<close>.\<close>

fun closing_brace_loop :: "nat \<Rightarrow> nat option \<Rightarrow> nat \<Rightarrow> string \<Rightarrow> nat option" where
  "closing_brace_loop depth first_close i [] = first_close"
| "closing_brace_loop depth first_close i (c # cs) =
     (if c = CHR ''$'' \<and> cs \<noteq> [] \<and> hd cs = CHR ''$'' then closing_brace_loop depth first_close (i + 2) (tl cs)
      else if c = CHR ''{'' then closing_brace_loop (depth + 1) first_close (i + 1) cs
      else if c = CHR ''}'' then
        (let first_close = (case first_close of None \<Rightarrow> Some i | Some j \<Rightarrow> Some j)
         in if depth - 1 = 0 then Some i else closing_brace_loop (depth - 1) first_close (i + 1) cs)
      else closing_brace_loop depth first_close (i + 1) cs)"

definition closing_brace :: "string \<Rightarrow> nat option" where
  "closing_brace s = closing_brace_loop 1 None 0 s"

definition note_unset :: "string list \<Rightarrow> string \<Rightarrow> string list" where
  "note_unset unset name = (if name \<in> set unset then unset else unset @ [name])"

definition find_operator :: "string \<Rightarrow> (string \<times> string) option" where
  "find_operator tail =
     find_map_list (\<lambda>op. map_option (\<lambda>w. (op, w)) (strip_prefix op tail))
       ['':-'', '':?'', '':+'', ''-'', ''?'', ''+'']"

lemma find_operator_Some:
  "find_operator tail = Some (op, w) \<Longrightarrow> tail = op @ w \<and> op \<in> {'':-'', '':?'', '':+'', ''-'', ''?'', ''+''}"
  unfolding find_operator_def by (drule find_map_list_Some) (auto simp: strip_prefix_Some simp del: strip_prefix.simps)

lemma find_operator_length: "find_operator (drop n e) = Some (op, w) \<Longrightarrow> length w < length e"
proof -
  assume "find_operator (drop n e) = Some (op, w)"
  moreover have "length w < length t" if "find_operator t = Some (op, w)" for t
    using find_operator_Some[OF that] by auto
  ultimately show ?thesis by fastforce
qed

lemma split_once_length: "split_once c s = Some (a, b) \<Longrightarrow> length b < length s"
  by (auto simp: split_once_Some)

text \<open>\<open>substitute_into\<close>, its loop over \<open>rest\<close>, and \<open>braced\<close>.\<close>

type_synonym lookup = "string \<Rightarrow> string option"

function substitute_loop ::
    "lookup \<Rightarrow> string \<Rightarrow> string \<Rightarrow> string \<Rightarrow> string list \<Rightarrow> SubstError + string \<times> string list"
  and braced :: "lookup \<Rightarrow> string \<Rightarrow> string \<Rightarrow> string \<Rightarrow> string list \<Rightarrow> SubstError + string \<times> string list" where
  "substitute_loop lookup txt rest out unset =
     (case split_once (CHR ''$'') rest of
        None \<Rightarrow> Inr (out @ rest, unset)
      | Some (before, after) \<Rightarrow>
          let out = out @ before in
          if after \<noteq> [] \<and> hd after = CHR ''$'' then substitute_loop lookup txt (tl after) (out @ ''$'') unset
          else if after \<noteq> [] \<and> hd after = CHR ''{'' then
            (case closing_brace (tl after) of
               None \<Rightarrow> Inl (Invalid txt UnclosedBrace)
             | Some close \<Rightarrow>
                 bind_result (braced lookup (take close (tl after)) txt out unset) (\<lambda>(out, unset).
                   substitute_loop lookup txt (drop (close + 1) (tl after)) out unset))
          else
            let len = name_length after; name = take len after in
            if len > 0 then
              (case lookup name of
                 Some v \<Rightarrow> substitute_loop lookup txt (drop len after) (out @ v) unset
               | None \<Rightarrow> substitute_loop lookup txt (drop len after) out (note_unset unset name))
            else substitute_loop lookup txt (drop len after) (out @ ''$'') unset)"
| "braced lookup expr txt out unset =
     (let len = name_length expr in
      if len = 0 then Inl (Invalid txt (NoName expr))
      else
        let name = take len expr; tail = drop len expr; val = lookup name in
        if tail = [] then
          (case val of Some v \<Rightarrow> Inr (out @ v, unset) | None \<Rightarrow> Inr (out, note_unset unset name))
        else
          (case find_operator tail of
             None \<Rightarrow> Inl (Invalid txt (BadOperator expr name))
           | Some (op, word) \<Rightarrow>
               let present = (if hd op = CHR '':'' then (case val of None \<Rightarrow> False | Some v \<Rightarrow> v \<noteq> []) else val \<noteq> None);
                   v = (case val of None \<Rightarrow> [] | Some v \<Rightarrow> v);
                   act = dropWhile (\<lambda>c. c = CHR '':'') op
               in if act = ''-'' then
                    (if present then Inr (out @ v, unset) else substitute_loop lookup word word out unset)
                  else if act = ''?'' then
                    (if present then Inr (out @ v, unset)
                     else bind_result (substitute_loop lookup word word [] unset) (\<lambda>(message, _).
                            Inl (Required name message)))
                  else if present then substitute_loop lookup word word out unset
                  else Inr (out, unset)))"
  by pat_completeness auto

termination
proof (relation "measure (\<lambda>x. case x of
    Inl (lookup, txt, rest, out, unset) \<Rightarrow> 2 * length rest | Inr (lookup, expr, txt, out, unset) \<Rightarrow> 2 * length expr + 1)")
qed (auto dest!: split_once_length find_operator_length)

declare substitute_loop.simps [simp del] braced.simps [simp del]

definition substitute_into ::
    "lookup \<Rightarrow> string \<Rightarrow> string \<Rightarrow> string list \<Rightarrow> SubstError + string \<times> string list" where
  "substitute_into lookup txt out unset = substitute_loop lookup txt txt out unset"

record Substituted =
  sub_value :: string
  sub_unset :: "string list"

definition substitute :: "string \<Rightarrow> lookup \<Rightarrow> SubstError + Substituted" where
  "substitute txt lookup =
     bind_result (substitute_into lookup txt [] []) (\<lambda>(v, unset). Inr \<lparr>sub_value = v, sub_unset = unset\<rparr>)"

section \<open>Documents\<close>

datatype yaml =
    YNull
  | YBool bool
  | YNumber string
  | YString string
  | YSequence "yaml list"
  | YMapping "(yaml \<times> yaml) list"
  | YTagged string yaml

text \<open>\<open>at\<close> pairs a path with what happened there; \<open>debug\<close> prints a key that is no string. The state
  after an error is dropped: every caller passes the error on.\<close>

definition push_key :: "(yaml \<Rightarrow> string) \<Rightarrow> string \<Rightarrow> yaml \<Rightarrow> string" where
  "push_key debug path key =
     (if path = [] then [] else path @ ''.'') @ (case key of YString k \<Rightarrow> k | other \<Rightarrow> debug other)"

fun walk :: "(yaml \<Rightarrow> string) \<Rightarrow> lookup \<Rightarrow> string \<Rightarrow> yaml \<Rightarrow> string list \<Rightarrow> (string \<times> SubstError) + yaml \<times> string list"
  and walk_items ::
    "(yaml \<Rightarrow> string) \<Rightarrow> lookup \<Rightarrow> string \<Rightarrow> nat \<Rightarrow> yaml list \<Rightarrow> string list \<Rightarrow> (string \<times> SubstError) + yaml list \<times> string list"
  and walk_entries ::
    "(yaml \<Rightarrow> string) \<Rightarrow> lookup \<Rightarrow> string \<Rightarrow> (yaml \<times> yaml) list \<Rightarrow> string list \<Rightarrow>
       (string \<times> SubstError) + (yaml \<times> yaml) list \<times> string list" where
  "walk debug lookup path (YString s) unset =
     (if CHR ''$'' \<in> set s then
        (case substitute_into lookup s [] unset of
           Inl e \<Rightarrow> Inl (path, e)
         | Inr (out, unset) \<Rightarrow> Inr (YString out, unset))
      else Inr (YString s, unset))"
| "walk debug lookup path (YSequence items) unset =
     bind_result (walk_items debug lookup path 0 items unset) (\<lambda>(items, unset). Inr (YSequence items, unset))"
| "walk debug lookup path (YMapping entries) unset =
     bind_result (walk_entries debug lookup path entries unset) (\<lambda>(entries, unset). Inr (YMapping entries, unset))"
| "walk debug lookup path (YTagged tag v) unset =
     bind_result (walk debug lookup path v unset) (\<lambda>(v, unset). Inr (YTagged tag v, unset))"
| "walk debug lookup path v unset = Inr (v, unset)"
| "walk_items debug lookup path i [] unset = Inr ([], unset)"
| "walk_items debug lookup path i (item # items) unset =
     bind_result (walk debug lookup (path @ ''['' @ dec i @ '']'') item unset) (\<lambda>(item, unset).
     bind_result (walk_items debug lookup path (i + 1) items unset) (\<lambda>(items, unset).
       Inr (item # items, unset)))"
| "walk_entries debug lookup path [] unset = Inr ([], unset)"
| "walk_entries debug lookup path ((key, item) # entries) unset =
     bind_result (walk debug lookup (push_key debug path key) item unset) (\<lambda>(item, unset).
     bind_result (walk_entries debug lookup path entries unset) (\<lambda>(entries, unset).
       Inr ((key, item) # entries, unset)))"

definition interpolate :: "(yaml \<Rightarrow> string) \<Rightarrow> yaml \<Rightarrow> lookup \<Rightarrow> string list \<Rightarrow> (string \<times> SubstError) + yaml \<times> string list" where
  "interpolate debug v lookup unset = walk debug lookup [] v unset"

section \<open>\<open>.env\<close> files\<close>

text \<open>The cursor: the characters from \<open>i\<close> on, and the line.\<close>

record Parser =
  ps_rest :: string
  ps_line :: nat

datatype DotenvError =
    BadName nat
  | UnexpectedAfterName nat char string
  | UnclosedQuote nat char
  | AfterQuote nat char
  | InValue nat SubstError

definition peek :: "Parser \<Rightarrow> char option" where
  "peek p = (case ps_rest p of [] \<Rightarrow> None | c # _ \<Rightarrow> Some c)"

definition bump :: "Parser \<Rightarrow> Parser" where
  "bump p = \<lparr>ps_rest = tl (ps_rest p), ps_line = (if peek p = Some (CHR 0x0A) then ps_line p + 1 else ps_line p)\<rparr>"

lemma bump_length: "peek p = Some c \<Longrightarrow> length (ps_rest (bump p)) < length (ps_rest p)"
  by (auto simp: peek_def bump_def split: list.splits)

definition is_blank :: "char \<Rightarrow> bool" where
  "is_blank c \<longleftrightarrow> c = CHR '' '' \<or> c = CHR 0x09 \<or> c = CHR 0x0D"

function skip_blanks :: "Parser \<Rightarrow> Parser" where
  "skip_blanks p = (case peek p of Some c \<Rightarrow> if is_blank c then skip_blanks (bump p) else p | None \<Rightarrow> p)"
  by pat_completeness auto
termination by (relation "measure (\<lambda>p. length (ps_rest p))") (auto simp: bump_length)

function skip_line :: "Parser \<Rightarrow> Parser" where
  "skip_line p = (case peek p of Some c \<Rightarrow> if c = CHR 0x0A then bump p else skip_line (bump p) | None \<Rightarrow> p)"
  by pat_completeness auto
termination by (relation "measure (\<lambda>p. length (ps_rest p))") (auto simp: bump_length)

definition is_key_char :: "char \<Rightarrow> bool" where
  "is_key_char c \<longleftrightarrow> is_alnum c \<or> c \<in> {CHR ''_'', CHR ''.'', CHR ''-'', CHR ''['', CHR '']''}"

function read_key :: "Parser \<Rightarrow> string \<times> Parser" where
  "read_key p =
     (case peek p of
        Some c \<Rightarrow> if is_key_char c then (let (k, p) = read_key (bump p) in (c # k, p)) else ([], p)
      | None \<Rightarrow> ([], p))"
  by pat_completeness auto
termination by (relation "measure (\<lambda>p. length (ps_rest p))") (auto simp: bump_length)

function rest_of_line :: "Parser \<Rightarrow> string \<times> Parser" where
  "rest_of_line p =
     (case peek p of
        Some c \<Rightarrow> if c = CHR 0x0A then ([], bump p) else (let (s, p) = rest_of_line (bump p) in (c # s, p))
      | None \<Rightarrow> ([], p))"
  by pat_completeness auto
termination by (relation "measure (\<lambda>p. length (ps_rest p))") (auto simp: bump_length)

declare skip_blanks.simps [simp del] skip_line.simps [simp del] read_key.simps [simp del] rest_of_line.simps [simp del]

text \<open>\<open>escape\<close>: the text the backslash before \<open>rest\<close> stands for, and how many characters that took.\<close>

definition simple_escape :: "char \<Rightarrow> char option" where
  "simple_escape c =
     map_of [(CHR ''a'', CHR 0x07), (CHR ''b'', CHR 0x08), (CHR ''f'', CHR 0x0C), (CHR ''n'', CHR 0x0A),
             (CHR ''r'', CHR 0x0D), (CHR ''t'', CHR 0x09), (CHR ''v'', CHR 0x0B), (CHR 0x22, CHR 0x22),
             (CHR 0x5C, CHR 0x5C)] c"

definition is_octal :: "char \<Rightarrow> bool" where
  "is_octal c \<longleftrightarrow> 48 \<le> (of_char c :: nat) \<and> (of_char c :: nat) \<le> 55"

definition parse_escape :: "string \<Rightarrow> (string \<times> nat) option" where
  "parse_escape rest =
     (case rest of
        [] \<Rightarrow> None
      | c # cs \<Rightarrow>
          if c = CHR ''$'' then Some (''$$'', 1)
          else if c = CHR ''0'' then
            (let digits = take 3 cs in
             if length digits \<noteq> 3 \<or> \<not> list_all is_octal digits then None
             else let v = foldl (\<lambda>n d. n * 8 + digit_value d) 0 digits
                  in if v \<le> 255 then Some (utf8_latin v, 4) else None)
          else (case simple_escape c of None \<Rightarrow> None | Some e \<Rightarrow> Some ([e], 1)))"

lemma parse_escape_taken: "parse_escape rest = Some (s, n) \<Longrightarrow> 0 < n \<and> n \<le> length rest"
  by (auto simp: parse_escape_def Let_def split: list.splits if_splits option.splits)

definition advance :: "nat \<Rightarrow> Parser \<Rightarrow> Parser" where
  "advance n p = p\<lparr>ps_rest := drop n (ps_rest p)\<rparr>"

function until_quote :: "char \<Rightarrow> nat \<Rightarrow> string \<Rightarrow> Parser \<Rightarrow> DotenvError + string \<times> Parser" where
  "until_quote quote line s p =
     (case peek p of
        None \<Rightarrow> Inl (UnclosedQuote line quote)
      | Some c \<Rightarrow>
          let p1 = bump p in
          if c = quote then Inr (s, p1)
          else if c \<noteq> CHR 0x5C then until_quote quote line (s @ [c]) p1
          else
            (case peek p1 of
               None \<Rightarrow> until_quote quote line s p1
             | Some nxt \<Rightarrow>
                 if nxt = quote then until_quote quote line (s @ [quote]) (bump p1)
                 else if quote = CHR 0x27 then
                   (if nxt = CHR 0x5C then until_quote quote line (s @ [CHR 0x5C, CHR 0x5C]) (bump p1)
                    else until_quote quote line (s @ [CHR 0x5C]) p1)
                 else
                   (case parse_escape (ps_rest p1) of
                      Some (escaped, taken) \<Rightarrow> until_quote quote line (s @ escaped) (advance taken p1)
                    | None \<Rightarrow> until_quote quote line (s @ [CHR 0x5C]) p1)))"
  by pat_completeness auto
termination
  by (relation "measure (\<lambda>(q, l, s, p). length (ps_rest p))")
    (auto simp: advance_def dest!: bump_length)

declare until_quote.simps [simp del]

definition end_of_value :: "nat \<Rightarrow> Parser \<Rightarrow> DotenvError + Parser" where
  "end_of_value line p =
     (let p = skip_blanks p in
      case peek p of
        None \<Rightarrow> Inr (skip_line p)
      | Some c \<Rightarrow> if c = CHR 0x0A \<or> c = CHR ''#'' then Inr (skip_line p) else Inl (AfterQuote line c))"

text \<open>\<open> #\<close> starts a comment: the text before the first \<open>#\<close> after a blank.\<close>

fun before_comment :: "bool \<Rightarrow> string \<Rightarrow> string" where
  "before_comment blank [] = []"
| "before_comment blank (c # cs) =
     (if c = CHR ''#'' \<and> blank then [] else c # before_comment (is_space c) cs)"

definition expand_value :: "lookup \<Rightarrow> nat \<Rightarrow> string \<Rightarrow> DotenvError + string" where
  "expand_value lookup line raw =
     (case substitute_into lookup raw [] [] of Inl e \<Rightarrow> Inl (InValue line e) | Inr (v, _) \<Rightarrow> Inr v)"

definition read_value :: "lookup \<Rightarrow> nat \<Rightarrow> Parser \<Rightarrow> DotenvError + string \<times> Parser" where
  "read_value lookup line p =
     (if peek p = Some (CHR 0x27) then
        bind_result (until_quote (CHR 0x27) line [] (bump p)) (\<lambda>(raw, p).
        bind_result (end_of_value line p) (\<lambda>p. Inr (raw, p)))
      else if peek p = Some (CHR 0x22) then
        bind_result (until_quote (CHR 0x22) line [] (bump p)) (\<lambda>(raw, p).
        bind_result (end_of_value line p) (\<lambda>p.
        bind_result (expand_value lookup line raw) (\<lambda>v. Inr (v, p))))
      else
        (let (raw, p) = rest_of_line p in
         bind_result (expand_value lookup line (trim (before_comment False raw))) (\<lambda>v. Inr (v, p))))"

subsection \<open>Every reader moves the cursor forward\<close>

abbreviation left :: "Parser \<Rightarrow> nat" where
  "left p \<equiv> length (ps_rest p)"

lemma left_bump: "left (bump p) \<le> left p"
  by (simp add: bump_def)

lemma left_skip_blanks: "left (skip_blanks p) \<le> left p"
proof (induction p rule: skip_blanks.induct)
  case (1 p)
  then show ?case using left_bump[of p] by (subst skip_blanks.simps) (auto split: option.splits)
qed

lemma left_skip_line: "left (skip_line p) \<le> left p"
proof (induction p rule: skip_line.induct)
  case (1 p)
  then show ?case using left_bump[of p] by (subst skip_line.simps) (auto split: option.splits)
qed

lemma left_skip_line_less: "peek p = Some c \<Longrightarrow> left (skip_line p) < left p"
  using left_skip_line[of "bump p"] bump_length[of p c] by (subst skip_line.simps) auto

lemma left_read_key: "left (snd (read_key p)) \<le> left p"
proof (induction p rule: read_key.induct)
  case (1 p)
  then show ?case using left_bump[of p] by (subst read_key.simps) (auto split: option.splits prod.splits)
qed

lemma left_read_key_less: "fst (read_key p) \<noteq> [] \<Longrightarrow> left (snd (read_key p)) < left p"
  using left_read_key[of "bump p"] bump_length[of p]
  by (subst (asm) read_key.simps, subst read_key.simps) (auto split: option.splits prod.splits if_splits)

lemma left_rest_of_line: "left (snd (rest_of_line p)) \<le> left p"
proof (induction p rule: rest_of_line.induct)
  case (1 p)
  then show ?case using left_bump[of p] by (subst rest_of_line.simps) (auto split: option.splits prod.splits)
qed

lemma left_until_quote: "until_quote quote line s p = Inr (r, q) \<Longrightarrow> left q \<le> left p"
proof (induction "left p" arbitrary: s p rule: less_induct)
  case less
  have rec: "left q \<le> left p" if "until_quote quote line s' p' = Inr (r, q)" "left p' < left p" for s' p'
    using less.hyps[OF that(2,1)] that(2) by simp
  obtain c where c: "peek p = Some c" using less.prems by (subst (asm) until_quote.simps) (auto split: option.splits)
  have b: "left (bump p) < left p" "left (bump (bump p)) < left p" "left (advance n (bump p)) < left p" for n
    using bump_length[OF c] left_bump[of "bump p"] by (auto simp: advance_def)
  note step = less.prems[unfolded until_quote.simps[of quote line s p] c option.case Let_def]
  consider "Inr (s, bump p) = (Inr (r, q) :: DotenvError + string \<times> Parser)"
    | s' p' where "until_quote quote line s' p' = Inr (r, q)" "left p' < left p"
    using step b by (simp split: option.splits if_splits prod.splits)
  then show ?case by cases (use rec b(1) in auto)
qed

lemma left_end_of_value: "end_of_value line p = Inr q \<Longrightarrow> left q \<le> left p"
  using left_skip_blanks[of p] left_skip_line[of "skip_blanks p"]
  by (auto simp: end_of_value_def Let_def split: option.splits if_splits)

lemma left_read_value: "read_value lookup line p = Inr (v, q) \<Longrightarrow> left q \<le> left p"
  using left_bump[of p] left_rest_of_line[of p]
  by (auto simp: read_value_def bind_result_Inr_iff split: if_splits prod.splits
      dest!: left_until_quote left_end_of_value)

subsection \<open>The parser\<close>

type_synonym Entries = "(string \<times> string option) list"

definition read_name :: "Parser \<Rightarrow> string \<times> Parser" where
  "read_name p =
     (let (key, p) = read_key p
      in if key = ''export'' \<and> (peek p = Some (CHR '' '') \<or> peek p = Some (CHR 0x09))
         then read_key (skip_blanks p) else (key, p))"

lemma left_read_name: "fst (read_name p) \<noteq> [] \<Longrightarrow> left (snd (read_name p)) < left p"
proof -
  assume key: "fst (read_name p) \<noteq> []"
  show ?thesis
  proof (cases "fst (read_key p) = ''export'' \<and>
      (peek (snd (read_key p)) = Some (CHR '' '') \<or> peek (snd (read_key p)) = Some (CHR 0x09))")
    case True
    then have "left (snd (read_key p)) < left p" by (intro left_read_key_less) auto
    then show ?thesis
      using True left_skip_blanks[of "snd (read_key p)"] left_read_key[of "skip_blanks (snd (read_key p))"]
      by (auto simp: read_name_def split_beta)
  next
    case False
    then show ?thesis using key left_read_key_less[of p] by (auto simp: read_name_def split_beta)
  qed
qed

lemma left_name: "fst (read_name p) \<noteq> [] \<Longrightarrow> left (skip_blanks (snd (read_name p))) < left p"
  using left_read_name[of p] left_skip_blanks[of "snd (read_name p)"] by linarith

lemma left_name_line: "fst (read_name p) \<noteq> [] \<Longrightarrow> left (skip_line (skip_blanks (snd (read_name p)))) < left p"
  using left_name[of p] left_skip_line[of "skip_blanks (snd (read_name p))"] by linarith

function dotenv_loop :: "lookup \<Rightarrow> (string \<rightharpoonup> string) \<Rightarrow> Entries \<Rightarrow> Parser \<Rightarrow> DotenvError + Entries" where
  "dotenv_loop lookup defined entries p =
     (case peek p of
        None \<Rightarrow> Inr entries
      | Some c \<Rightarrow>
          if c = CHR 0x0A \<or> is_space c then dotenv_loop lookup defined entries (bump p)
          else if c = CHR ''#'' then dotenv_loop lookup defined entries (skip_line p)
          else
            let line = ps_line p; key = fst (read_name p); p1 = skip_blanks (snd (read_name p)) in
            if key = [] \<or> is_digit (hd key) then Inl (BadName line)
            else
              (case peek p1 of
                 None \<Rightarrow> dotenv_loop lookup (defined(key := lookup key)) (entries @ [(key, None)]) (skip_line p1)
               | Some d \<Rightarrow>
                   if d = CHR 0x0A \<or> d = CHR ''#'' then
                     dotenv_loop lookup (defined(key := lookup key)) (entries @ [(key, None)]) (skip_line p1)
                   else if d = CHR ''='' \<or> d = CHR '':'' then
                     bind_result
                       (read_value (\<lambda>name. case lookup name of Some v \<Rightarrow> Some v | None \<Rightarrow> defined name) line
                         (skip_blanks (bump p1)))
                       (\<lambda>(v, p2). dotenv_loop lookup (defined(key \<mapsto> v)) (entries @ [(key, Some v)]) p2)
                   else Inl (UnexpectedAfterName line d key)))"
  by pat_completeness auto
termination
proof (relation "measure (\<lambda>(l, d, e, p). left p)")
  fix lookup :: lookup and defined and entries :: Entries and p :: Parser
  fix c line key p1 d x v p2
  assume k: "key = fst (read_name p)" "p1 = skip_blanks (snd (read_name p))" "\<not> (key = [] \<or> is_digit (hd key))"
    and v: "read_value (\<lambda>name. case lookup name of Some v \<Rightarrow> Some v | None \<Rightarrow> defined name) line (skip_blanks (bump p1)) = Inr x"
      "(v, p2) = x"
  have "left p2 \<le> left (skip_blanks (bump p1))" using v by (auto intro: left_read_value)
  then show "((lookup, defined(key \<mapsto> v), entries @ [(key, Some v)], p2), lookup, defined, entries, p)
      \<in> measure (\<lambda>(l, d, e, p). left p)"
    using k left_name[of p] left_skip_blanks[of "bump p1"] left_bump[of p1] by auto
qed (auto dest: bump_length left_skip_line_less intro: left_name_line)

declare dotenv_loop.simps [simp del]

definition parse_dotenv_with_base :: "string \<Rightarrow> lookup \<Rightarrow> (string \<rightharpoonup> string) \<Rightarrow> DotenvError + Entries" where
  "parse_dotenv_with_base txt lookup base =
     (let txt = (case strip_prefix [CHR 0xEF, CHR 0xBB, CHR 0xBF] txt of Some t \<Rightarrow> t | None \<Rightarrow> txt)
      in dotenv_loop lookup base [] \<lparr>ps_rest = txt, ps_line = 1\<rparr>)"

definition parse_dotenv :: "string \<Rightarrow> lookup \<Rightarrow> DotenvError + Entries" where
  "parse_dotenv txt lookup = parse_dotenv_with_base txt lookup Map.empty"

end
