(* ===== verification/InterpolateCorrect.thy ===== *)
theory InterpolateCorrect
  imports Interpolate
begin

text \<open>
  Correctness of the substitution: the table of operators, the escape, what a document keeps, and
  the round trip of \<open>.env\<close> files.
\<close>

section \<open>Substitution\<close>

lemma substitute_loop_plain [simp]:
  assumes "c \<noteq> CHR ''$''"
  shows "substitute_loop lookup txt (c # rest) out unset = substitute_loop lookup txt rest (out @ [c]) unset"
  by (subst (1 2) substitute_loop.simps) (use assms in \<open>simp add: Let_def split: option.splits prod.splits\<close>)

lemma substitute_loop_Nil [simp]: "substitute_loop lookup txt [] out unset = Inr (out, unset)"
  by (subst substitute_loop.simps) simp

lemma substitute_loop_dollars [simp]:
  "substitute_loop lookup txt (CHR ''$'' # CHR ''$'' # rest) out unset = substitute_loop lookup txt rest (out @ ''$'') unset"
  by (subst substitute_loop.simps) simp

fun escape_dollars :: "string \<Rightarrow> string" where
  "escape_dollars [] = []"
| "escape_dollars (c # cs) = (if c = CHR ''$'' then ''$$'' else [c]) @ escape_dollars cs"

lemma substitute_loop_escaped: "substitute_loop lookup txt (escape_dollars s) out unset = Inr (out @ s, unset)"
  by (induction s arbitrary: out) auto

lemma substitute_loop_literal: "CHR ''$'' \<notin> set s \<Longrightarrow> substitute_loop lookup txt (s @ rest) out unset =
    substitute_loop lookup txt rest (out @ s) unset"
  by (induction s arbitrary: out) auto

text \<open>Names and words of an expression.\<close>

definition valid_name :: "string \<Rightarrow> bool" where
  "valid_name n \<longleftrightarrow> n \<noteq> [] \<and> \<not> is_digit (hd n) \<and> list_all (\<lambda>c. c = CHR ''_'' \<or> is_alnum c) n"

definition plain_word :: "string \<Rightarrow> bool" where
  "plain_word w \<longleftrightarrow> set w \<inter> {CHR ''$'', CHR ''{'', CHR ''}''} = {}"

lemma digit_not_alpha: "is_digit c \<Longrightarrow> \<not> is_alpha c"
  by (auto simp: is_digit_def is_alpha_def Let_def)

lemma takeWhile_enumerate_all:
  "(\<And>i c. (i, c) \<in> set (enumerate k n) \<Longrightarrow> P (i, c)) \<Longrightarrow> \<not> P (k + length n, c) \<Longrightarrow>
   takeWhile P (enumerate k (n @ c # r)) = enumerate k n"
  by (induction n arbitrary: k) (auto simp: enumerate_simps)

abbreviation name_char_at :: "nat \<times> char \<Rightarrow> bool" where
  "name_char_at \<equiv> (\<lambda>(i, b). b = CHR ''_'' \<or> is_alpha b \<or> i > 0 \<and> is_digit b)"

lemma valid_name_chars:
  assumes "valid_name n" and "(i, b) \<in> set (enumerate 0 n)"
  shows "name_char_at (i, b)"
proof -
  have ib: "i < length n" "b = n ! i" using assms(2) by (auto simp: in_set_enumerate_eq)
  then have "b = CHR ''_'' \<or> is_alnum b" using assms(1) by (simp add: valid_name_def list_all_length)
  moreover have "i = 0 \<Longrightarrow> \<not> is_digit b" using assms(1) ib by (auto simp: valid_name_def hd_conv_nth)
  ultimately show ?thesis by (auto simp: is_alnum_def)
qed

lemma name_length_name:
  assumes "valid_name n" and "\<not> (is_alnum c \<or> c = CHR ''_'')"
  shows "name_length (n @ c # r) = length n"
proof -
  have "takeWhile name_char_at (enumerate 0 (n @ c # r)) = enumerate 0 n"
    by (rule takeWhile_enumerate_all) (use valid_name_chars[OF assms(1)] assms(2) in \<open>auto simp: is_alnum_def\<close>)
  then show ?thesis by (simp add: name_length_def)
qed

lemma name_length_whole: "valid_name n \<Longrightarrow> name_length n = length n"
proof -
  assume "valid_name n"
  then have "takeWhile name_char_at (enumerate 0 n) = enumerate 0 n"
    by (subst takeWhile_eq_all_conv) (use valid_name_chars in blast)
  then show ?thesis unfolding name_length_def by (simp only: length_enumerate)
qed

lemma closing_brace_loop_plain:
  "set s \<inter> {CHR ''$'', CHR ''{'', CHR ''}''} = {} \<Longrightarrow>
   closing_brace_loop 1 None i (s @ CHR ''}'' # rest) = Some (i + length s)"
  by (induction s arbitrary: i) auto

lemma valid_name_plain: "valid_name n \<Longrightarrow> set n \<inter> {CHR ''$'', CHR ''{'', CHR ''}''} = {}"
proof -
  have "\<not> is_alnum (CHR ''$'')" "\<not> is_alnum (CHR ''{'')" "\<not> is_alnum (CHR ''}'')"
    by (simp_all add: is_alnum_def is_alpha_def is_digit_def)
  then show "valid_name n \<Longrightarrow> ?thesis" by (auto simp: valid_name_def list_all_iff)
qed

lemma closing_brace_expr:
  assumes "valid_name n" and "plain_word (op @ w)"
  shows "closing_brace (n @ op @ w @ CHR ''}'' # rest) = Some (length (n @ op @ w))"
proof -
  have "set (n @ op @ w) \<inter> {CHR ''$'', CHR ''{'', CHR ''}''} = {}"
    using valid_name_plain[OF assms(1)] assms(2) by (auto simp: plain_word_def)
  then show ?thesis using closing_brace_loop_plain[of "n @ op @ w" 0 rest] by (simp add: closing_brace_def)
qed

lemma substitute_loop_braced:
  assumes "valid_name n" and "plain_word (op @ w)"
  shows "substitute_loop lookup txt (CHR ''$'' # CHR ''{'' # n @ op @ w @ CHR ''}'' # rest) out unset =
    bind_result (braced lookup (n @ op @ w) txt out unset) (\<lambda>(out, unset). substitute_loop lookup txt rest out unset)"
  by (subst substitute_loop.simps) (simp add: closing_brace_expr[OF assms])

lemma substitute_loop_word: "plain_word w \<Longrightarrow> substitute_loop lookup txt w out unset = Inr (out @ w, unset)"
  using substitute_loop_literal[where s = w and rest = "[]"] by (simp add: plain_word_def)

lemma operator_tail:
  "find_operator ('':-'' @ w) = Some ('':-'', w)" "find_operator ('':?'' @ w) = Some ('':?'', w)"
  "find_operator ('':+'' @ w) = Some ('':+'', w)" "find_operator (''-'' @ w) = Some (''-'', w)"
  "find_operator (''?'' @ w) = Some (''?'', w)" "find_operator (''+'' @ w) = Some (''+'', w)"
  by (simp_all add: find_operator_def)

lemma braced_name: "valid_name n \<Longrightarrow> braced lookup n txt out unset =
    (case lookup n of Some v \<Rightarrow> Inr (out @ v, unset) | None \<Rightarrow> Inr (out, note_unset unset n))"
  by (subst braced.simps) (auto simp: name_length_whole valid_name_def Let_def)

lemma braced_operator:
  assumes "valid_name n" and "plain_word w" and "op \<in> {'':-'', '':?'', '':+'', ''-'', ''?'', ''+''}"
  shows "braced lookup (n @ op @ w) txt out unset =
    (let present = (if hd op = CHR '':'' then lookup n \<noteq> None \<and> lookup n \<noteq> Some [] else lookup n \<noteq> None)
     in if last op = CHR ''-'' then Inr (out @ (if present then the (lookup n) else w), unset)
        else if last op = CHR ''?'' then (if present then Inr (out @ the (lookup n), unset) else Inl (Required n w))
        else Inr (out @ (if present then w else []), unset))"
proof -
  have "name_length (n @ op @ w) = length n"
    using name_length_name[OF assms(1)] assms(3) by (auto simp: is_alnum_def is_alpha_def is_digit_def)
  moreover have "n \<noteq> []" "op \<noteq> []" using assms(1,3) by (auto simp: valid_name_def)
  moreover have "find_operator (op @ w) = Some (op, w)" using assms(3) operator_tail by auto
  ultimately show ?thesis
    using assms(3) substitute_loop_word[OF assms(2)]
    by (subst braced.simps) (auto simp: Let_def split: option.splits)
qed

section \<open>Properties\<close>

text \<open>a text with every dollar sign doubled is substituted to the text itself, whatever the
  variables are, and no variable is reported.\<close>

theorem substitute_escaped: "substitute (escape_dollars s) lookup = Inr \<lparr>sub_value = s, sub_unset = []\<rparr>"
  by (simp add: substitute_def substitute_into_def substitute_loop_escaped)

text \<open>C14: the table of the module's documentation: for a variable's name and a word without braces
  and dollar signs, \<open>${NAME}\<close> is the value (reported if unset), the minus forms give the word as a
  default, the question mark forms fail with it, the plus forms give it for a set variable; with
  a colon an empty value counts as unset.\<close>

theorem substitute_operators:
  fixes lookup :: lookup
  assumes "valid_name n" and "plain_word w" and "op \<in> {'':-'', '':?'', '':+'', ''-'', ''?'', ''+''}"
  defines "present \<equiv> if hd op = CHR '':'' then lookup n \<noteq> None \<and> lookup n \<noteq> Some [] else lookup n \<noteq> None"
  shows "substitute (''${'' @ n @ ''}'') lookup =
      Inr (case lookup n of Some v \<Rightarrow> \<lparr>sub_value = v, sub_unset = []\<rparr> | None \<Rightarrow> \<lparr>sub_value = [], sub_unset = [n]\<rparr>) \<and>
    substitute (''${'' @ n @ op @ w @ ''}'') lookup =
      (if last op = CHR ''-'' then Inr \<lparr>sub_value = if present then the (lookup n) else w, sub_unset = []\<rparr>
       else if last op = CHR ''?'' then
         (if present then Inr \<lparr>sub_value = the (lookup n), sub_unset = []\<rparr> else Inl (Required n w))
       else Inr \<lparr>sub_value = if present then w else [], sub_unset = []\<rparr>)"
proof -
  have "plain_word (op @ w)" using assms(2,3) by (auto simp: plain_word_def)
  then show ?thesis
    using substitute_loop_braced[OF assms(1), of op w lookup "''${'' @ n @ op @ w @ ''}''" "[]"]
      substitute_loop_braced[OF assms(1), of "[]" "[]" lookup "''${'' @ n @ ''}''" "[]"]
      braced_operator[OF assms(1-3)] braced_name[OF assms(1)]
    by (simp add: substitute_def substitute_into_def present_def plain_word_def note_unset_def Let_def split: option.split)
qed

theorem substitute_operators_witness:
  "substitute ''${PORT:-8080}'' (\<lambda>n. if n = ''PORT'' then Some '''' else None) = Inr \<lparr>sub_value = ''8080'', sub_unset = []\<rparr>"
  using substitute_operators[of "''PORT''" "''8080''" "'':-''" "\<lambda>n. if n = ''PORT'' then Some '''' else None"]
  by (simp add: valid_name_def plain_word_def is_alnum_def is_alpha_def is_digit_def)

section \<open>Reported variables\<close>

text \<open>What every step keeps of the list of unset variables.\<close>

definition reports :: "lookup \<Rightarrow> string list \<Rightarrow> string list \<Rightarrow> bool" where
  "reports lookup unset unset' \<longleftrightarrow>
     (distinct unset \<longrightarrow> distinct unset') \<and> set unset \<subseteq> set unset' \<and>
     (\<forall>n \<in> set unset' - set unset. lookup n = None)"

lemma reports_refl [simp]: "reports lookup unset unset"
  by (simp add: reports_def)

lemma reports_trans: "reports lookup a b \<Longrightarrow> reports lookup b c \<Longrightarrow> reports lookup a c"
  unfolding reports_def by blast

lemma reports_note: "lookup n = None \<Longrightarrow> reports lookup unset (note_unset unset n)"
  by (auto simp: reports_def note_unset_def)

lemma substitute_reports_upto:
  "(\<forall>whole rest out unset r unset'. 2 * length rest < n \<longrightarrow>
      substitute_loop lookup whole rest out unset = Inr (r, unset') \<longrightarrow> reports lookup unset unset') \<and>
   (\<forall>expr whole out unset r unset'. 2 * length expr + 1 < n \<longrightarrow>
      braced lookup expr whole out unset = Inr (r, unset') \<longrightarrow> reports lookup unset unset')"
proof (induction n)
  case (Suc n)
  have loop: "reports lookup unset unset'" if "2 * length rest < n" "substitute_loop lookup whole rest out unset = Inr (r, unset')"
    for whole rest out unset r unset'
    using Suc that by blast
  have brace: "reports lookup unset unset'" if "2 * length expr + 1 < n" "braced lookup expr whole out unset = Inr (r, unset')"
    for whole expr out unset r unset'
    using Suc that by blast
  have "reports lookup unset unset'"
    if n: "2 * length rest < Suc n" and eq: "substitute_loop lookup whole rest out unset = Inr (r, unset')"
    for whole rest out unset r unset'
  proof (cases "split_once (CHR ''$'') rest")
    case None
    then show ?thesis using eq by (subst (asm) substitute_loop.simps) simp
  next
    case (Some ba)
    then obtain before after where s: "split_once (CHR ''$'') rest = Some (before, after)" by (cases ba) auto
    then have len: "length after < length rest" by (rule split_once_length)
    note eq' = eq[unfolded substitute_loop.simps[of lookup whole rest] s option.case prod.case Let_def]
    let ?name = "take (name_length after) after"
    show ?thesis
    proof (cases "after \<noteq> [] \<and> (hd after = CHR ''$'' \<or> hd after = CHR ''{'')")
      case True
      then consider "hd after = CHR ''$''" | "hd after = CHR ''{''" by blast
      then show ?thesis
      proof cases
        case 1
        then show ?thesis using eq' True loop[of "tl after"] len n by simp
      next
        case 2
        then obtain close out1 unset1 where
            c: "braced lookup (take close (tl after)) whole (out @ before) unset = Inr (out1, unset1)"
              "substitute_loop lookup whole (drop (close + 1) (tl after)) out1 unset1 = Inr (r, unset')"
          using eq' True by (auto simp: bind_result_Inr_iff split: option.splits)
        have "length (tl after) < length after" using True by auto
        then show ?thesis
          using reports_trans[OF brace[OF _ c(1)] loop[OF _ c(2)]] len n by (simp add: min_def)
      qed
    next
      case False
      have rest: "2 * length (drop (name_length after) after) < n" using len n by simp
      show ?thesis
      proof (cases "name_length after > 0 \<and> lookup ?name = None")
        case True
        then have "substitute_loop lookup whole (drop (name_length after) after) (out @ before) (note_unset unset ?name) = Inr (r, unset')"
          using eq' False by auto
        then show ?thesis using reports_trans[OF reports_note loop[OF rest]] True by blast
      next
        case nm: False
        then obtain out1 where "substitute_loop lookup whole (drop (name_length after) after) out1 unset = Inr (r, unset')"
          using eq' False by (auto split: option.splits if_splits)
        then show ?thesis using loop[OF rest] by blast
      qed
    qed
  qed
  moreover have "reports lookup unset unset'"
    if n: "2 * length expr + 1 < Suc n" and eq: "braced lookup expr whole out unset = Inr (r, unset')"
    for whole expr out unset r unset'
  proof -
    note eq' = eq[unfolded braced.simps[of lookup expr whole out unset] Let_def]
    consider "unset' = unset" | "lookup (take (name_length expr) expr) = None" "unset' = note_unset unset (take (name_length expr) expr)"
      | op w out1 where "find_operator (drop (name_length expr) expr) = Some (op, w)" "substitute_loop lookup w w out1 unset = Inr (r, unset')"
      using eq' by (auto simp: bind_result_Inr_iff split: option.splits if_splits prod.splits)
    then show ?thesis
    proof cases
      case 3
      have "2 * length w < n" using find_operator_length[OF 3(1)] n by simp
      then show ?thesis using loop 3(2) by blast
    qed (auto intro: reports_note)
  qed
  ultimately show ?case by blast
qed simp

lemma substitute_reports: "substitute_loop lookup whole rest out unset = Inr (r, unset') \<Longrightarrow> reports lookup unset unset'"
  using substitute_reports_upto[of "2 * length rest + 1" lookup] by (metis lessI Suc_eq_plus1)

fun shape :: "yaml \<Rightarrow> yaml" where
  "shape (YString s) = YString (if CHR ''$'' \<in> set s then ''$'' else s)"
| "shape (YSequence items) = YSequence (map shape items)"
| "shape (YMapping entries) = YMapping (map (\<lambda>(k, v). (k, shape v)) entries)"
| "shape (YTagged tag v) = YTagged tag (shape v)"
| "shape v = v"

text \<open>How a document may change: strings that hold a dollar sign are other strings, everything else,
  the keys included, stays.\<close>

fun same_but_values :: "yaml \<Rightarrow> yaml \<Rightarrow> bool" where
  "same_but_values (YString s) v = (if CHR ''$'' \<in> set s then (\<exists>t. v = YString t) else v = YString s)"
| "same_but_values (YSequence items) v = (\<exists>items'. v = YSequence items' \<and> list_all2 same_but_values items items')"
| "same_but_values (YMapping entries) v =
     (\<exists>entries'. v = YMapping entries' \<and> list_all2 (\<lambda>e e'. fst e = fst e' \<and> same_but_values (snd e) (snd e')) entries entries')"
| "same_but_values (YTagged tag u) v = (\<exists>u'. v = YTagged tag u' \<and> same_but_values u u')"
| "same_but_values u v = (u = v)"

lemma walk_reports:
  "walk debug lookup path v unset = Inr (v', unset') \<Longrightarrow> same_but_values v v' \<and> reports lookup unset unset'"
  "walk_items debug lookup path i items unset = Inr (items', unset') \<Longrightarrow>
     list_all2 same_but_values items items' \<and> reports lookup unset unset'"
  "walk_entries debug lookup path entries unset = Inr (entries', unset') \<Longrightarrow>
     list_all2 (\<lambda>e e'. fst e = fst e' \<and> same_but_values (snd e) (snd e')) entries entries' \<and> reports lookup unset unset'"
proof (induction debug lookup path v unset and debug lookup path i items unset and debug lookup path entries unset
    arbitrary: v' unset' and items' unset' and entries' unset' rule: walk_walk_items_walk_entries.induct)
  case (1 debug lookup path s unset)
  then show ?case by (auto simp: substitute_into_def split: if_splits sum.splits dest: substitute_reports)
qed (auto simp: bind_result_Inr_iff intro: reports_trans)

text \<open>Substituting the variables of a document changes only strings that hold a dollar sign: keys,
  order, tags and other scalars stay. The reported names stay distinct, none is lost, and every
  name added is a variable that really has no value.\<close>

theorem interpolate_keeps_document:
  assumes "interpolate debug v lookup unset = Inr (v', unset')" and "distinct unset"
  shows "same_but_values v v' \<and> distinct unset' \<and> set unset \<subseteq> set unset' \<and>
    (\<forall>n. n \<in> set unset' \<longrightarrow> n \<notin> set unset \<longrightarrow> lookup n = None)"
  using walk_reports(1)[OF assms(1)[unfolded interpolate_def]] assms(2) by (auto simp: reports_def)

definition sample_document :: yaml where
  "sample_document = YMapping [(YString ''image'', YString ''db:$$1''), (YString ''replicas'', YNumber ''2'')]"

lemma sample_interpolates:
  "interpolate (\<lambda>_. []) sample_document (\<lambda>_. None) [] =
     Inr (YMapping [(YString ''image'', YString ''db:$1''), (YString ''replicas'', YNumber ''2'')], [])"
proof -
  have "substitute_into (\<lambda>_. None) ''db:$$1'' [] [] = Inr (''db:$1'', [])"
    using substitute_loop_escaped[of "\<lambda>_. None" _ "''db:$1''" "[]" "[]"] by (simp add: substitute_into_def)
  then show ?thesis by (simp add: interpolate_def sample_document_def)
qed

theorem interpolate_keeps_document_witness:
  "same_but_values sample_document (YMapping [(YString ''image'', YString ''db:$1''), (YString ''replicas'', YNumber ''2'')])"
  using interpolate_keeps_document[OF sample_interpolates] by simp

section \<open>Writing and reading \<open>.env\<close> files\<close>

text \<open>A writer: every value in double quotes, with a backslash before quotes, backslashes and dollar
  signs.\<close>

definition quote_char :: "char \<Rightarrow> string" where
  "quote_char c = (if c \<in> {CHR 0x22, CHR 0x5C, CHR ''$''} then [CHR 0x5C, c] else [c])"

definition env_line :: "string \<times> string \<Rightarrow> string" where
  "env_line kv = fst kv @ ''='' @ [CHR 0x22] @ concat (map quote_char (snd kv)) @ [CHR 0x22, CHR 0x0A]"

definition valid_key :: "string \<Rightarrow> bool" where
  "valid_key k \<longleftrightarrow> k \<noteq> [] \<and> \<not> is_digit (hd k) \<and> list_all is_key_char k"

abbreviation cursor :: "string \<Rightarrow> nat \<Rightarrow> Parser" where
  "cursor s l \<equiv> \<lparr>ps_rest = s, ps_line = l\<rparr>"

lemma peek_cursor [simp]: "peek (cursor [] l) = None" "peek (cursor (c # s) l) = Some c"
  by (simp_all add: peek_def)

lemma bump_cursor [simp]: "bump (cursor (c # s) l) = cursor s (if c = CHR 0x0A then l + 1 else l)"
  by (simp add: bump_def)

lemma not_key_chars [simp]:
  "\<not> is_key_char (CHR ''='')" "\<not> is_key_char (CHR 0x0A)" "\<not> is_key_char (CHR ''#'')"
  by (simp_all add: is_key_char_def is_alnum_def is_alpha_def is_digit_def)

lemma key_char_no_space: "is_key_char c \<Longrightarrow> \<not> is_space c"
  by (auto simp: is_key_char_def is_alnum_def is_alpha_def is_digit_def is_space_def Let_def)

lemma read_key_cursor:
  "list_all is_key_char k \<Longrightarrow> \<not> is_key_char c \<Longrightarrow> read_key (cursor (k @ c # s) l) = (k, cursor (c # s) l)"
proof (induction k)
  case Nil
  then show ?case by (subst read_key.simps) simp
next
  case (Cons d k)
  then show ?case by (subst read_key.simps) (auto simp: not_key_chars)
qed

lemma skip_blanks_cursor: "\<not> is_blank c \<Longrightarrow> skip_blanks (cursor (c # s) l) = cursor (c # s) l"
  by (subst skip_blanks.simps) simp

lemma until_quote_quoted:
  "\<exists>l'. until_quote (CHR 0x22) line s (cursor (concat (map quote_char v) @ CHR 0x22 # rest) l) =
     Inr (s @ escape_dollars v, cursor rest l')"
proof (induction v arbitrary: s l)
  case Nil
  show ?case by (subst until_quote.simps) simp
next
  case (Cons c v)
  consider "c = CHR 0x22" | "c = CHR 0x5C" | "c = CHR ''$''" | "c \<notin> {CHR 0x22, CHR 0x5C, CHR ''$''}" by blast
  then show ?case
  proof cases
    case 1
    then have "quote_char c = [CHR 0x5C, CHR 0x22]" by (simp add: quote_char_def)
    then show ?thesis using 1 Cons[of "s @ [c]"] by (subst until_quote.simps) simp
  next
    case 2
    then have "quote_char c = [CHR 0x5C, CHR 0x5C]" by (simp add: quote_char_def)
    then show ?thesis
      using 2 Cons[of "s @ [c]"]
      by (subst until_quote.simps) (simp add: parse_escape_def simple_escape_def advance_def)
  next
    case 3
    then have "quote_char c = [CHR 0x5C, CHR ''$'']" by (simp add: quote_char_def)
    then show ?thesis
      using 3 Cons[of "s @ ''$$''"] by (subst until_quote.simps) (simp add: parse_escape_def advance_def)
  next
    case 4
    then have "quote_char c = [c]" by (simp add: quote_char_def)
    then show ?thesis using 4 Cons[of "s @ [c]"] by (subst until_quote.simps) simp
  qed
qed

lemma end_of_value_line: "end_of_value line (cursor (CHR 0x0A # s) l) = Inr (cursor s (l + 1))"
  by (simp add: end_of_value_def skip_blanks_cursor is_blank_def skip_line.simps[of "cursor (CHR 0x0A # s) l"])

lemma read_value_quoted:
  "\<exists>l'. read_value lookup line (cursor (CHR 0x22 # concat (map quote_char v) @ CHR 0x22 # CHR 0x0A # rest) l) =
     Inr (v, cursor rest l')"
proof -
  obtain l' where "until_quote (CHR 0x22) line [] (cursor (concat (map quote_char v) @ CHR 0x22 # CHR 0x0A # rest) l) =
      Inr (escape_dollars v, cursor (CHR 0x0A # rest) l')"
    using until_quote_quoted[of line "[]" v "CHR 0x0A # rest" l] by auto
  then show ?thesis
    by (simp add: read_value_def end_of_value_line expand_value_def substitute_into_def substitute_loop_escaped)
qed

lemma dotenv_line:
  assumes "valid_key k"
  shows "\<exists>l'. dotenv_loop lookup defined entries (cursor (env_line (k, v) @ rest) l) =
    dotenv_loop lookup (defined(k \<mapsto> v)) (entries @ [(k, Some v)]) (cursor rest l')"
proof -
  have k: "k \<noteq> []" "\<not> is_digit (hd k)" "list_all is_key_char k" using assms by (auto simp: valid_key_def)
  then obtain c cs where c: "k = c # cs" "is_key_char c" by (cases k) auto
  let ?rest = "CHR 0x22 # concat (map quote_char v) @ CHR 0x22 # CHR 0x0A # rest"
  have line: "env_line (k, v) @ rest = k @ CHR ''='' # ?rest" by (simp add: env_line_def)
  have "read_name (cursor (k @ CHR ''='' # ?rest) l) = (k, cursor (CHR ''='' # ?rest) l)"
    using read_key_cursor[OF k(3), of "CHR ''=''"] by (simp add: read_name_def)
  moreover obtain l' where
      "read_value (\<lambda>name. case lookup name of Some v \<Rightarrow> Some v | None \<Rightarrow> defined name) l (cursor ?rest l) = Inr (v, cursor rest l')"
    using read_value_quoted by blast
  moreover have "c \<noteq> CHR 0x0A" "\<not> is_space c" "c \<noteq> CHR ''#''" using c(2) key_char_no_space not_key_chars by auto
  ultimately show ?thesis
    using k c(1) unfolding line
    by (subst dotenv_loop.simps) (auto simp: Let_def skip_blanks_cursor is_blank_def)
qed

lemma dotenv_lines:
  "\<forall>kv\<in>set kvs. valid_key (fst kv) \<Longrightarrow>
   dotenv_loop lookup defined entries (cursor (concat (map env_line kvs)) l) =
     Inr (entries @ map (\<lambda>(k, v). (k, Some v)) kvs)"
proof (induction kvs arbitrary: defined entries l)
  case Nil
  show ?case by (subst dotenv_loop.simps) simp
next
  case (Cons kv kvs)
  obtain k v where kv: "kv = (k, v)" by (cases kv)
  obtain l' where "dotenv_loop lookup defined entries (cursor (env_line (k, v) @ concat (map env_line kvs)) l) =
      dotenv_loop lookup (defined(k \<mapsto> v)) (entries @ [(k, Some v)]) (cursor (concat (map env_line kvs)) l')"
    using dotenv_line[of k lookup defined entries v "concat (map env_line kvs)" l] Cons.prems kv by auto
  then show ?case using Cons.IH Cons.prems by (simp add: kv)
qed

lemma no_byte_order_mark:
  "\<forall>kv\<in>set kvs. valid_key (fst kv) \<Longrightarrow> strip_prefix [CHR 0xEF, CHR 0xBB, CHR 0xBF] (concat (map env_line kvs)) = None"
proof (cases kvs)
  case (Cons kv rest)
  assume "\<forall>kv\<in>set kvs. valid_key (fst kv)"
  then obtain c cs where "fst kv = c # cs" "is_key_char c"
    using Cons by (cases "fst kv") (auto simp: valid_key_def)
  moreover have "\<not> is_key_char (CHR 0xEF)"
    by (simp add: is_key_char_def is_alnum_def is_alpha_def is_digit_def)
  ultimately show ?thesis using Cons by (auto simp: env_line_def)
qed simp

text \<open>C13: writing a list of variables with valid names as an \<open>.env\<close> file, each value in double quotes
  with quotes, backslashes and dollar signs escaped, and parsing it gives the list back: any bytes
  may be in a value, newlines included, and no variable of the environment changes it.\<close>

theorem dotenv_roundtrip:
  assumes "\<forall>kv\<in>set kvs. valid_key (fst kv)"
  shows "parse_dotenv (concat (map env_line kvs)) lookup = Inr (map (\<lambda>(k, v). (k, Some v)) kvs)"
  by (simp add: parse_dotenv_def parse_dotenv_with_base_def no_byte_order_mark[OF assms] dotenv_lines[OF assms] del: strip_prefix.simps)

theorem dotenv_roundtrip_witness:
  "parse_dotenv (concat (map env_line [(''A'', ''x$y''), (''B'', [])])) (\<lambda>_. None) = Inr [(''A'', Some ''x$y''), (''B'', Some [])]"
  using dotenv_roundtrip[of "[(''A'', ''x$y''), (''B'', [])]" "\<lambda>_. None"]
  by (simp add: valid_key_def is_key_char_def is_alnum_def is_alpha_def is_digit_def del: map_eq_conv)

end
