(* ===== verification/Logs.thy ===== *)
theory Logs
  imports Prelude
begin

text \<open>
  Output on its way to a reader: the shim's line splitter and rotating log
  (\<^verbatim>\<open>rustlet-shim/src/logfile.rs\<close>) and the client's line buffer and item stream
  (\<^verbatim>\<open>rustlet-client/src/ndjson.rs\<close>). Bytes are \<open>u8\<close>.
\<close>

abbreviation newline :: u8 where
  "newline \<equiv> 10"

section \<open>The line splitter\<close>

definition LOG_MAX_LINE :: nat where
  "LOG_MAX_LINE = 16 * 1024"

record LineSplitter =
  ls_partial :: "u8 list"

definition LineSplitter_default :: LineSplitter where
  "LineSplitter_default = \<lparr>ls_partial = []\<rparr>"

text \<open>The loop of \<open>push\<close>, with the pieces it emits. The partial line is always shorter than
  \<open>LOG_MAX_LINE\<close> (\<open>splitter_ok\<close>), so the subtraction does not overflow; the guard stands for the
  states outside.\<close>

function push_loop :: "u8 list \<Rightarrow> u8 list \<Rightarrow> u8 list list \<times> u8 list" where
  "push_loop partial bytes =
     (if bytes = [] \<or> length partial > LOG_MAX_LINE then ([], partial)
      else
        let room = LOG_MAX_LINE - length partial;
            window = take (min (length bytes) room) bytes
        in case position (\<lambda>b. b = newline) window of
             Some i \<Rightarrow>
               (let (emitted, partial') = push_loop [] (drop (i + 1) bytes)
                in ((partial @ take (i + 1) window) # emitted, partial'))
           | None \<Rightarrow>
               let partial = partial @ window; bytes = drop (length window) bytes
               in if length partial = LOG_MAX_LINE
                  then (let (emitted, partial') = push_loop [] bytes in (partial # emitted, partial'))
                  else push_loop partial bytes)"
  by pat_completeness auto
termination
  by (relation "measures [\<lambda>(p, d). length d, \<lambda>(p, d). length p]")
    (auto simp: LOG_MAX_LINE_def dest!: position_Some)

declare push_loop.simps [simp del]

definition LineSplitter_push :: "LineSplitter \<Rightarrow> u8 list \<Rightarrow> u8 list list \<times> LineSplitter" where
  "LineSplitter_push s bytes =
     (let (emitted, partial) = push_loop (ls_partial s) bytes in (emitted, \<lparr>ls_partial = partial\<rparr>))"

definition LineSplitter_flush :: "LineSplitter \<Rightarrow> u8 list list \<times> LineSplitter" where
  "LineSplitter_flush s =
     (if ls_partial s \<noteq> [] then ([ls_partial s], \<lparr>ls_partial = []\<rparr>) else ([], s))"

section \<open>The rotating log\<close>

text \<open>The files by number: \<open>0\<close> is \<open>container.log\<close>, \<open>n\<close> is \<open>container.log.n\<close> (\<open>numbered\<close>). The system
  calls succeed, but for a rename of a file that does not exist. The entry is the line
  \<open>serde_json\<close> makes of it, with its newline.\<close>

type_synonym log_files = "nat \<rightharpoonup> u8 list"

record LogWriter =
  lw_size :: nat
  lw_max_size :: nat
  lw_max_files :: nat

definition open_append :: "log_files \<Rightarrow> log_files" where
  "open_append fs = (if fs 0 = None then fs(0 \<mapsto> []) else fs)"

definition LogWriter_open :: "log_files \<Rightarrow> nat \<Rightarrow> nat \<Rightarrow> log_files \<times> LogWriter" where
  "LogWriter_open fs max_size max_files =
     (let fs = open_append fs
      in (fs, \<lparr>lw_size = length (the (fs 0)), lw_max_size = max max_size 1, lw_max_files = max max_files 1\<rparr>))"

text \<open>\<open>None\<close> is \<open>NotFound\<close>.\<close>

definition log_rename :: "nat \<Rightarrow> nat \<Rightarrow> log_files \<Rightarrow> log_files option" where
  "log_rename a b fs = (case fs a of None \<Rightarrow> None | Some c \<Rightarrow> Some (fs(a := None, b \<mapsto> c)))"

text \<open>The loop \<open>for n in (1..keep).rev()\<close>: \<open>n\<close> is the next number.\<close>

fun shift_files :: "nat \<Rightarrow> log_files \<Rightarrow> log_files" where
  "shift_files 0 fs = fs"
| "shift_files (Suc n) fs =
     shift_files n (case log_rename (Suc n) (Suc n + 1) fs of None \<Rightarrow> fs | Some fs' \<Rightarrow> fs')"

definition rotate_log :: "log_files \<times> LogWriter \<Rightarrow> (log_files \<times> LogWriter) option" where
  "rotate_log fw =
     (let (fs, w) = fw; keep = lw_max_files w - 1
      in if keep = 0 then Some (fs(0 \<mapsto> []), w\<lparr>lw_size := 0\<rparr>)
         else case log_rename 0 1 (shift_files (keep - 1) fs) of
                None \<Rightarrow> None
              | Some fs \<Rightarrow> Some (open_append fs, w\<lparr>lw_size := 0\<rparr>))"

definition LogWriter_write :: "log_files \<times> LogWriter \<Rightarrow> u8 list \<Rightarrow> (log_files \<times> LogWriter) option" where
  "LogWriter_write fw line =
     (case (if lw_size (snd fw) > 0 \<and> lw_size (snd fw) + length line > lw_max_size (snd fw)
            then rotate_log fw else Some fw) of
        None \<Rightarrow> None
      | Some (fs, w) \<Rightarrow>
          Some (fs(0 \<mapsto> the (fs 0) @ line), w\<lparr>lw_size := lw_size w + length line\<rparr>))"

section \<open>The line buffer\<close>

record LineBuffer =
  lb_buf :: "u8 list"
  lb_start :: nat
  lb_scanned :: nat

definition LineBuffer_default :: LineBuffer where
  "LineBuffer_default = \<lparr>lb_buf = [], lb_start = 0, lb_scanned = 0\<rparr>"

definition LineBuffer_push :: "LineBuffer \<Rightarrow> u8 list \<Rightarrow> LineBuffer" where
  "LineBuffer_push b bytes =
     (let b = (if lb_start b > 0
               then \<lparr>lb_buf = drop (lb_start b) (lb_buf b), lb_start = 0, lb_scanned = lb_scanned b - lb_start b\<rparr>
               else b)
      in b\<lparr>lb_buf := lb_buf b @ bytes\<rparr>)"

text \<open>\<open>buf[a..b]\<close>.\<close>

definition slice :: "nat \<Rightarrow> nat \<Rightarrow> 'a list \<Rightarrow> 'a list" where
  "slice a b xs = take (b - a) (drop a xs)"

definition next_line :: "LineBuffer \<Rightarrow> bool \<Rightarrow> u8 list option \<times> LineBuffer" where
  "next_line b eof =
     (case position (\<lambda>c. c = newline) (drop (lb_scanned b) (lb_buf b)) of
        Some i \<Rightarrow>
          (let e = lb_scanned b + i
           in (Some (slice (lb_start b) e (lb_buf b)), b\<lparr>lb_start := e + 1, lb_scanned := e + 1\<rparr>))
      | None \<Rightarrow>
          let len = length (lb_buf b)
          in if eof \<and> lb_start b < len
             then (Some (slice (lb_start b) len (lb_buf b)), b\<lparr>lb_start := len, lb_scanned := len\<rparr>)
             else (None, b\<lparr>lb_scanned := len\<rparr>))"

definition pending :: "LineBuffer \<Rightarrow> nat" where
  "pending b = length (lb_buf b) - lb_start b"

section \<open>The item stream\<close>

definition STREAM_MAX_LINE :: nat where
  "STREAM_MAX_LINE = 2 ^ 24"

text \<open>The frames still to come; decoding a line (\<open>parse_line\<close>, which is \<open>serde_json\<close>'s, then \<open>check\<close>)
  is a parameter.\<close>

datatype 'e Frame = FrameData "u8 list" | FrameTrailers | FrameError 'e

datatype 'e StreamError = LineTooLong | LineError 'e | BodyError 'e

record 'e JsonState =
  js_body :: "'e Frame list"
  js_lines :: LineBuffer
  js_eof :: bool
  js_done :: bool

definition JsonState_init :: "'e Frame list \<Rightarrow> 'e JsonState" where
  "JsonState_init body = \<lparr>js_body = body, js_lines = LineBuffer_default, js_eof = False, js_done = False\<rparr>"

definition is_ascii_whitespace :: "u8 \<Rightarrow> bool" where
  "is_ascii_whitespace b \<longleftrightarrow> b = 9 \<or> b = 10 \<or> b = 12 \<or> b = 13 \<or> b = 32"

lemma next_line_progress:
  assumes "next_line b eof = (Some l, b')"
  shows "lb_buf b' = lb_buf b \<and>
    (length (lb_buf b) - lb_scanned b' < length (lb_buf b) - lb_scanned b \<or>
     length (lb_buf b) - lb_scanned b' = length (lb_buf b) - lb_scanned b \<and>
     length (lb_buf b) - lb_start b' < length (lb_buf b) - lb_start b)"
  using assms by (auto simp: next_line_def Let_def split: option.splits if_splits dest!: position_Some)

function next_item :: "(u8 list \<Rightarrow> 'e + 'a) \<Rightarrow> 'e JsonState \<Rightarrow> ('e StreamError + 'a) option \<times> 'e JsonState" where
  "next_item decode s =
     (if js_done s then (None, s)
      else case next_line (js_lines s) (js_eof s) of
        (Some line, lines) \<Rightarrow>
          let s = s\<lparr>js_lines := lines\<rparr> in
          if length line > STREAM_MAX_LINE then (Some (Inl LineTooLong), s\<lparr>js_done := True\<rparr>)
          else if list_all is_ascii_whitespace line then next_item decode s
          else (case decode line of
                  Inl e \<Rightarrow> (Some (Inl (LineError e)), s\<lparr>js_done := True\<rparr>)
                | Inr x \<Rightarrow> (Some (Inr x), s\<lparr>js_done := False\<rparr>))
      | (None, lines) \<Rightarrow>
          let s = s\<lparr>js_lines := lines\<rparr> in
          if js_eof s then (None, s\<lparr>js_done := True\<rparr>)
          else if pending lines > STREAM_MAX_LINE then (Some (Inl LineTooLong), s\<lparr>js_done := True\<rparr>)
          else (case js_body s of
                  [] \<Rightarrow> next_item decode (s\<lparr>js_eof := True\<rparr>)
                | FrameData bytes # rest \<Rightarrow>
                    next_item decode (s\<lparr>js_body := rest, js_lines := LineBuffer_push lines bytes\<rparr>)
                | FrameTrailers # rest \<Rightarrow> next_item decode (s\<lparr>js_body := rest\<rparr>)
                | FrameError e # rest \<Rightarrow> (Some (Inl (BodyError e)), s\<lparr>js_body := rest, js_done := True\<rparr>)))"
  by pat_completeness auto
termination
proof (relation "measures [\<lambda>(d, s). length (js_body s) + (if js_eof s then 0 else 1),
      \<lambda>(d, s). length (lb_buf (js_lines s)) - lb_scanned (js_lines s),
      \<lambda>(d, s). length (lb_buf (js_lines s)) - lb_start (js_lines s)]")
qed (auto dest: next_line_progress dest!: sym[of "(_, _)" "next_line _ _"])

declare next_item.simps [simp del]

end
