(* ===== verification/LogsCorrect.thy ===== *)
theory LogsCorrect
  imports Logs "HOL-Library.Sublist"
begin

text \<open>
  Correctness of the streams: the splitter against a byte-by-byte reference, the rotating log's
  text, the line buffer as a queue of bytes (the interface \<open>line_source\<close>), and the items a
  response yields.
\<close>

section \<open>The line splitter\<close>

text \<open>The reference: byte by byte, a piece ends at a newline or when it is full.\<close>

fun feed :: "u8 list \<Rightarrow> u8 list \<Rightarrow> u8 list list \<times> u8 list" where
  "feed partial [] = ([], partial)"
| "feed partial (b # bs) =
     (let p = partial @ [b]
      in if b = newline \<or> length p = LOG_MAX_LINE
         then (let (emitted, p') = feed [] bs in (p # emitted, p'))
         else feed p bs)"

lemma feed_plain:
  "newline \<notin> set w \<Longrightarrow> length partial + length w < LOG_MAX_LINE \<Longrightarrow> feed partial (w @ r) = feed (partial @ w) r"
  by (induction w arbitrary: partial) (auto simp: Let_def)

lemma feed_full:
  assumes "newline \<notin> set w" and "w \<noteq> []" and "length partial + length w = LOG_MAX_LINE"
  shows "feed partial (w @ r) = (let (emitted, p) = feed [] r in ((partial @ w) # emitted, p))"
proof -
  obtain v b where w: "w = v @ [b]" using assms(2) by (cases w rule: rev_cases) auto
  then have "feed partial (w @ r) = feed (partial @ v) (b # r)"
    using feed_plain[of v partial "b # r"] assms by simp
  then show ?thesis using w assms by (simp add: Let_def)
qed

lemma feed_line:
  assumes "newline \<notin> set w" and "length partial + length w < LOG_MAX_LINE"
  shows "feed partial (w @ newline # r) = (let (emitted, p) = feed [] r in ((partial @ w @ [newline]) # emitted, p))"
  using feed_plain[OF assms] by (simp add: Let_def)

lemma feed_append:
  "feed partial (a @ b) = (let (e1, p1) = feed partial a; (e2, p2) = feed p1 b in (e1 @ e2, p2))"
  by (induction partial a rule: feed.induct) (auto simp: Let_def split_beta)

lemma push_loop_feed:
  "length partial < LOG_MAX_LINE \<Longrightarrow> push_loop partial bytes = feed partial bytes"
proof (induction partial bytes rule: push_loop.induct)
  case (1 partial bytes)
  show ?case
  proof (cases "bytes = []")
    case True
    then show ?thesis by (simp add: push_loop.simps)
  next
    case False
    let ?w = "take (min (length bytes) (LOG_MAX_LINE - length partial)) bytes"
    have guard: "\<not> (bytes = [] \<or> length partial > LOG_MAX_LINE)" using False 1(4) by simp
    have w: "?w \<noteq> []" "length partial + length ?w \<le> LOG_MAX_LINE" using False 1(4) by auto
    have bytes: "bytes = ?w @ drop (length ?w) bytes" by (simp add: min_def)
    show ?thesis
    proof (cases "position (\<lambda>b. b = newline) ?w")
      case (Some i)
      note i = position_Some[OF Some]
      have i': "newline \<notin> set (take i ?w)" "?w ! i = newline" "i < length ?w" using i by auto
      have "bytes = take i ?w @ newline # drop (i + 1) bytes"
        using i' id_take_nth_drop[of i bytes] by (simp add: min_def split: if_splits)
      then have "feed partial bytes =
          (let (e, p) = feed [] (drop (i + 1) bytes) in ((partial @ take i ?w @ [newline]) # e, p))"
      proof -
        have "length partial + length (take i ?w) < LOG_MAX_LINE" using i'(3) by auto
        then show ?thesis
          using feed_line[OF i'(1), of partial "drop (i + 1) bytes"] \<open>bytes = take i ?w @ newline # drop (i + 1) bytes\<close>
          by simp
      qed
      moreover have "take (i + 1) ?w = take i ?w @ [newline]" using i' by (simp add: take_Suc_conv_app_nth)
      moreover have "push_loop [] (drop (i + 1) bytes) = feed [] (drop (i + 1) bytes)"
        using 1(3)[OF guard refl refl Some] by (simp add: LOG_MAX_LINE_def)
      ultimately show ?thesis using Some guard by (simp add: push_loop.simps[of partial] Let_def del: take_take)
    next
      case None
      then have no: "newline \<notin> set ?w" by (auto simp: position_None)
      show ?thesis
      proof (cases "length (partial @ ?w) = LOG_MAX_LINE")
        case True
        then have "feed partial bytes = (let (e, p) = feed [] (drop (length ?w) bytes) in ((partial @ ?w) # e, p))"
          using feed_full[OF no w(1), of partial "drop (length ?w) bytes"] bytes by simp
        moreover have "push_loop [] (drop (length ?w) bytes) = feed [] (drop (length ?w) bytes)"
          using 1(1)[OF guard refl refl None refl refl True] by (simp add: LOG_MAX_LINE_def)
        ultimately show ?thesis using None guard True by (simp add: push_loop.simps[of partial] Let_def)
      next
        case False
        then have "feed partial bytes = feed (partial @ ?w) (drop (length ?w) bytes)"
          using feed_plain[OF no, of partial "drop (length ?w) bytes"] bytes w(2) by simp
        moreover have "push_loop (partial @ ?w) (drop (length ?w) bytes) = feed (partial @ ?w) (drop (length ?w) bytes)"
          using 1(2)[OF guard refl refl None refl refl False] False w(2) by simp
        ultimately show ?thesis using None guard False by (simp add: push_loop.simps[of partial] Let_def)
      qed
    qed
  qed
qed

definition splitter_ok :: "LineSplitter \<Rightarrow> bool" where
  "splitter_ok s \<longleftrightarrow> length (ls_partial s) < LOG_MAX_LINE \<and> newline \<notin> set (ls_partial s)"

definition log_piece :: "u8 list \<Rightarrow> bool" where
  "log_piece e \<longleftrightarrow> e \<noteq> [] \<and> length e \<le> LOG_MAX_LINE \<and> newline \<notin> set (butlast e) \<and>
     (last e = newline \<or> length e = LOG_MAX_LINE)"

lemma feed_pieces:
  assumes "length partial < LOG_MAX_LINE" and "newline \<notin> set partial" and "feed partial bytes = (emitted, p)"
  shows "concat emitted @ p = partial @ bytes \<and> list_all log_piece emitted \<and> length p < LOG_MAX_LINE \<and> newline \<notin> set p"
  using assms
proof (induction partial bytes arbitrary: emitted rule: feed.induct)
  case (2 partial b bs)
  show ?case
  proof (cases "b = newline \<or> length (partial @ [b]) = LOG_MAX_LINE")
    case True
    then obtain e where e: "feed [] bs = (e, p)" "emitted = (partial @ [b]) # e"
      using 2(5) by (auto simp: Let_def split: prod.splits)
    have "concat e @ p = bs \<and> list_all log_piece e \<and> length p < LOG_MAX_LINE \<and> newline \<notin> set p"
      using 2(1)[OF refl True _ _ e(1)] by (simp add: LOG_MAX_LINE_def)
    moreover have "log_piece (partial @ [b])" using True 2(3,4) by (auto simp: log_piece_def)
    ultimately show ?thesis using e(2) by simp
  next
    case False
    then show ?thesis using 2(2)[OF refl False, of emitted] 2(3-5) by (auto simp: Let_def)
  qed
qed simp

text \<open>C17: the splitter that works on windows of its input is the byte-by-byte reference, so how the
  output arrives in reads does not matter: feeding two parts one after the other emits the same
  pieces as feeding them at once.\<close>

theorem splitter_is_reference:
  assumes "splitter_ok s"
  shows "LineSplitter_push s bytes = (let (emitted, p) = feed (ls_partial s) bytes in (emitted, \<lparr>ls_partial = p\<rparr>)) \<and>
    LineSplitter_push s (a @ b) =
      (let (e1, s1) = LineSplitter_push s a; (e2, s2) = LineSplitter_push s1 b in (e1 @ e2, s2))"
proof -
  have feed: "LineSplitter_push t x = (let (emitted, p) = feed (ls_partial t) x in (emitted, \<lparr>ls_partial = p\<rparr>))"
    if "length (ls_partial t) < LOG_MAX_LINE" for t x
    using that by (simp add: LineSplitter_push_def push_loop_feed)
  have "length (snd (feed (ls_partial s) a)) < LOG_MAX_LINE"
    using feed_pieces[of "ls_partial s" a] assms by (cases "feed (ls_partial s) a") (auto simp: splitter_ok_def)
  then show ?thesis
    using assms feed[of s] feed[of "\<lparr>ls_partial = snd (feed (ls_partial s) a)\<rparr>"]
    by (simp add: splitter_ok_def feed_append split_beta Let_def)
qed

theorem splitter_is_reference_witness:
  "LineSplitter_push LineSplitter_default ([104, 105] @ [10, 33]) = ([[104, 105, 10]], \<lparr>ls_partial = [33]\<rparr>)"
  using splitter_is_reference[of LineSplitter_default "[104, 105] @ [10, 33]"]
  by (simp add: splitter_ok_def LineSplitter_default_def LOG_MAX_LINE_def)

text \<open>No byte is lost, added or moved: what is emitted and what is kept are the old rest and the
  new output. Every piece has at most 16 KiB and at most one newline, at its end; it has one or is
  full. What is kept holds no newline and is shorter, and flushing gives it out.\<close>

theorem splitter_loses_nothing:
  assumes "splitter_ok s" and "LineSplitter_push s bytes = (emitted, s')" and "LineSplitter_flush s' = (last_pieces, s'')"
  shows "concat emitted @ ls_partial s' = ls_partial s @ bytes \<and> list_all log_piece emitted \<and> splitter_ok s' \<and>
    concat (emitted @ last_pieces) = ls_partial s @ bytes \<and> ls_partial s'' = []"
proof -
  have "feed (ls_partial s) bytes = (emitted, ls_partial s')"
    using assms(1,2) by (auto simp: LineSplitter_push_def push_loop_feed splitter_ok_def split: prod.splits)
  then show ?thesis
    using feed_pieces[of "ls_partial s" bytes emitted "ls_partial s'"] assms(1,3)
    by (auto simp: splitter_ok_def LineSplitter_flush_def split: if_splits)
qed

theorem splitter_loses_nothing_witness:
  "concat ([[104, 10]] @ [[33 :: u8]]) = [104, 10, 33]"
proof -
  have "LineSplitter_push LineSplitter_default [104, 10, 33] = ([[104, 10]], \<lparr>ls_partial = [33]\<rparr>)"
    by (simp add: LineSplitter_push_def LineSplitter_default_def push_loop_feed LOG_MAX_LINE_def)
  then show ?thesis
    using splitter_loses_nothing[of LineSplitter_default "[104, 10, 33]" "[[104, 10]]" "\<lparr>ls_partial = [33]\<rparr>" "[[33]]"]
    by (simp add: splitter_ok_def LineSplitter_default_def LineSplitter_flush_def LOG_MAX_LINE_def)
qed

section \<open>The rotating log\<close>

definition content :: "log_files \<Rightarrow> nat \<Rightarrow> u8 list" where
  "content fs n = (case fs n of None \<Rightarrow> [] | Some c \<Rightarrow> c)"

text \<open>What a reader of the first \<open>n\<close> files gets, oldest first (\<open>log_files\<close>).\<close>

primrec log_text :: "log_files \<Rightarrow> nat \<Rightarrow> u8 list" where
  "log_text fs 0 = []"
| "log_text fs (Suc n) = content fs n @ log_text fs n"


definition log_ok :: "log_files \<times> LogWriter \<Rightarrow> bool" where
  "log_ok fw \<longleftrightarrow> fst fw 0 \<noteq> None \<and> length (content (fst fw) 0) = lw_size (snd fw) \<and>
     1 \<le> lw_max_files (snd fw) \<and> 1 \<le> lw_max_size (snd fw)"

lemma content_upd [simp]: "content (fs(n := v)) m = (if m = n then (case v of None \<Rightarrow> [] | Some c \<Rightarrow> c) else content fs m)"
  by (simp add: content_def)

lemma log_text_cong: "(\<And>m. m < n \<Longrightarrow> content fs m = content gs m) \<Longrightarrow> log_text fs n = log_text gs n"
  by (induction n) auto

lemma log_text_0:
  "0 < n \<Longrightarrow> (\<And>m. 0 < m \<Longrightarrow> content gs m = content fs m) \<Longrightarrow>
   \<exists>old. log_text fs n = old @ content fs 0 \<and> log_text gs n = old @ content gs 0"
proof (induction n)
  case (Suc n)
  then show ?case by (cases "n = 0") auto
qed simp

lemma log_text_move:
  "content gs 0 = [] \<Longrightarrow> content gs 1 = content fs 0 \<Longrightarrow> content fs 1 = [] \<Longrightarrow>
   (\<And>m. 1 < m \<Longrightarrow> content gs m = content fs m) \<Longrightarrow> log_text gs (Suc (Suc n)) = log_text fs (Suc (Suc n))"
  by (induction n) auto

lemma shift_files_outside: "n = 0 \<or> k + 1 < n \<Longrightarrow> shift_files k fs n = fs n"
proof (induction k arbitrary: fs)
  case (Suc k)
  then show ?case by (auto simp: log_rename_def split: option.splits)
qed simp

lemma shift_files_1: "0 < k \<Longrightarrow> shift_files k fs 1 = None"
proof (induction k arbitrary: fs)
  case (Suc k)
  then show ?case by (cases k) (auto simp: log_rename_def split: option.splits)
qed simp

lemma rename_up:
  assumes "fs (Suc k) = None"
  shows "log_text (case log_rename k (Suc k) fs of None \<Rightarrow> fs | Some fs' \<Rightarrow> fs') (Suc (Suc k)) = log_text fs (Suc (Suc k))"
proof (cases "fs k")
  case None
  then show ?thesis by (simp add: log_rename_def)
next
  case (Some c)
  have "log_text (fs(k := None, Suc k := Some c)) k = log_text fs k" by (rule log_text_cong) simp
  then show ?thesis using Some assms by (simp add: log_rename_def content_def)
qed

lemma rename_clears: "(case log_rename (Suc k) (Suc (Suc k)) fs of None \<Rightarrow> fs | Some fs' \<Rightarrow> fs') (Suc k) = None"
  by (auto simp: log_rename_def split: option.splits)

lemma shift_files_text: "fs (Suc k) = None \<Longrightarrow> log_text (shift_files k fs) (Suc (Suc k)) = log_text fs (Suc (Suc k))"
proof (induction k arbitrary: fs)
  case (Suc k)
  let ?fs = "case log_rename (Suc k) (Suc (Suc k)) fs of None \<Rightarrow> fs | Some fs' \<Rightarrow> fs'"
  have "log_text (shift_files k ?fs) (Suc (Suc k)) = log_text ?fs (Suc (Suc k))"
    by (rule Suc.IH) (rule rename_clears)
  moreover have "shift_files k ?fs (Suc (Suc k)) = ?fs (Suc (Suc k))" by (rule shift_files_outside) simp
  ultimately have "log_text (shift_files k ?fs) (Suc (Suc (Suc k))) = log_text ?fs (Suc (Suc (Suc k)))"
    by (simp add: content_def)
  also have "\<dots> = log_text fs (Suc (Suc (Suc k)))" by (rule rename_up) (rule Suc.prems)
  finally show ?case by simp
qed simp

text \<open>A rename onto the oldest file loses what was there, and no other text.\<close>

lemma rename_text:
  "log_text (case log_rename k (Suc k) fs of None \<Rightarrow> fs | Some fs' \<Rightarrow> fs') (Suc (Suc k)) =
    (if fs k = None then log_text fs (Suc (Suc k)) else log_text fs (Suc k))"
proof (cases "fs k")
  case (Some c)
  have "log_text (fs(k := None, Suc k := Some c)) k = log_text fs k" by (rule log_text_cong) simp
  then show ?thesis using Some by (simp add: log_rename_def content_def)
qed (simp add: log_rename_def)

lemma shift_files_kept:
  "0 < k \<Longrightarrow> log_text (shift_files k fs) (Suc (Suc k)) = (if fs k = None then log_text fs (Suc (Suc k)) else log_text fs (Suc k))"
proof (cases k)
  case (Suc j)
  let ?fs = "case log_rename (Suc j) (Suc (Suc j)) fs of None \<Rightarrow> fs | Some fs' \<Rightarrow> fs'"
  have "log_text (shift_files j ?fs) (Suc (Suc j)) = log_text ?fs (Suc (Suc j))"
    by (rule shift_files_text) (rule rename_clears)
  moreover have "shift_files j ?fs (Suc (Suc j)) = ?fs (Suc (Suc j))" by (rule shift_files_outside) simp
  ultimately show ?thesis using rename_text[of fs "Suc j"] by (simp add: Suc content_def)
qed simp

text \<open>The text that a rotation keeps: all of it while there is room for one more file, and otherwise all but that of the oldest
  file. With one file the log is emptied.\<close>

definition kept_text :: "log_files \<Rightarrow> LogWriter \<Rightarrow> u8 list" where
  "kept_text fs w = (if fs (lw_max_files w - 2) = None then log_text fs (lw_max_files w) else log_text fs (lw_max_files w - 1))"

lemma rotate_log_total:
  assumes "log_ok (fs, w)"
  obtains fs' where "rotate_log (fs, w) = Some (fs', w\<lparr>lw_size := 0\<rparr>)" and "fs' 0 = Some []"
    and "log_text fs' (lw_max_files w) = kept_text fs w" and "2 \<le> lw_max_files w \<Longrightarrow> fs' 1 = fs 0"
    and "\<forall>n \<ge> lw_max_files w. fs' n = fs n"
proof (cases "lw_max_files w = 1")
  case True
  show thesis
    by (rule that[of "fs(0 \<mapsto> [])"]) (use True assms in \<open>auto simp: rotate_log_def kept_text_def log_ok_def\<close>)
next
  case False
  then obtain k where k: "lw_max_files w = Suc (Suc k)"
    using assms by (metis log_ok_def One_nat_def Suc_le_D le_0_eq not0_implies_Suc snd_conv old.nat.exhaust)
  let ?gs = "shift_files k fs"
  have first: "?gs 0 = fs 0" by (rule shift_files_outside) simp
  then obtain c where c: "?gs 0 = Some c" using assms by (auto simp: log_ok_def)
  let ?fs' = "?gs(0 := Some [], 1 := Some c)"
  have "rotate_log (fs, w) = Some (?fs', w\<lparr>lw_size := 0\<rparr>)"
    using k c by (simp add: rotate_log_def log_rename_def open_append_def fun_upd_twist)
  moreover have "log_text ?fs' (Suc (Suc k)) = kept_text fs w"
  proof (cases k)
    case 0
    then show ?thesis using c first k by (simp add: content_def kept_text_def)
  next
    case (Suc j)
    then have one: "?gs 1 = None" using shift_files_1[of k fs] by simp
    have "log_text ?fs' (Suc (Suc k)) = log_text ?gs (Suc (Suc k))"
      by (rule log_text_move) (use c one in \<open>simp_all add: content_def\<close>)
    then show ?thesis using shift_files_kept[of k fs] Suc k by (simp add: kept_text_def)
  qed
  moreover have "\<forall>n \<ge> lw_max_files w. ?fs' n = fs n" using k shift_files_outside[of _ k fs] by auto
  ultimately show thesis using that[of ?fs'] k c first by simp
qed

text \<open>C16: writing an entry never fails for want of a file, keeps the writer's account of the file's
  size, and appends the whole entry to what a reader gets. No text before it goes, except when the entry would take the
  current file past \<open>max_size\<close>: then the current file becomes number 1 and a new one has the entry alone, and if the number
  before the last was in use, the text of the last file, the oldest, goes and nothing else. No file beyond \<open>max_files\<close> is
  touched, and the current file stays within \<open>max_size\<close> unless it is that one entry.\<close>

theorem log_write_keeps_newest:
  fixes line :: "u8 list"
  assumes "log_ok (fs, w)"
  defines "rotates \<equiv> lw_size w > 0 \<and> lw_size w + length line > lw_max_size w"
  shows "\<exists>fs' w'. LogWriter_write (fs, w) line = Some (fs', w') \<and> log_ok (fs', w') \<and>
    lw_max_files w' = lw_max_files w \<and> lw_max_size w' = lw_max_size w \<and>
    log_text fs' (lw_max_files w) =
      (if \<not> rotates \<or> fs (lw_max_files w - 2) = None then log_text fs (lw_max_files w) else log_text fs (lw_max_files w - 1)) @ line \<and>
    (rotates \<longrightarrow> content fs' 0 = line \<and> (2 \<le> lw_max_files w \<longrightarrow> fs' 1 = fs 0)) \<and>
    (\<forall>n \<ge> lw_max_files w. fs' n = fs n) \<and>
    (lw_size w' \<le> lw_max_size w \<or> content fs' 0 = line)"
proof -
  have pos: "0 < lw_max_files w" using assms(1) by (simp add: log_ok_def)
  have written: "log_text (gs(0 \<mapsto> content gs 0 @ line)) (lw_max_files w) = log_text gs (lw_max_files w) @ line" for gs
    using log_text_0[OF pos, of gs "gs(0 \<mapsto> content gs 0 @ line)"] by auto
  show ?thesis
  proof (cases rotates)
    case True
    obtain gs where gs: "rotate_log (fs, w) = Some (gs, w\<lparr>lw_size := 0\<rparr>)" "gs 0 = Some []"
        "log_text gs (lw_max_files w) = kept_text fs w" "2 \<le> lw_max_files w \<Longrightarrow> gs 1 = fs 0" "\<forall>n \<ge> lw_max_files w. gs n = fs n"
      using rotate_log_total[OF assms(1)] by blast
    have "LogWriter_write (fs, w) line = Some (gs(0 \<mapsto> line), w\<lparr>lw_size := length line\<rparr>)"
      using True gs(1,2) by (simp add: LogWriter_write_def rotates_def)
    moreover have "log_text (gs(0 \<mapsto> line)) (lw_max_files w) = kept_text fs w @ line"
      using written[of gs] gs(2,3) by (simp add: content_def)
    ultimately show ?thesis
      using True gs(4,5) pos assms(1) by (auto simp: kept_text_def log_ok_def content_def)
  next
    case False
    have "LogWriter_write (fs, w) line = Some (fs(0 \<mapsto> content fs 0 @ line), w\<lparr>lw_size := lw_size w + length line\<rparr>)"
      using False assms(1) by (auto simp: LogWriter_write_def rotates_def content_def log_ok_def)
    then show ?thesis
      using False written[of fs] pos assms(1) by (auto simp: rotates_def log_ok_def)
  qed
qed

definition full_log :: log_files where
  "full_log = [0 \<mapsto> [98, 10], 1 \<mapsto> [97, 10]]"

theorem log_write_keeps_newest_witness:
  "\<exists>fs' w'. LogWriter_write (full_log, \<lparr>lw_size = 2, lw_max_size = 3, lw_max_files = 2\<rparr>) [99, 10] = Some (fs', w') \<and>
     log_text fs' 2 = [98, 10, 99, 10] \<and> fs' 1 = Some [98, 10]"
  using log_write_keeps_newest[of full_log "\<lparr>lw_size = 2, lw_max_size = 3, lw_max_files = 2\<rparr>" "[99, 10]"]
  by (simp add: log_ok_def content_def full_log_def numeral_2_eq_2) blast

section \<open>The line buffer\<close>

text \<open>What a source of lines promises to the stream that reads it: the bytes it holds (\<open>held\<close>) are the
  only state that shows.\<close>

definition take_line :: "u8 list \<Rightarrow> bool \<Rightarrow> u8 list option \<times> u8 list" where
  "take_line bytes eof =
     (case position (\<lambda>c. c = newline) bytes of
        Some i \<Rightarrow> (Some (take i bytes), drop (i + 1) bytes)
      | None \<Rightarrow> if eof \<and> bytes \<noteq> [] then (Some bytes, []) else (None, bytes))"

locale line_source =
  fixes push :: "'b \<Rightarrow> u8 list \<Rightarrow> 'b" and nxt :: "'b \<Rightarrow> bool \<Rightarrow> u8 list option \<times> 'b"
    and pend :: "'b \<Rightarrow> nat" and held :: "'b \<Rightarrow> u8 list" and ok :: "'b \<Rightarrow> bool"
  assumes push_ok: "ok b \<Longrightarrow> ok (push b bytes)"
    and push_held: "ok b \<Longrightarrow> held (push b bytes) = held b @ bytes"
    and nxt_ok: "ok b \<Longrightarrow> ok (snd (nxt b eof))"
    and nxt_line: "ok b \<Longrightarrow> (fst (nxt b eof), held (snd (nxt b eof))) = take_line (held b) eof"
    and pend_held: "ok b \<Longrightarrow> pend b = length (held b)"
begin

text \<open>Pushing in two parts is pushing at once, as far as anyone can see.\<close>

lemma push_parts: "ok b \<Longrightarrow> held (push (push b x) y) = held (push b (x @ y))"
  by (simp add: push_ok push_held)

lemma nxt_cases:
  assumes "ok b"
  obtains (line) i b' where "nxt b eof = (Some (take i (held b)), b')" "ok b'" "i < length (held b)"
      "held b ! i = newline" "newline \<notin> set (take i (held b))" "held b' = drop (i + 1) (held b)"
    | (rest) b' where "nxt b eof = (Some (held b), b')" "ok b'" "eof" "held b \<noteq> []" "newline \<notin> set (held b)" "held b' = []"
    | (none) b' where "nxt b eof = (None, b')" "ok b'" "newline \<notin> set (held b)" "held b' = held b" "\<not> (eof \<and> held b \<noteq> [])"
proof -
  obtain r b' where n: "nxt b eof = (r, b')" by (cases "nxt b eof")
  have b': "ok b'" "(r, held b') = take_line (held b) eof"
    using nxt_ok[OF assms, of eof] nxt_line[OF assms, of eof] by (simp_all add: n)
  show thesis
  proof (cases "position (\<lambda>c. c = newline) (held b)")
    case (Some i)
    then show thesis
      using line[of i b'] n b' position_Some[OF Some] by (auto simp: take_line_def)
  next
    case None
    then have "newline \<notin> set (held b)" by (auto simp: position_None)
    then show thesis
      using rest[of b'] none[of b'] n b' None by (cases "eof \<and> held b \<noteq> []") (auto simp: take_line_def)
  qed
qed

end

definition buffer_held :: "LineBuffer \<Rightarrow> u8 list" where
  "buffer_held b = drop (lb_start b) (lb_buf b)"

definition buffer_ok :: "LineBuffer \<Rightarrow> bool" where
  "buffer_ok b \<longleftrightarrow> lb_start b \<le> lb_scanned b \<and> lb_scanned b \<le> length (lb_buf b) \<and>
     newline \<notin> set (slice (lb_start b) (lb_scanned b) (lb_buf b))"

lemma held_scanned:
  "buffer_ok b \<Longrightarrow> buffer_held b = slice (lb_start b) (lb_scanned b) (lb_buf b) @ drop (lb_scanned b) (lb_buf b)"
  by (simp add: buffer_held_def buffer_ok_def slice_def)
    (metis append_take_drop_id drop_drop le_add_diff_inverse2)

lemma position_append:
  "\<forall>x\<in>set xs. \<not> P x \<Longrightarrow> position P (xs @ ys) = map_option (\<lambda>i. length xs + i) (position P ys)"
proof (induction xs)
  case Nil
  then show ?case by (cases "position P ys") auto
next
  case (Cons x xs)
  then show ?case by (cases "position P ys") auto
qed

lemma buffer_next:
  assumes "buffer_ok b"
  shows "buffer_ok (snd (next_line b eof))"
    and "(fst (next_line b eof), buffer_held (snd (next_line b eof))) = take_line (buffer_held b) eof"
proof -
  let ?pre = "slice (lb_start b) (lb_scanned b) (lb_buf b)"
  have pre: "length ?pre = lb_scanned b - lb_start b" "newline \<notin> set ?pre" "lb_start b \<le> lb_scanned b"
    using assms by (auto simp: buffer_ok_def slice_def)
  have pos: "position (\<lambda>c. c = newline) (buffer_held b) =
      map_option (\<lambda>i. lb_scanned b - lb_start b + i) (position (\<lambda>c. c = newline) (drop (lb_scanned b) (lb_buf b)))"
    unfolding held_scanned[OF assms] using position_append[of ?pre "\<lambda>c. c = newline"] pre by auto
  show "buffer_ok (snd (next_line b eof))"
  proof (cases "position (\<lambda>c. c = newline) (drop (lb_scanned b) (lb_buf b))")
    case None
    then have "position (\<lambda>c. c = newline) (buffer_held b) = None" using pos by simp
    then have "newline \<notin> set (buffer_held b)" by (auto simp: position_None)
    then show ?thesis
      using None assms by (auto simp: next_line_def buffer_ok_def slice_def buffer_held_def Let_def)
  next
    case (Some i)
    then show ?thesis using position_Some[OF Some] by (auto simp: next_line_def buffer_ok_def slice_def Let_def)
  qed
  show "(fst (next_line b eof), buffer_held (snd (next_line b eof))) = take_line (buffer_held b) eof"
    using pre(3) assms pos
    by (auto simp: next_line_def take_line_def buffer_held_def slice_def buffer_ok_def Let_def split: option.splits)
qed

lemma pending_held: "pending b = length (buffer_held b)"
  by (simp add: pending_def buffer_held_def)

lemma buffer_push:
  assumes "buffer_ok b"
  shows "buffer_ok (LineBuffer_push b bytes)" and "buffer_held (LineBuffer_push b bytes) = buffer_held b @ bytes"
  using assms by (auto simp: LineBuffer_push_def buffer_ok_def buffer_held_def slice_def Let_def)

interpretation line_buffer: line_source LineBuffer_push next_line pending buffer_held buffer_ok
  by unfold_locales (simp_all add: buffer_push buffer_next pending_held)

text \<open>The line buffer, which searches each byte once and drops consumed bytes late, is a plain
  queue of bytes: pushing appends, taking a line cuts the queue after its first newline (or gives
  the rest at the end), and the count of pending bytes is the queue's length.\<close>

theorem line_buffer_refines_queue:
  assumes "buffer_ok b"
  shows "buffer_ok LineBuffer_default \<and> buffer_held LineBuffer_default = [] \<and>
    buffer_ok (LineBuffer_push b bytes) \<and> buffer_held (LineBuffer_push b bytes) = buffer_held b @ bytes \<and>
    buffer_ok (snd (next_line b eof)) \<and>
    (fst (next_line b eof), buffer_held (snd (next_line b eof))) = take_line (buffer_held b) eof \<and>
    pending b = length (buffer_held b)"
  using line_buffer.push_ok[OF assms] line_buffer.push_held[OF assms] line_buffer.nxt_ok[OF assms]
    line_buffer.nxt_line[OF assms] line_buffer.pend_held[OF assms]
  by (simp add: LineBuffer_default_def buffer_ok_def buffer_held_def slice_def)

theorem line_buffer_refines_queue_witness:
  "fst (next_line (LineBuffer_push LineBuffer_default [104, 10, 105]) False) = Some [104]"
proof -
  have ok: "buffer_ok LineBuffer_default" by (simp add: buffer_ok_def LineBuffer_default_def slice_def)
  have "buffer_ok (LineBuffer_push LineBuffer_default [104, 10, 105])" by (rule buffer_push(1)[OF ok])
  then show ?thesis
    using line_buffer_refines_queue[of "LineBuffer_push LineBuffer_default [104, 10, 105]" "[]" False] buffer_push(2)[OF ok]
    by (simp add: take_line_def buffer_held_def LineBuffer_default_def)
qed

section \<open>The item stream\<close>

text \<open>The lines of a text; the last one needs no newline.\<close>

function lines_of :: "u8 list \<Rightarrow> u8 list list" where
  "lines_of bytes =
     (case position (\<lambda>c. c = newline) bytes of
        Some i \<Rightarrow> take i bytes # lines_of (drop (i + 1) bytes)
      | None \<Rightarrow> if bytes = [] then [] else [bytes])"
  by pat_completeness auto
termination by (relation "measure length") (auto dest!: position_Some)

declare lines_of.simps [simp del]

fun body_bytes :: "'e Frame list \<Rightarrow> u8 list" where
  "body_bytes [] = []"
| "body_bytes (FrameData bytes # rest) = bytes @ body_bytes rest"
| "body_bytes (_ # rest) = body_bytes rest"

fun no_error :: "'e Frame \<Rightarrow> bool" where
  "no_error (FrameError e) = False"
| "no_error _ = True"

definition stream_ok :: "'e JsonState \<Rightarrow> bool" where
  "stream_ok s \<longleftrightarrow> \<not> js_done s \<and> buffer_ok (js_lines s) \<and> (js_eof s \<longrightarrow> js_body s = []) \<and> list_all no_error (js_body s)"

definition to_come :: "'e JsonState \<Rightarrow> u8 list list" where
  "to_come s = lines_of (buffer_held (js_lines s) @ body_bytes (js_body s))"

abbreviation blank :: "u8 list \<Rightarrow> bool" where
  "blank l \<equiv> list_all is_ascii_whitespace l"

lemma lines_of_line: "i < length xs \<Longrightarrow> xs ! i = newline \<Longrightarrow> newline \<notin> set (take i xs) \<Longrightarrow>
    lines_of (xs @ ys) = take i xs # lines_of (drop (i + 1) xs @ ys)"
proof -
  assume i: "i < length xs" "xs ! i = newline" "newline \<notin> set (take i xs)"
  have eq: "xs @ ys = take i xs @ newline # drop (i + 1) xs @ ys"
    using i id_take_nth_drop[of i xs] by (metis Suc_eq_plus1 append.assoc append_Cons)
  have "position (\<lambda>c. c = newline) (xs @ ys) = Some i"
    unfolding eq using i by (subst position_append) auto
  then show ?thesis using i by (subst lines_of.simps) simp
qed

lemma lines_of_plain: "newline \<notin> set xs \<Longrightarrow> lines_of xs = (if xs = [] then [] else [xs])"
proof -
  assume "newline \<notin> set xs"
  then have "position (\<lambda>c. c = newline) xs = None" by (auto simp: position_None)
  then show ?thesis by (subst lines_of.simps) simp
qed

lemma lines_of_long:
  assumes "newline \<notin> set xs" and "xs \<noteq> []"
  shows "\<exists>l\<in>set (lines_of (xs @ ys)). length xs \<le> length l"
proof (cases "position (\<lambda>c. c = newline) ys")
  case None
  then have "newline \<notin> set (xs @ ys)" using assms by (auto simp: position_None)
  then show ?thesis using assms by (simp add: lines_of_plain)
next
  case (Some i)
  then have "position (\<lambda>c. c = newline) (xs @ ys) = Some (length xs + i)"
    using position_append[of xs "\<lambda>c. c = newline" ys] assms by auto
  then show ?thesis
    using position_Some[OF Some] by (subst lines_of.simps) simp
qed

lemma next_item_item:
  assumes "stream_ok s" and "\<forall>l\<in>set (to_come s). length l \<le> STREAM_MAX_LINE"
    and "\<forall>l\<in>set (to_come s). \<not> blank l \<longrightarrow> (\<exists>x. decode l = Inr x)"
  shows "case filter (\<lambda>l. \<not> blank l) (to_come s) of
      [] \<Rightarrow> \<exists>s'. next_item decode s = (None, s')
    | l # ls \<Rightarrow> \<exists>s' x. next_item decode s = (Some (Inr x), s') \<and> decode l = Inr x \<and> stream_ok s' \<and>
        filter (\<lambda>l. \<not> blank l) (to_come s') = ls \<and> set (to_come s') \<subseteq> set (to_come s)"
  using assms
proof (induction s rule: wf_induct_rule[OF wf_measures[of "[\<lambda>s. length (js_body s) + (if js_eof s then 0 else 1),
    \<lambda>s. length (buffer_held (js_lines s))]"]])
  case (1 s)
  let ?h = "buffer_held (js_lines s)"
  have ok: "\<not> js_done s" "buffer_ok (js_lines s)" "js_eof s \<longrightarrow> js_body s = []" "list_all no_error (js_body s)"
    using "1.prems"(1) by (auto simp: stream_ok_def)
  note step = next_item.simps[of decode s]
  have taken: ?case
    if n: "next_line (js_lines s) (js_eof s) = (Some l, b')" and b': "buffer_ok b'" "length (buffer_held b') < length ?h"
      and come: "to_come s = l # to_come (s\<lparr>js_lines := b'\<rparr>)" for l b'
  proof -
    let ?s = "s\<lparr>js_lines := b'\<rparr>"
    have s': "stream_ok ?s" using ok b' by (simp add: stream_ok_def)
    have len: "\<not> STREAM_MAX_LINE < length l" using "1.prems"(2) come by auto
    show ?thesis
    proof (cases "blank l")
      case True
      have "next_item decode s = next_item decode ?s" using step n ok(1) len True by simp
      moreover have "filter (\<lambda>l. \<not> blank l) (to_come s) = filter (\<lambda>l. \<not> blank l) (to_come ?s)" using come True by simp
      moreover have "case filter (\<lambda>l. \<not> blank l) (to_come ?s) of
          [] \<Rightarrow> \<exists>s'. next_item decode ?s = (None, s')
        | l # ls \<Rightarrow> \<exists>s' x. next_item decode ?s = (Some (Inr x), s') \<and> decode l = Inr x \<and> stream_ok s' \<and>
            filter (\<lambda>l. \<not> blank l) (to_come s') = ls \<and> set (to_come s') \<subseteq> set (to_come ?s)"
        by (rule "1.IH") (use b' s' "1.prems" come in auto)
      ultimately show ?thesis using come by (auto split: list.splits)
    next
      case False
      then obtain x where x: "decode l = Inr x" using "1.prems"(3) come by auto
      have "next_item decode s = (Some (Inr x), ?s)" using step n ok(1) len False x by simp
      then show ?thesis using False x come s' by auto
    qed
  qed
  have again: ?case
    if "next_item decode s = next_item decode s2" "to_come s2 = to_come s" "stream_ok s2"
      "length (js_body s2) + (if js_eof s2 then 0 else 1) < length (js_body s) + (if js_eof s then 0 else (1 :: nat))" for s2
    using "1.IH"[of s2] that "1.prems"(2,3) by (simp split: list.splits)
  from ok(2) show ?case
  proof (cases rule: line_buffer.nxt_cases[where eof = "js_eof s"])
    case (line i b')
    show ?thesis
      by (rule taken[OF line(1,2)]) (use line(3,6) lines_of_line[OF line(3-5)] in \<open>auto simp: to_come_def\<close>)
  next
    case (rest b')
    show ?thesis
      by (rule taken[OF rest(1,2)])
        (use rest ok(3) lines_of_plain[of ?h] lines_of_plain[of "[]"] in \<open>auto simp: to_come_def\<close>)
  next
    case (none b')
    show ?thesis
    proof (cases "js_eof s")
      case True
      then have "next_item decode s = (None, s\<lparr>js_lines := b', js_done := True\<rparr>)" using step none(1) ok(1) by simp
      moreover have "to_come s = []" using True none(5) ok(3) lines_of_plain[of "[]"] by (auto simp: to_come_def)
      ultimately show ?thesis by simp
    next
      case False
      have "length ?h \<le> STREAM_MAX_LINE"
      proof (cases "?h = []")
        case nonempty: False
        then show ?thesis
          using lines_of_long[OF none(3), of "body_bytes (js_body s)"] "1.prems"(2) by (force simp: to_come_def)
      qed simp
      then have small: "\<not> STREAM_MAX_LINE < pending b'" by (simp add: pending_held none(4))
      let ?s = "s\<lparr>js_lines := b'\<rparr>"
      show ?thesis
      proof (cases "js_body s")
        case Nil
        show ?thesis
          by (rule again[of "?s\<lparr>js_eof := True\<rparr>"])
            (use step none False ok small Nil in \<open>auto simp: to_come_def stream_ok_def\<close>)
      next
        case (Cons f r)
        show ?thesis
        proof (cases f)
          case (FrameData bytes)
          show ?thesis
            by (rule again[of "?s\<lparr>js_body := r, js_lines := LineBuffer_push b' bytes\<rparr>"])
              (use step none False ok small Cons FrameData in \<open>auto simp: to_come_def stream_ok_def buffer_push\<close>)
        next
          case FrameTrailers
          show ?thesis
            by (rule again[of "?s\<lparr>js_body := r\<rparr>"])
              (use step none False ok small Cons FrameTrailers in \<open>auto simp: to_come_def stream_ok_def\<close>)
        next
          case (FrameError e)
          then show ?thesis using ok(4) Cons by simp
        qed
      qed
    qed
  qed
qed

text \<open>The items a stream yields until it ends.\<close>

inductive yields :: "(u8 list \<Rightarrow> 'e + 'a) \<Rightarrow> 'e JsonState \<Rightarrow> ('e StreamError + 'a) list \<Rightarrow> bool"
  for decode where
  ended: "next_item decode s = (None, s') \<Longrightarrow> yields decode s []"
| item: "next_item decode s = (Some x, s') \<Longrightarrow> yields decode s' xs \<Longrightarrow> yields decode s (x # xs)"

lemma yields_lines:
  assumes "stream_ok s" and "\<forall>l\<in>set (to_come s). length l \<le> STREAM_MAX_LINE"
    and "\<forall>l\<in>set (to_come s). \<not> blank l \<longrightarrow> decode l = Inr (f l)"
  shows "yields decode s (map (\<lambda>l. Inr (f l)) (filter (\<lambda>l. \<not> blank l) (to_come s)))"
  using assms
proof (induction "filter (\<lambda>l. \<not> blank l) (to_come s)" arbitrary: s)
  case Nil
  obtain s' where "next_item decode s = (None, s')"
  proof -
    have "\<forall>l\<in>set (to_come s). \<not> blank l \<longrightarrow> (\<exists>x. decode l = Inr x)" using Nil.prems(3) by blast
    from next_item_item[OF Nil.prems(1,2) this, folded Nil.hyps] that show thesis by auto
  qed
  then show ?case using Nil.hyps by (metis list.simps(8) yields.ended)
next
  case (Cons l ls)
  have "\<forall>l\<in>set (to_come s). \<not> blank l \<longrightarrow> (\<exists>x. decode l = Inr x)" using Cons.prems(3) by blast
  note n = next_item_item[OF Cons.prems(1,2) this, folded Cons.hyps(2), simplified]
  then obtain s' x where s': "next_item decode s = (Some (Inr x), s')" "decode l = Inr x" "stream_ok s'"
      "filter (\<lambda>l. \<not> blank l) (to_come s') = ls" "set (to_come s') \<subseteq> set (to_come s)"
    by blast
  have "l \<in> set (filter (\<lambda>l. \<not> blank l) (to_come s))" unfolding Cons.hyps(2)[symmetric] by simp
  then have "x = f l" using Cons.prems(3) s'(2) by auto
  moreover have "yields decode s' (map (\<lambda>l. Inr (f l)) (filter (\<lambda>l. \<not> blank l) (to_come s')))"
    using Cons.hyps(1)[of s'] s' Cons.prems(2,3) by blast
  ultimately have "yields decode s (Inr (f l) # map (\<lambda>l. Inr (f l)) ls)"
    using yields.item[OF s'(1)] s'(4) by simp
  then show ?case unfolding Cons.hyps(2)[symmetric] by simp
qed

text \<open>C15: however the daemon's bytes are cut into frames, the stream yields every line that is not
  blank, decoded and in order, and then ends, provided no line exceeds 16 MiB, the connection
  holds and every line decodes.\<close>

theorem stream_yields_lines:
  assumes "list_all no_error body" and "\<forall>l\<in>set (lines_of (body_bytes body)). length l \<le> STREAM_MAX_LINE"
    and "\<forall>l\<in>set (lines_of (body_bytes body)). \<not> blank l \<longrightarrow> decode l = Inr (f l)"
  shows "yields decode (JsonState_init body) (map (\<lambda>l. Inr (f l)) (filter (\<lambda>l. \<not> blank l) (lines_of (body_bytes body))))"
proof -
  have "stream_ok (JsonState_init body)" "to_come (JsonState_init body) = lines_of (body_bytes body)"
    using assms(1) by (auto simp: stream_ok_def to_come_def JsonState_init_def LineBuffer_default_def buffer_ok_def
        buffer_held_def slice_def)
  then show ?thesis using yields_lines[of "JsonState_init body" decode f] assms(2,3) by simp
qed

theorem stream_yields_lines_witness:
  "yields (\<lambda>l. Inr (hd l)) (JsonState_init [FrameData [104], FrameTrailers, FrameData [105, 10, 32, 10, 106]])
     [Inr 104, Inr 106]"
proof -
  have "lines_of [104, 105, 10, 32, 10, 106] = [[104, 105], [32], [106]]"
    by (simp add: lines_of.simps)
  then show ?thesis
    using stream_yields_lines[of "[FrameData [104], FrameTrailers, FrameData [105, 10, 32, 10, 106]]" "\<lambda>l. Inr (hd l)" hd]
    by (simp add: STREAM_MAX_LINE_def is_ascii_whitespace_def)
qed

text \<open>An error is the last item: after a line that does not decode or is too long, or a broken
  connection, the stream is over and stays over.\<close>

theorem stream_error_is_last:
  assumes "next_item decode s = (Some (Inl e), s')"
  shows "js_done s' \<and> next_item decode s' = (None, s')"
proof -
  have "js_done s'" using assms
  proof (induction decode s arbitrary: s' rule: next_item.induct)
    case (1 decode s)
    note step = "1.prems"[unfolded next_item.simps[of decode s]]
    have live: "\<not> js_done s" using step by auto
    obtain r b' where n: "next_line (js_lines s) (js_eof s) = (r, b')" by (cases "next_line (js_lines s) (js_eof s)")
    show ?case
    proof (cases r)
      case (Some line)
      show ?thesis
      proof (cases "\<not> length line > STREAM_MAX_LINE \<and> blank line")
        case True
        then have "next_item decode (s\<lparr>js_lines := b'\<rparr>) = (Some (Inl e), s')" using step live n Some by simp
        then show ?thesis using "1.IH"(4)[OF live n[symmetric] Some refl] True by simp
      next
        case False
        then show ?thesis using step live n Some by (auto simp: Let_def split: if_splits sum.splits)
      qed
    next
      case None
      show ?thesis
      proof (cases "js_eof s \<or> pending b' > STREAM_MAX_LINE")
        case True
        then show ?thesis using step live n None by (auto simp: Let_def split: if_splits)
      next
        case False
        then show ?thesis
          using step live n None "1.IH"(1)[OF live n[symmetric] None refl]
            "1.IH"(2)[OF live n[symmetric] None refl] "1.IH"(3)[OF live n[symmetric] None refl]
          by (auto simp: Let_def split: list.splits Frame.splits)
      qed
    qed
  qed
  then show ?thesis by (simp add: next_item.simps)
qed

theorem stream_error_is_last_witness:
  "next_item (\<lambda>l. Inr l :: nat + u8 list) (JsonState_init [FrameError 7]) =
     (Some (Inl (BodyError 7)), snd (next_item (\<lambda>l. Inr l :: nat + u8 list) (JsonState_init [FrameError 7]))) \<and>
   js_done (snd (next_item (\<lambda>l. Inr l :: nat + u8 list) (JsonState_init [FrameError 7])))"
proof -
  have n: "next_item (\<lambda>l. Inr l :: nat + u8 list) (JsonState_init [FrameError 7]) =
     (Some (Inl (BodyError 7)), snd (next_item (\<lambda>l. Inr l :: nat + u8 list) (JsonState_init [FrameError 7])))"
    by (simp add: next_item.simps JsonState_init_def LineBuffer_default_def next_line_def pending_def)
  then show ?thesis using stream_error_is_last[OF n] by blast
qed

end
