(* ===== verification/Expand.thy ===== *)
theory Expand
  imports Text
begin

text \<open>
  Variables and quotes in build instructions, \<^verbatim>\<open>rustlet-build/src/expand.rs\<close>. The lexer's state is
  the text left and the nesting depth; the escape character and the variables are arguments. The
  mutual recursion runs on fuel, one more than the length of the text, which is always enough
  (\<^verbatim>\<open>ExpandCorrect\<close>).
\<close>

datatype ExpandError =
    MissingBrace
  | UnterminatedSingle
  | UnterminatedDouble
  | TooDeep
  | BadSubstitution
  | Unsupported string string
  | VarRequired string string
  | VarNotUnset string
  | VarNotEmpty string
  | OutOfFuel

record Piece =
  pc_ch :: char
  pc_splits :: bool

definition quoted :: "char \<Rightarrow> Piece" where
  "quoted c = \<lparr>pc_ch = c, pc_splits = False\<rparr>"

definition unquoted :: "string \<Rightarrow> Piece list" where
  "unquoted s = map (\<lambda>c. \<lparr>pc_ch = c, pc_splits = True\<rparr>) s"

definition is_name_start :: "char \<Rightarrow> bool" where
  "is_name_start c \<longleftrightarrow> is_alpha c \<or> c = CHR ''_''"

definition MAX_EXPANSION_DEPTH :: nat where
  "MAX_EXPANSION_DEPTH = 64"

type_synonym Lexed = "ExpandError + Piece list \<times> string"

text \<open>What is produced first, then what the rest gives.\<close>

definition then_more :: "Lexed \<Rightarrow> (string \<Rightarrow> Lexed) \<Rightarrow> Lexed" where
  "then_more r f = bind_result r (\<lambda>(out, rest). bind_result (f rest) (\<lambda>(more, rest'). Inr (out @ more, rest')))"

text \<open>\<open>name\<close>: the name and what follows it.\<close>

definition lex_name :: "string \<Rightarrow> string \<times> string" where
  "lex_name s = (takeWhile (\<lambda>c. is_alnum c \<or> c = CHR ''_'') s, dropWhile (\<lambda>c. is_alnum c \<or> c = CHR ''_'') s)"

fun lex_single_quoted :: "string \<Rightarrow> Lexed" where
  "lex_single_quoted [] = Inl UnterminatedSingle"
| "lex_single_quoted (c # cs) =
     (if c = CHR 0x27 then Inr ([], cs)
      else bind_result (lex_single_quoted cs) (\<lambda>(more, rest). Inr (quoted c # more, rest)))"

text \<open>The operator after a name: whether it had a colon, the character, and the rest.\<close>

definition lex_operator :: "string \<Rightarrow> string \<Rightarrow> ExpandError + (bool \<times> char) option \<times> string" where
  "lex_operator name s =
     (case s of
        [] \<Rightarrow> Inl MissingBrace
      | c # cs \<Rightarrow>
          if c = CHR ''}'' then Inr (None, cs)
          else if c = CHR '':'' then
            (case cs of
               [] \<Rightarrow> Inl MissingBrace
             | op # rest \<Rightarrow>
                 if op \<in> {CHR ''-'', CHR ''+'', CHR ''?''} then Inr (Some (True, op), rest)
                 else Inl (Unsupported name [CHR '':'', op]))
          else if c \<in> {CHR ''-'', CHR ''+'', CHR ''?''} then Inr (Some (False, c), cs)
          else Inl (Unsupported name [c]))"

text \<open>The match on the operator and the value, once the word is known.\<close>

definition choose_word :: "string \<Rightarrow> string option \<Rightarrow> bool \<Rightarrow> char \<Rightarrow> Piece list \<Rightarrow> ExpandError + Piece list" where
  "choose_word name val colon op word =
     (let unset = (case val of None \<Rightarrow> True | Some v \<Rightarrow> colon \<and> v = [])
      in if op = CHR ''-'' then
           (case val of Some v \<Rightarrow> if \<not> unset then Inr (unquoted v) else Inr word | None \<Rightarrow> Inr word)
         else if op = CHR ''+'' then (if unset then Inr [] else Inr word)
         else if \<not> unset then (case val of Some v \<Rightarrow> Inr (unquoted v) | None \<Rightarrow> Inr [])
         else let message = map pc_ch word
              in if message \<noteq> [] then Inl (VarRequired name message)
                 else case val of None \<Rightarrow> Inl (VarNotUnset name) | Some _ \<Rightarrow> Inl (VarNotEmpty name))"

text \<open>After the escape character: outside quotes, and in double quotes.\<close>

definition lex_escaped :: "string \<Rightarrow> Lexed" where
  "lex_escaped cs = (case cs of [] \<Rightarrow> Inr ([], []) | x # xs \<Rightarrow> Inr ([quoted x], xs))"

definition lex_double_escaped :: "char \<Rightarrow> string \<Rightarrow> Lexed" where
  "lex_double_escaped esc cs =
     (case cs of
        x # xs \<Rightarrow>
          if x = CHR 0x22 \<or> x = CHR ''$'' \<or> x = CHR 0x0A \<or> x = esc then Inr ([quoted x], xs)
          else Inr ([quoted esc], cs)
      | [] \<Rightarrow> Inr ([quoted esc], cs))"

definition requote :: "Lexed \<Rightarrow> Lexed" where
  "requote r = bind_result r (\<lambda>(ps, rest). Inr (map (\<lambda>p. quoted (pc_ch p)) ps, rest))"

function lex_until :: "nat \<Rightarrow> char \<Rightarrow> (string \<Rightarrow> string option) \<Rightarrow> nat \<Rightarrow> char option \<Rightarrow> string \<Rightarrow> Lexed"
  and lex_double_quoted :: "nat \<Rightarrow> char \<Rightarrow> (string \<Rightarrow> string option) \<Rightarrow> nat \<Rightarrow> string \<Rightarrow> Lexed"
  and lex_dollar :: "nat \<Rightarrow> char \<Rightarrow> (string \<Rightarrow> string option) \<Rightarrow> nat \<Rightarrow> string \<Rightarrow> Lexed"
  and lex_braced :: "nat \<Rightarrow> char \<Rightarrow> (string \<Rightarrow> string option) \<Rightarrow> nat \<Rightarrow> string \<Rightarrow> Lexed" where
  "lex_until fuel esc lookup depth stop s =
     (case fuel of 0 \<Rightarrow> Inl OutOfFuel | Suc n \<Rightarrow> case s of
        [] \<Rightarrow> (case stop of None \<Rightarrow> Inr ([], []) | Some _ \<Rightarrow> Inl MissingBrace)
      | c # cs \<Rightarrow>
          if Some c = stop then Inr ([], cs)
          else then_more
            (if c = CHR 0x27 then lex_single_quoted cs
             else if c = CHR 0x22 then lex_double_quoted n esc lookup depth cs
             else if c = CHR ''$'' then lex_dollar n esc lookup depth cs
             else if c = esc then lex_escaped cs
             else Inr ([\<lparr>pc_ch = c, pc_splits = True\<rparr>], cs))
            (lex_until n esc lookup depth stop))"
| "lex_double_quoted fuel esc lookup depth s =
     (case fuel of 0 \<Rightarrow> Inl OutOfFuel | Suc n \<Rightarrow> case s of
        [] \<Rightarrow> Inl UnterminatedDouble
      | c # cs \<Rightarrow>
          if c = CHR 0x22 then Inr ([], cs)
          else then_more
            (if c = CHR ''$'' then requote (lex_dollar n esc lookup depth cs)
             else if c = esc then lex_double_escaped esc cs
             else Inr ([quoted c], cs))
            (lex_double_quoted n esc lookup depth))"
| "lex_dollar fuel esc lookup depth s =
     (case fuel of 0 \<Rightarrow> Inl OutOfFuel | Suc n \<Rightarrow> case s of
        [] \<Rightarrow> Inr ([quoted (CHR ''$'')], [])
      | c # cs \<Rightarrow>
          if c = CHR ''{'' then
            (if depth = MAX_EXPANSION_DEPTH then Inl TooDeep else lex_braced n esc lookup (depth + 1) cs)
          else if is_name_start c then
            (let (name, rest) = lex_name s
             in Inr (unquoted (case lookup name of None \<Rightarrow> [] | Some v \<Rightarrow> v), rest))
          else Inr ([quoted (CHR ''$'')], s))"
| "lex_braced fuel esc lookup depth s =
     (case fuel of 0 \<Rightarrow> Inl OutOfFuel | Suc n \<Rightarrow> case s of
        [] \<Rightarrow> Inl MissingBrace
      | c # _ \<Rightarrow>
          if \<not> is_name_start c then Inl BadSubstitution
          else
            let (name, rest) = lex_name s; val = lookup name in
            bind_result (lex_operator name rest) (\<lambda>(op, rest).
              case op of
                None \<Rightarrow> Inr (unquoted (case val of None \<Rightarrow> [] | Some v \<Rightarrow> v), rest)
              | Some (colon, op) \<Rightarrow>
                  bind_result (lex_until n esc lookup depth (Some (CHR ''}'')) rest) (\<lambda>(word, rest).
                    bind_result (choose_word name val colon op word) (\<lambda>ps. Inr (ps, rest)))))"
  by pat_completeness auto
termination
  by (relation "measure (\<lambda>x. case x of
      Inl (Inl (n, _)) \<Rightarrow> n | Inl (Inr (n, _)) \<Rightarrow> n | Inr (Inl (n, _)) \<Rightarrow> n | Inr (Inr (n, _)) \<Rightarrow> n)") auto

declare lex_until.simps [simp del] lex_double_quoted.simps [simp del] lex_dollar.simps [simp del] lex_braced.simps [simp del]

definition Lexer_run :: "string \<Rightarrow> char \<Rightarrow> (string \<Rightarrow> string option) \<Rightarrow> ExpandError + Piece list" where
  "Lexer_run raw esc lookup =
     bind_result (lex_until (length raw + 1) esc lookup 0 None raw) (\<lambda>(ps, _). Inr ps)"

definition expand_word :: "string \<Rightarrow> char \<Rightarrow> (string \<Rightarrow> string option) \<Rightarrow> ExpandError + string" where
  "expand_word raw esc lookup = bind_result (Lexer_run raw esc lookup) (\<lambda>ps. Inr (map pc_ch ps))"

fun split_pieces :: "string \<Rightarrow> Piece list \<Rightarrow> string list" where
  "split_pieces current [] = (if current \<noteq> [] then [current] else [])"
| "split_pieces current (p # ps) =
     (if pc_splits p \<and> is_space (pc_ch p)
      then (if current \<noteq> [] then current # split_pieces [] ps else split_pieces [] ps)
      else split_pieces (current @ [pc_ch p]) ps)"

definition expand_words :: "string \<Rightarrow> char \<Rightarrow> (string \<Rightarrow> string option) \<Rightarrow> ExpandError + string list" where
  "expand_words raw esc lookup = bind_result (Lexer_run raw esc lookup) (\<lambda>ps. Inr (split_pieces [] ps))"

end
