(* ===== verification/ExpandCorrect.thy ===== *)
theory ExpandCorrect
  imports Expand
begin

text \<open>
  Correctness of the expansion of build instructions (theory \<^verbatim>\<open>Expand\<close>): the lexer ends, quoting and
  splitting are inverse.
\<close>

section \<open>Fuel\<close>

text \<open>A result that is not for want of fuel, and leaves no more text than there was.\<close>

definition fine :: "string \<Rightarrow> Lexed \<Rightarrow> bool" where
  "fine s r \<longleftrightarrow> r \<noteq> Inl OutOfFuel \<and> (\<forall>ps rest. r = Inr (ps, rest) \<longrightarrow> length rest \<le> length s)"

lemma fine_Inr [simp]: "fine s (Inr (ps, rest)) \<longleftrightarrow> length rest \<le> length s"
  by (simp add: fine_def)

lemma fine_Inl [simp]: "fine s (Inl e) \<longleftrightarrow> e \<noteq> OutOfFuel"
  by (simp add: fine_def)

lemma fine_Cons: "fine cs r \<Longrightarrow> fine (c # cs) r"
  by (auto simp: fine_def)

lemma fine_then_more:
  assumes "fine s r" and "\<And>rest. length rest \<le> length s \<Longrightarrow> fine rest (f rest)"
  shows "fine s (then_more r f)"
proof (cases r)
  case (Inr pr)
  obtain ps rest where pr: "pr = (ps, rest)" by (cases pr)
  then have "length rest \<le> length s" using assms(1) Inr by simp
  then show ?thesis
    using assms(2)[of rest] Inr pr by (cases "f rest") (auto simp: then_more_def fine_def)
qed (use assms(1) in \<open>auto simp: then_more_def\<close>)

lemma fine_requote: "fine s r \<Longrightarrow> fine s (requote r)"
  by (cases r) (auto simp: requote_def fine_def)

lemma fine_single_quoted: "fine s (lex_single_quoted s)"
proof (induction s)
  case (Cons c cs)
  then show ?case by (cases "lex_single_quoted cs") (auto simp: fine_def)
qed simp

lemma lex_name_length: "is_name_start c \<Longrightarrow> length (snd (lex_name (c # cs))) \<le> length cs"
  by (auto simp: lex_name_def is_name_start_def is_alnum_def length_dropWhile_le)

lemma lex_operator_length: "lex_operator name s = Inr (op, rest) \<Longrightarrow> length rest < length s"
  by (auto simp: lex_operator_def split: list.splits if_splits)

lemma lex_operator_fuel: "lex_operator name s \<noteq> Inl OutOfFuel"
  by (auto simp: lex_operator_def split: list.splits)

lemma choose_word_fuel: "choose_word name val colon op word \<noteq> Inl OutOfFuel"
  by (auto simp: choose_word_def Let_def split: option.splits)

text \<open>One step of each function, given that the calls it makes are fine.\<close>

lemma fine_until_step:
  assumes "\<And>s. length s < n \<Longrightarrow> fine s (lex_until n esc lookup depth stop s)"
    and "\<And>s. length s < n \<Longrightarrow> fine s (lex_double_quoted n esc lookup depth s)"
    and "\<And>s. length s < n \<Longrightarrow> fine s (lex_dollar n esc lookup depth s)"
    and "length s < Suc n"
  shows "fine s (lex_until (Suc n) esc lookup depth stop s)"
proof (cases s)
  case (Cons c cs)
  have "fine cs (if c = CHR 0x27 then lex_single_quoted cs
         else if c = CHR 0x22 then lex_double_quoted n esc lookup depth cs
         else if c = CHR ''$'' then lex_dollar n esc lookup depth cs
         else if c = esc then lex_escaped cs
         else Inr ([\<lparr>pc_ch = c, pc_splits = True\<rparr>], cs))" (is "fine cs ?first")
    using assms Cons fine_single_quoted by (auto simp: lex_escaped_def split: list.splits)
  then have "fine cs (then_more ?first (lex_until n esc lookup depth stop))"
    by (rule fine_then_more) (use assms Cons in auto)
  then show ?thesis using Cons fine_Cons by (subst lex_until.simps) auto
qed (simp add: lex_until.simps split: option.split)

lemma fine_double_step:
  assumes "\<And>s. length s < n \<Longrightarrow> fine s (lex_double_quoted n esc lookup depth s)"
    and "\<And>s. length s < n \<Longrightarrow> fine s (lex_dollar n esc lookup depth s)"
    and "length s < Suc n"
  shows "fine s (lex_double_quoted (Suc n) esc lookup depth s)"
proof (cases s)
  case (Cons c cs)
  have "fine cs (if c = CHR ''$'' then requote (lex_dollar n esc lookup depth cs)
         else if c = esc then lex_double_escaped esc cs else Inr ([quoted c], cs))" (is "fine cs ?first")
    using assms(3) Cons fine_requote[OF assms(2), of cs] by (auto simp: lex_double_escaped_def split: list.splits)
  then have "fine cs (then_more ?first (lex_double_quoted n esc lookup depth))"
    by (rule fine_then_more) (use assms Cons in auto)
  then show ?thesis using Cons fine_Cons by (subst lex_double_quoted.simps) auto
qed (simp add: lex_double_quoted.simps)

lemma fine_dollar_step:
  assumes "\<And>s. length s < n \<Longrightarrow> fine s (lex_braced n esc lookup (depth + 1) s)" and "length s < Suc n"
  shows "fine s (lex_dollar (Suc n) esc lookup depth s)"
  using assms lex_name_length
  by (subst lex_dollar.simps) (auto intro!: fine_Cons simp: split_beta le_SucI split: list.splits)

lemma fine_braced_step:
  assumes "\<And>s. length s < n \<Longrightarrow> fine s (lex_until n esc lookup depth (Some (CHR ''}'')) s)" and "length s < Suc n"
  shows "fine s (lex_braced (Suc n) esc lookup depth s)"
proof (cases "\<exists>c cs. s = c # cs \<and> is_name_start c")
  case True
  then obtain c cs where s: "s = c # cs" "is_name_start c" by blast
  obtain name rest where nr: "lex_name s = (name, rest)" by (cases "lex_name s")
  have rest: "length rest \<le> length cs" using lex_name_length[OF s(2), of cs] nr s(1) by simp
  show ?thesis
  proof (cases "lex_operator name rest")
    case (Inl e)
    then show ?thesis using s nr lex_operator_fuel[of name rest] by (subst lex_braced.simps) auto
  next
    case (Inr or)
    obtain op r2 where or: "or = (op, r2)" by (cases or)
    have r2: "length r2 < length rest" using lex_operator_length Inr or by blast
    have "fine r2 (lex_until n esc lookup depth (Some (CHR ''}'')) r2)" using assms r2 rest s by simp
    then show ?thesis
      using s nr Inr or r2 rest choose_word_fuel
      by (subst lex_braced.simps)
        (cases "lex_until n esc lookup depth (Some (CHR ''}'')) r2";
          auto simp: Let_def fine_def bind_result_def split: sum.splits option.splits)
  qed
qed (auto simp: lex_braced.simps split: list.splits)

lemma lex_fine:
  "(\<forall>s depth stop. length s < n \<longrightarrow> fine s (lex_until n esc lookup depth stop s)) \<and>
   (\<forall>s depth. length s < n \<longrightarrow> fine s (lex_double_quoted n esc lookup depth s)) \<and>
   (\<forall>s depth. length s < n \<longrightarrow> fine s (lex_dollar n esc lookup depth s)) \<and>
   (\<forall>s depth. length s < n \<longrightarrow> fine s (lex_braced n esc lookup depth s))"
proof (induction n)
  case (Suc n)
  then show ?case by (blast intro: fine_until_step fine_double_step fine_dollar_step fine_braced_step)
qed simp

section \<open>Plain text, quotes and expressions\<close>

lemma lex_until_stop: "lex_until (Suc n) esc lookup depth (Some c) (c # r) = Inr ([], r)"
  by (subst lex_until.simps) simp

lemma lex_until_end: "lex_until (Suc n) esc lookup depth None [] = Inr ([], [])"
  by (subst lex_until.simps) simp

lemma lex_single_quoted_text:
  "CHR 0x27 \<notin> set w \<Longrightarrow> lex_single_quoted (w @ CHR 0x27 # r) = Inr (map quoted w, r)"
  by (induction w) auto

lemma lex_until_single_quoted:
  "CHR 0x27 \<notin> set w \<Longrightarrow> lex_until (Suc n) esc lookup depth None (CHR 0x27 # w @ CHR 0x27 # r) =
    then_more (Inr (map quoted w, r)) (lex_until n esc lookup depth None)"
  by (subst lex_until.simps) (simp add: lex_single_quoted_text)

definition variable_name :: "string \<Rightarrow> bool" where
  "variable_name n \<longleftrightarrow> n \<noteq> [] \<and> is_name_start (hd n) \<and> list_all (\<lambda>c. is_alnum c \<or> c = CHR ''_'') n"

lemma lex_name_text:
  "variable_name n \<Longrightarrow> \<not> (is_alnum c \<or> c = CHR ''_'') \<Longrightarrow> lex_name (n @ c # r) = (n, c # r)"
  by (auto simp: variable_name_def lex_name_def list_all_iff takeWhile_append dropWhile_append)

section \<open>Properties\<close>

lemma Lexer_run_fuel: "Lexer_run raw esc lookup \<noteq> Inl OutOfFuel"
  using lex_fine[of "length raw + 1" esc lookup] 
  by (auto simp: Lexer_run_def fine_def bind_result_def split: sum.splits)

text \<open>The lexer ends on every text, whatever quotes and braces it leaves open: the fuel of one
  more than its length is never used up, so each result is an expansion or one of the errors of the
  source.\<close>

theorem expansion_ends:
  "expand_word raw esc lookup \<noteq> Inl OutOfFuel \<and> expand_words raw esc lookup \<noteq> Inl OutOfFuel"
  using Lexer_run_fuel[of raw esc lookup]
  by (auto simp: expand_word_def expand_words_def bind_result_def split: sum.splits)

text \<open>A word in single quotes.\<close>

definition single_quote :: "string \<Rightarrow> string" where
  "single_quote w = CHR 0x27 # w @ [CHR 0x27]"

lemma split_quoted: "split_pieces current (map quoted w @ ps) = split_pieces (current @ w) ps"
  by (induction w arbitrary: current) (auto simp: quoted_def)

fun quoted_pieces :: "string list \<Rightarrow> Piece list" where
  "quoted_pieces [] = []"
| "quoted_pieces [w] = map quoted w"
| "quoted_pieces (w # ws) = map quoted w @ \<lparr>pc_ch = CHR '' '', pc_splits = True\<rparr> # quoted_pieces ws"

lemma split_quoted_pieces:
  "list_all (\<lambda>w. w \<noteq> []) ws \<Longrightarrow> split_pieces [] (quoted_pieces ws) = ws"
  by (induction ws rule: quoted_pieces.induct)
     (use split_quoted[of "[]" _ "[]"] in \<open>auto simp: split_quoted is_space_def\<close>)

lemma lex_quoted_words:
  assumes "list_all (\<lambda>w. CHR 0x27 \<notin> set w) ws" "esc \<noteq> CHR 0x27" "esc \<noteq> CHR '' ''"
    and "length (join_with '' '' (map single_quote ws)) < n"
  shows "lex_until n esc lookup depth None (join_with '' '' (map single_quote ws)) = Inr (quoted_pieces ws, [])"
  using assms(1,4)
proof (induction ws arbitrary: n rule: quoted_pieces.induct)
  case 1
  then show ?case by (cases n) (auto simp: lex_until_end)
next
  case (2 w)
  obtain m where m: "n = Suc (Suc m)" using 2 by (cases n; cases "n - 1") (auto simp: single_quote_def)
  show ?case
    using 2 lex_until_single_quoted[of w "Suc m" esc lookup depth "[]"]
    by (simp add: m single_quote_def then_more_def lex_until_end)
next
  case (3 w v ws)
  let ?rest = "join_with '' '' (map single_quote (v # ws))"
  obtain m where m: "n = Suc (Suc m)" using 3 by (cases n; cases "n - 1") (auto simp: single_quote_def)
  have rest: "lex_until m esc lookup depth None ?rest = Inr (quoted_pieces (v # ws), [])"
    using "3.IH"[of m] "3.prems" single_quote_def[of w] by (simp add: m)
  have "lex_until (Suc m) esc lookup depth None (CHR '' '' # ?rest) =
      Inr (\<lparr>pc_ch = CHR '' '', pc_splits = True\<rparr> # quoted_pieces (v # ws), [])"
    using rest assms(3) by (subst lex_until.simps) (simp add: then_more_def)
  then show ?case
    using "3.prems" lex_until_single_quoted[of w "Suc m" esc lookup depth "CHR '' '' # ?rest"]
    by (simp add: m single_quote_def[of w] then_more_def)
qed

text \<open>Words written in single quotes come back as they are, one by one, whatever variables are
  set and whichever escape character is in force: quoting is the inverse of splitting.\<close>

theorem words_quoted_roundtrip:
  assumes "list_all (\<lambda>w. w \<noteq> [] \<and> CHR 0x27 \<notin> set w) ws" and "esc \<in> {CHR 0x5C, CHR 0x60}"
  shows "expand_words (join_with '' '' (map single_quote ws)) esc lookup = Inr ws"
proof -
  have "list_all (\<lambda>w. w \<noteq> []) ws" "list_all (\<lambda>w. CHR 0x27 \<notin> set w) ws"
    using assms(1) by (auto simp: list_all_iff)
  then show ?thesis
    using assms(2) lex_quoted_words[of ws esc "length (join_with '' '' (map single_quote ws)) + 1" lookup 0]
    by (auto simp: expand_words_def Lexer_run_def split_quoted_pieces)
qed

theorem words_quoted_roundtrip_witness:
  "expand_words (join_with '' '' (map single_quote [''a b'', ''$HOME'', ''say \"hi\"''])) (CHR 0x5C) (\<lambda>_. Some ''x'') =
     Inr [''a b'', ''$HOME'', ''say \"hi\"'']"
  by (rule words_quoted_roundtrip) simp_all

end
