(* ===== verification/ExpandGrammar.thy ===== *)
theory ExpandGrammar
  imports ExpandCorrect
begin

text \<open>
  What the text of an instruction means: a grammar of quotes, escapes and expressions, its meaning as the documentation of
  \<^verbatim>\<open>rustlet-build/src/expand.rs\<close> gives it, and that the lexer of theory \<^verbatim>\<open>Expand\<close> finds that meaning in every text of the grammar.
\<close>

section \<open>Syntax and meaning\<close>

text \<open>A text as the documentation describes it: characters that stand for themselves, escaped ones, the two kinds of
  quotes, and expressions. \<open>DKept\<close> is the escape character in double quotes before a character it does not escape,
  \<open>EDollar\<close> a \<open>$\<close> that begins no expression.\<close>

datatype Part = PChar char | PEscaped char | PSingle string | PDouble "DPart list" | PExpr Expr
  and DPart = DChar char | DEscaped char | DKept char | DExpr Expr
  and Expr = EVar string | EBraced string | EChoice string bool char "Part list" | EDollar

fun print_parts :: "char \<Rightarrow> Part list \<Rightarrow> string"
  and print_part :: "char \<Rightarrow> Part \<Rightarrow> string"
  and print_dparts :: "char \<Rightarrow> DPart list \<Rightarrow> string"
  and print_dpart :: "char \<Rightarrow> DPart \<Rightarrow> string"
  and print_expr :: "char \<Rightarrow> Expr \<Rightarrow> string" where
  "print_parts esc [] = []"
| "print_parts esc (p # ps) = print_part esc p @ print_parts esc ps"
| "print_part esc (PChar c) = [c]"
| "print_part esc (PEscaped c) = [esc, c]"
| "print_part esc (PSingle w) = CHR 0x27 # w @ [CHR 0x27]"
| "print_part esc (PDouble ds) = CHR 0x22 # print_dparts esc ds @ [CHR 0x22]"
| "print_part esc (PExpr e) = CHR ''$'' # print_expr esc e"
| "print_dparts esc [] = []"
| "print_dparts esc (d # ds) = print_dpart esc d @ print_dparts esc ds"
| "print_dpart esc (DChar c) = [c]"
| "print_dpart esc (DEscaped c) = [esc, c]"
| "print_dpart esc (DKept c) = [esc, c]"
| "print_dpart esc (DExpr e) = CHR ''$'' # print_expr esc e"
| "print_expr esc (EVar name) = name"
| "print_expr esc (EBraced name) = CHR ''{'' # name @ ''}''"
| "print_expr esc (EChoice name colon op w) =
     CHR ''{'' # name @ (if colon then '':'' else []) @ op # print_parts esc w @ ''}''"
| "print_expr esc EDollar = []"

text \<open>The table of operators: whether the variable counts as set, and what the expression gives for each.\<close>

definition choice :: "string \<Rightarrow> string option \<Rightarrow> bool \<Rightarrow> char \<Rightarrow> Piece list \<Rightarrow> ExpandError + Piece list" where
  "choice name val colon op word =
     (let present = (val \<noteq> None \<and> (colon \<longrightarrow> val \<noteq> Some []))
      in if op = CHR ''-'' then Inr (if present then unquoted (the val) else word)
         else if op = CHR ''+'' then Inr (if present then word else [])
         else if present then Inr (unquoted (the val))
         else Inl (if word \<noteq> [] then VarRequired name (map pc_ch word)
                   else if val = None then VarNotUnset name else VarNotEmpty name))"

fun mean_parts :: "char \<Rightarrow> (string \<Rightarrow> string option) \<Rightarrow> Part list \<Rightarrow> ExpandError + Piece list"
  and mean_part :: "char \<Rightarrow> (string \<Rightarrow> string option) \<Rightarrow> Part \<Rightarrow> ExpandError + Piece list"
  and mean_dparts :: "char \<Rightarrow> (string \<Rightarrow> string option) \<Rightarrow> DPart list \<Rightarrow> ExpandError + Piece list"
  and mean_dpart :: "char \<Rightarrow> (string \<Rightarrow> string option) \<Rightarrow> DPart \<Rightarrow> ExpandError + Piece list"
  and mean_expr :: "char \<Rightarrow> (string \<Rightarrow> string option) \<Rightarrow> Expr \<Rightarrow> ExpandError + Piece list" where
  "mean_parts esc lookup [] = Inr []"
| "mean_parts esc lookup (p # ps) =
     bind_result (mean_part esc lookup p) (\<lambda>a. bind_result (mean_parts esc lookup ps) (\<lambda>b. Inr (a @ b)))"
| "mean_part esc lookup (PChar c) = Inr (unquoted [c])"
| "mean_part esc lookup (PEscaped c) = Inr [quoted c]"
| "mean_part esc lookup (PSingle w) = Inr (map quoted w)"
| "mean_part esc lookup (PDouble ds) = mean_dparts esc lookup ds"
| "mean_part esc lookup (PExpr e) = mean_expr esc lookup e"
| "mean_dparts esc lookup [] = Inr []"
| "mean_dparts esc lookup (d # ds) =
     bind_result (mean_dpart esc lookup d) (\<lambda>a. bind_result (mean_dparts esc lookup ds) (\<lambda>b. Inr (a @ b)))"
| "mean_dpart esc lookup (DChar c) = Inr [quoted c]"
| "mean_dpart esc lookup (DEscaped c) = Inr [quoted c]"
| "mean_dpart esc lookup (DKept c) = Inr [quoted esc, quoted c]"
| "mean_dpart esc lookup (DExpr e) = bind_result (mean_expr esc lookup e) (\<lambda>ps. Inr (map (\<lambda>p. quoted (pc_ch p)) ps))"
| "mean_expr esc lookup (EVar name) = Inr (unquoted (case lookup name of None \<Rightarrow> [] | Some v \<Rightarrow> v))"
| "mean_expr esc lookup (EBraced name) = Inr (unquoted (case lookup name of None \<Rightarrow> [] | Some v \<Rightarrow> v))"
| "mean_expr esc lookup (EChoice name colon op w) =
     bind_result (mean_parts esc lookup w) (choice name (lookup name) colon op)"
| "mean_expr esc lookup EDollar = Inr [quoted (CHR ''$'')]"

fun depth_parts :: "Part list \<Rightarrow> nat"
  and depth_part :: "Part \<Rightarrow> nat"
  and depth_dparts :: "DPart list \<Rightarrow> nat"
  and depth_dpart :: "DPart \<Rightarrow> nat"
  and depth_expr :: "Expr \<Rightarrow> nat" where
  "depth_parts [] = 0"
| "depth_parts (p # ps) = max (depth_part p) (depth_parts ps)"
| "depth_part (PDouble ds) = depth_dparts ds"
| "depth_part (PExpr e) = depth_expr e"
| "depth_part _ = 0"
| "depth_dparts [] = 0"
| "depth_dparts (d # ds) = max (depth_dpart d) (depth_dparts ds)"
| "depth_dpart (DExpr e) = depth_expr e"
| "depth_dpart _ = 0"
| "depth_expr (EBraced name) = 1"
| "depth_expr (EChoice name colon op w) = Suc (depth_parts w)"
| "depth_expr _ = 0"

text \<open>Where a part ends: a name at a character that is not of a name, and a \<open>$\<close> at one that begins no expression.\<close>

fun ends_at :: "Expr \<Rightarrow> string \<Rightarrow> bool" where
  "ends_at (EVar name) s \<longleftrightarrow> s = [] \<or> \<not> (is_alnum (hd s) \<or> hd s = CHR ''_'')"
| "ends_at EDollar s \<longleftrightarrow> s = [] \<or> hd s \<noteq> CHR ''{'' \<and> \<not> is_name_start (hd s)"
| "ends_at _ s \<longleftrightarrow> True"

fun part_ends :: "Part \<Rightarrow> string \<Rightarrow> bool" where
  "part_ends (PExpr e) s = ends_at e s"
| "part_ends _ s = True"

fun dpart_ends :: "DPart \<Rightarrow> string \<Rightarrow> bool" where
  "dpart_ends (DExpr e) s = ends_at e s"
| "dpart_ends _ s = True"

text \<open>What can be written so. Inside braces, a brace that closes has to be quoted or escaped.\<close>

fun ok_parts :: "bool \<Rightarrow> char \<Rightarrow> Part list \<Rightarrow> bool"
  and ok_part :: "bool \<Rightarrow> char \<Rightarrow> Part \<Rightarrow> bool"
  and ok_dparts :: "char \<Rightarrow> DPart list \<Rightarrow> bool"
  and ok_dpart :: "char \<Rightarrow> DPart \<Rightarrow> bool"
  and ok_expr :: "char \<Rightarrow> Expr \<Rightarrow> bool" where
  "ok_parts inside esc [] \<longleftrightarrow> True"
| "ok_parts inside esc (p # ps) \<longleftrightarrow> ok_part inside esc p \<and> part_ends p (print_parts esc ps) \<and> ok_parts inside esc ps"
| "ok_part inside esc (PChar c) \<longleftrightarrow> c \<notin> {CHR 0x27, CHR 0x22, CHR ''$'', esc} \<and> (inside \<longrightarrow> c \<noteq> CHR ''}'')"
| "ok_part inside esc (PEscaped c) \<longleftrightarrow> True"
| "ok_part inside esc (PSingle w) \<longleftrightarrow> CHR 0x27 \<notin> set w"
| "ok_part inside esc (PDouble ds) \<longleftrightarrow> ok_dparts esc ds"
| "ok_part inside esc (PExpr e) \<longleftrightarrow> ok_expr esc e"
| "ok_dparts esc [] \<longleftrightarrow> True"
| "ok_dparts esc (d # ds) \<longleftrightarrow> ok_dpart esc d \<and> dpart_ends d (print_dparts esc ds) \<and> ok_dparts esc ds"
| "ok_dpart esc (DChar c) \<longleftrightarrow> c \<notin> {CHR 0x22, CHR ''$'', esc}"
| "ok_dpart esc (DEscaped c) \<longleftrightarrow> c \<in> {CHR 0x22, CHR ''$'', CHR 0x0A, esc}"
| "ok_dpart esc (DKept c) \<longleftrightarrow> c \<notin> {CHR 0x22, CHR ''$'', CHR 0x0A, esc}"
| "ok_dpart esc (DExpr e) \<longleftrightarrow> ok_expr esc e"
| "ok_expr esc (EVar name) \<longleftrightarrow> variable_name name"
| "ok_expr esc (EBraced name) \<longleftrightarrow> variable_name name"
| "ok_expr esc (EChoice name colon op w) \<longleftrightarrow> variable_name name \<and> op \<in> {CHR ''-'', CHR ''+'', CHR ''?''} \<and> ok_parts True esc w"
| "ok_expr esc EDollar \<longleftrightarrow> True"

section \<open>The lexer follows it\<close>

abbreviation given :: "ExpandError + Piece list \<Rightarrow> string \<Rightarrow> Lexed" where
  "given m r \<equiv> bind_result m (\<lambda>v. Inr (v, r))"

abbreviation stop_of :: "bool \<Rightarrow> char option" where
  "stop_of inside \<equiv> (if inside then Some (CHR ''}'') else None)"

lemma then_more_given:
  "then_more (given (bind_result m (\<lambda>a. bind_result k (\<lambda>b. Inr (a @ b)))) r) f =
    then_more (given m s) (\<lambda>_. then_more (given k r) f)"
proof (cases m)
  case (Inr a)
  then show ?thesis
    by (cases k; cases "f r") (auto simp: then_more_def bind_result_def split: sum.splits)
qed (simp add: then_more_def)

lemma then_more_cong: "(\<And>v. m = Inr v \<Longrightarrow> f r = g r) \<Longrightarrow> then_more (given m r) f = then_more (given m r) g"
  by (cases m) (simp_all add: then_more_def)

lemma choose_word_choice: "choose_word name val colon op word = choice name val colon op word"
  by (cases val) (auto simp: choose_word_def choice_def Let_def)

lemma lex_until_part:
  assumes "esc \<in> {CHR 0x5C, CHR 0x60}" "ok_part inside esc p"
    and double: "\<And>ds. p = PDouble ds \<Longrightarrow>
      lex_double_quoted n esc lookup depth (print_dparts esc ds @ CHR 0x22 # r) = given (mean_dparts esc lookup ds) r"
    and expr: "\<And>e. p = PExpr e \<Longrightarrow> lex_dollar n esc lookup depth (print_expr esc e @ r) = given (mean_expr esc lookup e) r"
  shows "lex_until (Suc n) esc lookup depth (stop_of inside) (print_part esc p @ r) =
    then_more (given (mean_part esc lookup p) r) (lex_until n esc lookup depth (stop_of inside))"
proof (cases p)
  case (PChar c)
  with assms(2) show ?thesis by (subst lex_until.simps) (auto simp: unquoted_def)
next
  case (PEscaped c)
  with assms(1) show ?thesis by (subst lex_until.simps) (auto simp: lex_escaped_def)
next
  case (PSingle w)
  with assms(2) show ?thesis by (subst lex_until.simps) (simp add: lex_single_quoted_text)
next
  case (PDouble ds)
  with double[OF PDouble] show ?thesis by (subst lex_until.simps) simp
next
  case (PExpr e)
  with expr[OF PExpr] show ?thesis by (subst lex_until.simps) simp
qed

definition dweight :: "DPart \<Rightarrow> nat" where
  "dweight d = (case d of DKept _ \<Rightarrow> 2 | _ \<Rightarrow> 1)"

lemma lex_double_part:
  assumes "esc \<in> {CHR 0x5C, CHR 0x60}" "ok_dpart esc d"
    and expr: "\<And>e. d = DExpr e \<Longrightarrow> lex_dollar (n - 1) esc lookup depth (print_expr esc e @ r) = given (mean_expr esc lookup e) r"
    and "dweight d \<le> n"
  shows "lex_double_quoted n esc lookup depth (print_dpart esc d @ r) =
    then_more (given (mean_dpart esc lookup d) r) (lex_double_quoted (n - dweight d) esc lookup depth)"
proof (cases d)
  case (DChar c)
  with assms(2,4) show ?thesis by (cases n; subst lex_double_quoted.simps) (auto simp: dweight_def)
next
  case (DEscaped c)
  with assms(1,2,4) show ?thesis by (cases n; subst lex_double_quoted.simps) (auto simp: dweight_def lex_double_escaped_def)
next
  case (DKept c)
  then obtain m where m: "n = Suc (Suc m)" using assms(4) by (cases n; cases "n - 1") (auto simp: dweight_def)
  have "lex_double_quoted (Suc m) esc lookup depth (c # r) = then_more (Inr ([quoted c], r)) (lex_double_quoted m esc lookup depth)"
    using assms(2) DKept by (subst lex_double_quoted.simps) auto
  then show ?thesis
    using assms(1,2) DKept unfolding m
    by (subst lex_double_quoted.simps) (cases "lex_double_quoted m esc lookup depth r"; auto simp: dweight_def lex_double_escaped_def then_more_def)
next
  case (DExpr e)
  then obtain m where m: "n = Suc m" using assms(4) by (cases n) (auto simp: dweight_def)
  have "lex_dollar m esc lookup depth (print_expr esc e @ r) = given (mean_expr esc lookup e) r" using expr[OF DExpr] m by simp
  then show ?thesis
    unfolding m DExpr
    by (subst lex_double_quoted.simps) (cases "mean_expr esc lookup e"; simp add: dweight_def requote_def)
qed

lemma lex_name_ends:
  "variable_name n \<Longrightarrow> s = [] \<or> \<not> (is_alnum (hd s) \<or> hd s = CHR ''_'') \<Longrightarrow> lex_name (n @ s) = (n, s)"
  by (cases s) (auto simp: lex_name_text, auto simp: variable_name_def lex_name_def list_all_iff takeWhile_eq_all_conv dropWhile_eq_Nil_conv)

lemma variable_name_start: "variable_name n \<Longrightarrow> \<exists>c cs. n = c # cs \<and> is_name_start c \<and> c \<noteq> CHR ''{''"
  by (cases n) (auto simp: variable_name_def is_name_start_def is_alpha_def)

lemma not_name_char: "c \<in> {CHR ''-'', CHR ''+'', CHR ''?'', CHR '':'', CHR ''}''} \<Longrightarrow> \<not> (is_alnum c \<or> c = CHR ''_'')"
  by (auto simp: is_alnum_def is_alpha_def is_digit_def)

lemma lex_braced_choice:
  assumes "variable_name name" "op \<in> {CHR ''-'', CHR ''+'', CHR ''?''}"
    and word: "lex_until n esc lookup depth (Some (CHR ''}'')) (w @ CHR ''}'' # r) = given m r"
  shows "lex_braced (Suc n) esc lookup depth (name @ (if colon then '':'' else []) @ op # w @ CHR ''}'' # r) =
    given (bind_result m (choice name (lookup name) colon op)) r"
proof -
  let ?s = "(if colon then '':'' else []) @ op # w @ CHR ''}'' # r"
  have name: "lex_name (name @ ?s) = (name, ?s)"
    by (rule lex_name_ends[OF assms(1)]) (use not_name_char[of op] not_name_char[of "CHR '':''"] assms(2) in auto)
  have oper: "lex_operator name ?s = Inr (Some (colon, op), w @ CHR ''}'' # r)"
    using assms(2) by (auto simp: lex_operator_def)
  obtain c cs where c: "name = c # cs" "is_name_start c" using variable_name_start[OF assms(1)] by blast
  show ?thesis
    using name oper word c by (subst lex_braced.simps) (cases m; simp add: choose_word_choice)
qed

lemma lex_braced_plain:
  assumes "variable_name name"
  shows "lex_braced (Suc n) esc lookup depth (name @ CHR ''}'' # r) =
    Inr (unquoted (case lookup name of None \<Rightarrow> [] | Some v \<Rightarrow> v), r)"
proof -
  have name: "lex_name (name @ CHR ''}'' # r) = (name, CHR ''}'' # r)"
    by (rule lex_name_ends[OF assms]) (use not_name_char[of "CHR ''}''"] in auto)
  obtain c cs where c: "name = c # cs" "is_name_start c" using variable_name_start[OF assms] by blast
  show ?thesis using name c by (subst lex_braced.simps) (simp add: lex_operator_def)
qed

lemma ends_append: "ends_at e s \<Longrightarrow> r = [] \<or> hd r \<in> {CHR ''}'', CHR 0x22} \<Longrightarrow> ends_at e (s @ r)"
  by (cases e; cases s; cases r) (auto simp: is_alnum_def is_alpha_def is_digit_def is_name_start_def)

lemma part_ends_append: "part_ends p s \<Longrightarrow> r = [] \<or> hd r \<in> {CHR ''}'', CHR 0x22} \<Longrightarrow> part_ends p (s @ r)"
  by (cases p) (simp_all add: ends_append)

lemma dpart_ends_append: "dpart_ends d s \<Longrightarrow> r = [] \<or> hd r \<in> {CHR ''}'', CHR 0x22} \<Longrightarrow> dpart_ends d (s @ r)"
  by (cases d) (simp_all add: ends_append)

lemma print_part_length: "0 < length (print_part esc p)"
  by (cases p) simp_all

lemma print_dpart_length: "dweight d \<le> length (print_dpart esc d)"
  by (cases d) (simp_all add: dweight_def)

definition parts_lex :: "char \<Rightarrow> (string \<Rightarrow> string option) \<Rightarrow> Part list \<Rightarrow> bool" where
  "parts_lex esc lookup ps \<longleftrightarrow> (\<forall>n depth inside r. ok_parts inside esc ps \<longrightarrow> depth + depth_parts ps \<le> MAX_EXPANSION_DEPTH \<longrightarrow>
     length (print_parts esc ps @ r) < n \<longrightarrow> (r = [] \<or> hd r \<in> {CHR ''}'', CHR 0x22}) \<longrightarrow>
     lex_until n esc lookup depth (stop_of inside) (print_parts esc ps @ r) =
       then_more (given (mean_parts esc lookup ps) r) (lex_until (n - length ps) esc lookup depth (stop_of inside)))"

definition dparts_lex :: "char \<Rightarrow> (string \<Rightarrow> string option) \<Rightarrow> DPart list \<Rightarrow> bool" where
  "dparts_lex esc lookup ds \<longleftrightarrow> (\<forall>n depth r. ok_dparts esc ds \<longrightarrow> depth + depth_dparts ds \<le> MAX_EXPANSION_DEPTH \<longrightarrow>
     length (print_dparts esc ds @ CHR 0x22 # r) < n \<longrightarrow>
     lex_double_quoted n esc lookup depth (print_dparts esc ds @ CHR 0x22 # r) = given (mean_dparts esc lookup ds) r)"

definition expr_lex :: "char \<Rightarrow> (string \<Rightarrow> string option) \<Rightarrow> Expr \<Rightarrow> bool" where
  "expr_lex esc lookup e \<longleftrightarrow> (\<forall>n depth r. ok_expr esc e \<longrightarrow> depth + depth_expr e \<le> MAX_EXPANSION_DEPTH \<longrightarrow>
     length (print_expr esc e @ r) < n \<longrightarrow> ends_at e r \<longrightarrow>
     lex_dollar n esc lookup depth (print_expr esc e @ r) = given (mean_expr esc lookup e) r)"

definition part_lex :: "char \<Rightarrow> (string \<Rightarrow> string option) \<Rightarrow> Part \<Rightarrow> bool" where
  "part_lex esc lookup p \<longleftrightarrow> (case p of PDouble ds \<Rightarrow> dparts_lex esc lookup ds | PExpr e \<Rightarrow> expr_lex esc lookup e | _ \<Rightarrow> True)"

definition dpart_lex :: "char \<Rightarrow> (string \<Rightarrow> string option) \<Rightarrow> DPart \<Rightarrow> bool" where
  "dpart_lex esc lookup d \<longleftrightarrow> (case d of DExpr e \<Rightarrow> expr_lex esc lookup e | _ \<Rightarrow> True)"

lemma length_parts: "length ps \<le> length (print_parts esc ps)"
proof (induction ps)
  case (Cons p ps)
  then show ?case using print_part_length[of esc p] by (simp del: length_greater_0_conv)
qed simp

lemma parts_lexD:
  "parts_lex esc lookup ps \<Longrightarrow> ok_parts inside esc ps \<Longrightarrow> depth + depth_parts ps \<le> MAX_EXPANSION_DEPTH \<Longrightarrow>
   length (print_parts esc ps @ r) < n \<Longrightarrow> r = [] \<or> hd r \<in> {CHR ''}'', CHR 0x22} \<Longrightarrow>
   lex_until n esc lookup depth (stop_of inside) (print_parts esc ps @ r) =
     then_more (given (mean_parts esc lookup ps) r) (lex_until (n - length ps) esc lookup depth (stop_of inside))"
  unfolding parts_lex_def by blast

lemma dparts_lexD:
  "dparts_lex esc lookup ds \<Longrightarrow> ok_dparts esc ds \<Longrightarrow> depth + depth_dparts ds \<le> MAX_EXPANSION_DEPTH \<Longrightarrow>
   length (print_dparts esc ds @ CHR 0x22 # r) < n \<Longrightarrow>
   lex_double_quoted n esc lookup depth (print_dparts esc ds @ CHR 0x22 # r) = given (mean_dparts esc lookup ds) r"
  unfolding dparts_lex_def by blast

lemma expr_lexD:
  "expr_lex esc lookup e \<Longrightarrow> ok_expr esc e \<Longrightarrow> depth + depth_expr e \<le> MAX_EXPANSION_DEPTH \<Longrightarrow>
   length (print_expr esc e @ r) < n \<Longrightarrow> ends_at e r \<Longrightarrow>
   lex_dollar n esc lookup depth (print_expr esc e @ r) = given (mean_expr esc lookup e) r"
  unfolding expr_lex_def by blast

lemma parts_lex_Cons:
  assumes esc: "esc \<in> {CHR 0x5C, CHR 0x60}" and p: "part_lex esc lookup p" and ps: "parts_lex esc lookup ps"
  shows "parts_lex esc lookup (p # ps)"
  unfolding parts_lex_def
proof (intro allI impI)
  fix n depth inside r
  assume ok: "ok_parts inside esc (p # ps)" and depth: "depth + depth_parts (p # ps) \<le> MAX_EXPANSION_DEPTH"
    and n: "length (print_parts esc (p # ps) @ r) < n" and r: "r = [] \<or> hd r \<in> {CHR ''}'', CHR 0x22}"
  let ?rest = "print_parts esc ps @ r"
  obtain m where m: "n = Suc m" using n by (cases n) auto
  have len: "length ?rest < m" "length (print_part esc p @ ?rest) < n" using n m print_part_length[of esc p] by (simp_all del: length_greater_0_conv)
  have rest: "lex_until m esc lookup depth (stop_of inside) ?rest =
      then_more (given (mean_parts esc lookup ps) r) (lex_until (m - length ps) esc lookup depth (stop_of inside))"
    by (rule parts_lexD[OF ps _ _ len(1) r]) (use ok depth in auto)
  have first: "lex_until (Suc m) esc lookup depth (stop_of inside) (print_part esc p @ ?rest) =
      then_more (given (mean_part esc lookup p) ?rest) (lex_until m esc lookup depth (stop_of inside))"
  proof (rule lex_until_part[OF esc])
    show "ok_part inside esc p" using ok by simp
    show "lex_double_quoted m esc lookup depth (print_dparts esc ds @ CHR 0x22 # ?rest) = given (mean_dparts esc lookup ds) ?rest"
      if "p = PDouble ds" for ds
      by (rule dparts_lexD) (use p that ok depth len(2) m in \<open>auto simp: part_lex_def\<close>)
    show "lex_dollar m esc lookup depth (print_expr esc e @ ?rest) = given (mean_expr esc lookup e) ?rest" if "p = PExpr e" for e
      by (rule expr_lexD) (use p that ok depth len(2) m part_ends_append[of p "print_parts esc ps" r] r in \<open>auto simp: part_lex_def\<close>)
  qed
  have "lex_until n esc lookup depth (stop_of inside) (print_parts esc (p # ps) @ r) =
      then_more (given (mean_part esc lookup p) ?rest) (lex_until m esc lookup depth (stop_of inside))"
    using first m by simp
  also have "\<dots> = then_more (given (mean_part esc lookup p) ?rest)
      (\<lambda>_. then_more (given (mean_parts esc lookup ps) r) (lex_until (m - length ps) esc lookup depth (stop_of inside)))"
    by (rule then_more_cong) (rule rest)
  also have "\<dots> = then_more (given (mean_parts esc lookup (p # ps)) r) (lex_until (m - length ps) esc lookup depth (stop_of inside))"
    unfolding mean_parts.simps by (rule then_more_given[symmetric])
  finally show "lex_until n esc lookup depth (stop_of inside) (print_parts esc (p # ps) @ r) =
      then_more (given (mean_parts esc lookup (p # ps)) r) (lex_until (n - length (p # ps)) esc lookup depth (stop_of inside))"
    using m by simp
qed

lemma dparts_lex_Cons:
  assumes esc: "esc \<in> {CHR 0x5C, CHR 0x60}" and d: "dpart_lex esc lookup d" and ds: "dparts_lex esc lookup ds"
  shows "dparts_lex esc lookup (d # ds)"
  unfolding dparts_lex_def
proof (intro allI impI)
  fix n depth r
  assume ok: "ok_dparts esc (d # ds)" and depth: "depth + depth_dparts (d # ds) \<le> MAX_EXPANSION_DEPTH"
    and n: "length (print_dparts esc (d # ds) @ CHR 0x22 # r) < n"
  let ?rest = "print_dparts esc ds @ CHR 0x22 # r"
  have len: "dweight d \<le> n" "length ?rest < n - dweight d" "0 < n"
    using n print_dpart_length[of d esc] by auto
  have rest: "lex_double_quoted (n - dweight d) esc lookup depth ?rest = given (mean_dparts esc lookup ds) r"
    by (rule dparts_lexD[OF ds _ _ len(2)]) (use ok depth in auto)
  have "lex_double_quoted n esc lookup depth (print_dpart esc d @ ?rest) =
      then_more (given (mean_dpart esc lookup d) ?rest) (lex_double_quoted (n - dweight d) esc lookup depth)"
  proof (rule lex_double_part[OF esc _ _ len(1)])
    show "ok_dpart esc d" using ok by simp
    show "lex_dollar (n - 1) esc lookup depth (print_expr esc e @ ?rest) = given (mean_expr esc lookup e) ?rest" if "d = DExpr e" for e
      by (rule expr_lexD) (use d that ok depth n dpart_ends_append[of d "print_dparts esc ds" "CHR 0x22 # r"] in \<open>auto simp: dpart_lex_def\<close>)
  qed
  then show "lex_double_quoted n esc lookup depth (print_dparts esc (d # ds) @ CHR 0x22 # r) = given (mean_dparts esc lookup (d # ds)) r"
    using rest by (cases "mean_dpart esc lookup d"; cases "mean_dparts esc lookup ds") (simp_all add: then_more_def)
qed

lemma expr_lex_EVar: "expr_lex esc lookup (EVar name)"
  unfolding expr_lex_def
proof (intro allI impI)
  fix n depth r
  assume ok: "ok_expr esc (EVar name)" and ends: "ends_at (EVar name) r" and n: "length (print_expr esc (EVar name) @ r) < n"
  obtain m where m: "n = Suc m" using n by (cases n) auto
  obtain c cs where c: "name = c # cs" "is_name_start c" "c \<noteq> CHR ''{''" using variable_name_start[of name] ok by auto
  have "lex_name (c # cs @ r) = (name, r)" using lex_name_ends[of name r] ok ends c(1) by simp
  then show "lex_dollar n esc lookup depth (print_expr esc (EVar name) @ r) = given (mean_expr esc lookup (EVar name)) r"
    using c m by (subst lex_dollar.simps) simp
qed

lemma expr_lex_EDollar: "expr_lex esc lookup EDollar"
  unfolding expr_lex_def
proof (intro allI impI)
  fix n depth r
  assume "ends_at EDollar r" "length (print_expr esc EDollar @ r) < n"
  then show "lex_dollar n esc lookup depth (print_expr esc EDollar @ r) = given (mean_expr esc lookup EDollar) r"
    by (cases n; cases r; subst lex_dollar.simps) auto
qed

lemma expr_lex_braces:
  assumes braced: "\<And>m depth r. length (tl (print_expr esc e) @ r) < Suc m \<Longrightarrow> depth + depth_expr e \<le> Suc MAX_EXPANSION_DEPTH \<Longrightarrow>
      lex_braced (Suc m) esc lookup depth (tl (print_expr esc e) @ r) = given (mean_expr esc lookup e) r"
    and "hd (print_expr esc e) = CHR ''{''" "print_expr esc e \<noteq> []" "tl (print_expr esc e) \<noteq> []" "0 < depth_expr e"
  shows "expr_lex esc lookup e"
  unfolding expr_lex_def
proof (intro allI impI)
  fix n depth r
  assume depth: "depth + depth_expr e \<le> MAX_EXPANSION_DEPTH" and n: "length (print_expr esc e @ r) < n"
  have e: "print_expr esc e @ r = CHR ''{'' # tl (print_expr esc e) @ r" using assms(2,3) by (cases "print_expr esc e") auto
  obtain m where m: "n = Suc (Suc m)" using n assms(4) unfolding e by (cases n; cases "n - 1") auto
  have "lex_braced (Suc m) esc lookup (depth + 1) (tl (print_expr esc e) @ r) = given (mean_expr esc lookup e) r"
    by (rule braced) (use n depth m e in auto)
  then show "lex_dollar n esc lookup depth (print_expr esc e @ r) = given (mean_expr esc lookup e) r"
    unfolding e m using depth assms(5) by (subst lex_dollar.simps) simp
qed

lemma expr_lex_EBraced: "variable_name name \<Longrightarrow> expr_lex esc lookup (EBraced name)"
  by (rule expr_lex_braces) (auto simp: lex_braced_plain)

lemma expr_lex_EChoice:
  assumes name: "variable_name name" and op: "op \<in> {CHR ''-'', CHR ''+'', CHR ''?''}" and ok: "ok_parts True esc w"
    and w: "parts_lex esc lookup w"
  shows "expr_lex esc lookup (EChoice name colon op w)"
proof (rule expr_lex_braces)
  fix m depth r
  assume n: "length (tl (print_expr esc (EChoice name colon op w)) @ r) < Suc m"
    and depth: "depth + depth_expr (EChoice name colon op w) \<le> Suc MAX_EXPANSION_DEPTH"
  have len: "length (print_parts esc w @ CHR ''}'' # r) < m" "length w < m"
    using n name length_parts[of w esc] by (auto simp: variable_name_def neq_Nil_conv)
  have "lex_until m esc lookup depth (Some (CHR ''}'')) (print_parts esc w @ CHR ''}'' # r) =
      then_more (given (mean_parts esc lookup w) (CHR ''}'' # r)) (lex_until (m - length w) esc lookup depth (Some (CHR ''}'')))"
    using parts_lexD[OF w ok _ len(1), of depth] depth by simp
  moreover obtain k where "m - length w = Suc k" using len(2) by (cases "m - length w") auto
  ultimately have "lex_until m esc lookup depth (Some (CHR ''}'')) (print_parts esc w @ CHR ''}'' # r) = given (mean_parts esc lookup w) r"
    by (cases "mean_parts esc lookup w") (simp_all add: then_more_def lex_until_stop)
  from lex_braced_choice[OF name op this]
  show "lex_braced (Suc m) esc lookup depth (tl (print_expr esc (EChoice name colon op w)) @ r) =
      given (mean_expr esc lookup (EChoice name colon op w)) r" by simp
qed simp_all

lemma all_lex:
  fixes lookup :: "string \<Rightarrow> string option"
  shows "esc \<in> {CHR 0x5C, CHR 0x60} \<Longrightarrow> ok_parts inside esc ps \<Longrightarrow> parts_lex esc lookup ps"
    and "esc \<in> {CHR 0x5C, CHR 0x60} \<Longrightarrow> ok_part inside esc p \<Longrightarrow> part_lex esc lookup p"
    and "esc \<in> {CHR 0x5C, CHR 0x60} \<Longrightarrow> ok_dparts esc ds \<Longrightarrow> dparts_lex esc lookup ds"
    and "esc \<in> {CHR 0x5C, CHR 0x60} \<Longrightarrow> ok_dpart esc d \<Longrightarrow> dpart_lex esc lookup d"
    and "esc \<in> {CHR 0x5C, CHR 0x60} \<Longrightarrow> ok_expr esc e \<Longrightarrow> expr_lex esc lookup e"
proof (induction inside esc ps and inside esc p and esc ds and esc d and esc e
    rule: ok_parts_ok_part_ok_dparts_ok_dpart_ok_expr.induct)
  case (1 inside esc)
  show ?case unfolding parts_lex_def
  proof (intro allI impI)
    fix n depth inside r
    show "lex_until n esc lookup depth (stop_of inside) (print_parts esc [] @ r) =
        then_more (given (mean_parts esc lookup []) r) (lex_until (n - length []) esc lookup depth (stop_of inside))"
      by (cases "lex_until n esc lookup depth (stop_of inside) r") (auto simp: then_more_def)
  qed
next
  case (2 inside esc p ps)
  then show ?case by (intro parts_lex_Cons) auto
next
  case (8 esc)
  show ?case unfolding dparts_lex_def
  proof (intro allI impI)
    fix n depth r
    assume "length (print_dparts esc [] @ CHR 0x22 # r) < n"
    then show "lex_double_quoted n esc lookup depth (print_dparts esc [] @ CHR 0x22 # r) = given (mean_dparts esc lookup []) r"
      by (cases n; subst lex_double_quoted.simps) auto
  qed
next
  case (9 esc d ds)
  then show ?case by (intro dparts_lex_Cons) auto
next
  case (16 esc name colon op w)
  then show ?case by (intro expr_lex_EChoice) auto
qed (simp_all add: part_lex_def dpart_lex_def expr_lex_EVar expr_lex_EBraced expr_lex_EDollar)

section \<open>The property\<close>

lemma Lexer_run_means:
  assumes "esc \<in> {CHR 0x5C, CHR 0x60}" "ok_parts False esc ps" "depth_parts ps \<le> MAX_EXPANSION_DEPTH"
  shows "Lexer_run (print_parts esc ps) esc lookup = mean_parts esc lookup ps"
proof -
  let ?n = "length (print_parts esc ps) + 1"
  have "lex_until ?n esc lookup 0 None (print_parts esc ps) =
      then_more (given (mean_parts esc lookup ps) []) (lex_until (?n - length ps) esc lookup 0 None)"
    using parts_lexD[OF all_lex(1)[OF assms(1,2)] assms(2), of 0 "[]" ?n lookup] assms(3) by simp
  moreover obtain k where "?n - length ps = Suc k" using length_parts[of ps esc] by (cases "?n - length ps") auto
  ultimately show ?thesis
    by (cases "mean_parts esc lookup ps") (simp_all add: Lexer_run_def then_more_def lex_until_end)
qed

text \<open>C18: an instruction's text means what the documentation says, whatever its quotes, escapes and expressions and however they
  are nested (up to the 64 levels the code allows): \<open>word\<close> gives the characters of its meaning and \<open>words\<close> splits it at
  whitespace that is not quoted, the word of \<open>${NAME:-word}\<close> and the like is processed itself, and the first expression
  that fails is the error. Texts are those of the grammar, for either escape character; a text that leaves a quote
  or brace open is none of them.\<close>

theorem expansion_means:
  assumes "esc \<in> {CHR 0x5C, CHR 0x60}" and "ok_parts False esc ps" and "depth_parts ps \<le> MAX_EXPANSION_DEPTH"
  shows "expand_word (print_parts esc ps) esc lookup = bind_result (mean_parts esc lookup ps) (\<lambda>m. Inr (map pc_ch m)) \<and>
    expand_words (print_parts esc ps) esc lookup = bind_result (mean_parts esc lookup ps) (\<lambda>m. Inr (split_pieces [] m))"
  by (simp add: expand_word_def expand_words_def Lexer_run_means[OF assms])

text \<open>\<open>"$A"/${B:-'x y'${A}}\<close>.\<close>

definition example_text :: "Part list" where
  "example_text = [PDouble [DExpr (EVar ''A'')], PChar (CHR ''/''),
     PExpr (EChoice ''B'' True (CHR ''-'') [PSingle ''x y'', PExpr (EBraced ''A'')])]"

theorem expansion_means_witness:
  "print_parts (CHR 0x5C) example_text = [CHR 0x22] @ ''$A'' @ [CHR 0x22] @ ''/${B:-'' @ [CHR 0x27] @ ''x y'' @ [CHR 0x27] @ ''${A}}'' \<and>
   expand_word (print_parts (CHR 0x5C) example_text) (CHR 0x5C) [''A'' \<mapsto> ''p q'', ''B'' \<mapsto> []] = Inr ''p q/x yp q'' \<and>
   expand_words (print_parts (CHR 0x5C) example_text) (CHR 0x5C) [''A'' \<mapsto> ''p q'', ''B'' \<mapsto> []] = Inr [''p q/x yp'', ''q'']"
proof -
  have ok: "ok_parts False (CHR 0x5C) example_text" "depth_parts example_text \<le> MAX_EXPANSION_DEPTH"
    by (simp_all add: example_text_def variable_name_def is_name_start_def is_alnum_def is_alpha_def is_digit_def MAX_EXPANSION_DEPTH_def)
  show ?thesis
    using expansion_means[OF _ ok, of "[''A'' \<mapsto> ''p q'', ''B'' \<mapsto> []]"]
    by (simp add: example_text_def choice_def quoted_def unquoted_def is_space_def)
qed

end
