(* ===== verification/Namespaces.thy ===== *)
theory Namespaces
  imports Text
begin

text \<open>
  The namespaces of a container, \<^verbatim>\<open>rustlet-runtime/src/namespaces.rs\<close>: which are created and which are
  joined. Joining them is system calls, and not modelled.
\<close>

text \<open>\<open>CloneFlags\<close>, with the numbers of \<^verbatim>\<open>linux/sched.h\<close> that \<open>libc\<close> gives.\<close>

definition NEWTIME :: u64 where "NEWTIME = 0x00000080"
definition NEWNS :: u64 where "NEWNS = 0x00020000"
definition NEWCGROUP :: u64 where "NEWCGROUP = 0x02000000"
definition NEWUTS :: u64 where "NEWUTS = 0x04000000"
definition NEWIPC :: u64 where "NEWIPC = 0x08000000"
definition NEWUSER :: u64 where "NEWUSER = 0x10000000"
definition NEWPID :: u64 where "NEWPID = 0x20000000"
definition NEWNET :: u64 where "NEWNET = 0x40000000"

definition flags_contain :: "u64 \<Rightarrow> u64 \<Rightarrow> bool" where
  "flags_contain flags f \<longleftrightarrow> flags AND f = f"

text \<open>\<open>LinuxNamespaceType\<close> and \<open>LinuxNamespace\<close> of the OCI specification.\<close>

datatype NamespaceType = NsMount | NsCgroup | NsUts | NsIpc | NsUser | NsPid | NsNetwork | NsTime

record LinuxNamespace =
  ln_type :: NamespaceType
  ln_path :: "string option"

record Join =
  jn_kind :: u64
  jn_path :: string

record NamespacePlan =
  ns_clone_flags :: u64
  ns_new_cgroup :: bool
  ns_joins :: "Join list"

definition new_uts :: "NamespacePlan \<Rightarrow> bool" where
  "new_uts ns = flags_contain (ns_clone_flags ns) NEWUTS"

definition new_user :: "NamespacePlan \<Rightarrow> bool" where
  "new_user ns = flags_contain (ns_clone_flags ns) NEWUSER"

fun ns_flag :: "NamespaceType \<Rightarrow> u64" where
  "ns_flag NsMount = NEWNS"
| "ns_flag NsCgroup = NEWCGROUP"
| "ns_flag NsUts = NEWUTS"
| "ns_flag NsIpc = NEWIPC"
| "ns_flag NsUser = NEWUSER"
| "ns_flag NsPid = NEWPID"
| "ns_flag NsNetwork = NEWNET"
| "ns_flag NsTime = NEWTIME"

datatype NamespaceError =
    ListedTwice NamespaceType
  | JoiningUser
  | JoiningMount
  | MountMissing

fun ns_loop :: "u64 \<Rightarrow> NamespacePlan \<Rightarrow> LinuxNamespace list \<Rightarrow> NamespaceError + u64 \<times> NamespacePlan" where
  "ns_loop seen out [] = Inr (seen, out)"
| "ns_loop seen out (ns # rest) =
     (let t = ln_type ns; f = ns_flag t in
      if flags_contain seen f then Inl (ListedTwice t)
      else let seen = seen OR f in
        case (t, ln_path ns) of
          (NsUser, Some _) \<Rightarrow> Inl JoiningUser
        | (NsMount, Some _) \<Rightarrow> Inl JoiningMount
        | (NsCgroup, None) \<Rightarrow> ns_loop seen (out\<lparr>ns_new_cgroup := True\<rparr>) rest
        | (_, None) \<Rightarrow> ns_loop seen (out\<lparr>ns_clone_flags := ns_clone_flags out OR f\<rparr>) rest
        | (_, Some path) \<Rightarrow> ns_loop seen (out\<lparr>ns_joins := ns_joins out @ [\<lparr>jn_kind = f, jn_path = path\<rparr>]\<rparr>) rest)"

definition namespaces_plan :: "LinuxNamespace list \<Rightarrow> NamespaceError + NamespacePlan" where
  "namespaces_plan namespaces =
     bind_result (ns_loop 0 \<lparr>ns_clone_flags = 0, ns_new_cgroup = False, ns_joins = []\<rparr> namespaces) (\<lambda>(seen, out).
       if \<not> flags_contain seen NEWNS then Inl MountMissing else Inr out)"

end
