(* ===== verification/Userns.thy ===== *)
theory Userns
  imports Namespaces
begin

text \<open>
  User namespaces, \<^verbatim>\<open>rustlet-runtime/src/userns.rs\<close>: the lines of the uid and gid maps, their
  validation, the lookup of host ids, the comparison of maps that are written differently, and the
  checks of the mounts of a container with a user namespace. Ids are \<open>u32\<close>; additions of \<open>u32\<close> wrap
  as they do in the release profile, and the sums the source takes in \<open>u64\<close> are taken in \<open>nat\<close>.
\<close>

section \<open>The maps\<close>

text \<open>\<open>LinuxIdMapping\<close> of the OCI specification, by its accessors.\<close>

record LinuxIdMapping =
  lm_container_id :: u32
  lm_host_id :: u32
  lm_size :: u32

record IdMap =
  im_container :: u32
  im_host :: u32
  im_size :: u32

datatype UsernsError =
    MappingsWithoutNamespace
  | MappingsMissing
  | TooManyLines nat
  | EmptyLine IdMap
  | LineTooLong IdMap
  | MapsHostRoot IdMap
  | TextTooLong nat
  | LinesOverlap string IdMap IdMap
  | RootNotMapped
  | PidNamespaceNeeded
  | UidNotMapped u32
  | GidNotMapped string u32
  | IdmapWithoutNamespace string
  | OtherMappings string
  | MqueueNeedsIpc string
  | Cgroup2NeedsCgroup string
  | OptionNotMapped string string u32
  | LockedFlags string
  | LockedAtime string
  | NewAtime string

definition IdMap_from_spec :: "LinuxIdMapping \<Rightarrow> IdMap" where
  "IdMap_from_spec m = \<lparr>im_container = lm_container_id m, im_host = lm_host_id m, im_size = lm_size m\<rparr>"

text \<open>\<open>checked_sub\<close>, then the range, then the wrapping sum.\<close>

definition to_host :: "IdMap \<Rightarrow> u32 \<Rightarrow> u32 option" where
  "to_host m i =
     (if i < im_container m then None
      else let offset = i - im_container m
           in if offset < im_size m then Some (im_host m + offset) else None)"

definition maps_from_spec :: "LinuxIdMapping list \<Rightarrow> IdMap list" where
  "maps_from_spec maps = map IdMap_from_spec maps"

record UsernsPlan =
  un_uids :: "IdMap list"
  un_gids :: "IdMap list"

definition uid_to_host :: "UsernsPlan \<Rightarrow> u32 \<Rightarrow> u32 option" where
  "uid_to_host u i = find_map_list (\<lambda>m. to_host m i) (un_uids u)"

definition gid_to_host :: "UsernsPlan \<Rightarrow> u32 \<Rightarrow> u32 option" where
  "gid_to_host u i = find_map_list (\<lambda>m. to_host m i) (un_gids u)"

text \<open>The loop over the groups, each with its name in the message.\<close>

fun check_gids :: "UsernsPlan \<Rightarrow> (string \<times> u32) list \<Rightarrow> UsernsError + unit" where
  "check_gids u [] = Inr ()"
| "check_gids u ((what, gid) # gs) = (if gid_to_host u gid = None then Inl (GidNotMapped what gid) else check_gids u gs)"

text \<open>Of the process: its user, its group and the additional groups.\<close>

definition check_process :: "UsernsPlan \<Rightarrow> u32 \<Rightarrow> u32 \<Rightarrow> u32 list \<Rightarrow> UsernsError + unit" where
  "check_process u uid gid additional_gids =
     (if uid_to_host u uid = None then Inl (UidNotMapped uid)
      else check_gids u ((''gid'', gid) # map (\<lambda>g. (''additionalGids'', g)) additional_gids))"

definition MAX_EXTENTS :: nat where
  "MAX_EXTENTS = 340"

definition MAX_MAP_TEXT :: nat where
  "MAX_MAP_TEXT = 4095"

definition map_line :: "IdMap \<Rightarrow> string" where
  "map_line m = dec (unat (im_container m)) @ '' '' @ dec (unat (im_host m)) @ '' '' @ dec (unat (im_size m)) @ [CHR 0x0A]"

definition map_text :: "IdMap list \<Rightarrow> string" where
  "map_text maps = concat (map map_line maps)"

section \<open>Validation\<close>

definition runs_past :: "u32 \<Rightarrow> u32 \<Rightarrow> bool" where
  "runs_past start n \<longleftrightarrow> unat start + unat n > 2 ^ 32 - 1"

fun check_lines :: "IdMap list \<Rightarrow> UsernsError + unit" where
  "check_lines [] = Inr ()"
| "check_lines (m # ms) =
     (if im_size m = 0 then Inl (EmptyLine m)
      else if runs_past (im_container m) (im_size m) \<or> runs_past (im_host m) (im_size m) then Inl (LineTooLong m)
      else if im_host m = 0 then Inl (MapsHostRoot m)
      else check_lines ms)"

definition ids_overlap :: "u32 \<Rightarrow> u32 \<Rightarrow> u32 \<Rightarrow> u32 \<Rightarrow> bool" where
  "ids_overlap a b a_size b_size \<longleftrightarrow> unat a < unat b + unat b_size \<and> unat b < unat a + unat a_size"

fun check_against :: "IdMap \<Rightarrow> IdMap list \<Rightarrow> UsernsError + unit" where
  "check_against a [] = Inr ()"
| "check_against a (b # bs) =
     (if ids_overlap (im_container a) (im_container b) (im_size a) (im_size b) then Inl (LinesOverlap ''container'' a b)
      else if ids_overlap (im_host a) (im_host b) (im_size a) (im_size b) then Inl (LinesOverlap ''host'' a b)
      else check_against a bs)"

fun check_overlaps :: "IdMap list \<Rightarrow> UsernsError + unit" where
  "check_overlaps [] = Inr ()"
| "check_overlaps (a # as) = bind_result (check_against a as) (\<lambda>_. check_overlaps as)"

definition validate_maps :: "IdMap list \<Rightarrow> UsernsError + IdMap list" where
  "validate_maps maps =
     (if length maps > MAX_EXTENTS then Inl (TooManyLines (length maps))
      else bind_result (check_lines maps) (\<lambda>_.
        let bytes = length (map_text maps)
        in if bytes > MAX_MAP_TEXT then Inl (TextTooLong bytes)
           else bind_result (check_overlaps maps) (\<lambda>_. Inr maps)))"

section \<open>The plan\<close>

text \<open>\<open>plan\<close>, of the two lists of mappings of \<open>linux\<close>.\<close>

definition userns_plan :: "LinuxIdMapping list option \<Rightarrow> LinuxIdMapping list option \<Rightarrow> NamespacePlan \<Rightarrow>
    UsernsError + UsernsPlan option" where
  "userns_plan uid_mappings gid_mappings ns =
     (let uids = (case uid_mappings of None \<Rightarrow> [] | Some ms \<Rightarrow> ms);
          gids = (case gid_mappings of None \<Rightarrow> [] | Some ms \<Rightarrow> ms)
      in if \<not> new_user ns then
           (if uids \<noteq> [] \<or> gids \<noteq> [] then Inl MappingsWithoutNamespace else Inr None)
         else if uids = [] \<or> gids = [] then Inl MappingsMissing
         else bind_result (validate_maps (maps_from_spec uids)) (\<lambda>us.
              bind_result (validate_maps (maps_from_spec gids)) (\<lambda>gs.
                let plan = \<lparr>un_uids = us, un_gids = gs\<rparr>
                in if uid_to_host plan 0 = None \<or> gid_to_host plan 0 = None then Inl RootNotMapped
                   else if \<not> flags_contain (ns_clone_flags ns) NEWPID then Inl PidNamespaceNeeded
                   else Inr (Some plan))))"

section \<open>Maps written differently\<close>

definition line_continues :: "IdMap \<Rightarrow> IdMap \<Rightarrow> bool" where
  "line_continues l m \<longleftrightarrow>
     unat (im_container l) + unat (im_size l) = unat (im_container m) \<and>
     unat (im_host l) + unat (im_size l) = unat (im_host m)"

definition merge_line :: "IdMap list \<Rightarrow> IdMap \<Rightarrow> IdMap list" where
  "merge_line out m =
     (if out \<noteq> [] \<and> line_continues (last out) m
      then butlast out @ [(last out)\<lparr>im_size := im_size (last out) + im_size m\<rparr>]
      else out @ [m])"

definition merged :: "IdMap list \<Rightarrow> IdMap list" where
  "merged maps = foldl merge_line [] (sort_key im_container maps)"

section \<open>Mounts\<close>

definition NOSUID :: u64 where "NOSUID = 0x02"
definition NODEV :: u64 where "NODEV = 0x04"
definition NOEXEC :: u64 where "NOEXEC = 0x08"
definition NOATIME :: u64 where "NOATIME = 0x10"
definition STRICTATIME :: u64 where "STRICTATIME = 0x20"
definition NODIRATIME :: u64 where "NODIRATIME = 0x80"
definition ATIME_MASK :: u64 where "ATIME_MASK = 0x70"

definition flags_intersect :: "u64 \<Rightarrow> u64 \<Rightarrow> bool" where
  "flags_intersect a b \<longleftrightarrow> a AND b \<noteq> 0"

datatype FsOption = OptFlag string | OptValue string string

datatype MountKind = MkFs string "string option" "FsOption list" | MkBind string bool | HostSysfs

record Idmap =
  mi_recursive :: bool
  mi_uids :: "IdMap list"
  mi_gids :: "IdMap list"

datatype IdmapError = NeedsIdmap | OnlyBind | BothOrNeither

text \<open>\<open>parse_idmap\<close>, of a mount's mappings: they are taken over without validation.\<close>

definition parse_idmap :: "LinuxIdMapping list option \<Rightarrow> LinuxIdMapping list option \<Rightarrow> bool option \<Rightarrow> MountKind \<Rightarrow>
    IdmapError + Idmap option" where
  "parse_idmap uids gids opt kind =
     (case opt of
        None \<Rightarrow> if uids \<noteq> None \<or> gids \<noteq> None then Inl NeedsIdmap else Inr None
      | Some recursive \<Rightarrow>
          if \<not> (case kind of MkBind _ _ \<Rightarrow> True | _ \<Rightarrow> False) then Inl OnlyBind
          else if (uids \<noteq> None) \<noteq> (gids \<noteq> None) then Inl BothOrNeither
          else let conv = (\<lambda>maps. maps_from_spec (case maps of None \<Rightarrow> [] | Some ms \<Rightarrow> ms))
               in Inr (Some \<lparr>mi_recursive = recursive, mi_uids = conv uids, mi_gids = conv gids\<rparr>))"

record MountEntry =
  me_destination :: string
  me_kind :: MountKind
  me_set :: u64
  me_clear :: u64
  me_rec_set :: u64
  me_rec_clear :: u64
  me_idmap :: "Idmap option"

definition describe :: "MountEntry \<Rightarrow> string" where
  "describe m =
     (case me_kind m of
        MkFs fstype _ _ \<Rightarrow> fstype @ '' on '' @ me_destination m
      | MkBind source recursive \<Rightarrow> (if recursive then ''rbind'' else ''bind'') @ '' '' @ source @ '' on '' @ me_destination m
      | HostSysfs \<Rightarrow> ''rbind of the host'' @ [CHR 0x27] @ ''s /sys on '' @ me_destination m)"

definition check_locked_flags :: "MountEntry \<Rightarrow> UsernsError + unit" where
  "check_locked_flags m =
     (let set = me_set m OR me_rec_set m; clear = me_clear m OR me_rec_clear m
      in if me_kind m = HostSysfs then
           (if flags_intersect clear (NOSUID OR NODEV OR NOEXEC) then Inl (LockedFlags (describe m))
            else if flags_intersect (set OR clear) (ATIME_MASK OR NODIRATIME) then Inl (LockedAtime (describe m))
            else Inr ())
         else if flags_intersect set (NOATIME OR STRICTATIME OR NODIRATIME) then Inl (NewAtime (describe m))
         else Inr ())"

text \<open>The loop over the options: those that are not an id of a user or group are passed over.\<close>

fun check_options :: "UsernsPlan \<Rightarrow> string \<Rightarrow> FsOption list \<Rightarrow> UsernsError + unit" where
  "check_options u what [] = Inr ()"
| "check_options u what (OptFlag _ # os) = check_options u what os"
| "check_options u what (OptValue key val # os) =
     (if key \<noteq> ''uid'' \<and> key \<noteq> ''gid'' then check_options u what os
      else case parse_uint 32 val of
             None \<Rightarrow> check_options u what os
           | Some n \<Rightarrow>
               let i = of_nat n
               in if (if key = ''uid'' then uid_to_host u i else gid_to_host u i) = None
                  then Inl (OptionNotMapped what key i) else check_options u what os)"

definition own_map :: "IdMap list \<Rightarrow> IdMap list \<Rightarrow> bool" where
  "own_map given ours \<longleftrightarrow> given = [] \<or> merged given = merged ours"

definition check_idmap :: "MountEntry \<Rightarrow> UsernsPlan option \<Rightarrow> UsernsError + unit" where
  "check_idmap m userns =
     (case me_idmap m of
        None \<Rightarrow> Inr ()
      | Some idmap \<Rightarrow>
          (case userns of
             None \<Rightarrow> Inl (IdmapWithoutNamespace (describe m))
           | Some u \<Rightarrow>
               if \<not> own_map (mi_uids idmap) (un_uids u) \<or> \<not> own_map (mi_gids idmap) (un_gids u)
               then Inl (OtherMappings (describe m)) else Inr ()))"

text \<open>One mount: the entry as it is left.\<close>

definition check_mount :: "UsernsPlan option \<Rightarrow> NamespacePlan \<Rightarrow> MountEntry \<Rightarrow> UsernsError + MountEntry" where
  "check_mount userns ns m =
     bind_result (check_idmap m userns) (\<lambda>_.
       case userns of
         None \<Rightarrow> Inr m
       | Some u \<Rightarrow>
           (case me_kind m of
              MkFs fstype _ options \<Rightarrow>
                if fstype = ''mqueue'' \<and> \<not> flags_contain (ns_clone_flags ns) NEWIPC then Inl (MqueueNeedsIpc (describe m))
                else if fstype = ''cgroup2'' \<and> \<not> ns_new_cgroup ns then Inl (Cgroup2NeedsCgroup (describe m))
                else bind_result (check_options u (describe m) options) (\<lambda>_.
                  let m' = (if fstype = ''sysfs'' \<and> \<not> flags_contain (ns_clone_flags ns) NEWNET
                            then m\<lparr>me_kind := HostSysfs\<rparr> else m)
                  in if fstype = ''proc'' \<or> fstype = ''sysfs''
                     then bind_result (check_locked_flags m') (\<lambda>_. Inr m') else Inr m')
            | MkBind _ _ \<Rightarrow> Inr m
            | HostSysfs \<Rightarrow> Inr m))"

definition check_mounts :: "MountEntry list \<Rightarrow> UsernsPlan option \<Rightarrow> NamespacePlan \<Rightarrow> UsernsError + MountEntry list" where
  "check_mounts mounts userns ns = collect_results (check_mount userns ns) mounts"

end
