(* ===== verification/UsernsCorrect.thy ===== *)
theory UsernsCorrect
  imports Userns
begin

text \<open>
  Correctness of user namespaces (theory \<^verbatim>\<open>Userns\<close>): the maps of a plan are injective, never reach
  the host's root and never wrap, and merged lines are a canonical form of a map.
\<close>

section \<open>What a map says\<close>

text \<open>The pairs of ids a line and a list of lines stand for, as unbounded numbers.\<close>

abbreviation first_id :: "IdMap \<Rightarrow> nat" where "first_id m \<equiv> unat (im_container m)"
abbreviation first_host :: "IdMap \<Rightarrow> nat" where "first_host m \<equiv> unat (im_host m)"
abbreviation line_size :: "IdMap \<Rightarrow> nat" where "line_size m \<equiv> unat (im_size m)"

definition line_graph :: "IdMap \<Rightarrow> (nat \<times> nat) set" where
  "line_graph m = {(first_id m + k, first_host m + k) | k. k < line_size m}"

definition map_graph :: "IdMap list \<Rightarrow> (nat \<times> nat) set" where
  "map_graph maps = (\<Union>m\<in>set maps. line_graph m)"

text \<open>A line with ids that all exist, and two that share no id on either side.\<close>

definition good_line :: "IdMap \<Rightarrow> bool" where
  "good_line m \<longleftrightarrow> im_size m \<noteq> 0 \<and> im_host m \<noteq> 0 \<and>
     first_id m + line_size m < 2 ^ 32 \<and> first_host m + line_size m < 2 ^ 32"

definition apart :: "IdMap \<Rightarrow> IdMap \<Rightarrow> bool" where
  "apart a b \<longleftrightarrow>
     (first_id a + line_size a \<le> first_id b \<or> first_id b + line_size b \<le> first_id a) \<and>
     (first_host a + line_size a \<le> first_host b \<or> first_host b + line_size b \<le> first_host a)"

fun all_apart :: "IdMap list \<Rightarrow> bool" where
  "all_apart [] = True"
| "all_apart (a # as) = (list_all (apart a) as \<and> all_apart as)"

definition good_maps :: "IdMap list \<Rightarrow> bool" where
  "good_maps maps \<longleftrightarrow> list_all good_line maps \<and> all_apart maps"

lemma check_lines_good: "check_lines maps = Inr () \<longleftrightarrow> list_all good_line maps"
  by (induction maps) (auto simp: good_line_def runs_past_def)

lemma check_against_apart: "check_against a bs = Inr () \<longleftrightarrow> list_all (apart a) bs"
  by (induction bs) (auto simp: apart_def ids_overlap_def)

lemma check_overlaps_apart: "check_overlaps maps = Inr () \<longleftrightarrow> all_apart maps"
  by (induction maps) (auto simp: check_against_apart[symmetric] bind_result_Inr_iff)

lemma validate_maps_iff:
  "validate_maps maps = Inr ms \<longleftrightarrow>
     ms = maps \<and> length maps \<le> MAX_EXTENTS \<and> length (map_text maps) \<le> MAX_MAP_TEXT \<and> good_maps maps"
  by (auto simp: validate_maps_def good_maps_def bind_result_Inr_iff check_lines_good check_overlaps_apart Let_def)

lemma line_graph_iff:
  "(i, h) \<in> line_graph m \<longleftrightarrow> first_id m \<le> i \<and> i < first_id m + line_size m \<and> h + first_id m = first_host m + i"
  by (auto simp: line_graph_def intro: exI[of _ "i - first_id m"])

lemma to_host_graph:
  assumes "good_line m"
  shows "to_host m i = Some h \<longleftrightarrow> (unat i, unat h) \<in> line_graph m"
proof -
  have sub: "unat (i - im_container m) = unat i - first_id m" if "im_container m \<le> i"
    using that by (simp add: unat_sub word_le_nat_alt)
  have add: "unat (im_host m + (i - im_container m)) = first_host m + (unat i - first_id m)"
    if "im_container m \<le> i" "unat i - first_id m < line_size m"
    using that assms sub by (subst unat_plus_simple[THEN iffD1]) (auto simp: good_line_def no_olen_add_nat)
  show ?thesis
  proof (cases "im_container m \<le> i \<and> unat i - first_id m < line_size m")
    case True
    then have "to_host m i = Some (im_host m + (i - im_container m))"
      using sub by (auto simp: to_host_def Let_def word_less_nat_alt word_le_nat_alt)
    then show ?thesis
      using True add sub by (auto simp: line_graph_iff word_unat_eq_iff word_le_nat_alt)
  next
    case False
    then have "to_host m i = None"
      using sub by (auto simp: to_host_def Let_def word_less_nat_alt word_le_nat_alt)
    then show ?thesis using False by (auto simp: line_graph_iff word_le_nat_alt)
  qed
qed

text \<open>The pairs are those of a partial injection, on both sides.\<close>

lemma apart_sym: "apart a b \<longleftrightarrow> apart b a"
  by (auto simp: apart_def)

lemma all_apart_distinct:
  "all_apart maps \<Longrightarrow> a \<in> set maps \<Longrightarrow> b \<in> set maps \<Longrightarrow> a = b \<or> apart a b"
  by (induction maps) (auto simp: list_all_iff apart_sym)

lemma line_graph_apart:
  assumes "apart a b" and "(i, h) \<in> line_graph a" and "(j, k) \<in> line_graph b"
  shows "i \<noteq> j" and "h \<noteq> k"
  using assms by (auto simp: apart_def line_graph_iff)

lemma map_graph_functional:
  assumes "good_maps maps" and "(i, h) \<in> map_graph maps" and "(j, k) \<in> map_graph maps"
  shows "i = j \<longleftrightarrow> h = k"
proof -
  obtain a b where ab: "a \<in> set maps" "b \<in> set maps" "(i, h) \<in> line_graph a" "(j, k) \<in> line_graph b"
    using assms(2,3) by (auto simp: map_graph_def)
  then consider "a = b" | "apart a b" using all_apart_distinct assms(1) unfolding good_maps_def by blast
  then show ?thesis
  proof cases
    case 1
    then show ?thesis using ab(3,4) by (auto simp: line_graph_iff)
  next
    case 2
    then show ?thesis using line_graph_apart ab(3,4) by blast
  qed
qed

lemma find_to_host_graph:
  assumes "good_maps maps"
  shows "find_map_list (\<lambda>m. to_host m i) maps = Some h \<longleftrightarrow> (unat i, unat h) \<in> map_graph maps"
proof
  assume "find_map_list (\<lambda>m. to_host m i) maps = Some h"
  then obtain m where "m \<in> set maps" "to_host m i = Some h" using find_map_list_Some by fast
  then show "(unat i, unat h) \<in> map_graph maps"
    using assms to_host_graph by (auto simp: map_graph_def good_maps_def list_all_iff)
next
  assume g: "(unat i, unat h) \<in> map_graph maps"
  then obtain m where m: "m \<in> set maps" "to_host m i = Some h"
    using assms to_host_graph by (auto simp: map_graph_def good_maps_def list_all_iff)
  then have "find_map_list (\<lambda>m. to_host m i) maps \<noteq> None" by (induction maps) (auto split: option.splits)
  then obtain k where k: "find_map_list (\<lambda>m. to_host m i) maps = Some k" by blast
  then obtain n where "n \<in> set maps" "to_host n i = Some k" using find_map_list_Some by fast
  then have "(unat i, unat k) \<in> map_graph maps"
    using assms to_host_graph by (auto simp: map_graph_def good_maps_def list_all_iff)
  then have "unat h = unat k" using map_graph_functional[OF assms g] by blast
  then show "find_map_list (\<lambda>m. to_host m i) maps = Some h" using k by (simp add: word_unat_eq_iff)
qed

lemma map_graph_bounds:
  assumes "good_maps maps" and "(i, h) \<in> map_graph maps"
  shows "i < 2 ^ 32" and "h \<noteq> 0" and "h < 2 ^ 32 - 1"
proof -
  obtain m where m: "good_line m" "(i, h) \<in> line_graph m"
    using assms by (auto simp: map_graph_def good_maps_def list_all_iff)
  have "0 < first_host m" using m(1) unat_gt_0[of "im_host m"] by (simp add: good_line_def)
  then show "i < 2 ^ 32" "h \<noteq> 0" "h < 2 ^ 32 - 1" using m by (auto simp: good_line_def line_graph_iff)
qed

section \<open>Merging\<close>

text \<open>A map in order, in which no line continues the one before.\<close>

fun canonical :: "IdMap list \<Rightarrow> bool" where
  "canonical [] = True"
| "canonical [m] = good_line m"
| "canonical (m # n # ms) =
     (good_line m \<and> first_id m + line_size m \<le> first_id n \<and> \<not> line_continues m n \<and> canonical (n # ms))"

lemma canonical_snoc:
  "canonical (ms @ [m]) \<longleftrightarrow> good_line m \<and> canonical ms \<and>
     (ms \<noteq> [] \<longrightarrow> first_id (last ms) + line_size (last ms) \<le> first_id m \<and> \<not> line_continues (last ms) m)"
proof (induction ms rule: canonical.induct)
  case (2 n)
  then show ?case by auto
qed auto

lemma canonical_below:
  "canonical (m # ms) \<Longrightarrow> (i, h) \<in> map_graph ms \<Longrightarrow> first_id m + line_size m \<le> i"
proof (induction ms arbitrary: m)
  case (Cons n ms)
  show ?case
  proof (cases "(i, h) \<in> line_graph n")
    case True
    then show ?thesis using Cons.prems(1) by (auto simp: line_graph_iff)
  next
    case False
    then have "first_id n + line_size n \<le> i" using Cons by (auto simp: map_graph_def)
    then show ?thesis using Cons.prems(1) by auto
  qed
qed (simp add: map_graph_def)

lemma canonical_good: "canonical ms \<Longrightarrow> list_all good_line ms"
  by (induction ms rule: canonical.induct) auto

lemma map_graph_Cons: "map_graph (m # ms) = line_graph m \<union> map_graph ms"
  by (simp add: map_graph_def)

lemma good_line_size: "good_line m \<Longrightarrow> 0 < line_size m"
  by (simp add: good_line_def unat_gt_0)

lemma good_line_start: "good_line m \<Longrightarrow> (first_id m, first_host m) \<in> line_graph m"
  using good_line_size[of m] by (simp add: line_graph_iff)

text \<open>The first line of a canonical map is determined by its pairs: it starts at the least id, and
  ends where they are no longer in step.\<close>

lemma canonical_first:
  assumes "canonical (a # as)" and "canonical (b # bs)" and "map_graph (a # as) \<subseteq> map_graph (b # bs)"
    and "first_id a = first_id b" and "first_host a = first_host b"
  shows "line_size a \<le> line_size b"
proof (rule ccontr)
  assume less: "\<not> line_size a \<le> line_size b"
  let ?i = "first_id b + line_size b" and ?h = "first_host b + line_size b"
  have "(?i, ?h) \<in> line_graph a" using less assms(4,5) by (auto simp: line_graph_iff)
  then have "(?i, ?h) \<in> map_graph (b # bs)" using assms(3) by (auto simp: map_graph_Cons)
  moreover have "(?i, ?h) \<notin> line_graph b" by (simp add: line_graph_iff)
  ultimately have in_bs: "(?i, ?h) \<in> map_graph bs" by (simp add: map_graph_Cons)
  then obtain n ns where bs: "bs = n # ns" by (cases bs) (auto simp: map_graph_def)
  then have n: "canonical (n # ns)" "?i \<le> first_id n" "\<not> line_continues b n" "good_line n"
    using assms(2) canonical_good by force+
  have "(?i, ?h) \<notin> map_graph ns" using canonical_below[OF n(1)] n(2) good_line_size[OF n(4)] by fastforce
  then have "(?i, ?h) \<in> line_graph n" using in_bs bs by (simp add: map_graph_Cons)
  then show False using n(2,3) by (auto simp: line_graph_iff line_continues_def)
qed

lemma canonical_least:
  assumes "canonical (a # as)" and "canonical (b # bs)" and "map_graph (a # as) \<subseteq> map_graph (b # bs)"
  shows "first_id b \<le> first_id a \<and> (first_id b = first_id a \<longrightarrow> first_host a = first_host b)"
proof -
  have a: "(first_id a, first_host a) \<in> map_graph (b # bs)"
    using assms(1,3) good_line_start[of a] canonical_good[of "a # as"] by (auto simp: map_graph_Cons)
  show ?thesis
  proof (cases "(first_id a, first_host a) \<in> line_graph b")
    case True
    then show ?thesis by (auto simp: line_graph_iff)
  next
    case False
    then have "first_id b + line_size b \<le> first_id a"
      using a canonical_below[OF assms(2)] by (auto simp: map_graph_Cons)
    then show ?thesis using good_line_size[of b] canonical_good[OF assms(2)] by auto
  qed
qed

lemma canonical_unique:
  "canonical as \<Longrightarrow> canonical bs \<Longrightarrow> map_graph as = map_graph bs \<Longrightarrow> as = bs"
proof (induction as arbitrary: bs)
  case Nil
  then show ?case
    using good_line_start[of "hd bs"] canonical_good[of bs] by (cases bs) (auto simp: map_graph_def)
next
  case (Cons a as)
  obtain b bs' where bs: "bs = b # bs'"
    using Cons.prems good_line_start[of a] canonical_good[of "a # as"] by (cases bs) (auto simp: map_graph_def)
  have start: "first_id a = first_id b" "first_host a = first_host b"
    using canonical_least[of a as b bs'] canonical_least[of b bs' a as] Cons.prems bs by auto
  have "line_size a = line_size b"
    using canonical_first[of a as b bs'] canonical_first[of b bs' a as] Cons.prems bs start by fastforce
  then have ab: "a = b" using start by (simp add: word_unat_eq_iff)
  have tail: "map_graph ms = map_graph (m # ms) - line_graph m" if "canonical (m # ms)" for m ms
    using canonical_below[OF that] by (fastforce simp: map_graph_Cons line_graph_iff)
  have "canonical as" "canonical bs'"
    using Cons.prems bs by (cases as; simp) (use Cons.prems bs in \<open>cases bs'; simp\<close>)
  moreover have "map_graph as = map_graph bs'"
    using tail[of a as] tail[of b bs'] Cons.prems bs ab by simp
  ultimately show ?case using Cons.IH bs ab by blast
qed

text \<open>Merging a line keeps the pairs and the order.\<close>

lemma join_lines:
  assumes "good_line l" and "good_line m" and "line_continues l m"
  defines "j \<equiv> l\<lparr>im_size := im_size l + im_size m\<rparr>"
  shows "good_line j" and "line_graph j = line_graph l \<union> line_graph m"
    and "first_id j + line_size j = first_id m + line_size m"
proof -
  have size: "line_size j = line_size l + line_size m"
    using assms unfolding j_def
    by (simp add: unat_plus_simple[THEN iffD1] no_olen_add_nat good_line_def line_continues_def)
  have start: "first_id j = first_id l" "first_host j = first_host l" by (simp_all add: j_def)
  have "0 < line_size j" using size good_line_size assms(1) by simp
  then have "im_size j \<noteq> 0" by (auto simp: unat_gt_0)
  then show "good_line j" using assms(1-3) size start by (auto simp: good_line_def line_continues_def j_def)
  show "line_graph j = line_graph l \<union> line_graph m"
    using assms(3) size start by (auto simp: line_graph_iff line_continues_def)
  show "first_id j + line_size j = first_id m + line_size m"
    using assms(3) size start by (simp add: line_continues_def)
qed

lemma map_graph_append: "map_graph (as @ bs) = map_graph as \<union> map_graph bs"
  by (simp add: map_graph_def)

lemma line_continues_size: "line_continues k (l\<lparr>im_size := s\<rparr>) \<longleftrightarrow> line_continues k l"
  by (simp add: line_continues_def)

lemma merge_line_keeps:
  assumes "canonical out" and "good_line m"
    and "out \<noteq> [] \<longrightarrow> first_id (last out) + line_size (last out) \<le> first_id m"
  shows "canonical (merge_line out m) \<and> map_graph (merge_line out m) = map_graph out \<union> line_graph m \<and>
    merge_line out m \<noteq> [] \<and> first_id (last (merge_line out m)) + line_size (last (merge_line out m)) = first_id m + line_size m"
proof (cases "out \<noteq> [] \<and> line_continues (last out) m")
  case True
  then obtain ks l where out: "out = ks @ [l]" by (metis append_butlast_last_id)
  have l: "good_line l" using assms(1) out by (simp add: canonical_snoc)
  note j = join_lines[OF l assms(2)]
  show ?thesis
    using True out assms(1) j
    by (auto simp: merge_line_def canonical_snoc map_graph_append map_graph_Cons line_continues_size map_graph_def[of "[]"])
next
  case False
  then show ?thesis
    using assms by (auto simp: merge_line_def canonical_snoc map_graph_append map_graph_Cons map_graph_def[of "[]"])
qed

definition in_order :: "IdMap list \<Rightarrow> bool" where
  "in_order ms \<longleftrightarrow> sorted_wrt (\<lambda>a b. first_id a + line_size a \<le> first_id b) ms"

lemma merge_all_keeps:
  assumes "canonical out" and "list_all good_line ms" and "in_order ms"
    and "out \<noteq> [] \<longrightarrow> (\<forall>m\<in>set ms. first_id (last out) + line_size (last out) \<le> first_id m)"
  shows "canonical (foldl merge_line out ms) \<and> map_graph (foldl merge_line out ms) = map_graph out \<union> map_graph ms"
  using assms
proof (induction ms arbitrary: out)
  case (Cons m ms)
  note keeps = merge_line_keeps[of out m]
  have "canonical (foldl merge_line (merge_line out m) ms) \<and>
      map_graph (foldl merge_line (merge_line out m) ms) = map_graph (merge_line out m) \<union> map_graph ms"
    using keeps Cons.prems by (intro Cons.IH) (auto simp: in_order_def)
  then show ?case using keeps Cons.prems by (auto simp: map_graph_Cons)
qed (simp add: map_graph_def)

lemma good_maps_distinct: "good_maps maps \<Longrightarrow> distinct maps"
proof (induction maps)
  case (Cons m maps)
  have "\<not> apart m m" using Cons.prems good_line_size[of m] by (auto simp: good_maps_def apart_def)
  then show ?case using Cons by (auto simp: good_maps_def list_all_iff)
qed simp

lemma sorted_in_order:
  assumes "good_maps maps"
  shows "in_order (sort_key im_container maps)"
  unfolding in_order_def sorted_wrt_iff_nth_less
proof (intro allI impI)
  let ?s = "sort_key im_container maps"
  fix i j assume ij: "i < j" "j < length ?s"
  let ?a = "?s ! i" and ?b = "?s ! j"
  have "sorted (map im_container ?s)" by simp
  then have "im_container ?a \<le> im_container ?b"
    using ij by (auto simp: sorted_iff_nth_mono_less)
  moreover have "?a \<noteq> ?b" using good_maps_distinct[OF assms] ij by (simp add: nth_eq_iff_index_eq)
  moreover have mem: "?a \<in> set maps" "?b \<in> set maps" using ij nth_mem[of _ ?s] by auto
  ultimately have "apart ?a ?b" using assms all_apart_distinct unfolding good_maps_def by blast
  moreover have "0 < line_size ?b" using assms mem good_line_size by (auto simp: good_maps_def list_all_iff)
  ultimately show "first_id ?a + line_size ?a \<le> first_id ?b"
    using \<open>im_container ?a \<le> im_container ?b\<close> by (auto simp: apart_def word_le_nat_alt)
qed

lemma merged_canonical:
  assumes "good_maps maps"
  shows "canonical (merged maps) \<and> map_graph (merged maps) = map_graph maps"
proof -
  have "map_graph (sort_key im_container maps) = map_graph maps" by (simp add: map_graph_def)
  then show ?thesis
    using merge_all_keeps[of "[]" "sort_key im_container maps"] sorted_in_order[OF assms] assms
    by (simp add: merged_def good_maps_def list_all_iff map_graph_def[of "[]"])
qed

lemma same_Some: "(\<And>y. a = Some y \<longleftrightarrow> b = Some y) \<Longrightarrow> a = b"
  by (cases a; cases b) auto

lemma same_lookup_same_graph:
  assumes "good_maps as" and "good_maps bs"
    and "\<And>i. find_map_list (\<lambda>m. to_host m i) as = find_map_list (\<lambda>m. to_host m i) bs"
  shows "map_graph as \<subseteq> map_graph bs"
proof
  fix p assume p: "p \<in> map_graph as"
  obtain i h where ih: "p = (i, h)" by (cases p)
  have "i < 2 ^ 32" "h < 2 ^ 32" using map_graph_bounds[OF assms(1)] p ih by force+
  then have word: "unat (of_nat i :: u32) = i" "unat (of_nat h :: u32) = h" by (simp_all add: unsigned_of_nat take_bit_nat_eq_self)
  then have "find_map_list (\<lambda>m. to_host m (of_nat i)) as = Some (of_nat h)"
    using p ih find_to_host_graph[OF assms(1)] by simp
  then show "p \<in> map_graph bs" using assms(3) find_to_host_graph[OF assms(2)] ih word by metis
qed

section \<open>Properties\<close>

lemma userns_plan_Some:
  assumes "userns_plan uids gids ns = Inr (Some u)"
  shows "good_maps (un_uids u)" and "good_maps (un_gids u)" and "uid_to_host u 0 \<noteq> None" and "gid_to_host u 0 \<noteq> None"
  using assms
  by (auto simp: userns_plan_def Let_def bind_result_Inr_iff validate_maps_iff split: if_splits)

lemma good_lookup:
  assumes "good_maps maps" and "find_map_list (\<lambda>m. to_host m i) maps = Some h"
  shows "h \<noteq> 0" and "h \<noteq> - 1"
    and "\<exists>m\<in>set maps. im_container m \<le> i \<and> unat i < first_id m + line_size m \<and>
      unat h = first_host m + (unat i - first_id m)"
    and "find_map_list (\<lambda>m. to_host m j) maps = Some h \<Longrightarrow> j = i"
proof -
  have g: "(unat i, unat h) \<in> map_graph maps" using assms find_to_host_graph by blast
  note bounds = map_graph_bounds[OF assms(1) g]
  show "h \<noteq> 0" using bounds(2) by auto
  have "unat (- 1 :: u32) = 2 ^ 32 - 1" by (simp add: unsigned_minus_1_eq_mask mask_eq_exp_minus_1)
  then show "h \<noteq> - 1" using bounds(3) by auto
  show "\<exists>m\<in>set maps. im_container m \<le> i \<and> unat i < first_id m + line_size m \<and>
      unat h = first_host m + (unat i - first_id m)"
    using g by (fastforce simp: map_graph_def line_graph_iff word_le_nat_alt)
  assume "find_map_list (\<lambda>m. to_host m j) maps = Some h"
  then have "(unat j, unat h) \<in> map_graph maps" using assms(1) find_to_host_graph by blast
  then show "j = i" using map_graph_functional[OF assms(1) g] by (metis word_unat_eq_iff)
qed

text \<open>C19: in a planned user namespace no uid or gid of the container stands for the host's root nor
  for the reserved id, no two stand for the same host id, root itself is mapped, and the sums behind
  every lookup stay below \<open>2^32\<close>.\<close>

theorem userns_ids_isolated:
  assumes "userns_plan uids gids ns = Inr (Some u)"
  shows "(\<exists>h. uid_to_host u 0 = Some h) \<and> (\<exists>h. gid_to_host u 0 = Some h) \<and>
    (\<forall>i h. uid_to_host u i = Some h \<longrightarrow> h \<noteq> 0 \<and> h \<noteq> - 1 \<and> (\<forall>j. uid_to_host u j = Some h \<longrightarrow> j = i) \<and>
       (\<exists>m\<in>set (un_uids u). im_container m \<le> i \<and> unat h = unat (im_host m) + (unat i - unat (im_container m)))) \<and>
    (\<forall>i h. gid_to_host u i = Some h \<longrightarrow> h \<noteq> 0 \<and> h \<noteq> - 1 \<and> (\<forall>j. gid_to_host u j = Some h \<longrightarrow> j = i) \<and>
       (\<exists>m\<in>set (un_gids u). im_container m \<le> i \<and> unat h = unat (im_host m) + (unat i - unat (im_container m))))"
proof -
  have look: "h \<noteq> 0 \<and> h \<noteq> - 1 \<and> (\<forall>j. find_map_list (\<lambda>m. to_host m j) maps = Some h \<longrightarrow> j = i) \<and>
       (\<exists>m\<in>set maps. im_container m \<le> i \<and> unat h = unat (im_host m) + (unat i - unat (im_container m)))"
    if "good_maps maps" "find_map_list (\<lambda>m. to_host m i) maps = Some h" for maps i h
    using good_lookup(1,2,4)[OF that] good_lookup(3)[OF that] by auto
  note plan = userns_plan_Some[OF assms]
  show ?thesis
    using plan(3,4) look[OF plan(1)] look[OF plan(2)] unfolding uid_to_host_def gid_to_host_def by simp
qed

text \<open>C20: comparing merged maps is comparing what they say: for two valid maps the merged lines are
  equal exactly if every id is looked up alike, however the lines were cut and ordered.\<close>

theorem merged_decides_same_map:
  assumes "validate_maps as = Inr as" and "validate_maps bs = Inr bs"
  shows "merged as = merged bs \<longleftrightarrow>
    (\<forall>i. find_map_list (\<lambda>m. to_host m i) as = find_map_list (\<lambda>m. to_host m i) bs)"
proof
  have good: "good_maps as" "good_maps bs" using assms by (simp_all add: validate_maps_iff)
  {
    assume "merged as = merged bs"
    then have "map_graph as = map_graph bs" using merged_canonical[OF good(1)] merged_canonical[OF good(2)] by simp
    then show "\<forall>i. find_map_list (\<lambda>m. to_host m i) as = find_map_list (\<lambda>m. to_host m i) bs"
      using find_to_host_graph[OF good(1)] find_to_host_graph[OF good(2)] by (intro allI same_Some) simp
  }
  assume "\<forall>i. find_map_list (\<lambda>m. to_host m i) as = find_map_list (\<lambda>m. to_host m i) bs"
  then have "map_graph as = map_graph bs"
    using same_lookup_same_graph[OF good] same_lookup_same_graph[OF good(2,1)] by auto
  then show "merged as = merged bs"
    using canonical_unique[of "merged as" "merged bs"] merged_canonical[OF good(1)] merged_canonical[OF good(2)] by simp
qed

abbreviation id_line :: "u32 \<Rightarrow> u32 \<Rightarrow> u32 \<Rightarrow> IdMap" where
  "id_line c h n \<equiv> \<lparr>im_container = c, im_host = h, im_size = n\<rparr>"

text \<open>A line has at most 33 characters, so only a map of more than 124 lines can be too long.\<close>

lemma map_text_length: "length (map_text maps) \<le> 33 * length maps"
proof (induction maps)
  case (Cons m maps)
  have "length (dec (unat w)) \<le> 10" for w :: u32
    using unat_bound[of w] by (intro dec_length) simp_all
  from this[of "im_container m"] this[of "im_host m"] this[of "im_size m"]
  have "length (map_line m) \<le> 33" by (simp add: map_line_def)
  then show ?case using Cons by (simp add: map_text_def)
qed (simp add: map_text_def)

lemma validate_short: "length maps \<le> 124 \<Longrightarrow> good_maps maps \<Longrightarrow> validate_maps maps = Inr maps"
  using map_text_length[of maps] by (simp add: validate_maps_iff MAX_EXTENTS_def MAX_MAP_TEXT_def)

lemma validate_examples:
  "validate_maps [id_line 10 1010 5, id_line 0 1000 10] = Inr [id_line 10 1010 5, id_line 0 1000 10]"
  "validate_maps [id_line 0 1000 15] = Inr [id_line 0 1000 15]"
  "validate_maps [id_line 0 100000 65536] = Inr [id_line 0 100000 65536]"
  "validate_maps [id_line 0 1 9] = Inr [id_line 0 1 9]"
  by (simp_all add: validate_short good_maps_def good_line_def apart_def)

theorem merged_decides_same_map_witness:
  "merged [id_line 10 1010 5, id_line 0 1000 10] = merged [id_line 0 1000 15] \<and>
   find_map_list (\<lambda>m. to_host m 12) [id_line 10 1010 5, id_line 0 1000 10] =
     find_map_list (\<lambda>m. to_host m 12) [id_line 0 1000 15]"
proof -
  have "merged [id_line 10 1010 5, id_line 0 1000 10] = merged [id_line 0 1000 15]" by (simp add: merged_def merge_line_def line_continues_def)
  then show ?thesis using merged_decides_same_map[OF validate_examples(1,2)] by blast
qed

theorem userns_ids_isolated_witness:
  "uid_to_host \<lparr>un_uids = [id_line 0 100000 65536], un_gids = [id_line 0 100000 65536]\<rparr> 0 = Some 100000 \<and>
   (\<exists>h. gid_to_host \<lparr>un_uids = [id_line 0 100000 65536], un_gids = [id_line 0 100000 65536]\<rparr> 0 = Some h)"
proof -
  let ?spec = "Some [\<lparr>lm_container_id = 0, lm_host_id = 100000, lm_size = 65536\<rparr>]"
  have "userns_plan ?spec ?spec \<lparr>ns_clone_flags = NEWUSER OR NEWPID, ns_new_cgroup = True, ns_joins = []\<rparr> =
      Inr (Some \<lparr>un_uids = [id_line 0 100000 65536], un_gids = [id_line 0 100000 65536]\<rparr>)"
    by (simp add: userns_plan_def new_user_def flags_contain_def NEWUSER_def NEWPID_def maps_from_spec_def
        IdMap_from_spec_def validate_examples uid_to_host_def gid_to_host_def to_host_def)
  from userns_ids_isolated[OF this] show ?thesis by (simp add: uid_to_host_def to_host_def)
qed

text \<open>Maps that have not been validated can wrap: a mount may give lines whose sizes add up to more
  than a \<open>u32\<close>, and they then pass for the container's own.\<close>

theorem merged_wraps:
  "own_map [id_line 0 1 10, id_line 10 11 0xFFFFFFFF] [id_line 0 1 9] \<and>
   validate_maps [id_line 0 1 9] = Inr [id_line 0 1 9]"
  by (simp add: validate_examples own_map_def merged_def merge_line_def line_continues_def)

end
