(* ===== verification/Durations.thy ===== *)
theory Durations
  imports Text
begin

text \<open>
  Durations in Go's syntax, \<^verbatim>\<open>rustlet-build/src/config.rs\<close>: how they are printed and parsed. A
  \<open>Duration\<close> is its number of nanoseconds. The parser computes in \<open>u128\<close> and ends with a \<open>u64\<close>, the
  checks of both are written out; its only error is \<open>None\<close>.
\<close>

definition micro :: string where
  "micro = [CHR 0xC2, CHR 0xB5]"

definition micro_greek :: string where
  "micro_greek = [CHR 0xCE, CHR 0xBC]"

text \<open>\<open>format!("{rest:0width$}")\<close> and \<open>trim_end_matches('0')\<close>.\<close>

definition pad_zeros :: "nat \<Rightarrow> string \<Rightarrow> string" where
  "pad_zeros width s = replicate (width - length s) (CHR ''0'') @ s"

definition trim_zeros :: "string \<Rightarrow> string" where
  "trim_zeros s = rev (dropWhile (\<lambda>c. c = CHR ''0'') (rev s))"

definition split_fraction :: "nat \<Rightarrow> nat \<Rightarrow> nat \<times> string" where
  "split_fraction val digits =
     (let scale = 10 ^ digits;
          rest = val mod scale;
          fraction = (if rest = 0 then [] else CHR ''.'' # trim_zeros (pad_zeros digits (dec rest)))
      in (val div scale, fraction))"

definition format_duration :: "nat \<Rightarrow> string" where
  "format_duration nanos =
     (if nanos = 0 then ''0s''
      else if nanos < 1000000000 then
        (let (unit, digits) = (if nanos < 1000 then (''ns'', 0)
                               else if nanos < 1000000 then (micro @ ''s'', 3) else (''ms'', 6));
             (whole, fraction) = split_fraction nanos digits
         in dec whole @ fraction @ unit)
      else
        (let (seconds, fraction) = split_fraction nanos 9;
             (hours, minutes, seconds) = (seconds div 3600, seconds div 60 mod 60, seconds mod 60)
         in if hours > 0 then dec hours @ ''h'' @ dec minutes @ ''m'' @ dec seconds @ fraction @ ''s''
            else if minutes > 0 then dec minutes @ ''m'' @ dec seconds @ fraction @ ''s''
            else dec seconds @ fraction @ ''s''))"

definition nanos_per :: "string \<Rightarrow> nat option" where
  "nanos_per unit =
     (if unit = ''ns'' then Some 1
      else if unit = ''us'' \<or> unit = micro @ ''s'' \<or> unit = micro_greek @ ''s'' then Some 1000
      else if unit = ''ms'' then Some 1000000
      else if unit = ''s'' then Some 1000000000
      else if unit = ''m'' then Some 60000000000
      else if unit = ''h'' then Some 3600000000000
      else None)"

definition checked_u128 :: "nat \<Rightarrow> nat option" where
  "checked_u128 n = (if n < 2 ^ 128 then Some n else None)"

text \<open>The digits after the point, each worth a tenth of the one before.\<close>

fun add_fraction :: "nat \<Rightarrow> nat \<Rightarrow> string \<Rightarrow> nat option" where
  "add_fraction scale part [] = Some part"
| "add_fraction scale part (c # cs) =
     (if is_digit c
      then (case checked_u128 (part + digit_value c * (scale div 10)) of
              None \<Rightarrow> None | Some part' \<Rightarrow> add_fraction (scale div 10) part' cs)
      else None)"

definition is_number_char :: "char \<Rightarrow> bool" where
  "is_number_char c \<longleftrightarrow> is_digit c \<or> c = CHR ''.''"

text \<open>A number in a unit.\<close>

definition duration_part :: "string \<Rightarrow> nat \<Rightarrow> nat option" where
  "duration_part number per =
     (let (whole, fraction) = (case split_once (CHR ''.'') number of Some p \<Rightarrow> p | None \<Rightarrow> (number, []))
      in if whole = [] \<and> fraction = [] then None
         else Option.bind (if whole = [] then Some 0 else parse_uint 128 whole) (\<lambda>w.
              Option.bind (checked_u128 (w * per)) (\<lambda>part. add_fraction per part fraction)))"

function duration_loop :: "nat \<Rightarrow> string \<Rightarrow> nat option" where
  "duration_loop acc rest =
     (if rest = [] then Some acc
      else
        let number = takeWhile is_number_char rest; after = dropWhile is_number_char rest in
        if after = [] then None
        else
          let unit = takeWhile (\<lambda>c. \<not> is_number_char c) after; more = dropWhile (\<lambda>c. \<not> is_number_char c) after in
          case nanos_per unit of
            None \<Rightarrow> None
          | Some per \<Rightarrow>
              (case duration_part number per of
                 None \<Rightarrow> None
               | Some part \<Rightarrow>
                   (case checked_u128 (acc + part) of None \<Rightarrow> None | Some acc' \<Rightarrow> duration_loop acc' more)))"
  by pat_completeness auto
termination
proof (relation "measure (\<lambda>(_, rest). length rest)", goal_cases)
  case (2 acc rest number after unit more per part acc')
  obtain c cs where c: "dropWhile is_number_char rest = c # cs" "\<not> is_number_char c"
    using 2 by (cases "dropWhile is_number_char rest") (auto simp: dropWhile_eq_Cons_conv)
  then have "length (dropWhile (\<lambda>c. \<not> is_number_char c) (c # cs)) \<le> length cs"
    using length_dropWhile_le[of _ cs] by simp
  moreover have "length (c # cs) \<le> length rest" using length_dropWhile_le[of is_number_char rest] c by simp
  ultimately show ?case using 2 c by simp
qed simp

declare duration_loop.simps [simp del]

definition parse_duration :: "string \<Rightarrow> nat option" where
  "parse_duration s =
     (let body = (case strip_prefix ''+'' (trim s) of Some t \<Rightarrow> t | None \<Rightarrow> trim s)
      in if body = ''0'' then Some 0
         else if body = [] \<or> hd body = CHR ''-'' then None
         else Option.bind (duration_loop 0 body) (\<lambda>acc. if acc < 2 ^ 64 then Some acc else None))"

end
