(* ===== verification/DurationsCorrect.thy ===== *)
theory DurationsCorrect
  imports Durations
begin

text \<open>
  Correctness of durations (theory \<^verbatim>\<open>Durations\<close>): parsing inverts printing.
\<close>

section \<open>Fractions\<close>

lemma digits_value_append: "digits_value (s @ t) = digits_value s * 10 ^ length t + digits_value t"
  by (induction t rule: rev_induct) (simp_all add: digits_value_def algebra_simps flip: append_assoc)

lemma digits_value_Cons: "digits_value (c # s) = digit_value c * 10 ^ length s + digits_value s"
  using digits_value_append[of "[c]" s] by (simp add: digits_value_def)

lemma digits_value_zeros: "digits_value (replicate n (CHR ''0'')) = 0"
  by (induction n) (simp_all add: digits_value_Cons digit_value_def digits_value_def[of "[]"])

lemma add_fraction_value:
  assumes "list_all is_digit s" and "length s \<le> k" and "part + 10 ^ k \<le> 2 ^ 128"
  shows "add_fraction (10 ^ k) part s = Some (part + digits_value s * 10 ^ (k - length s))"
  using assms
proof (induction s arbitrary: k part)
  case (Cons c s)
  then obtain j where k: "k = Suc j" by (cases k) auto
  have c: "digit_value c \<le> 9" using Cons.prems(1) by (auto simp: is_digit_def digit_value_def)
  then have "digit_value c * 10 ^ j + 10 ^ j \<le> 10 ^ k" by (simp add: k)
  then have fits: "part + digit_value c * 10 ^ j + 10 ^ j \<le> 2 ^ 128" using Cons.prems(3) by linarith
  moreover have "0 < (10 :: nat) ^ j" by simp
  ultimately have "part + digit_value c * 10 ^ j < 2 ^ 128" by linarith
  then have "add_fraction (10 ^ k) part (c # s) = add_fraction (10 ^ j) (part + digit_value c * 10 ^ j) s"
    using Cons.prems(1) by (simp add: k checked_u128_def)
  also have "\<dots> = Some (part + digit_value c * 10 ^ j + digits_value s * 10 ^ (j - length s))"
    using Cons.prems fits k by (intro Cons.IH) simp_all
  also have "digit_value c * 10 ^ j = digit_value c * 10 ^ length s * 10 ^ (j - length s)"
    using Cons.prems(2) k by (simp flip: power_add)
  finally show ?case using k by (simp add: digits_value_Cons algebra_simps)
qed (simp add: digits_value_def)

lemma trim_zeros_append: "\<exists>j. s = trim_zeros s @ replicate j (CHR ''0'')"
proof (rule exI)
  have "rev s = takeWhile (\<lambda>c. c = CHR ''0'') (rev s) @ dropWhile (\<lambda>c. c = CHR ''0'') (rev s)" by simp
  moreover have "takeWhile (\<lambda>c. c = CHR ''0'') (rev s) = replicate (length (takeWhile (\<lambda>c. c = CHR ''0'') (rev s))) (CHR ''0'')"
    by (rule replicate_length_same[symmetric]) (auto dest: set_takeWhileD)
  ultimately show "s = trim_zeros s @ replicate (length (takeWhile (\<lambda>c. c = CHR ''0'') (rev s))) (CHR ''0'')"
    unfolding trim_zeros_def by (metis rev_append rev_replicate rev_rev_ident)
qed

text \<open>The text of a fraction: nothing, or a point and digits.\<close>

definition fraction_text :: "string \<Rightarrow> bool" where
  "fraction_text f \<longleftrightarrow> f = [] \<or> (\<exists>ds. f = CHR ''.'' # ds \<and> list_all is_digit ds)"

lemma trimmed_fraction:
  assumes "v < 10 ^ k" and "0 < k"
  defines "t \<equiv> trim_zeros (pad_zeros k (dec v))"
  shows "list_all is_digit t" and "length t \<le> k" and "digits_value t * 10 ^ (k - length t) = v"
proof -
  let ?p = "pad_zeros k (dec v)"
  obtain j where j: "?p = t @ replicate j (CHR ''0'')" using trim_zeros_append t_def by blast
  have "list_all is_digit ?p" using dec_digits[of v] by (auto simp: pad_zeros_def list_all_iff is_digit_def)
  then show "list_all is_digit t" using j by simp
  have len: "length ?p = k" using dec_length[OF assms(1,2)] by (simp add: pad_zeros_def)
  then have k: "k = length t + j" using arg_cong[OF j, of length] by simp
  then show "length t \<le> k" by simp
  have "digits_value ?p = v" by (simp add: pad_zeros_def digits_value_append digits_value_zeros)
  moreover have "digits_value ?p = digits_value t * 10 ^ j"
    unfolding j by (simp add: digits_value_append digits_value_zeros)
  ultimately show "digits_value t * 10 ^ (k - length t) = v" using k by simp
qed

lemma split_fraction_text: "fraction_text (snd (split_fraction v k))"
proof (cases "v mod 10 ^ k = 0")
  case False
  then have "0 < k" by (cases k) auto
  then show ?thesis
    using False trimmed_fraction(1)[of "v mod 10 ^ k" k] by (auto simp: split_fraction_def Let_def fraction_text_def)
qed (simp add: split_fraction_def Let_def fraction_text_def)

lemma dec_no_point: "CHR ''.'' \<notin> set (dec n)"
  by (rule dec_no) (simp add: is_digit_def)

lemma duration_part_whole:
  assumes "a < 2 ^ 128" and "a * per < 2 ^ 128"
  shows "duration_part (dec a) per = Some (a * per)"
proof -
  have "split_once (CHR ''.'') (dec a) = None" using dec_no_point by (simp add: split_once_None)
  then show ?thesis using assms by (simp add: duration_part_def checked_u128_def)
qed

lemma duration_part_fraction:
  assumes "a < 2 ^ 64" and "k \<le> 9"
  shows "duration_part (dec a @ snd (split_fraction v k)) (10 ^ k) = Some (a * 10 ^ k + v mod 10 ^ k)"
proof -
  have "10 ^ k \<le> (10 :: nat) ^ 9" using assms(2) by (intro power_increasing) simp_all
  then have "a * 10 ^ k \<le> 2 ^ 64 * 10 ^ 9" using assms(1) by (intro mult_mono) simp_all
  then have fits: "a * 10 ^ k + 10 ^ k \<le> 2 ^ 128" "a * 10 ^ k < 2 ^ 128" "a < 2 ^ 128"
    using \<open>10 ^ k \<le> 10 ^ 9\<close> assms(1) by simp_all
  show ?thesis
  proof (cases "v mod 10 ^ k = 0")
    case True
    then show ?thesis using duration_part_whole[OF fits(3,2)] by (simp add: split_fraction_def Let_def)
  next
    case False
    then have k: "0 < k" by (cases k) auto
    let ?t = "trim_zeros (pad_zeros k (dec (v mod 10 ^ k)))"
    note t = trimmed_fraction[of "v mod 10 ^ k" k]
    have "add_fraction (10 ^ k) (a * 10 ^ k) ?t = Some (a * 10 ^ k + v mod 10 ^ k)"
      using add_fraction_value[OF t(1,2) fits(1)] t(3) k by simp
    moreover have "split_once (CHR ''.'') (dec a @ CHR ''.'' # ?t) = Some (dec a, ?t)"
      using dec_no_point by (rule split_once_append)
    ultimately show ?thesis
      using False fits by (simp add: split_fraction_def Let_def duration_part_def checked_u128_def)
  qed
qed

lemma number_chars:
  "list_all is_number_char (dec n)" "fraction_text f \<Longrightarrow> list_all is_number_char f"
  using dec_digits[of n] by (auto simp: list_all_iff is_number_char_def fraction_text_def)

lemma duration_step:
  assumes "fraction_text f" and "u \<noteq> []" and "list_all (\<lambda>c. \<not> is_number_char c) u" and "nanos_per u = Some per"
    and "more = [] \<or> is_number_char (hd more)" and "duration_part (dec a @ f) per = Some part" and "acc + part < 2 ^ 128"
  shows "duration_loop acc (dec a @ f @ u @ more) = duration_loop (acc + part) more"
proof -
  have num: "\<forall>c\<in>set (dec a @ f). is_number_char c" using number_chars assms(1) by (auto simp: list_all_iff)
  have u: "\<forall>c\<in>set u. \<not> is_number_char c" using assms(3) by (simp add: list_all_iff)
  have after: "dropWhile is_number_char (u @ more) = u @ more" "takeWhile is_number_char (u @ more) = []"
    using u assms(2) by (cases u; simp)+
  have "takeWhile is_number_char ((dec a @ f) @ u @ more) = dec a @ f" "dropWhile is_number_char ((dec a @ f) @ u @ more) = u @ more"
    using num after by (simp_all only: takeWhile_append2 dropWhile_append2 append_Nil2)
  moreover have "takeWhile (\<lambda>c. \<not> is_number_char c) more = []" "dropWhile (\<lambda>c. \<not> is_number_char c) more = more"
    using assms(5) by (cases more; simp)+
  then have "takeWhile (\<lambda>c. \<not> is_number_char c) (u @ more) = u" "dropWhile (\<lambda>c. \<not> is_number_char c) (u @ more) = more"
    using u by (simp_all add: takeWhile_append2 dropWhile_append2)
  ultimately show ?thesis
    using assms(2,4,6,7) by (subst duration_loop.simps) (simp add: checked_u128_def)
qed

section \<open>Printing and parsing\<close>

lemma non_number [simp]:
  "\<not> is_number_char (CHR ''n'')" "\<not> is_number_char (CHR ''s'')" "\<not> is_number_char (CHR ''m'')"
  "\<not> is_number_char (CHR ''h'')" "list_all (\<lambda>c. \<not> is_number_char c) micro"
  by (simp_all add: is_number_char_def is_digit_def micro_def)

lemma unit_values:
  "nanos_per ''ns'' = Some 1" "nanos_per (micro @ ''s'') = Some 1000" "nanos_per ''ms'' = Some 1000000"
  "nanos_per ''s'' = Some 1000000000" "nanos_per ''m'' = Some 60000000000" "nanos_per ''h'' = Some 3600000000000"
  by (simp_all add: nanos_per_def micro_def micro_greek_def)

lemma hd_dec: "is_digit (hd (dec n @ s))"
  using dec_digits[of n] dec_not_Nil[of n] by (cases "dec n") auto

text \<open>The last part of a printed duration: a number with a fraction, in a unit that is a power of ten.\<close>

lemma duration_last:
  assumes "u \<noteq> []" and "list_all (\<lambda>c. \<not> is_number_char c) u" and "nanos_per u = Some (10 ^ k)" and "k \<le> 9"
    and "a < 2 ^ 64" and "acc + a * 10 ^ k + v mod 10 ^ k < 2 ^ 128"
  shows "duration_loop acc (dec a @ snd (split_fraction v k) @ u) = Some (acc + a * 10 ^ k + v mod 10 ^ k)"
proof -
  have "duration_loop acc (dec a @ snd (split_fraction v k) @ u @ []) = duration_loop (acc + (a * 10 ^ k + v mod 10 ^ k)) []"
    using assms duration_part_fraction[OF assms(5,4)]
    by (intro duration_step[OF split_fraction_text assms(1-3)]) (simp_all add: add.assoc)
  then show ?thesis by (simp add: duration_loop.simps[of _ "[]"] add.assoc)
qed

text \<open>A whole number of hours or minutes before the rest.\<close>

lemma duration_whole:
  assumes "u \<noteq> []" and "list_all (\<lambda>c. \<not> is_number_char c) u" and "nanos_per u = Some per"
    and "more \<noteq> []" and "is_digit (hd more)" and "a < 2 ^ 64" and "per \<le> 2 ^ 42" and "acc < 2 ^ 107"
  shows "duration_loop acc (dec a @ u @ more) = duration_loop (acc + a * per) more"
proof -
  have "a * per \<le> 2 ^ 64 * 2 ^ 42" using assms(6,7) by (intro mult_mono) simp_all
  then have "a * per < 2 ^ 128" "acc + a * per < 2 ^ 128" "a < 2 ^ 128" using assms(6,8) by simp_all
  then show ?thesis
    using duration_step[of "[]" u per more a "a * per" acc] assms duration_part_whole[of a per]
    by (simp add: fraction_text_def is_number_char_def)
qed

lemma sexagesimal: "(s :: nat) div 3600 * 3600 + s div 60 mod 60 * 60 + s mod 60 = s"
proof -
  have "h * 60 + m = q \<Longrightarrow> q * 60 + x = s \<Longrightarrow> h * 3600 + m * 60 + x = s" for h m q x :: nat by simp
  from this[OF div_mult_mod_eq div_mult_mod_eq] show ?thesis by (simp add: div_mult2_eq[symmetric])
qed

lemma duration_small:
  assumes "n < 2 ^ 64" and "u \<noteq> []" and "list_all (\<lambda>c. \<not> is_number_char c) u" and "nanos_per u = Some (10 ^ k)" and "k \<le> 9"
  shows "duration_loop 0 (dec (n div 10 ^ k) @ snd (split_fraction n k) @ u) = Some n"
proof -
  have big: "n < 2 ^ 128" using assms(1) by (rule less_trans) simp
  have "n div 10 ^ k < 2 ^ 64" using assms(1) le_less_trans[OF div_le_dividend] by blast
  then have "duration_loop 0 (dec (n div 10 ^ k) @ snd (split_fraction n k) @ u) =
      Some (0 + n div 10 ^ k * 10 ^ k + n mod 10 ^ k)"
    using assms(2-) big by (intro duration_last) (simp_all only: add_0 div_mult_mod_eq not_False_eq_True)
  then show ?thesis by (simp only: add_0 div_mult_mod_eq)
qed

lemma duration_seconds:
  assumes "acc < 2 ^ 107"
  shows "duration_loop acc (dec (n div 10 ^ 9 mod 60) @ snd (split_fraction n 9) @ ''s'') =
    Some (acc + n div 10 ^ 9 mod 60 * 10 ^ 9 + n mod 10 ^ 9)"
proof (rule duration_last)
  have s: "(n div 10 ^ 9) mod 60 < 60" "n mod 10 ^ 9 < 10 ^ 9" by simp_all
  from s(1) show "(n div 10 ^ 9) mod 60 < 2 ^ 64" by (rule less_trans) simp
  show "acc + (n div 10 ^ 9) mod 60 * 10 ^ 9 + n mod 10 ^ 9 < 2 ^ 128" using s assms by simp
qed (simp_all add: unit_values)

lemma duration_minutes:
  assumes "acc < 2 ^ 106"
  shows "duration_loop acc (dec (n div 10 ^ 9 div 60 mod 60) @ ''m'' @ dec (n div 10 ^ 9 mod 60) @ snd (split_fraction n 9) @ ''s'') =
    Some (acc + n div 10 ^ 9 div 60 mod 60 * 60000000000 + n div 10 ^ 9 mod 60 * 10 ^ 9 + n mod 10 ^ 9)"
proof -
  have m: "(n div 10 ^ 9) div 60 mod 60 < 60" by simp
  have "duration_loop acc (dec ((n div 10 ^ 9) div 60 mod 60) @ ''m'' @ dec ((n div 10 ^ 9) mod 60) @ snd (split_fraction n 9) @ ''s'') =
      duration_loop (acc + (n div 10 ^ 9) div 60 mod 60 * 60000000000) (dec ((n div 10 ^ 9) mod 60) @ snd (split_fraction n 9) @ ''s'')"
    using assms m hd_dec by (intro duration_whole) (simp_all add: unit_values)
  also have "\<dots> = Some (acc + (n div 10 ^ 9) div 60 mod 60 * 60000000000 + (n div 10 ^ 9) mod 60 * 10 ^ 9 + n mod 10 ^ 9)"
    using assms m by (intro duration_seconds) simp
  finally show ?thesis .
qed

lemma duration_hours:
  assumes "n < 2 ^ 64"
  shows "duration_loop 0 (dec (n div 10 ^ 9 div 3600) @ ''h'' @ dec (n div 10 ^ 9 div 60 mod 60) @ ''m'' @
      dec (n div 10 ^ 9 mod 60) @ snd (split_fraction n 9) @ ''s'') =
    Some (n div 10 ^ 9 div 3600 * 3600000000000 + n div 10 ^ 9 div 60 mod 60 * 60000000000 + n div 10 ^ 9 mod 60 * 10 ^ 9 + n mod 10 ^ 9)"
proof -
  have h: "(n div 10 ^ 9) div 3600 < 2 ^ 64" using assms by (simp add: div_mult2_eq[symmetric] less_mult_imp_div_less)
  have "duration_loop 0 (dec ((n div 10 ^ 9) div 3600) @ ''h'' @ dec ((n div 10 ^ 9) div 60 mod 60) @ ''m'' @ dec ((n div 10 ^ 9) mod 60) @ snd (split_fraction n 9) @ ''s'') =
      duration_loop (0 + (n div 10 ^ 9) div 3600 * 3600000000000) (dec ((n div 10 ^ 9) div 60 mod 60) @ ''m'' @ dec ((n div 10 ^ 9) mod 60) @ snd (split_fraction n 9) @ ''s'')"
    using h hd_dec by (intro duration_whole) (simp_all add: unit_values)
  also have "\<dots> = Some (0 + (n div 10 ^ 9) div 3600 * 3600000000000 + (n div 10 ^ 9) div 60 mod 60 * 60000000000 + (n div 10 ^ 9) mod 60 * 10 ^ 9 + n mod 10 ^ 9)"
    using h by (intro duration_minutes) simp
  finally show ?thesis by simp
qed

lemma duration_sum:
  "n div 10 ^ 9 div 3600 * 3600000000000 + n div 10 ^ 9 div 60 mod 60 * 60000000000 + n div 10 ^ 9 mod 60 * 10 ^ 9 + n mod 10 ^ 9 = (n :: nat)"
proof -
  have "h * 3600 + m * 60 + x = s \<Longrightarrow> s * 10 ^ 9 + f = n \<Longrightarrow>
      h * 3600000000000 + m * 60000000000 + x * 10 ^ 9 + f = n" for h m x s f :: nat by simp
  from this[OF sexagesimal div_mult_mod_eq] show ?thesis .
qed

text \<open>The printed form, by size.\<close>

lemma format_duration_cases:
  "format_duration n =
      (if n = 0 then ''0s''
       else if n < 1000000000 then
         (if n < 1000 then dec (n div 10 ^ 0) @ snd (split_fraction n 0) @ ''ns''
          else if n < 1000000 then dec (n div 10 ^ 3) @ snd (split_fraction n 3) @ micro @ ''s''
          else dec (n div 10 ^ 6) @ snd (split_fraction n 6) @ ''ms'')
       else if (n div 10 ^ 9) div 3600 > 0 then dec ((n div 10 ^ 9) div 3600) @ ''h'' @ dec ((n div 10 ^ 9) div 60 mod 60) @ ''m'' @ dec ((n div 10 ^ 9) mod 60) @ snd (split_fraction n 9) @ ''s''
       else if (n div 10 ^ 9) div 60 mod 60 > 0 then dec ((n div 10 ^ 9) div 60 mod 60) @ ''m'' @ dec ((n div 10 ^ 9) mod 60) @ snd (split_fraction n 9) @ ''s''
       else dec ((n div 10 ^ 9) mod 60) @ snd (split_fraction n 9) @ ''s'')"
proof -
  have whole: "fst (split_fraction n k) = n div 10 ^ k" for k
    by (simp add: split_fraction_def Let_def)
  show ?thesis by (simp add: format_duration_def split_beta Let_def whole)
qed

lemma loop_format:
  assumes "n < 2 ^ 64"
  shows "duration_loop 0 (format_duration n) = Some n"
proof -
  note texts = format_duration_cases[of n]
  have zero: "''0s'' = dec (0 div 10 ^ 9) @ snd (split_fraction 0 9) @ ''s''"
    using digit_char_0[of 0, THEN iffD2, symmetric] by (simp add: dec.simps split_fraction_def)
  consider "n = 0" | "n \<noteq> 0" "n < 1000" | "1000 \<le> n" "n < 1000000" | "1000000 \<le> n" "n < 1000000000"
    | "1000000000 \<le> n" by linarith
  then show ?thesis
  proof cases
    case 1
    then show ?thesis using duration_small[OF assms, of "''s''" 9] texts zero unit_values(4) by simp
  next
    case 2
    then show ?thesis using duration_small[OF assms, of "''ns''" 0] texts unit_values(1) by simp
  next
    case 3
    then show ?thesis using duration_small[OF assms, of "micro @ ''s''" 3] texts unit_values(2) by simp
  next
    case 4
    then show ?thesis using duration_small[OF assms, of "''ms''" 6] texts unit_values(3) by simp
  next
    case 5
    then show ?thesis using texts duration_hours[OF assms] duration_minutes[of 0 n] duration_seconds[of 0 n] duration_sum[of n] by auto
  qed
qed

lemma trim_same:
  assumes "s \<noteq> []" and "\<not> is_space (hd s)" and "\<not> is_space (last s)"
  shows "trim s = s"
proof -
  have "dropWhile is_space s = s" using assms by (cases s) auto
  moreover have "dropWhile is_space (rev s) = rev s" using assms by (cases s rule: rev_cases) auto
  ultimately show ?thesis by (simp add: trim_def trim_start_def trim_end_def)
qed

lemma format_duration_ends:
  "format_duration n \<noteq> []" "is_digit (hd (format_duration n))" "last (format_duration n) = CHR ''s''"
  using hd_dec by (auto simp: format_duration_def split_beta Let_def is_digit_def[of "CHR ''0''"])

text \<open>C21: a duration that fits 64 bits of nanoseconds comes back from its printed form, in every unit
  and with every fraction.\<close>

theorem duration_roundtrip:
  assumes "n < 2 ^ 64"
  shows "parse_duration (format_duration n) = Some n"
proof -
  let ?t = "format_duration n"
  have hd: "hd ?t \<noteq> CHR ''+''" "hd ?t \<noteq> CHR ''-''" "\<not> is_space (hd ?t)"
    using format_duration_ends(2)[of n] by (auto simp: is_digit_def is_space_def Let_def)
  have "trim ?t = ?t"
    using format_duration_ends[of n] hd(3) by (intro trim_same) (auto simp: is_space_def)
  moreover have "strip_prefix ''+'' ?t = None" using hd(1) by (cases ?t) auto
  moreover have "?t \<noteq> ''0''" using format_duration_ends(3)[of n] by auto
  ultimately show ?thesis
    using loop_format[OF assms] assms hd(2) format_duration_ends(1)[of n] by (simp add: parse_duration_def)
qed

theorem duration_roundtrip_witness: "parse_duration (format_duration 5430500000000) = Some 5430500000000"
  by (rule duration_roundtrip) simp

end
