(* ===== verification/Dockerfile.thy ===== *)
theory Dockerfile
  imports Durations
begin

text \<open>
  The Containerfile parser, \<^verbatim>\<open>rustlet-build/src/parser.rs\<close>, with the two checks of healthcheck
  options it takes from \<^verbatim>\<open>op.rs\<close>: directives, logical lines, instructions and their flags, stages.
  \<open>serde_json\<close> is the parameter \<open>json\<close>, the parsed value of a text or nothing. Error and warning
  texts are constructors that keep what they mention; character classes are ASCII.
\<close>

section \<open>Data\<close>

record ArgDecl =
  ad_name :: string
  ad_default :: "string option"

datatype Command = CmdShell string | CmdExec "string list"

datatype Args = ArgsJson "string list" | ArgsShell string

record CopyArgs =
  ca_from :: "string option"
  ca_chown :: "string option"
  ca_chmod :: "string option"
  ca_args :: Args

record HealthOptions =
  hc_command :: Command
  hc_interval :: "string option"
  hc_timeout :: "string option"
  hc_start_period :: "string option"
  hc_start_interval :: "string option"
  hc_retries :: "string option"

datatype Healthcheck = HealthcheckNone | HealthcheckCheck HealthOptions

datatype InstructionKind =
    Run Command
  | Cmd Command
  | Entrypoint Command
  | Copy CopyArgs
  | Add CopyArgs
  | Env "(string \<times> string) list"
  | Arg "ArgDecl list"
  | Label "(string \<times> string) list"
  | Workdir string
  | User string
  | Expose string
  | Volume Args
  | StopSignal string
  | HealthcheckInst Healthcheck
  | Shell "string list"
  | Maintainer string
  | Onbuild string

record Instruction =
  in_line :: nat
  in_original :: string
  in_kind :: InstructionKind

record Stage =
  st_index :: nat
  st_name :: "string option"
  st_base :: string
  st_platform :: "string option"
  st_line :: nat
  st_instructions :: "Instruction list"

datatype Warning = EmptyContinuation nat | MaintainerDeprecated nat

record Containerfile =
  cf_escape :: char
  cf_global_args :: "ArgDecl list"
  cf_stages :: "Stage list"
  cf_warnings :: "Warning list"

datatype Fault =
    AtLeastOne string
  | ExactlyOne string
  | BuildkitFlag string string
  | UnknownFlag string string
  | FlagNeedsValue string string
  | FlagTwice string string
  | PlatformUnsupported string
  | FromArguments
  | InvalidStageName string
  | StageNamedScratch
  | NotOnlyStrings
  | TooFewArguments string
  | FromVariable
  | TwoArguments string
  | NoEquals string string
  | EmptyNames string
  | Heredoc string
  | HealthcheckArgument
  | HealthcheckNoneArguments
  | HealthcheckNoCommand
  | HealthcheckUnknown string
  | HealthInvalid string string
  | HealthTooShort string string
  | HealthTooLong string string
  | RetriesNotNumber string
  | RetriesNegative string
  | RetriesTooMany string
  | ShellNotJson
  | OnbuildOnbuild
  | OnbuildTrigger string
  | OnbuildUnknown string
  | UnknownInstruction string
  | DuplicateStage string nat
  | BeforeFrom string
  | NoFrom
  | NoInstruction
  | SeveralInstructions
  | FromNotHere
  | OneDirective string
  | InvalidEscape string

text \<open>\<open>ParseError\<close>: the line, 0 for the whole file, and the message.\<close>

type_synonym ParseError = "nat \<times> Fault"

datatype JsonValue = JString string | JArray "JsonValue list" | JOther

section \<open>Characters and words\<close>

definition DEFAULT_ESCAPE :: char where
  "DEFAULT_ESCAPE = CHR 0x5C"

definition INSTRUCTIONS :: "string list" where
  "INSTRUCTIONS = [''ADD'', ''ARG'', ''CMD'', ''COPY'', ''ENTRYPOINT'', ''ENV'', ''EXPOSE'', ''FROM'', ''HEALTHCHECK'',
     ''LABEL'', ''MAINTAINER'', ''ONBUILD'', ''RUN'', ''SHELL'', ''STOPSIGNAL'', ''USER'', ''VOLUME'', ''WORKDIR'']"

definition upper :: "string \<Rightarrow> string" where
  "upper s = map to_upper s"

definition lower :: "string \<Rightarrow> string" where
  "lower s = map to_lower s"

definition is_go_space :: "char \<Rightarrow> bool" where
  "is_go_space c \<longleftrightarrow> c \<in> {CHR 0x20, CHR 0x09, CHR 0x0A, CHR 0x0C, CHR 0x0D}"

definition is_word_blank :: "char \<Rightarrow> bool" where
  "is_word_blank c \<longleftrightarrow> c \<in> {CHR 0x20, CHR 0x09, CHR 0x0B, CHR 0x0C, CHR 0x0D}"

definition starts_with :: "string \<Rightarrow> string \<Rightarrow> bool" where
  "starts_with p s \<longleftrightarrow> strip_prefix p s \<noteq> None"

text \<open>\<open>str::lines\<close>: a carriage return goes only with the newline after it.\<close>

definition strip_cr :: "string \<Rightarrow> string" where
  "strip_cr l = (case strip_suffix [CHR 0x0D] l of Some l' \<Rightarrow> l' | None \<Rightarrow> l)"

definition str_lines :: "string \<Rightarrow> string list" where
  "str_lines s = (let ls = split_on (CHR 0x0A) s
     in map strip_cr (butlast ls) @ (if last ls = [] then [] else [last ls]))"

definition split_blank_once :: "string \<Rightarrow> string \<times> string" where
  "split_blank_once s =
     (takeWhile (\<lambda>c. \<not> is_word_blank c) s, dropWhile is_word_blank (dropWhile (\<lambda>c. \<not> is_word_blank c) s))"

definition split_keyword :: "string \<Rightarrow> string \<times> string" where
  "split_keyword s = split_blank_once (trim s)"

section \<open>Directives and logical lines\<close>

definition directive :: "string \<Rightarrow> (string \<times> string) option" where
  "directive line =
     Option.bind (strip_prefix ''#'' (trim_start line)) (\<lambda>r.
       let rest = dropWhile is_go_space r;
           key = takeWhile is_alnum rest;
           rest = dropWhile is_alnum rest
       in if key = [] \<or> \<not> is_alpha (hd key) then None
          else Option.bind (strip_prefix ''='' (dropWhile is_go_space rest)) (\<lambda>v.
            let val = rev (dropWhile is_go_space (rev (dropWhile is_go_space v)))
            in if val \<noteq> [] then Some (key, val) else None))"

fun directives_loop :: "nat \<Rightarrow> char \<Rightarrow> string list \<Rightarrow> string list \<Rightarrow> ParseError + char" where
  "directives_loop i esc seen [] = Inr esc"
| "directives_loop i esc seen (line # lines) =
     (case directive line of
        None \<Rightarrow> Inr esc
      | Some (k, val) \<Rightarrow>
          let key = lower k in
          if key \<notin> {''escape'', ''syntax'', ''check''} then Inr esc
          else if key \<in> set seen then Inl (i + 1, OneDirective key)
          else if key = ''escape'' then
            (if val = [CHR 0x5C] then directives_loop (i + 1) (CHR 0x5C) (seen @ [key]) lines
             else if val = [CHR 0x60] then directives_loop (i + 1) (CHR 0x60) (seen @ [key]) lines
             else Inl (i + 1, InvalidEscape val))
          else directives_loop (i + 1) esc (seen @ [key]) lines)"

definition directives :: "string list \<Rightarrow> ParseError + char" where
  "directives lines = directives_loop 0 DEFAULT_ESCAPE [] lines"

record Logical =
  lg_line :: nat
  lg_text :: string

definition Logical_original :: "Logical \<Rightarrow> string" where
  "Logical_original l = trim_end (lg_text l)"

definition Logical_keyword :: "Logical \<Rightarrow> string" where
  "Logical_keyword l = upper (fst (split_keyword (lg_text l)))"

definition continuation :: "string \<Rightarrow> char \<Rightarrow> string \<times> bool" where
  "continuation line esc =
     (case strip_suffix [esc] (rev (dropWhile (\<lambda>c. c = CHR 0x20 \<or> c = CHR 0x09) (rev line))) of
        Some part \<Rightarrow> if part = [] \<or> last part \<noteq> esc then (part, True) else (line, False)
      | None \<Rightarrow> (line, False))"

text \<open>The inner loop: the text, the warnings, and the lines left with the number of those read.\<close>

fun continue_lines :: "char \<Rightarrow> nat \<Rightarrow> string \<Rightarrow> string list \<Rightarrow> string \<times> Warning list \<times> nat \<times> string list" where
  "continue_lines esc read acc [] = (acc, [], read, [])"
| "continue_lines esc read acc (raw # lines) =
     (let trimmed = trim_start raw in
      if starts_with ''#'' trimmed then continue_lines esc (read + 1) acc lines
      else if trimmed = [] then
        (let (t, ws, r, ls) = continue_lines esc (read + 1) acc lines in (t, EmptyContinuation (read + 1) # ws, r, ls))
      else
        let (part, more) = continuation raw esc in
        if more then continue_lines esc (read + 1) (acc @ part) lines else (acc @ part, [], read + 1, lines))"

lemma continue_lines_length:
  "continue_lines esc read acc lines = (t, ws, r, ls) \<Longrightarrow> length ls \<le> length lines"
  by (induction esc read acc lines arbitrary: t ws r ls rule: continue_lines.induct)
     (fastforce simp: Let_def split: if_splits prod.splits)+

function logical_lines :: "char \<Rightarrow> nat \<Rightarrow> string list \<Rightarrow> Logical list \<times> Warning list" where
  "logical_lines esc read [] = ([], [])"
| "logical_lines esc read (l # lines) =
     (let first = trim_start l in
      if first = [] \<or> starts_with ''#'' first then logical_lines esc (read + 1) lines
      else
        let (part, continues) = continuation first esc;
            (t, ws, r, ls) = (if continues then continue_lines esc (read + 1) part lines else (part, [], read + 1, lines));
            (out, ws') = logical_lines esc r ls
        in (if trim t \<noteq> [] then \<lparr>lg_line = read + 1, lg_text = t\<rparr> # out else out, ws @ ws'))"
  by pat_completeness auto
termination
  by (relation "measure (\<lambda>(_, _, lines). length lines)")
     (auto split: if_splits dest: continue_lines_length[OF sym] simp: less_Suc_eq_le)

declare logical_lines.simps(2) [simp del]

section \<open>Flags\<close>

text \<open>The loop of \<open>extract_flags\<close>: the flags so far, the word, whether there is one, the open quote.\<close>

fun extract_loop :: "char \<Rightarrow> string list \<Rightarrow> string \<Rightarrow> bool \<Rightarrow> char option \<Rightarrow> string \<Rightarrow> string list \<times> string" where
  "extract_loop esc flags word in_word quote [] =
     (if in_word \<and> word \<noteq> ''--'' then flags @ [word] else flags, [])"
| "extract_loop esc flags word in_word quote (c # cs) =
     (if \<not> in_word \<and> is_space c then extract_loop esc flags word in_word quote cs
      else if \<not> in_word \<and> \<not> starts_with ''--'' (c # cs) then (flags, c # cs)
      else case quote of
        Some q \<Rightarrow>
          if c = q then extract_loop esc flags word True None cs
          else if c = esc then
            (case cs of
               x # xs \<Rightarrow> extract_loop esc flags (word @ [x]) True quote xs
             | [] \<Rightarrow> extract_loop esc flags word True None [])
          else extract_loop esc flags (word @ [c]) True quote cs
      | None \<Rightarrow>
          if is_space c then
            (if word = ''--'' then (flags, c # cs) else extract_loop esc (flags @ [word]) [] False None cs)
          else if c = CHR 0x27 \<or> c = CHR 0x22 then extract_loop esc flags word True (Some c) cs
          else if c = esc then
            (case cs of
               x # xs \<Rightarrow> extract_loop esc flags (word @ [x]) True None xs
             | [] \<Rightarrow> extract_loop esc flags word True None [])
          else extract_loop esc flags (word @ [c]) True None cs)"

definition extract_flags :: "string \<Rightarrow> char \<Rightarrow> string list \<times> string" where
  "extract_flags args esc = extract_loop esc [] [] False None args"

text \<open>The flags' values by name, in a map as \<open>BTreeMap\<close> is one.\<close>

fun check_flags_loop :: "string \<Rightarrow> string list \<Rightarrow> string list \<Rightarrow> (string \<rightharpoonup> string) \<Rightarrow> string list \<Rightarrow>
    Fault + (string \<rightharpoonup> string)" where
  "check_flags_loop inst allowed buildkit vals [] = Inr vals"
| "check_flags_loop inst allowed buildkit vals (f # flags) =
     (let flag = (case strip_prefix ''--'' f of Some g \<Rightarrow> g | None \<Rightarrow> f);
          (name, val) = (case split_once (CHR ''='') flag of Some (n, v) \<Rightarrow> (n, Some v) | None \<Rightarrow> (flag, None))
      in if name \<in> set buildkit then Inl (BuildkitFlag inst name)
         else if name \<notin> set allowed then Inl (UnknownFlag inst name)
         else case val of
                None \<Rightarrow> Inl (FlagNeedsValue inst name)
              | Some v \<Rightarrow>
                  if vals name \<noteq> None then Inl (FlagTwice inst name)
                  else check_flags_loop inst allowed buildkit (vals(name \<mapsto> v)) flags)"

definition check_flags :: "string \<Rightarrow> string list \<Rightarrow> string list \<Rightarrow> string list \<Rightarrow> Fault + (string \<rightharpoonup> string)" where
  "check_flags inst flags allowed buildkit = check_flags_loop inst allowed buildkit Map.empty flags"

text \<open>\<open>filter(|v| !v.is_empty())\<close>: an empty value is no value.\<close>

definition nonempty :: "string option \<Rightarrow> string option" where
  "nonempty v = (if v = Some [] then None else v)"

section \<open>Words\<close>

text \<open>The loop of \<open>split_words\<close>, with the word and the open quote.\<close>

fun split_words_loop :: "char \<Rightarrow> string \<Rightarrow> char option \<Rightarrow> string \<Rightarrow> string list" where
  "split_words_loop esc word quote [] = (if word \<noteq> [] then [word] else [])"
| "split_words_loop esc word quote (c # cs) =
     (case quote of
        Some q \<Rightarrow>
          if c = q then split_words_loop esc (word @ [c]) None cs
          else if c = esc \<and> q \<noteq> CHR 0x27 then
            (case cs of
               x # xs \<Rightarrow> split_words_loop esc (word @ [c, x]) quote xs
             | [] \<Rightarrow> split_words_loop esc word None [])
          else split_words_loop esc (word @ [c]) quote cs
      | None \<Rightarrow>
          if is_space c then
            (if word \<noteq> [] then word # split_words_loop esc [] None cs else split_words_loop esc word None cs)
          else if c = esc then
            (case cs of
               x # xs \<Rightarrow> split_words_loop esc (word @ [c, x]) None xs
             | [] \<Rightarrow> split_words_loop esc word None [])
          else split_words_loop esc (word @ [c]) (if c = CHR 0x27 \<or> c = CHR 0x22 then Some c else None) cs)"

definition split_words :: "string \<Rightarrow> char \<Rightarrow> string list" where
  "split_words s esc = split_words_loop esc [] None s"

section \<open>Heredocs\<close>

definition is_heredoc :: "string \<Rightarrow> bool" where
  "is_heredoc word =
     (case strip_prefix ''<<'' (dropWhile is_digit word) of
        None \<Rightarrow> False
      | Some rest \<Rightarrow>
          let delimiter = (case strip_prefix ''-'' rest of Some d \<Rightarrow> d | None \<Rightarrow> rest)
          in delimiter \<noteq> [] \<and> CHR ''<'' \<notin> set delimiter)"

fun contains_str :: "string \<Rightarrow> string \<Rightarrow> bool" where
  "contains_str p [] = (p = [])"
| "contains_str p (c # cs) = (starts_with p (c # cs) \<or> contains_str p cs)"

fun heredoc_loop :: "string \<Rightarrow> bool \<Rightarrow> string list \<Rightarrow> Fault + unit" where
  "heredoc_loop inst arith [] = Inr ()"
| "heredoc_loop inst arith (word # words) =
     (let arith = (arith \<or> starts_with ''$(('' word \<or> starts_with ''(('' word);
          bare = dropWhile is_digit word;
          spaced = ((bare = ''<<'' \<or> bare = ''<<-'') \<and>
                    (case words of [] \<Rightarrow> False | delimiter # _ \<Rightarrow> \<not> starts_with ''<'' delimiter))
      in if \<not> arith \<and> (is_heredoc word \<or> spaced) then Inl (Heredoc inst)
         else heredoc_loop inst (arith \<and> strip_suffix ''))'' word = None) words)"

definition refuse_heredoc :: "string \<Rightarrow> string \<Rightarrow> char \<Rightarrow> Fault + unit" where
  "refuse_heredoc inst args esc =
     (if contains_str ''<<'' args then heredoc_loop inst False (split_words args esc) else Inr ())"

section \<open>Arguments\<close>

definition json_strings :: "JsonValue list \<Rightarrow> Fault + string list" where
  "json_strings items = collect_results (\<lambda>i. case i of JString s \<Rightarrow> Inr s | _ \<Rightarrow> Inl NotOnlyStrings) items"

definition json_array :: "(string \<Rightarrow> JsonValue option) \<Rightarrow> string \<Rightarrow> Fault + string list option" where
  "json_array json rest =
     (if \<not> starts_with ''['' rest then Inr None
      else case json rest of
             Some (JArray items) \<Rightarrow> bind_result (json_strings items) (\<lambda>ss. Inr (Some ss))
           | _ \<Rightarrow> Inr None)"

definition command :: "(string \<Rightarrow> JsonValue option) \<Rightarrow> string \<Rightarrow> Fault + Command" where
  "command json rest =
     bind_result (json_array json rest) (\<lambda>a. Inr (case a of Some args \<Rightarrow> CmdExec args | None \<Rightarrow> CmdShell rest))"

definition exactly_one :: "string \<Rightarrow> string \<Rightarrow> Fault + string" where
  "exactly_one inst rest = (if rest = [] then Inl (ExactlyOne inst) else Inr rest)"

definition copy_args :: "(string \<Rightarrow> JsonValue option) \<Rightarrow> string \<Rightarrow> string list \<Rightarrow> string \<Rightarrow> char \<Rightarrow> Fault + CopyArgs" where
  "copy_args json inst flags rest esc =
     bind_result
       (if inst = ''ADD''
        then check_flags inst flags [''chown'', ''chmod''] [''link'', ''exclude'', ''parents'', ''checksum'', ''keep-git-dir'']
        else check_flags inst flags [''from'', ''chown'', ''chmod''] [''link'', ''exclude'', ''parents'']) (\<lambda>vals.
     bind_result
       (bind_result (json_array json rest) (\<lambda>a.
          case a of
            Some args \<Rightarrow> if length args < 2 then Inl (TooFewArguments inst) else Inr (ArgsJson args)
          | None \<Rightarrow>
              bind_result (refuse_heredoc inst rest esc) (\<lambda>_.
                if length (split_words rest esc) < 2 then Inl (TooFewArguments inst) else Inr (ArgsShell rest)))) (\<lambda>args.
       let src = nonempty (vals ''from'')
       in case src of
            Some f \<Rightarrow> if CHR ''$'' \<in> set f then Inl FromVariable
                      else Inr \<lparr>ca_from = src, ca_chown = nonempty (vals ''chown''), ca_chmod = nonempty (vals ''chmod''), ca_args = args\<rparr>
          | None \<Rightarrow> Inr \<lparr>ca_from = src, ca_chown = nonempty (vals ''chown''), ca_chmod = nonempty (vals ''chmod''), ca_args = args\<rparr>))"

definition name_value :: "string \<Rightarrow> string \<Rightarrow> Fault + string \<times> string" where
  "name_value inst word =
     (case split_once (CHR ''='') word of
        None \<Rightarrow> Inl (NoEquals inst word)
      | Some (name, val) \<Rightarrow> if name = [] then Inl (EmptyNames inst) else Inr (name, val))"

definition name_values :: "string \<Rightarrow> string \<Rightarrow> char \<Rightarrow> Fault + (string \<times> string) list" where
  "name_values inst rest esc =
     (case split_words rest esc of
        [] \<Rightarrow> Inl (AtLeastOne inst)
      | w # ws \<Rightarrow>
          if CHR ''='' \<notin> set w then
            (let (name, val) = split_blank_once rest
             in if val = [] then Inl (TwoArguments inst) else Inr [(name, val)])
          else collect_results (name_value inst) (w # ws))"

definition arg_decl :: "string \<Rightarrow> Fault + ArgDecl" where
  "arg_decl word =
     (let (name, dflt) = (case split_once (CHR ''='') word of Some (n, d) \<Rightarrow> (n, Some d) | None \<Rightarrow> (word, None))
      in if name = [] then Inl (EmptyNames ''ARG'') else Inr \<lparr>ad_name = name, ad_default = dflt\<rparr>)"

definition arg_decls :: "string \<Rightarrow> char \<Rightarrow> Fault + ArgDecl list" where
  "arg_decls rest esc =
     (let words = split_words rest esc
      in if words = [] then Inl (AtLeastOne ''ARG'') else collect_results arg_decl words)"

definition volume :: "(string \<Rightarrow> JsonValue option) \<Rightarrow> string \<Rightarrow> Fault + Args" where
  "volume json rest =
     bind_result (json_array json rest) (\<lambda>a.
       case a of
         Some paths \<Rightarrow> if paths = [] then Inl (AtLeastOne ''VOLUME'') else Inr (ArgsJson paths)
       | None \<Rightarrow> if rest = [] then Inl (AtLeastOne ''VOLUME'') else Inr (ArgsShell rest))"

definition shell :: "(string \<Rightarrow> JsonValue option) \<Rightarrow> string \<Rightarrow> Fault + string list" where
  "shell json rest =
     bind_result (json_array json rest) (\<lambda>a.
       case a of
         Some s \<Rightarrow> if s \<noteq> [] then Inr s else Inl (AtLeastOne ''SHELL'')
       | None \<Rightarrow> if rest = [] then Inl (AtLeastOne ''SHELL'') else Inl ShellNotJson)"

section \<open>Healthchecks\<close>

text \<open>\<open>health_duration\<close> and \<open>health_retries\<close> of \<^verbatim>\<open>op.rs\<close>.\<close>

definition health_duration :: "string \<Rightarrow> string option \<Rightarrow> Fault + nat option" where
  "health_duration opt v =
     (case nonempty v of
        None \<Rightarrow> Inr None
      | Some val \<Rightarrow>
          (case parse_duration val of
             None \<Rightarrow> Inl (HealthInvalid opt val)
           | Some d \<Rightarrow>
               if d = 0 then Inr None
               else if d < 1000000 then Inl (HealthTooShort opt val)
               else if d > 2 ^ 63 - 1 then Inl (HealthTooLong opt val)
               else Inr (Some d)))"

definition health_retries :: "string option \<Rightarrow> Fault + nat option" where
  "health_retries v =
     (case nonempty v of
        None \<Rightarrow> Inr None
      | Some val \<Rightarrow>
          (case parse_int 64 val of
             None \<Rightarrow> Inl (RetriesNotNumber val)
           | Some r \<Rightarrow>
               if r < 0 then Inl (RetriesNegative val)
               else if r > 2 ^ 31 - 1 then Inl (RetriesTooMany val)
               else Inr (if r \<noteq> 0 then Some (nat r) else None)))"

definition healthcheck :: "(string \<Rightarrow> JsonValue option) \<Rightarrow> string list \<Rightarrow> string \<Rightarrow> Fault + Healthcheck" where
  "healthcheck json flags rest =
     (let kind = takeWhile (\<lambda>c. \<not> is_space c) rest;
          cmd = trim_start (dropWhile (\<lambda>c. \<not> is_space c) rest);
          k = upper kind
      in if k = [] then Inl HealthcheckArgument
         else if k = ''NONE'' then (if cmd = [] then Inr HealthcheckNone else Inl HealthcheckNoneArguments)
         else if k = ''CMD'' then
           bind_result (check_flags ''HEALTHCHECK'' flags
               [''interval'', ''timeout'', ''start-period'', ''start-interval'', ''retries''] []) (\<lambda>opts.
           bind_result (bind_result (json_array json cmd) (\<lambda>a.
               case a of
                 Some args \<Rightarrow> if args = [] then Inl HealthcheckNoCommand else Inr (CmdExec args)
               | None \<Rightarrow> if cmd = [] then Inl HealthcheckNoCommand else Inr (CmdShell cmd))) (\<lambda>com.
           bind_result (health_duration ''interval'' (nonempty (opts ''interval''))) (\<lambda>_.
           bind_result (health_duration ''timeout'' (nonempty (opts ''timeout''))) (\<lambda>_.
           bind_result (health_duration ''start-period'' (nonempty (opts ''start-period''))) (\<lambda>_.
           bind_result (health_duration ''start-interval'' (nonempty (opts ''start-interval''))) (\<lambda>_.
           bind_result (health_retries (nonempty (opts ''retries''))) (\<lambda>_.
             Inr (HealthcheckCheck \<lparr>hc_command = com, hc_interval = nonempty (opts ''interval''),
               hc_timeout = nonempty (opts ''timeout''), hc_start_period = nonempty (opts ''start-period''),
               hc_start_interval = nonempty (opts ''start-interval''), hc_retries = nonempty (opts ''retries'')\<rparr>))))))))
         else Inl (HealthcheckUnknown kind))"

section \<open>Instructions\<close>

definition onbuild :: "(string \<Rightarrow> JsonValue option) \<Rightarrow> string \<Rightarrow> char \<Rightarrow> Fault + string" where
  "onbuild json rest esc =
     (if rest = [] then Inl (AtLeastOne ''ONBUILD'')
      else
        let (keyword, args) = split_keyword rest; trigger = upper keyword in
        if trigger = ''ONBUILD'' then Inl OnbuildOnbuild
        else if trigger = ''FROM'' \<or> trigger = ''MAINTAINER'' then Inl (OnbuildTrigger trigger)
        else if trigger \<in> {''RUN'', ''COPY'', ''ADD'', ''CMD'', ''ENTRYPOINT'', ''VOLUME'', ''SHELL''} then
          (let args = trim (snd (extract_flags args esc)) in
           bind_result (json_array json args) (\<lambda>a.
             if a = None \<and> trigger \<in> {''RUN'', ''COPY'', ''ADD''}
             then bind_result (refuse_heredoc (''ONBUILD '' @ trigger) args esc) (\<lambda>_. Inr rest) else Inr rest))
        else if trigger \<in> set INSTRUCTIONS then Inr rest
        else Inl (OnbuildUnknown trigger))"

record From =
  fr_base :: string
  fr_name :: "string option"
  fr_platform :: "string option"

datatype Parsed = ParsedFrom From | ParsedInstruction InstructionKind

definition stage_name :: "string \<Rightarrow> Fault + string" where
  "stage_name written =
     (let name = lower written;
          is_lower = (\<lambda>c. is_alpha c \<and> to_lower c = c);
          valid = (case name of [] \<Rightarrow> False
            | c # cs \<Rightarrow> is_lower c \<and> list_all (\<lambda>c. is_lower c \<or> is_digit c \<or> c \<in> {CHR ''-'', CHR ''_'', CHR ''.''}) cs)
      in if \<not> valid then Inl (InvalidStageName written)
         else if name = ''scratch'' then Inl StageNamedScratch
         else Inr name)"

fun split_blanks :: "string \<Rightarrow> string list" where
  "split_blanks [] = [[]]"
| "split_blanks (c # cs) =
     (if is_word_blank c then [] # split_blanks cs else (c # hd (split_blanks cs)) # tl (split_blanks cs))"

definition parse_from :: "string list \<Rightarrow> string \<Rightarrow> Fault + From" where
  "parse_from flags rest =
     bind_result (check_flags ''FROM'' flags [''platform''] []) (\<lambda>vals.
       let platform = nonempty (vals ''platform'') in
       if (case platform of Some p \<Rightarrow> p \<noteq> ''linux/amd64'' \<and> CHR ''$'' \<notin> set p | None \<Rightarrow> False)
       then Inl (PlatformUnsupported (the platform))
       else case filter (\<lambda>w. w \<noteq> []) (split_blanks rest) of
              [base] \<Rightarrow> Inr \<lparr>fr_base = base, fr_name = None, fr_platform = platform\<rparr>
            | [base, keyword, name] \<Rightarrow>
                if lower keyword = ''as''
                then bind_result (stage_name name) (\<lambda>n. Inr \<lparr>fr_base = base, fr_name = Some n, fr_platform = platform\<rparr>)
                else Inl FromArguments
            | _ \<Rightarrow> Inl FromArguments)"

definition parse_run :: "(string \<Rightarrow> JsonValue option) \<Rightarrow> string list \<Rightarrow> string \<Rightarrow> char \<Rightarrow> Fault + InstructionKind" where
  "parse_run json flags rest esc =
     bind_result (check_flags ''RUN'' flags [] [''mount'', ''network'', ''security'']) (\<lambda>_.
     bind_result (command json rest) (\<lambda>com.
       case com of
         CmdShell s \<Rightarrow> if s = [] then Inl (AtLeastOne ''RUN'') else bind_result (refuse_heredoc ''RUN'' s esc) (\<lambda>_. Inr (Run com))
       | CmdExec args \<Rightarrow> if args = [] then Inl (AtLeastOne ''RUN'') else Inr (Run com)))"

text \<open>The instructions without flags.\<close>

definition parse_plain :: "(string \<Rightarrow> JsonValue option) \<Rightarrow> string \<Rightarrow> string \<Rightarrow> char \<Rightarrow> (Fault + InstructionKind) option" where
  "parse_plain json name rest esc =
     (if name = ''CMD'' then Some (bind_result (command json rest) (\<lambda>x. Inr (Cmd x)))
      else if name = ''ENTRYPOINT'' then Some (bind_result (command json rest) (\<lambda>x. Inr (Entrypoint x)))
      else if name = ''ENV'' then Some (bind_result (name_values name rest esc) (\<lambda>x. Inr (Env x)))
      else if name = ''LABEL'' then Some (bind_result (name_values name rest esc) (\<lambda>x. Inr (Label x)))
      else if name = ''ARG'' then Some (bind_result (arg_decls rest esc) (\<lambda>x. Inr (Arg x)))
      else if name = ''WORKDIR'' then Some (bind_result (exactly_one name rest) (\<lambda>x. Inr (Workdir x)))
      else if name = ''USER'' then Some (bind_result (exactly_one name rest) (\<lambda>x. Inr (User x)))
      else if name = ''STOPSIGNAL'' then Some (bind_result (exactly_one name rest) (\<lambda>x. Inr (StopSignal x)))
      else if name = ''MAINTAINER'' then Some (bind_result (exactly_one name rest) (\<lambda>x. Inr (Maintainer x)))
      else if name = ''EXPOSE'' then Some (if rest = [] then Inl (AtLeastOne name) else Inr (Expose rest))
      else if name = ''VOLUME'' then Some (bind_result (volume json rest) (\<lambda>x. Inr (Volume x)))
      else if name = ''SHELL'' then Some (bind_result (shell json rest) (\<lambda>x. Inr (Shell x)))
      else if name = ''ONBUILD'' then Some (bind_result (onbuild json rest esc) (\<lambda>x. Inr (Onbuild x)))
      else None)"

definition parse_text :: "(string \<Rightarrow> JsonValue option) \<Rightarrow> string \<Rightarrow> char \<Rightarrow> Fault + Parsed" where
  "parse_text json s esc =
     (let (keyword, rest) = split_keyword s;
          name = upper keyword;
          (flags, rest) = extract_flags rest esc;
          rest = trim rest
      in if name = ''FROM'' then bind_result (parse_from flags rest) (\<lambda>f. Inr (ParsedFrom f))
         else bind_result
           (if name = ''RUN'' then parse_run json flags rest esc
            else if name = ''COPY'' then bind_result (copy_args json name flags rest esc) (\<lambda>x. Inr (Copy x))
            else if name = ''ADD'' then bind_result (copy_args json name flags rest esc) (\<lambda>x. Inr (Add x))
            else if name = ''HEALTHCHECK'' then bind_result (healthcheck json flags rest) (\<lambda>x. Inr (HealthcheckInst x))
            else case parse_plain json name rest esc of
                   Some r \<Rightarrow> bind_result (check_flags name flags [] []) (\<lambda>_. r)
                 | None \<Rightarrow> Inl (UnknownInstruction name))
           (\<lambda>k. Inr (ParsedInstruction k)))"

section \<open>Files\<close>

text \<open>The loop of \<open>parse\<close>: the global arguments, the stages, the warnings.\<close>

definition add_instruction :: "Stage list \<Rightarrow> Instruction \<Rightarrow> Stage list" where
  "add_instruction stages inst =
     butlast stages @ [(last stages)\<lparr>st_instructions := st_instructions (last stages) @ [inst]\<rparr>]"

fun parse_loop :: "(string \<Rightarrow> JsonValue option) \<Rightarrow> char \<Rightarrow> ArgDecl list \<Rightarrow> Stage list \<Rightarrow> Warning list \<Rightarrow> Logical list \<Rightarrow>
    ParseError + ArgDecl list \<times> Stage list \<times> Warning list" where
  "parse_loop json esc args stages ws [] = Inr (args, stages, ws)"
| "parse_loop json esc args stages ws (l # ls) =
     (case parse_text json (lg_text l) esc of
        Inl f \<Rightarrow> Inl (lg_line l, f)
      | Inr (ParsedFrom fr) \<Rightarrow>
          (case (case fr_name fr of None \<Rightarrow> None | Some n \<Rightarrow> find (\<lambda>s. st_name s = Some n) stages) of
             Some earlier \<Rightarrow> Inl (lg_line l, DuplicateStage (the (fr_name fr)) (st_line earlier))
           | None \<Rightarrow>
               parse_loop json esc args
                 (stages @ [\<lparr>st_index = length stages, st_name = fr_name fr, st_base = fr_base fr, st_platform = fr_platform fr,
                    st_line = lg_line l, st_instructions = []\<rparr>]) ws ls)
      | Inr (ParsedInstruction kind) \<Rightarrow>
          let ws' = (case kind of Maintainer _ \<Rightarrow> ws @ [MaintainerDeprecated (lg_line l)] | _ \<Rightarrow> ws) in
          if stages \<noteq> [] then
            parse_loop json esc args
              (add_instruction stages \<lparr>in_line = lg_line l, in_original = Logical_original l, in_kind = kind\<rparr>) ws' ls
          else
            (case kind of
               Arg decls \<Rightarrow> parse_loop json esc (args @ decls) stages ws' ls
             | _ \<Rightarrow> Inl (lg_line l, BeforeFrom (Logical_keyword l))))"

definition parse_containerfile :: "(string \<Rightarrow> JsonValue option) \<Rightarrow> string \<Rightarrow> ParseError + Containerfile" where
  "parse_containerfile json s =
     (let body = (case strip_prefix [CHR 0xEF, CHR 0xBB, CHR 0xBF] s of Some b \<Rightarrow> b | None \<Rightarrow> s);
          lines = str_lines body
      in bind_result (directives lines) (\<lambda>esc.
           let (logical, ws) = logical_lines esc 0 lines in
           bind_result (parse_loop json esc [] [] ws logical) (\<lambda>(args, stages, ws').
             if stages = [] then Inl (0, NoFrom)
             else Inr \<lparr>cf_escape = esc, cf_global_args = args, cf_stages = stages, cf_warnings = ws'\<rparr>)))"

definition parse_instruction :: "(string \<Rightarrow> JsonValue option) \<Rightarrow> string \<Rightarrow> ParseError + Instruction" where
  "parse_instruction json s =
     (case fst (logical_lines DEFAULT_ESCAPE 0 (str_lines s)) of
        [] \<Rightarrow> Inl (0, NoInstruction)
      | [one] \<Rightarrow>
          (case parse_text json (lg_text one) DEFAULT_ESCAPE of
             Inl f \<Rightarrow> Inl (lg_line one, f)
           | Inr (ParsedFrom _) \<Rightarrow> Inl (lg_line one, FromNotHere)
           | Inr (ParsedInstruction kind) \<Rightarrow>
               Inr \<lparr>in_line = lg_line one, in_original = Logical_original one, in_kind = kind\<rparr>)
      | _ # second # _ \<Rightarrow> Inl (lg_line second, SeveralInstructions))"

end
