(* ===== verification/Btree.thy ===== *)
theory Btree
  imports Prelude "HOL-Library.Char_ord" "HOL-Library.List_Lexorder"
begin

text \<open>
  Ordered maps: Rust's \<open>BTreeMap\<close> as the list of its entries in the order it is iterated in, and
  the interface the components that build and iterate such maps rely on. Strings are ordered by
  their bytes, as \<open>str\<close> is.
\<close>

lemma sorted_keys_unique:
  fixes f :: "'a \<Rightarrow> 'b::linorder"
  assumes "sorted_wrt (<) (map f xs)" and "sorted_wrt (<) (map f ys)" and "set xs = set ys" and "inj_on f (set xs)"
  shows "xs = ys"
proof -
  have "map f xs = map f ys" using assms(1-3) by (intro strict_sorted_equal) simp_all
  then show ?thesis using assms(3,4) inj_on_map_eq_map[of f xs ys] by simp
qed

section \<open>The interface\<close>

locale ordered_map =
  fixes get :: "'m \<Rightarrow> 'k::linorder \<rightharpoonup> 'v"
    and ins :: "'k \<Rightarrow> 'v \<Rightarrow> 'm \<Rightarrow> 'm"
    and entries :: "'m \<Rightarrow> ('k \<times> 'v) list"
    and ok :: "'m \<Rightarrow> bool"
    and emp :: 'm
  assumes ok_emp: "ok emp"
    and get_emp: "get emp = Map.empty"
    and ok_ins: "ok m \<Longrightarrow> ok (ins k v m)"
    and get_ins: "ok m \<Longrightarrow> get (ins k v m) = (get m)(k \<mapsto> v)"
    and entries_get: "ok m \<Longrightarrow> (k, v) \<in> set (entries m) \<longleftrightarrow> get m k = Some v"
    and entries_sorted: "ok m \<Longrightarrow> sorted_wrt (<) (map fst (entries m))"
begin

text \<open>\<open>entry(k).or_insert(v)\<close>.\<close>

definition or_ins :: "'k \<Rightarrow> 'v \<Rightarrow> 'm \<Rightarrow> 'm" where
  "or_ins k v m = (if get m k = None then ins k v m else m)"

lemma ok_or_ins: "ok m \<Longrightarrow> ok (or_ins k v m)"
  by (simp add: or_ins_def ok_ins)

lemma get_or_ins: "ok m \<Longrightarrow> get (or_ins k v m) = (get m)(k \<mapsto> (case get m k of Some w \<Rightarrow> w | None \<Rightarrow> v))"
  by (auto simp: or_ins_def get_ins split: option.splits)

text \<open>Collecting pairs: the last of a name wins.\<close>

lemma collect_pairs:
  "ok m \<Longrightarrow> ok (foldl (\<lambda>m (k, v). ins k v m) m kvs) \<and>
    get (foldl (\<lambda>m (k, v). ins k v m) m kvs) = get m ++ map_of (rev kvs)"
  by (induction kvs arbitrary: m) (auto simp: ok_ins get_ins map_add_def fun_eq_iff split: option.splits)

text \<open>The entries are determined by what the map says.\<close>

lemma entries_unique:
  assumes "ok m" and "ok n" and "get m = get n"
  shows "entries m = entries n"
proof -
  have distinct: "distinct (map fst (entries m))" if "ok m" for m
    using entries_sorted[OF that] by (simp add: strict_sorted_iff)
  have "set (entries m) = set (entries n)"
    using entries_get[OF assms(1)] entries_get[OF assms(2)] assms(3) by (auto simp: set_eq_iff)
  moreover have "inj_on fst (set (entries m))" using distinct[OF assms(1)] by (simp add: distinct_map)
  ultimately show ?thesis
    using sorted_keys_unique entries_sorted assms(1,2) by blast
qed

end

section \<open>Entries in order\<close>

type_synonym ('k, 'v) BTreeMap = "('k \<times> 'v) list"

fun bt_insert :: "'k::linorder \<Rightarrow> 'v \<Rightarrow> ('k, 'v) BTreeMap \<Rightarrow> ('k, 'v) BTreeMap" where
  "bt_insert k v [] = [(k, v)]"
| "bt_insert k v ((l, w) # m) =
     (if k < l then (k, v) # (l, w) # m else if k = l then (k, v) # m else (l, w) # bt_insert k v m)"

abbreviation bt_get :: "('k, 'v) BTreeMap \<Rightarrow> 'k \<rightharpoonup> 'v" where
  "bt_get \<equiv> map_of"

definition bt_ok :: "('k::linorder, 'v) BTreeMap \<Rightarrow> bool" where
  "bt_ok m \<longleftrightarrow> sorted_wrt (<) (map fst m)"

lemma bt_insert_keys: "fst ` set (bt_insert k v m) = insert k (fst ` set m)"
proof (induction m)
  case (Cons lw m)
  then show ?case by (cases lw) (simp add: insert_commute)
qed simp

lemma bt_insert_ok: "bt_ok m \<Longrightarrow> bt_ok (bt_insert k v m)"
proof (induction m)
  case (Cons lw m)
  obtain l w where lw: "lw = (l, w)" by (cases lw)
  have "\<forall>x\<in>fst ` set (bt_insert k v m). l < x" if "\<not> k < l" "k \<noteq> l"
    using Cons.prems that lw by (auto simp: bt_ok_def bt_insert_keys)
  then show ?case using Cons lw by (auto simp: bt_ok_def dest: order.strict_trans)
qed (simp add: bt_ok_def)

lemma bt_get_insert: "bt_ok m \<Longrightarrow> bt_get (bt_insert k v m) = (bt_get m)(k \<mapsto> v)"
  by (induction m) (auto simp: bt_ok_def fun_eq_iff)

lemma bt_entries: "bt_ok m \<Longrightarrow> (k, v) \<in> set m \<longleftrightarrow> bt_get m k = Some v"
  by (simp add: bt_ok_def strict_sorted_iff)

interpretation bt: ordered_map bt_get bt_insert "\<lambda>m. m" bt_ok "[]"
  by unfold_locales (simp_all add: bt_insert_ok bt_get_insert bt_entries, simp_all add: bt_ok_def)

end
