(* ===== verification/BuildOps.thy ===== *)
theory BuildOps
  imports Expand Dockerfile Btree
begin

text \<open>
  Instructions ready to run, \<^verbatim>\<open>rustlet-build/src/op.rs\<close>: the words of a parsed instruction expanded
  against the variables in scope and its options checked. Messages are constructors of \<open>OpFault\<close>.
\<close>

section \<open>Data\<close>

record CopyOp =
  co_add :: bool
  co_sources :: "string list"
  co_dest :: string
  co_from :: "string option"
  co_chown :: "string option"
  co_chmod :: "nat option"

record HealthcheckOp =
  ho_test :: "string list"
  ho_interval :: "nat option"
  ho_timeout :: "nat option"
  ho_start_period :: "nat option"
  ho_start_interval :: "nat option"
  ho_retries :: "nat option"

datatype Op =
    OpRun Command
  | OpCmd Command
  | OpEntrypoint Command
  | OpCopy CopyOp
  | OpEnv "(string \<times> string) list"
  | OpArg "(string \<times> string option) list"
  | OpLabel "(string \<times> string) list"
  | OpWorkdir string
  | OpUser string
  | OpExpose "string list"
  | OpVolume "string list"
  | OpStopSignal string
  | OpHealthcheck "HealthcheckOp option"
  | OpShell "string list"
  | OpMaintainer string
  | OpOnbuild string

datatype OpFault =
    BadExpansion string ExpandError
  | NamesEmpty string
  | TooFewWords string nat
  | PathEmpty string
  | AddRemote bool string
  | FromExpands
  | BadMode string string
  | WorkdirEmpty string
  | BadProtocol string
  | BadPort string
  | RangeBackwards string
  | NoPort
  | NoVolume
  | VolumeEmpty
  | RealtimeSignal string
  | UnknownSignal string
  | BadHealth Fault

section \<open>Expansion\<close>

text \<open>\<open>Expander\<close>: the escape character and the variables.\<close>

type_synonym Expander = "char \<times> (string \<Rightarrow> string option)"

definition map_error :: "('e \<Rightarrow> 'f) \<Rightarrow> 'e + 'a \<Rightarrow> 'f + 'a" where
  "map_error f r = (case r of Inl e \<Rightarrow> Inl (f e) | Inr a \<Rightarrow> Inr a)"

definition x_word :: "Expander \<Rightarrow> string \<Rightarrow> string \<Rightarrow> OpFault + string" where
  "x_word x inst raw = map_error (BadExpansion inst) (expand_word raw (fst x) (snd x))"

definition x_words :: "Expander \<Rightarrow> string \<Rightarrow> string \<Rightarrow> OpFault + string list" where
  "x_words x inst raw = map_error (BadExpansion inst) (expand_words raw (fst x) (snd x))"

definition expand_pair :: "string \<Rightarrow> Expander \<Rightarrow> string \<times> string \<Rightarrow> OpFault + string \<times> string" where
  "expand_pair inst x nv =
     bind_result (x_word x inst (fst nv)) (\<lambda>name.
       if name = [] then Inl (NamesEmpty inst)
       else bind_result (x_word x inst (snd nv)) (\<lambda>val. Inr (name, val)))"

definition op_name_values :: "string \<Rightarrow> (string \<times> string) list \<Rightarrow> Expander \<Rightarrow> OpFault + (string \<times> string) list" where
  "op_name_values inst pairs x = collect_results (expand_pair inst x) pairs"

section \<open>COPY and ADD\<close>

definition octal_value :: "string \<Rightarrow> nat" where
  "octal_value s = foldl (\<lambda>v c. v * 8 + digit_value c) 0 s"

definition is_octal_digit :: "char \<Rightarrow> bool" where
  "is_octal_digit c \<longleftrightarrow> is_digit c \<and> digit_value c \<le> 7"

text \<open>\<open>u32::from_str_radix\<close> refuses the empty text and what does not fit.\<close>

definition op_chmod :: "string \<Rightarrow> string \<Rightarrow> OpFault + nat" where
  "op_chmod inst mode =
     (if \<not> list_all is_octal_digit mode then Inl (BadMode inst mode)
      else if mode \<noteq> [] \<and> octal_value mode < 2 ^ 32 \<and> octal_value mode \<le> 4095 then Inr (octal_value mode)
      else Inl (BadMode inst mode))"

definition is_scp_like :: "string \<Rightarrow> bool" where
  "is_scp_like source =
     (case split_once (CHR 0x40) source of
        None \<Rightarrow> False
      | Some (user, rest) \<Rightarrow>
          (case split_once (CHR '':'') rest of
             None \<Rightarrow> False
           | Some (host, _) \<Rightarrow>
               user \<noteq> [] \<and> list_all (\<lambda>c. is_alnum c \<or> c = CHR ''-'' \<or> c = CHR ''_'') user \<and>
               host \<noteq> [] \<and> list_all (\<lambda>c. is_alnum c \<or> c = CHR ''-'' \<or> c = CHR ''.'') host))"

definition is_remote :: "string \<Rightarrow> bool" where
  "is_remote source \<longleftrightarrow>
     list_ex (\<lambda>scheme. starts_with scheme source) [''http://'', ''https://'', ''git://'', ''ssh://''] \<or> is_scp_like source"

definition is_git :: "string \<Rightarrow> bool" where
  "is_git source \<longleftrightarrow>
     (let http = (starts_with ''http://'' source \<or> starts_with ''https://'' source)
      in \<not> http \<or> strip_suffix ''.git'' source \<noteq> None \<or> contains_str ''.git#'' source)"

text \<open>A flag that expands to nothing is no flag.\<close>

definition expand_flag :: "string \<Rightarrow> Expander \<Rightarrow> string option \<Rightarrow> OpFault + string option" where
  "expand_flag inst x v =
     (case v of None \<Rightarrow> Inr None | Some raw \<Rightarrow> bind_result (x_word x inst raw) (\<lambda>w. Inr (nonempty (Some w))))"

definition expand_args :: "string \<Rightarrow> Expander \<Rightarrow> Args \<Rightarrow> OpFault + string list" where
  "expand_args inst x args =
     (case args of ArgsJson items \<Rightarrow> collect_results (x_word x inst) items | ArgsShell raw \<Rightarrow> x_words x inst raw)"

definition copy_op :: "CopyArgs \<Rightarrow> bool \<Rightarrow> Expander \<Rightarrow> OpFault + CopyOp" where
  "copy_op args add x =
     (let inst = (if add then ''ADD'' else ''COPY'') in
      bind_result (bind_result (expand_flag inst x (ca_chmod args)) (\<lambda>m.
        case m of None \<Rightarrow> Inr None | Some mode \<Rightarrow> bind_result (op_chmod inst mode) (\<lambda>n. Inr (Some n)))) (\<lambda>mode.
      bind_result (expand_args inst x (ca_args args)) (\<lambda>words.
        if length words < 2 then Inl (TooFewWords inst (length words))
        else if list_ex (\<lambda>w. w = []) words then Inl (PathEmpty inst)
        else
          let sources = butlast words; dest = last words in
          case (if add then find is_remote sources else None) of
            Some source \<Rightarrow> Inl (AddRemote (is_git source) source)
          | None \<Rightarrow>
              if (case ca_from args of Some f \<Rightarrow> CHR ''$'' \<in> set f | None \<Rightarrow> False) then Inl FromExpands
              else bind_result (expand_flag inst x (ca_chown args)) (\<lambda>owner.
                Inr \<lparr>co_add = add, co_sources = sources, co_dest = dest, co_from = ca_from args,
                     co_chown = owner, co_chmod = mode\<rparr>))))"

section \<open>EXPOSE and VOLUME\<close>

definition parse_port :: "string \<Rightarrow> nat option" where
  "parse_port s = (case parse_uint 16 s of Some p \<Rightarrow> if p \<noteq> 0 then Some p else None | None \<Rightarrow> None)"

text \<open>A word of \<open>EXPOSE\<close>: the first and the last port, and the protocol.\<close>

definition port_range :: "string \<Rightarrow> OpFault + nat \<times> nat \<times> string" where
  "port_range word =
     (let (range, proto) =
        (case split_once (CHR 0x2F) word of
           Some (r, p) \<Rightarrow> if p = [] then (r, ''tcp'') else (r, lower p)
         | None \<Rightarrow> (word, ''tcp''))
      in if proto \<notin> {''tcp'', ''udp'', ''sctp''} then Inl (BadProtocol word)
         else case split_once (CHR ''-'') range of
                Some (a, b) \<Rightarrow>
                  (case (parse_port a, parse_port b) of
                     (Some s, Some e) \<Rightarrow> if s > e then Inl (RangeBackwards word) else Inr (s, e, proto)
                   | _ \<Rightarrow> Inl (BadPort word))
              | None \<Rightarrow> (case parse_port range of Some p \<Rightarrow> Inr (p, p, proto) | None \<Rightarrow> Inl (BadPort word)))"

definition port_entry :: "string \<Rightarrow> nat \<Rightarrow> string" where
  "port_entry proto p = dec p @ CHR 0x2F # proto"

definition push_new :: "string list \<Rightarrow> string \<Rightarrow> string list" where
  "push_new out e = (if e \<in> set out then out else out @ [e])"

fun ports_loop :: "string list \<Rightarrow> string list \<Rightarrow> OpFault + string list" where
  "ports_loop out [] = Inr out"
| "ports_loop out (word # words) =
     bind_result (port_range word) (\<lambda>(start, stop, proto).
       ports_loop (foldl push_new out (map (port_entry proto) [start..<Suc stop])) words)"

definition ports :: "string list \<Rightarrow> OpFault + string list" where
  "ports words = bind_result (ports_loop [] words) (\<lambda>out. if out = [] then Inl NoPort else Inr out)"

definition volumes :: "Args \<Rightarrow> Expander \<Rightarrow> OpFault + string list" where
  "volumes args x =
     bind_result (expand_args ''VOLUME'' x args) (\<lambda>paths.
       let paths = map trim paths
       in if paths = [] then Inl NoVolume else if list_ex (\<lambda>p. p = []) paths then Inl VolumeEmpty else Inr paths)"

section \<open>STOPSIGNAL and HEALTHCHECK\<close>

definition SIGNALS :: "string list" where
  "SIGNALS = [''ABRT'', ''ALRM'', ''BUS'', ''CHLD'', ''CLD'', ''CONT'', ''FPE'', ''HUP'', ''ILL'', ''INT'', ''IO'', ''IOT'',
     ''KILL'', ''PIPE'', ''POLL'', ''PROF'', ''PWR'', ''QUIT'', ''SEGV'', ''STKFLT'', ''STOP'', ''SYS'', ''TERM'', ''TRAP'',
     ''TSTP'', ''TTIN'', ''TTOU'', ''URG'', ''USR1'', ''USR2'', ''VTALRM'', ''WINCH'', ''XCPU'', ''XFSZ'']"

definition signal_name :: "string \<Rightarrow> OpFault + unit" where
  "signal_name signal =
     (let up = upper signal;
          name = (case strip_prefix ''SIG'' up of Some n \<Rightarrow> n | None \<Rightarrow> up)
      in if starts_with ''RTMIN'' name \<or> starts_with ''RTMAX'' name then Inl (RealtimeSignal signal)
         else if name \<in> set SIGNALS then Inr () else Inl (UnknownSignal signal))"

definition check_signal :: "string \<Rightarrow> OpFault + unit" where
  "check_signal signal =
     (case parse_uint 32 signal of
        Some n \<Rightarrow>
          if 1 \<le> n \<and> n \<le> 31 then Inr ()
          else if 32 \<le> n \<and> n \<le> 64 then Inl (RealtimeSignal signal)
          else signal_name signal
      | None \<Rightarrow> signal_name signal)"

definition op_healthcheck :: "Healthcheck \<Rightarrow> OpFault + HealthcheckOp option" where
  "op_healthcheck check =
     (case check of
        HealthcheckNone \<Rightarrow> Inr None
      | HealthcheckCheck h \<Rightarrow>
          let test = (case hc_command h of CmdShell c \<Rightarrow> [''CMD-SHELL'', c] | CmdExec args \<Rightarrow> ''CMD'' # args);
              dur = (\<lambda>opt v. map_error BadHealth (health_duration opt v))
          in bind_result (dur ''interval'' (hc_interval h)) (\<lambda>interval.
             bind_result (dur ''timeout'' (hc_timeout h)) (\<lambda>timeout.
             bind_result (dur ''start-period'' (hc_start_period h)) (\<lambda>start_period.
             bind_result (dur ''start-interval'' (hc_start_interval h)) (\<lambda>start_interval.
             bind_result (map_error BadHealth (health_retries (hc_retries h))) (\<lambda>retries.
               Inr (Some \<lparr>ho_test = test, ho_interval = interval, ho_timeout = timeout, ho_start_period = start_period,
                 ho_start_interval = start_interval, ho_retries = retries\<rparr>)))))))"

section \<open>An instruction\<close>

definition expand_arg :: "(string, string) BTreeMap \<Rightarrow> Expander \<Rightarrow> ArgDecl \<Rightarrow> OpFault + string \<times> string option" where
  "expand_arg build_args x decl =
     (if bt_get build_args (ad_name decl) \<noteq> None then Inr (ad_name decl, None)
      else case ad_default decl of
             None \<Rightarrow> Inr (ad_name decl, None)
           | Some d \<Rightarrow> bind_result (x_word x ''ARG'' d) (\<lambda>w. Inr (ad_name decl, Some w)))"

definition new_with_build_args :: "InstructionKind \<Rightarrow> char \<Rightarrow> (string \<Rightarrow> string option) \<Rightarrow> (string, string) BTreeMap \<Rightarrow>
    OpFault + Op" where
  "new_with_build_args kind esc lookup build_args =
     (let x = (esc, lookup) in
      case kind of
        Run c \<Rightarrow> Inr (OpRun c)
      | Cmd c \<Rightarrow> Inr (OpCmd c)
      | Entrypoint c \<Rightarrow> Inr (OpEntrypoint c)
      | Copy args \<Rightarrow> bind_result (copy_op args False x) (\<lambda>o'. Inr (OpCopy o'))
      | Add args \<Rightarrow> bind_result (copy_op args True x) (\<lambda>o'. Inr (OpCopy o'))
      | Env pairs \<Rightarrow> bind_result (op_name_values ''ENV'' pairs x) (\<lambda>ps. Inr (OpEnv ps))
      | Label pairs \<Rightarrow> bind_result (op_name_values ''LABEL'' pairs x) (\<lambda>ps. Inr (OpLabel ps))
      | Arg decls \<Rightarrow> bind_result (collect_results (expand_arg build_args x) decls) (\<lambda>as. Inr (OpArg as))
      | Workdir raw \<Rightarrow>
          bind_result (x_word x ''WORKDIR'' raw) (\<lambda>path. if path = [] then Inl (WorkdirEmpty raw) else Inr (OpWorkdir path))
      | User raw \<Rightarrow> bind_result (x_word x ''USER'' raw) (\<lambda>u. Inr (OpUser u))
      | Expose raw \<Rightarrow> bind_result (x_words x ''EXPOSE'' raw) (\<lambda>ws. bind_result (ports ws) (\<lambda>ps. Inr (OpExpose ps)))
      | Volume args \<Rightarrow> bind_result (volumes args x) (\<lambda>vs. Inr (OpVolume vs))
      | StopSignal raw \<Rightarrow>
          bind_result (x_word x ''STOPSIGNAL'' raw) (\<lambda>signal.
            bind_result (check_signal signal) (\<lambda>_. Inr (OpStopSignal signal)))
      | HealthcheckInst check \<Rightarrow> bind_result (op_healthcheck check) (\<lambda>h. Inr (OpHealthcheck h))
      | Shell s \<Rightarrow> Inr (OpShell s)
      | Maintainer raw \<Rightarrow> Inr (OpMaintainer raw)
      | Onbuild trigger \<Rightarrow> Inr (OpOnbuild trigger))"

definition Op_new :: "InstructionKind \<Rightarrow> char \<Rightarrow> (string \<Rightarrow> string option) \<Rightarrow> OpFault + Op" where
  "Op_new kind esc lookup = new_with_build_args kind esc lookup []"

definition makes_layer :: "Op \<Rightarrow> bool" where
  "makes_layer o' = (case o' of OpRun _ \<Rightarrow> True | OpCopy _ \<Rightarrow> True | OpWorkdir _ \<Rightarrow> True | _ \<Rightarrow> False)"

end
