(* ===== verification/Worklist.thy ===== *)
theory Worklist
  imports Prelude
begin

text \<open>
  Marking what is reachable: the worklist loop that planning a build and ordering the services of a
  project share, as an interface. A loop takes an index from a stack, skips it if it is marked, and
  otherwise marks it and pushes what it needs.
\<close>

definition marked :: "bool list \<Rightarrow> nat set" where
  "marked marks = {i. i < length marks \<and> marks ! i}"

lemma marked_update: "i < length marks \<Longrightarrow> marked (marks[i := True]) = insert i (marked marks)"
  by (auto simp: marked_def nth_list_update)

lemma marked_replicate [simp]: "marked (replicate n False) = {}"
  by (auto simp: marked_def)

lemma marks_less:
  "i < length marks \<Longrightarrow> \<not> marks ! i \<Longrightarrow> length (filter Not (marks[i := True])) < length (filter Not marks)"
  by (induction marks arbitrary: i) (auto simp: nth_Cons' split: nat.splits)

lemma closed_reachable:
  assumes "T \<subseteq> S" and "\<And>i j. i \<in> S \<Longrightarrow> (i, j) \<in> R \<Longrightarrow> j \<in> S"
  shows "R\<^sup>* `` T \<subseteq> S"
proof
  fix x assume "x \<in> R\<^sup>* `` T"
  then obtain t where "t \<in> T" "(t, x) \<in> R\<^sup>*" by blast
  from this(2) show "x \<in> S" by induction (use assms \<open>t \<in> T\<close> in auto)
qed

locale worklist =
  fixes loop :: "bool list \<Rightarrow> nat list \<Rightarrow> 'e + bool list"
    and needs :: "nat \<Rightarrow> 'e + nat list"
    and n :: nat
  assumes loop_Nil: "loop marks [] = Inr marks"
    and loop_Cons: "length marks = n \<Longrightarrow> i < n \<Longrightarrow>
      loop marks (i # stack) =
        (if marks ! i then loop marks stack
         else bind_result (needs i) (\<lambda>ns. loop (marks[i := True]) (rev ns @ stack)))"
begin

definition needed :: "(nat \<times> nat) set" where
  "needed = {(i, j). i < n \<and> (\<exists>ns. needs i = Inr ns \<and> j \<in> set ns)}"

definition in_range :: bool where
  "in_range \<longleftrightarrow> (\<forall>i ns. i < n \<and> needs i = Inr ns \<longrightarrow> set ns \<subseteq> {..<n})"

definition inv :: "nat set \<Rightarrow> bool list \<Rightarrow> nat list \<Rightarrow> bool" where
  "inv T marks stack \<longleftrightarrow>
     length marks = n \<and> set stack \<subseteq> {..<n} \<and> T \<subseteq> marked marks \<union> set stack \<and>
     marked marks \<union> set stack \<subseteq> needed\<^sup>* `` T \<and>
     (\<forall>i\<in>marked marks. \<exists>ns. needs i = Inr ns \<and> set ns \<subseteq> marked marks \<union> set stack)"

lemma inv_skip: "inv T marks (i # stack) \<Longrightarrow> i \<in> marked marks \<Longrightarrow> inv T marks stack"
  unfolding inv_def by (simp add: insert_absorb)

lemma inv_visit:
  assumes "in_range" and "inv T marks (i # stack)" and "needs i = Inr ns"
  shows "inv T (marks[i := True]) (rev ns @ stack)"
proof -
  have i: "i < length marks" "i < n" using assms(2) by (auto simp: inv_def)
  have "set ns \<subseteq> {..<n}" using assms(1,3) i(2) by (auto simp: in_range_def)
  moreover have "\<forall>j\<in>set ns. (i, j) \<in> needed" using assms(3) i(2) by (auto simp: needed_def)
  then have "set ns \<subseteq> needed\<^sup>* `` T"
    using assms(2) by (auto simp: inv_def intro: rtrancl_into_rtrancl)
  moreover have "\<exists>ms. needs k = Inr ms \<and> set ms \<subseteq> insert i (marked marks \<union> (set ns \<union> set stack))" if "k \<in> marked marks" for k
    using assms(2) that unfolding inv_def by fastforce
  ultimately show ?thesis
    using assms(2,3) unfolding inv_def by (auto simp: marked_update[OF i(1)])
qed

lemma inv_done: "inv T marks [] \<Longrightarrow> marked marks = needed\<^sup>* `` T"
proof -
  assume i: "inv T marks []"
  then have "j \<in> marked marks" if "i \<in> marked marks" "(i, j) \<in> needed" for i j
    using that by (fastforce simp: inv_def needed_def)
  then have "needed\<^sup>* `` T \<subseteq> marked marks" using i by (intro closed_reachable) (auto simp: inv_def)
  then show ?thesis using i by (auto simp: inv_def)
qed

text \<open>The loop ends; it fails only for an index that is reached and whose needs fail, and otherwise marks
  exactly what is reached.\<close>

lemma marks_reached:
  assumes "in_range" and "inv T marks stack"
  shows "case loop marks stack of
      Inl e \<Rightarrow> \<exists>i\<in>needed\<^sup>* `` T. i < n \<and> needs i = Inl e
    | Inr out \<Rightarrow> length out = n \<and> marked out = needed\<^sup>* `` T \<and> (\<forall>i\<in>marked out. \<exists>ns. needs i = Inr ns)"
  using assms(2)
proof (induction "(marks, stack)" arbitrary: marks stack
    rule: wf_induct_rule[OF wf_measures[of "[\<lambda>(m, _). length (filter Not m), \<lambda>(_, s). length s]"]])
  case (1 marks stack)
  show ?case
  proof (cases stack)
    case Nil
    then have "inv T marks []" using 1(2) by simp
    moreover from this have "length marks = n" "\<forall>i\<in>marked marks. \<exists>ns. needs i = Inr ns" unfolding inv_def by blast+
    ultimately show ?thesis using inv_done Nil by (simp add: loop_Nil)
  next
    case (Cons i rest)
    have i: "length marks = n" "i < n" using 1(2) Cons by (auto simp: inv_def)
    show ?thesis
    proof (cases "marks ! i")
      case True
      then have "inv T marks rest" using inv_skip[of T marks i rest] 1(2) Cons i by (simp add: marked_def)
      then show ?thesis using 1(1)[of marks rest] True Cons loop_Cons[OF i] by simp
    next
      case False
      show ?thesis
      proof (cases "needs i")
        case (Inl e)
        moreover have "i \<in> needed\<^sup>* `` T" using 1(2) Cons by (auto simp: inv_def)
        ultimately show ?thesis using False Cons i loop_Cons[OF i] by auto
      next
        case (Inr ns)
        then show ?thesis
          using 1(1)[of "marks[i := True]" "rev ns @ rest"] inv_visit[OF assms(1) _ Inr] 1(2) marks_less[of i marks] False Cons i loop_Cons[OF i]
          by simp
      qed
    qed
  qed
qed

lemma inv_start: "T \<subseteq> {..<n} \<Longrightarrow> set stack = T \<Longrightarrow> inv T (replicate n False) stack"
  by (auto simp: inv_def)

end

end
