(* ===== verification/BuildPlan.thy ===== *)
theory BuildPlan
  imports BuildOps Worklist
begin

text \<open>
  Which stages a build makes and the variables they see, \<^verbatim>\<open>rustlet-build/src/plan.rs\<close>. The worklist
  of \<open>plan\<close> is a stack whose top comes first. Indexing past the end of a vector, which panics, is the
  error \<open>PlanPanic\<close>; \<^verbatim>\<open>BuildPlanCorrect\<close> shows that a parsed file never leads there.
\<close>

section \<open>Data\<close>

definition PROXY_ARGS :: "string list" where
  "PROXY_ARGS = [''HTTP_PROXY'', ''http_proxy'', ''HTTPS_PROXY'', ''https_proxy'', ''FTP_PROXY'', ''ftp_proxy'',
     ''NO_PROXY'', ''no_proxy'', ''ALL_PROXY'', ''all_proxy'']"

datatype Base = BaseScratch | BaseStage nat | BaseImage string

datatype FromSource = FromStage nat | FromImage string

type_synonym ArgValues = "(string, string option) BTreeMap"

record Plan =
  pl_stages :: "nat list"
  pl_target :: nat
  pl_bases :: "Base list"
  pl_unused_args :: "string list"
  pl_total_steps :: nat
  pl_global_args :: ArgValues

datatype PlanError =
    BaseExpansion nat ExpandError
  | BaseEmpty nat
  | PlatformExpansion nat ExpandError
  | PlatformRefused nat string
  | ArgExpansion string ExpandError
  | CopyFromVariable nat
  | NotBefore nat string
  | TargetMissing string
  | PlanPanic

section \<open>Variables\<close>

definition platform_args :: "(string, string) BTreeMap" where
  "platform_args =
     foldl (\<lambda>m (k, v). bt_insert k v m) []
       (concat (map (\<lambda>side. map (\<lambda>(name, val). (side @ name, val))
          [(''PLATFORM'', ''linux/amd64''), (''OS'', ''linux''), (''ARCH'', ''amd64''), (''VARIANT'', [])])
        [''TARGET'', ''BUILD'']))"

text \<open>\<open>values.get(name).cloned().flatten()\<close>.\<close>

definition get_flat :: "ArgValues \<Rightarrow> string \<Rightarrow> string option" where
  "get_flat m name = (case bt_get m name of Some v \<Rightarrow> v | None \<Rightarrow> None)"

text \<open>A value that is there replaces what was; a declaration without one only reserves the name.\<close>

definition set_or_reserve :: "string \<Rightarrow> string option \<Rightarrow> ArgValues \<Rightarrow> ArgValues" where
  "set_or_reserve name v m =
     (case v of Some val \<Rightarrow> bt_insert name (Some val) m
      | None \<Rightarrow> if bt_get m name = None then bt_insert name None m else m)"

fun global_loop :: "char \<Rightarrow> (string, string) BTreeMap \<Rightarrow> ArgValues \<Rightarrow> ArgDecl list \<Rightarrow> PlanError + ArgValues" where
  "global_loop esc build_args vals [] = Inr vals"
| "global_loop esc build_args vals (arg # args) =
     bind_result
       (case (bt_get build_args (ad_name arg), ad_default arg) of
          (Some v, _) \<Rightarrow> Inr (Some v)
        | (None, Some d) \<Rightarrow>
            bind_result (map_error (ArgExpansion (ad_name arg)) (expand_word d esc (get_flat vals))) (\<lambda>w. Inr (Some w))
        | (None, None) \<Rightarrow> Inr None) (\<lambda>v.
     global_loop esc build_args (set_or_reserve (ad_name arg) v vals) args)"

definition global_values :: "Containerfile \<Rightarrow> (string, string) BTreeMap \<Rightarrow> PlanError + ArgValues" where
  "global_values file build_args =
     (let vals = map (\<lambda>(name, v). (name, Some (case bt_get build_args name of Some o' \<Rightarrow> o' | None \<Rightarrow> v))) platform_args
      in global_loop (cf_escape file) build_args vals (cf_global_args file))"

section \<open>Stages\<close>

definition stage_named :: "Containerfile \<Rightarrow> string \<Rightarrow> nat \<Rightarrow> nat option" where
  "stage_named file name before =
     map_option st_index (find (\<lambda>s. st_name s = Some (lower name)) (take before (cf_stages file)))"

definition target_stage :: "Containerfile \<Rightarrow> string option \<Rightarrow> PlanError + nat" where
  "target_stage file target =
     (case nonempty target of
        None \<Rightarrow> Inr (length (cf_stages file) - 1)
      | Some t \<Rightarrow>
          (case stage_named file t (length (cf_stages file)) of
             Some i \<Rightarrow> Inr i
           | None \<Rightarrow>
               if t \<noteq> [] \<and> list_all is_digit t then
                 (case parse_uint 64 t of
                    Some i \<Rightarrow> if i < length (cf_stages file) then Inr i else Inl (TargetMissing t)
                  | None \<Rightarrow> Inl (TargetMissing t))
               else Inl (TargetMissing t)))"

definition resolve_from :: "Containerfile \<Rightarrow> nat \<Rightarrow> nat \<Rightarrow> string \<Rightarrow> PlanError + FromSource" where
  "resolve_from file line current from' =
     (if from' \<noteq> [] \<and> list_all is_digit from' then
        (case parse_uint 64 from' of
           Some i \<Rightarrow> if i < current then Inr (FromStage i) else Inl (NotBefore line from')
         | None \<Rightarrow> Inl (NotBefore line from'))
      else
        case find (\<lambda>s. st_name s = Some (lower from')) (cf_stages file) of
          Some s \<Rightarrow> if st_index s < current then Inr (FromStage (st_index s)) else Inl (NotBefore line from')
        | None \<Rightarrow> Inr (FromImage from'))"

text \<open>The base of a stage.\<close>

definition stage_base :: "Containerfile \<Rightarrow> (string \<Rightarrow> string option) \<Rightarrow> Stage \<Rightarrow> PlanError + Base" where
  "stage_base file lookup stage =
     bind_result (map_error (BaseExpansion (st_line stage)) (expand_word (st_base stage) (cf_escape file) lookup)) (\<lambda>base.
       if base = [] then Inl (BaseEmpty (st_line stage))
       else bind_result
         (case st_platform stage of
            None \<Rightarrow> Inr ()
          | Some p \<Rightarrow>
              bind_result (map_error (PlatformExpansion (st_line stage)) (expand_word p (cf_escape file) lookup)) (\<lambda>platform.
                if platform \<noteq> ''linux/amd64'' then Inl (PlatformRefused (st_line stage) platform) else Inr ())) (\<lambda>_.
       if lower base = ''scratch'' then Inr BaseScratch
       else case stage_named file base (st_index stage) of
              Some earlier \<Rightarrow> Inr (BaseStage earlier)
            | None \<Rightarrow> Inr (BaseImage base)))"

text \<open>The stages the copies of a stage read, in order.\<close>

fun copy_sources :: "Containerfile \<Rightarrow> nat \<Rightarrow> Instruction list \<Rightarrow> PlanError + nat list" where
  "copy_sources file i [] = Inr []"
| "copy_sources file i (inst # insts) =
     (case in_kind inst of
        Copy copy \<Rightarrow>
          (case ca_from copy of
             None \<Rightarrow> copy_sources file i insts
           | Some f \<Rightarrow>
               if CHR ''$'' \<in> set f then Inl (CopyFromVariable (in_line inst))
               else bind_result (resolve_from file (in_line inst) i f) (\<lambda>src.
                 bind_result (copy_sources file i insts) (\<lambda>more.
                   Inr (case src of FromStage j \<Rightarrow> j # more | FromImage _ \<Rightarrow> more))))
      | _ \<Rightarrow> copy_sources file i insts)"

definition stage_needs :: "Containerfile \<Rightarrow> Base list \<Rightarrow> nat \<Rightarrow> PlanError + nat list" where
  "stage_needs file bases i =
     bind_result (copy_sources file i (st_instructions (cf_stages file ! i))) (\<lambda>copies.
       Inr ((case bases ! i of BaseStage b \<Rightarrow> [b] | _ \<Rightarrow> []) @ copies))"

function needed_loop :: "Containerfile \<Rightarrow> Base list \<Rightarrow> bool list \<Rightarrow> nat list \<Rightarrow> PlanError + bool list" where
  "needed_loop file bases needed [] = Inr needed"
| "needed_loop file bases needed (i # queue) =
     (if i \<ge> length needed \<or> i \<ge> length bases \<or> i \<ge> length (cf_stages file) then Inl PlanPanic
      else if needed ! i then needed_loop file bases needed queue
      else bind_result (stage_needs file bases i) (\<lambda>needs. needed_loop file bases (needed[i := True]) (rev needs @ queue)))"
  by pat_completeness auto

termination
  by (relation "measures [\<lambda>(_, _, needed, _). length (filter Not needed), \<lambda>(_, _, _, queue). length queue]")
     (auto simp: marks_less)

declare needed_loop.simps(2) [simp del]

definition declared_args :: "Containerfile \<Rightarrow> string list" where
  "declared_args file =
     map ad_name (cf_global_args file @
       concat (map (\<lambda>inst. case in_kind inst of Arg args \<Rightarrow> args | _ \<Rightarrow> []) (concat (map st_instructions (cf_stages file)))))"

definition plan_of :: "Containerfile \<Rightarrow> (string, string) BTreeMap \<Rightarrow> ArgValues \<Rightarrow> Base list \<Rightarrow> nat \<Rightarrow> bool list \<Rightarrow> Plan" where
  "plan_of file build_args global_args bases target needed =
     (let stages = filter (\<lambda>i. needed ! i) [0..<length (cf_stages file)] in
      \<lparr>pl_stages = stages, pl_target = target, pl_bases = bases,
       pl_unused_args = filter (\<lambda>name. name \<notin> set (declared_args file) \<and> bt_get platform_args name = None \<and>
         name \<notin> set PROXY_ARGS) (map fst build_args),
       pl_total_steps = sum_list (map (\<lambda>i. 1 + length (st_instructions (cf_stages file ! i))) stages),
       pl_global_args = global_args\<rparr>)"

definition build_plan :: "Containerfile \<Rightarrow> string option \<Rightarrow> (string, string) BTreeMap \<Rightarrow> PlanError + Plan" where
  "build_plan file target build_args =
     bind_result (global_values file build_args) (\<lambda>global_args.
     bind_result (collect_results (stage_base file (get_flat global_args)) (cf_stages file)) (\<lambda>bases.
     bind_result (target_stage file target) (\<lambda>target.
     bind_result (needed_loop file bases (replicate (length (cf_stages file)) False) [target]) (\<lambda>needed.
       Inr (plan_of file build_args global_args bases target needed)))))"

section \<open>The arguments of a stage\<close>

record ArgScope =
  as_declared :: ArgValues
  as_global :: ArgValues
  as_build_args :: "(string, string) BTreeMap"

definition ArgScope_new :: "ArgValues \<Rightarrow> (string, string) BTreeMap \<Rightarrow> ArgScope" where
  "ArgScope_new global build_args = \<lparr>as_declared = [], as_global = global, as_build_args = build_args\<rparr>"

definition ArgScope_declare :: "string \<Rightarrow> string option \<Rightarrow> ArgScope \<Rightarrow> ArgScope" where
  "ArgScope_declare name dflt s =
     (let v = (case bt_get (as_build_args s) name of
                 Some b \<Rightarrow> Some b
               | None \<Rightarrow> (case dflt of Some d \<Rightarrow> Some d | None \<Rightarrow> get_flat (as_global s) name))
      in s\<lparr>as_declared := set_or_reserve name v (as_declared s)\<rparr>)"

definition ArgScope_get :: "ArgScope \<Rightarrow> string \<Rightarrow> string option" where
  "ArgScope_get s name = get_flat (as_declared s) name"

definition ArgScope_vars :: "ArgScope \<Rightarrow> (string \<times> string) list" where
  "ArgScope_vars s = List.map_filter (\<lambda>(name, v). map_option (Pair name) v) (as_declared s)"

definition proxy_env :: "ArgScope \<Rightarrow> (string \<times> string) list" where
  "proxy_env s = filter (\<lambda>(name, _). name \<in> set PROXY_ARGS \<and> bt_get (as_declared s) name = None) (as_build_args s)"

end
