(* ===== verification/DockerfileCorrect.thy ===== *)
theory DockerfileCorrect
  imports Dockerfile
begin

text \<open>
  Correctness of the Containerfile parser (theory \<^verbatim>\<open>Dockerfile\<close>): the numbers of the lines it reads, and
  the shape of every file that parses.
\<close>

section \<open>Line numbers\<close>

lemma continue_lines_read:
  "continue_lines esc read acc lines = (t, ws, r, ls) \<Longrightarrow> r + length ls = read + length lines \<and> read \<le> r"
  by (induction esc read acc lines arbitrary: t ws r ls rule: continue_lines.induct)
     (fastforce simp: Let_def split: if_splits prod.splits)+

text \<open>The instructions of a file start on distinct lines of it, in order.\<close>

lemma logical_lines_numbers:
  assumes "logical_lines esc read lines = (out, ws)"
  shows "sorted_wrt (<) (map lg_line out) \<and> (\<forall>l\<in>set out. read < lg_line l \<and> lg_line l \<le> read + length lines)"
  using assms
proof (induction esc read lines arbitrary: out ws rule: logical_lines.induct)
  case (2 esc read l lines)
  let ?first = "trim_start l"
  show ?case
  proof (cases "?first = [] \<or> starts_with ''#'' ?first")
    case True
    then have "logical_lines esc (read + 1) lines = (out, ws)" using "2.prems" by (simp add: logical_lines.simps(2) Let_def)
    then show ?thesis using "2.IH"(1)[OF refl] True by fastforce
  next
    case False
    obtain part continues where c: "continuation ?first esc = (part, continues)" by (cases "continuation ?first esc")
    define jn where "jn = (if continues then continue_lines esc (read + 1) part lines else (part, [], read + 1, lines))"
    obtain t w r ls where j: "jn = (t, w, r, ls)" by (cases jn)
    obtain more ws' where m: "logical_lines esc r ls = (more, ws')" by (cases "logical_lines esc r ls")
    have out: "out = (if trim t \<noteq> [] then \<lparr>lg_line = read + 1, lg_text = t\<rparr> # more else more)"
      using "2.prems" False c j m by (simp add: logical_lines.simps(2) Let_def jn_def[symmetric])
    have r: "r + length ls = read + 1 + length lines" "read + 1 \<le> r"
      using continue_lines_read[of esc "read + 1" part lines t w r ls] j by (auto simp: jn_def split: if_splits)
    have IH: "sorted_wrt (<) (map lg_line more) \<and> (\<forall>l\<in>set more. r < lg_line l \<and> lg_line l \<le> r + length ls)"
      using "2.IH"(2)[OF refl False c[symmetric] refl] j m jn_def by metis
    then show ?thesis using out r by auto
  qed
qed simp

section \<open>Stages\<close>

definition stage_lines :: "Stage list \<Rightarrow> nat list" where
  "stage_lines stages = concat (map (\<lambda>s. st_line s # map in_line (st_instructions s)) stages)"

definition stage_names :: "Stage list \<Rightarrow> string list" where
  "stage_names stages = List.map_filter st_name stages"

lemma add_instruction_keeps:
  assumes "stages \<noteq> []"
  shows "stage_lines (add_instruction stages i) = stage_lines stages @ [in_line i]"
    and "map st_index (add_instruction stages i) = map st_index stages"
    and "stage_names (add_instruction stages i) = stage_names stages"
    and "add_instruction stages i \<noteq> []"
proof -
  obtain ss s where s: "stages = ss @ [s]" using assms by (cases stages rule: rev_cases) auto
  show "stage_lines (add_instruction stages i) = stage_lines stages @ [in_line i]"
    "map st_index (add_instruction stages i) = map st_index stages"
    "stage_names (add_instruction stages i) = stage_names stages" "add_instruction stages i \<noteq> []"
    by (simp_all add: s add_instruction_def stage_lines_def stage_names_def map_filter_def)
qed

lemma lower_idem: "lower (lower s) = lower s"
proof -
  have "to_lower (to_lower c) = to_lower c" for c by (auto simp: to_lower_def Let_def)
  then show ?thesis by (simp add: lower_def)
qed

lemma stage_name_again: "stage_name w = Inr n \<Longrightarrow> stage_name n = Inr n"
  using lower_idem[of w] by (auto simp: stage_name_def Let_def split: if_splits)

lemma parse_from_name: "parse_from flags rest = Inr fr \<Longrightarrow> fr_name fr = Some n \<Longrightarrow> stage_name n = Inr n"
  by (auto simp: parse_from_def Let_def bind_result_Inr_iff stage_name_again split: if_splits list.splits)

lemma parse_text_from_name:
  assumes "parse_text json s esc = Inr (ParsedFrom fr)" and "fr_name fr = Some n"
  shows "stage_name n = Inr n"
proof -
  obtain flags rest where "parse_from flags rest = Inr fr"
    using assms(1) by (auto simp: parse_text_def Let_def bind_result_Inr_iff split: if_splits prod.splits)
  then show ?thesis using assms(2) parse_from_name by blast
qed

text \<open>What holds of the stages while a file is read, with the lines still to come.\<close>

definition stages_ok :: "Stage list \<Rightarrow> Logical list \<Rightarrow> bool" where
  "stages_ok stages ls \<longleftrightarrow>
     map st_index stages = [0..<length stages] \<and>
     distinct (stage_names stages) \<and>
     (\<forall>n\<in>set (stage_names stages). stage_name n = Inr n) \<and>
     sorted_wrt (<) (stage_lines stages @ map lg_line ls)"

lemma stages_ok_instruction:
  assumes "stages_ok stages (l # ls)" and "stages \<noteq> []" and "in_line i = lg_line l"
  shows "stages_ok (add_instruction stages i) ls"
proof -
  have "length (add_instruction stages i) = length stages"
    using add_instruction_keeps(2)[OF assms(2), of i] by (metis length_map)
  then show ?thesis using assms add_instruction_keeps[OF assms(2), of i] by (simp add: stages_ok_def)
qed

lemma stages_ok_from:
  assumes "stages_ok stages (l # ls)" and "st_index s = length stages" and "st_line s = lg_line l" and "st_instructions s = []"
    and "\<And>n. st_name s = Some n \<Longrightarrow> stage_name n = Inr n \<and> n \<notin> set (stage_names stages)"
  shows "stages_ok (stages @ [s]) ls"
  using assms
  by (cases "st_name s") (auto simp: stages_ok_def stage_lines_def stage_names_def map_filter_def)

lemma parse_loop_stages:
  "parse_loop json esc args stages ws ls = Inr (args', stages', ws') \<Longrightarrow> stages_ok stages ls \<Longrightarrow> stages_ok stages' []"
proof (induction json esc args stages ws ls rule: parse_loop.induct)
  case (1 json esc args stages ws)
  then show ?case by simp
next
  case (2 json esc args stages ws l ls)
  show ?case
  proof (cases "parse_text json (lg_text l) esc")
    case (Inl f)
    then show ?thesis using "2.prems" by simp
  next
    case (Inr p)
    show ?thesis
    proof (cases p)
      case (ParsedFrom fr)
      let ?s = "\<lparr>st_index = length stages, st_name = fr_name fr, st_base = fr_base fr, st_platform = fr_platform fr,
          st_line = lg_line l, st_instructions = []\<rparr>"
      have none: "(case fr_name fr of None \<Rightarrow> None | Some n \<Rightarrow> find (\<lambda>s. st_name s = Some n) stages) = None"
        using "2.prems" Inr ParsedFrom by (auto split: option.splits)
      have "n \<notin> set (stage_names stages)" if "fr_name fr = Some n" for n
        using none that by (force simp: find_None_iff stage_names_def map_filter_def)
      then have "stages_ok (stages @ [?s]) ls"
        using stages_ok_from[OF "2.prems"(2), of ?s] parse_text_from_name[of json "lg_text l" esc fr] Inr ParsedFrom by auto
      then show ?thesis using "2.IH"(1)[OF Inr ParsedFrom none] "2.prems" Inr ParsedFrom none by simp
    next
      case (ParsedInstruction kind)
      let ?ws = "case kind of Maintainer _ \<Rightarrow> ws @ [MaintainerDeprecated (lg_line l)] | _ \<Rightarrow> ws"
      show ?thesis
      proof (cases "stages = []")
        case False
        let ?i = "\<lparr>in_line = lg_line l, in_original = Logical_original l, in_kind = kind\<rparr>"
        have "stages_ok (add_instruction stages ?i) ls" using stages_ok_instruction[OF "2.prems"(2) False] by simp
        then show ?thesis
          using "2.IH"(2)[OF Inr ParsedInstruction refl False] "2.prems" Inr ParsedInstruction False by (simp add: Let_def)
      next
        case True
        then obtain decls where k: "kind = Arg decls"
          using "2.prems"(1) Inr ParsedInstruction by (cases kind) (auto simp: Let_def)
        have "stages_ok stages ls" using "2.prems"(2) by (auto simp: stages_ok_def True stage_lines_def)
        then show ?thesis
          using "2.IH"(3)[OF Inr ParsedInstruction refl _ k] "2.prems" Inr ParsedInstruction True k by simp
      qed
    qed
  qed
qed

section \<open>Properties\<close>

lemma directives_loop_escape:
  "directives_loop i esc seen lines = Inr e \<Longrightarrow> esc \<in> {CHR 0x5C, CHR 0x60} \<Longrightarrow> e \<in> {CHR 0x5C, CHR 0x60}"
  by (induction i esc seen lines rule: directives_loop.induct)
     (auto simp: Let_def split: option.splits if_splits)

lemma parsed_file:
  assumes "parse_containerfile json s = Inr cf"
  shows "cf_escape cf \<in> {CHR 0x5C, CHR 0x60} \<and> cf_stages cf \<noteq> [] \<and> stages_ok (cf_stages cf) []"
proof -
  define body where "body = (case strip_prefix [CHR 0xEF, CHR 0xBB, CHR 0xBF] s of Some b \<Rightarrow> b | None \<Rightarrow> s)"
  have parsed: "bind_result (directives (str_lines body)) (\<lambda>esc.
      let (logical, ws) = logical_lines esc 0 (str_lines body) in
      bind_result (parse_loop json esc [] [] ws logical) (\<lambda>(args, stages, ws').
        if stages = [] then Inl (0, NoFrom)
        else Inr \<lparr>cf_escape = esc, cf_global_args = args, cf_stages = stages, cf_warnings = ws'\<rparr>)) = Inr cf"
    using assms unfolding parse_containerfile_def body_def[symmetric] by (simp add: Let_def)
  then obtain esc where esc: "directives (str_lines body) = Inr esc" by (auto simp: bind_result_Inr_iff)
  obtain logical ws where l: "logical_lines esc 0 (str_lines body) = (logical, ws)"
    by (cases "logical_lines esc 0 (str_lines body)")
  obtain args stages ws' where p: "parse_loop json esc [] [] ws logical = Inr (args, stages, ws')"
    and cf: "stages \<noteq> []" "cf = \<lparr>cf_escape = esc, cf_global_args = args, cf_stages = stages, cf_warnings = ws'\<rparr>"
    using parsed esc l by (auto simp: bind_result_Inr_iff split: if_splits)
  have "stages_ok [] logical"
    using logical_lines_numbers[OF l] by (simp add: stages_ok_def stage_names_def stage_lines_def map_filter_def)
  then have "stages_ok stages []" by (rule parse_loop_stages[OF p])
  moreover have "esc \<in> {CHR 0x5C, CHR 0x60}"
    using directives_loop_escape esc by (auto simp: directives_def DEFAULT_ESCAPE_def)
  ultimately show ?thesis using cf by simp
qed

text \<open>C22: a file that parses has a stage, the escape character is one of the two there are, stages are
  numbered by position, no two have the same name, every name is a valid one in lower case (so not
  \<open>scratch\<close>), and the lines of stages and instructions increase strictly, so that none
  is repeated or out of order.\<close>

theorem containerfile_well_formed:
  assumes "parse_containerfile json s = Inr cf"
  shows "cf_escape cf \<in> {CHR 0x5C, CHR 0x60} \<and> cf_stages cf \<noteq> [] \<and>
    map st_index (cf_stages cf) = [0..<length (cf_stages cf)] \<and>
    distinct (stage_names (cf_stages cf)) \<and>
    (\<forall>n\<in>set (stage_names (cf_stages cf)). stage_name n = Inr n \<and> n \<noteq> ''scratch'') \<and>
    sorted_wrt (<) (stage_lines (cf_stages cf))"
proof -
  have "stage_name ''scratch'' \<noteq> Inr ''scratch''"
    by (auto simp: stage_name_def Let_def split: if_splits)
  then show ?thesis using parsed_file[OF assms] by (auto simp: stages_ok_def)
qed

text \<open>A file of two lines, evaluated step by step.\<close>

abbreviation example_file :: string where
  "example_file \<equiv> ''FROM a as b'' @ [CHR 0x0A] @ ''RUN x''"

lemmas evaluate_text = trim_def trim_start_def trim_end_def is_space_def starts_with_def is_word_blank_def
  split_keyword_def split_blank_once_def upper_def to_upper_def extract_flags_def check_flags_def nonempty_def

lemma example_lines: "str_lines example_file = [''FROM a as b'', ''RUN x'']"
proof -
  have "split_on (CHR 0x0A) example_file = [''FROM a as b'', ''RUN x'']"
    using split_on_append[of "CHR 0x0A" "''FROM a as b''" "''RUN x''"] split_on_plain[of "CHR 0x0A" "''RUN x''"]
    by (simp del: split_on.simps)
  then show ?thesis unfolding str_lines_def by (simp add: strip_cr_def strip_suffix_def del: split_on.simps)
qed

lemma example_logical:
  "logical_lines (CHR 0x5C) 0 [''FROM a as b'', ''RUN x''] =
     ([\<lparr>lg_line = 1, lg_text = ''FROM a as b''\<rparr>, \<lparr>lg_line = 2, lg_text = ''RUN x''\<rparr>], [])"
  by (simp add: logical_lines.simps(2) continuation_def strip_suffix_def evaluate_text)

lemma example_from:
  "parse_text json ''FROM a as b'' (CHR 0x5C) = Inr (ParsedFrom \<lparr>fr_base = ''a'', fr_name = Some ''b'', fr_platform = None\<rparr>)"
  by (simp add: parse_text_def parse_from_def stage_name_def is_alpha_def lower_def to_lower_def evaluate_text)

lemma example_run: "parse_text json ''RUN x'' (CHR 0x5C) = Inr (ParsedInstruction (Run (CmdShell ''x'')))"
  by (simp add: parse_text_def parse_run_def command_def json_array_def refuse_heredoc_def evaluate_text)

definition example_parsed :: Containerfile where
  "example_parsed = \<lparr>cf_escape = CHR 0x5C, cf_global_args = [],
     cf_stages = [\<lparr>st_index = 0, st_name = Some ''b'', st_base = ''a'', st_platform = None, st_line = 1,
       st_instructions = [\<lparr>in_line = 2, in_original = ''RUN x'', in_kind = Run (CmdShell ''x'')\<rparr>]\<rparr>], cf_warnings = []\<rparr>"

lemma example_parses: "parse_containerfile (\<lambda>_. None) example_file = Inr example_parsed"
proof -
  have "directives [''FROM a as b'', ''RUN x''] = Inr (CHR 0x5C)"
    by (simp add: directives_def directive_def DEFAULT_ESCAPE_def evaluate_text)
  moreover have "strip_prefix [CHR 0xEF, CHR 0xBB, CHR 0xBF] example_file = None" by simp
  ultimately show ?thesis
    unfolding parse_containerfile_def
    by (simp add: example_lines[simplified] example_logical example_from example_run add_instruction_def Logical_original_def
        example_parsed_def evaluate_text)
qed

theorem containerfile_well_formed_witness:
  "parse_containerfile (\<lambda>_. None) example_file = Inr example_parsed \<and>
   sorted_wrt (<) (stage_lines (cf_stages example_parsed))"
  using containerfile_well_formed[OF example_parses] example_parses by blast

end
