(* ===== verification/BuildPlanCorrect.thy ===== *)
theory BuildPlanCorrect
  imports BuildPlan DockerfileCorrect ExpandCorrect
begin

text \<open>
  Correctness of planning a build (theories \<^verbatim>\<open>BuildOps\<close> and \<^verbatim>\<open>BuildPlan\<close>): the worklist finds exactly
  the stages the target needs, arguments are looked up in their order of precedence, and what the
  parser accepted applies.
\<close>

section \<open>What a stage needs\<close>











section \<open>The worklist\<close>




section \<open>The plan\<close>












section \<open>Arguments\<close>

text \<open>What a declaration gives a name: the build argument, else the default, else the global value.\<close>

definition declared_value :: "ArgValues \<Rightarrow> (string, string) BTreeMap \<Rightarrow> string \<times> string option \<Rightarrow> string option" where
  "declared_value global build_args d =
     (case bt_get build_args (fst d) of
        Some b \<Rightarrow> Some b
      | None \<Rightarrow> (case snd d of Some v \<Rightarrow> Some v | None \<Rightarrow> get_flat global (fst d)))"

abbreviation declare_all :: "ArgValues \<Rightarrow> (string, string) BTreeMap \<Rightarrow> (string \<times> string option) list \<Rightarrow> ArgScope" where
  "declare_all global build_args ds \<equiv> foldl (\<lambda>s (n, d). ArgScope_declare n d s) (ArgScope_new global build_args) ds"

lemma set_or_reserve_ok: "bt_ok m \<Longrightarrow> bt_ok (set_or_reserve name v m)"
  by (auto simp: set_or_reserve_def bt.ok_ins split: option.splits)

lemma set_or_reserve_get:
  "bt_ok m \<Longrightarrow> get_flat (set_or_reserve name v m) n = (if n = name \<and> v \<noteq> None then v else get_flat m n)"
  by (auto simp: set_or_reserve_def get_flat_def bt.get_ins split: option.splits)

lemma declare_step:
  "as_declared (ArgScope_declare n d s) =
     set_or_reserve n (declared_value (as_global s) (as_build_args s) (n, d)) (as_declared s)"
  "as_global (ArgScope_declare n d s) = as_global s" "as_build_args (ArgScope_declare n d s) = as_build_args s"
  by (simp_all add: ArgScope_declare_def declared_value_def Let_def split: option.split)

lemma vars_names: "map fst (ArgScope_vars s) = map fst (filter (\<lambda>(n, v). v \<noteq> None) (as_declared s))"
proof -
  have "map fst (List.map_filter (\<lambda>(n, v). map_option (Pair n) v) m) = map fst (filter (\<lambda>(n, v). v \<noteq> None) m)"
    for m :: ArgValues
    by (induction m) (auto simp: map_filter_simps)
  then show ?thesis by (simp add: ArgScope_vars_def)
qed

lemma declare_all_keeps:
  "as_global (declare_all g b ds) = g \<and> as_build_args (declare_all g b ds) = b \<and> bt_ok (as_declared (declare_all g b ds)) \<and>
   (\<forall>n. ArgScope_get (declare_all g b ds) n =
      find_map_list (\<lambda>d. if fst d = n then declared_value g b d else None) (rev ds))"
proof (induction ds rule: rev_induct)
  case Nil
  then show ?case by (simp add: ArgScope_new_def ArgScope_get_def get_flat_def bt.ok_emp)
next
  case (snoc d ds)
  obtain n dflt where d: "d = (n, dflt)" by (cases d)
  let ?s = "declare_all g b ds"
  have "as_declared (ArgScope_declare n dflt ?s) = set_or_reserve n (declared_value g b d) (as_declared ?s)"
    "as_global (ArgScope_declare n dflt ?s) = g" "as_build_args (ArgScope_declare n dflt ?s) = b"
    using snoc declare_step[of n dflt ?s] by (simp_all add: d)
  then show ?case
    using snoc by (auto simp: d ArgScope_get_def set_or_reserve_ok set_or_reserve_get split: option.splits)
qed

text \<open>The value of an argument in a stage is the one its last declaration with a value gave it, a
  build argument before the default before the global; and the environment of a \<open>RUN\<close> lists exactly the
  arguments that have a value, sorted by name.\<close>

theorem arg_scope_values:
  "ArgScope_get (declare_all g b ds) n = find_map_list (\<lambda>d. if fst d = n then declared_value g b d else None) (rev ds) \<and>
   set (ArgScope_vars (declare_all g b ds)) = {(n, v). ArgScope_get (declare_all g b ds) n = Some v} \<and>
   sorted_wrt (<) (map fst (ArgScope_vars (declare_all g b ds)))"
proof -
  let ?m = "as_declared (declare_all g b ds)"
  have ok: "bt_ok ?m" using declare_all_keeps by blast
  have "set (ArgScope_vars (declare_all g b ds)) = {(n, v). bt_get ?m n = Some (Some v)}"
    using bt.entries_get[OF ok] by (force simp: ArgScope_vars_def map_filter_def)
  moreover have "bt_get ?m n = Some (Some v) \<longleftrightarrow> get_flat ?m n = Some v" for n v
    by (auto simp: get_flat_def split: option.splits)
  moreover have "sorted_wrt (<) (map fst (ArgScope_vars (declare_all g b ds)))"
    using ok by (simp add: vars_names bt_ok_def sorted_wrt_map sorted_wrt_filter)
  ultimately show ?thesis using declare_all_keeps[of g b ds] by (simp add: ArgScope_get_def)
qed

section \<open>Instructions\<close>

text \<open>A healthcheck that the parser accepted is never refused when the instruction runs: the
  options are checked once for the line number and read again later, with the same result.\<close>

theorem parsed_healthcheck_applies:
  assumes "healthcheck json flags rest = Inr h"
  shows "\<exists>op. new_with_build_args (HealthcheckInst h) esc lookup build_args = Inr (OpHealthcheck op)"
  using assms
  by (auto simp: healthcheck_def op_healthcheck_def new_with_build_args_def map_error_def Let_def bind_result_Inr_iff
      split: if_splits)

lemma foldl_push_new: "distinct out \<Longrightarrow> distinct (foldl push_new out es) \<and> set (foldl push_new out es) = set out \<union> set es"
  by (induction es arbitrary: out) (auto simp: push_new_def)

definition word_ports :: "string \<Rightarrow> string set" where
  "word_ports w = {port_entry proto p | p proto start stop. port_range w = Inr (start, stop, proto) \<and> start \<le> p \<and> p \<le> stop}"

lemma ports_loop_set:
  "distinct out \<Longrightarrow> ports_loop out words = Inr res \<Longrightarrow> distinct res \<and> set res = set out \<union> (\<Union>w\<in>set words. word_ports w)"
proof (induction words arbitrary: out)
  case (Cons w words)
  then obtain start stop proto where r: "port_range w = Inr (start, stop, proto)"
    and rest: "ports_loop (foldl push_new out (map (port_entry proto) [start..<Suc stop])) words = Inr res"
    by (auto simp: bind_result_Inr_iff)
  have "word_ports w = port_entry proto ` {start..stop}" using r by (auto simp: word_ports_def)
  then have "set (map (port_entry proto) [start..<Suc stop]) = word_ports w" by (auto simp: atLeastLessThanSuc_atLeastAtMost)
  then show ?case
    using Cons.IH[OF _ rest] foldl_push_new[OF Cons.prems(1), of "map (port_entry proto) [start..<Suc stop]"] by auto
qed simp

lemma parse_port_range: "parse_port s = Some p \<Longrightarrow> 1 \<le> p \<and> p \<le> 65535"
  using parse_uint_bound[of 16 s] by (fastforce simp: parse_port_def split: option.splits if_splits)

lemma port_range_bounds:
  assumes "port_range w = Inr (start, stop, proto)"
  shows "1 \<le> start \<and> start \<le> stop \<and> stop \<le> 65535 \<and> proto \<in> {''tcp'', ''udp'', ''sctp''}"
  using assms by (auto simp: port_range_def Let_def dest!: parse_port_range split: prod.splits option.splits if_splits)

text \<open>\<open>EXPOSE\<close> records every port of its ranges exactly once, each from 1 to 65535 and with one of
  the three protocols, and at least one.\<close>

theorem exposed_ports:
  assumes "ports words = Inr out"
  shows "out \<noteq> [] \<and> distinct out \<and> set out = (\<Union>w\<in>set words. word_ports w) \<and>
    (\<forall>e\<in>set out. \<exists>p proto. e = port_entry proto p \<and> 1 \<le> p \<and> p \<le> 65535 \<and> proto \<in> {''tcp'', ''udp'', ''sctp''})"
proof -
  have loop: "ports_loop [] words = Inr out" "out \<noteq> []"
    using assms by (auto simp: ports_def bind_result_Inr_iff split: if_splits)
  then have res: "distinct out" "set out = (\<Union>w\<in>set words. word_ports w)" using ports_loop_set[OF _ loop(1)] by auto
  have "\<exists>p proto. e = port_entry proto p \<and> 1 \<le> p \<and> p \<le> 65535 \<and> proto \<in> {''tcp'', ''udp'', ''sctp''}"
    if "e \<in> set out" for e
  proof -
    have "e \<in> (\<Union>w\<in>set words. word_ports w)" using that res(2) by simp
    then obtain w start stop proto p where "port_range w = Inr (start, stop, proto)" "start \<le> p" "p \<le> stop" "e = port_entry proto p"
      by (auto simp: word_ports_def)
    then show ?thesis using port_range_bounds[of w start stop proto] by fastforce
  qed
  then show ?thesis using loop res by blast
qed

lemma port_entry_eq [simp]: "port_entry a p = port_entry b q \<longleftrightarrow> a = b \<and> p = q"
proof -
  have "CHR 0x2F \<notin> set (dec n)" for n by (rule dec_no) (simp add: is_digit_def)
  then have "split_once (CHR 0x2F) (port_entry x n) = Some (dec n, x)" for x n
    by (simp add: port_entry_def split_once_append)
  then have "port_entry a p = port_entry b q \<Longrightarrow> dec p = dec q \<and> a = b" by (metis option.inject prod.inject)
  then show ?thesis by (metis digits_value_dec)
qed

lemmas evaluate_numbers = parse_uint_def parse_int_def parse_digits_def digits_value_def digit_value_def is_digit_def

theorem exposed_ports_witness:
  "{port_entry ''tcp'' 80, port_entry ''tcp'' 81, port_entry ''udp'' 53} = (\<Union>w\<in>{''80-81'', ''53/udp'', ''80''}. word_ports w)"
proof -
  have range: "port_range ''80-81'' = Inr (80, 81, ''tcp'')" "port_range ''53/udp'' = Inr (53, 53, ''udp'')"
    "port_range ''80'' = Inr (80, 80, ''tcp'')"
    by (simp_all add: port_range_def parse_port_def evaluate_numbers lower_def to_lower_def)
  have "[80..<82] = [80, 81 :: nat]" by (simp add: upt_rec)
  then have "ports [''80-81'', ''53/udp'', ''80''] = Inr [port_entry ''tcp'' 80, port_entry ''tcp'' 81, port_entry ''udp'' 53]"
    using range by (simp add: ports_def push_new_def)
  from exposed_ports[OF this] show ?thesis by auto
qed

abbreviation example_check :: Healthcheck where
  "example_check \<equiv> HealthcheckCheck \<lparr>hc_command = CmdShell ''x'', hc_interval = Some ''30s'', hc_timeout = None,
     hc_start_period = None, hc_start_interval = None, hc_retries = None\<rparr>"

theorem parsed_healthcheck_applies_witness:
  "\<exists>op. new_with_build_args (HealthcheckInst example_check) (CHR 0x5C) (\<lambda>_. None) [] = Inr (OpHealthcheck op)"
proof -
  have "parse_duration ''30s'' = Some 30000000000"
    by (simp add: parse_duration_def trim_def trim_start_def trim_end_def is_space_def duration_loop.simps is_number_char_def
        nanos_per_def micro_def micro_greek_def Let_def duration_part_def checked_u128_def evaluate_numbers)
  then have "healthcheck (\<lambda>_. None) [''--interval=30s''] ''CMD x'' = Inr example_check"
    by (simp add: healthcheck_def check_flags_def json_array_def health_duration_def health_retries_def evaluate_text)
  then show ?thesis by (rule parsed_healthcheck_applies)
qed

end
