(* ===== verification/Ignore.thy ===== *)
theory Ignore
  imports Dockerfile
begin

text \<open>
  Ignore files, \<^verbatim>\<open>rustlet-build/src/ignore.rs\<close>, and the lexical cleaning of paths,
  \<^verbatim>\<open>rustlet-build/src/path.rs\<close>. The crate \<open>regex\<close> is three parameters: \<open>build\<close> compiles an expression
  (in the octal mode the source sets), \<open>is_match\<close> applies it, and \<open>escape\<close> quotes a literal. Patterns
  are ASCII: a character is a byte.
\<close>

section \<open>Clean paths\<close>

text \<open>One part of a path; the parts are kept last first.\<close>

definition clean_part :: "bool \<Rightarrow> string list \<Rightarrow> string \<Rightarrow> string list" where
  "clean_part rooted parts part =
     (if part = [] \<or> part = ''.'' then parts
      else if part = ''..'' then
        (case parts of
           l # ps \<Rightarrow> if l \<noteq> ''..'' then ps else if rooted then parts else ''..'' # parts
         | [] \<Rightarrow> if rooted then parts else ''..'' # parts)
      else part # parts)"

definition clean_parts :: "bool \<Rightarrow> string \<Rightarrow> string list" where
  "clean_parts rooted path = rev (foldl (clean_part rooted) [] (split_on (CHR 0x2F) path))"

definition clean :: "string \<Rightarrow> string" where
  "clean path =
     (let rooted = starts_with [CHR 0x2F] path;
          joined = join_with [CHR 0x2F] (clean_parts rooted path)
      in if rooted then CHR 0x2F # joined else if joined = [] then ''.'' else joined)"

section \<open>Patterns\<close>

datatype PatternError =
    BangAlone
  | EndsWithEscape
  | MalformedClass
  | ClassPanic
  | TrailingEscape
  | ClassEscape char
  | InvalidEscapeChar char
  | RegexSyntax string

datatype GlobType = GExact | GPrefix | GSuffix | GRegex

datatype 'r Kind = Exact | Prefix string | Suffix string | Regex 'r

record 'r Pattern =
  pt_text :: string
  pt_exclusion :: bool
  pt_kind :: "'r Kind"

text \<open>One character of a class, maybe escaped, and what follows.\<close>

fun class_one :: "string \<Rightarrow> (char \<times> string) option" where
  "class_one [] = None"
| "class_one (c # cs) =
     (if c = CHR ''-'' \<or> c = CHR '']'' then None
      else if c = CHR 0x5C then (case cs of [] \<Rightarrow> None | d # ds \<Rightarrow> Some (d, ds))
      else Some (c, cs))"

lemma class_one_length: "class_one s = Some (c, t) \<Longrightarrow> length t < length s"
  by (cases s) (auto split: if_splits list.splits)

text \<open>The rest after a class; \<open>some\<close> tells whether it has an element already.\<close>

function class_loop :: "bool \<Rightarrow> string \<Rightarrow> string option" where
  "class_loop some s =
     (if starts_with '']'' s \<and> some then Some (tl s)
      else case class_one s of
             None \<Rightarrow> None
           | Some (low, s1) \<Rightarrow>
               (case (if starts_with ''-'' s1 then class_one (tl s1) else Some (low, s1)) of
                  None \<Rightarrow> None
                | Some (high, s2) \<Rightarrow>
                    if s2 = [] \<or> (of_char low :: nat) > of_char high then None else class_loop True s2))"
  by pat_completeness auto
termination
  by (relation "measure (\<lambda>(_, s). length s)")
     (auto split: if_splits dest!: class_one_length simp: starts_with_def)

declare class_loop.simps [simp del]

definition glob_class :: "string \<Rightarrow> string option" where
  "glob_class s = class_loop False (if starts_with ''^'' s then tl s else s)"

text \<open>The text of a class in the expression; an escape with nothing after it, which panics, is \<open>None\<close>.\<close>

fun class_text :: "string \<Rightarrow> string option" where
  "class_text [] = Some []"
| "class_text (c # cs) =
     (if c = CHR 0x5C then
        (case cs of [] \<Rightarrow> None | d # ds \<Rightarrow> map_option (\<lambda>t. CHR 0x5C # d # t) (class_text ds))
      else map_option (\<lambda>t. if c \<in> set ''[.+()|{}$'' then CHR 0x5C # c # t else c # t) (class_text cs))"

lemma class_loop_length: "class_loop some s = Some t \<Longrightarrow> length t < length s"
proof (induction some s rule: class_loop.induct)
  case (1 some s)
  show ?case
  proof (cases "starts_with '']'' s \<and> some")
    case True
    then show ?thesis using "1.prems" by (cases s) (auto simp: class_loop.simps starts_with_def split: if_splits)
  next
    case False
    obtain low s1 where one: "class_one s = Some (low, s1)"
      using "1.prems" False by (subst (asm) class_loop.simps) (auto split: option.splits)
    obtain high s2 where two: "(if starts_with ''-'' s1 then class_one (tl s1) else Some (low, s1)) = Some (high, s2)"
      and rest: "class_loop True s2 = Some t" "\<not> (s2 = [] \<or> (of_char low :: nat) > of_char high)"
      using "1.prems" False one by (subst (asm) class_loop.simps) (auto split: option.splits if_splits)
    have "length s2 < length s"
      using class_one_length[OF one] two class_one_length[of "tl s1" high s2] by (auto split: if_splits)
    then show ?thesis using "1.IH"[OF False one refl two refl rest(2,1)] by simp
  qed
qed

lemma glob_class_length: "glob_class s = Some t \<Longrightarrow> length t < length s"
  using class_loop_length[of False "if starts_with ''^'' s then tl s else s" t] by (auto simp: glob_class_def split: if_splits)

text \<open>The loop of \<open>compile\<close>: the expression and the type so far.\<close>

function glob_loop :: "bool \<Rightarrow> string \<Rightarrow> GlobType \<Rightarrow> string \<Rightarrow> PatternError + string \<times> GlobType" where
  "glob_loop first e k [] = Inr (e, k)"
| "glob_loop first e k (c # cs) =
     (if c = CHR ''*'' \<and> starts_with ''*'' cs then
        (let cs = (if starts_with [CHR 0x2F] (tl cs) then tl (tl cs) else tl cs) in
         if cs = [] then
           (if first then glob_loop False (if k = GExact then e else e @ ''.*'') GSuffix cs
            else if k = GExact then glob_loop False e GPrefix cs else glob_loop False (e @ ''.*'') GRegex cs)
         else glob_loop False (e @ ''(.*'' @ [CHR 0x2F] @ '')?'') (if first then GSuffix else GRegex) cs)
      else if c = CHR ''*'' then glob_loop False (e @ ''[^'' @ [CHR 0x2F] @ '']*'') GRegex cs
      else if c = CHR ''?'' then glob_loop False (e @ ''[^'' @ [CHR 0x2F] @ '']'') GRegex cs
      else if c = CHR 0x5C then
        (case cs of [] \<Rightarrow> Inl EndsWithEscape | d # ds \<Rightarrow> glob_loop False (e @ [CHR 0x5C, d]) GRegex ds)
      else if c = CHR ''['' then
        (case glob_class cs of
           None \<Rightarrow> Inl MalformedClass
         | Some rest \<Rightarrow>
             (case class_text (take (length cs - length rest - 1) cs) of
                None \<Rightarrow> Inl ClassPanic
              | Some t \<Rightarrow> glob_loop False (e @ ''['' @ t @ '']'') GRegex rest))
      else if c \<in> set ''.+()|{}$'' then glob_loop False (e @ [CHR 0x5C, c]) k cs
      else glob_loop False (e @ [c]) k cs)"
  by pat_completeness auto
termination
  by (relation "measure (\<lambda>(_, _, _, s). length s)") (auto dest!: glob_class_length simp: starts_with_def)

declare glob_loop.simps(2) [simp del]

text \<open>The literal after \<open>\\Q\<close>, up to \<open>\\E\<close>, and what follows.\<close>

fun quoted_literal :: "string \<Rightarrow> string \<times> string" where
  "quoted_literal [] = ([], [])"
| "quoted_literal (c # cs) =
     (if c = CHR 0x5C \<and> starts_with ''E'' cs then ([], tl cs)
      else let (l, r) = quoted_literal cs in (c # l, r))"

lemma quoted_literal_length: "length (snd (quoted_literal s)) \<le> length s"
  by (induction s) (auto simp: split_beta Let_def)

text \<open>What replaces an escape other than \<open>\\Q\<close>.\<close>

definition go_escape :: "char \<Rightarrow> PatternError + string" where
  "go_escape c =
     (if c = CHR ''d'' then Inr ''[0-9]''
      else if c = CHR ''D'' then Inr ''[^0-9]''
      else if c = CHR ''s'' then Inr (''['' @ [CHR 0x5C] @ ''t'' @ [CHR 0x5C] @ ''n'' @ [CHR 0x5C] @ ''f'' @ [CHR 0x5C] @ ''r ]'')
      else if c = CHR ''S'' then Inr (''[^'' @ [CHR 0x5C] @ ''t'' @ [CHR 0x5C] @ ''n'' @ [CHR 0x5C] @ ''f'' @ [CHR 0x5C] @ ''r ]'')
      else if c = CHR ''w'' then Inr ''[0-9A-Za-z_]''
      else if c = CHR ''W'' then Inr ''[^0-9A-Za-z_]''
      else if c = CHR ''b'' \<or> c = CHR ''B'' then Inr (''(?-u:'' @ [CHR 0x5C, c] @ '')'')
      else if c = CHR ''a'' then Inr ([CHR 0x5C] @ ''x07'')
      else if c = CHR ''v'' then Inr ([CHR 0x5C] @ ''x0B'')
      else if is_alpha c \<and> c \<notin> set ''fnrtAxzpP'' then Inl (InvalidEscapeChar c)
      else Inr [CHR 0x5C, c])"

function go_regex_loop :: "(string \<Rightarrow> string) \<Rightarrow> bool \<Rightarrow> string \<Rightarrow> PatternError + string" where
  "go_regex_loop escape in_class [] = Inr []"
| "go_regex_loop escape in_class (c # cs) =
     (if c \<noteq> CHR 0x5C then
        bind_result (go_regex_loop escape (if c = CHR ''['' then True else if c = CHR '']'' then False else in_class) cs)
          (\<lambda>out. Inr (c # out))
      else
        case cs of
          [] \<Rightarrow> Inl TrailingEscape
        | d # ds \<Rightarrow>
            if in_class \<and> d \<in> set ''AzbBQ'' then Inl (ClassEscape d)
            else if d = CHR ''Q'' then
              (let (l, r) = quoted_literal ds in bind_result (go_regex_loop escape in_class r) (\<lambda>out. Inr (escape l @ out)))
            else bind_result (go_escape d) (\<lambda>t. bind_result (go_regex_loop escape in_class ds) (\<lambda>out. Inr (t @ out))))"
  by pat_completeness auto
termination
proof (relation "measure (\<lambda>(_, _, s). length s)", goal_cases)
  case (3 escape in_class c cs d ds x l r)
  then show ?case using quoted_literal_length[of ds] by (auto dest: arg_cong[of _ _ snd])
qed auto

declare go_regex_loop.simps(2) [simp del]

definition go_regex_escapes :: "(string \<Rightarrow> string) \<Rightarrow> string \<Rightarrow> PatternError + string" where
  "go_regex_escapes escape raw = go_regex_loop escape False raw"

definition Pattern_compile :: "(string \<Rightarrow> string) \<Rightarrow> (string \<Rightarrow> string + 'r) \<Rightarrow> string \<Rightarrow> bool \<Rightarrow> PatternError + 'r Pattern" where
  "Pattern_compile escape build pat exclusion =
     bind_result (glob_loop True ''^'' GExact pat) (\<lambda>(e, k).
     bind_result
       (case k of
          GExact \<Rightarrow> Inr Exact
        | GPrefix \<Rightarrow> Inr (Prefix (take (length pat - 2) pat))
        | GSuffix \<Rightarrow> Inr (Suffix (drop 2 pat))
        | GRegex \<Rightarrow>
            bind_result (go_regex_escapes escape (e @ ''$'')) (\<lambda>expression.
              case build expression of Inl err \<Rightarrow> Inl (RegexSyntax err) | Inr r \<Rightarrow> Inr (Regex r))) (\<lambda>kind.
     Inr \<lparr>pt_text = pat, pt_exclusion = exclusion, pt_kind = kind\<rparr>))"

definition Pattern_matches :: "('r \<Rightarrow> string \<Rightarrow> bool) \<Rightarrow> 'r Pattern \<Rightarrow> string \<Rightarrow> bool" where
  "Pattern_matches is_match p path =
     (case pt_kind p of
        Exact \<Rightarrow> path = pt_text p
      | Prefix prefix \<Rightarrow> starts_with prefix path
      | Suffix suffix \<Rightarrow> strip_suffix suffix path \<noteq> None \<or> strip_prefix [CHR 0x2F] suffix = Some path
      | Regex r \<Rightarrow> is_match r path)"

definition literal_prefix :: "'r Pattern \<Rightarrow> string" where
  "literal_prefix p = takeWhile (\<lambda>c. c \<notin> {CHR ''*'', CHR ''?'', CHR ''['', CHR 0x5C}) (pt_text p)"

section \<open>Rules\<close>

type_synonym 'r IgnoreRules = "'r Pattern list"

definition relative_pattern :: "string \<Rightarrow> string" where
  "relative_pattern pat =
     (let cleaned = clean pat
      in case strip_prefix [CHR 0x2F] cleaned of Some rest \<Rightarrow> if rest \<noteq> [] then rest else cleaned | None \<Rightarrow> cleaned)"

fun rules_loop :: "(string \<Rightarrow> string) \<Rightarrow> (string \<Rightarrow> string + 'r) \<Rightarrow> nat \<Rightarrow> string list \<Rightarrow> nat \<times> PatternError + 'r IgnoreRules" where
  "rules_loop escape build n [] = Inr []"
| "rules_loop escape build n (line # lines) =
     (if starts_with ''#'' line then rules_loop escape build (n + 1) lines
      else
        let pat = trim line in
        if pat = [] then rules_loop escape build (n + 1) lines
        else
          let exclusion = starts_with ''!'' pat;
              pat = (if exclusion then trim (tl pat) else pat)
          in if pat = [] then Inl (n + 1, BangAlone)
             else case Pattern_compile escape build (relative_pattern pat) exclusion of
                    Inl e \<Rightarrow> Inl (n + 1, e)
                  | Inr p \<Rightarrow> bind_result (rules_loop escape build (n + 1) lines) (\<lambda>ps. Inr (p # ps)))"

definition IgnoreRules_parse :: "(string \<Rightarrow> string) \<Rightarrow> (string \<Rightarrow> string + 'r) \<Rightarrow> string \<Rightarrow> nat \<times> PatternError + 'r IgnoreRules" where
  "IgnoreRules_parse escape build s =
     (let body = (case strip_prefix [CHR 0xEF, CHR 0xBB, CHR 0xBF] s of Some b \<Rightarrow> b | None \<Rightarrow> s)
      in rules_loop escape build 0 (str_lines body))"

definition parents :: "string \<Rightarrow> string list" where
  "parents rel = map (\<lambda>i. take i rel) (filter (\<lambda>i. rel ! i = CHR 0x2F) [0..<length rel])"

definition applies :: "('r \<Rightarrow> string \<Rightarrow> bool) \<Rightarrow> string \<Rightarrow> 'r Pattern \<Rightarrow> bool" where
  "applies is_match rel p \<longleftrightarrow> Pattern_matches is_match p rel \<or> list_ex (Pattern_matches is_match p) (parents rel)"

definition excludes_step :: "('r \<Rightarrow> string \<Rightarrow> bool) \<Rightarrow> string \<Rightarrow> bool \<Rightarrow> 'r Pattern \<Rightarrow> bool" where
  "excludes_step is_match rel excluded p =
     (if pt_exclusion p \<noteq> excluded then excluded
      else if applies is_match rel p then \<not> pt_exclusion p else excluded)"

definition excludes :: "('r \<Rightarrow> string \<Rightarrow> bool) \<Rightarrow> 'r IgnoreRules \<Rightarrow> string \<Rightarrow> bool" where
  "excludes is_match rules rel = foldl (excludes_step is_match rel) False rules"

definition may_include_below :: "'r IgnoreRules \<Rightarrow> string \<Rightarrow> bool" where
  "may_include_below rules rel =
     (let dir = rev (dropWhile (\<lambda>c. c = CHR 0x2F) (rev rel)) @ [CHR 0x2F]
      in list_ex (\<lambda>p. starts_with dir (literal_prefix p) \<or> starts_with (literal_prefix p) dir) (filter pt_exclusion rules))"

end
