(* ===== verification/Context.thy ===== *)
theory Context
  imports Ignore Btree "HOL-Library.Multiset"
begin

text \<open>
  Packing a build context, \<^verbatim>\<open>rustlet-build/src/context.rs\<close>. The file system is a tree that does not change
  while it is packed; what cannot be read is marked in it. A path is the text of its names; the archive is
  the list of its entries, and writing to it succeeds.
\<close>

section \<open>Data\<close>

record Metadata =
  md_mode :: nat
  md_mtime :: int
  md_len :: nat

text \<open>What is at a path; a file can be opened or not, a directory can be listed or not, and what a path is may be unknown.\<close>

datatype Node =
    NodeFile Metadata bool
  | NodeDir Metadata "(string \<times> Node) list option"
  | NodeLink Metadata string
  | NodeSpecial
  | NodeUnknown

datatype CtxPath = At string | OutsidePath

datatype ContextError = CtxIo CtxPath | CtxChanged CtxPath | NotADirectory | BadRules "nat \<times> PatternError"

datatype TarType = TarDirectory | TarSymlink string | TarRegular

record TarEntry =
  te_type :: TarType
  te_name :: string
  te_mode :: nat
  te_mtime :: nat
  te_size :: nat

record Packed =
  pd_dockerfile :: string
  pd_entries :: nat
  pd_bytes :: nat
  pd_excluded :: nat

record 'r Packer =
  pk_out :: "TarEntry list"
  pk_rules :: "'r IgnoreRules"
  pk_always :: "string list"
  pk_outside :: "Node option"
  pk_pending :: "(string \<times> Metadata) list"
  pk_packed :: Packed

definition OUTSIDE_NAME :: string where
  "OUTSIDE_NAME = ''.rustlet-containerfile''"

section \<open>Entries\<close>

definition tar_header :: "TarType \<Rightarrow> string \<Rightarrow> Metadata \<Rightarrow> nat \<Rightarrow> TarEntry" where
  "tar_header kind name md sz =
     \<lparr>te_type = kind, te_name = name, te_mode = md_mode md mod 4096, te_mtime = nat (md_mtime md), te_size = sz\<rparr>"

definition pk_append :: "TarEntry \<Rightarrow> 'r Packer \<Rightarrow> 'r Packer" where
  "pk_append e st = st\<lparr>pk_out := pk_out st @ [e], pk_packed := (pk_packed st)\<lparr>pd_entries := pd_entries (pk_packed st) + 1,
     pd_bytes := pd_bytes (pk_packed st) + te_size e\<rparr>\<rparr>"

definition pk_directory :: "string \<Rightarrow> Metadata \<Rightarrow> 'r Packer \<Rightarrow> 'r Packer" where
  "pk_directory rel md st = pk_append (tar_header TarDirectory (rel @ [CHR 0x2F]) md 0) st"

definition flush_pending :: "'r Packer \<Rightarrow> 'r Packer" where
  "flush_pending st = foldl (\<lambda>st (rel, md). pk_directory rel md st) (st\<lparr>pk_pending := []\<rparr>) (pk_pending st)"

text \<open>A regular file: what is opened must be one.\<close>

definition pk_file :: "CtxPath \<Rightarrow> string \<Rightarrow> Node \<Rightarrow> 'r Packer \<Rightarrow> 'r Packer \<times> (ContextError + unit)" where
  "pk_file path rel node st =
     (case node of
        NodeFile md True \<Rightarrow> (pk_append (tar_header TarRegular rel md (md_len md)) st, Inr ())
      | NodeFile _ False \<Rightarrow> (st, Inl (CtxIo path))
      | NodeUnknown \<Rightarrow> (st, Inl (CtxIo path))
      | _ \<Rightarrow> (st, Inl (CtxChanged path)))"

definition join_path :: "string \<Rightarrow> string \<Rightarrow> string" where
  "join_path rel name = (if rel = [] then name else rel @ CHR 0x2F # name)"

section \<open>The walk\<close>

definition pk_excluded :: "('r \<Rightarrow> string \<Rightarrow> bool) \<Rightarrow> 'r Packer \<Rightarrow> string \<Rightarrow> bool" where
  "pk_excluded is_match st name \<longleftrightarrow> name \<notin> set (pk_always st) \<and> excludes is_match (pk_rules st) name"

definition pk_enter :: "'r Packer \<Rightarrow> string \<Rightarrow> bool" where
  "pk_enter st name \<longleftrightarrow>
     may_include_below (pk_rules st) name \<or> list_ex (starts_with (name @ [CHR 0x2F])) (pk_always st)"

definition pk_names :: "string \<Rightarrow> Node option \<Rightarrow> (string \<times> Node) list \<Rightarrow> (string \<times> Node) list" where
  "pk_names rel outside children =
     sort_key fst
       (case (rel, outside) of
          ([], Some _) \<Rightarrow> filter (\<lambda>(name, _). name \<noteq> OUTSIDE_NAME) children @ [(OUTSIDE_NAME, NodeUnknown)]
        | _ \<Rightarrow> children)"

definition count_excluded :: "'r Packer \<Rightarrow> 'r Packer" where
  "count_excluded st = st\<lparr>pk_packed := (pk_packed st)\<lparr>pd_excluded := pd_excluded (pk_packed st) + 1\<rparr>\<rparr>"

lemma pk_names_size:
  "size_list (size_prod (\<lambda>_. 0) size) (pk_names rel outside cs) \<le> size_list (size_prod (\<lambda>_. 0) size) cs + 2"
proof -
  have sorted: "size_list f (sort_key fst xs) = size_list f xs" for f and xs :: "(string \<times> Node) list"
    by (simp add: size_list_conv_sum_list flip: sum_mset_sum_list)
  have filtered: "size_list f (filter P xs) \<le> size_list f xs" for f P and xs :: "(string \<times> Node) list"
    by (induction xs) auto
  have "size_list f (xs @ [x]) = size_list f xs + f x + 1" for f and xs :: "(string \<times> Node) list" and x
    by (induction xs) auto
  then show ?thesis
    using filtered[of "size_prod (\<lambda>_. 0) size" "\<lambda>(name, _). name \<noteq> OUTSIDE_NAME" cs]
    by (auto simp: pk_names_def sorted split: list.splits option.splits)
qed

function pk_entry :: "('r \<Rightarrow> string \<Rightarrow> bool) \<Rightarrow> string \<Rightarrow> Node \<Rightarrow> 'r Packer \<Rightarrow> 'r Packer \<times> (ContextError + unit)"
  and pk_walk :: "('r \<Rightarrow> string \<Rightarrow> bool) \<Rightarrow> string \<Rightarrow> (string \<times> Node) list option \<Rightarrow> 'r Packer \<Rightarrow> 'r Packer \<times> (ContextError + unit)"
  and pk_list :: "('r \<Rightarrow> string \<Rightarrow> bool) \<Rightarrow> string \<Rightarrow> (string \<times> Node) list \<Rightarrow> 'r Packer \<Rightarrow> 'r Packer \<times> (ContextError + unit)" where
  "pk_entry is_match rel node st =
     (if pk_excluded is_match st rel then
        (case (if pk_enter st rel then node else NodeUnknown) of
           NodeDir md children \<Rightarrow>
             (let st1 = st\<lparr>pk_pending := pk_pending st @ [(rel, md)]\<rparr>;
                  depth = length (pk_pending st1);
                  (st2, r) = pk_walk is_match rel children st1
              in if r = Inr () \<or> r = Inl (CtxIo (At rel)) then
                   (if length (pk_pending st2) = depth then count_excluded (st2\<lparr>pk_pending := butlast (pk_pending st2)\<rparr>) else st2, Inr ())
                 else (st2, r))
         | _ \<Rightarrow> (count_excluded st, Inr ()))
      else
        case node of
          NodeUnknown \<Rightarrow> (st, Inl (CtxIo (At rel)))
        | NodeSpecial \<Rightarrow> (st, Inr ())
        | NodeDir md children \<Rightarrow> pk_walk is_match rel children (pk_directory rel md (flush_pending st))
        | NodeLink md target \<Rightarrow> (pk_append (tar_header (TarSymlink target) rel md 0) (flush_pending st), Inr ())
        | NodeFile md _ \<Rightarrow> pk_file (At rel) rel node (flush_pending st))"
| "pk_walk is_match rel children st =
     (case children of
        None \<Rightarrow> (st, Inl (CtxIo (At rel)))
      | Some cs \<Rightarrow> pk_list is_match rel (pk_names rel (pk_outside st) cs) st)"
| "pk_list is_match rel names st =
     (case names of
        [] \<Rightarrow> (st, Inr ())
      | (name, node) # rest \<Rightarrow>
          (let (st2, r) =
             (if rel = [] \<and> name = OUTSIDE_NAME \<and> pk_outside st \<noteq> None
              then pk_file OutsidePath name (the (pk_outside st)) (flush_pending st)
              else pk_entry is_match (join_path rel name) node st)
           in case r of Inl e \<Rightarrow> (st2, Inl e) | Inr _ \<Rightarrow> pk_list is_match rel rest st2))"
  by pat_completeness auto

termination
proof (relation "measure (\<lambda>x. case x of
      Inl (_, _, node, _) \<Rightarrow> 3 * size node + 2
    | Inr (Inl (_, _, children, _)) \<Rightarrow> 3 * size_option (size_list (size_prod (\<lambda>_. 0) size)) children + 4
    | Inr (Inr (_, _, names, _)) \<Rightarrow> 3 * size_list (size_prod (\<lambda>_. 0) size) names)", goal_cases)
  case (4 is_match rel children st cs)
  then show ?case using pk_names_size[of rel "pk_outside st" cs] by simp
qed (auto split: if_splits)

declare pk_entry.simps [simp del] pk_walk.simps [simp del] pk_list.simps [simp del]

section \<open>A whole context\<close>

text \<open>Where the Containerfile is: at a path of the context, or elsewhere.\<close>

datatype Location = Inside string | Outside Node

fun node_at :: "Node \<Rightarrow> string list \<Rightarrow> Node" where
  "node_at node [] = node"
| "node_at node (name # names) =
     (case node of
        NodeDir _ (Some cs) \<Rightarrow> (case map_of cs name of Some child \<Rightarrow> node_at child names | None \<Rightarrow> NodeUnknown)
      | _ \<Rightarrow> NodeUnknown)"

definition locate_for_transport :: "('r \<Rightarrow> string \<Rightarrow> bool) \<Rightarrow> Node \<Rightarrow> Location \<Rightarrow> 'r IgnoreRules \<Rightarrow> Location" where
  "locate_for_transport is_match root loc rules =
     (case loc of
        Inside name \<Rightarrow> if excludes is_match rules name then Outside (node_at root (split_on (CHR 0x2F) name)) else Inside name
      | Outside node \<Rightarrow> Outside node)"

definition load_rules :: "(string \<Rightarrow> string) \<Rightarrow> (string \<Rightarrow> string + 'r) \<Rightarrow> string option \<Rightarrow> ContextError + 'r IgnoreRules" where
  "load_rules escape build ignore =
     (case ignore of None \<Rightarrow> Inr [] | Some body \<Rightarrow>
        (case IgnoreRules_parse escape build body of Inl e \<Rightarrow> Inl (BadRules e) | Inr rules \<Rightarrow> Inr rules))"

definition location_name :: "Location \<Rightarrow> string" where
  "location_name loc = (case loc of Inside name \<Rightarrow> name | Outside _ \<Rightarrow> OUTSIDE_NAME)"

definition dockerfile_name ::
  "('r \<Rightarrow> string \<Rightarrow> bool) \<Rightarrow> (string \<Rightarrow> string) \<Rightarrow> (string \<Rightarrow> string + 'r) \<Rightarrow> Node \<Rightarrow> string option \<Rightarrow> Location \<Rightarrow> ContextError + string" where
  "dockerfile_name is_match escape build root ignore loc =
     bind_result (load_rules escape build ignore) (\<lambda>rules.
       Inr (location_name (locate_for_transport is_match root loc rules)))"

definition new_packer :: "'r IgnoreRules \<Rightarrow> Location \<Rightarrow> 'r Packer" where
  "new_packer rules loc =
     \<lparr>pk_out = [], pk_rules = rules,
      pk_always = (case loc of Inside name \<Rightarrow> [name] | Outside _ \<Rightarrow> []),
      pk_outside = (case loc of Inside _ \<Rightarrow> None | Outside node \<Rightarrow> Some node),
      pk_pending = [],
      pk_packed = \<lparr>pd_dockerfile = location_name loc, pd_entries = 0, pd_bytes = 0, pd_excluded = 0\<rparr>\<rparr>"

text \<open>The archive and what \<open>pack\<close> says of it.\<close>

definition pack ::
  "('r \<Rightarrow> string \<Rightarrow> bool) \<Rightarrow> (string \<Rightarrow> string) \<Rightarrow> (string \<Rightarrow> string + 'r) \<Rightarrow> Node \<Rightarrow> string option \<Rightarrow> Location \<Rightarrow>
    ContextError + TarEntry list \<times> Packed" where
  "pack is_match escape build root ignore loc =
     (case root of
        NodeDir _ children \<Rightarrow>
          bind_result (load_rules escape build ignore) (\<lambda>rules.
            let (st, r) = pk_walk is_match [] children (new_packer rules (locate_for_transport is_match root loc rules))
            in case r of Inl e \<Rightarrow> Inl e | Inr _ \<Rightarrow> Inr (pk_out st, pk_packed st))
      | NodeUnknown \<Rightarrow> Inl (CtxIo (At []))
      | _ \<Rightarrow> Inl NotADirectory)"

end
