(* ===== verification/IgnoreCorrect.thy ===== *)
theory IgnoreCorrect
  imports Ignore
begin

text \<open>
  Ignore files: cleaned paths lead where the path leads, the last pattern that matches decides, and a walk
  that skips a directory because no exception reaches below it loses nothing. The crate \<open>regex\<close> is a
  parameter with the laws \<open>regex_laws\<close>; an instance shows that they can hold.
\<close>

section \<open>Clean paths\<close>

text \<open>What a path means: the names from the root to where it leads, last first, from a directory
  \<open>dir\<close>. Above the root is the root.\<close>

definition walk_part :: "string list \<Rightarrow> string \<Rightarrow> string list" where
  "walk_part dir part = (if part = [] \<or> part = ''.'' then dir else if part = ''..'' then tl dir else part # dir)"

definition walk_path :: "string list \<Rightarrow> string \<Rightarrow> string list" where
  "walk_path dir path =
     foldl walk_part (if starts_with [CHR 0x2F] path then [] else dir) (split_on (CHR 0x2F) path)"

definition plain_part :: "string \<Rightarrow> bool" where
  "plain_part part \<longleftrightarrow> part \<noteq> [] \<and> part \<noteq> ''.'' \<and> part \<noteq> ''..'' \<and> CHR 0x2F \<notin> set part"

text \<open>Parts in their order: \<open>..\<close> only in front, and never below the root.\<close>

definition normal_parts :: "bool \<Rightarrow> string list \<Rightarrow> bool" where
  "normal_parts rooted parts \<longleftrightarrow>
     (\<exists>n names. parts = replicate n ''..'' @ names \<and> list_all plain_part names \<and> (rooted \<longrightarrow> n = 0))"

lemma normal_partsI: "list_all plain_part names \<Longrightarrow> (rooted \<longrightarrow> n = 0) \<Longrightarrow> normal_parts rooted (replicate n ''..'' @ names)"
  by (auto simp: normal_parts_def)

lemma normal_Nil [simp]: "normal_parts rooted []"
  using normal_partsI[of "[]" rooted 0] by simp

lemma normal_parts_plain: "normal_parts rooted parts \<Longrightarrow> p \<in> set parts \<Longrightarrow> p \<noteq> [] \<and> p \<noteq> ''.'' \<and> CHR 0x2F \<notin> set p"
  unfolding normal_parts_def by (elim exE conjE) (cases "p = ''..''", simp_all add: list_all_iff plain_part_def)

lemma split_on_parts: "p \<in> set (split_on c s) \<Longrightarrow> c \<notin> set p"
proof (induction s arbitrary: p)
  case (Cons x s)
  obtain y ys where "split_on c s = y # ys" by (cases "split_on c s") auto
  then show ?case using Cons by (auto split: if_splits)
qed simp

text \<open>One part of the loop: the parts stay normal, and lead where the path leads.\<close>

lemma clean_part_step:
  assumes "normal_parts rooted (rev parts)" and "CHR 0x2F \<notin> set part" and "rooted \<longrightarrow> dir = []"
  shows "normal_parts rooted (rev (clean_part rooted parts part)) \<and>
    foldl walk_part dir (rev (clean_part rooted parts part)) = walk_part (foldl walk_part dir (rev parts)) part"
proof -
  obtain n names where parts: "rev parts = replicate n ''..'' @ names" "list_all plain_part names" "rooted \<longrightarrow> n = 0"
    using assms(1) by (auto simp: normal_parts_def)
  consider (skip) "part = [] \<or> part = ''.''" | (up) "part = ''..''" | (name) "plain_part part"
    using assms(2) by (auto simp: plain_part_def)
  then show ?thesis
  proof cases
    case skip
    then show ?thesis using assms(1) by (auto simp: clean_part_def walk_part_def)
  next
    case up
    show ?thesis
    proof (cases names rule: rev_cases)
      case Nil
      then have stack: "parts = replicate n ''..''" using parts(1) by (simp add: rev_swap)
      show ?thesis
      proof (cases rooted)
        case True
        then show ?thesis using stack parts(3) assms(3) up by (simp add: clean_part_def walk_part_def)
      next
        case False
        then have cp: "clean_part rooted parts part = ''..'' # parts"
          using stack up by (cases n) (simp_all add: clean_part_def)
        have "rev (clean_part rooted parts part) = replicate (Suc n) ''..'' @ []" using stack cp by (simp add: replicate_append_same)
        then have "normal_parts rooted (rev (clean_part rooted parts part))"
          using False normal_partsI[of "[]" rooted "Suc n"] by (metis list.pred_inject(1))
        then show ?thesis using cp up by simp
      qed
    next
      case (snoc init l)
      then have stack: "parts = l # rev (replicate n ''..'' @ init)" using parts(1) by (simp add: rev_swap)
      have l: "plain_part l" "list_all plain_part init" using parts(2) snoc by auto
      have cp: "clean_part rooted parts part = rev (replicate n ''..'' @ init)"
        using l(1) up by (simp add: clean_part_def stack plain_part_def)
      have "foldl walk_part dir (rev parts) = l # foldl walk_part dir (replicate n ''..'' @ init)"
        using stack l(1) by (simp add: walk_part_def plain_part_def)
      then show ?thesis
        using cp l(2) parts(3) normal_partsI up by (simp add: walk_part_def)
    qed
  next
    case name
    then have "clean_part rooted parts part = part # parts" by (simp add: clean_part_def plain_part_def)
    moreover have "normal_parts rooted (rev (part # parts))"
      using parts name normal_partsI[of "names @ [part]" rooted n] by simp
    ultimately show ?thesis by simp
  qed
qed

lemma clean_parts_walk:
  assumes "rooted \<longrightarrow> dir = []"
  shows "normal_parts rooted (clean_parts rooted path) \<and>
    foldl walk_part dir (clean_parts rooted path) = foldl walk_part dir (split_on (CHR 0x2F) path)"
proof -
  have "normal_parts rooted (rev ps) \<Longrightarrow> \<forall>p\<in>set parts. CHR 0x2F \<notin> set p \<Longrightarrow>
      normal_parts rooted (rev (foldl (clean_part rooted) ps parts)) \<and>
      foldl walk_part dir (rev (foldl (clean_part rooted) ps parts)) = foldl walk_part (foldl walk_part dir (rev ps)) parts" for ps parts
    using clean_part_step[OF _ _ assms]
    by (induction parts arbitrary: ps) simp_all
  from this[of "[]" "split_on (CHR 0x2F) path"] show ?thesis by (auto simp: clean_parts_def dest: split_on_parts)
qed

lemma clean_parts_normal: "normal_parts rooted (clean_parts rooted path)"
  using clean_parts_walk[of rooted "[]" path] by simp

text \<open>Normal parts are what the loop makes of them.\<close>

lemma clean_part_normal:
  assumes "normal_parts rooted parts"
  shows "foldl (clean_part rooted) [] parts = rev parts"
proof -
  obtain n names where parts: "parts = replicate n ''..'' @ names" "list_all plain_part names" "rooted \<longrightarrow> n = 0"
    using assms by (auto simp: normal_parts_def)
  have up: "foldl (clean_part False) (replicate m ''..'') (replicate k ''..'') = replicate (m + k) ''..''" for m k
  proof (induction k arbitrary: m)
    case (Suc k)
    have "clean_part False (replicate m ''..'') ''..'' = replicate (Suc m) ''..''" by (cases m) (simp_all add: clean_part_def)
    then show ?case using Suc[of "Suc m"] by simp
  qed simp
  have names: "list_all plain_part ns \<Longrightarrow> foldl (clean_part rooted) ps ns = rev ns @ ps" for ns ps
    by (induction ns arbitrary: ps) (auto simp: clean_part_def plain_part_def)
  have "foldl (clean_part rooted) [] (replicate n ''..'') = replicate n ''..''"
    using up[of 0 n] parts(3) by (cases rooted) simp_all
  then show ?thesis using names[OF parts(2)] parts(1) by simp
qed

lemma join_parts_not_rooted:
  assumes "normal_parts rooted parts"
  shows "\<not> starts_with [CHR 0x2F] (join_with [CHR 0x2F] parts)"
proof (cases parts)
  case (Cons p ps)
  then obtain c cs where p: "p = c # cs" "c \<noteq> CHR 0x2F" using normal_parts_plain[OF assms, of p] by (cases p) auto
  then obtain rest where "join_with [CHR 0x2F] parts = c # rest" using Cons by (cases ps) simp_all
  then show ?thesis using p by (simp add: starts_with_def)
qed (simp add: starts_with_def)

lemma join_parts_empty: "normal_parts rooted parts \<Longrightarrow> join_with [CHR 0x2F] parts = [] \<longleftrightarrow> parts = []"
  by (induction "[CHR 0x2F]" parts rule: join_with.induct) (auto dest: normal_parts_plain)

text \<open>The shapes of a clean path.\<close>

lemma clean_shape:
  "let parts = clean_parts (starts_with [CHR 0x2F] path) path;
       rooted = starts_with [CHR 0x2F] (clean path) in
   rooted = starts_with [CHR 0x2F] path \<and> normal_parts rooted parts \<and>
   split_on (CHR 0x2F) (clean path) =
     (if rooted then [] # (if parts = [] then [[]] else parts) else if parts = [] then [''.''] else parts)"
proof -
  define rooted where "rooted = starts_with [CHR 0x2F] path"
  define parts where "parts = clean_parts rooted path"
  have normal: "normal_parts rooted parts" using clean_parts_normal by (simp add: parts_def)
  have slash: "starts_with [CHR 0x2F] (CHR 0x2F # s)" "\<not> starts_with [CHR 0x2F] ''.''" for s by (simp_all add: starts_with_def)
  have split: "parts \<noteq> [] \<Longrightarrow> split_on (CHR 0x2F) (join_with [CHR 0x2F] parts) = parts"
    using normal by (intro split_on_join) (auto dest: normal_parts_plain)
  show ?thesis
    unfolding rooted_def[symmetric] parts_def[symmetric] Let_def
    using normal split join_parts_not_rooted[OF normal] join_parts_empty[OF normal] slash
    unfolding clean_def rooted_def[symmetric] Let_def parts_def[symmetric]
    by (cases "parts = []"; cases rooted) simp_all
qed

text \<open>A cleaned path leads where the path leads, from every directory; its parts are plain names after
  leading \<open>..\<close> parts, of which a path from the root has none; and cleaning it again changes nothing.\<close>

theorem clean_keeps_meaning:
  "walk_path dir (clean path) = walk_path dir path \<and> clean (clean path) = clean path \<and>
   (clean path \<in> {''.'', [CHR 0x2F]} \<or>
    (\<exists>parts. parts \<noteq> [] \<and> normal_parts (starts_with [CHR 0x2F] path) parts \<and>
      clean path = (if starts_with [CHR 0x2F] path then [CHR 0x2F] else []) @ join_with [CHR 0x2F] parts))"
proof (intro conjI)
  define rooted where "rooted = starts_with [CHR 0x2F] path"
  define parts where "parts = clean_parts rooted path"
  note shape = clean_shape[of path, folded rooted_def, folded parts_def, unfolded Let_def]
  have rooted: "starts_with [CHR 0x2F] (clean path) = rooted" and normal: "normal_parts rooted parts"
    and split: "split_on (CHR 0x2F) (clean path) =
      (if rooted then [] # (if parts = [] then [[]] else parts) else if parts = [] then [''.''] else parts)"
    using shape by auto
  have skip: "walk_part d [] = d" "walk_part d ''.'' = d" "clean_part rooted ps [] = ps" "clean_part rooted ps ''.'' = ps" for d ps
    by (simp_all add: walk_part_def clean_part_def)
  have "foldl walk_part d (split_on (CHR 0x2F) (clean path)) = foldl walk_part d parts" for d
    by (simp add: split skip)
  then show "walk_path dir (clean path) = walk_path dir path"
    using clean_parts_walk[of rooted "if rooted then [] else dir" path] by (simp add: walk_path_def rooted rooted_def[symmetric] parts_def)
  have "clean_parts rooted (clean path) = parts"
    using clean_part_normal[OF normal] unfolding clean_parts_def split
    by (cases "parts = []"; cases rooted) (simp_all add: clean_part_def)
  then show "clean (clean path) = clean path"
    unfolding clean_def[of "clean path"] rooted Let_def by (simp only: clean_def[of path] rooted_def[symmetric] Let_def parts_def[symmetric])
  show "clean path \<in> {''.'', [CHR 0x2F]} \<or> (\<exists>parts. parts \<noteq> [] \<and> normal_parts (starts_with [CHR 0x2F] path) parts \<and>
      clean path = (if starts_with [CHR 0x2F] path then [CHR 0x2F] else []) @ join_with [CHR 0x2F] parts)"
    using normal join_parts_empty[OF normal] unfolding clean_def rooted_def[symmetric] Let_def parts_def[symmetric]
    by (cases "parts = []") auto
qed

section \<open>Which pattern decides\<close>

lemma excludes_snoc:
  "excludes is_match (ps @ [p]) rel = (if applies is_match rel p then \<not> pt_exclusion p else excludes is_match ps rel)"
  by (simp add: excludes_def excludes_step_def)

text \<open>The last pattern that matches a path, or a directory the path is in, decides: the path is
  excluded if that pattern is not an exception. Without such a pattern it is included.\<close>

theorem last_match_decides:
  "excludes is_match rules rel =
     (case rev (filter (applies is_match rel) rules) of [] \<Rightarrow> False | p # _ \<Rightarrow> \<not> pt_exclusion p)"
proof (induction rules rule: rev_induct)
  case Nil
  show ?case by (simp add: excludes_def)
next
  case (snoc p ps)
  then show ?case by (simp add: excludes_snoc)
qed

section \<open>Paths below a directory\<close>

lemma parents_iff: "s \<in> set (parents rel) \<longleftrightarrow> (\<exists>t. rel = s @ CHR 0x2F # t)"
proof
  assume "s \<in> set (parents rel)"
  then obtain i where "i < length rel" "rel ! i = CHR 0x2F" "s = take i rel" by (auto simp: parents_def)
  then have "rel = s @ CHR 0x2F # drop (Suc i) rel" using id_take_nth_drop[of i rel] by simp
  then show "\<exists>t. rel = s @ CHR 0x2F # t" by blast
next
  assume "\<exists>t. rel = s @ CHR 0x2F # t"
  then obtain t where "rel = s @ CHR 0x2F # t" by blast
  then show "s \<in> set (parents rel)" by (auto simp: parents_def intro!: image_eqI[where x = "length s"])
qed

lemma applies_iff:
  "applies is_match rel p \<longleftrightarrow> (\<exists>s. Pattern_matches is_match p s \<and> (s = rel \<or> (\<exists>t. rel = s @ CHR 0x2F # t)))"
  by (auto simp: applies_def list_ex_iff parents_iff)

lemma applies_below: "applies is_match rel p \<Longrightarrow> applies is_match (rel @ CHR 0x2F # x) p"
  unfolding applies_iff by (metis append.assoc append_Cons)

lemma applies_only_below:
  assumes "applies is_match (rel @ CHR 0x2F # x) p" and "\<not> applies is_match rel p"
  shows "\<exists>y. Pattern_matches is_match p (rel @ CHR 0x2F # y)"
proof -
  obtain s where s: "Pattern_matches is_match p s"
    and path: "s = rel @ CHR 0x2F # x \<or> (\<exists>t. rel @ CHR 0x2F # x = s @ CHR 0x2F # t)"
    using assms(1) by (auto simp: applies_iff)
  from path show ?thesis
  proof
    assume "\<exists>t. rel @ CHR 0x2F # x = s @ CHR 0x2F # t"
    then obtain t us where us: "rel = s @ us \<and> us @ CHR 0x2F # x = CHR 0x2F # t \<or> rel @ us = s \<and> CHR 0x2F # x = us @ CHR 0x2F # t"
      by (auto simp: append_eq_append_conv2)
    have "\<not> (rel = s @ CHR 0x2F # v)" for v using s assms(2) by (auto simp: applies_iff)
    moreover have "rel \<noteq> s" using s assms(2) by (auto simp: applies_iff)
    ultimately obtain y where "us = CHR 0x2F # y" "rel @ us = s" using us by (cases us) auto
    then show ?thesis using s by blast
  qed (use s in blast)
qed

lemma starts_with_iff: "starts_with p s \<longleftrightarrow> (\<exists>t. s = p @ t)"
  by (auto simp: starts_with_def strip_prefix_Some)

text \<open>A directory that is excluded stays excluded below if no exception reaches there.\<close>

lemma excluded_below:
  assumes "\<And>p. p \<in> set rules \<Longrightarrow> pt_exclusion p \<Longrightarrow> applies is_match (rel @ CHR 0x2F # x) p \<Longrightarrow> applies is_match rel p"
    and "excludes is_match rules rel"
  shows "excludes is_match rules (rel @ CHR 0x2F # x)"
  using assms
proof (induction rules rule: rev_induct)
  case (snoc p ps)
  then show ?case using applies_below[of is_match rel p x] by (auto simp: excludes_snoc split: if_splits)
qed (simp add: excludes_def)

section \<open>Expressions\<close>

text \<open>How a literal part of a pattern is written in an expression.\<close>

definition quote_literal :: "string \<Rightarrow> string" where
  "quote_literal lit = concat (map (\<lambda>c. if c \<in> set ''.+()|{}$'' then [CHR 0x5C, c] else [c]) lit)"

definition literal_text :: "string \<Rightarrow> bool" where
  "literal_text lit \<longleftrightarrow> list_all (\<lambda>c. c \<notin> {CHR ''*'', CHR ''?'', CHR ''['', CHR 0x5C}) lit"

text \<open>No alternation: every bar is escaped, and no escape is cut short.\<close>

fun no_bar :: "string \<Rightarrow> bool" where
  "no_bar [] = True"
| "no_bar (c # cs) =
     (if c = CHR 0x5C then (case cs of [] \<Rightarrow> False | d # ds \<Rightarrow> no_bar ds) else c \<noteq> CHR ''|'' \<and> no_bar cs)"

definition quantifier :: "string \<Rightarrow> bool" where
  "quantifier s \<longleftrightarrow> s \<noteq> [] \<and> hd s \<in> set ''*+?{''"

text \<open>What is relied on of the crate \<open>regex\<close>: an expression that starts with an anchored literal, has no
  alternation and does not repeat the end of the literal matches only texts that start with the
  literal; \<open>escape\<close> leaves no bar and no quantifier unescaped.\<close>

definition regex_laws :: "(string \<Rightarrow> string) \<Rightarrow> (string \<Rightarrow> string + 'r) \<Rightarrow> ('r \<Rightarrow> string \<Rightarrow> bool) \<Rightarrow> bool" where
  "regex_laws escape build is_match \<longleftrightarrow>
     (\<forall>lit rest r path. literal_text lit \<and> \<not> starts_with ''^'' lit \<and> no_bar rest \<and> \<not> quantifier rest \<and>
        build (''^'' @ quote_literal lit @ rest) = Inr r \<and> is_match r path \<longrightarrow> starts_with lit path) \<and>
     (\<forall>l. no_bar (escape l)) \<and> (\<forall>l. \<not> quantifier (escape l) \<and> (escape l = [] \<longrightarrow> l = []))"

lemma no_bar_append: "no_bar a \<Longrightarrow> no_bar (a @ b) = no_bar b"
  by (induction a rule: no_bar.induct) (auto split: if_splits list.splits)

lemma class_text_no_bar: "class_text s = Some u \<Longrightarrow> no_bar u"
  by (induction s arbitrary: u rule: class_text.induct) (auto split: if_splits list.splits)

text \<open>The pieces \<open>compile\<close> adds to an expression.\<close>

inductive glob_tokens :: "string \<Rightarrow> bool" where
  tokens_Nil: "glob_tokens []"
| tokens_Cons: "t \<noteq> [] \<Longrightarrow> \<not> quantifier t \<Longrightarrow> no_bar t \<Longrightarrow> (hd t = CHR 0x5C \<longrightarrow> length t = 2) \<Longrightarrow> glob_tokens s \<Longrightarrow>
    glob_tokens (t @ s)"

lemma glob_tokens_append: "glob_tokens a \<Longrightarrow> glob_tokens b \<Longrightarrow> glob_tokens (a @ b)"
  by (induction rule: glob_tokens.induct) (auto intro: tokens_Cons)

lemma glob_tokens_no_bar: "glob_tokens s \<Longrightarrow> no_bar s"
  by (induction rule: glob_tokens.induct) (simp_all add: no_bar_append)

lemma glob_tokens_not_quantifier: "glob_tokens s \<Longrightarrow> \<not> quantifier s"
  by (induction rule: glob_tokens.induct) (auto simp: quantifier_def)

lemma token: "t \<noteq> [] \<Longrightarrow> \<not> quantifier t \<Longrightarrow> no_bar t \<Longrightarrow> (hd t = CHR 0x5C \<longrightarrow> length t = 2) \<Longrightarrow> glob_tokens t"
  using tokens_Cons[OF _ _ _ _ tokens_Nil] by simp

lemma glob_tokens_escape: "glob_tokens (CHR 0x5C # c # s) \<Longrightarrow> glob_tokens s"
  by (erule glob_tokens.cases) (auto simp: Cons_eq_append_conv length_Suc_conv numeral_2_eq_2)

lemma fixed_tokens:
  "glob_tokens []" "glob_tokens ''.*''" "glob_tokens (''(.*'' @ [CHR 0x2F] @ '')?'')" "glob_tokens (''[^'' @ [CHR 0x2F] @ '']*'')"
  "glob_tokens (''[^'' @ [CHR 0x2F] @ '']'')" "glob_tokens [CHR 0x5C, c]" "glob_tokens ''$''"
  by (rule tokens_Nil) (rule token; simp add: quantifier_def)+

lemma class_token: "class_text s = Some u \<Longrightarrow> glob_tokens (''['' @ u @ '']'')"
  by (rule token) (simp_all add: quantifier_def no_bar_append class_text_no_bar)

lemma plain_token: "c \<notin> set ''*?[.+()|{}$'' \<Longrightarrow> c \<noteq> CHR 0x5C \<Longrightarrow> glob_tokens [c]"
  by (rule token) (auto simp: quantifier_def)

text \<open>One piece of a pattern.\<close>

lemma glob_step:
  assumes "glob_loop first e k (c # cs) = Inr r"
  shows "\<exists>f t k2 rest. glob_loop f (e @ t) k2 rest = Inr r \<and> glob_tokens t \<and> length rest < length (c # cs) \<and>
    (k = GRegex \<and> \<not> first \<longrightarrow> k2 = GRegex \<and> \<not> f)"
proof -
  let ?goal = "\<lambda>f t k2 rest. glob_loop f (e @ t) k2 rest = Inr r \<and> glob_tokens t \<and> length rest < length (c # cs) \<and>
    (k = GRegex \<and> \<not> first \<longrightarrow> k2 = GRegex \<and> \<not> f)"
  note loop = assms[unfolded glob_loop.simps(2)]
  consider (deep) "c = CHR ''*'' \<and> starts_with ''*'' cs" | (star) "c = CHR ''*''" "\<not> starts_with ''*'' cs" | (one) "c = CHR ''?''"
    | (esc) "c = CHR 0x5C" | (cls) "c = CHR ''[''" | (special) "c \<in> set ''.+()|{}$''" | (plain) "c \<notin> set ''*?[.+()|{}$''" "c \<noteq> CHR 0x5C"
    by auto
  then show ?thesis
  proof cases
    case deep
    define rest where "rest = (if starts_with [CHR 0x2F] (tl cs) then tl (tl cs) else tl cs)"
    have len: "length rest < length (c # cs)" by (simp add: rest_def less_Suc_eq_le)
    show ?thesis
    proof (cases "rest = []")
      case True
      then have "?goal False (if k = GExact then [] else ''.*'') (if first then GSuffix else if k = GExact then GPrefix else GRegex) []"
        using loop deep len by (auto simp: rest_def[symmetric] Let_def fixed_tokens split: if_splits)
      then show ?thesis by blast
    next
      case False
      then have "?goal False (''(.*'' @ [CHR 0x2F] @ '')?'') (if first then GSuffix else GRegex) rest"
        using loop deep len fixed_tokens(3) by (simp add: rest_def[symmetric] Let_def)
      then show ?thesis by blast
    qed
  next
    case star
    then have "?goal False (''[^'' @ [CHR 0x2F] @ '']*'') GRegex cs" using loop fixed_tokens(4) by simp
    then show ?thesis by blast
  next
    case one
    then have "?goal False (''[^'' @ [CHR 0x2F] @ '']'') GRegex cs" using loop fixed_tokens(5) by simp
    then show ?thesis by blast
  next
    case esc
    then obtain d ds where cs: "cs = d # ds" using loop by (cases cs) simp_all
    then have "?goal False [CHR 0x5C, d] GRegex ds" using loop esc fixed_tokens(6) by simp
    then show ?thesis by blast
  next
    case cls
    then obtain rest where rest: "glob_class cs = Some rest" using loop by (cases "glob_class cs") simp_all
    then obtain t where t: "class_text (take (length cs - length rest - 1) cs) = Some t"
      using loop cls by (cases "class_text (take (length cs - length rest - 1) cs)") simp_all
    have "?goal False (''['' @ t @ '']'') GRegex rest"
      using loop cls rest t class_token[OF t] glob_class_length[OF rest] by simp
    then show ?thesis by blast
  next
    case special
    then have "?goal False [CHR 0x5C, c] k cs" using loop fixed_tokens(6) by auto
    then show ?thesis by blast
  next
    case plain
    then have "?goal False [c] k cs" using loop plain_token by simp
    then show ?thesis by blast
  qed
qed

lemma glob_loop_tokens:
  "glob_loop first e k cs = Inr (e', k') \<Longrightarrow>
    (\<exists>s. e' = e @ s \<and> glob_tokens s) \<and> (k = GRegex \<and> \<not> first \<longrightarrow> k' = GRegex)"
proof (induction "length cs" arbitrary: first e k cs rule: less_induct)
  case less
  show ?case
  proof (cases cs)
    case Nil
    then show ?thesis using less.prems by (auto intro: tokens_Nil)
  next
    case (Cons c ds)
    then obtain f t k2 rest where step: "glob_loop f (e @ t) k2 rest = Inr (e', k')" "glob_tokens t"
        "length rest < length cs" "k = GRegex \<and> \<not> first \<longrightarrow> k2 = GRegex \<and> \<not> f"
      using glob_step less.prems by blast
    then show ?thesis using less.hyps[OF step(3,1)] glob_tokens_append[OF step(2)] by auto
  qed
qed

text \<open>The literal part of a pattern, and what the first special character makes of it.\<close>

lemma glob_literal:
  "literal_text lit \<Longrightarrow> glob_loop first e k (lit @ rest) = glob_loop (first \<and> lit = []) (e @ quote_literal lit) k rest"
proof (induction lit arbitrary: first e)
  case (Cons c lit)
  then show ?case by (auto simp: glob_loop.simps(2) literal_text_def quote_literal_def)
qed (simp add: quote_literal_def)

lemma glob_special:
  assumes "c \<in> {CHR ''*'', CHR ''?'', CHR ''['', CHR 0x5C}" and "glob_loop False e GExact (c # cs) = Inr (e', k')"
  shows "k' = GRegex \<or> k' = GPrefix \<and> (c # cs) \<in> {''**'', ''**'' @ [CHR 0x2F]}"
proof -
  have starts: "starts_with [d] xs \<longleftrightarrow> (\<exists>ys. xs = d # ys)" for d xs by (auto simp: starts_with_iff)
  have regex: "glob_loop False e2 GRegex rest = Inr (e', k') \<Longrightarrow> k' = GRegex" for e2 rest
    using glob_loop_tokens by blast
  show ?thesis
    using assms by (auto simp: glob_loop.simps(2) Let_def starts dest: regex split: if_splits list.splits option.splits)
qed

section \<open>Go's escapes\<close>

text \<open>A quoted literal ends where a piece of the expression ends, also when its \<open>\\E\<close> starts inside an
  escape.\<close>

lemma quoted_literal_rest:
  "(no_bar s \<longrightarrow> no_bar (snd (quoted_literal s))) \<and> (s \<noteq> [] \<and> no_bar (tl s) \<longrightarrow> no_bar (snd (quoted_literal s)))"
proof (induction s)
  case (Cons c cs)
  have E: "starts_with ''E'' cs \<Longrightarrow> no_bar cs \<Longrightarrow> no_bar (tl cs)" by (auto simp: starts_with_iff)
  show ?case
  proof (cases "c = CHR 0x5C \<and> starts_with ''E'' cs")
    case True
    then show ?thesis using E by (auto split: list.splits)
  next
    case False
    then have "snd (quoted_literal (c # cs)) = snd (quoted_literal cs)" by (auto simp: split_beta Let_def)
    then show ?thesis using Cons by (auto split: if_splits list.splits)
  qed
qed simp

lemma quoted_literal_empty: "quoted_literal s = ([], r) \<Longrightarrow> glob_tokens s \<Longrightarrow> glob_tokens r"
proof (cases s)
  case (Cons c cs)
  moreover assume "quoted_literal s = ([], r)" "glob_tokens s"
  ultimately show ?thesis
    using glob_tokens_escape[of "CHR ''E''" r] by (auto simp: split_beta Let_def starts_with_iff split: if_splits)
qed (simp add: tokens_Nil)

lemma go_escape_text: "go_escape c = Inr t \<Longrightarrow> no_bar t \<and> t \<noteq> [] \<and> \<not> quantifier t"
proof -
  have "case go_escape c of Inl _ \<Rightarrow> True | Inr t \<Rightarrow> no_bar t \<and> t \<noteq> [] \<and> \<not> quantifier t"
    by (simp add: go_escape_def quantifier_def)
  then show "go_escape c = Inr t \<Longrightarrow> ?thesis" by simp
qed

text \<open>One piece of the loop: a character, an escape or a quoted literal, and the text it becomes.\<close>

lemma go_regex_step:
  assumes "go_regex_loop escape ic (c # cs) = Inr out"
  obtains (char) out' ic' where "c \<noteq> CHR 0x5C" "out = c # out'" "go_regex_loop escape ic' cs = Inr out'"
  | (esc) d ds t out' where "c = CHR 0x5C" "cs = d # ds" "go_escape d = Inr t" "out = t @ out'" "go_regex_loop escape ic ds = Inr out'"
  | (lit) ds l r out' where "c = CHR 0x5C" "cs = CHR ''Q'' # ds" "quoted_literal ds = (l, r)" "out = escape l @ out'"
      "go_regex_loop escape ic r = Inr out'"
proof (cases "c = CHR 0x5C")
  case False
  then show ?thesis using assms that(1) by (auto simp: go_regex_loop.simps(2) bind_result_Inr_iff)
next
  case True
  then obtain d ds where cs: "cs = d # ds" using assms by (cases cs) (simp_all add: go_regex_loop.simps(2))
  show ?thesis
  proof (cases "d = CHR ''Q''")
    case Q: True
    obtain l r where l: "quoted_literal ds = (l, r)" by (cases "quoted_literal ds")
    have "\<not> ic" using assms Q True cs by (cases ic) (simp_all add: go_regex_loop.simps(2))
    then obtain out' where "go_regex_loop escape ic r = Inr out'" "out = escape l @ out'"
      using assms Q True cs l by (auto simp: go_regex_loop.simps(2) bind_result_Inr_iff)
    then show ?thesis using that(3) True cs Q l by blast
  next
    case False
    have "bind_result (go_escape d) (\<lambda>t. bind_result (go_regex_loop escape ic ds) (\<lambda>out. Inr (t @ out))) = Inr out"
      using assms True cs False by (simp add: go_regex_loop.simps(2) del: list.set split: if_split_asm)
    then obtain t out' where "go_escape d = Inr t" "go_regex_loop escape ic ds = Inr out'" "out = t @ out'"
      by (auto simp: bind_result_Inr_iff)
    then show ?thesis using that(2) True cs by blast
  qed
qed

lemma go_regex_no_bar:
  assumes "\<And>l. no_bar (escape l)"
  shows "no_bar raw \<Longrightarrow> go_regex_loop escape ic raw = Inr out \<Longrightarrow> no_bar out"
proof (induction "length raw" arbitrary: raw ic out rule: less_induct)
  case less
  show ?case
  proof (cases raw)
    case (Cons c cs)
    from less.prems(2)[unfolded Cons] show ?thesis
    proof (cases rule: go_regex_step)
      case (char out' ic')
      then show ?thesis using less.hyps[of cs ic' out'] less.prems(1) Cons by simp
    next
      case (esc d ds t out')
      then show ?thesis using less.hyps[of ds ic out'] less.prems(1) Cons go_escape_text[OF esc(3)] by (simp add: no_bar_append)
    next
      case (lit ds l r out')
      have "length r \<le> length ds" "no_bar r"
        using lit less.prems(1) Cons quoted_literal_length[of ds] quoted_literal_rest[of ds] by simp_all
      then show ?thesis using lit less.hyps[of r ic out'] Cons assms by (simp add: no_bar_append)
    qed
  qed (use less in simp)
qed

lemma go_regex_not_quantifier:
  assumes "\<And>l. \<not> quantifier (escape l) \<and> (escape l = [] \<longrightarrow> l = [])"
  shows "glob_tokens raw \<Longrightarrow> go_regex_loop escape ic raw = Inr out \<Longrightarrow> \<not> quantifier out"
proof (induction "length raw" arbitrary: raw ic out rule: less_induct)
  case less
  have quant: "a \<noteq> [] \<Longrightarrow> quantifier (a @ b) = quantifier a" for a b by (simp add: quantifier_def)
  show ?case
  proof (cases raw)
    case Nil
    then show ?thesis using less.prems by (simp add: quantifier_def)
  next
    case (Cons c cs)
    from less.prems(2)[unfolded Cons] show ?thesis
    proof (cases rule: go_regex_step)
      case char
      then show ?thesis using glob_tokens_not_quantifier[OF less.prems(1)] Cons by (simp add: quantifier_def)
    next
      case esc
      then show ?thesis using go_escape_text[OF esc(3)] by (simp add: quant)
    next
      case (lit ds l r out')
      have "glob_tokens ds" using less.prems(1) lit Cons glob_tokens_escape by simp
      then show ?thesis
        using lit less.hyps[of r ic out'] quoted_literal_empty[of ds r] quoted_literal_length[of ds] assms[of l] Cons
        by (cases "escape l = []") (simp_all add: quant)
    qed
  qed
qed

lemma go_escape_quoted: "c \<in> set ''.+()|{}$'' \<Longrightarrow> go_escape c = Inr [CHR 0x5C, c]"
  unfolding list.set insert_iff empty_iff
  by (elim disjE FalseE; simp add: go_escape_def is_alpha_def)

lemma go_regex_literal:
  "literal_text lit \<Longrightarrow> go_regex_loop escape False (quote_literal lit @ rest) =
     bind_result (go_regex_loop escape False rest) (\<lambda>out. Inr (quote_literal lit @ out))"
proof (induction lit)
  case Nil
  then show ?case by (cases "go_regex_loop escape False rest") (simp_all add: quote_literal_def)
next
  case (Cons c lit)
  have bind: "bind_result (bind_result x (\<lambda>out. Inr (a @ out))) (\<lambda>out. Inr (b @ out)) = bind_result x (\<lambda>out. Inr (b @ a @ out))"
    for x :: "'e + string" and a b by (cases x) simp_all
  show ?case
  proof (cases "c \<in> set ''.+()|{}$''")
    case True
    then have "quote_literal (c # lit) = CHR 0x5C # c # quote_literal lit" "c \<noteq> CHR ''Q''" by (auto simp: quote_literal_def)
    then show ?thesis using Cons True bind[of _ "quote_literal lit" "[CHR 0x5C, c]"]
      by (simp add: go_regex_loop.simps(2) go_escape_quoted literal_text_def del: list.set)
  next
    case False
    then have "quote_literal (c # lit) = c # quote_literal lit" by (auto simp: quote_literal_def)
    then show ?thesis using Cons bind[of _ "quote_literal lit" "[c]"]
      by (simp add: go_regex_loop.simps(2) literal_text_def del: list.set)
  qed
qed

section \<open>What a pattern can match\<close>

lemma literal_prefix_split:
  obtains rest where "pt_text p = literal_prefix p @ rest" "literal_text (literal_prefix p)"
    "rest = [] \<or> hd rest \<in> {CHR ''*'', CHR ''?'', CHR ''['', CHR 0x5C}"
proof
  let ?P = "\<lambda>c. c \<notin> {CHR ''*'', CHR ''?'', CHR ''['', CHR 0x5C}"
  show "pt_text p = literal_prefix p @ dropWhile ?P (pt_text p)" by (simp add: literal_prefix_def)
  show "literal_text (literal_prefix p)" by (auto simp: literal_prefix_def literal_text_def list_all_iff dest: set_takeWhileD)
  show "dropWhile ?P (pt_text p) = [] \<or> hd (dropWhile ?P (pt_text p)) \<in> {CHR ''*'', CHR ''?'', CHR ''['', CHR 0x5C}"
    using hd_dropWhile[of ?P "pt_text p"] by blast
qed

text \<open>Everything a compiled pattern matches starts with its literal prefix.\<close>

lemma matches_literal_prefix:
  fixes p :: "'r Pattern"
  assumes laws: "regex_laws escape build is_match" and compiled: "Pattern_compile escape build pat ex = Inr p"
    and matches: "Pattern_matches is_match p path" and caret: "\<not> starts_with ''^'' pat"
  shows "starts_with (literal_prefix p) path"
proof (cases "literal_prefix p = []")
  case True
  then show ?thesis by (simp add: starts_with_iff)
next
  case lit: False
  obtain e k where loop: "glob_loop True ''^'' GExact pat = Inr (e, k)" and same: "pt_text p = pat"
    using compiled by (auto simp: Pattern_compile_def bind_result_Inr_iff)
  obtain rest where split: "pat = literal_prefix p @ rest" "literal_text (literal_prefix p)"
      "rest = [] \<or> hd rest \<in> {CHR ''*'', CHR ''?'', CHR ''['', CHR 0x5C}"
    using literal_prefix_split[of p] same by auto
  have loop': "glob_loop False (''^'' @ quote_literal (literal_prefix p)) GExact rest = Inr (e, k)"
    using loop glob_literal[OF split(2), of True "''^''" GExact rest] lit split(1) by simp
  show ?thesis
  proof (cases rest)
    case Nil
    then have "pt_kind p = Exact" using loop' compiled loop by (auto simp: Pattern_compile_def bind_result_Inr_iff)
    then show ?thesis using matches same split(1) Nil by (simp add: Pattern_matches_def starts_with_iff)
  next
    case (Cons c cs)
    then have "k = GRegex \<or> k = GPrefix \<and> rest \<in> {''**'', ''**'' @ [CHR 0x2F]}"
      using glob_special[of c _ cs e k] loop' split(3) by simp
    then show ?thesis
    proof
      assume k: "k = GPrefix \<and> rest \<in> {''**'', ''**'' @ [CHR 0x2F]}"
      have "Inr p = Inr \<lparr>pt_text = pat, pt_exclusion = ex, pt_kind = Prefix (take (length pat - 2) pat)\<rparr>"
        using compiled[symmetric] loop k by (simp add: Pattern_compile_def)
      then have "pt_kind p = Prefix (take (length pat - 2) pat)" by simp
      moreover have "take (length pat - 2) pat \<in> {literal_prefix p, literal_prefix p @ ''*''}" using split(1) k by auto
      ultimately show ?thesis using matches by (auto simp: Pattern_matches_def starts_with_iff)
    next
      assume k: "k = GRegex"
      obtain expr kind where escaped: "go_regex_escapes escape (e @ ''$'') = Inr expr" "pt_kind p = kind"
          "(case build expr of Inl err \<Rightarrow> Inl (RegexSyntax err) | Inr r \<Rightarrow> Inr (Regex r)) = Inr kind"
        using compiled loop k by (auto simp: Pattern_compile_def bind_result_Inr_iff)
      then obtain r where expr: "go_regex_escapes escape (e @ ''$'') = Inr expr" "build expr = Inr r" "pt_kind p = Regex r"
        by (cases "build expr") auto
      obtain s where s: "e = (''^'' @ quote_literal (literal_prefix p)) @ s" "glob_tokens s"
        using glob_loop_tokens[OF loop'] by blast
      have tokens: "glob_tokens (s @ ''$'')" using s(2) fixed_tokens(7) by (rule glob_tokens_append)
      have "go_regex_loop escape False (''^'' @ quote_literal (literal_prefix p) @ s @ ''$'') = Inr expr"
        using expr(1) s(1) by (simp add: go_regex_escapes_def)
      then obtain out where out: "go_regex_loop escape False (s @ ''$'') = Inr out" "expr = ''^'' @ quote_literal (literal_prefix p) @ out"
        using go_regex_literal[OF split(2), of escape "s @ ''$''"] by (auto simp: go_regex_loop.simps(2) bind_result_Inr_iff)
      have "no_bar out" "\<not> quantifier out"
        using laws go_regex_no_bar[OF _ glob_tokens_no_bar[OF tokens] out(1)] go_regex_not_quantifier[OF _ tokens out(1)]
        by (simp_all add: regex_laws_def)
      moreover have "\<not> starts_with ''^'' (literal_prefix p)" using caret split(1) by (auto simp: starts_with_iff)
      moreover have "is_match r path" using matches expr(3) by (simp add: Pattern_matches_def)
      ultimately show ?thesis using laws split(2) expr(2) out(2) unfolding regex_laws_def by blast
    qed
  qed
qed

section \<open>Parsed rules\<close>

lemma rules_compiled:
  "rules_loop escape build n lines = Inr rules \<Longrightarrow> p \<in> set rules \<Longrightarrow>
    Pattern_compile escape build (pt_text p) (pt_exclusion p) = Inr p"
proof (induction lines arbitrary: n rules)
  case (Cons line lines)
  have compiled: "Pattern_compile escape build pat ex = Inr q \<Longrightarrow> Pattern_compile escape build (pt_text q) (pt_exclusion q) = Inr q" for pat ex q
  proof -
    assume q: "Pattern_compile escape build pat ex = Inr q"
    then have "pt_text q = pat \<and> pt_exclusion q = ex" by (auto simp: Pattern_compile_def bind_result_Inr_iff)
    with q show ?thesis by simp
  qed
  show ?case
    using Cons.prems by (auto simp: Let_def bind_result_Inr_iff dest: Cons.IH compiled split: if_splits sum.splits)
qed simp

text \<open>A walk may skip an excluded directory when no exception may include something below it: everything
  below is excluded. The exceptions' patterns must not start with a circumflex.\<close>

lemma pruning_is_sound:
  assumes "regex_laws escape build is_match"
    and "IgnoreRules_parse escape build body = Inr rules"
    and "\<forall>p\<in>set rules. pt_exclusion p \<longrightarrow> \<not> starts_with ''^'' (pt_text p)"
    and "rel \<noteq> []" and "last rel \<noteq> CHR 0x2F"
    and "excludes is_match rules rel" and "\<not> may_include_below rules rel"
  shows "excludes is_match rules (rel @ CHR 0x2F # x)"
proof (rule excluded_below[OF _ assms(6)])
  fix p assume p: "p \<in> set rules" "pt_exclusion p" "applies is_match (rel @ CHR 0x2F # x) p"
  have compiled: "Pattern_compile escape build (pt_text p) (pt_exclusion p) = Inr p"
    using assms(2) p(1) rules_compiled by (auto simp: IgnoreRules_parse_def Let_def)
  have dir: "rev (dropWhile (\<lambda>c. c = CHR 0x2F) (rev rel)) = rel"
    using assms(4,5) by (cases rel rule: rev_cases) simp_all
  show "applies is_match rel p"
  proof (rule ccontr)
    assume "\<not> applies is_match rel p"
    then obtain y where "Pattern_matches is_match p (rel @ CHR 0x2F # y)" using applies_only_below[OF p(3)] by blast
    then have "starts_with (literal_prefix p) (rel @ CHR 0x2F # y)"
      using matches_literal_prefix[OF assms(1) compiled] assms(3) p by blast
    then obtain t where "(rel @ [CHR 0x2F]) @ y = literal_prefix p @ t" by (auto simp: starts_with_iff)
    then have "starts_with (rel @ [CHR 0x2F]) (literal_prefix p) \<or> starts_with (literal_prefix p) (rel @ [CHR 0x2F])"
      using append_eq_append_conv2[of "rel @ [CHR 0x2F]" y "literal_prefix p" t] unfolding starts_with_iff by metis
    then show False using assms(7) p by (auto simp: may_include_below_def dir list_ex_iff Let_def)
  qed
qed

text \<open>An instance of the parameters: expressions of a literal and \<open>[^/]*\<close>, matched as they say.\<close>

fun read_literal :: "string \<Rightarrow> string \<times> string" where
  "read_literal [] = ([], [])"
| "read_literal (c # cs) =
     (if c = CHR 0x5C then
        (case cs of [] \<Rightarrow> ([], [c]) | d # ds \<Rightarrow>
           if d \<in> set ''.+()|{}$'' then (let (l, r) = read_literal ds in (d # l, r)) else ([], c # cs))
      else if c \<in> set ''*?[.+()|{}$'' then ([], c # cs)
      else let (l, r) = read_literal cs in (c # l, r))"

definition simple_build :: "string \<Rightarrow> string + string" where
  "simple_build e =
     (if starts_with ''^'' e \<and> snd (read_literal (tl e)) = ''[^'' @ [CHR 0x2F] @ '']*$''
      then Inr (fst (read_literal (tl e))) else Inl ''unsupported'')"

definition simple_match :: "string \<Rightarrow> string \<Rightarrow> bool" where
  "simple_match lit path \<longleftrightarrow> starts_with lit path \<and> CHR 0x2F \<notin> set (drop (length lit) path)"

definition simple_quote :: "string \<Rightarrow> string" where
  "simple_quote l = concat (map (\<lambda>c. [CHR 0x5C, c]) l)"

lemma read_literal_quoted: "literal_text lit \<Longrightarrow> fst (read_literal (quote_literal lit @ rest)) = lit @ fst (read_literal rest)"
  by (induction lit) (auto simp: quote_literal_def literal_text_def split_beta Let_def)

lemma simple_regex_laws: "regex_laws simple_quote simple_build simple_match"
proof -
  have "starts_with lit path" if "literal_text lit" "simple_build (''^'' @ quote_literal lit @ rest) = Inr r" "simple_match r path" for lit rest r path
  proof -
    have "r = lit @ fst (read_literal rest)"
      using that(2) read_literal_quoted[OF that(1)] by (simp add: simple_build_def split: if_splits)
    then show ?thesis using that(3) by (auto simp: simple_match_def starts_with_iff)
  qed
  moreover have "no_bar (simple_quote l)" "\<not> quantifier (simple_quote l) \<and> (simple_quote l = [] \<longrightarrow> l = [])" for l
    by (induction l) (simp_all add: simple_quote_def quantifier_def)
  ultimately show ?thesis unfolding regex_laws_def by blast
qed

definition example_rules :: "string IgnoreRules" where
  "example_rules =
     [\<lparr>pt_text = ''bin'', pt_exclusion = False, pt_kind = Exact\<rparr>,
      \<lparr>pt_text = ''s'' @ [CHR 0x2F] @ ''*'', pt_exclusion = True, pt_kind = Regex (''s'' @ [CHR 0x2F])\<rparr>]"

lemma example_rules_parse:
  "IgnoreRules_parse simple_quote simple_build (''bin'' @ [CHR 0x0A] @ ''!s'' @ [CHR 0x2F] @ ''*'') = Inr example_rules"
  by code_simp

text \<open>Why the circumflex is excepted: it is no special character of a pattern, so it belongs to the literal
  prefix, but the expression reads it as the start of the text a second time. After \<open>a\<close> and \<open>!^a/*\<close> the
  file \<open>a/k\<close> is included, and a walk that asks \<open>may_include_below\<close> never sees it.\<close>

lemma caret_exception_pruned:
  assumes "build (''^^a'' @ [CHR 0x2F] @ ''[^'' @ [CHR 0x2F] @ '']*$'') = Inr r" and "is_match r (''a'' @ [CHR 0x2F] @ ''k'')"
    and "\<not> is_match r ''a''"
  shows "\<exists>rules. IgnoreRules_parse escape build (''a'' @ [CHR 0x0A] @ ''!^a'' @ [CHR 0x2F] @ ''*'') = Inr rules \<and>
    \<not> excludes is_match rules (''a'' @ [CHR 0x2F] @ ''k'') \<and> excludes is_match rules ''a'' \<and> \<not> may_include_below rules ''a''"
proof -
  let ?rules = "[\<lparr>pt_text = ''a'', pt_exclusion = False, pt_kind = Exact\<rparr>,
      \<lparr>pt_text = ''^a'' @ [CHR 0x2F] @ ''*'', pt_exclusion = True, pt_kind = Regex r\<rparr>]"
  have pat: "relative_pattern (''^a'' @ [CHR 0x2F] @ ''*'') = ''^a'' @ [CHR 0x2F] @ ''*''" "relative_pattern ''a'' = ''a''"
      "str_lines (''a'' @ [CHR 0x0A] @ ''!^a'' @ [CHR 0x2F] @ ''*'') = [''a'', ''!^a'' @ [CHR 0x2F] @ ''*'']"
      "trim ''a'' = ''a''" "trim (''!^a'' @ [CHR 0x2F] @ ''*'') = ''!^a'' @ [CHR 0x2F] @ ''*''"
      "trim (''^a'' @ [CHR 0x2F] @ ''*'') = ''^a'' @ [CHR 0x2F] @ ''*''"
    by code_simp+
  have "Pattern_compile escape build (''^a'' @ [CHR 0x2F] @ ''*'') True = Inr (?rules ! 1)" "Pattern_compile escape build ''a'' False = Inr (?rules ! 0)"
    using assms(1) by (simp_all add: Pattern_compile_def glob_loop.simps(2) go_regex_escapes_def go_regex_loop.simps(2) starts_with_def)
  then have "IgnoreRules_parse escape build (''a'' @ [CHR 0x0A] @ ''!^a'' @ [CHR 0x2F] @ ''*'') = Inr ?rules"
    using pat by (simp add: IgnoreRules_parse_def starts_with_def Let_def)
  moreover have "\<not> excludes is_match ?rules (''a'' @ [CHR 0x2F] @ ''k'') \<and> excludes is_match ?rules ''a'' \<and> \<not> may_include_below ?rules ''a''"
    using assms(2,3) by (simp add: excludes_def excludes_step_def applies_def parents_def Pattern_matches_def may_include_below_def
      literal_prefix_def starts_with_def)
  ultimately show ?thesis by blast
qed

end
