(* ===== verification/ContextCorrect.thy ===== *)
theory ContextCorrect
  imports Context IgnoreCorrect
begin

text \<open>
  The packed context: what \<open>pack\<close> writes is what a reference that looks at every path writes, and the
  Containerfile is always in it.
\<close>

section \<open>The reference\<close>

text \<open>What a context is packed to: every path is looked at, a path that is kept is written, and an excluded
  directory is written when something below it is. Neither directories skipped nor directories to be
  written later are known here.\<close>

definition file_entry :: "CtxPath \<Rightarrow> string \<Rightarrow> Node \<Rightarrow> ContextError + TarEntry list" where
  "file_entry path rel node =
     (case node of
        NodeFile md True \<Rightarrow> Inr [tar_header TarRegular rel md (md_len md)]
      | NodeFile _ False \<Rightarrow> Inl (CtxIo path)
      | NodeUnknown \<Rightarrow> Inl (CtxIo path)
      | _ \<Rightarrow> Inl (CtxChanged path))"

definition dir_entry :: "string \<Rightarrow> Metadata \<Rightarrow> TarEntry" where
  "dir_entry rel md = tar_header TarDirectory (rel @ [CHR 0x2F]) md 0"

function ref_entry :: "(string \<Rightarrow> bool) \<Rightarrow> Node option \<Rightarrow> string \<Rightarrow> Node \<Rightarrow> ContextError + TarEntry list"
  and ref_list :: "(string \<Rightarrow> bool) \<Rightarrow> Node option \<Rightarrow> string \<Rightarrow> (string \<times> Node) list \<Rightarrow> ContextError + TarEntry list" where
  "ref_entry excl outside rel node =
     (case node of
        NodeDir md (Some cs) \<Rightarrow>
          bind_result (ref_list excl outside rel (pk_names rel outside cs)) (\<lambda>es.
            Inr (if excl rel \<and> es = [] then [] else dir_entry rel md # es))
      | _ \<Rightarrow>
          if excl rel then Inr []
          else case node of
                 NodeSpecial \<Rightarrow> Inr []
               | NodeLink md target \<Rightarrow> Inr [tar_header (TarSymlink target) rel md 0]
               | NodeFile _ _ \<Rightarrow> file_entry (At rel) rel node
               | _ \<Rightarrow> Inl (CtxIo (At rel)))"
| "ref_list excl outside rel names =
     (case names of
        [] \<Rightarrow> Inr []
      | (name, node) # rest \<Rightarrow>
          bind_result
            (if rel = [] \<and> name = OUTSIDE_NAME \<and> outside \<noteq> None then file_entry OutsidePath name (the outside)
             else ref_entry excl outside (join_path rel name) node) (\<lambda>es.
          bind_result (ref_list excl outside rel rest) (\<lambda>more. Inr (es @ more))))"
  by pat_completeness auto

termination
proof (relation "measure (\<lambda>x. case x of
      Inl (_, _, _, node) \<Rightarrow> 3 * size node + 2
    | Inr (_, _, _, names) \<Rightarrow> 3 * size_list (size_prod (\<lambda>_. 0) size) names)", goal_cases)
  case (2 excl outside rel node md opt cs)
  then show ?case using pk_names_size[of rel outside cs] by simp
qed (auto split: if_splits)

declare ref_entry.simps [simp del] ref_list.simps [simp del]

lemmas ref_list_simps = ref_list.simps[of _ _ _ "[]", simplified] ref_list.simps[of _ _ _ "(name, node) # rest" for name node rest, simplified]

text \<open>Below a directory everything of which is excluded nothing is packed, and errors name what is below.\<close>

lemma join_path_below: "rel \<noteq> [] \<Longrightarrow> join_path rel name = rel @ CHR 0x2F # name" "join_path [] name = name"
  by (simp_all add: join_path_def)

lemma ref_all_excluded:
  "rel \<noteq> [] \<Longrightarrow> excl rel \<Longrightarrow> (\<forall>x. excl (rel @ CHR 0x2F # x)) \<Longrightarrow> ref_entry excl outside rel node = Inr []"
  "rel \<noteq> [] \<Longrightarrow> (\<forall>x. excl (rel @ CHR 0x2F # x)) \<Longrightarrow> ref_list excl outside rel names = Inr []"
proof (induction excl outside rel node and excl outside rel names rule: ref_entry_ref_list.induct)
  case (1 excl outside rel node)
  then show ?case by (subst ref_entry.simps) (auto split: Node.splits option.splits)
next
  case (2 excl outside rel names)
  show ?case
  proof (cases names)
    case (Cons nn rest)
    obtain name node where nn: "nn = (name, node)" by (cases nn)
    have "\<forall>x. excl (join_path rel name @ CHR 0x2F # x)"
    proof
      fix x
      show "excl (join_path rel name @ CHR 0x2F # x)"
        using "2.prems"(2)[rule_format, of "name @ CHR 0x2F # x"] "2.prems"(1) by (simp add: join_path_below)
    qed
    then have entry: "ref_entry excl outside (join_path rel name) node = Inr []"
      using "2.IH"(1)[OF Cons nn[symmetric]] "2.prems" by (simp add: join_path_below)
    then have "ref_list excl outside rel rest = Inr []"
      using "2.IH"(2)[OF Cons nn[symmetric]] "2.prems" by simp
    with entry show ?thesis using Cons nn "2.prems"(1) by (simp add: ref_list_simps)
  qed (simp add: ref_list_simps)
qed


lemma ref_error_below:
  "rel \<noteq> [] \<Longrightarrow> ref_entry excl outside rel node = Inl e \<Longrightarrow> e = CtxIo (At rel) \<or> (\<exists>x. e = CtxIo (At (rel @ CHR 0x2F # x)))"
  "rel \<noteq> [] \<Longrightarrow> ref_list excl outside rel names = Inl e \<Longrightarrow> \<exists>x. e = CtxIo (At (rel @ CHR 0x2F # x))"
proof (induction excl outside rel node and excl outside rel names arbitrary: e and e rule: ref_entry_ref_list.induct)
  case (1 excl outside rel node)
  show ?case
  proof (cases "\<exists>md cs. node = NodeDir md (Some cs)")
    case True
    then obtain md cs where node: "node = NodeDir md (Some cs)" by blast
    then have "ref_list excl outside rel (pk_names rel outside cs) = Inl e"
      using "1.prems"(2) by (cases "ref_list excl outside rel (pk_names rel outside cs)") (simp_all add: ref_entry.simps)
    then show ?thesis using "1.IH"[OF node refl "1.prems"(1)] by blast
  next
    case False
    then show ?thesis
      using "1.prems"(2) by (auto simp: ref_entry.simps file_entry_def split: Node.splits option.splits if_splits bool.splits)
  qed
next
  case (2 excl outside rel names)
  show ?case
  proof (cases names)
    case (Cons nn rest)
    obtain name node where nn: "nn = (name, node)" by (cases nn)
    show ?thesis
    proof (cases "ref_entry excl outside (join_path rel name) node")
      case (Inl e')
      then have "e' = e" using "2.prems" Cons nn by (simp add: ref_list_simps)
      then show ?thesis
        using Inl "2.IH"(1)[OF Cons nn[symmetric], of e] "2.prems"(1) by (auto simp: join_path_below)
    next
      case (Inr es)
      then have "ref_list excl outside rel rest = Inl e"
        using "2.prems" Cons nn by (cases "ref_list excl outside rel rest") (simp_all add: ref_list_simps)
      then show ?thesis using "2.IH"(2)[OF Cons nn[symmetric], of es] Inr "2.prems"(1) by simp
    qed
  qed (use 2 in \<open>simp add: ref_list_simps\<close>)
qed

section \<open>What an operation of the packer adds\<close>

definition counted :: "'r Packer \<Rightarrow> bool" where
  "counted st \<longleftrightarrow> pd_entries (pk_packed st) = length (pk_out st) \<and> pd_bytes (pk_packed st) = sum_list (map te_size (pk_out st))"

definition pending_entries :: "'r Packer \<Rightarrow> TarEntry list" where
  "pending_entries st = map (\<lambda>(rel, md). dir_entry rel md) (pk_pending st)"

definition same_settings :: "'r Packer \<Rightarrow> 'r Packer \<Rightarrow> bool" where
  "same_settings st st' \<longleftrightarrow> pk_rules st' = pk_rules st \<and> pk_always st' = pk_always st \<and> pk_outside st' = pk_outside st \<and>
     pd_dockerfile (pk_packed st') = pd_dockerfile (pk_packed st) \<and> (counted st \<longrightarrow> counted st')"

text \<open>From \<open>st\<close> to \<open>st'\<close> the entries \<open>es\<close> were packed: nothing, or the pending directories and then \<open>es\<close>.\<close>

definition packs :: "'r Packer \<Rightarrow> TarEntry list \<Rightarrow> 'r Packer \<Rightarrow> bool" where
  "packs st es st' \<longleftrightarrow> same_settings st st' \<and>
     (if es = [] then pk_out st' = pk_out st \<and> pk_pending st' = pk_pending st
      else pk_out st' = pk_out st @ pending_entries st @ es \<and> pk_pending st' = [])"

lemma packs_refl [simp]: "packs st [] st" "packs st [] (count_excluded st)"
  by (simp_all add: packs_def same_settings_def counted_def count_excluded_def)

lemma packs_trans: "packs a es b \<Longrightarrow> packs b fs c \<Longrightarrow> packs a (es @ fs) c"
  by (auto simp: packs_def same_settings_def pending_entries_def split: if_splits)

lemma packs_settings:
  "packs st es st' \<Longrightarrow> pk_excluded is_match st' = pk_excluded is_match st \<and> pk_enter st' = pk_enter st \<and> pk_outside st' = pk_outside st"
  by (auto simp: packs_def same_settings_def pk_excluded_def pk_enter_def fun_eq_iff)

lemma settings_trans: "same_settings a b \<Longrightarrow> same_settings b c \<Longrightarrow> same_settings a c"
  by (simp add: same_settings_def)

lemma directory_written:
  "same_settings st (pk_directory rel md st) \<and> pk_out (pk_directory rel md st) = pk_out st @ [dir_entry rel md] \<and>
   pk_pending (pk_directory rel md st) = pk_pending st"
  by (simp add: pk_directory_def pk_append_def dir_entry_def same_settings_def counted_def)

lemma directories_written:
  "same_settings st (foldl (\<lambda>st (rel, md). pk_directory rel md st) st ps) \<and>
   pk_out (foldl (\<lambda>st (rel, md). pk_directory rel md st) st ps) = pk_out st @ map (\<lambda>(rel, md). dir_entry rel md) ps \<and>
   pk_pending (foldl (\<lambda>st (rel, md). pk_directory rel md st) st ps) = pk_pending st"
proof (induction ps arbitrary: st)
  case (Cons p ps)
  obtain rel md where p: "p = (rel, md)" by (cases p)
  then show ?case
    using Cons[of "pk_directory rel md st"] directory_written[of st rel md] settings_trans by simp blast
qed (simp add: same_settings_def)

lemma flushed:
  "same_settings st (flush_pending st) \<and> pk_out (flush_pending st) = pk_out st @ pending_entries st \<and> pk_pending (flush_pending st) = []"
proof -
  have "same_settings st (st\<lparr>pk_pending := []\<rparr>)" by (simp add: same_settings_def counted_def)
  then show ?thesis
    using directories_written[of "st\<lparr>pk_pending := []\<rparr>" "pk_pending st"] settings_trans
    by (simp add: flush_pending_def pending_entries_def) blast
qed

lemma packs_append: "packs st [e] (pk_append e (flush_pending st))"
  using flushed[of st] by (simp add: packs_def pk_append_def same_settings_def counted_def)

lemma packs_file:
  "case file_entry path rel node of
     Inl e \<Rightarrow> snd (pk_file path rel node (flush_pending st)) = Inl e
   | Inr es \<Rightarrow> snd (pk_file path rel node (flush_pending st)) = Inr () \<and> packs st es (fst (pk_file path rel node (flush_pending st)))"
  by (auto simp: file_entry_def pk_file_def packs_append split: Node.splits bool.splits)

text \<open>An excluded directory that is entered.\<close>

lemma packs_entered:
  assumes "packs (st\<lparr>pk_pending := pk_pending st @ [(rel, md)]\<rparr>) es st2"
  shows "packs st (if es = [] then [] else dir_entry rel md # es)
    (if length (pk_pending st2) = Suc (length (pk_pending st)) then count_excluded (st2\<lparr>pk_pending := butlast (pk_pending st2)\<rparr>) else st2)"
  using assms by (auto simp: packs_def same_settings_def counted_def count_excluded_def pending_entries_def)

section \<open>The walk does what the reference says\<close>

fun well_named :: "Node \<Rightarrow> bool" where
  "well_named (NodeDir _ (Some cs)) = list_all (\<lambda>(name, node). name \<noteq> [] \<and> CHR 0x2F \<notin> set name \<and> well_named node) cs"
| "well_named _ = True"

definition well_named_list :: "(string \<times> Node) list \<Rightarrow> bool" where
  "well_named_list names \<longleftrightarrow> list_all (\<lambda>(name, node). name \<noteq> [] \<and> CHR 0x2F \<notin> set name \<and> well_named node) names"

lemma well_named_names: "well_named (NodeDir md (Some cs)) \<Longrightarrow> well_named_list (pk_names rel outside cs)"
  by (auto simp: well_named_list_def pk_names_def list_all_iff OUTSIDE_NAME_def split: list.splits option.splits)

definition plain_path :: "string \<Rightarrow> bool" where
  "plain_path rel \<longleftrightarrow> rel \<noteq> [] \<and> last rel \<noteq> CHR 0x2F"

lemma plain_path_join: "name \<noteq> [] \<Longrightarrow> CHR 0x2F \<notin> set name \<Longrightarrow> plain_path (join_path rel name)"
  by (auto simp: plain_path_def join_path_def dest: last_in_set)

text \<open>What is relied on of the ignore rules: a directory that is not entered has only excluded paths below.\<close>

definition prunes_well :: "('r \<Rightarrow> string \<Rightarrow> bool) \<Rightarrow> 'r Packer \<Rightarrow> bool" where
  "prunes_well is_match st \<longleftrightarrow>
     (\<forall>rel x. plain_path rel \<and> pk_excluded is_match st rel \<and> \<not> pk_enter st rel \<longrightarrow> pk_excluded is_match st (rel @ CHR 0x2F # x))"

definition agrees :: "'r Packer \<Rightarrow> ContextError + TarEntry list \<Rightarrow> 'r Packer \<times> (ContextError + unit) \<Rightarrow> bool" where
  "agrees st reference result =
     (case reference of Inl e \<Rightarrow> snd result = Inl e | Inr es \<Rightarrow> snd result = Inr () \<and> packs st es (fst result))"

lemma agrees_file: "agrees st (file_entry path rel node) (pk_file path rel node (flush_pending st))"
  using packs_file[of path rel node st] by (simp add: agrees_def)

lemma agrees_bind:
  assumes "agrees st ref1 res1"
    and "\<And>es. ref1 = Inr es \<Longrightarrow> packs st es (fst res1) \<Longrightarrow> agrees (fst res1) ref2 (k (fst res1))"
  shows "agrees st (bind_result ref1 (\<lambda>es. bind_result ref2 (\<lambda>more. Inr (es @ more))))
    (case snd res1 of Inl e \<Rightarrow> (fst res1, Inl e) | Inr _ \<Rightarrow> k (fst res1))"
proof (cases ref1)
  case (Inl e)
  then show ?thesis using assms(1) by (simp add: agrees_def)
next
  case (Inr es)
  then have one: "snd res1 = Inr ()" "packs st es (fst res1)" using assms(1) by (simp_all add: agrees_def)
  then show ?thesis using assms(2)[OF Inr] Inr packs_trans[OF one(2)] by (cases ref2) (simp_all add: agrees_def)
qed

lemma agrees_shift:
  assumes "packs st es st1" and "agrees st1 ref res"
  shows "agrees st (bind_result ref (\<lambda>more. Inr (es @ more))) res"
  using assms packs_trans by (cases ref) (auto simp: agrees_def)

definition ref_walk :: "(string \<Rightarrow> bool) \<Rightarrow> Node option \<Rightarrow> string \<Rightarrow> (string \<times> Node) list option \<Rightarrow> ContextError + TarEntry list" where
  "ref_walk excl outside rel children =
     (case children of None \<Rightarrow> Inl (CtxIo (At rel)) | Some cs \<Rightarrow> ref_list excl outside rel (pk_names rel outside cs))"

lemma prunes_well_packs: "packs st es st' \<Longrightarrow> prunes_well is_match st' = prunes_well is_match st"
  using packs_settings[of st es st' is_match] by (simp add: prunes_well_def)

lemma ref_entry_excluded:
  assumes "excl rel"
  shows "ref_entry excl outside rel node =
    (case node of NodeDir md (Some cs) \<Rightarrow>
       bind_result (ref_walk excl outside rel (Some cs)) (\<lambda>es. Inr (if es = [] then [] else dir_entry rel md # es))
     | _ \<Rightarrow> Inr [])"
  using assms by (subst ref_entry.simps) (auto simp: ref_walk_def split: Node.splits option.splits)

lemma ref_entry_kept:
  assumes "\<not> excl rel"
  shows "ref_entry excl outside rel node =
    (case node of
       NodeUnknown \<Rightarrow> Inl (CtxIo (At rel))
     | NodeSpecial \<Rightarrow> Inr []
     | NodeDir md children \<Rightarrow> bind_result (ref_walk excl outside rel children) (\<lambda>es. Inr ([dir_entry rel md] @ es))
     | NodeLink md target \<Rightarrow> Inr [tar_header (TarSymlink target) rel md 0]
     | NodeFile _ _ \<Rightarrow> file_entry (At rel) rel node)"
  using assms by (subst ref_entry.simps) (auto simp: ref_walk_def split: Node.splits option.splits)

text \<open>An excluded path: entered or not, what the reference packs is packed.\<close>

lemma entered_agrees:
  assumes "agrees (st\<lparr>pk_pending := pk_pending st @ [(rel, md)]\<rparr>) (ref_walk excl outside rel children)
      (pk_walk is_match rel children (st\<lparr>pk_pending := pk_pending st @ [(rel, md)]\<rparr>))"
    and "pk_excluded is_match st = excl" and "excl rel" and "pk_enter st rel" and "rel \<noteq> []"
  shows "agrees st (ref_entry excl outside rel (NodeDir md children)) (pk_entry is_match rel (NodeDir md children) st)"
proof -
  let ?st1 = "st\<lparr>pk_pending := pk_pending st @ [(rel, md)]\<rparr>"
  obtain st2 r where walk: "pk_walk is_match rel children ?st1 = (st2, r)" by fastforce
  define st3 where "st3 = (if length (pk_pending st2) = Suc (length (pk_pending st))
    then count_excluded (st2\<lparr>pk_pending := butlast (pk_pending st2)\<rparr>) else st2)"
  have run: "pk_entry is_match rel (NodeDir md children) st = (if r = Inr () \<or> r = Inl (CtxIo (At rel)) then (st3, Inr ()) else (st2, r))"
    using assms(2-4) walk by (subst pk_entry.simps) (simp add: st3_def Let_def)
  show ?thesis
  proof (cases children)
    case None
    then have "st2 = ?st1" "r = Inl (CtxIo (At rel))" using walk by (simp_all add: pk_walk.simps)
    then show ?thesis
      using run assms(3) None packs_entered[of st rel md "[]" ?st1] by (simp add: ref_entry_excluded agrees_def st3_def)
  next
    case (Some cs)
    show ?thesis
    proof (cases "ref_walk excl outside rel children")
      case (Inl e)
      then have "r = Inl e" using assms(1) walk by (simp add: agrees_def)
      moreover have "e \<noteq> CtxIo (At rel)" using ref_error_below(2)[OF assms(5)] Inl Some by (force simp: ref_walk_def)
      ultimately show ?thesis using run Inl Some assms(3) by (simp add: ref_entry_excluded agrees_def)
    next
      case (Inr es)
      then have "r = Inr ()" "packs ?st1 es st2" using assms(1) walk by (simp_all add: agrees_def)
      then show ?thesis
        using run Inr Some assms(3) packs_entered[of st rel md es st2] by (simp add: ref_entry_excluded agrees_def st3_def)
    qed
  qed
qed

lemma skipped_agrees:
  assumes "pk_excluded is_match st rel" and "\<not> (pk_enter st rel \<and> (\<exists>md cs. node = NodeDir md cs))"
    and "prunes_well is_match st" and "plain_path rel"
  shows "agrees st (ref_entry (pk_excluded is_match st) outside rel node) (pk_entry is_match rel node st)"
proof -
  have "pk_entry is_match rel node st = (count_excluded st, Inr ())"
    using assms(1,2) by (subst pk_entry.simps) (auto split: Node.splits)
  moreover have "ref_entry (pk_excluded is_match st) outside rel node = Inr []"
  proof (cases "pk_enter st rel")
    case True
    then show ?thesis using assms(1,2) by (simp add: ref_entry_excluded split: Node.splits)
  next
    case False
    then have "\<forall>x. pk_excluded is_match st (rel @ CHR 0x2F # x)" using assms(1,3,4) unfolding prunes_well_def by blast
    then show ?thesis using ref_all_excluded(1) assms(1,4) by (auto simp: plain_path_def)
  qed
  ultimately show ?thesis by (simp add: agrees_def)
qed

lemma kept_agrees:
  assumes "\<not> pk_excluded is_match st rel"
    and "\<And>md children st1. node = NodeDir md children \<Longrightarrow> packs st [dir_entry rel md] st1 \<Longrightarrow>
      st1 = pk_directory rel md (flush_pending st) \<Longrightarrow>
      agrees st1 (ref_walk (pk_excluded is_match st) outside rel children) (pk_walk is_match rel children st1)"
  shows "agrees st (ref_entry (pk_excluded is_match st) outside rel node) (pk_entry is_match rel node st)"
proof (cases node)
  case (NodeDir md children)
  have "packs st [dir_entry rel md] (pk_directory rel md (flush_pending st))"
    unfolding pk_directory_def dir_entry_def by (rule packs_append)
  then have "agrees st (bind_result (ref_walk (pk_excluded is_match st) outside rel children) (\<lambda>es. Inr ([dir_entry rel md] @ es)))
      (pk_walk is_match rel children (pk_directory rel md (flush_pending st)))"
    using agrees_shift assms(2)[OF NodeDir] by blast
  then show ?thesis using NodeDir assms(1) by (simp add: ref_entry_kept pk_entry.simps)
next
  case (NodeFile md ok)
  then show ?thesis using assms(1) agrees_file by (simp add: ref_entry_kept pk_entry.simps)
qed (use assms(1) in \<open>simp_all add: ref_entry_kept pk_entry.simps agrees_def packs_append\<close>)

lemma pk_list_Cons:
  "pk_list is_match rel ((name, node) # rest) st =
     (let res = (if rel = [] \<and> name = OUTSIDE_NAME \<and> pk_outside st \<noteq> None
        then pk_file OutsidePath name (the (pk_outside st)) (flush_pending st) else pk_entry is_match (join_path rel name) node st)
      in case snd res of Inl e \<Rightarrow> (fst res, Inl e) | Inr _ \<Rightarrow> pk_list is_match rel rest (fst res))"
  by (subst pk_list.simps) (simp only: list.case prod.case Let_def split_beta fst_conv snd_conv)

lemma ref_list_Cons:
  "ref_list excl outside rel ((name, node) # rest) =
     bind_result (if rel = [] \<and> name = OUTSIDE_NAME \<and> outside \<noteq> None then file_entry OutsidePath name (the outside)
        else ref_entry excl outside (join_path rel name) node)
       (\<lambda>es. bind_result (ref_list excl outside rel rest) (\<lambda>more. Inr (es @ more)))"
  by (subst ref_list.simps) (simp only: list.case prod.case)

lemma walk_agrees:
  "prunes_well is_match st \<Longrightarrow> plain_path rel \<Longrightarrow> well_named node \<Longrightarrow>
    agrees st (ref_entry (pk_excluded is_match st) (pk_outside st) rel node) (pk_entry is_match rel node st)"
  "prunes_well is_match st \<Longrightarrow> (\<And>cs. children = Some cs \<Longrightarrow> well_named_list (pk_names rel (pk_outside st) cs)) \<Longrightarrow>
    agrees st (ref_walk (pk_excluded is_match st) (pk_outside st) rel children) (pk_walk is_match rel children st)"
  "prunes_well is_match st \<Longrightarrow> well_named_list names \<Longrightarrow>
    agrees st (ref_list (pk_excluded is_match st) (pk_outside st) rel names) (pk_list is_match rel names st)"
proof (induction is_match rel node st and is_match rel children st and is_match rel names st rule: pk_entry_pk_walk_pk_list.induct)
  case (1 is_match rel node st)
  show ?case
  proof (cases "pk_excluded is_match st rel")
    case False
    show ?thesis
    proof (rule kept_agrees[OF False])
      fix md children st1
      assume node: "node = NodeDir md children" and "packs st [dir_entry rel md] st1" and st1: "st1 = pk_directory rel md (flush_pending st)"
      then have "pk_excluded is_match st1 = pk_excluded is_match st" "pk_outside st1 = pk_outside st" "prunes_well is_match st1"
        using packs_settings prunes_well_packs "1.prems"(1) by metis+
      then show "agrees st1 (ref_walk (pk_excluded is_match st) (pk_outside st) rel children) (pk_walk is_match rel children st1)"
        using "1.IH"(2)[OF False node] well_named_names[of md] "1.prems"(3) node unfolding st1 by metis
    qed
  next
    case excl: True
    show ?thesis
    proof (cases "pk_enter st rel \<and> (\<exists>md cs. node = NodeDir md cs)")
      case True
      then obtain md children where enter: "pk_enter st rel" and node: "node = NodeDir md children" by blast
      let ?st1 = "st\<lparr>pk_pending := pk_pending st @ [(rel, md)]\<rparr>"
      have "pk_excluded is_match ?st1 = pk_excluded is_match st" "pk_outside ?st1 = pk_outside st" "prunes_well is_match ?st1"
        using "1.prems"(1) by (simp_all add: pk_excluded_def pk_enter_def prunes_well_def fun_eq_iff)
      moreover have "(if pk_enter st rel then node else NodeUnknown) = NodeDir md children" using enter node by simp
      ultimately have "agrees ?st1 (ref_walk (pk_excluded is_match st) (pk_outside st) rel children) (pk_walk is_match rel children ?st1)"
        using "1.IH"(1)[OF excl _ refl refl, of md children] well_named_names[of md] "1.prems"(3) node by metis
      from entered_agrees[OF this refl excl enter] show ?thesis
        using "1.prems"(2) node by (simp add: plain_path_def)
    qed (use skipped_agrees excl "1.prems" in blast)
  qed
next
  case (2 is_match rel children st)
  then show ?case by (cases children) (simp_all add: pk_walk.simps ref_walk_def agrees_def)
next
  case (3 is_match rel names st)
  show ?case
  proof (cases names)
    case (Cons nn rest)
    obtain name node where nn: "nn = (name, node)" by (cases nn)
    let ?outside = "rel = [] \<and> name = OUTSIDE_NAME \<and> pk_outside st \<noteq> None"
    let ?ref = "if ?outside then file_entry OutsidePath name (the (pk_outside st))
      else ref_entry (pk_excluded is_match st) (pk_outside st) (join_path rel name) node"
    let ?res = "if ?outside then pk_file OutsidePath name (the (pk_outside st)) (flush_pending st)
      else pk_entry is_match (join_path rel name) node st"
    have named: "name \<noteq> []" "CHR 0x2F \<notin> set name" "well_named node" "well_named_list rest"
      using "3.prems"(2) Cons nn by (simp_all add: well_named_list_def)
    have one: "agrees st ?ref ?res"
    proof (cases ?outside)
      case False
      then show ?thesis
        using "3.IH"(1)[OF Cons nn[symmetric] False "3.prems"(1) plain_path_join[OF named(1,2)] named(3)] by (simp only: if_False)
    qed (simp only: if_True agrees_file simp_thms)
    have more: "agrees (fst ?res) (ref_list (pk_excluded is_match st) (pk_outside st) rel rest) (pk_list is_match rel rest (fst ?res))"
      if "?ref = Inr es" "packs st es (fst ?res)" for es
    proof -
      have ok: "snd ?res = Inr ()" using one that(1) by (simp only: agrees_def sum.case)
      have same: "pk_excluded is_match (fst ?res) = pk_excluded is_match st" "pk_outside (fst ?res) = pk_outside st" "prunes_well is_match (fst ?res)"
        using packs_settings[OF that(2)] prunes_well_packs[OF that(2)] "3.prems"(1) by metis+
      show ?thesis
        using "3.IH"(2)[OF Cons nn[symmetric] refl prod.collapse ok same(3) named(4)] by (simp only: same)
    qed
    have "agrees st (bind_result ?ref (\<lambda>es. bind_result (ref_list (pk_excluded is_match st) (pk_outside st) rel rest) (\<lambda>more. Inr (es @ more))))
      (case snd ?res of Inl e \<Rightarrow> (fst ?res, Inl e) | Inr _ \<Rightarrow> pk_list is_match rel rest (fst ?res))"
      by (rule agrees_bind[where k = "pk_list is_match rel rest", OF one more])
    then show ?thesis unfolding Cons nn pk_list_Cons ref_list_Cons Let_def .
  qed (simp add: ref_list_simps pk_list.simps agrees_def)
qed

section \<open>A packed context\<close>

lemma packer_prunes_well:
  assumes "regex_laws escape build is_match" and "load_rules escape build ignore = Inr rules"
    and "\<forall>p\<in>set rules. pt_exclusion p \<longrightarrow> \<not> starts_with ''^'' (pt_text p)"
  shows "prunes_well is_match (new_packer rules loc)"
  unfolding prunes_well_def
proof (intro allI impI)
  fix rel x
  assume prem: "plain_path rel \<and> pk_excluded is_match (new_packer rules loc) rel \<and> \<not> pk_enter (new_packer rules loc) rel"
  then have excl: "excludes is_match rules rel" and enter: "\<not> may_include_below rules rel"
    and always: "\<not> list_ex (starts_with (rel @ [CHR 0x2F])) (pk_always (new_packer rules loc))"
    by (simp_all add: pk_excluded_def pk_enter_def new_packer_def)
  obtain body where "IgnoreRules_parse escape build body = Inr rules"
    using assms(2) excl by (auto simp: load_rules_def excludes_def split: option.splits sum.splits)
  then have "excludes is_match rules (rel @ CHR 0x2F # x)"
    using pruning_is_sound[OF assms(1) _ assms(3) _ _ excl enter] prem by (auto simp: plain_path_def)
  moreover have "rel @ CHR 0x2F # x \<notin> set (pk_always (new_packer rules loc))"
    using always by (auto simp: list_ex_iff starts_with_iff)
  ultimately show "pk_excluded is_match (new_packer rules loc) (rel @ CHR 0x2F # x)"
    by (simp add: pk_excluded_def new_packer_def)
qed

text \<open>What \<open>pack\<close> returns, from the reference.\<close>

definition reference_pack ::
  "('r \<Rightarrow> string \<Rightarrow> bool) \<Rightarrow> 'r IgnoreRules \<Rightarrow> (string \<times> Node) list option \<Rightarrow> Location \<Rightarrow> ContextError + TarEntry list" where
  "reference_pack is_match rules children loc =
     ref_walk (\<lambda>name. excludes is_match rules name \<and> loc \<noteq> Inside name)
       (case loc of Inside _ \<Rightarrow> None | Outside node \<Rightarrow> Some node) [] children"

lemma pack_agrees:
  assumes "regex_laws escape build is_match" and "load_rules escape build ignore = Inr rules"
    and "\<forall>p\<in>set rules. pt_exclusion p \<longrightarrow> \<not> starts_with ''^'' (pt_text p)"
    and "well_named (NodeDir md children)"
  shows "case reference_pack is_match rules children (locate_for_transport is_match (NodeDir md children) loc rules) of
      Inl e \<Rightarrow> pack is_match escape build (NodeDir md children) ignore loc = Inl e
    | Inr es \<Rightarrow> \<exists>packed. pack is_match escape build (NodeDir md children) ignore loc = Inr (es, packed) \<and>
        dockerfile_name is_match escape build (NodeDir md children) ignore loc = Inr (pd_dockerfile packed) \<and>
        pd_entries packed = length es \<and> pd_bytes packed = sum_list (map te_size es)"
proof -
  define loc' where "loc' = locate_for_transport is_match (NodeDir md children) loc rules"
  let ?st = "new_packer rules loc'"
  have settings: "pk_excluded is_match ?st = (\<lambda>name. excludes is_match rules name \<and> loc' \<noteq> Inside name)"
      "pk_outside ?st = (case loc' of Inside _ \<Rightarrow> None | Outside node \<Rightarrow> Some node)" "pk_pending ?st = []" "counted ?st" "pk_out ?st = []"
      "pd_dockerfile (pk_packed ?st) = location_name loc'"
    by (auto simp: pk_excluded_def new_packer_def counted_def fun_eq_iff split: Location.splits)
  have named: "well_named_list (pk_names [] (pk_outside ?st) cs)" if "children = Some cs" for cs
    using well_named_names assms(4) that by simp
  have "agrees ?st (reference_pack is_match rules children loc') (pk_walk is_match [] children ?st)"
    using walk_agrees(2)[OF packer_prunes_well[OF assms(1-3)] named] settings(1,2) by (simp add: reference_pack_def)
  then show ?thesis
    unfolding loc'_def[symmetric] using settings assms(2)
    by (auto simp: agrees_def pack_def dockerfile_name_def loc'_def[symmetric] packs_def same_settings_def counted_def
        pending_entries_def Let_def split_beta split: sum.splits if_splits)
qed

text \<open>C25: a context is packed to what the reference says: the paths the ignore file does not exclude, in the
  order of their names and each directory before what it holds, an excluded directory only with something
  below it, and the Containerfile whatever the rules say; what cannot be read is an error if it is needed.
  Skipping directories and writing excluded ones late changes nothing, and the counts are those of the
  archive. The exceptions' patterns must not start with a circumflex.\<close>

theorem context_packed_as_reference:
  assumes "regex_laws escape build is_match" and "load_rules escape build ignore = Inr rules"
    and "\<forall>p\<in>set rules. pt_exclusion p \<longrightarrow> \<not> starts_with ''^'' (pt_text p)"
    and "well_named (NodeDir md children)"
  shows "case reference_pack is_match rules children (locate_for_transport is_match (NodeDir md children) loc rules) of
      Inl e \<Rightarrow> pack is_match escape build (NodeDir md children) ignore loc = Inl e
    | Inr es \<Rightarrow> \<exists>packed. pack is_match escape build (NodeDir md children) ignore loc = Inr (es, packed) \<and>
        dockerfile_name is_match escape build (NodeDir md children) ignore loc = Inr (pd_dockerfile packed) \<and>
        pd_entries packed = length es \<and> pd_bytes packed = sum_list (map te_size es)"
  using assms by (rule pack_agrees)

section \<open>The Containerfile is in the archive\<close>

lemma ref_list_member:
  "ref_list excl outside rel names = Inr es \<Longrightarrow> (name, node) \<in> set names \<Longrightarrow>
    \<exists>fs. (if rel = [] \<and> name = OUTSIDE_NAME \<and> outside \<noteq> None then file_entry OutsidePath name (the outside)
        else ref_entry excl outside (join_path rel name) node) = Inr fs \<and> set fs \<subseteq> set es"
proof (induction names arbitrary: es)
  case (Cons nn rest)
  obtain name' node' where nn: "nn = (name', node')" by (cases nn)
  obtain fs more where "(if rel = [] \<and> name' = OUTSIDE_NAME \<and> outside \<noteq> None then file_entry OutsidePath name' (the outside)
        else ref_entry excl outside (join_path rel name') node') = Inr fs" "ref_list excl outside rel rest = Inr more" "es = fs @ more"
    using Cons.prems(1) unfolding nn ref_list_Cons bind_result_Inr_iff by blast
  then show ?case using Cons.IH[of more] Cons.prems(2) nn by (fastforce split del: if_split)
qed simp

lemma file_entry_written: "file_entry path rel node = Inr es \<Longrightarrow> \<exists>e\<in>set es. te_type e = TarRegular \<and> te_name e = rel"
  by (auto simp: file_entry_def tar_header_def split: Node.splits bool.splits)

lemma names_set: "outside = None \<or> rel \<noteq> [] \<Longrightarrow> set (pk_names rel outside cs) = set cs"
  by (auto simp: pk_names_def split: list.splits option.splits)

text \<open>A file that is kept is packed, also below directories that are excluded.\<close>

lemma kept_file_packed:
  "ref_entry excl None rel node = Inr es \<Longrightarrow> node_at node names = NodeFile md ok \<Longrightarrow>
    \<not> excl (foldl join_path rel names) \<Longrightarrow> \<exists>e\<in>set es. te_type e = TarRegular \<and> te_name e = foldl join_path rel names"
proof (induction names arbitrary: rel node es)
  case Nil
  then show ?case using file_entry_written by (simp add: ref_entry_kept)
next
  case (Cons name names)
  obtain dmd cs child where node: "node = NodeDir dmd (Some cs)" "map_of cs name = Some child" "node_at child names = NodeFile md ok"
    using Cons.prems(2) by (auto split: Node.splits option.splits)
  obtain below where below: "ref_list excl None rel (pk_names rel None cs) = Inr below" "es = (if excl rel \<and> below = [] then [] else dir_entry rel dmd # below)"
    using Cons.prems(1) node(1) by (subst (asm) ref_entry.simps) (auto simp: bind_result_Inr_iff)
  have "(name, child) \<in> set (pk_names rel None cs)" using map_of_SomeD[OF node(2)] names_set[of None rel cs] by simp
  then obtain fs where fs: "ref_entry excl None (join_path rel name) child = Inr fs" "set fs \<subseteq> set below"
    using ref_list_member[OF below(1)] by fastforce
  then show ?case using Cons.IH[OF fs(1) node(3)] Cons.prems(3) below(2) by fastforce
qed

lemma join_names: "\<forall>p\<in>set parts. p \<noteq> [] \<Longrightarrow> foldl join_path rel parts = (if parts = [] then rel else join_path rel (join_with [CHR 0x2F] parts))"
proof (induction parts arbitrary: rel)
  case (Cons p parts)
  then show ?case by (cases parts) (auto simp: join_path_def)
qed simp

lemma node_at_names: "well_named node \<Longrightarrow> node_at node names = NodeFile md ok \<Longrightarrow> \<forall>p\<in>set names. p \<noteq> []"
proof (induction names arbitrary: node)
  case (Cons name names)
  then obtain dmd cs child where node: "node = NodeDir dmd (Some cs)" "map_of cs name = Some child" "node_at child names = NodeFile md ok"
    by (auto split: Node.splits option.splits)
  then have "name \<noteq> [] \<and> well_named child" using Cons.prems(1) map_of_SomeD[OF node(2)] by (auto simp: list_all_iff)
  then show ?case using Cons.IH[of child] node(3) by simp
qed simp

lemma reference_has_containerfile:
  assumes "reference_pack is_match rules (Some cs) loc = Inr es" and "well_named (NodeDir md (Some cs))"
    and "\<And>name. loc = Inside name \<Longrightarrow> \<exists>fmd ok. node_at (NodeDir md (Some cs)) (split_on (CHR 0x2F) name) = NodeFile fmd ok"
  shows "\<exists>e\<in>set es. te_type e = TarRegular \<and> te_name e = location_name loc"
proof (cases loc)
  case (Inside name)
  let ?excl = "\<lambda>n. excludes is_match rules n \<and> loc \<noteq> Inside n"
  obtain fmd ok where at: "node_at (NodeDir md (Some cs)) (split_on (CHR 0x2F) name) = NodeFile fmd ok" using assms(3)[OF Inside] by blast
  have path: "foldl join_path [] (split_on (CHR 0x2F) name) = name"
    using join_names[OF node_at_names[OF assms(2) at]] by (simp add: join_path_def join_split_on)
  define new where "new = (if ?excl [] \<and> es = [] then [] else dir_entry [] md # es)"
  have "ref_entry ?excl None [] (NodeDir md (Some cs)) = Inr new"
    using assms(1) Inside by (subst ref_entry.simps) (simp add: reference_pack_def ref_walk_def new_def)
  then obtain e where "e \<in> set new" "te_type e = TarRegular" "te_name e = name"
    using kept_file_packed[OF _ at] path Inside by fastforce
  then show ?thesis using Inside by (auto simp: new_def location_name_def dir_entry_def tar_header_def split: if_splits)
next
  case (Outside node)
  have "(OUTSIDE_NAME, NodeUnknown) \<in> set (pk_names [] (Some node) cs)" by (simp add: pk_names_def)
  moreover have "ref_list (\<lambda>n. excludes is_match rules n \<and> loc \<noteq> Inside n) (Some node) [] (pk_names [] (Some node) cs) = Inr es"
    using assms(1) Outside by (simp add: reference_pack_def ref_walk_def)
  ultimately obtain fs where "file_entry OutsidePath OUTSIDE_NAME node = Inr fs" "set fs \<subseteq> set es"
    using ref_list_member by fastforce
  then show ?thesis using file_entry_written Outside by (fastforce simp: location_name_def)
qed

text \<open>The archive of a context has the Containerfile, as a regular file under the name \<open>pack\<close> reports,
  whether the file is inside the context, excluded by the ignore file, or elsewhere.\<close>

theorem containerfile_is_packed:
  assumes "regex_laws escape build is_match" and "load_rules escape build ignore = Inr rules"
    and "\<forall>p\<in>set rules. pt_exclusion p \<longrightarrow> \<not> starts_with ''^'' (pt_text p)"
    and "well_named (NodeDir md children)"
    and "pack is_match escape build (NodeDir md children) ignore loc = Inr (es, packed)"
    and "\<And>name. loc = Inside name \<Longrightarrow> \<exists>fmd ok. node_at (NodeDir md children) (split_on (CHR 0x2F) name) = NodeFile fmd ok"
  shows "\<exists>e\<in>set es. te_type e = TarRegular \<and> te_name e = pd_dockerfile packed"
proof -
  let ?loc = "locate_for_transport is_match (NodeDir md children) loc rules"
  have result: "reference_pack is_match rules children ?loc = Inr es" and name: "pd_dockerfile packed = location_name ?loc"
    using pack_agrees[OF assms(1-4), of loc] assms(2,5) by (auto simp: dockerfile_name_def split: sum.splits)
  then obtain cs where cs: "children = Some cs" by (cases children) (auto simp: reference_pack_def ref_walk_def)
  have "\<exists>fmd ok. node_at (NodeDir md (Some cs)) (split_on (CHR 0x2F) name) = NodeFile fmd ok" if "?loc = Inside name" for name
    using that assms(6) cs by (auto simp: locate_for_transport_def split: Location.splits if_splits)
  then show ?thesis using reference_has_containerfile[OF result[unfolded cs] assms(4)[unfolded cs]] name cs by simp
qed

text \<open>A context with an excluded directory.\<close>

definition example_meta :: Metadata where
  "example_meta = \<lparr>md_mode = 420, md_mtime = 0, md_len = 3\<rparr>"

definition example_children :: "(string \<times> Node) list" where
  "example_children =
     [(''s'', NodeDir example_meta (Some [(''x'', NodeFile example_meta True)])),
      (''bin'', NodeDir example_meta (Some [(''b'', NodeFile example_meta False)])),
      (''C'', NodeFile example_meta True)]"

definition example_body :: string where
  "example_body = ''bin'' @ [CHR 0x0A] @ ''!s'' @ [CHR 0x2F] @ ''*''"

lemma example_loads: "load_rules simple_quote simple_build (Some example_body) = Inr example_rules"
  using example_rules_parse by (simp add: load_rules_def example_body_def)

lemma example_exceptions: "\<forall>p\<in>set example_rules. pt_exclusion p \<longrightarrow> \<not> starts_with ''^'' (pt_text p)"
  by (simp add: example_rules_def starts_with_def)

lemma example_named: "well_named (NodeDir example_meta (Some example_children))"
  by (simp add: example_children_def)

definition example_archive :: "TarEntry list" where
  "example_archive =
     [tar_header TarRegular ''C'' example_meta 3, dir_entry ''s'' example_meta, tar_header TarRegular (''s'' @ [CHR 0x2F] @ ''x'') example_meta 3]"

lemma example_located:
  "locate_for_transport simple_match (NodeDir example_meta (Some example_children)) (Inside ''C'') example_rules = Inside ''C''"
  by code_simp

lemma example_reference:
  "reference_pack simple_match example_rules (Some example_children) (Inside ''C'') = Inr example_archive"
  by code_simp

theorem context_packed_as_reference_witness:
  "regex_laws simple_quote simple_build simple_match \<and>
   (\<exists>packed. pack simple_match simple_quote simple_build (NodeDir example_meta (Some example_children)) (Some example_body) (Inside ''C'') =
      Inr (example_archive, packed) \<and> pd_entries packed = 3)"
  using context_packed_as_reference[OF simple_regex_laws example_loads example_exceptions example_named, of "Inside ''C''"] simple_regex_laws
  by (auto simp: example_located example_reference example_archive_def)

theorem containerfile_is_packed_witness:
  "\<exists>es packed e. pack simple_match simple_quote simple_build (NodeDir example_meta (Some example_children)) (Some example_body) (Inside ''C'') =
      Inr (es, packed) \<and> e \<in> set es \<and> te_type e = TarRegular \<and> te_name e = pd_dockerfile packed"
proof -
  obtain packed where packed: "pack simple_match simple_quote simple_build (NodeDir example_meta (Some example_children)) (Some example_body) (Inside ''C'') =
      Inr (example_archive, packed)"
    using pack_agrees[OF simple_regex_laws example_loads example_exceptions example_named, of "Inside ''C''"]
    by (auto simp: example_located example_reference)
  have "\<exists>fmd ok. node_at (NodeDir example_meta (Some example_children)) (split_on (CHR 0x2F) name) = NodeFile fmd ok"
    if "Inside ''C'' = Inside name" for name
    using that by (auto simp: example_children_def)
  from containerfile_is_packed[OF simple_regex_laws example_loads example_exceptions example_named packed this]
  show ?thesis using packed by blast
qed

end
