(* ===== verification/Health.thy ===== *)
theory Health
  imports Text
begin

text \<open>
  Healthchecks, \<^verbatim>\<open>rustletd/src/health.rs\<close>: the effective check of a container, the verdict after a
  check, and the monitor as a loop over what it observes (the container's status and the time since
  its start when it wakes, the check's result, whether the container still lives when the health is
  saved). Durations are nanoseconds. The shim and the clock are what the observations and the
  arguments \<open>opened\<close>, \<open>start\<close> and \<open>stop\<close> stand for.
\<close>

section \<open>Data\<close>

datatype HealthStatus = Starting | Healthy | Unhealthy

record HealthResult =
  hr_start :: string
  hr_end :: string
  hr_exit_code :: int
  hr_output :: string

record Health =
  he_status :: HealthStatus
  he_failing_streak :: u32
  he_log :: "HealthResult list"

definition Health_default :: Health where
  "Health_default = \<lparr>he_status = Starting, he_failing_streak = 0, he_log = []\<rparr>"

record HealthConfig =
  hg_test :: "string list"
  hg_interval :: "nat option"
  hg_timeout :: "nat option"
  hg_start_period :: "nat option"
  hg_start_interval :: "nat option"
  hg_retries :: "u32 option"

definition HealthConfig_default :: HealthConfig where
  "HealthConfig_default = \<lparr>hg_test = [], hg_interval = None, hg_timeout = None, hg_start_period = None,
     hg_start_interval = None, hg_retries = None\<rparr>"

text \<open>The image's, whose numbers are signed.\<close>

record ImageHealthcheck =
  ih_test :: "string list"
  ih_interval :: "int option"
  ih_timeout :: "int option"
  ih_start_period :: "int option"
  ih_start_interval :: "int option"
  ih_retries :: "int option"

datatype ContainerStatus = Created | Running | Paused | Restarting | Exited | Removing | Dead

definition is_live :: "ContainerStatus \<Rightarrow> bool" where
  "is_live s \<longleftrightarrow> s = Running \<or> s = Paused"

record HealthPlan =
  hp_args :: "string list"
  hp_interval :: nat
  hp_timeout :: nat
  hp_start_period :: nat
  hp_start_interval :: nat
  hp_retries :: u32

definition DEFAULT_INTERVAL :: nat where "DEFAULT_INTERVAL = 30 * 10 ^ 9"
definition DEFAULT_TIMEOUT :: nat where "DEFAULT_TIMEOUT = 30 * 10 ^ 9"
definition DEFAULT_START_INTERVAL :: nat where "DEFAULT_START_INTERVAL = 5 * 10 ^ 9"
definition DEFAULT_RETRIES :: u32 where "DEFAULT_RETRIES = 3"
definition LOG_ENTRIES :: nat where "LOG_ENTRIES = 5"
definition MAX_OUTPUT :: nat where "MAX_OUTPUT = 4096"

section \<open>The effective check\<close>

text \<open>A value of the container if it gave one, else of the image, else the default: 0 is not given.\<close>

definition pick_duration :: "nat option \<Rightarrow> int option \<Rightarrow> nat \<Rightarrow> nat" where
  "pick_duration own img dflt =
     (case own of
        Some n \<Rightarrow> if n > 0 then n else (case img of Some i \<Rightarrow> if i > 0 then nat i else dflt | None \<Rightarrow> dflt)
      | None \<Rightarrow> (case img of Some i \<Rightarrow> if i > 0 then nat i else dflt | None \<Rightarrow> dflt))"

definition pick_retries :: "u32 option \<Rightarrow> int option \<Rightarrow> u32" where
  "pick_retries own img =
     (let from_image = (case img of Some i \<Rightarrow> if 0 < i \<and> i < 2 ^ 32 then of_int i else DEFAULT_RETRIES | None \<Rightarrow> DEFAULT_RETRIES)
      in case own of Some n \<Rightarrow> if n > 0 then n else from_image | None \<Rightarrow> from_image)"

definition check_args :: "string list \<Rightarrow> string list option \<Rightarrow> string list option" where
  "check_args test shell =
     (case test of
        [] \<Rightarrow> None
      | kind # rest \<Rightarrow>
          if kind = ''CMD'' \<and> rest \<noteq> [] then Some rest
          else if kind = ''CMD-SHELL'' \<and> length rest = 1
          then Some ((case shell of Some s \<Rightarrow> s | None \<Rightarrow> [''/bin/sh'', ''-c'']) @ rest)
          else None)"

definition HealthPlan_resolve :: "HealthConfig option \<Rightarrow> ImageHealthcheck option \<Rightarrow> string list option \<Rightarrow> HealthPlan option" where
  "HealthPlan_resolve container img shell =
     (let image_test = (case img of Some i \<Rightarrow> ih_test i | None \<Rightarrow> []);
          test = (case container of Some c \<Rightarrow> if hg_test c \<noteq> [] then hg_test c else image_test | None \<Rightarrow> image_test)
      in case check_args test shell of
           None \<Rightarrow> None
         | Some args \<Rightarrow>
             let c = (case container of Some c \<Rightarrow> c | None \<Rightarrow> HealthConfig_default);
                 im = (\<lambda>f. case img of Some i \<Rightarrow> f i | None \<Rightarrow> None)
             in Some \<lparr>hp_args = args,
                  hp_interval = pick_duration (hg_interval c) (im ih_interval) DEFAULT_INTERVAL,
                  hp_timeout = pick_duration (hg_timeout c) (im ih_timeout) DEFAULT_TIMEOUT,
                  hp_start_period = pick_duration (hg_start_period c) (im ih_start_period) 0,
                  hp_start_interval = pick_duration (hg_start_interval c) (im ih_start_interval) DEFAULT_START_INTERVAL,
                  hp_retries = pick_retries (hg_retries c) (im ih_retries)\<rparr>)"

section \<open>The verdict\<close>

text \<open>\<open>record\<close>: the health after a check, and the new status if it changed.\<close>

definition record_check :: "Health \<Rightarrow> HealthResult \<Rightarrow> u32 \<Rightarrow> bool \<Rightarrow> Health \<times> HealthStatus option" where
  "record_check health result retries in_start =
     (let before = he_status health;
          h = (if hr_exit_code result = 0 then health\<lparr>he_status := Healthy, he_failing_streak := 0\<rparr>
               else if \<not> (in_start \<and> he_status health = Starting) then
                 (let streak = he_failing_streak health + 1
                  in if retries \<le> streak then health\<lparr>he_failing_streak := streak, he_status := Unhealthy\<rparr>
                     else health\<lparr>he_failing_streak := streak\<rparr>)
               else health);
          log = he_log h @ [result];
          h = h\<lparr>he_log := drop (length log - LOG_ENTRIES) log\<rparr>
      in (h, if he_status h \<noteq> before then Some (he_status h) else None))"

section \<open>The monitor\<close>

text \<open>The start of a run's checks: what is saved, and what the monitor starts with.\<close>

definition start_health :: "bool \<Rightarrow> HealthPlan option \<Rightarrow> Health option \<Rightarrow> Health option \<times> (HealthPlan \<times> Health) option" where
  "start_health fresh plan saved =
     (case plan of
        None \<Rightarrow> (if fresh then None else saved, None)
      | Some p \<Rightarrow>
          (case (if fresh then None else saved) of
             None \<Rightarrow> (Some Health_default, Some (p, Health_default))
           | Some h \<Rightarrow> (saved, Some (p, h))))"

definition in_start_period :: "HealthPlan \<Rightarrow> Health \<Rightarrow> nat \<Rightarrow> bool" where
  "in_start_period plan health elapsed \<longleftrightarrow> he_status health = Starting \<and> elapsed < hp_start_period plan"

definition monitor_wait :: "HealthPlan \<Rightarrow> Health \<Rightarrow> nat \<Rightarrow> nat" where
  "monitor_wait plan health elapsed = (if in_start_period plan health elapsed then hp_start_interval plan else hp_interval plan)"

record Observation =
  ob_status :: ContainerStatus
  ob_elapsed :: nat
  ob_result :: HealthResult
  ob_status_saved :: ContainerStatus

text \<open>The loop: the health in memory, the health saved, and the events.\<close>

fun check_health :: "HealthPlan \<Rightarrow> Health \<Rightarrow> Health option \<Rightarrow> Observation list \<Rightarrow> Health \<times> Health option \<times> HealthStatus list" where
  "check_health plan health saved [] = (health, saved, [])"
| "check_health plan health saved (ob # obs) =
     (if ob_status ob = Running then
        (let (h, changed) = record_check health (ob_result ob) (hp_retries plan) (in_start_period plan health (ob_elapsed ob));
             saved' = (if is_live (ob_status_saved ob) then Some h else saved);
             event = (case changed of Some s \<Rightarrow> if s \<noteq> Starting then [s] else [] | None \<Rightarrow> []);
             (h', saved'', events) = check_health plan h saved' obs
         in (h', saved'', event @ events))
      else if ob_status ob = Paused then check_health plan health saved obs
      else (health, saved, []))"

section \<open>One check\<close>

datatype StreamEvent = EvStdout string | EvStderr string | EvExited int

text \<open>What opening the exec gives: a stream (its events, and whether the timeout came first), the
  shim's error, another answer as it prints, or a failed call.\<close>

datatype Opened = OpStarted "StreamEvent list" bool | OpError string "int option" | OpOther string | OpFailed string

fun read_output :: "string \<Rightarrow> StreamEvent list \<Rightarrow> string \<times> int option" where
  "read_output out [] = (out, None)"
| "read_output out (EvStdout b # es) = read_output (out @ take (MAX_OUTPUT - length out) b) es"
| "read_output out (EvStderr b # es) = read_output (out @ take (MAX_OUTPUT - length out) b) es"
| "read_output out (EvExited code # es) = (out, Some code)"

definition run_check :: "string \<Rightarrow> string \<Rightarrow> (string \<Rightarrow> string) \<Rightarrow> string \<Rightarrow> Opened \<Rightarrow> HealthResult" where
  "run_check start stop lossy timeout_text opened =
     (let failed = (\<lambda>code out. \<lparr>hr_start = start, hr_end = stop, hr_exit_code = code, hr_output = out\<rparr>)
      in case opened of
           OpError message code \<Rightarrow> failed (case code of Some c \<Rightarrow> c | None \<Rightarrow> - 1) message
         | OpOther shown \<Rightarrow> failed (- 1) (''the shim said '' @ shown)
         | OpFailed e \<Rightarrow> failed (- 1) (''the container'' @ [CHR 0x27] @ ''s shim: '' @ e)
         | OpStarted events timed_out \<Rightarrow>
             if timed_out then failed (- 1) (''Health check exceeded timeout ('' @ timeout_text @ '')'')
             else (case read_output [] events of
                     (out, Some code) \<Rightarrow> failed code (lossy out)
                   | (out, None) \<Rightarrow> failed (- 1) (lossy out @ ''the check ended without an exit status'')))"

end
