(* ===== verification/HealthCorrect.thy ===== *)
theory HealthCorrect
  imports Health
begin

text \<open>
  Correctness of healthchecks (theory \<^verbatim>\<open>Health\<close>): a container's health as a function of its checks.
\<close>

text \<open>Of a run in which every check happens: failed checks, and those that count.\<close>

definition failed :: "Observation \<Rightarrow> bool" where
  "failed ob \<longleftrightarrow> hr_exit_code (ob_result ob) \<noteq> 0"

definition counted_failures :: "HealthPlan \<Rightarrow> Observation list \<Rightarrow> nat" where
  "counted_failures plan obs =
     (if \<exists>ob\<in>set obs. \<not> failed ob then length (takeWhile failed (rev obs))
      else length (filter (\<lambda>ob. hp_start_period plan \<le> ob_elapsed ob) obs))"

definition verdict :: "HealthPlan \<Rightarrow> Observation list \<Rightarrow> HealthStatus" where
  "verdict plan obs =
     (if unat (hp_retries plan) \<le> counted_failures plan obs then Unhealthy
      else if \<exists>ob\<in>set obs. \<not> failed ob then Healthy else Starting)"

definition keeps_running :: "Observation list \<Rightarrow> bool" where
  "keeps_running obs \<longleftrightarrow> list_all (\<lambda>ob. ob_status ob = Running \<and> is_live (ob_status_saved ob)) obs"

definition one_check :: "HealthPlan \<Rightarrow> Health \<Rightarrow> Observation \<Rightarrow> Health" where
  "one_check plan h ob = fst (record_check h (ob_result ob) (hp_retries plan) (in_start_period plan h (ob_elapsed ob)))"

lemma check_health_fold:
  "keeps_running obs \<Longrightarrow>
     fst (check_health plan h saved obs) = foldl (one_check plan) h obs \<and>
     fst (snd (check_health plan h saved obs)) = (if obs = [] then saved else Some (foldl (one_check plan) h obs))"
  by (induction obs arbitrary: h saved) (simp_all add: keeps_running_def one_check_def split_beta Let_def)

lemma one_check_log: "he_log (one_check plan h ob) = (let log = he_log h @ [ob_result ob] in drop (length log - LOG_ENTRIES) log)"
  by (simp add: one_check_def record_check_def Let_def)

lemma log_last: "he_log (foldl (one_check plan) Health_default obs) = drop (length obs - LOG_ENTRIES) (map ob_result obs)"
proof (induction obs rule: rev_induct)
  case (snoc ob obs)
  have "length obs - (length obs - 5 + 4) + (length obs - 5) = length obs - 4" by arith
  then show ?case
    by (simp add: snoc one_check_log Let_def LOG_ENTRIES_def)
qed (simp add: Health_default_def)

text \<open>A check of a health that is what the history says.\<close>

lemma counted_bound: "counted_failures plan obs \<le> length obs"
  using length_takeWhile_le[of failed "rev obs"] length_filter_le[of _ obs] by (auto simp: counted_failures_def)

lemma one_check_verdict:
  assumes "hp_retries plan \<noteq> 0" and "length obs + 1 < 2 ^ 32" and "sorted (map ob_elapsed (obs @ [ob]))"
    and "he_status h = verdict plan obs" and "unat (he_failing_streak h) = counted_failures plan obs"
  shows "he_status (one_check plan h ob) = verdict plan (obs @ [ob]) \<and>
    unat (he_failing_streak (one_check plan h ob)) = counted_failures plan (obs @ [ob])"
proof (cases "failed ob")
  case False
  have "0 < unat (hp_retries plan)" using assms(1) by (simp add: unat_gt_0)
  then show ?thesis
    using False by (simp add: one_check_def record_check_def Let_def failed_def verdict_def counted_failures_def)
next
  case True
  have "unat (he_failing_streak h) + unat (1 :: u32) < 2 ^ 32"
    using counted_bound[of plan obs] assms(2,5) by simp
  then have plus: "unat (he_failing_streak h + 1) = counted_failures plan obs + 1"
    using assms(5) by (simp add: unat_plus_simple[THEN iffD1] no_olen_add_nat)
  have counts: "he_status (one_check plan h ob) = verdict plan (obs @ [ob]) \<and>
      unat (he_failing_streak (one_check plan h ob)) = counted_failures plan (obs @ [ob])"
    if "\<not> in_start_period plan h (ob_elapsed ob)" "counted_failures plan (obs @ [ob]) = counted_failures plan obs + 1"
  proof -
    have "hp_retries plan \<le> he_failing_streak h + 1 \<longleftrightarrow> unat (hp_retries plan) \<le> counted_failures plan (obs @ [ob])"
      using plus that(2) by (simp add: word_le_nat_alt)
    moreover have "verdict plan obs = Unhealthy \<Longrightarrow> unat (hp_retries plan) \<le> counted_failures plan obs"
      by (auto simp: verdict_def split: if_splits)
    ultimately show ?thesis
      using that True plus assms(4)
      by (auto simp: one_check_def record_check_def Let_def failed_def verdict_def)
  qed
  show ?thesis
  proof (cases "\<exists>o'\<in>set obs. \<not> failed o'")
    case True
    then have "verdict plan obs \<noteq> Starting" by (auto simp: verdict_def)
    then show ?thesis
      using counts True \<open>failed ob\<close> assms(4) by (auto simp: in_start_period_def counted_failures_def)
  next
    case False
    show ?thesis
    proof (cases "hp_start_period plan \<le> ob_elapsed ob")
      case True
      then show ?thesis
        using counts False \<open>failed ob\<close> by (auto simp: in_start_period_def counted_failures_def)
    next
      case early: False
      then have "counted_failures plan obs = 0" "counted_failures plan (obs @ [ob]) = 0"
        using False \<open>failed ob\<close> assms(3) by (auto simp: counted_failures_def filter_empty_conv sorted_append)
      moreover have "0 < unat (hp_retries plan)" using assms(1) by (subst unat_gt_0)
      ultimately show ?thesis
        using early False \<open>failed ob\<close> assms(4,5)
        by (auto simp: verdict_def one_check_def record_check_def in_start_period_def failed_def)
    qed
  qed
qed

lemma checks_verdict:
  assumes "hp_retries plan \<noteq> 0" and "length obs < 2 ^ 32" and "sorted (map ob_elapsed obs)"
  shows "he_status (foldl (one_check plan) Health_default obs) = verdict plan obs \<and>
    unat (he_failing_streak (foldl (one_check plan) Health_default obs)) = counted_failures plan obs"
  using assms(2,3)
proof (induction obs rule: rev_induct)
  case Nil
  have "0 < unat (hp_retries plan)" using assms(1) by (subst unat_gt_0)
  then show ?case by (simp add: verdict_def counted_failures_def Health_default_def)
next
  case (snoc ob obs)
  then show ?case
    using one_check_verdict[OF assms(1), of obs ob "foldl (one_check plan) Health_default obs"]
    by (simp add: sorted_append)
qed

section \<open>Properties\<close>

text \<open>C23: while a container runs, its health is a function of the checks made: without a success so
  far it counts the failures after the start period, with one the failures since the last success;
  \<open>retries\<close> of them make it unhealthy, otherwise it is healthy after a success and starting before.
  The last five results are kept, and what is saved is what the monitor holds.\<close>

theorem health_follows_checks:
  assumes "hp_retries plan \<noteq> 0" and "length obs < 2 ^ 32" and "sorted (map ob_elapsed obs)" and "keeps_running obs"
    and "check_health plan Health_default (Some Health_default) obs = (h, saved, events)"
  shows "he_status h = verdict plan obs \<and> unat (he_failing_streak h) = counted_failures plan obs \<and>
    he_log h = drop (length obs - 5) (map ob_result obs) \<and> saved = Some h"
proof -
  have "h = foldl (one_check plan) Health_default obs" "saved = Some h"
    using check_health_fold[OF assms(4), of plan Health_default "Some Health_default"] assms(5) by auto
  then show ?thesis
    using checks_verdict[OF assms(1-3)] log_last[of plan obs] by (simp add: LOG_ENTRIES_def)
qed

abbreviation seen :: "nat \<Rightarrow> int \<Rightarrow> Observation" where
  "seen t code \<equiv> \<lparr>ob_status = Running, ob_elapsed = t,
     ob_result = \<lparr>hr_start = [], hr_end = [], hr_exit_code = code, hr_output = []\<rparr>, ob_status_saved = Running\<rparr>"

abbreviation example_plan :: HealthPlan where
  "example_plan \<equiv> \<lparr>hp_args = [], hp_interval = 30, hp_timeout = 30, hp_start_period = 10, hp_start_interval = 5, hp_retries = 2\<rparr>"

text \<open>Two failures in the start period do not count, one after it does, then a success and two failures.\<close>

theorem health_follows_checks_witness:
  "he_status (fst (check_health example_plan Health_default (Some Health_default)
      [seen 4 1, seen 8 1, seen 12 1, seen 14 0, seen 16 1, seen 18 1])) = Unhealthy"
proof -
  let ?obs = "[seen 4 1, seen 8 1, seen 12 1, seen 14 0, seen 16 1, seen 18 1]"
  obtain h saved events where run: "check_health example_plan Health_default (Some Health_default) ?obs = (h, saved, events)"
    by (metis prod_cases3)
  have "he_status h = verdict example_plan ?obs"
    using health_follows_checks[OF _ _ _ _ run] by (simp add: keeps_running_def is_live_def)
  also have "\<dots> = Unhealthy" by (simp add: verdict_def counted_failures_def failed_def)
  finally show ?thesis using run by simp
qed

end
