(* ===== verification/Project.thy ===== *)
theory Project
  imports Worklist Text
begin

text \<open>
  The services of a compose project and the order they start in, \<^verbatim>\<open>rustlet-compose/src/project.rs\<close>. A
  service is referred to by its index. The search for the services of a cycle is a loop without a
  bound: not returning is \<open>None\<close>, and \<^verbatim>\<open>ProjectCorrect\<close> shows that it returns. Indexing past the end of a
  vector, which panics, is \<open>OrderPanic\<close>.
\<close>

section \<open>Data\<close>

datatype Condition = Started | HealthyService | CompletedSuccessfully

record Dependency =
  dp_service :: string
  dp_condition :: Condition
  dp_required :: bool

record ProjService =
  sv_name :: string
  sv_container_name :: "string option"
  sv_depends_on :: "Dependency list"

datatype OrderError =
    NoSuchService string
  | MissingDependency string string
  | DependencyCycle "string list"
  | OrderPanic

section \<open>What is asked for\<close>

definition svc_index :: "ProjService list \<Rightarrow> string \<Rightarrow> nat option" where
  "svc_index svcs name = position (\<lambda>s. sv_name s = name) svcs"

text \<open>The dependencies of a service that are in the project.\<close>

fun push_deps :: "ProjService list \<Rightarrow> bool \<Rightarrow> string \<Rightarrow> Dependency list \<Rightarrow> OrderError + nat list" where
  "push_deps svcs strict name [] = Inr []"
| "push_deps svcs strict name (dep # deps) =
     (case svc_index svcs (dp_service dep) of
        Some j \<Rightarrow> bind_result (push_deps svcs strict name deps) (\<lambda>js. Inr (j # js))
      | None \<Rightarrow>
          if dp_required dep \<and> strict then Inl (MissingDependency name (dp_service dep))
          else push_deps svcs strict name deps)"

definition svc_needs :: "ProjService list \<Rightarrow> bool \<Rightarrow> nat \<Rightarrow> OrderError + nat list" where
  "svc_needs svcs strict i = push_deps svcs strict (sv_name (svcs ! i)) (sv_depends_on (svcs ! i))"

function wanted_loop :: "ProjService list \<Rightarrow> bool \<Rightarrow> bool list \<Rightarrow> nat list \<Rightarrow> OrderError + bool list" where
  "wanted_loop svcs strict wanted [] = Inr wanted"
| "wanted_loop svcs strict wanted (i # stack) =
     (if i \<ge> length wanted \<or> i \<ge> length svcs then Inl OrderPanic
      else if wanted ! i then wanted_loop svcs strict wanted stack
      else bind_result (svc_needs svcs strict i) (\<lambda>js. wanted_loop svcs strict (wanted[i := True]) (rev js @ stack)))"
  by pat_completeness auto
termination
  by (relation "measures [\<lambda>(_, _, wanted, _). length (filter Not wanted), \<lambda>(_, _, _, stack). length stack]")
     (auto simp: marks_less)

declare wanted_loop.simps(2) [simp del]

fun asked_for :: "ProjService list \<Rightarrow> string list \<Rightarrow> OrderError + nat list" where
  "asked_for svcs [] = Inr []"
| "asked_for svcs (name # names) =
     (case svc_index svcs name of
        None \<Rightarrow> Inl (NoSuchService name)
      | Some i \<Rightarrow> bind_result (asked_for svcs names) (\<lambda>is. Inr (i # is)))"

section \<open>The order\<close>

definition svc_deps :: "ProjService list \<Rightarrow> nat \<Rightarrow> nat list" where
  "svc_deps svcs i = List.map_filter (\<lambda>d. svc_index svcs (dp_service d)) (sv_depends_on (svcs ! i))"

definition is_ready :: "ProjService list \<Rightarrow> bool list \<Rightarrow> bool list \<Rightarrow> nat \<Rightarrow> bool" where
  "is_ready svcs wanted placed i \<longleftrightarrow> wanted ! i \<and> \<not> placed ! i \<and> list_all (\<lambda>d. placed ! d) (svc_deps svcs i)"

text \<open>Kahn's algorithm: the services placed and their order.\<close>

function kahn_loop :: "ProjService list \<Rightarrow> bool list \<Rightarrow> bool list \<Rightarrow> nat list \<Rightarrow> bool list \<times> nat list" where
  "kahn_loop svcs wanted placed order =
     (case find (is_ready svcs wanted placed) [0..<length placed] of
        None \<Rightarrow> (placed, order)
      | Some i \<Rightarrow> kahn_loop svcs wanted (placed[i := True]) (order @ [i]))"
  by pat_completeness auto
termination
  by (relation "measure (\<lambda>(_, _, placed, _). length (filter Not placed))")
     (auto simp: find_Some_iff is_ready_def intro!: marks_less)

declare kahn_loop.simps [simp del]

text \<open>The walk along unplaced dependencies: the path, and where its cycle starts.\<close>

partial_function (option) cycle_loop :: "ProjService list \<Rightarrow> bool list \<Rightarrow> nat list \<Rightarrow> (nat list \<times> nat) option" where
  "cycle_loop svcs placed path =
     (case find (\<lambda>d. \<not> placed ! d) (svc_deps svcs (last path)) of
        None \<Rightarrow> Some (path, 0)
      | Some d \<Rightarrow>
          (case position (\<lambda>i. i = d) path of
             Some p \<Rightarrow> Some (path, p)
           | None \<Rightarrow> cycle_loop svcs placed (path @ [d])))"

definition cycle_names :: "ProjService list \<Rightarrow> nat list \<Rightarrow> nat \<Rightarrow> OrderError" where
  "cycle_names svcs path p =
     (case map (\<lambda>i. sv_name (svcs ! i)) (drop p path) of
        [] \<Rightarrow> OrderPanic
      | name # names \<Rightarrow> DependencyCycle (name # names @ [name]))"

definition dependency_order :: "ProjService list \<Rightarrow> string list \<Rightarrow> bool \<Rightarrow> (OrderError + nat list) option" where
  "dependency_order svcs only strict =
     (let n = length svcs in
      case asked_for svcs (rev only) of
        Inl e \<Rightarrow> Some (Inl e)
      | Inr asked \<Rightarrow>
          (case wanted_loop svcs strict (replicate n False) (rev ((if only = [] then rev [0..<n] else []) @ asked)) of
             Inl e \<Rightarrow> Some (Inl e)
           | Inr wanted \<Rightarrow>
               let (placed, order) = kahn_loop svcs wanted (replicate n False) []
               in case find (\<lambda>i. wanted ! i \<and> \<not> placed ! i) [0..<n] of
                    None \<Rightarrow> Some (Inr order)
                  | Some start \<Rightarrow>
                      (case cycle_loop svcs placed [start] of
                         None \<Rightarrow> None
                       | Some (path, p) \<Rightarrow> Some (Inl (cycle_names svcs path p)))))"

definition startup_order :: "ProjService list \<Rightarrow> string list \<Rightarrow> (OrderError + nat list) option" where
  "startup_order svcs only = dependency_order svcs only True"

definition svc_container_name :: "ProjService \<Rightarrow> string \<Rightarrow> nat \<Rightarrow> string" where
  "svc_container_name s project n =
     (case sv_container_name s of
        Some name \<Rightarrow> name
      | None \<Rightarrow> project @ CHR ''-'' # sv_name s @ CHR ''-'' # dec n)"

definition default_image :: "string \<Rightarrow> string \<Rightarrow> string" where
  "default_image project service =
     project @ CHR ''-'' # map to_lower service"

end
