(* ===== verification/ProjectCorrect.thy ===== *)
theory ProjectCorrect
  imports Project
begin

text \<open>
  The order of a project's services (theory \<^verbatim>\<open>Project\<close>): the worklist finds what is asked for, Kahn's
  algorithm places it, and what it cannot place has a cycle that the walk finds.
\<close>

section \<open>Dependencies\<close>

text \<open>Service \<open>i\<close> depends on service \<open>j\<close>.\<close>

definition depends :: "ProjService list \<Rightarrow> (nat \<times> nat) set" where
  "depends svcs = {(i, j). i < length svcs \<and> (\<exists>d\<in>set (sv_depends_on (svcs ! i)). svc_index svcs (dp_service d) = Some j)}"

lemma svc_index_range: "svc_index svcs name = Some j \<Longrightarrow> j < length svcs"
  by (auto simp: svc_index_def dest: position_Some)

lemma svc_deps_set: "i < length svcs \<Longrightarrow> j \<in> set (svc_deps svcs i) \<longleftrightarrow> (i, j) \<in> depends svcs"
  by (auto simp: svc_deps_def depends_def map_filter_def image_iff)

lemma svc_deps_range: "j \<in> set (svc_deps svcs i) \<Longrightarrow> j < length svcs"
  by (auto simp: svc_deps_def map_filter_def dest: svc_index_range)

lemma push_deps_Inr: "push_deps svcs strict name deps = Inr js \<Longrightarrow> js = List.map_filter (\<lambda>d. svc_index svcs (dp_service d)) deps"
  by (induction deps arbitrary: js) (auto simp: bind_result_Inr_iff map_filter_simps split: option.splits if_splits)

lemma push_deps_Inl:
  "push_deps svcs strict name deps = Inl e \<Longrightarrow>
    strict \<and> (\<exists>d\<in>set deps. dp_required d \<and> svc_index svcs (dp_service d) = None \<and> e = MissingDependency name (dp_service d))"
  by (induction deps) (auto simp: bind_result_def split: option.splits if_splits sum.splits)

lemma svc_needs_Inr: "svc_needs svcs strict i = Inr js \<Longrightarrow> js = svc_deps svcs i"
  by (simp add: svc_needs_def svc_deps_def push_deps_Inr)

interpretation order_worklist: worklist "wanted_loop svcs strict" "svc_needs svcs strict" "length svcs" for svcs strict
  by unfold_locales (auto simp: wanted_loop.simps(2) not_le)

lemma order_in_range: "order_worklist.in_range svcs strict"
  unfolding order_worklist.in_range_def by (auto dest!: svc_needs_Inr dest: svc_deps_range)

text \<open>What is asked for: everything, or the services named.\<close>

definition roots :: "ProjService list \<Rightarrow> string list \<Rightarrow> nat set" where
  "roots svcs only = (if only = [] then {..<length svcs} else {i. \<exists>name\<in>set only. svc_index svcs name = Some i})"

lemma asked_for_Inr: "asked_for svcs names = Inr is \<Longrightarrow> set is = {i. \<exists>name\<in>set names. svc_index svcs name = Some i}"
  by (induction names arbitrary: "is") (auto simp: bind_result_Inr_iff split: option.splits)

lemma asked_for_Inl: "asked_for svcs names = Inl e \<Longrightarrow> \<exists>name\<in>set names. svc_index svcs name = None \<and> e = NoSuchService name"
  by (induction names) (auto simp: bind_result_def split: option.splits sum.splits)

text \<open>The services that are started: what is asked for and what it depends on.\<close>

abbreviation started :: "ProjService list \<Rightarrow> string list \<Rightarrow> nat set" where
  "started svcs only \<equiv> (depends svcs)\<^sup>* `` roots svcs only"

lemma wanted_services:
  assumes "set stack = roots svcs only"
  shows "case wanted_loop svcs strict (replicate (length svcs) False) stack of
      Inl e \<Rightarrow> \<exists>i\<in>started svcs only. \<exists>d\<in>set (sv_depends_on (svcs ! i)).
        strict \<and> dp_required d \<and> svc_index svcs (dp_service d) = None \<and> e = MissingDependency (sv_name (svcs ! i)) (dp_service d)
    | Inr wanted \<Rightarrow> length wanted = length svcs \<and> marked wanted = started svcs only"
proof -
  have sub: "order_worklist.needed svcs strict \<subseteq> depends svcs"
    unfolding order_worklist.needed_def by (auto dest!: svc_needs_Inr simp: svc_deps_set)
  have roots: "roots svcs only \<subseteq> {..<length svcs}" by (auto simp: roots_def dest: svc_index_range)
  note reached = order_worklist.marks_reached[OF order_in_range order_worklist.inv_start[OF roots assms, of strict]]
  show ?thesis
  proof (cases "wanted_loop svcs strict (replicate (length svcs) False) stack")
    case (Inl e)
    then obtain i where i: "i \<in> (order_worklist.needed svcs strict)\<^sup>* `` roots svcs only" "svc_needs svcs strict i = Inl e"
      using reached by auto
    then have "i \<in> started svcs only" using rtrancl_mono[OF sub] by blast
    then show ?thesis using push_deps_Inl i(2) Inl by (fastforce simp: svc_needs_def)
  next
    case (Inr wanted)
    then have w: "length wanted = length svcs" "marked wanted = (order_worklist.needed svcs strict)\<^sup>* `` roots svcs only"
        "\<forall>i\<in>marked wanted. \<exists>ns. svc_needs svcs strict i = Inr ns"
      using reached by auto
    have closed: "j \<in> marked wanted" if ij: "i \<in> marked wanted" "(i, j) \<in> depends svcs" for i j
    proof -
      have "i < length svcs" using ij(2) by (simp add: depends_def)
      then have "(i, j) \<in> order_worklist.needed svcs strict"
        unfolding order_worklist.needed_def using w(3) ij svc_deps_set[of i svcs j] svc_needs_Inr[of svcs strict i] by fastforce
      then show ?thesis using ij(1) unfolding w(2) by (auto intro: rtrancl_into_rtrancl)
    qed
    have "started svcs only \<subseteq> marked wanted" using closed w(2) by (intro closed_reachable) auto
    then show ?thesis using Inr w(1,2) rtrancl_mono[OF sub] by auto
  qed
qed

section \<open>Kahn's algorithm\<close>

lemma find_upt: "find P [0..<n] = Some i \<longleftrightarrow> i < n \<and> P i \<and> (\<forall>j<i. \<not> P j)"
  by (auto simp: find_Some_iff)

lemma find_upt_None: "find P [0..<n] = None \<longleftrightarrow> (\<forall>i<n. \<not> P i)"
  by (auto simp: find_None_iff)

text \<open>Services in an order: each after what it depends on, and the first that could go at each place.\<close>

definition ordered :: "ProjService list \<Rightarrow> nat set \<Rightarrow> nat list \<Rightarrow> bool" where
  "ordered svcs W order \<longleftrightarrow>
     distinct order \<and> set order \<subseteq> W \<and>
     (\<forall>k<length order. \<forall>j. (order ! k, j) \<in> depends svcs \<longrightarrow> j \<in> set (take k order)) \<and>
     (\<forall>k<length order. \<forall>i\<in>W. i \<notin> set (take k order) \<and> (\<forall>j. (i, j) \<in> depends svcs \<longrightarrow> j \<in> set (take k order)) \<longrightarrow> order ! k \<le> i)"

lemma ordered_snoc:
  assumes "ordered svcs W order" and "i \<in> W" and "i \<notin> set order" and "\<forall>j. (i, j) \<in> depends svcs \<longrightarrow> j \<in> set order"
    and "\<And>i'. i' \<in> W \<Longrightarrow> i' \<notin> set order \<Longrightarrow> (\<forall>j. (i', j) \<in> depends svcs \<longrightarrow> j \<in> set order) \<Longrightarrow> i \<le> i'"
  shows "ordered svcs W (order @ [i])"
  using assms unfolding ordered_def by (auto simp: nth_append less_Suc_eq)

definition ready :: "ProjService list \<Rightarrow> nat set \<Rightarrow> nat set \<Rightarrow> nat \<Rightarrow> bool" where
  "ready svcs W done i \<longleftrightarrow> i \<in> W \<and> i \<notin> done \<and> (\<forall>j. (i, j) \<in> depends svcs \<longrightarrow> j \<in> done)"

lemma is_ready_iff:
  assumes "length placed = length svcs" and "length wanted = length svcs" and "i < length svcs"
  shows "is_ready svcs wanted placed i \<longleftrightarrow> ready svcs (marked wanted) (marked placed) i"
  using assms svc_deps_set[OF assms(3)] svc_deps_range[of _ svcs i] by (auto simp: is_ready_def ready_def marked_def list_all_iff)

lemma kahn_loop_ordered:
  assumes "length wanted = length svcs"
  shows "length placed = length svcs \<Longrightarrow> marked placed = set order \<Longrightarrow> ordered svcs (marked wanted) order \<Longrightarrow>
    kahn_loop svcs wanted placed order = (placed', order') \<Longrightarrow>
    length placed' = length svcs \<and> marked placed' = set order' \<and> ordered svcs (marked wanted) order' \<and>
    (\<forall>i. \<not> ready svcs (marked wanted) (marked placed') i)"
  using assms
proof (induction svcs wanted placed order rule: kahn_loop.induct)
  case (1 svcs wanted placed order)
  note iff = is_ready_iff[OF "1.prems"(1,5)]
  show ?case
  proof (cases "find (is_ready svcs wanted placed) [0..<length placed]")
    case None
    then have "\<not> ready svcs (marked wanted) (marked placed) i" for i
      using iff "1.prems"(1,5) by (auto simp: find_upt_None ready_def marked_def)
    then show ?thesis using "1.prems" None by (simp add: kahn_loop.simps)
  next
    case (Some i)
    then have i: "i < length svcs" "ready svcs (marked wanted) (marked placed) i"
      and least: "\<And>j. j < i \<Longrightarrow> \<not> ready svcs (marked wanted) (marked placed) j"
      using iff "1.prems"(1) by (auto simp: find_upt)
    have "ordered svcs (marked wanted) (order @ [i])"
      using i least "1.prems"(2,3) by (intro ordered_snoc) (auto simp: ready_def not_less[symmetric])
    moreover have "marked (placed[i := True]) = set (order @ [i])"
      using i(1) "1.prems"(1,2) by (simp add: marked_update)
    moreover have "kahn_loop svcs wanted (placed[i := True]) (order @ [i]) = (placed', order')"
      using "1.prems"(4) Some by (simp add: kahn_loop.simps[of svcs wanted placed])
    ultimately show ?thesis using "1.prems"(1,5) by (intro "1.IH"[OF Some]) simp_all
  qed
qed

section \<open>Cycles\<close>

text \<open>Every service that is left waits for another one that is left: the walk returns, with a cycle.\<close>

lemma cycle_loop_returns:
  assumes left: "\<And>i. i \<in> L \<Longrightarrow> \<exists>d. find (\<lambda>d. \<not> placed ! d) (svc_deps svcs i) = Some d \<and> d \<in> L"
    and "L \<subseteq> {..<length svcs}"
  shows "path \<noteq> [] \<Longrightarrow> distinct path \<Longrightarrow> set path \<subseteq> L \<Longrightarrow> (\<forall>k. Suc k < length path \<longrightarrow> (path ! k, path ! Suc k) \<in> depends svcs) \<Longrightarrow>
    \<exists>path' p. cycle_loop svcs placed path = Some (path', p) \<and> p < length path' \<and> set path' \<subseteq> L \<and>
      (\<forall>k. Suc k < length path' \<longrightarrow> (path' ! k, path' ! Suc k) \<in> depends svcs) \<and> (last path', path' ! p) \<in> depends svcs"
proof (induction "length svcs - length path" arbitrary: path rule: less_induct)
  case less
  have last: "last path \<in> L" using less.prems by auto
  then obtain d where d: "find (\<lambda>d. \<not> placed ! d) (svc_deps svcs (last path)) = Some d" "d \<in> L" using left by blast
  then have edge: "(last path, d) \<in> depends svcs"
    using svc_deps_set[of "last path" svcs d] assms(2) last by (auto simp: find_Some_iff)
  show ?case
  proof (cases "position (\<lambda>i. i = d) path")
    case (Some p)
    then have "p < length path" "path ! p = d" using position_Some by fastforce+
    then show ?thesis using d(1) Some less.prems edge by (subst cycle_loop.simps) auto
  next
    case None
    then have new: "d \<notin> set path" by (auto simp: position_None)
    have "card (set (path @ [d])) \<le> card {..<length svcs}"
      using less.prems(3) d(2) assms(2) by (intro card_mono) auto
    then have "length svcs - length (path @ [d]) < length svcs - length path"
      using less.prems(2) new by (simp add: distinct_card)
    moreover have "\<forall>k. Suc k < length (path @ [d]) \<longrightarrow> ((path @ [d]) ! k, (path @ [d]) ! Suc k) \<in> depends svcs"
    proof (intro allI impI)
      fix k assume "Suc k < length (path @ [d])"
      then consider "Suc k < length path" | "k = length path - 1" "k < length path" by fastforce
      then show "((path @ [d]) ! k, (path @ [d]) ! Suc k) \<in> depends svcs"
      proof cases
        case 2
        then show ?thesis using edge less.prems(1) by (simp add: nth_append last_conv_nth)
      qed (use less.prems(4) in \<open>simp add: nth_append\<close>)
    qed
    ultimately obtain path' p where "cycle_loop svcs placed (path @ [d]) = Some (path', p)" "p < length path'" "set path' \<subseteq> L"
        "\<forall>k. Suc k < length path' \<longrightarrow> (path' ! k, path' ! Suc k) \<in> depends svcs" "(last path', path' ! p) \<in> depends svcs"
      using less.hyps[of "path @ [d]"] less.prems(2,3) new d(2) by auto
    then show ?thesis using d(1) None by (subst cycle_loop.simps) auto
  qed
qed

section \<open>The order of a project\<close>

text \<open>Services that wait for each other, by name and closed.\<close>

definition is_cycle :: "ProjService list \<Rightarrow> nat set \<Rightarrow> string list \<Rightarrow> bool" where
  "is_cycle svcs W names \<longleftrightarrow>
     (\<exists>path. path \<noteq> [] \<and> set path \<subseteq> W \<and> (\<forall>k. Suc k < length path \<longrightarrow> (path ! k, path ! Suc k) \<in> depends svcs) \<and>
       (last path, hd path) \<in> depends svcs \<and> names = map (\<lambda>i. sv_name (svcs ! i)) (path @ [hd path]))"

lemma cycle_names_cycle:
  assumes "p < length path" and "set path \<subseteq> W"
    and "\<forall>k. Suc k < length path \<longrightarrow> (path ! k, path ! Suc k) \<in> depends svcs" and "(last path, path ! p) \<in> depends svcs"
  shows "\<exists>names. cycle_names svcs path p = DependencyCycle names \<and> is_cycle svcs W names"
proof -
  have part: "drop p path \<noteq> []" "hd (drop p path) = path ! p" "last (drop p path) = last path"
    using assms(1) by (simp_all add: hd_drop_conv_nth)
  then obtain i rest where drop: "drop p path = i # rest" by (cases "drop p path") auto
  have "is_cycle svcs W (map (\<lambda>i. sv_name (svcs ! i)) (drop p path @ [hd (drop p path)]))"
    unfolding is_cycle_def using part assms by (intro exI[of _ "drop p path"]) (auto dest: in_set_dropD)
  then show ?thesis by (auto simp: cycle_names_def drop)
qed

lemma left_waits:
  assumes "length wanted = length svcs" and "length placed = length svcs"
    and closed: "\<And>i j. i \<in> marked wanted \<Longrightarrow> (i, j) \<in> depends svcs \<Longrightarrow> j \<in> marked wanted"
    and none: "\<And>i. \<not> ready svcs (marked wanted) (marked placed) i" and i: "i \<in> marked wanted - marked placed"
  shows "\<exists>d. find (\<lambda>d. \<not> placed ! d) (svc_deps svcs i) = Some d \<and> d \<in> marked wanted - marked placed"
proof -
  have range: "i < length svcs" using i assms(1) by (auto simp: marked_def)
  obtain j where j: "(i, j) \<in> depends svcs" "j \<notin> marked placed" using none[of i] i by (auto simp: ready_def)
  then have dep: "j \<in> set (svc_deps svcs i)" using svc_deps_set[OF range] by blast
  have open_dep: "\<not> placed ! j" using j assms(2) svc_deps_range[OF dep] by (simp add: marked_def)
  have "find (\<lambda>d. \<not> placed ! d) (svc_deps svcs i) \<noteq> None" using dep open_dep unfolding find_None_iff by blast
  then obtain d where d: "find (\<lambda>d. \<not> placed ! d) (svc_deps svcs i) = Some d" by blast
  then have "d \<in> set (svc_deps svcs i)" "\<not> placed ! d" by (auto simp: find_Some_iff)
  then show ?thesis using d closed[of i d] i svc_deps_set[OF range, of d] unfolding marked_def by blast
qed

text \<open>What \<open>dependency_order\<close> returns.\<close>

definition order_result :: "ProjService list \<Rightarrow> string list \<Rightarrow> bool \<Rightarrow> OrderError + nat list \<Rightarrow> bool" where
  "order_result svcs only strict r =
     (case r of
        Inr order \<Rightarrow> ordered svcs (started svcs only) order \<and> set order = started svcs only
      | Inl (NoSuchService name) \<Rightarrow> name \<in> set only \<and> svc_index svcs name = None
      | Inl (MissingDependency name dep) \<Rightarrow>
          strict \<and> (\<exists>i\<in>started svcs only. \<exists>d\<in>set (sv_depends_on (svcs ! i)).
            name = sv_name (svcs ! i) \<and> dep = dp_service d \<and> dp_required d \<and> svc_index svcs dep = None)
      | Inl (DependencyCycle names) \<Rightarrow> is_cycle svcs (started svcs only) names
      | Inl OrderPanic \<Rightarrow> False)"

lemma dependency_order_result: "\<exists>r. dependency_order svcs only strict = Some r \<and> order_result svcs only strict r"
proof (cases "asked_for svcs (rev only)")
  case (Inl e)
  then show ?thesis using asked_for_Inl[OF Inl] by (auto simp: dependency_order_def order_result_def)
next
  case (Inr asked)
  define stack where "stack = rev ((if only = [] then rev [0..<length svcs] else []) @ asked)"
  have "set stack = roots svcs only" using asked_for_Inr[OF Inr] by (auto simp: stack_def roots_def)
  note wanted = wanted_services[OF this, of strict]
  show ?thesis
  proof (cases "wanted_loop svcs strict (replicate (length svcs) False) stack")
    case (Inl e)
    then have "dependency_order svcs only strict = Some (Inl e)"
      unfolding dependency_order_def Let_def Inr sum.case stack_def[symmetric] by simp
    moreover obtain i d where "i \<in> started svcs only" "d \<in> set (sv_depends_on (svcs ! i))" "strict" "dp_required d"
        "svc_index svcs (dp_service d) = None" "e = MissingDependency (sv_name (svcs ! i)) (dp_service d)"
      using wanted Inl by auto
    then have "order_result svcs only strict (Inl e)" unfolding order_result_def by simp blast
    ultimately show ?thesis by blast
  next
    case w: (Inr wanted)
    obtain placed order where kahn: "kahn_loop svcs wanted (replicate (length svcs) False) [] = (placed, order)" by fastforce
    have len: "length wanted = length svcs" and W: "marked wanted = started svcs only" using wanted w by simp_all
    have "ordered svcs (marked wanted) []" by (simp add: ordered_def)
    then have K: "length placed = length svcs" "marked placed = set order" "ordered svcs (marked wanted) order"
        "\<And>i. \<not> ready svcs (marked wanted) (marked placed) i"
      using kahn_loop_ordered[OF len _ _ _ kahn] by (simp, simp, simp, auto)
    show ?thesis
    proof (cases "find (\<lambda>i. wanted ! i \<and> \<not> placed ! i) [0..<length svcs]")
      case None
      then have "marked wanted \<subseteq> marked placed" using len K(1) by (auto simp: find_upt_None marked_def)
      then have "order_result svcs only strict (Inr order)" using K(2,3) W by (auto simp: order_result_def ordered_def)
      moreover have "dependency_order svcs only strict = Some (Inr order)"
        unfolding dependency_order_def Let_def Inr sum.case stack_def[symmetric] w kahn using None by simp
      ultimately show ?thesis by blast
    next
      case (Some start)
      let ?L = "marked wanted - marked placed"
      have start: "start \<in> ?L" using Some len K(1) by (auto simp: find_upt marked_def)
      have closed: "j \<in> marked wanted" if "i \<in> marked wanted" "(i, j) \<in> depends svcs" for i j
        using that unfolding W by (auto intro: rtrancl_into_rtrancl)
      have left: "\<exists>d. find (\<lambda>d. \<not> placed ! d) (svc_deps svcs i) = Some d \<and> d \<in> ?L" if "i \<in> ?L" for i
        using left_waits[OF len K(1) _ K(4) that] closed by blast
      have L: "?L \<subseteq> {..<length svcs}" using len by (auto simp: marked_def)
      obtain path p where loop: "cycle_loop svcs placed [start] = Some (path, p)" and p: "p < length path" "set path \<subseteq> ?L"
          "\<forall>k. Suc k < length path \<longrightarrow> (path ! k, path ! Suc k) \<in> depends svcs" "(last path, path ! p) \<in> depends svcs"
        using cycle_loop_returns[OF left L, where path = "[start]"] start by auto
      then obtain names where "cycle_names svcs path p = DependencyCycle names" "is_cycle svcs (started svcs only) names"
        using cycle_names_cycle[of p path "started svcs only" svcs] W by blast
      moreover from this(1) have "dependency_order svcs only strict = Some (Inl (DependencyCycle names))"
        unfolding dependency_order_def Let_def Inr sum.case stack_def[symmetric] w kahn using Some loop by simp
      ultimately show ?thesis by (simp add: order_result_def)
    qed
  qed
qed

text \<open>C26: ordering the services of a project always returns. An order has exactly the services asked for and
  what they depend on, each once and after everything it depends on, and at each place the first of the file
  that could go there. An error names a service that is not in the project, a required dependency that is
  missing, or services that depend on each other in a circle.\<close>

theorem services_in_order:
  "\<exists>r. dependency_order svcs only strict = Some r \<and> order_result svcs only strict r"
  by (rule dependency_order_result)

lemma cycle_not_acyclic:
  assumes "is_cycle svcs W names"
  shows "\<not> acyclic (depends svcs \<inter> W \<times> W)"
proof -
  let ?R = "depends svcs \<inter> W \<times> W"
  obtain path where path: "path \<noteq> []" "set path \<subseteq> W" "\<forall>k. Suc k < length path \<longrightarrow> (path ! k, path ! Suc k) \<in> depends svcs"
      "(last path, hd path) \<in> depends svcs"
    using assms by (auto simp: is_cycle_def)
  have "k < length path \<Longrightarrow> (hd path, path ! k) \<in> ?R\<^sup>*" for k
  proof (induction k)
    case (Suc k)
    then have "(path ! k, path ! Suc k) \<in> ?R" using path(2,3) nth_mem[of k path] nth_mem[of "Suc k" path] by auto
    then show ?case using Suc by (auto intro: rtrancl_into_rtrancl)
  qed (simp add: hd_conv_nth path(1))
  then have "(hd path, last path) \<in> ?R\<^sup>*" using path(1) by (simp add: last_conv_nth)
  moreover have "(last path, hd path) \<in> ?R" using path by auto
  ultimately show ?thesis by (meson acyclic_def rtrancl_into_trancl1)
qed

text \<open>C27: services whose dependencies have no circle are ordered, if all that is asked for is in the project
  and, where missing services are refused, no required dependency is missing.\<close>

theorem acyclic_services_start:
  assumes "\<forall>name\<in>set only. svc_index svcs name \<noteq> None"
    and "strict \<longrightarrow> (\<forall>s\<in>set svcs. \<forall>d\<in>set (sv_depends_on s). dp_required d \<longrightarrow> svc_index svcs (dp_service d) \<noteq> None)"
    and "acyclic (depends svcs)"
  shows "\<exists>order. dependency_order svcs only strict = Some (Inr order) \<and> set order = started svcs only"
proof -
  obtain r where r: "dependency_order svcs only strict = Some r" "order_result svcs only strict r"
    using dependency_order_result by blast
  have W: "started svcs only \<subseteq> {..<length svcs}"
  proof (rule closed_reachable)
    show "roots svcs only \<subseteq> {..<length svcs}" by (auto simp: roots_def dest: svc_index_range)
    show "j \<in> {..<length svcs}" if "(i, j) \<in> depends svcs" for i j using that by (auto simp: depends_def dest: svc_index_range)
  qed
  have "\<not> is_cycle svcs (started svcs only) names" for names
    using cycle_not_acyclic acyclic_subset[OF assms(3)] by blast
  moreover have "svcs ! i \<in> set svcs" if "i \<in> started svcs only" for i using W that by auto
  ultimately obtain order where "r = Inr order"
    using r(2) assms(1,2) by (fastforce simp: order_result_def split: sum.splits OrderError.splits)
  then show ?thesis using r by (simp add: order_result_def)
qed

text \<open>A web service that needs a database.\<close>

definition example_services :: "ProjService list" where
  "example_services =
     [\<lparr>sv_name = ''web'', sv_container_name = None,
       sv_depends_on = [\<lparr>dp_service = ''db'', dp_condition = HealthyService, dp_required = True\<rparr>]\<rparr>,
      \<lparr>sv_name = ''db'', sv_container_name = None, sv_depends_on = []\<rparr>]"

theorem acyclic_services_start_witness:
  "\<exists>order. dependency_order example_services [''web''] True = Some (Inr order) \<and> set order = started example_services [''web'']"
proof (rule acyclic_services_start)
  have "depends example_services \<subseteq> {(0, 1)}"
    by (fastforce simp: depends_def example_services_def svc_index_def less_Suc_eq numeral_2_eq_2)
  then show "acyclic (depends example_services)"
    by (rule acyclic_subset[rotated]) (simp add: acyclic_insert, simp add: acyclic_def)
qed (simp_all add: example_services_def svc_index_def)

end
