(* ===== verification/Users.thy ===== *)
theory Users
  imports Dockerfile
begin

text \<open>
  Who a container runs as, \<^verbatim>\<open>rustlet-image/src/user.rs\<close>: the lines of \<^verbatim>\<open>/etc/passwd\<close> and
  \<^verbatim>\<open>/etc/group\<close>, and what a \<open>USER\<close> means against them. Reading the two files from an image is not
  modelled; a file is its text.
\<close>

section \<open>Data\<close>

record PasswdEntry =
  pe_name :: string
  pe_uid :: nat
  pe_gid :: nat
  pe_home :: string
  pe_shell :: string

record GroupEntry =
  ge_name :: string
  ge_gid :: nat
  ge_members :: "string list"

record ResolvedUser =
  ru_uid :: nat
  ru_gid :: nat
  ru_additional_gids :: "nat list"
  ru_name :: "string option"
  ru_home :: string

datatype UserError =
    BadUserSpec string
  | IdOutOfRange string
  | NoSuchUser string
  | NoSuchGroup string

section \<open>The files\<close>

definition user_lines :: "string \<Rightarrow> string list" where
  "user_lines body = filter (\<lambda>line. line \<noteq> [] \<and> \<not> starts_with ''#'' line) (map trim (str_lines body))"

text \<open>\<open>str::splitn\<close>: at most \<open>n\<close> fields, the last of which is the rest.\<close>

fun splitn :: "nat \<Rightarrow> char \<Rightarrow> string \<Rightarrow> string list" where
  "splitn 0 c s = []"
| "splitn (Suc 0) c s = [s]"
| "splitn (Suc (Suc n)) c s = (case split_once c s of None \<Rightarrow> [s] | Some (a, b) \<Rightarrow> a # splitn (Suc n) c b)"

definition is_number :: "string \<Rightarrow> bool" where
  "is_number s \<longleftrightarrow> s \<noteq> [] \<and> list_all is_digit s"

definition parse_id :: "string \<Rightarrow> nat option" where
  "parse_id s =
     (if \<not> is_number s then None
      else case parse_uint 32 s of None \<Rightarrow> None | Some n \<Rightarrow> if n \<noteq> 2 ^ 32 - 1 then Some n else None)"

definition or_default :: "string list \<Rightarrow> string" where
  "or_default rest = (case rest of [] \<Rightarrow> [] | s # _ \<Rightarrow> s)"

definition passwd_line :: "string \<Rightarrow> PasswdEntry option" where
  "passwd_line line =
     (case splitn 7 (CHR '':'') line of
        name # _ # uid # gid # rest \<Rightarrow>
          (case (parse_id uid, parse_id gid) of
             (Some u, Some g) \<Rightarrow>
               Some \<lparr>pe_name = name, pe_uid = u, pe_gid = g, pe_home = or_default (drop 1 rest), pe_shell = or_default (drop 2 rest)\<rparr>
           | _ \<Rightarrow> None)
      | _ \<Rightarrow> None)"

definition parse_passwd :: "string \<Rightarrow> PasswdEntry list" where
  "parse_passwd body = List.map_filter passwd_line (user_lines body)"

definition group_line :: "string \<Rightarrow> GroupEntry option" where
  "group_line line =
     (case splitn 4 (CHR '':'') line of
        name # _ # gid # rest \<Rightarrow>
          (case parse_id gid of
             Some g \<Rightarrow>
               Some \<lparr>ge_name = name, ge_gid = g,
                 ge_members = filter (\<lambda>m. m \<noteq> []) (map trim (split_on (CHR '','') (or_default rest)))\<rparr>
           | None \<Rightarrow> None)
      | _ \<Rightarrow> None)"

definition parse_group :: "string \<Rightarrow> GroupEntry list" where
  "parse_group body = List.map_filter group_line (user_lines body)"

section \<open>Resolving\<close>

definition spec_id :: "string \<Rightarrow> UserError + nat" where
  "spec_id s = (case parse_id s of None \<Rightarrow> Inl (IdOutOfRange s) | Some n \<Rightarrow> Inr n)"

definition user_part :: "PasswdEntry list \<Rightarrow> string \<Rightarrow> UserError + nat \<times> PasswdEntry option" where
  "user_part passwd u =
     (if u = [] then Inr (0, find (\<lambda>p. pe_uid p = 0) passwd)
      else if is_number u then bind_result (spec_id u) (\<lambda>uid. Inr (uid, find (\<lambda>p. pe_uid p = uid) passwd))
      else case find (\<lambda>p. pe_name p = u) passwd of
             None \<Rightarrow> Inl (NoSuchUser u)
           | Some entry \<Rightarrow> Inr (pe_uid entry, Some entry))"

text \<open>Each gid once, the first of its occurrences.\<close>

fun dedup :: "'a list \<Rightarrow> 'a list \<Rightarrow> 'a list" where
  "dedup seen [] = []"
| "dedup seen (x # xs) = (if x \<in> set seen then dedup seen xs else x # dedup (x # seen) xs)"

definition resolve_in :: "PasswdEntry list \<Rightarrow> GroupEntry list \<Rightarrow> string option \<Rightarrow> UserError + ResolvedUser" where
  "resolve_in passwd groups spec =
     (let spec = (case spec of Some s \<Rightarrow> s | None \<Rightarrow> []);
          (u, g) = (case split_once (CHR '':'') spec of Some (a, b) \<Rightarrow> (a, b) | None \<Rightarrow> (spec, []))
      in if CHR '':'' \<in> set g then Inl (BadUserSpec spec)
         else bind_result (user_part passwd u) (\<lambda>(uid, entry).
           let user = \<lparr>ru_uid = uid, ru_gid = (case entry of Some p \<Rightarrow> pe_gid p | None \<Rightarrow> 0), ru_additional_gids = [],
                 ru_name = map_option pe_name entry,
                 ru_home = (case nonempty (map_option pe_home entry) of Some h \<Rightarrow> h | None \<Rightarrow> [CHR 0x2F])\<rparr>
           in if g = [] then
                Inr (case ru_name user of
                       None \<Rightarrow> user
                     | Some name \<Rightarrow> user\<lparr>ru_additional_gids := dedup [] (map ge_gid (filter (\<lambda>gr. name \<in> set (ge_members gr)) groups))\<rparr>)
              else if is_number g then bind_result (spec_id g) (\<lambda>gid. Inr (user\<lparr>ru_gid := gid\<rparr>))
              else case find (\<lambda>gr. ge_name gr = g) groups of
                     None \<Rightarrow> Inl (NoSuchGroup g)
                   | Some gr \<Rightarrow> Inr (user\<lparr>ru_gid := ge_gid gr\<rparr>)))"

end
