(* ===== verification/UsersCorrect.thy ===== *)
theory UsersCorrect
  imports Users
begin

text \<open>
  Correctness of resolving users (theory \<^verbatim>\<open>Users\<close>): that they follow the table of the documentation,
  and that parsing inverts printing.
\<close>

section \<open>Ids\<close>

lemma parse_id_iff: "parse_id s = Some n \<longleftrightarrow> is_number s \<and> n = digits_value s \<and> n < 2 ^ 32 - 1"
proof (cases "is_number s")
  case True
  then have "(case s of c # cs \<Rightarrow> if c = CHR ''+'' \<and> cs \<noteq> [] then cs else s | [] \<Rightarrow> s) = s"
    by (auto simp: is_number_def is_digit_def split: list.splits)
  then have "parse_uint 32 s = (if digits_value s < 2 ^ 32 then Some (digits_value s) else None)"
    using True by (auto simp: parse_uint_def parse_digits_def is_number_def)
  then show ?thesis using True by (auto simp: parse_id_def split: option.splits if_splits)
qed (simp add: parse_id_def)

lemma spec_id_iff: "spec_id s = Inr n \<longleftrightarrow> is_number s \<and> n = digits_value s \<and> n < 2 ^ 32 - 1"
  using parse_id_iff[of s n] by (auto simp: spec_id_def split: option.splits)

lemma parse_id_dec: "n < 2 ^ 32 - 1 \<Longrightarrow> parse_id (dec n) = Some n"
  by (simp add: parse_id_def is_number_def dec_digits)

section \<open>The table of the documentation\<close>

definition first_match :: "('a \<Rightarrow> bool) \<Rightarrow> 'a list \<Rightarrow> 'a \<Rightarrow> bool" where
  "first_match P xs x \<longleftrightarrow> (\<exists>ys zs. xs = ys @ x # zs \<and> P x \<and> (\<forall>y\<in>set ys. \<not> P y))"

definition match_if_any :: "('a \<Rightarrow> bool) \<Rightarrow> 'a list \<Rightarrow> 'a option \<Rightarrow> bool" where
  "match_if_any P xs m \<longleftrightarrow> (case m of Some x \<Rightarrow> first_match P xs x | None \<Rightarrow> \<forall>x\<in>set xs. \<not> P x)"

text \<open>The user's part of a \<open>USER\<close>: its uid, and its entry if it has one.\<close>

inductive user_row :: "PasswdEntry list \<Rightarrow> string \<Rightarrow> nat \<Rightarrow> PasswdEntry option \<Rightarrow> bool" for passwd where
  row_unset: "match_if_any (\<lambda>p. pe_uid p = 0) passwd entry \<Longrightarrow> user_row passwd [] 0 entry"
| row_uid: "is_number s \<Longrightarrow> digits_value s \<le> 4294967294 \<Longrightarrow> match_if_any (\<lambda>p. pe_uid p = digits_value s) passwd entry \<Longrightarrow>
    user_row passwd s (digits_value s) entry"
| row_name: "s \<noteq> [] \<Longrightarrow> \<not> is_number s \<Longrightarrow> first_match (\<lambda>p. pe_name p = s) passwd p \<Longrightarrow> user_row passwd s (pe_uid p) (Some p)"

text \<open>The group's part: its gid, and the supplementary groups.\<close>

inductive group_row :: "GroupEntry list \<Rightarrow> PasswdEntry option \<Rightarrow> string \<Rightarrow> nat \<Rightarrow> nat list \<Rightarrow> bool" for groups entry where
  row_no_entry: "entry = None \<Longrightarrow> group_row groups entry [] 0 []"
| row_entry: "entry = Some p \<Longrightarrow>
    group_row groups entry [] (pe_gid p) (rev (remdups (rev (map ge_gid (filter (\<lambda>g. pe_name p \<in> set (ge_members g)) groups)))))"
| row_gid: "is_number s \<Longrightarrow> digits_value s \<le> 4294967294 \<Longrightarrow> group_row groups entry s (digits_value s) []"
| row_group: "s \<noteq> [] \<Longrightarrow> \<not> is_number s \<Longrightarrow> first_match (\<lambda>g. ge_name g = s) groups g \<Longrightarrow> group_row groups entry s (ge_gid g) []"

text \<open>The two parts, \<open>user\<close> or \<open>user:group\<close>.\<close>

definition written_as :: "string option \<Rightarrow> string \<Rightarrow> string \<Rightarrow> bool" where
  "written_as spec u g \<longleftrightarrow> CHR '':'' \<notin> set u \<union> set g \<and>
     (let s = (case spec of Some s \<Rightarrow> s | None \<Rightarrow> []) in s = u \<and> g = [] \<or> s = u @ CHR '':'' # g)"

lemma find_first: "find P xs = Some x \<longleftrightarrow> first_match P xs x"
proof (induction xs)
  case Nil
  then show ?case by (simp add: first_match_def)
next
  case (Cons a xs)
  show ?case
  proof (cases "P a")
    case True
    have "first_match P (a # xs) x \<longleftrightarrow> x = a"
      using True by (auto simp: first_match_def Cons_eq_append_conv intro: exI[of _ "[]"])
    then show ?thesis using True by auto
  next
    case False
    have "first_match P (a # xs) x \<longleftrightarrow> first_match P xs x"
      using False by (auto simp: first_match_def Cons_eq_append_conv) (metis set_ConsD)
    then show ?thesis using False Cons by simp
  qed
qed

lemma find_if_any: "match_if_any P xs m \<longleftrightarrow> m = find P xs"
  by (cases m) (auto simp: match_if_any_def find_first[symmetric] find_None_iff eq_commute[of _ "find P xs"])

lemma dedup_remdups: "dedup seen xs = filter (\<lambda>x. x \<notin> set seen) (rev (remdups (rev xs)))"
proof (induction xs arbitrary: seen)
  case (Cons x xs)
  have "rev (remdups (rev xs @ [x])) = x # filter (\<lambda>y. y \<noteq> x) (rev (remdups (rev xs)))"
    by (induction xs rule: rev_induct) (auto simp: filter_remove1 )
  then show ?case using Cons by (auto simp: conj_commute intro!: filter_cong)
qed simp

lemma user_part_row: "user_part passwd s = Inr (uid, entry) \<longleftrightarrow> user_row passwd s uid entry"
proof -
  have not_empty: "\<not> is_number []" by (simp add: is_number_def)
  have "user_row passwd s uid entry \<longleftrightarrow>
      (if s = [] then uid = 0 \<and> entry = find (\<lambda>p. pe_uid p = 0) passwd
       else if is_number s then uid = digits_value s \<and> uid < 2 ^ 32 - 1 \<and> entry = find (\<lambda>p. pe_uid p = uid) passwd
       else \<exists>p. find (\<lambda>p. pe_name p = s) passwd = Some p \<and> uid = pe_uid p \<and> entry = Some p)"
    using not_empty by (subst user_row.simps) (auto simp: find_if_any find_first)
  then show ?thesis
    by (auto simp: user_part_def bind_result_Inr_iff spec_id_iff split: option.splits)
qed

text \<open>What follows the user, once it is known.\<close>

definition group_part :: "GroupEntry list \<Rightarrow> PasswdEntry option \<Rightarrow> string \<Rightarrow> UserError + nat \<times> nat list" where
  "group_part groups entry g =
     (if g = [] then
        Inr (case entry of
               None \<Rightarrow> (0, [])
             | Some p \<Rightarrow> (pe_gid p, dedup [] (map ge_gid (filter (\<lambda>gr. pe_name p \<in> set (ge_members gr)) groups))))
      else if is_number g then bind_result (spec_id g) (\<lambda>gid. Inr (gid, []))
      else case find (\<lambda>gr. ge_name gr = g) groups of None \<Rightarrow> Inl (NoSuchGroup g) | Some gr \<Rightarrow> Inr (ge_gid gr, []))"

lemma group_part_row: "group_part groups entry g = Inr (gid, extra) \<longleftrightarrow> group_row groups entry g gid extra"
proof -
  have not_empty: "\<not> is_number []" by (simp add: is_number_def)
  have "group_row groups entry g gid extra \<longleftrightarrow>
      (if g = [] then (case entry of None \<Rightarrow> gid = 0 \<and> extra = []
         | Some p \<Rightarrow> gid = pe_gid p \<and> extra = dedup [] (map ge_gid (filter (\<lambda>gr. pe_name p \<in> set (ge_members gr)) groups)))
       else if is_number g then gid = digits_value g \<and> gid < 2 ^ 32 - 1 \<and> extra = []
       else \<exists>gr. find (\<lambda>gr. ge_name gr = g) groups = Some gr \<and> gid = ge_gid gr \<and> extra = [])"
    using not_empty by (subst group_row.simps) (auto simp: find_first dedup_remdups split: option.splits)
  then show ?thesis
    by (auto simp: group_part_def bind_result_Inr_iff spec_id_iff split: option.splits)
qed

definition home_of :: "PasswdEntry option \<Rightarrow> string" where
  "home_of entry = (case entry of Some p \<Rightarrow> if pe_home p = [] then [CHR 0x2F] else pe_home p | None \<Rightarrow> [CHR 0x2F])"

lemma written_parts:
  "written_as spec u g \<longleftrightarrow> CHR '':'' \<notin> set g \<and>
     (u, g) = (let s = (case spec of Some s \<Rightarrow> s | None \<Rightarrow> [])
               in case split_once (CHR '':'') s of Some (a, b) \<Rightarrow> (a, b) | None \<Rightarrow> (s, []))"
proof -
  define s where "s = (case spec of Some s \<Rightarrow> s | None \<Rightarrow> [])"
  show ?thesis
  proof (cases "split_once (CHR '':'') s")
    case None
    then have "CHR '':'' \<notin> set s" by (simp add: split_once_None)
    then show ?thesis using None by (auto simp: written_as_def Let_def s_def[symmetric])
  next
    case (Some ab)
    obtain a b where ab: "ab = (a, b)" by (cases ab)
    then have s: "s = a @ CHR '':'' # b" "CHR '':'' \<notin> set a" using Some by (auto simp: split_once_Some)
    then have "CHR '':'' \<notin> set u \<Longrightarrow> s = u @ CHR '':'' # g \<longleftrightarrow> u = a \<and> g = b"
      using split_once_append[of "CHR '':''" u g] Some ab by auto
    then show ?thesis using Some ab s by (auto simp: written_as_def Let_def s_def[symmetric])
  qed
qed

lemma resolve_parts:
  "resolve_in passwd groups spec = Inr user \<longleftrightarrow>
    (\<exists>u g uid entry gid extra. written_as spec u g \<and> user_part passwd u = Inr (uid, entry) \<and> group_part groups entry g = Inr (gid, extra) \<and>
       user = \<lparr>ru_uid = uid, ru_gid = gid, ru_additional_gids = extra, ru_name = map_option pe_name entry, ru_home = home_of entry\<rparr>)"
proof -
  define s where "s = (case spec of Some s \<Rightarrow> s | None \<Rightarrow> [])"
  obtain u g where ug: "(case split_once (CHR '':'') s of Some (a, b) \<Rightarrow> (a, b) | None \<Rightarrow> (s, [])) = (u, g)"
    by (metis surj_pair)
  have written: "written_as spec u' g' \<longleftrightarrow> CHR '':'' \<notin> set g \<and> u' = u \<and> g' = g" for u' g'
    by (auto simp: written_parts Let_def s_def[symmetric] ug)
  have home: "(case nonempty (map_option pe_home entry) of Some h \<Rightarrow> h | None \<Rightarrow> [CHR 0x2F]) = home_of entry" for entry
    by (cases entry) (auto simp: nonempty_def home_of_def)
  show ?thesis
  proof (cases "CHR '':'' \<in> set g")
    case True
    then show ?thesis by (simp add: resolve_in_def s_def[symmetric] Let_def ug written)
  next
    case False
    have some: "resolve_in passwd groups spec = bind_result (user_part passwd u) (\<lambda>(uid, entry).
        bind_result (group_part groups entry g) (\<lambda>(gid, extra).
          Inr \<lparr>ru_uid = uid, ru_gid = gid, ru_additional_gids = extra, ru_name = map_option pe_name entry, ru_home = home_of entry\<rparr>))"
    proof (cases "user_part passwd u")
      case (Inr ue)
      obtain uid entry where "ue = (uid, entry)" by (cases ue)
      then show ?thesis using Inr False
        by (cases entry; cases "g = []"; cases "is_number g"; cases "spec_id g"; cases "find (\<lambda>gr. ge_name gr = g) groups")
          (simp_all add: resolve_in_def s_def[symmetric] Let_def ug home group_part_def)
    qed (simp add: resolve_in_def s_def[symmetric] Let_def ug False)
    show ?thesis unfolding some bind_result_Inr_iff using False by (simp add: written split_paired_Ex bind_result_Inr_iff) blast
  qed
qed

section \<open>The lines of the files\<close>

text \<open>An entry of a file is a line of it: its name, and its ids in decimal and below \<open>4294967295\<close>.\<close>

definition passwd_entry_of :: "string \<Rightarrow> PasswdEntry \<Rightarrow> bool" where
  "passwd_entry_of line p \<longleftrightarrow> (\<exists>pw uid gid rest. splitn 7 (CHR '':'') line = pe_name p # pw # uid # gid # rest \<and>
     is_number uid \<and> pe_uid p = digits_value uid \<and> pe_uid p \<le> 4294967294 \<and>
     is_number gid \<and> pe_gid p = digits_value gid \<and> pe_gid p \<le> 4294967294 \<and> pe_home p = or_default (drop 1 rest))"

definition group_entry_of :: "string \<Rightarrow> GroupEntry \<Rightarrow> bool" where
  "group_entry_of line g \<longleftrightarrow> (\<exists>pw gid rest. splitn 4 (CHR '':'') line = ge_name g # pw # gid # rest \<and>
     is_number gid \<and> ge_gid g = digits_value gid \<and> ge_gid g \<le> 4294967294)"

lemma map_filter_member: "y \<in> set (List.map_filter f xs) \<longleftrightarrow> (\<exists>x\<in>set xs. f x = Some y)"
  by (force simp: map_filter_def)

lemma passwd_line_entry: "passwd_line line = Some p \<Longrightarrow> passwd_entry_of line p"
  by (auto simp: passwd_line_def passwd_entry_of_def parse_id_iff split: list.splits option.splits)

lemma group_line_entry: "group_line line = Some g \<Longrightarrow> group_entry_of line g"
  by (auto simp: group_line_def group_entry_of_def parse_id_iff split: list.splits option.splits)

lemma parse_passwd_entries: "\<forall>p\<in>set (parse_passwd body). \<exists>line\<in>set (user_lines body). passwd_entry_of line p"
proof (intro ballI)
  fix p
  assume "p \<in> set (parse_passwd body)"
  then obtain line where "line \<in> set (user_lines body)" "passwd_line line = Some p" by (auto simp: parse_passwd_def map_filter_member)
  then show "\<exists>line\<in>set (user_lines body). passwd_entry_of line p" using passwd_line_entry by (intro bexI[of _ line])
qed

lemma parse_group_entries: "\<forall>g\<in>set (parse_group body). \<exists>line\<in>set (user_lines body). group_entry_of line g"
proof (intro ballI)
  fix g
  assume "g \<in> set (parse_group body)"
  then obtain line where "line \<in> set (user_lines body)" "group_line line = Some g" by (auto simp: parse_group_def map_filter_member)
  then show "\<exists>line\<in>set (user_lines body). group_entry_of line g" using group_line_entry by (intro bexI[of _ line])
qed

text \<open>C28: a \<open>USER\<close> resolves exactly as the table of the documentation says: the uid is 0 when no user is given, a number
  as written, or that of the first entry of the name, the gid that of the group that is named or else of the user's entry, and the supplementary
  groups those that list the user, in order and each once, unless a group is named. It fails exactly when no row of the table
  applies. The entries are those of lines of the image's files with decimal ids up to 4294967294, so no malformed
  line makes a user root.\<close>

theorem users_by_table:
  "(resolve_in (parse_passwd passwd) (parse_group groups) spec = Inr user \<longleftrightarrow>
     (\<exists>u g entry. written_as spec u g \<and> user_row (parse_passwd passwd) u (ru_uid user) entry \<and>
        group_row (parse_group groups) entry g (ru_gid user) (ru_additional_gids user) \<and>
        ru_name user = map_option pe_name entry \<and> ru_home user = home_of entry)) \<and>
   (\<forall>p\<in>set (parse_passwd passwd). \<exists>line\<in>set (user_lines passwd). passwd_entry_of line p) \<and>
   (\<forall>g\<in>set (parse_group groups). \<exists>line\<in>set (user_lines groups). group_entry_of line g)"
  (is "(?l \<longleftrightarrow> ?r) \<and> _")
proof -
  have "?l \<longleftrightarrow> ?r"
    unfolding resolve_parts user_part_row[symmetric] group_part_row[symmetric]
    by (cases user) force
  then show ?thesis using parse_passwd_entries parse_group_entries by blast
qed

section \<open>Printed files\<close>

text \<open>An entry as a line of \<^verbatim>\<open>/etc/passwd\<close>.\<close>

definition print_passwd :: "PasswdEntry \<Rightarrow> string" where
  "print_passwd p =
     join_with '':'' [pe_name p, ''x'', dec (pe_uid p), dec (pe_gid p), [], pe_home p, pe_shell p]"

definition plain_field :: "string \<Rightarrow> bool" where
  "plain_field s \<longleftrightarrow> list_all (\<lambda>c. c \<noteq> CHR '':'' \<and> c \<noteq> CHR 0x0A \<and> \<not> is_space c) s"

definition printable :: "PasswdEntry \<Rightarrow> bool" where
  "printable p \<longleftrightarrow> pe_name p \<noteq> [] \<and> hd (pe_name p) \<noteq> CHR ''#'' \<and> plain_field (pe_name p) \<and> plain_field (pe_home p) \<and>
     plain_field (pe_shell p) \<and> pe_uid p < 2 ^ 32 - 1 \<and> pe_gid p < 2 ^ 32 - 1"

lemma splitn_join: "\<forall>s\<in>set ss. c \<notin> set s \<Longrightarrow> ss \<noteq> [] \<Longrightarrow> length ss = n \<Longrightarrow> splitn n c (join_with [c] ss) = ss"
proof (induction "[c]" ss arbitrary: n rule: join_with.induct)
  case (3 s t ss)
  then obtain m where n: "n = Suc (Suc m)" by (cases n; cases "n - 1") auto
  have "split_once c (s @ [c] @ join_with [c] (t # ss)) = Some (s, join_with [c] (t # ss))"
    using 3(2) by (simp add: split_once_append)
  then show ?case using 3 n by simp
qed auto

lemma plain_field_no: "plain_field s \<Longrightarrow> CHR '':'' \<notin> set s" "plain_field s \<Longrightarrow> c \<in> set s \<Longrightarrow> \<not> is_space c" "plain_field s \<Longrightarrow> CHR 0x0A \<notin> set s"
  by (auto simp: plain_field_def list_all_iff)

lemma passwd_line_print: "printable p \<Longrightarrow> passwd_line (print_passwd p) = Some p"
proof -
  assume p: "printable p"
  have colon: "CHR '':'' \<notin> set (dec n)" for n by (rule dec_no) (simp add: is_digit_def)
  have "splitn 7 (CHR '':'') (print_passwd p) = [pe_name p, ''x'', dec (pe_uid p), dec (pe_gid p), [], pe_home p, pe_shell p]"
    unfolding print_passwd_def by (rule splitn_join) (use p colon plain_field_no(1) in \<open>auto simp: printable_def\<close>)
  then show ?thesis using p parse_id_dec by (simp add: passwd_line_def printable_def or_default_def)
qed

lemma print_passwd_chars: "printable p \<Longrightarrow> c \<in> set (print_passwd p) \<Longrightarrow> \<not> is_space c \<and> c \<noteq> CHR 0x0A"
proof -
  assume p: "printable p" and c: "c \<in> set (print_passwd p)"
  have "c \<in> set (pe_name p) \<union> set (pe_home p) \<union> set (pe_shell p) \<or> c \<in> set (dec (pe_uid p)) \<union> set (dec (pe_gid p)) \<or> c \<in> {CHR '':'', CHR ''x''}"
    using c by (auto simp: print_passwd_def)
  moreover have "\<not> is_space c \<and> c \<noteq> CHR 0x0A" if "is_digit c" using that by (auto simp: is_digit_def is_space_def Let_def)
  ultimately show ?thesis
    using p plain_field_no(2,3) dec_digits[of "pe_uid p"] dec_digits[of "pe_gid p"]
    by (auto simp: printable_def list_all_iff is_space_def)
qed

lemma trim_plain:
  assumes "\<And>c. c \<in> set s \<Longrightarrow> \<not> is_space c"
  shows "trim s = s"
proof -
  have "dropWhile is_space t = t" if "set t = set s" for t using that assms by (cases t) auto
  then show ?thesis by (simp add: trim_def trim_start_def trim_end_def)
qed

lemma parse_printed:
  assumes "list_all printable entries"
  shows "parse_passwd (concat (map (\<lambda>p. print_passwd p @ [CHR 0x0A]) entries)) = entries"
proof -
  have split: "split_on (CHR 0x0A) (concat (map (\<lambda>p. print_passwd p @ [CHR 0x0A]) ps)) = map print_passwd ps @ [[]]"
    if "list_all printable ps" for ps
    using that
  proof (induction ps)
    case (Cons p ps)
    then have "CHR 0x0A \<notin> set (print_passwd p)" using print_passwd_chars by auto
    then show ?case using Cons split_on_append[of "CHR 0x0A" "print_passwd p"] by (simp del: split_on.simps)
  qed simp
  have cr: "strip_cr (print_passwd p) = print_passwd p" if "printable p" for p
  proof -
    have "CHR 0x0D \<notin> set (print_passwd p)" using print_passwd_chars[OF that, of "CHR 0x0D"] by (auto simp: is_space_def)
    then have "strip_suffix [CHR 0x0D] (print_passwd p) = None"
      by (cases "rev (print_passwd p)") (auto simp: strip_suffix_def simp flip: set_rev[of "print_passwd p"])
    then show ?thesis by (simp add: strip_cr_def)
  qed
  have line: "trim (print_passwd p) = print_passwd p \<and> print_passwd p \<noteq> [] \<and> \<not> starts_with ''#'' (print_passwd p)" if p: "printable p" for p
  proof -
    obtain c cs where "pe_name p = c # cs" "c \<noteq> CHR ''#''" using p by (cases "pe_name p") (auto simp: printable_def)
    then have "print_passwd p \<noteq> [] \<and> \<not> starts_with ''#'' (print_passwd p)" by (simp add: print_passwd_def starts_with_def)
    then show ?thesis using print_passwd_chars[OF p] trim_plain by blast
  qed
  have lines: "str_lines (concat (map (\<lambda>p. print_passwd p @ [CHR 0x0A]) entries)) = map print_passwd entries"
    using split[OF assms] cr assms by (simp add: str_lines_def list_all_iff)
  have "user_lines (concat (map (\<lambda>p. print_passwd p @ [CHR 0x0A]) entries)) = map print_passwd entries"
    unfolding user_lines_def lines using line assms by (induction entries) simp_all
  moreover have "List.map_filter passwd_line (map print_passwd entries) = entries"
    using assms passwd_line_print by (induction entries) (simp_all add: map_filter_simps)
  ultimately show ?thesis by (simp add: parse_passwd_def)
qed

text \<open>Printing passwd entries, one to a line, and parsing them gives the entries.\<close>

theorem passwd_roundtrip:
  "list_all printable entries \<Longrightarrow> parse_passwd (concat (map (\<lambda>p. print_passwd p @ [CHR 0x0A]) entries)) = entries"
  by (rule parse_printed)

definition example_entry :: PasswdEntry where
  "example_entry = \<lparr>pe_name = ''app'', pe_uid = 101, pe_gid = 4, pe_home = ''h'', pe_shell = ''sh''\<rparr>"

lemma example_printable: "list_all printable [example_entry]"
  by (simp add: example_entry_def printable_def plain_field_def is_space_def)

theorem passwd_roundtrip_witness: "parse_passwd (print_passwd example_entry @ [CHR 0x0A]) = [example_entry]"
  using passwd_roundtrip[OF example_printable] by simp

definition example_user :: ResolvedUser where
  "example_user = \<lparr>ru_uid = 101, ru_gid = 4, ru_additional_gids = [], ru_name = Some ''app'', ru_home = ''h''\<rparr>"

theorem users_by_table_witness:
  "\<exists>u g entry. written_as (Some ''app'') u g \<and> user_row [example_entry] u 101 entry \<and> group_row (parse_group []) entry g 4 []"
proof -
  have entries: "parse_passwd (print_passwd example_entry @ [CHR 0x0A]) = [example_entry]"
    using parse_printed[OF example_printable] by simp
  have user: "resolve_in (parse_passwd (print_passwd example_entry @ [CHR 0x0A])) (parse_group []) (Some ''app'') = Inr example_user"
    unfolding entries by (simp add: resolve_in_def user_part_def is_number_def is_digit_def parse_group_def user_lines_def str_lines_def
      example_entry_def example_user_def nonempty_def map_filter_simps)
  have "ru_uid example_user = 101" "ru_gid example_user = 4" "ru_additional_gids example_user = []" by (simp_all add: example_user_def)
  then show ?thesis
    using users_by_table[of "print_passwd example_entry @ [CHR 0x0A]" "[]" "Some ''app''" example_user] user
    unfolding entries by metis
qed

end
