(* ===== verification/Lifecycle.thy ===== *)
theory Lifecycle
  imports Health
begin

text \<open>
  The life of a container in the daemon, \<^verbatim>\<open>rustletd/src/lifecycle.rs\<close> with \<^verbatim>\<open>container.rs\<close> and the restart
  policies of \<^verbatim>\<open>rustlet-spec/src/container.rs\<close>.

  Start, stop, restart, pause and rm hold the container's \<open>op\<close> lock from beginning to end; an exit and
  \<open>kill\<close> do not, and the task that applies the restart policy after an exit and the timer of a restart wait
  for the lock like any operation. The statuses of a container are those of \<^verbatim>\<open>Health\<close>. So an operation is a step that takes the lock, what it waits for, and a
  step that releases it, and everything else happens in between. What the shim and the file system answer is
  the choice of a step. What an operation does until it first waits is one step (the daemon's threads could
  interleave an exit even there). Writing the state to the database succeeds, operations are asked for while the
  container exists, and events and log messages are left out.
\<close>

section \<open>Restart policies\<close>

datatype RestartPolicyName = PolicyNo | PolicyAlways | PolicyUnlessStopped | PolicyOnFailure

record RestartPolicy =
  rp_name :: RestartPolicyName
  rp_max_retries :: nat

datatype PolicyError = UnknownPolicy string | CountRefused string | BadCount string

definition RestartPolicy_parse :: "string \<Rightarrow> PolicyError + RestartPolicy" where
  "RestartPolicy_parse s =
     (let (name, count) = (case split_once (CHR '':'') s of Some (n, c) \<Rightarrow> (n, Some c) | None \<Rightarrow> (s, None));
          known = (if name = ''no'' \<or> name = [] then Some PolicyNo
                   else if name = ''always'' then Some PolicyAlways
                   else if name = ''unless-stopped'' then Some PolicyUnlessStopped
                   else if name = ''on-failure'' then Some PolicyOnFailure
                   else None)
      in case known of
           None \<Rightarrow> Inl (UnknownPolicy name)
         | Some p \<Rightarrow>
             (case count of
                None \<Rightarrow> Inr \<lparr>rp_name = p, rp_max_retries = 0\<rparr>
              | Some c \<Rightarrow>
                  if p \<noteq> PolicyOnFailure then Inl (CountRefused s)
                  else case parse_uint 32 c of
                         None \<Rightarrow> Inl (BadCount c)
                       | Some n \<Rightarrow> Inr \<lparr>rp_name = p, rp_max_retries = n\<rparr>))"

definition RestartPolicy_fmt :: "RestartPolicy \<Rightarrow> string" where
  "RestartPolicy_fmt p =
     (case rp_name p of
        PolicyNo \<Rightarrow> ''no''
      | PolicyAlways \<Rightarrow> ''always''
      | PolicyUnlessStopped \<Rightarrow> ''unless-stopped''
      | PolicyOnFailure \<Rightarrow> if rp_max_retries p = 0 then ''on-failure'' else ''on-failure:'' @ dec (rp_max_retries p))"

section \<open>State\<close>

text \<open>The part of \<open>Persisted\<close> and \<open>ContainerState\<close> that decides.\<close>

record Persisted =
  ps_status :: ContainerStatus
  ps_exit_code :: "int option"
  ps_restart_count :: nat
  ps_manually_stopped :: bool

definition should_restart :: "RestartPolicy \<Rightarrow> Persisted \<Rightarrow> bool" where
  "should_restart policy st =
     (if ps_manually_stopped st then False
      else case rp_name policy of
             PolicyNo \<Rightarrow> False
           | PolicyAlways \<Rightarrow> True
           | PolicyUnlessStopped \<Rightarrow> True
           | PolicyOnFailure \<Rightarrow>
               ps_exit_code st \<noteq> Some 0 \<and> (rp_max_retries policy = 0 \<or> ps_restart_count st < rp_max_retries policy))"

definition start_at_boot :: "RestartPolicy \<Rightarrow> Persisted \<Rightarrow> bool" where
  "start_at_boot policy st =
     (case rp_name policy of
        PolicyAlways \<Rightarrow> True
      | PolicyUnlessStopped \<Rightarrow> \<not> ps_manually_stopped st
      | _ \<Rightarrow> False)"

text \<open>Delays, in milliseconds.\<close>

definition BACKOFF_INITIAL :: nat where "BACKOFF_INITIAL = 100"
definition BACKOFF_MAX :: nat where "BACKOFF_MAX = 60000"
definition BACKOFF_RESET_AFTER :: nat where "BACKOFF_RESET_AFTER = 10000"

definition backoff_delay :: "nat option \<Rightarrow> nat \<Rightarrow> nat \<times> nat" where
  "backoff_delay ran_for now =
     (let d = (case ran_for of Some t \<Rightarrow> if t \<ge> BACKOFF_RESET_AFTER then BACKOFF_INITIAL else now | None \<Rightarrow> now)
      in (d, min (d * 2) BACKOFF_MAX))"

text \<open>Who asked for a start that is going on, and what an operation that holds the lock waits for. The number is
  that of the exits when the operation began to wait for one.\<close>

datatype StartedBy = ByUser | ByTimer

datatype Activity =
    Starting StartedBy
  | Stopping bool nat
  | Pausing ContainerStatus ContainerStatus
  | RemoveKilling nat
  | RemovingFiles

record LifeState =
  lf_p :: Persisted
  lf_exits :: nat
  lf_removed :: bool
  lf_op :: "Activity option"
  lf_timer :: bool
  lf_delay :: nat
  lf_backoff :: nat
  lf_after_exit :: nat
  lf_monitors :: nat

text \<open>\<open>Container::new\<close>, for a container that was just created.\<close>

definition Container_new :: LifeState where
  "Container_new =
     \<lparr>lf_p = \<lparr>ps_status = Created, ps_exit_code = None, ps_restart_count = 0, ps_manually_stopped = False\<rparr>,
      lf_exits = 0, lf_removed = False, lf_op = None, lf_timer = False, lf_delay = 0, lf_backoff = BACKOFF_INITIAL, lf_after_exit = 0,
      lf_monitors = 0\<rparr>"

definition upd :: "(Persisted \<Rightarrow> Persisted) \<Rightarrow> LifeState \<Rightarrow> LifeState" where
  "upd f s = s\<lparr>lf_p := f (lf_p s)\<rparr>"

abbreviation status :: "LifeState \<Rightarrow> ContainerStatus" where
  "status s \<equiv> ps_status (lf_p s)"

section \<open>Operations\<close>

text \<open>What \<open>start\<close> and \<open>restart\<close> reset before they start the container; the lock stays held.\<close>

definition reset_policy :: "LifeState \<Rightarrow> LifeState" where
  "reset_policy s =
     (upd (\<lambda>p. p\<lparr>ps_manually_stopped := False, ps_restart_count := 0\<rparr>) s)\<lparr>lf_backoff := BACKOFF_INITIAL, lf_op := Some (Starting ByUser)\<rparr>"

definition cancel_restart :: "LifeState \<Rightarrow> LifeState" where
  "cancel_restart s = s\<lparr>lf_timer := False\<rparr>"

text \<open>\<open>start\<close>, up to \<open>start_locked\<close>; \<open>None\<close> is a refusal.\<close>

definition life_start :: "LifeState \<Rightarrow> LifeState option" where
  "life_start s =
     (if is_live (status s) then Some s
      else if status s = Removing then None
      else Some (reset_policy (if status s = Restarting then cancel_restart s else s)))"

text \<open>The end of \<open>start_locked\<close>: the run began, or it did not.\<close>

definition start_succeeds :: "LifeState \<Rightarrow> LifeState" where
  "start_succeeds s =
     (upd (\<lambda>p. p\<lparr>ps_status := Running, ps_exit_code := None\<rparr>) s)\<lparr>lf_op := None, lf_monitors := lf_monitors s + 1\<rparr>"

definition start_fails :: "StartedBy \<Rightarrow> LifeState \<Rightarrow> LifeState" where
  "start_fails who s =
     (upd (\<lambda>p. if ps_status p = Restarting then p\<lparr>ps_status := Exited\<rparr> else p) s)
       \<lparr>lf_op := None, lf_after_exit := lf_after_exit s + (if who = ByTimer then 1 else 0)\<rparr>"

text \<open>\<open>handle_exit\<close>: the run's end is published, and a task for the restart policy made.\<close>

definition handle_exit :: "int \<Rightarrow> bool \<Rightarrow> LifeState \<Rightarrow> LifeState" where
  "handle_exit code unmounted s =
     (upd (\<lambda>p. p\<lparr>ps_status := (if unmounted then Exited else Dead), ps_exit_code := Some code\<rparr>) s)
       \<lparr>lf_exits := lf_exits s + 1, lf_monitors := lf_monitors s - 1, lf_after_exit := lf_after_exit s + 1\<rparr>"

text \<open>\<open>schedule_restart\<close>, with the delay the timer sleeps for.\<close>

definition schedule_restart :: "nat \<Rightarrow> LifeState \<Rightarrow> LifeState" where
  "schedule_restart delay s = (upd (\<lambda>p. p\<lparr>ps_status := Restarting\<rparr>) s)\<lparr>lf_timer := True, lf_delay := delay\<rparr>"

definition begin_removal :: "LifeState \<Rightarrow> LifeState" where
  "begin_removal s = (upd (\<lambda>p. p\<lparr>ps_status := Removing\<rparr>) s)\<lparr>lf_op := Some RemovingFiles\<rparr>"

definition after_exit :: "RestartPolicy \<Rightarrow> bool \<Rightarrow> nat option \<Rightarrow> LifeState \<Rightarrow> LifeState" where
  "after_exit policy auto_remove ran_for s =
     (let s = s\<lparr>lf_after_exit := lf_after_exit s - 1\<rparr> in
      if status s \<noteq> Exited \<or> lf_removed s then s
      else if auto_remove then begin_removal s
      else if \<not> should_restart policy (lf_p s) then s
      else case backoff_delay ran_for (lf_backoff s) of
             (delay, later) \<Rightarrow> schedule_restart delay (s\<lparr>lf_backoff := later\<rparr>))"

text \<open>The timer of a restart.\<close>

definition timer_fires :: "LifeState \<Rightarrow> LifeState" where
  "timer_fires s =
     (let s = s\<lparr>lf_timer := False\<rparr> in
      if status s \<noteq> Restarting then s
      else (upd (\<lambda>p. p\<lparr>ps_restart_count := ps_restart_count p + 1\<rparr>) s)\<lparr>lf_op := Some (Starting ByTimer)\<rparr>)"

text \<open>\<open>stop_locked\<close> up to where it waits for the exit; then the end of \<open>stop\<close>, or the rest of \<open>restart\<close>.\<close>

definition after_stop :: "bool \<Rightarrow> LifeState \<Rightarrow> LifeState" where
  "after_stop restart s = (if restart then reset_policy s else s\<lparr>lf_op := None\<rparr>)"

definition stop_locked :: "bool \<Rightarrow> LifeState \<Rightarrow> LifeState" where
  "stop_locked restart s =
     (if is_live (status s) then
        (upd (\<lambda>p. p\<lparr>ps_manually_stopped := True\<rparr>) s)\<lparr>lf_op := Some (Stopping restart (lf_exits s))\<rparr>
      else if status s = Restarting then
        after_stop restart (upd (\<lambda>p. p\<lparr>ps_status := Exited, ps_manually_stopped := True\<rparr>) (cancel_restart s))
      else after_stop restart s)"

text \<open>\<open>kill\<close>; \<open>stops\<close> tells whether the signal is KILL or the stop signal.\<close>

definition life_kill :: "bool \<Rightarrow> LifeState \<Rightarrow> LifeState option" where
  "life_kill stops s =
     (if \<not> is_live (status s) then None
      else Some (if stops then upd (\<lambda>p. p\<lparr>ps_manually_stopped := True\<rparr>) s else s))"

definition life_pause :: "bool \<Rightarrow> LifeState \<Rightarrow> LifeState option" where
  "life_pause pause s =
     (let (from', to) = (if pause then (Running, Paused) else (Paused, Running))
      in if status s \<noteq> from' then None else Some (s\<lparr>lf_op := Some (Pausing from' to)\<rparr>))"

definition pause_ends :: "ContainerStatus \<Rightarrow> ContainerStatus \<Rightarrow> bool \<Rightarrow> LifeState \<Rightarrow> LifeState" where
  "pause_ends from' to ok s =
     (let s = s\<lparr>lf_op := None\<rparr> in
      if ok \<and> status s = from' then upd (\<lambda>p. p\<lparr>ps_status := to\<rparr>) s else s)"

definition life_remove :: "bool \<Rightarrow> LifeState \<Rightarrow> LifeState option" where
  "life_remove force s =
     (if is_live (status s) then
        (if \<not> force then None
         else Some ((upd (\<lambda>p. p\<lparr>ps_manually_stopped := True\<rparr>) s)\<lparr>lf_op := Some (RemoveKilling (lf_exits s))\<rparr>))
      else Some (begin_removal (if status s = Restarting then cancel_restart s else s)))"

definition removal_ends :: "bool \<Rightarrow> LifeState \<Rightarrow> LifeState" where
  "removal_ends ok s =
     (if ok then s\<lparr>lf_op := None, lf_removed := True\<rparr>
      else (upd (\<lambda>p. p\<lparr>ps_status := Dead\<rparr>) s)\<lparr>lf_op := None\<rparr>)"

section \<open>Steps\<close>

datatype LifeEvent =
    EvStart | EvStartOk | EvStartFails
  | EvExit int bool
  | EvAfterExit "nat option"
  | EvTimer
  | EvStop | EvRestart | EvStopEnds | EvStopGivesUp
  | EvKill bool
  | EvPause bool | EvPauseEnds bool
  | EvRemove bool | EvRemoveKilled | EvRemoveGivesUp | EvRemoved bool

inductive life_step :: "RestartPolicy \<Rightarrow> bool \<Rightarrow> LifeState \<Rightarrow> LifeEvent \<Rightarrow> LifeState \<Rightarrow> bool" for policy auto_remove where
  st_start: "lf_op s = None \<Longrightarrow> \<not> lf_removed s \<Longrightarrow> life_start s = Some t \<Longrightarrow> life_step policy auto_remove s EvStart t"
| st_start_ok: "lf_op s = Some (Starting who) \<Longrightarrow> life_step policy auto_remove s EvStartOk (start_succeeds s)"
| st_start_fails: "lf_op s = Some (Starting who) \<Longrightarrow> life_step policy auto_remove s EvStartFails (start_fails who s)"
| st_exit: "lf_monitors s > 0 \<Longrightarrow> life_step policy auto_remove s (EvExit code unmounted) (handle_exit code unmounted s)"
| st_after_exit: "lf_op s = None \<Longrightarrow> lf_after_exit s > 0 \<Longrightarrow>
    life_step policy auto_remove s (EvAfterExit ran_for) (after_exit policy auto_remove ran_for s)"
| st_timer: "lf_op s = None \<Longrightarrow> lf_timer s \<Longrightarrow> life_step policy auto_remove s EvTimer (timer_fires s)"
| st_stop: "lf_op s = None \<Longrightarrow> \<not> lf_removed s \<Longrightarrow> life_step policy auto_remove s EvStop (stop_locked False s)"
| st_restart: "lf_op s = None \<Longrightarrow> \<not> lf_removed s \<Longrightarrow>
    life_step policy auto_remove s EvRestart (stop_locked True s)"
| st_stop_ends: "lf_op s = Some (Stopping restart exits) \<Longrightarrow> lf_exits s > exits \<or> lf_removed s \<Longrightarrow>
    life_step policy auto_remove s EvStopEnds (after_stop restart s)"
| st_stop_gives_up: "lf_op s = Some (Stopping restart exits) \<Longrightarrow> life_step policy auto_remove s EvStopGivesUp (s\<lparr>lf_op := None\<rparr>)"
| st_kill: "\<not> lf_removed s \<Longrightarrow> life_kill stops s = Some t \<Longrightarrow> life_step policy auto_remove s (EvKill stops) t"
| st_pause: "lf_op s = None \<Longrightarrow> \<not> lf_removed s \<Longrightarrow> life_pause pause s = Some t \<Longrightarrow> life_step policy auto_remove s (EvPause pause) t"
| st_pause_ends: "lf_op s = Some (Pausing from' to) \<Longrightarrow>
    life_step policy auto_remove s (EvPauseEnds ok) (pause_ends from' to ok s)"
| st_remove: "lf_op s = None \<Longrightarrow> \<not> lf_removed s \<Longrightarrow> life_remove force s = Some t \<Longrightarrow> life_step policy auto_remove s (EvRemove force) t"
| st_remove_killed: "lf_op s = Some (RemoveKilling exits) \<Longrightarrow> lf_exits s > exits \<or> lf_removed s \<Longrightarrow>
    life_step policy auto_remove s EvRemoveKilled (begin_removal s)"
| st_remove_gives_up: "lf_op s = Some (RemoveKilling exits) \<Longrightarrow> life_step policy auto_remove s EvRemoveGivesUp (s\<lparr>lf_op := None\<rparr>)"
| st_removed: "lf_op s = Some RemovingFiles \<Longrightarrow> life_step policy auto_remove s (EvRemoved ok) (removal_ends ok s)"

inductive life_steps :: "RestartPolicy \<Rightarrow> bool \<Rightarrow> LifeState \<Rightarrow> LifeEvent list \<Rightarrow> LifeState \<Rightarrow> bool" for policy auto_remove where
  steps_Nil: "life_steps policy auto_remove s [] s"
| steps_snoc: "life_steps policy auto_remove s es t \<Longrightarrow> life_step policy auto_remove t e u \<Longrightarrow>
    life_steps policy auto_remove s (es @ [e]) u"

inductive_cases life_steps_NilE: "life_steps policy auto_remove s [] t"

end
