(* ===== verification/LifecycleCorrect.thy ===== *)
theory LifecycleCorrect
  imports Lifecycle
begin

text \<open>
  The daemon's containers, correct: an invariant of every state they can get to, by rule induction over the steps;
  that a stop lasts and a crash is restarted as the policy says; the round trip of restart policies; the delays.
\<close>

section \<open>The invariant\<close>

definition within_limit :: "RestartPolicy \<Rightarrow> nat \<Rightarrow> bool" where
  "within_limit policy n \<longleftrightarrow> rp_name policy = PolicyOnFailure \<and> rp_max_retries policy \<noteq> 0 \<longrightarrow> n \<le> rp_max_retries policy"

text \<open>What the lock holder relies on.\<close>

definition activity_ok :: "LifeState \<Rightarrow> bool" where
  "activity_ok s =
     (case lf_op s of
        None \<Rightarrow> True
      | Some (Starting by) \<Rightarrow> \<not> is_live (status s) \<and> (by = ByTimer \<longrightarrow> status s = Restarting \<and> \<not> ps_manually_stopped (lf_p s))
      | Some (Stopping _ n) \<Rightarrow> ps_manually_stopped (lf_p s) \<and> n \<le> lf_exits s \<and> (is_live (status s) \<longleftrightarrow> lf_exits s = n) \<and> status s \<noteq> Restarting
      | Some (Pausing a b) \<Rightarrow> is_live a \<and> is_live b \<and> status s \<noteq> Restarting
      | Some (RemoveKilling n) \<Rightarrow> n \<le> lf_exits s \<and> (is_live (status s) \<longleftrightarrow> lf_exits s = n) \<and> status s \<noteq> Restarting
      | Some RemovingFiles \<Rightarrow> status s = Removing)"

definition life_ok :: "RestartPolicy \<Rightarrow> bool \<Rightarrow> LifeState \<Rightarrow> bool" where
  "life_ok policy auto_remove s \<longleftrightarrow>
     lf_monitors s = (if is_live (status s) then 1 else 0) \<and>
     (lf_timer s \<longrightarrow> lf_op s = None \<and> status s = Restarting \<and> \<not> ps_manually_stopped (lf_p s) \<and> rp_name policy \<noteq> PolicyNo \<and>
        \<not> auto_remove \<and> within_limit policy (ps_restart_count (lf_p s) + 1)) \<and>
     (status s = Restarting \<longrightarrow> lf_timer s \<or> (\<exists>by. lf_op s = Some (Starting by))) \<and>
     (lf_removed s \<longrightarrow> status s = Removing \<and> lf_op s = None \<and> lf_monitors s = 0) \<and>
     (status s = Removing \<and> \<not> lf_removed s \<longrightarrow> lf_op s = Some RemovingFiles) \<and>
     within_limit policy (ps_restart_count (lf_p s)) \<and> activity_ok s"

lemmas life_handlers = life_start_def reset_policy_def cancel_restart_def start_succeeds_def start_fails_def handle_exit_def
  schedule_restart_def begin_removal_def after_exit_def timer_fires_def after_stop_def stop_locked_def life_kill_def life_pause_def
  pause_ends_def life_remove_def removal_ends_def upd_def is_live_def Let_def

lemma life_ok_new: "life_ok policy auto_remove Container_new"
  by (simp add: life_ok_def Container_new_def activity_ok_def within_limit_def is_live_def)

lemmas life_unfold = life_ok_def activity_ok_def within_limit_def life_handlers

text \<open>Only these parts of the state matter to it.\<close>

lemma life_ok_cong:
  assumes "life_ok policy auto_remove s" and "lf_monitors t = lf_monitors s" and "status t = status s" and "lf_timer t = lf_timer s"
    and "lf_op t = lf_op s" and "lf_removed t = lf_removed s" and "ps_restart_count (lf_p t) = ps_restart_count (lf_p s)"
    and "\<not> lf_timer s \<or> ps_manually_stopped (lf_p t) = ps_manually_stopped (lf_p s)" and "activity_ok t"
  shows "life_ok policy auto_remove t"
proof -
  have "lf_timer s \<Longrightarrow> \<not> ps_manually_stopped (lf_p s)" using assms(1) unfolding life_ok_def by blast
  then have "lf_timer s \<Longrightarrow> \<not> ps_manually_stopped (lf_p t)" using assms(8) by blast
  then show ?thesis using assms(1,9) unfolding life_ok_def assms(2-7) by blast
qed

lemma activity_ok_after_exit: "activity_ok (s\<lparr>lf_after_exit := n\<rparr>) = activity_ok s"
  unfolding activity_ok_def by (simp split: option.split Activity.split)

text \<open>An exit ends the run, whoever holds the lock.\<close>

lemma handle_exit_ok:
  assumes "life_ok policy auto_remove s" and "lf_monitors s > 0"
  shows "life_ok policy auto_remove (handle_exit code unmounted s)"
proof -
  have live: "is_live (status s)" "lf_monitors s = 1" "\<not> lf_timer s" "\<not> lf_removed s"
    using assms by (auto simp: life_ok_def is_live_def split: if_splits)
  then have "activity_ok (handle_exit code unmounted s)"
    using assms(1) by (cases "lf_op s"; cases "the (lf_op s)") (auto simp: life_ok_def activity_ok_def handle_exit_def upd_def is_live_def)
  then show ?thesis
    using live assms(1) by (simp add: life_ok_def handle_exit_def upd_def is_live_def within_limit_def)
qed

lemma after_exit_ok:
  assumes "life_ok policy auto_remove s" and "lf_op s = None"
  shows "life_ok policy auto_remove (after_exit policy auto_remove ran_for s)"
proof (cases "status s = Exited \<and> \<not> lf_removed s")
  case False
  then have "after_exit policy auto_remove ran_for s = s\<lparr>lf_after_exit := lf_after_exit s - 1\<rparr>"
    by (simp add: after_exit_def Let_def)
  moreover have "life_ok policy auto_remove (s\<lparr>lf_after_exit := lf_after_exit s - 1\<rparr>)"
    by (rule life_ok_cong [OF assms(1)]) (use assms(1) in \<open>simp_all add: activity_ok_after_exit life_ok_def\<close>)
  ultimately show ?thesis by simp
next
  case True
  then show ?thesis
  proof (cases "auto_remove \<or> \<not> should_restart policy (lf_p s)")
    case False
    then have "rp_name policy \<noteq> PolicyNo" "\<not> ps_manually_stopped (lf_p s)" "within_limit policy (ps_restart_count (lf_p s) + 1)"
      by (auto simp: should_restart_def within_limit_def split: if_splits RestartPolicyName.splits)
    moreover obtain delay later where "backoff_delay ran_for (lf_backoff s) = (delay, later)" by (metis surj_pair)
    ultimately show ?thesis using assms True False
      by (simp add: life_ok_def activity_ok_def after_exit_def schedule_restart_def upd_def is_live_def Let_def)
  next
    case skip: True
    then show ?thesis using assms True
      by (cases auto_remove) (simp_all add: life_ok_def activity_ok_def after_exit_def begin_removal_def upd_def is_live_def Let_def)
  qed
qed

lemma kill_ok:
  assumes "life_ok policy auto_remove s" and "life_kill stops s = Some t"
  shows "life_ok policy auto_remove t"
proof -
  have live: "is_live (status s)" "t = (if stops then upd (\<lambda>p. p\<lparr>ps_manually_stopped := True\<rparr>) s else s)"
    using assms(2) by (auto simp: life_kill_def split: if_splits)
  have "activity_ok s" using assms(1) unfolding life_ok_def by blast
  then have "activity_ok t"
    using live unfolding activity_ok_def
    by (cases "lf_op s"; cases "the (lf_op s)") (simp_all add: upd_def)
  moreover have "\<not> lf_timer s" using live assms(1) by (auto simp: life_ok_def is_live_def)
  ultimately show ?thesis using live(2) by (intro life_ok_cong [OF assms(1)]) (simp_all add: upd_def)
qed

text \<open>A removal: of a live container it waits for the exit, and of any other it goes on.\<close>

lemma begin_removal_ok:
  assumes "life_ok policy auto_remove s" and "\<not> is_live (status s)" and "\<not> lf_timer s" and "\<not> lf_removed s"
  shows "life_ok policy auto_remove (begin_removal s)"
  using assms unfolding life_ok_def begin_removal_def upd_def activity_ok_def is_live_def by simp

lemma remove_ok:
  assumes "life_ok policy auto_remove s" and "lf_op s = None" and "\<not> lf_removed s" and "life_remove force s = Some t"
  shows "life_ok policy auto_remove t"
proof (cases "is_live (status s)")
  case True
  then have "t = (upd (\<lambda>p. p\<lparr>ps_manually_stopped := True\<rparr>) s)\<lparr>lf_op := Some (RemoveKilling (lf_exits s))\<rparr>"
    using assms(4) by (simp add: life_remove_def split: if_splits)
  moreover have "\<not> lf_timer s" "status s \<noteq> Restarting" "status s \<noteq> Removing" using assms(1) True by (auto simp: life_ok_def is_live_def)
  ultimately show ?thesis using assms(1,3) True unfolding life_ok_def activity_ok_def upd_def by simp
next
  case False
  have restarting: "status s \<noteq> Restarting \<Longrightarrow> \<not> lf_timer s" using assms(1) by (auto simp: life_ok_def)
  have "t = begin_removal (if status s = Restarting then cancel_restart s else s)"
    using assms(4) False by (simp add: life_remove_def)
  moreover have "begin_removal (cancel_restart s) = (begin_removal s)\<lparr>lf_timer := False\<rparr>"
    by (simp add: begin_removal_def cancel_restart_def upd_def)
  moreover have "life_ok policy auto_remove ((begin_removal s)\<lparr>lf_timer := False\<rparr>)"
    using assms(1,3) False unfolding life_ok_def begin_removal_def upd_def activity_ok_def is_live_def by simp
  ultimately show ?thesis using begin_removal_ok [OF assms(1) False _ assms(3)] restarting by (cases "status s = Restarting") simp_all
qed

lemma life_step_ok:
  assumes "life_step policy auto_remove s e t" and "life_ok policy auto_remove s"
  shows "life_ok policy auto_remove t"
  using assms
proof (cases rule: life_step.cases)
  case st_exit
  then show ?thesis using handle_exit_ok assms(2) by blast
next
  case st_after_exit
  then show ?thesis using after_exit_ok assms(2) by blast
next
  case st_kill
  then show ?thesis using kill_ok assms(2) by blast
next
  case st_start
  then show ?thesis using assms(2) by (auto simp: life_unfold split: if_splits)
next
  case st_start_ok
  then show ?thesis using assms(2) by (auto simp: life_unfold split: if_splits)
next
  case st_start_fails
  then show ?thesis using assms(2) by (auto simp: life_unfold split: if_splits)
next
  case st_timer
  then show ?thesis using assms(2) by (auto simp: life_unfold split: if_splits)
next
  case st_stop
  then show ?thesis using assms(2) by (auto simp: life_unfold split: if_splits)
next
  case st_restart
  then show ?thesis using assms(2) by (auto simp: life_unfold split: if_splits)
next
  case st_stop_ends
  then show ?thesis using assms(2) by (auto simp: life_unfold split: if_splits)
next
  case st_stop_gives_up
  then show ?thesis using assms(2) by (auto simp: life_unfold split: if_splits)
next
  case st_pause
  then show ?thesis using assms(2) by (auto simp: life_unfold split: if_splits)
next
  case st_pause_ends
  then show ?thesis using assms(2) by (auto simp: life_unfold split: if_splits)
next
  case (st_remove force)
  then show ?thesis using remove_ok assms(2) by blast
next
  case (st_remove_killed exits)
  then show ?thesis using assms(2) by (cases "status s") (simp_all add: life_unfold)
next
  case (st_remove_gives_up exits)
  then show ?thesis using assms(2) by (cases "status s") (auto simp: life_unfold)
next
  case (st_removed ok)
  then show ?thesis using assms(2) by (cases ok) (simp_all add: life_unfold)
qed

section \<open>Reachable states\<close>

lemma life_steps_ok:
  assumes "life_steps policy auto_remove s es t" and "life_ok policy auto_remove s"
  shows "life_ok policy auto_remove t"
  using assms by (induction rule: life_steps.induct) (auto intro: life_step_ok)

lemmas life_reachable_ok = life_steps_ok [OF _ life_ok_new]

lemma life_steps_append:
  assumes "life_steps policy auto_remove t es' u" and "life_steps policy auto_remove s es t"
  shows "life_steps policy auto_remove s (es @ es') u"
  using assms
proof (induction rule: life_steps.induct)
  case (steps_snoc t' es' t'' e u)
  then show ?case using life_steps.steps_snoc [of policy auto_remove s "es @ es'" t'' e u] by simp
qed simp

lemma steps_one: "life_step policy auto_remove s e t \<Longrightarrow> life_steps policy auto_remove s [e] t"
  using life_steps.steps_snoc [OF life_steps.steps_Nil] by fastforce

lemma steps_Cons:
  "life_step policy auto_remove s e t \<Longrightarrow> life_steps policy auto_remove t es u \<Longrightarrow> life_steps policy auto_remove s (e # es) u"
  using life_steps_append [OF _ steps_one] by fastforce

section \<open>A container that was stopped\<close>

text \<open>Stopped, and nothing under way that would start it.\<close>

definition at_rest :: "LifeState \<Rightarrow> bool" where
  "at_rest s \<longleftrightarrow> ps_manually_stopped (lf_p s) \<and> \<not> is_live (status s) \<and> status s \<noteq> Restarting \<and> \<not> lf_timer s \<and> lf_monitors s = 0 \<and>
     (lf_op s = None \<or> lf_op s = Some RemovingFiles)"

lemma at_rest_step:
  assumes "life_step policy auto_remove s e t" and "e \<noteq> EvStart" and "e \<noteq> EvRestart" and "at_rest s"
  shows "at_rest t"
  using assms
proof (cases rule: life_step.cases)
  case (st_after_exit ran_for)
  then show ?thesis using assms(4)
    by (simp add: at_rest_def after_exit_def should_restart_def begin_removal_def upd_def is_live_def Let_def)
next
  case st_stop
  then show ?thesis using assms(4) by (simp add: at_rest_def stop_locked_def after_stop_def)
next
  case (st_kill stops)
  then show ?thesis using assms(4) by (simp add: at_rest_def life_kill_def)
next
  case (st_pause pause)
  then show ?thesis using assms(4) by (simp add: at_rest_def life_pause_def is_live_def split: if_splits)
next
  case (st_remove force)
  then show ?thesis using assms(4)
    by (simp add: at_rest_def life_remove_def begin_removal_def upd_def is_live_def) auto
next
  case (st_removed ok)
  then show ?thesis using assms(4) by (simp add: at_rest_def removal_ends_def upd_def is_live_def)
qed (use assms(2-4) in \<open>simp_all add: at_rest_def\<close>)

lemma at_rest_steps:
  assumes "life_steps policy auto_remove s es t" and "EvStart \<notin> set es" and "EvRestart \<notin> set es" and "at_rest s"
  shows "at_rest t"
  using assms
proof (induction rule: life_steps.induct)
  case (steps_snoc s es t e u)
  then show ?case using at_rest_step [OF steps_snoc.hyps(2)] by auto
qed

lemma stopped_at_rest:
  assumes "life_ok policy auto_remove s" and "lf_op s = None" and "ps_manually_stopped (lf_p s)" and "\<not> is_live (status s)"
  shows "at_rest s"
proof -
  have "\<not> lf_timer s" "lf_monitors s = 0" using assms unfolding life_ok_def by auto
  moreover have "status s \<noteq> Restarting" using assms(1,2) calculation unfolding life_ok_def by auto
  ultimately show ?thesis using assms by (simp add: at_rest_def)
qed

section \<open>A container that ended on its own\<close>

text \<open>The steps the daemon takes by itself: the policy is applied, the timer fires, the start succeeds.\<close>

definition own_step :: "LifeEvent \<Rightarrow> bool" where
  "own_step e = (case e of EvAfterExit _ \<Rightarrow> True | EvTimer \<Rightarrow> True | EvStartOk \<Rightarrow> True | _ \<Rightarrow> False)"

text \<open>Where they can have got to from the exit, after which nothing else was to be done: \<open>n\<close> restarts were counted before.\<close>

definition coming_back :: "nat \<Rightarrow> LifeState \<Rightarrow> bool" where
  "coming_back n t \<longleftrightarrow>
     status t = Restarting \<and> lf_op t = None \<and> lf_timer t \<and> ps_restart_count (lf_p t) = n \<or>
     lf_op t = Some (Starting ByTimer) \<and> \<not> lf_timer t \<and> ps_restart_count (lf_p t) = n + 1 \<or>
     status t = Running \<and> lf_op t = None \<and> \<not> lf_timer t \<and> ps_restart_count (lf_p t) = n + 1"

definition steps_left :: "LifeState \<Rightarrow> nat" where
  "steps_left t = lf_after_exit t + (if lf_timer t then 2 else if lf_op t = None then 0 else 1)"

lemma coming_back_step:
  assumes "life_step policy False t e u" "own_step e" "coming_back n t"
  shows "coming_back n u \<and> Suc (steps_left u) = steps_left t \<and> lf_delay u = lf_delay t \<and> lf_backoff u = lf_backoff t"
  using assms(1)
proof (cases rule: life_step.cases)
  case (st_after_exit ran_for)
  then show ?thesis using assms(3) by (auto simp: coming_back_def after_exit_def steps_left_def Let_def)
next
  case st_timer
  then show ?thesis using assms(3) by (auto simp: coming_back_def timer_fires_def steps_left_def upd_def Let_def)
next
  case (st_start_ok who)
  then show ?thesis using assms(3) by (auto simp: coming_back_def start_succeeds_def steps_left_def upd_def)
qed (use assms(2) in \<open>simp_all add: own_step_def\<close>)

lemma coming_back_ends:
  assumes "coming_back n t" "\<forall>e u. own_step e \<longrightarrow> \<not> life_step policy False t e u"
  shows "status t = Running \<and> ps_restart_count (lf_p t) = n + 1"
proof -
  have "\<not> (lf_op t = None \<and> lf_timer t)" using assms(2) st_timer[of t policy False] by (auto simp: own_step_def)
  moreover have "lf_op t \<noteq> Some (Starting ByTimer)" using assms(2) st_start_ok[of t ByTimer policy False] by (auto simp: own_step_def)
  ultimately show ?thesis using assms(1) by (auto simp: coming_back_def)
qed

text \<open>The exit, and what the daemon does by itself from there.\<close>

definition crashed :: "LifeState \<Rightarrow> bool" where
  "crashed a \<longleftrightarrow> status a = Exited \<and> lf_op a = None \<and> \<not> lf_timer a \<and> \<not> lf_removed a \<and> 0 < lf_after_exit a"

lemma crashed_exit:
  assumes "life_ok policy False s" "status s = Running" "lf_op s = None"
  shows "crashed (handle_exit code True s)"
  using assms by (auto simp: life_ok_def crashed_def handle_exit_def upd_def is_live_def)

lemma crashed_runs:
  assumes "crashed a" "life_steps policy False a es t" "list_all own_step es"
  shows "if should_restart policy (lf_p a)
    then es = [] \<and> t = a \<or>
      (\<exists>r es'. es = EvAfterExit r # es' \<and> coming_back (ps_restart_count (lf_p a)) t \<and> length es + steps_left t = lf_after_exit a + 2 \<and>
         (lf_delay t, lf_backoff t) = backoff_delay r (lf_backoff a))
    else status t = Exited \<and> lf_op t = None \<and> \<not> lf_timer t \<and> \<not> lf_removed t \<and> lf_p t = lf_p a \<and>
      length es + lf_after_exit t = lf_after_exit a"
  using assms(2,1,3)
proof (induction rule: life_steps.induct)
  case (steps_Nil a)
  then show ?case by (simp add: crashed_def)
next
  case (steps_snoc a es t e u)
  have own: "own_step e" "list_all own_step es" using steps_snoc.prems(2) by simp_all
  note ih = steps_snoc.IH[OF steps_snoc.prems(1) own(2)]
  show ?case
  proof (cases "should_restart policy (lf_p a)")
    case False
    then have t: "status t = Exited" "lf_op t = None" "\<not> lf_timer t" "\<not> lf_removed t" "lf_p t = lf_p a"
        "length es + lf_after_exit t = lf_after_exit a" using ih unfolding if_not_P[OF False] by blast+
    from steps_snoc.hyps(2) show ?thesis
      by (cases rule: life_step.cases) (use own(1) t False in \<open>auto simp: own_step_def after_exit_def Let_def\<close>)
  next
    case True
    show ?thesis
    proof (cases "es = []")
      case False
      then obtain r es' where es: "es = EvAfterExit r # es'" "coming_back (ps_restart_count (lf_p a)) t"
          "length es + steps_left t = lf_after_exit a + 2" "(lf_delay t, lf_backoff t) = backoff_delay r (lf_backoff a)"
        using ih True by auto
      then show ?thesis using True coming_back_step[OF steps_snoc.hyps(2) own(1) es(2)] by auto
    next
      case Nil: True
      then have t: "t = a" using ih True by simp
      from steps_snoc.hyps(2) show ?thesis
        by (cases rule: life_step.cases)
          (use own(1) t steps_snoc.prems(1) True Nil in
            \<open>auto simp: own_step_def crashed_def after_exit_def schedule_restart_def coming_back_def steps_left_def upd_def Let_def split: prod.splits\<close>)
    qed
  qed
qed

section \<open>Delays and policies\<close>

text \<open>The delays of restarts in a row, when no run lasts: the first, doubled each time, up to the largest.\<close>

definition delay_after :: "nat \<Rightarrow> nat" where
  "delay_after n = ((\<lambda>d. snd (backoff_delay (Some 0) d)) ^^ n) BACKOFF_INITIAL"

lemma backoff_doubles: "delay_after n = min (BACKOFF_INITIAL * 2 ^ n) BACKOFF_MAX"
proof (induction n)
  case (Suc n)
  have "delay_after (Suc n) = min (delay_after n * 2) BACKOFF_MAX"
    by (simp add: delay_after_def backoff_delay_def BACKOFF_RESET_AFTER_def)
  then show ?case using Suc by (simp add: min_def BACKOFF_MAX_def BACKOFF_INITIAL_def)
qed (simp add: delay_after_def BACKOFF_INITIAL_def BACKOFF_MAX_def)

text \<open>A policy as the parser makes it: a count only with on-failure.\<close>

definition policy_ok :: "RestartPolicy \<Rightarrow> bool" where
  "policy_ok p \<longleftrightarrow> rp_max_retries p < 2 ^ 32 \<and> (rp_name p \<noteq> PolicyOnFailure \<longrightarrow> rp_max_retries p = 0)"

lemma parsed_policy_ok: "RestartPolicy_parse s = Inr p \<Longrightarrow> policy_ok p"
  by (auto simp: RestartPolicy_parse_def policy_ok_def Let_def dest: parse_uint_bound split: option.splits prod.splits if_splits)

lemma policy_roundtrip:
  assumes "policy_ok p"
  shows "RestartPolicy_parse (RestartPolicy_fmt p) = Inr p"
proof -
  have count: "split_once (CHR '':'') (''on-failure:'' @ dec n) = Some (''on-failure'', dec n)" for n
    by simp
  show ?thesis using assms by (cases p; cases "rp_name p")
    (auto simp: RestartPolicy_parse_def RestartPolicy_fmt_def policy_ok_def count Let_def)
qed

section \<open>What the daemon promises\<close>

text \<open>C29: In every state a container can get to, whatever happens and in whatever order, the daemon watches exactly one
  run while the container is live and none otherwise; a container that is restarting has its timer, or a start that
  is going on; a timer only waits, or starts the container, if nobody stopped it; and with on-failure:N the policy
  never restarts it more than N times.\<close>

theorem life_invariant:
  assumes "life_steps policy auto_remove Container_new es s"
  shows "lf_monitors s = (if is_live (status s) then 1 else 0) \<and>
    (status s = Restarting \<longrightarrow> lf_timer s \<or> (\<exists>who. lf_op s = Some (Starting who))) \<and>
    (lf_timer s \<or> lf_op s = Some (Starting ByTimer) \<longrightarrow> status s = Restarting \<and> \<not> ps_manually_stopped (lf_p s)) \<and>
    (rp_name policy = PolicyOnFailure \<and> rp_max_retries policy \<noteq> 0 \<longrightarrow> ps_restart_count (lf_p s) \<le> rp_max_retries policy)"
proof -
  have ok: "life_ok policy auto_remove s" using life_reachable_ok [OF assms] .
  then have "activity_ok s" unfolding life_ok_def by blast
  then have "lf_op s = Some (Starting ByTimer) \<longrightarrow> status s = Restarting \<and> \<not> ps_manually_stopped (lf_p s)"
    unfolding activity_ok_def by auto
  then show ?thesis using ok unfolding life_ok_def within_limit_def by blast
qed

text \<open>C30: A container that was stopped (the operation is over and recorded the stop) is not live again, nor restarted by
  its policy, until somebody asks for a start or a restart.\<close>

theorem stopped_stays_stopped:
  assumes "life_steps policy auto_remove Container_new es s" and "lf_op s = None" and "ps_manually_stopped (lf_p s)"
    and "\<not> is_live (status s)" and "life_steps policy auto_remove s es' t" and "EvStart \<notin> set es'" and "EvRestart \<notin> set es'"
  shows "\<not> is_live (status t) \<and> \<not> lf_timer t \<and> status t \<noteq> Restarting"
  using at_rest_steps [OF assms(5-7) stopped_at_rest [OF life_reachable_ok [OF assms(1)] assms(2-4)]] by (simp add: at_rest_def)

text \<open>C31: a container that ends on its own while no operation runs on it comes back exactly if its policy says so: with \<open>always\<close> and
  \<open>unless-stopped\<close>, and with \<open>on-failure\<close> if the exit code is not zero and fewer restarts than its count were made, and never
  after a stop. If so, whatever of its own steps the daemon takes, and in whatever order, there are few of them, and when
  none is left the container runs and one more restart is counted; the timer's delay is the next one in turn, or the
  first (100 ms) again after a run of ten seconds, and the one after that is twice as long, up to a minute. If not, it stays
  exited. (A start that fails, another exit and what users ask for are not steps of its own.)\<close>

theorem crash_follows_policy:
  assumes "life_steps policy False Container_new es\<^sub>0 s" "status s = Running" "lf_op s = None"
    and "life_steps policy False (handle_exit code True s) es t" "list_all own_step es"
  defines "due \<equiv> \<not> ps_manually_stopped (lf_p s) \<and>
      (rp_name policy = PolicyAlways \<or> rp_name policy = PolicyUnlessStopped \<or>
       rp_name policy = PolicyOnFailure \<and> code \<noteq> 0 \<and>
         (rp_max_retries policy = 0 \<or> ps_restart_count (lf_p s) < rp_max_retries policy))"
  shows "length es \<le> lf_after_exit s + 3 \<and>
    (due \<longrightarrow>
      ((\<forall>e u. own_step e \<longrightarrow> \<not> life_step policy False t e u) \<longrightarrow>
         status t = Running \<and> ps_restart_count (lf_p t) = ps_restart_count (lf_p s) + 1) \<and>
      (\<forall>ran_for es'. es = EvAfterExit ran_for # es' \<longrightarrow>
         lf_delay t = (if \<exists>ms. ran_for = Some ms \<and> 10000 \<le> ms then 100 else lf_backoff s) \<and>
         lf_backoff t = min (2 * lf_delay t) 60000)) \<and>
    (\<not> due \<longrightarrow> status t = Exited \<and> lf_op t = None \<and> \<not> lf_timer t)"
proof -
  define a where "a = handle_exit code True s"
  have a: "lf_after_exit a = lf_after_exit s + 1" "ps_restart_count (lf_p a) = ps_restart_count (lf_p s)" "lf_backoff a = lf_backoff s"
    by (simp_all add: a_def handle_exit_def upd_def)
  have due: "should_restart policy (lf_p a) \<longleftrightarrow> due"
    by (cases "rp_name policy") (auto simp: due_def a_def handle_exit_def upd_def should_restart_def)
  have crashed: "crashed a" unfolding a_def by (rule crashed_exit[OF life_reachable_ok[OF assms(1)] assms(2,3)])
  note runs = crashed_runs[OF crashed assms(4)[folded a_def] assms(5)]
  have "0 < lf_after_exit a \<and> lf_op a = None" using crashed by (simp add: crashed_def)
  then have stuck: "\<not> (\<forall>e u. own_step e \<longrightarrow> \<not> life_step policy False a e u)"
    using st_after_exit[of a policy False None] own_step_def[of "EvAfterExit None"] by fastforce
  show ?thesis
  proof (cases due)
    case False
    then show ?thesis using runs due a(1) by auto
  next
    case True
    then consider "es = []" "t = a" | r es' where "es = EvAfterExit r # es'" "coming_back (ps_restart_count (lf_p a)) t"
        "length es + steps_left t = lf_after_exit a + 2" "(lf_delay t, lf_backoff t) = backoff_delay r (lf_backoff a)"
      using runs due by auto
    then show ?thesis
    proof cases
      case 1
      then show ?thesis using True stuck by auto
    next
      case (2 r es')
      have delay: "lf_delay t = (if \<exists>ms. r = Some ms \<and> 10000 \<le> ms then 100 else lf_backoff s) \<and> lf_backoff t = min (2 * lf_delay t) 60000"
        using 2(4) a(3)
        by (cases r) (auto simp: backoff_delay_def BACKOFF_RESET_AFTER_def BACKOFF_INITIAL_def BACKOFF_MAX_def mult.commute Let_def split: if_splits)
      show ?thesis using True 2(1,3) delay a(1,2) coming_back_ends[OF 2(2), of policy] by simp
    qed
  qed
qed

section \<open>A run\<close>

definition always :: RestartPolicy where "always = \<lparr>rp_name = PolicyAlways, rp_max_retries = 0\<rparr>"

definition running :: LifeState where
  "running = start_succeeds (reset_policy Container_new)"

lemma running_steps: "life_steps always False Container_new [EvStart, EvStartOk] running"
proof (intro steps_Cons)
  show "life_step always False Container_new EvStart (reset_policy Container_new)"
    by (rule st_start) (simp_all add: life_start_def Container_new_def is_live_def)
  show "life_step always False (reset_policy Container_new) EvStartOk running"
    unfolding running_def by (rule st_start_ok) (simp add: reset_policy_def)
qed (rule steps_Nil)

lemma running_state: "status running = Running" "lf_op running = None" "\<not> ps_manually_stopped (lf_p running)" "lf_monitors running = 1"
    "lf_exits running = 0" "\<not> lf_removed running" "lf_after_exit running = 0"
  by (simp_all add: running_def start_succeeds_def reset_policy_def Container_new_def upd_def)

text \<open>A stop that comes after the exit was published and before the policy was applied finds the container exited: it
  records nothing, succeeds, and the policy restarts the container.\<close>

lemma stop_is_lost:
  "\<exists>t. life_steps always False running [EvExit 1 True, EvStop, EvAfterExit None, EvTimer, EvStartOk] t \<and> status t = Running"
proof -
  define a where "a = handle_exit 1 True running"
  define b where "b = after_exit always False None a"
  have a: "lf_op a = None" "status a = Exited" "\<not> lf_removed a" "lf_after_exit a = 1" "\<not> ps_manually_stopped (lf_p a)"
    by (simp_all add: a_def handle_exit_def upd_def running_state)
  then have stop: "stop_locked False a = a" by (simp add: stop_locked_def after_stop_def is_live_def)
  have b: "lf_op b = None" "lf_timer b" "status b = Restarting"
    using a by (simp_all add: b_def after_exit_def should_restart_def always_def schedule_restart_def upd_def Let_def split: prod.splits)
  have "life_steps always False running [EvExit 1 True, EvStop, EvAfterExit None, EvTimer, EvStartOk] (start_succeeds (timer_fires b))"
  proof (intro steps_Cons)
    show "life_step always False running (EvExit 1 True) a" unfolding a_def by (rule st_exit) (simp add: running_state)
    show "life_step always False a EvStop a" using st_stop [OF a(1,3)] stop by simp
    show "life_step always False a (EvAfterExit None) b" unfolding b_def using a by (intro st_after_exit) simp_all
    show "life_step always False b EvTimer (timer_fires b)" using b by (intro st_timer)
    show "life_step always False (timer_fires b) EvStartOk (start_succeeds (timer_fires b))"
      using b by (intro st_start_ok [of _ ByTimer]) (simp add: timer_fires_def Let_def)
  qed (rule steps_Nil)
  then show ?thesis by (auto simp: start_succeeds_def upd_def)
qed

theorem life_invariant_witness:
  "lf_monitors running = (if is_live (status running) then 1 else 0)"
  using life_invariant [OF running_steps] by blast

definition stopped :: LifeState where
  "stopped = after_stop False (handle_exit 0 True (stop_locked False running))"

lemma stopped_steps: "life_steps always False Container_new [EvStart, EvStartOk, EvStop, EvExit 0 True, EvStopEnds] stopped"
proof -
  have op: "lf_op (stop_locked False running) = Some (Stopping False 0)" "lf_monitors (stop_locked False running) = 1"
      "lf_exits (stop_locked False running) = 0"
    by (simp_all add: stop_locked_def running_state upd_def is_live_def)
  have "life_steps always False running [EvStop, EvExit 0 True, EvStopEnds] stopped"
  proof (intro steps_Cons)
    show "life_step always False running EvStop (stop_locked False running)" by (rule st_stop) (simp_all add: running_state)
    show "life_step always False (stop_locked False running) (EvExit 0 True) (handle_exit 0 True (stop_locked False running))"
      by (rule st_exit) (simp add: op)
    show "life_step always False (handle_exit 0 True (stop_locked False running)) EvStopEnds stopped"
      unfolding stopped_def by (rule st_stop_ends [where exits = 0]) (simp_all add: handle_exit_def upd_def op)
  qed (rule steps_Nil)
  from life_steps_append [OF this running_steps] show ?thesis by simp
qed

lemma stopped_state: "lf_op stopped = None" "ps_manually_stopped (lf_p stopped)" "\<not> is_live (status stopped)" "lf_after_exit stopped = 1"
  by (simp_all add: stopped_def after_stop_def handle_exit_def stop_locked_def upd_def is_live_def running_state)

text \<open>The policy is applied to it after the stop, and leaves it as it is.\<close>

theorem stopped_stays_stopped_witness:
  "\<not> is_live (status (after_exit always False None stopped)) \<and> \<not> lf_timer (after_exit always False None stopped) \<and>
   status (after_exit always False None stopped) \<noteq> Restarting"
proof (rule stopped_stays_stopped [OF stopped_steps stopped_state(1-3)])
  show "life_steps always False stopped [EvAfterExit None] (after_exit always False None stopped)"
    by (intro steps_one st_after_exit) (simp_all add: stopped_state)
qed simp_all

text \<open>A container whose policy is \<open>always\<close> ended with code 1 after five seconds; it waits the first delay and runs again.\<close>

definition came_back :: LifeState where
  "came_back = start_succeeds (timer_fires (after_exit always False (Some 5000) (handle_exit 1 True running)))"

theorem crash_follows_policy_witness:
  "status came_back = Running \<and> ps_restart_count (lf_p came_back) = 1 \<and> lf_delay came_back = 100 \<and> lf_backoff came_back = 200"
proof -
  define a where "a = handle_exit 1 True running"
  define b where "b = after_exit always False (Some 5000) a"
  have a: "lf_op a = None" "status a = Exited" "\<not> lf_removed a" "lf_after_exit a = 1" "\<not> ps_manually_stopped (lf_p a)"
    by (simp_all add: a_def handle_exit_def upd_def running_state)
  have b: "lf_op b = None" "lf_timer b" "status b = Restarting" "lf_after_exit b = 0"
    using a by (simp_all add: b_def after_exit_def should_restart_def always_def schedule_restart_def upd_def Let_def split: prod.splits)
  have steps: "life_steps always False a [EvAfterExit (Some 5000), EvTimer, EvStartOk] came_back"
  proof (intro steps_Cons)
    show "life_step always False a (EvAfterExit (Some 5000)) b" unfolding b_def using a by (intro st_after_exit) simp_all
    show "life_step always False b EvTimer (timer_fires b)" using b by (intro st_timer)
    show "life_step always False (timer_fires b) EvStartOk came_back"
      unfolding came_back_def a_def[symmetric] b_def[symmetric] using b by (intro st_start_ok [of _ ByTimer]) (simp add: timer_fires_def Let_def)
  qed (rule steps_Nil)
  have end': "lf_op came_back = None" "\<not> lf_timer came_back" "lf_after_exit came_back = 0"
    using b by (simp_all add: came_back_def a_def[symmetric] b_def[symmetric] start_succeeds_def timer_fires_def upd_def Let_def)
  have "\<not> life_step always False came_back e u" if "own_step e" for e u
  proof
    assume "life_step always False came_back e u"
    then show False by (cases rule: life_step.cases) (use that end' in \<open>auto simp: own_step_def\<close>)
  qed
  moreover have "list_all own_step [EvAfterExit (Some 5000), EvTimer, EvStartOk]" by (simp add: own_step_def)
  moreover have "ps_restart_count (lf_p running) = 0" "lf_backoff running = 100" "rp_name always = PolicyAlways"
    by (simp_all add: running_def start_succeeds_def reset_policy_def Container_new_def upd_def BACKOFF_INITIAL_def always_def)
  ultimately show ?thesis
    using crash_follows_policy[OF running_steps running_state(1,2) steps[unfolded a_def]] running_state(3) by auto
qed

end
