(* ===== verification/Dns.thy ===== *)
theory Dns
  imports Ipam "HOL-Library.AList_Mapping"
begin

text \<open>
  The embedded DNS server, \<^verbatim>\<open>rustlet-net/src/dns.rs\<close>: the zone with every network's names, what a
  container's server answers itself, and how it forwards the rest. A \<open>HashMap\<close> is a \<open>mapping\<close>; a message is
  the list of its bytes.

  Messages are parsed and built by the crate \<open>hickory_proto\<close>. Its functions are the fields of \<open>Hickory\<close>, an
  argument of the definitions that use them, and its names are a type of their own. Shuffling the records of an
  answer and the fresh IDs of forwarded queries are arguments too. Sockets, timeouts and the limits of
  connections are not modelled: what arrives from a server in time is an argument.
\<close>

section \<open>The zone\<close>

datatype IpAddr = V4 u32 | V6 u128

record NetworkNames =
  nn_addresses :: "(string, IpAddr list) mapping"
  nn_names :: "(IpAddr, string list) mapping"

type_synonym Zone = "(string, NetworkNames) mapping"

definition Zone_new :: Zone where
  "Zone_new = Mapping.empty"

definition NetworkNames_default :: NetworkNames where
  "NetworkNames_default = \<lparr>nn_addresses = Mapping.empty, nn_names = Mapping.empty\<rparr>"

text \<open>\<open>unwrap_or_default\<close> and \<open>or_default\<close> of a vector.\<close>

definition entry_list :: "('k, 'v list) mapping \<Rightarrow> 'k \<Rightarrow> 'v list" where
  "entry_list m k = (case Mapping.lookup m k of Some vs \<Rightarrow> vs | None \<Rightarrow> [])"

definition normalize :: "string \<Rightarrow> string" where
  "normalize name = map to_lower (case strip_suffix ''.'' name of Some s \<Rightarrow> s | None \<Rightarrow> name)"

definition add_name :: "IpAddr \<Rightarrow> string \<Rightarrow> NetworkNames \<Rightarrow> NetworkNames" where
  "add_name ip name net =
     (let addresses = entry_list (nn_addresses net) name
      in if ip \<in> set addresses then net
         else \<lparr>nn_addresses = Mapping.update name (addresses @ [ip]) (nn_addresses net),
               nn_names = Mapping.update ip (entry_list (nn_names net) ip @ [name]) (nn_names net)\<rparr>)"

definition added_names :: "string list \<Rightarrow> string list" where
  "added_names names = filter (\<lambda>n. n \<noteq> []) (map normalize names)"

definition Zone_add :: "string \<Rightarrow> IpAddr \<Rightarrow> string list \<Rightarrow> Zone \<Rightarrow> Zone" where
  "Zone_add network ip names z =
     (let names = added_names names
      in if names = [] then z
         else Mapping.update network
                (fold (add_name ip) names (case Mapping.lookup z network of Some net \<Rightarrow> net | None \<Rightarrow> NetworkNames_default)) z)"

definition forget_name :: "IpAddr \<Rightarrow> string \<Rightarrow> (string, IpAddr list) mapping \<Rightarrow> (string, IpAddr list) mapping" where
  "forget_name ip name addresses =
     (case Mapping.lookup addresses name of
        None \<Rightarrow> addresses
      | Some ips \<Rightarrow>
          let ips = filter (\<lambda>a. a \<noteq> ip) ips
          in if ips = [] then Mapping.delete name addresses else Mapping.update name ips addresses)"

definition Zone_remove :: "string \<Rightarrow> IpAddr \<Rightarrow> Zone \<Rightarrow> Zone" where
  "Zone_remove network ip z =
     (case Mapping.lookup z network of
        None \<Rightarrow> z
      | Some net \<Rightarrow>
          let net = \<lparr>nn_addresses = fold (forget_name ip) (entry_list (nn_names net) ip) (nn_addresses net),
                     nn_names = Mapping.delete ip (nn_names net)\<rparr>
          in if Mapping.is_empty (nn_names net) then Mapping.delete network z else Mapping.update network net z)"

definition Zone_lookup :: "Zone \<Rightarrow> string \<Rightarrow> string \<Rightarrow> IpAddr list" where
  "Zone_lookup z network name =
     (let name = normalize name
      in case Mapping.lookup z network of
           None \<Rightarrow> []
         | Some net \<Rightarrow>
             (case Mapping.lookup (nn_addresses net) name of
                Some ips \<Rightarrow> ips
              | None \<Rightarrow>
                  (case strip_suffix (CHR ''.'' # map to_lower network) name of
                     None \<Rightarrow> []
                   | Some bare \<Rightarrow> entry_list (nn_addresses net) bare)))"

definition Zone_reverse :: "Zone \<Rightarrow> string \<Rightarrow> IpAddr \<Rightarrow> string option" where
  "Zone_reverse z network ip =
     (case Mapping.lookup z network of
        None \<Rightarrow> None
      | Some net \<Rightarrow>
          (case Mapping.lookup (nn_names net) ip of
             Some (first # _) \<Rightarrow> Some (first @ CHR ''.'' # network)
           | _ \<Rightarrow> None))"

section \<open>Messages\<close>

datatype RecordType = RtA | RtAAAA | RtPTR | RtOther nat

datatype DNSClass = ClassIN | ClassOther nat

datatype OpCode = OpQuery | OpOther nat

datatype MessageType = IsQuery | IsResponse

datatype ResponseCode = NoError | FormErr | ServFail | NotImp | Refused | CodeOther nat

record 'n Query =
  q_name :: 'n
  q_type :: RecordType
  q_class :: DNSClass

datatype 'n RData = RdA u32 | RdAAAA u128 | RdPTR 'n

record 'n Record =
  rr_name :: 'n
  rr_ttl :: nat
  rr_data :: "'n RData"

record Metadata =
  md_id :: u16
  md_message_type :: MessageType
  md_op_code :: OpCode
  md_authoritative :: bool
  md_recursion_available :: bool
  md_response_code :: ResponseCode

record 'n Message =
  ms_metadata :: Metadata
  ms_queries :: "'n Query list"
  ms_answers :: "'n Record list"
  ms_max_payload :: nat

text \<open>\<open>Header::from_bytes\<close> (with the number of questions), \<open>Message::from_vec\<close>, \<open>to_vec\<close>, \<open>emit\<close> with a
  size, \<open>Message::response\<close>, \<open>Metadata::response_from_request\<close>, and of \<open>Name\<close> the labels, \<open>to_ascii\<close> and
  \<open>from_ascii\<close>.\<close>

record 'n Hickory =
  hk_header :: "string \<Rightarrow> (Metadata \<times> nat) option"
  hk_message :: "string \<Rightarrow> 'n Message option"
  hk_to_vec :: "'n Message \<Rightarrow> string option"
  hk_emit :: "nat \<Rightarrow> 'n Message \<Rightarrow> string option"
  hk_response :: "u16 \<Rightarrow> OpCode \<Rightarrow> 'n Message"
  hk_response_from_request :: "Metadata \<Rightarrow> Metadata"
  hk_labels :: "'n \<Rightarrow> string list"
  hk_to_ascii :: "'n \<Rightarrow> string"
  hk_from_ascii :: "string \<Rightarrow> 'n option"

definition TTL :: nat where "TTL = 600"
definition HEADER_LEN :: nat where "HEADER_LEN = 12"
definition UDP_SIZE :: nat where "UDP_SIZE = 512"

record Scope =
  sc_networks :: "string list"
  sc_upstreams :: "(IpAddr \<times> u16) list"

section \<open>Reverse names\<close>

definition reverse_octet :: "string \<Rightarrow> u8 option" where
  "reverse_octet label =
     (case parse_uint 8 label of
        None \<Rightarrow> None
      | Some n \<Rightarrow> if dec n = label then Some (of_nat n) else None)"

definition reverse_ipv4 :: "string list \<Rightarrow> u32 option" where
  "reverse_ipv4 labels =
     (case labels of
        [d, c, b, a] \<Rightarrow>
          (case (reverse_octet a, reverse_octet b, reverse_octet c, reverse_octet d) of
             (Some a, Some b, Some c, Some d) \<Rightarrow> Some (from_octets [a, b, c, d])
           | _ \<Rightarrow> None)
      | _ \<Rightarrow> None)"

fun reverse_nibbles :: "u128 \<Rightarrow> string list \<Rightarrow> u128 option" where
  "reverse_nibbles bits [] = Some bits"
| "reverse_nibbles bits (label # labels) =
     (case label of
        [digit] \<Rightarrow>
          (case hex_value digit of
             None \<Rightarrow> None
           | Some d \<Rightarrow> reverse_nibbles (push_bit 4 bits OR of_nat d) labels)
      | _ \<Rightarrow> None)"

definition reverse_ipv6 :: "string list \<Rightarrow> u128 option" where
  "reverse_ipv6 labels = (if length labels \<noteq> 32 then None else reverse_nibbles 0 (rev labels))"

definition eq_ignore_case :: "string \<Rightarrow> string \<Rightarrow> bool" where
  "eq_ignore_case s t \<longleftrightarrow> map to_lower s = map to_lower t"

definition reverse_address :: "string list \<Rightarrow> IpAddr option" where
  "reverse_address labels =
     (case rev labels of
        arpa # domain # address \<Rightarrow>
          if \<not> eq_ignore_case arpa ''arpa'' then None
          else if eq_ignore_case domain ''in-addr'' then map_option V4 (reverse_ipv4 (rev address))
          else if eq_ignore_case domain ''ip6'' then map_option V6 (reverse_ipv6 (rev address))
          else None
      | _ \<Rightarrow> None)"

section \<open>Answers\<close>

definition rdata_of :: "RecordType \<Rightarrow> IpAddr \<Rightarrow> 'n RData option" where
  "rdata_of t ip = (case (t, ip) of (RtA, V4 a) \<Rightarrow> Some (RdA a) | (RtAAAA, V6 a) \<Rightarrow> Some (RdAAAA a) | _ \<Rightarrow> None)"

text \<open>The loop over the networks: whether one has the name, and the records of the last one looked at.\<close>

fun search_networks :: "Zone \<Rightarrow> string \<Rightarrow> RecordType \<Rightarrow> bool \<Rightarrow> 'n RData list \<Rightarrow> string list \<Rightarrow> bool \<times> 'n RData list" where
  "search_networks z asked t known records [] = (known, records)"
| "search_networks z asked t known records (network # networks) =
     (let addresses = Zone_lookup z network asked;
          known = (known \<or> addresses \<noteq> []);
          records = List.map_filter (rdata_of t) addresses
      in if records \<noteq> [] then (known, records) else search_networks z asked t known records networks)"

definition local_records ::
  "('n, 'x) Hickory_scheme \<Rightarrow> ('n Record list \<Rightarrow> 'n Record list) \<Rightarrow> 'n Query \<Rightarrow> Zone \<Rightarrow> Scope \<Rightarrow> 'n Record list option" where
  "local_records hk shuffle question z scope =
     (if q_class question \<noteq> ClassIN then None
      else let name = q_name question;
               target = (if q_type question = RtPTR
                         then Option.bind (reverse_address (hk_labels hk name))
                                (\<lambda>ip. find_map_list (\<lambda>network. Zone_reverse z network ip) (sc_networks scope))
                         else None)
           in case target of
                Some t \<Rightarrow> map_option (\<lambda>n. [\<lparr>rr_name = name, rr_ttl = TTL, rr_data = RdPTR n\<rparr>]) (hk_from_ascii hk (t @ ''.''))
              | None \<Rightarrow>
                  (case search_networks z (hk_to_ascii hk name) (q_type question) False [] (sc_networks scope) of
                     (known, records) \<Rightarrow>
                       if \<not> known then None
                       else Some (shuffle (map (\<lambda>d. \<lparr>rr_name = name, rr_ttl = TTL, rr_data = d\<rparr>) records))))"

definition dns_response ::
  "('n, 'x) Hickory_scheme \<Rightarrow> Metadata \<Rightarrow> 'n Query option \<Rightarrow> ResponseCode \<Rightarrow> Scope \<Rightarrow> 'n Message" where
  "dns_response hk metadata question code scope =
     (let response = hk_response hk (md_id metadata) (md_op_code metadata);
          response = response\<lparr>ms_metadata := (hk_response_from_request hk metadata)
                       \<lparr>md_response_code := code, md_recursion_available := (sc_upstreams scope \<noteq> [])\<rparr>\<rparr>
      in case question of
           Some q \<Rightarrow> response\<lparr>ms_queries := ms_queries response @ [q]\<rparr>
         | None \<Rightarrow> response)"

definition encode :: "('n, 'x) Hickory_scheme \<Rightarrow> 'n Message \<Rightarrow> string" where
  "encode hk message = (case hk_to_vec hk message of Some bytes \<Rightarrow> bytes | None \<Rightarrow> [])"

definition failure :: "('n, 'x) Hickory_scheme \<Rightarrow> string \<Rightarrow> ResponseCode \<Rightarrow> Scope \<Rightarrow> string" where
  "failure hk query code scope =
     (case hk_message hk query of
        None \<Rightarrow> []
      | Some m \<Rightarrow>
          encode hk (dns_response hk (ms_metadata m) (case ms_queries m of [] \<Rightarrow> None | q # _ \<Rightarrow> Some q) code scope))"

text \<open>An answer, a query to forward, or the panic of \<open>message.queries[0]\<close>.\<close>

datatype Answered = AnswerNow string | MustForward | AnswerPanic

definition answer_in ::
  "('n, 'x) Hickory_scheme \<Rightarrow> ('n Record list \<Rightarrow> 'n Record list) \<Rightarrow> string \<Rightarrow> Zone \<Rightarrow> Scope \<Rightarrow> Answered" where
  "answer_in hk shuffle query z scope =
     (case hk_header hk query of
        None \<Rightarrow> AnswerNow []
      | Some (md, queries) \<Rightarrow>
          if md_message_type md = IsResponse then AnswerNow []
          else if md_op_code md \<noteq> OpQuery then AnswerNow (encode hk (dns_response hk md None NotImp scope))
          else if queries \<noteq> 1 then AnswerNow (encode hk (dns_response hk md None FormErr scope))
          else case hk_message hk query of
                 None \<Rightarrow> AnswerNow (encode hk (dns_response hk md None FormErr scope))
               | Some message \<Rightarrow>
                   (case ms_queries message of
                      [] \<Rightarrow> AnswerPanic
                    | question # _ \<Rightarrow>
                        (case local_records hk shuffle question z scope of
                           Some records \<Rightarrow>
                             let answer = dns_response hk (ms_metadata message) (Some question) NoError scope
                             in AnswerNow (encode hk
                                  (answer\<lparr>ms_metadata := (ms_metadata answer)\<lparr>md_authoritative := True\<rparr>, ms_answers := records\<rparr>))
                         | None \<Rightarrow>
                             if sc_upstreams scope = []
                             then AnswerNow (encode hk (dns_response hk (ms_metadata message) (Some question) Refused scope))
                             else MustForward)))"

definition fit_udp :: "('n, 'x) Hickory_scheme \<Rightarrow> string \<Rightarrow> string \<Rightarrow> string" where
  "fit_udp hk query answer =
     (if length answer \<le> UDP_SIZE then answer
      else let limit = (case hk_message hk query of Some m \<Rightarrow> ms_max_payload m | None \<Rightarrow> UDP_SIZE)
           in if length answer \<le> limit then answer
              else case hk_message hk answer of
                     None \<Rightarrow> answer
                   | Some message \<Rightarrow> (case hk_emit hk limit message of Some fitted \<Rightarrow> fitted | None \<Rightarrow> answer))"

section \<open>Forwarding\<close>

function question_end :: "string \<Rightarrow> nat \<Rightarrow> nat option" where
  "question_end message e =
     (if e \<ge> length message then None
      else let len = of_char (message ! e)
           in if len = 0 then Some (e + 1)
              else if len > 63 then None
              else question_end message (e + 1 + len))"
  by pat_completeness auto
termination
  by (relation "measure (\<lambda>(message, e). length message - e)") auto

declare question_end.simps [simp del]

text \<open>\<open>message.get(a..b)\<close>.\<close>

definition get_range :: "nat \<Rightarrow> nat \<Rightarrow> string \<Rightarrow> string option" where
  "get_range a b s = (if a \<le> b \<and> b \<le> length s then Some (take (b - a) (drop a s)) else None)"

definition dns_question :: "string \<Rightarrow> (string \<times> string) option" where
  "dns_question message =
     (if length message < HEADER_LEN \<or> take 2 (drop 4 message) \<noteq> [CHR 0x00, CHR 0x01] then None
      else case question_end message HEADER_LEN of
             None \<Rightarrow> None
           | Some e \<Rightarrow>
               (case (get_range HEADER_LEN e message, get_range e (e + 4) message) of
                  (Some name, Some rest) \<Rightarrow> Some (name, rest)
                | _ \<Rightarrow> None))"

definition is_answer_to :: "string \<Rightarrow> string \<Rightarrow> string \<Rightarrow> bool" where
  "is_answer_to message ident query =
     (if length message < HEADER_LEN \<or> take 2 message \<noteq> ident \<or> (of_char (message ! 2) :: nat) < 0x80 then False
      else if take 2 (drop 4 message) = [CHR 0x00, CHR 0x00] then True
      else case (dns_question message, dns_question query) of
             (Some (name, rest), Some (asked, asked_rest)) \<Rightarrow> eq_ignore_case name asked \<and> rest = asked_rest
           | _ \<Rightarrow> False)"

definition with_id :: "string \<Rightarrow> string \<Rightarrow> string" where
  "with_id ident query = ident @ drop 2 query"

text \<open>A message on a TCP connection: what is read of a stream, and what is left of it. \<open>None\<close> is the end of the
  stream, or a message cut short.\<close>

definition read_message :: "string \<Rightarrow> (string \<times> string) option" where
  "read_message stream =
     (case stream of
        h # l # rest \<Rightarrow>
          let len = of_char h * 256 + of_char l
          in if length rest < len then None else Some (take len rest, drop len rest)
      | _ \<Rightarrow> None)"

definition write_message :: "string \<Rightarrow> string option" where
  "write_message message =
     (if length message < 2 ^ 16
      then Some (char_of (length message div 256) # char_of (length message mod 256) # message)
      else None)"

text \<open>What a server sent in time: datagrams, or the bytes of a connection.\<close>

definition exchange_udp :: "string \<Rightarrow> string \<Rightarrow> string list \<Rightarrow> string option" where
  "exchange_udp ident query datagrams = find (\<lambda>m. is_answer_to m ident (with_id ident query)) datagrams"

function exchange_tcp :: "string \<Rightarrow> string \<Rightarrow> string \<Rightarrow> string option" where
  "exchange_tcp ident query stream =
     (case read_message stream of
        None \<Rightarrow> None
      | Some (m, rest) \<Rightarrow> if is_answer_to m ident (with_id ident query) then Some m else exchange_tcp ident query rest)"
  by pat_completeness auto
termination
  by (relation "measure (\<lambda>(_, _, stream). length stream)")
     (auto simp: read_message_def Let_def split: list.splits if_splits)

declare exchange_tcp.simps [simp del]

definition low_code :: "string \<Rightarrow> nat" where
  "low_code answer = of_char (answer ! 3) mod 16"

text \<open>\<open>exchange\<close> gives each server's answer, if there is one in time.\<close>

fun forward_loop :: "(IpAddr \<times> u16 \<Rightarrow> string option) \<Rightarrow> string \<Rightarrow> string option \<Rightarrow> (IpAddr \<times> u16) list \<Rightarrow> string option" where
  "forward_loop exchange query failed [] = failed"
| "forward_loop exchange query failed (upstream # upstreams) =
     (case exchange upstream of
        None \<Rightarrow> forward_loop exchange query failed upstreams
      | Some answer \<Rightarrow>
          let answer = take 2 query @ drop 2 answer
          in if low_code answer = 2 \<or> low_code answer = 5
             then forward_loop exchange query (case failed of Some f \<Rightarrow> Some f | None \<Rightarrow> Some answer) upstreams
             else Some answer)"

definition forward :: "('n, 'x) Hickory_scheme \<Rightarrow> (IpAddr \<times> u16 \<Rightarrow> string option) \<Rightarrow> string \<Rightarrow> Scope \<Rightarrow> string" where
  "forward hk exchange query scope =
     (case forward_loop exchange query None (sc_upstreams scope) of
        Some answer \<Rightarrow> answer
      | None \<Rightarrow> failure hk query ServFail scope)"

section \<open>Serving\<close>

text \<open>What a socket's task does with one message: the reply it sends, if any. \<open>permits\<close> are the forwards that may
  still begin.\<close>

datatype Reply = NoReply | SendReply string | ReplyPanic

definition send_answer :: "string \<Rightarrow> Reply" where
  "send_answer answer = (if answer = [] then NoReply else SendReply answer)"

definition serve_datagram ::
  "('n, 'x) Hickory_scheme \<Rightarrow> ('n Record list \<Rightarrow> 'n Record list) \<Rightarrow> (IpAddr \<times> u16 \<Rightarrow> string option) \<Rightarrow> nat \<Rightarrow>
   (IpAddr \<times> u16) option \<Rightarrow> IpAddr \<times> u16 \<Rightarrow> string \<Rightarrow> Zone \<Rightarrow> Scope \<Rightarrow> Reply" where
  "serve_datagram hk shuffle exchange permits own client query z scope =
     (if Some client = own then NoReply
      else case answer_in hk shuffle query z scope of
             AnswerNow answer \<Rightarrow> send_answer (fit_udp hk query answer)
           | MustForward \<Rightarrow>
               send_answer (if permits > 0 then forward hk exchange query scope else failure hk query ServFail scope)
           | AnswerPanic \<Rightarrow> ReplyPanic)"

definition serve_connection ::
  "('n, 'x) Hickory_scheme \<Rightarrow> ('n Record list \<Rightarrow> 'n Record list) \<Rightarrow> (IpAddr \<times> u16 \<Rightarrow> string option) \<Rightarrow> nat \<Rightarrow> string \<Rightarrow>
   Zone \<Rightarrow> Scope \<Rightarrow> Reply" where
  "serve_connection hk shuffle exchange permits query z scope =
     (case answer_in hk shuffle query z scope of
        AnswerNow answer \<Rightarrow> send_answer answer
      | MustForward \<Rightarrow>
          send_answer (if permits > 0 then forward hk exchange query scope else failure hk query ServFail scope)
      | AnswerPanic \<Rightarrow> ReplyPanic)"

end
