(* ===== verification/DnsZone.thy ===== *)
theory DnsZone
  imports Dns
begin

text \<open>
  A zone stands for registrations, in the order they were made: the interface \<open>name_registry\<close> says so for any sequence
  of operations, and the zone provides it.
\<close>

section \<open>Registrations\<close>

text \<open>What a zone stands for: who is registered under which name on which network, in the order it was.\<close>

type_synonym Registration = "string \<times> string \<times> IpAddr"

definition reg_name :: "string \<Rightarrow> IpAddr \<Rightarrow> string \<Rightarrow> Registration list \<Rightarrow> Registration list" where
  "reg_name network ip name regs = (if (network, name, ip) \<in> set regs then regs else regs @ [(network, name, ip)])"

definition reg_add :: "string \<Rightarrow> IpAddr \<Rightarrow> string list \<Rightarrow> Registration list \<Rightarrow> Registration list" where
  "reg_add network ip names regs = fold (reg_name network ip) (added_names names) regs"

definition reg_remove :: "string \<Rightarrow> IpAddr \<Rightarrow> Registration list \<Rightarrow> Registration list" where
  "reg_remove network ip regs = filter (\<lambda>(n, _, i). \<not> (n = network \<and> i = ip)) regs"

definition reg_addresses :: "Registration list \<Rightarrow> string \<Rightarrow> string \<Rightarrow> IpAddr list" where
  "reg_addresses regs network name = map (\<lambda>(_, _, i). i) (filter (\<lambda>(n, m, _). n = network \<and> m = name) regs)"

definition reg_names :: "Registration list \<Rightarrow> string \<Rightarrow> IpAddr \<Rightarrow> string list" where
  "reg_names regs network ip = map (\<lambda>(_, m, _). m) (filter (\<lambda>(n, _, i). n = network \<and> i = ip) regs)"

text \<open>The registered addresses of a name as it is asked for, and the name of an address.\<close>

definition reg_lookup :: "Registration list \<Rightarrow> string \<Rightarrow> string \<Rightarrow> IpAddr list" where
  "reg_lookup regs network name =
     (case reg_addresses regs network (normalize name) of
        [] \<Rightarrow> (case strip_suffix (CHR ''.'' # map to_lower network) (normalize name) of
                 None \<Rightarrow> []
               | Some bare \<Rightarrow> reg_addresses regs network bare)
      | ips \<Rightarrow> ips)"

definition reg_reverse :: "Registration list \<Rightarrow> string \<Rightarrow> IpAddr \<Rightarrow> string option" where
  "reg_reverse regs network ip =
     (case reg_names regs network ip of [] \<Rightarrow> None | first # _ \<Rightarrow> Some (first @ CHR ''.'' # network))"

lemma set_reg_addresses [simp]: "ip \<in> set (reg_addresses regs network name) \<longleftrightarrow> (network, name, ip) \<in> set regs"
  by (force simp: reg_addresses_def)

lemma set_reg_names [simp]: "name \<in> set (reg_names regs network ip) \<longleftrightarrow> (network, name, ip) \<in> set regs"
  by (force simp: reg_names_def)

lemma reg_addresses_snoc [simp]:
  "reg_addresses (regs @ [(n, m, i)]) network name = reg_addresses regs network name @ (if n = network \<and> m = name then [i] else [])"
  by (simp add: reg_addresses_def)

lemma reg_names_snoc [simp]:
  "reg_names (regs @ [(n, m, i)]) network ip = reg_names regs network ip @ (if n = network \<and> i = ip then [m] else [])"
  by (simp add: reg_names_def)

lemma reg_addresses_remove:
  "reg_addresses (reg_remove network ip regs) net name =
     (if net = network then filter (\<lambda>i. i \<noteq> ip) (reg_addresses regs net name) else reg_addresses regs net name)"
  by (induction regs) (auto simp: reg_addresses_def reg_remove_def)

lemma reg_names_remove:
  "reg_names (reg_remove network ip regs) net i = (if net = network \<and> i = ip then [] else reg_names regs net i)"
  by (induction regs) (auto simp: reg_names_def reg_remove_def)

lemma set_reg_remove: "(n, m, i) \<in> set (reg_remove network ip regs) \<longleftrightarrow> (n, m, i) \<in> set regs \<and> \<not> (n = network \<and> i = ip)"
  by (auto simp: reg_remove_def)

section \<open>The interface\<close>

datatype ZoneOp = AddNames string IpAddr "string list" | RemoveAddress string IpAddr

fun reg_op :: "ZoneOp \<Rightarrow> Registration list \<Rightarrow> Registration list" where
  "reg_op (AddNames network ip names) = reg_add network ip names"
| "reg_op (RemoveAddress network ip) = reg_remove network ip"

text \<open>A registry of names: it stands for registrations, and answers from them.\<close>

locale name_registry =
  fixes new :: 'z
    and add :: "string \<Rightarrow> IpAddr \<Rightarrow> string list \<Rightarrow> 'z \<Rightarrow> 'z"
    and remove :: "string \<Rightarrow> IpAddr \<Rightarrow> 'z \<Rightarrow> 'z"
    and find_name :: "'z \<Rightarrow> string \<Rightarrow> string \<Rightarrow> IpAddr list"
    and reverse :: "'z \<Rightarrow> string \<Rightarrow> IpAddr \<Rightarrow> string option"
    and stands_for :: "'z \<Rightarrow> Registration list \<Rightarrow> bool"
  assumes new_stands: "stands_for new []"
    and add_stands: "stands_for z regs \<Longrightarrow> stands_for (add network ip names z) (reg_add network ip names regs)"
    and remove_stands: "stands_for z regs \<Longrightarrow> stands_for (remove network ip z) (reg_remove network ip regs)"
    and find_stands: "stands_for z regs \<Longrightarrow> find_name z network name = reg_lookup regs network name"
    and reverse_stands: "stands_for z regs \<Longrightarrow> reverse z network ip = reg_reverse regs network ip"
begin

lemma history_stands: "stands_for z regs \<Longrightarrow> stands_for (fold (case_ZoneOp add remove) ops z) (fold reg_op ops regs)"
proof (induction ops arbitrary: z regs)
  case (Cons op' ops)
  then show ?case by (cases op') (simp_all add: add_stands remove_stands)
qed simp

lemma history_answers:
  "find_name (fold (case_ZoneOp add remove) ops new) network name = reg_lookup (fold reg_op ops []) network name"
  "reverse (fold (case_ZoneOp add remove) ops new) network ip = reg_reverse (fold reg_op ops []) network ip"
  using find_stands reverse_stands history_stands [OF new_stands] by blast+

end

section \<open>The zone is one\<close>

definition nonempty_list :: "'a list \<Rightarrow> 'a list option" where
  "nonempty_list xs = (if xs = [] then None else Some xs)"

definition net_stands_for :: "NetworkNames \<Rightarrow> string \<Rightarrow> Registration list \<Rightarrow> bool" where
  "net_stands_for net network regs \<longleftrightarrow>
     (\<forall>name. Mapping.lookup (nn_addresses net) name = nonempty_list (reg_addresses regs network name)) \<and>
     (\<forall>ip. Mapping.lookup (nn_names net) ip = nonempty_list (reg_names regs network ip))"

definition zone_stands_for :: "Zone \<Rightarrow> Registration list \<Rightarrow> bool" where
  "zone_stands_for z regs \<longleftrightarrow>
     (\<forall>network. case Mapping.lookup z network of
        None \<Rightarrow> \<forall>name ip. (network, name, ip) \<notin> set regs
      | Some net \<Rightarrow> (\<exists>name ip. (network, name, ip) \<in> set regs) \<and> net_stands_for net network regs)"

lemma entry_list_nonempty: "Mapping.lookup m k = nonempty_list xs \<Longrightarrow> entry_list m k = xs"
  by (simp add: entry_list_def nonempty_list_def split: if_splits)

lemma reg_none:
  assumes "\<And>name ip. (network, name, ip) \<notin> set regs"
  shows "reg_addresses regs network name = []" and "reg_names regs network ip = []"
  using assms set_reg_addresses [of _ regs network name] set_reg_names [of _ regs network ip]
  by (metis list.set_intros(1) list.exhaust)+

lemma net_default_stands: "(\<And>name ip. (network, name, ip) \<notin> set regs) \<Longrightarrow> net_stands_for NetworkNames_default network regs"
  by (simp add: net_stands_for_def NetworkNames_default_def nonempty_list_def Mapping.lookup_empty reg_none)

lemma net_stands_cong:
  assumes "\<And>name. reg_addresses regs network name = reg_addresses regs' network name"
    and "\<And>ip. reg_names regs network ip = reg_names regs' network ip"
  shows "net_stands_for net network regs = net_stands_for net network regs'"
  using assms by (simp add: net_stands_for_def)

lemma add_name_stands:
  assumes "net_stands_for net network regs"
  shows "net_stands_for (add_name ip name net) network (reg_name network ip name regs)"
proof -
  have entries: "entry_list (nn_addresses net) name = reg_addresses regs network name" "entry_list (nn_names net) ip = reg_names regs network ip"
    using assms by (auto simp: net_stands_for_def intro: entry_list_nonempty)
  then show ?thesis using assms
    by (auto simp: add_name_def reg_name_def net_stands_for_def nonempty_list_def Mapping.lookup_update' Let_def)
qed

lemma add_names_stand:
  "net_stands_for net network regs \<Longrightarrow> net_stands_for (fold (add_name ip) names net) network (fold (reg_name network ip) names regs)"
  by (induction names arbitrary: net regs) (auto intro: add_name_stands)

lemma reg_name_other:
  assumes "n \<noteq> network"
  shows "reg_addresses (fold (reg_name network ip) names regs) n name = reg_addresses regs n name"
    and "reg_names (fold (reg_name network ip) names regs) n i = reg_names regs n i"
    and "(n, m, i) \<in> set (fold (reg_name network ip) names regs) \<longleftrightarrow> (n, m, i) \<in> set regs"
  using assms by (induction names arbitrary: regs) (auto simp: reg_name_def)

lemma set_reg_name: "set (fold (reg_name network ip) names regs) = set regs \<union> (\<lambda>name. (network, name, ip)) ` set names"
  by (induction names arbitrary: regs) (auto simp: reg_name_def)

lemma zone_network:
  assumes "zone_stands_for z regs"
  shows "case Mapping.lookup z network of
        None \<Rightarrow> \<forall>name ip. (network, name, ip) \<notin> set regs
      | Some net \<Rightarrow> (\<exists>name ip. (network, name, ip) \<in> set regs) \<and> net_stands_for net network regs"
  using assms unfolding zone_stands_for_def by blast

lemma lookup_delete_if: "Mapping.lookup (Mapping.delete k m) k' = (if k' = k then None else Mapping.lookup m k')"
  by (simp add: Mapping.lookup_delete Mapping.lookup_delete_neq)

lemma Zone_add_stands:
  assumes "zone_stands_for z regs"
  shows "zone_stands_for (Zone_add network ip names z) (reg_add network ip names regs)"
proof (cases "added_names names = []")
  case False
  let ?net = "case Mapping.lookup z network of Some net \<Rightarrow> net | None \<Rightarrow> NetworkNames_default"
  let ?regs = "reg_add network ip names regs"
  note zone_network [OF assms, of network]
  then have "net_stands_for ?net network regs"
    by (auto split: option.splits intro: net_default_stands)
  then have here: "net_stands_for (fold (add_name ip) (added_names names) ?net) network ?regs"
    unfolding reg_add_def by (rule add_names_stand)
  have some: "\<exists>name ip. (network, name, ip) \<in> set ?regs"
  proof -
    obtain m ms where "added_names names = m # ms" using False by (cases "added_names names") auto
    then have "(network, m, ip) \<in> set ?regs" unfolding reg_add_def set_reg_name by simp
    then show ?thesis by blast
  qed
  have other: "net_stands_for net n ?regs = net_stands_for net n regs" if "n \<noteq> network" for net n
    unfolding reg_add_def using reg_name_other [OF that] by (intro net_stands_cong) simp_all
  have same: "(n, m, i) \<in> set ?regs \<longleftrightarrow> (n, m, i) \<in> set regs" if "n \<noteq> network" for n m i
    unfolding reg_add_def using reg_name_other(3) [OF that] by simp
  show ?thesis
    unfolding zone_stands_for_def
  proof
    fix n
    note zone_network [OF assms, of n]
    then show "case Mapping.lookup (Zone_add network ip names z) n of None \<Rightarrow> \<forall>name i. (n, name, i) \<notin> set ?regs
        | Some net \<Rightarrow> (\<exists>name i. (n, name, i) \<in> set ?regs) \<and> net_stands_for net n ?regs"
      using here some other same False
      by (cases "n = network") (simp_all add: Zone_add_def Let_def Mapping.lookup_update' split: option.splits)
  qed
qed (use assms in \<open>simp add: Zone_add_def reg_add_def\<close>)

lemma forget_names:
  "Mapping.lookup (fold (forget_name ip) names addresses) name =
     (if name \<in> set names
      then Option.bind (Mapping.lookup addresses name) (\<lambda>ips. nonempty_list (filter (\<lambda>i. i \<noteq> ip) ips))
      else Mapping.lookup addresses name)"
proof (induction names arbitrary: addresses)
  case (Cons m names)
  have "Mapping.lookup (forget_name ip m addresses) name =
     (if name = m then Option.bind (Mapping.lookup addresses name) (\<lambda>ips. nonempty_list (filter (\<lambda>i. i \<noteq> ip) ips))
      else Mapping.lookup addresses name)"
    by (auto simp: forget_name_def nonempty_list_def Mapping.lookup_update' lookup_delete_if Let_def split: option.splits)
  then show ?case using Cons by (auto simp: nonempty_list_def split: bind_splits)
qed simp

lemma filter_nonempty_list:
  "Option.bind (nonempty_list xs) (\<lambda>ips. nonempty_list (filter P ips)) = nonempty_list (filter P xs)"
  by (simp add: nonempty_list_def)

lemma forget_stands:
  assumes "net_stands_for net network regs"
  shows "net_stands_for \<lparr>nn_addresses = fold (forget_name ip) (entry_list (nn_names net) ip) (nn_addresses net),
    nn_names = Mapping.delete ip (nn_names net)\<rparr> network (reg_remove network ip regs)"
proof -
  have names: "entry_list (nn_names net) ip = reg_names regs network ip"
    using assms by (auto simp: net_stands_for_def intro: entry_list_nonempty)
  have "filter (\<lambda>i. i \<noteq> ip) (reg_addresses regs network name) = reg_addresses regs network name"
    if "(network, name, ip) \<notin> set regs" for name
    using that by (auto simp: filter_id_conv)
  then show ?thesis using assms unfolding net_stands_for_def names
    by (auto simp: forget_names reg_addresses_remove reg_names_remove filter_nonempty_list lookup_delete_if nonempty_list_def)
qed

lemma no_names_left:
  assumes "net_stands_for net network regs"
  shows "Mapping.is_empty (nn_names net) \<longleftrightarrow> (\<forall>name ip. (network, name, ip) \<notin> set regs)"
proof -
  have "Mapping.is_empty (nn_names net) \<longleftrightarrow> (\<forall>ip. reg_names regs network ip = [])"
    using assms by (auto simp: net_stands_for_def nonempty_list_def Mapping.is_empty_def Mapping.keys_dom_lookup split: if_splits)
  also have "\<dots> \<longleftrightarrow> (\<forall>ip. set (reg_names regs network ip) = {})" by simp
  also have "\<dots> \<longleftrightarrow> (\<forall>name ip. (network, name, ip) \<notin> set regs)"
    using set_reg_names [of _ regs network] by (metis all_not_in_conv)
  finally show ?thesis .
qed

lemma Zone_remove_stands:
  assumes "zone_stands_for z regs"
  shows "zone_stands_for (Zone_remove network ip z) (reg_remove network ip regs)"
proof -
  let ?regs = "reg_remove network ip regs"
  have other: "net_stands_for net n ?regs = net_stands_for net n regs" if "n \<noteq> network" for net n
    using that by (intro net_stands_cong) (simp_all add: reg_addresses_remove reg_names_remove)
  show ?thesis
  proof (cases "Mapping.lookup z network")
    case None
    then have "\<forall>name ip. (network, name, ip) \<notin> set regs" using zone_network [OF assms, of network] by simp
    then have "?regs = regs" by (auto simp: reg_remove_def filter_id_conv)
    then show ?thesis using assms None by (simp add: Zone_remove_def)
  next
    case (Some net)
    define net' where "net' = \<lparr>nn_addresses = fold (forget_name ip) (entry_list (nn_names net) ip) (nn_addresses net),
      nn_names = Mapping.delete ip (nn_names net)\<rparr>"
    have "net_stands_for net network regs" using zone_network [OF assms, of network] Some by simp
    then have here: "net_stands_for net' network ?regs" unfolding net'_def by (rule forget_stands)
    have z: "Zone_remove network ip z = (if Mapping.is_empty (nn_names net') then Mapping.delete network z else Mapping.update network net' z)"
      using Some by (simp add: Zone_remove_def net'_def Let_def)
    show ?thesis
      unfolding zone_stands_for_def
    proof
      fix n
      note zone_network [OF assms, of n]
      then show "case Mapping.lookup (Zone_remove network ip z) n of None \<Rightarrow> \<forall>name i. (n, name, i) \<notin> set ?regs
        | Some net \<Rightarrow> (\<exists>name i. (n, name, i) \<in> set ?regs) \<and> net_stands_for net n ?regs"
        using here other no_names_left [OF here]
        by (cases "n = network") (auto simp: z set_reg_remove Mapping.lookup_update' lookup_delete_if split: option.splits)
    qed
  qed
qed

lemma zone_lookup_net:
  assumes "zone_stands_for z regs"
  shows "Mapping.lookup z network = None \<Longrightarrow> reg_addresses regs network name = []"
    and "Mapping.lookup z network = None \<Longrightarrow> reg_names regs network ip = []"
    and "Mapping.lookup z network = Some net \<Longrightarrow> net_stands_for net network regs"
  using zone_network [OF assms, of network] reg_none [of network regs] by simp_all

lemma Zone_lookup_stands:
  assumes "zone_stands_for z regs"
  shows "Zone_lookup z network name = reg_lookup regs network name"
proof (cases "Mapping.lookup z network")
  case None
  then show ?thesis using zone_lookup_net(1) [OF assms None]
    by (simp add: Zone_lookup_def reg_lookup_def Let_def split: option.split)
next
  case (Some net)
  have net: "Mapping.lookup (nn_addresses net) m = nonempty_list (reg_addresses regs network m)" for m
    using zone_lookup_net(3) [OF assms Some] by (simp add: net_stands_for_def)
  then show ?thesis using Some
    by (auto simp: Zone_lookup_def reg_lookup_def entry_list_nonempty [OF net] Let_def nonempty_list_def split: option.split list.split)
qed

lemma Zone_reverse_stands:
  assumes "zone_stands_for z regs"
  shows "Zone_reverse z network ip = reg_reverse regs network ip"
proof (cases "Mapping.lookup z network")
  case None
  then show ?thesis using zone_lookup_net(2) [OF assms None] by (simp add: Zone_reverse_def reg_reverse_def)
next
  case (Some net)
  have "Mapping.lookup (nn_names net) ip = nonempty_list (reg_names regs network ip)"
    using zone_lookup_net(3) [OF assms Some] by (simp add: net_stands_for_def)
  then show ?thesis using Some by (simp add: Zone_reverse_def reg_reverse_def nonempty_list_def split: list.split)
qed

interpretation zone: name_registry Zone_new Zone_add Zone_remove Zone_lookup Zone_reverse zone_stands_for
proof
  show "zone_stands_for Zone_new []" by (simp add: zone_stands_for_def Zone_new_def Mapping.lookup_empty)
qed (fact Zone_add_stands Zone_remove_stands Zone_lookup_stands Zone_reverse_stands)+

end
