(* ===== verification/DnsCorrect.thy ===== *)
theory DnsCorrect
  imports DnsZone IpamCorrect "HOL-Library.Multiset"
begin

text \<open>
  The DNS server, correct: what a container's server answers comes only from its own networks, from the first that can,
  and the rest from the first upstream server that does; reverse names and frames are read as they are written.
\<close>

section \<open>Isolation\<close>

text \<open>A zone, as the daemon made it.\<close>

definition zone_history :: "ZoneOp list \<Rightarrow> Zone" where
  "zone_history ops = fold (case_ZoneOp Zone_add Zone_remove) ops Zone_new"

fun op_network :: "ZoneOp \<Rightarrow> string" where
  "op_network (AddNames network ip names) = network"
| "op_network (RemoveAddress network ip) = network"

definition regs_on :: "string set \<Rightarrow> Registration list \<Rightarrow> Registration list" where
  "regs_on networks regs = filter (\<lambda>(n, _, _). n \<in> networks) regs"

lemma regs_on_name:
  "regs_on networks (fold (reg_name network ip) names regs) =
     (if network \<in> networks then fold (reg_name network ip) names (regs_on networks regs) else regs_on networks regs)"
  by (induction names arbitrary: regs) (auto simp: regs_on_def reg_name_def)

lemma regs_on_remove:
  "regs_on networks (reg_remove network ip regs) =
     (if network \<in> networks then reg_remove network ip (regs_on networks regs) else regs_on networks regs)"
  by (induction regs) (auto simp: regs_on_def reg_remove_def)

lemma regs_on_op:
  "regs_on networks (reg_op op' regs) = (if op_network op' \<in> networks then reg_op op' (regs_on networks regs) else regs_on networks regs)"
  by (cases op') (simp_all add: reg_add_def regs_on_name regs_on_remove)

lemma regs_on_history:
  "regs_on networks (fold reg_op ops regs) = fold reg_op (filter (\<lambda>op'. op_network op' \<in> networks) ops) (regs_on networks regs)"
  by (induction ops arbitrary: regs) (simp_all add: regs_on_op)

lemma regs_on_answers:
  assumes "network \<in> networks"
  shows "reg_lookup (regs_on networks regs) network name = reg_lookup regs network name"
    and "reg_reverse (regs_on networks regs) network ip = reg_reverse regs network ip"
proof -
  have "reg_addresses (regs_on networks regs) network name = reg_addresses regs network name"
    and names: "reg_names (regs_on networks regs) network ip = reg_names regs network ip" for name
    using assms by (induction regs) (auto simp: regs_on_def reg_addresses_def reg_names_def)
  then show "reg_lookup (regs_on networks regs) network name = reg_lookup regs network name"
    by (simp add: reg_lookup_def split: list.split option.split)
  show "reg_reverse (regs_on networks regs) network ip = reg_reverse regs network ip" using names by (simp add: reg_reverse_def)
qed

lemma history_on:
  assumes "network \<in> networks"
  shows "Zone_lookup (zone_history (filter (\<lambda>op'. op_network op' \<in> networks) ops)) network name = Zone_lookup (zone_history ops) network name"
    and "Zone_reverse (zone_history (filter (\<lambda>op'. op_network op' \<in> networks) ops)) network ip = Zone_reverse (zone_history ops) network ip"
  using regs_on_answers [OF assms, of "fold reg_op ops []"] unfolding zone_history_def zone.history_answers regs_on_history
  by (simp_all add: regs_on_def)

text \<open>What is answered is what the networks of the scope answer.\<close>

lemma search_networks_cong:
  assumes "\<And>network. network \<in> set networks \<Longrightarrow> Zone_lookup z network asked = Zone_lookup z' network asked"
  shows "search_networks z asked t known records networks = search_networks z' asked t known records networks"
  using assms by (induction networks arbitrary: known records) (simp_all add: Let_def)

lemma find_map_list_cong: "(\<And>x. x \<in> set xs \<Longrightarrow> f x = g x) \<Longrightarrow> find_map_list f xs = find_map_list g xs"
  by (induction xs) (auto split: option.split)

lemma local_records_cong:
  assumes "\<And>network name. network \<in> set (sc_networks scope) \<Longrightarrow> Zone_lookup z network name = Zone_lookup z' network name"
    and "\<And>network ip. network \<in> set (sc_networks scope) \<Longrightarrow> Zone_reverse z network ip = Zone_reverse z' network ip"
  shows "local_records hk shuffle question z scope = local_records hk shuffle question z' scope"
proof -
  have rev_eq: "find_map_list (\<lambda>network. Zone_reverse z network ip) (sc_networks scope) =
      find_map_list (\<lambda>network. Zone_reverse z' network ip) (sc_networks scope)" for ip
    using assms(2) by (rule find_map_list_cong)
  have fwd_eq: "search_networks z asked t known records (sc_networks scope) = search_networks z' asked t known records (sc_networks scope)"
    for asked t known and records :: "'a RData list"
    using assms(1) by (rule search_networks_cong)
  show ?thesis unfolding local_records_def rev_eq fwd_eq ..
qed

lemma answer_in_cong:
  assumes "\<And>network name. network \<in> set (sc_networks scope) \<Longrightarrow> Zone_lookup z network name = Zone_lookup z' network name"
    and "\<And>network ip. network \<in> set (sc_networks scope) \<Longrightarrow> Zone_reverse z network ip = Zone_reverse z' network ip"
  shows "answer_in hk shuffle query z scope = answer_in hk shuffle query z' scope"
proof -
  have "local_records hk shuffle question z scope = local_records hk shuffle question z' scope" for question
    using assms by (rule local_records_cong)
  then show ?thesis unfolding answer_in_def by presburger
qed

section \<open>The order of networks\<close>

text \<open>The first network with an address of the asked family answers.\<close>

definition family_records :: "Zone \<Rightarrow> string \<Rightarrow> RecordType \<Rightarrow> string \<Rightarrow> 'n RData list" where
  "family_records z asked t network = List.map_filter (rdata_of t) (Zone_lookup z network asked)"

lemma search_networks_result:
  "search_networks z asked t known ([] :: 'n RData list) networks =
     (known \<or> (\<exists>network\<in>set networks. Zone_lookup z network asked \<noteq> []),
      (case find (\<lambda>network. family_records z asked t network \<noteq> ([] :: 'n RData list)) networks of
         None \<Rightarrow> []
       | Some network \<Rightarrow> family_records z asked t network))"
proof (induction networks arbitrary: known)
  case (Cons network networks)
  show ?case
  proof (cases "family_records z asked t network = ([] :: 'n RData list)")
    case True
    then show ?thesis using Cons by (auto simp: Let_def family_records_def)
  next
    case False
    then have "Zone_lookup z network asked \<noteq> []" by (auto simp: family_records_def)
    then show ?thesis using False by (simp add: Let_def family_records_def)
  qed
qed simp

lemma find_map_list_append: "find_map_list f xs = Some y \<Longrightarrow> find_map_list f (xs @ ys) = Some y"
  by (induction xs) (auto split: option.splits)

lemma find_append_Some: "find P xs = Some x \<Longrightarrow> find P (xs @ ys) = Some x"
  by (induction xs) auto

text \<open>A network the container is connected to later does not change what the others answer.\<close>

lemma local_records_append:
  assumes "local_records hk shuffle question z scope = Some (r # rs)" and "shuffle [] = []"
  shows "local_records hk shuffle question z (scope\<lparr>sc_networks := sc_networks scope @ later\<rparr>) = Some (r # rs)"
proof -
  define asked where "asked = hk_to_ascii hk (q_name question)"
  define target where "target networks = (if q_type question = RtPTR
    then Option.bind (reverse_address (hk_labels hk (q_name question)))
      (\<lambda>ip. find_map_list (\<lambda>network. Zone_reverse z network ip) networks) else None)" for networks
  have class_in: "q_class question = ClassIN" using assms(1) by (simp add: local_records_def split: if_splits)
  have unfold: "local_records hk shuffle question z (scope\<lparr>sc_networks := networks\<rparr>) =
    (case target networks of
       Some t \<Rightarrow> map_option (\<lambda>n. [\<lparr>rr_name = q_name question, rr_ttl = TTL, rr_data = RdPTR n\<rparr>]) (hk_from_ascii hk (t @ ''.''))
     | None \<Rightarrow>
         (case search_networks z asked (q_type question) False [] networks of
            (known, records) \<Rightarrow> if \<not> known then None
              else Some (shuffle (map (\<lambda>d. \<lparr>rr_name = q_name question, rr_ttl = TTL, rr_data = d\<rparr>) records))))" for networks
    using class_in unfolding local_records_def Let_def target_def [symmetric] asked_def [symmetric]
    by (cases "target networks") (simp_all add: target_def asked_def)
  have now: "local_records hk shuffle question z (scope\<lparr>sc_networks := sc_networks scope\<rparr>) = Some (r # rs)" using assms(1) by simp
  show ?thesis
  proof (cases "target (sc_networks scope)")
    case (Some t)
    then have "target (sc_networks scope @ later) = Some t"
      by (auto simp: target_def find_map_list_append split: if_splits bind_splits)
    then show ?thesis using now Some unfolding unfold by simp
  next
    case None
    have found: "find (\<lambda>network. family_records z asked (q_type question) network \<noteq> ([] :: 'a RData list)) (sc_networks scope) \<noteq> None"
      using now None assms(2) unfolding unfold search_networks_result by (auto split: if_splits option.splits)
    then obtain network where network: "find (\<lambda>network. family_records z asked (q_type question) network \<noteq> ([] :: 'a RData list)) (sc_networks scope) = Some network"
      by blast
    have "q_type question \<noteq> RtPTR"
    proof
      assume "q_type question = RtPTR"
      then have "family_records z asked (q_type question) n = ([] :: 'a RData list)" for n
        by (simp add: family_records_def rdata_of_def map_filter_def)
      then show False using network by (simp add: find_Some_iff)
    qed
    then have "target networks = None" for networks by (simp add: target_def)
    then show ?thesis using now find_append_Some [OF network, of later] network
      unfolding unfold search_networks_result by (auto split: if_splits)
  qed
qed

section \<open>Reverse names\<close>

text \<open>The labels of an address, as RFC 1035 and RFC 3596 write them.\<close>

fun reverse_labels :: "IpAddr \<Rightarrow> string list" where
  "reverse_labels (V4 ip) = map (\<lambda>b. dec (unat b)) (rev (octets ip)) @ [''in-addr'', ''arpa'']"
| "reverse_labels (V6 ip) = map (\<lambda>i. [hex_char (unat ip div 16 ^ i mod 16)]) [0..<32] @ [''ip6'', ''arpa'']"

lemma to_lower_digit: "is_digit (to_lower c) \<Longrightarrow> to_lower c = c"
  by (auto simp: to_lower_def is_digit_def Let_def split: if_splits)

lemma digit_to_lower: "is_digit c \<Longrightarrow> to_lower c = c"
  by (auto simp: to_lower_def is_digit_def Let_def)

lemma lower_dec: "map to_lower label = dec n \<longleftrightarrow> label = dec n"
proof
  assume lower: "map to_lower label = dec n"
  have "to_lower c = c" if "c \<in> set label" for c
  proof -
    have "to_lower c \<in> set (dec n)" using that lower [symmetric] by simp
    then show ?thesis using dec_digits [of n] to_lower_digit by (auto simp: list_all_iff)
  qed
  then have "map to_lower label = label" by (simp add: map_idI)
  then show "label = dec n" using lower by simp
next
  assume "label = dec n"
  then show "map to_lower label = dec n" using dec_digits [of n] digit_to_lower by (auto simp: list_all_iff intro: map_idI)
qed

lemma reverse_octet_iff: "reverse_octet label = Some b \<longleftrightarrow> label = dec (unat b)"
proof
  assume "reverse_octet label = Some b"
  then obtain n where n: "parse_uint 8 label = Some n" "dec n = label" "b = of_nat n"
    by (auto simp: reverse_octet_def split: option.splits if_splits)
  then have "unat b = n" using parse_uint_bound [OF n(1)] by (simp add: unat_of_nat take_bit_eq_mod)
  then show "label = dec (unat b)" using n by simp
next
  assume "label = dec (unat b)"
  then show "reverse_octet label = Some b" using unat_bound [of b] by (simp add: reverse_octet_def)
qed

lemma octets_from: "octets (from_octets [a, b, c, d]) = [a, b, c, d]"
proof -
  have "from_octets [a, b, c, d] = from_octets [a', b', c', d'] \<Longrightarrow> [a, b, c, d] = [a', b', c', d']" for a' b' c' d' :: u8
  proof -
    assume eq: "from_octets [a, b, c, d] = from_octets [a', b', c', d']"
    have bits: "bit (from_octets [a, b, c, d]) n = bit (from_octets [a', b', c', d']) n" for n using eq by simp
    show ?thesis
    proof (simp, intro conjI bit_word_eqI)
      fix n :: nat
      assume n: "n < LENGTH(8)"
      show "bit a n = bit a' n" using bits [of "n + 24"] n by (auto simp: from_octets_def bit_simps dest: bit_imp_le_length)
      show "bit b n = bit b' n" using bits [of "n + 16"] n by (auto simp: from_octets_def bit_simps dest: bit_imp_le_length)
      show "bit c n = bit c' n" using bits [of "n + 8"] n by (auto simp: from_octets_def bit_simps dest: bit_imp_le_length)
      show "bit d n = bit d' n" using bits [of n] n by (auto simp: from_octets_def bit_simps dest: bit_imp_le_length)
    qed
  qed
  moreover obtain a' b' c' d' where "octets (from_octets [a, b, c, d]) = [a', b', c', d']" by (simp add: octets_def)
  ultimately show ?thesis using unat_octets [of "from_octets [a, b, c, d]"] by metis
qed

lemma reverse_ipv4_iff: "reverse_ipv4 labels = Some ip \<longleftrightarrow> labels = map (\<lambda>b. dec (unat b)) (rev (octets ip))"
proof
  assume "reverse_ipv4 labels = Some ip"
  then obtain a b c d where ip: "ip = from_octets [a, b, c, d]" "labels = [dec (unat d), dec (unat c), dec (unat b), dec (unat a)]"
    by (auto simp: reverse_ipv4_def reverse_octet_iff split: list.splits option.splits)
  then show "labels = map (\<lambda>b. dec (unat b)) (rev (octets ip))" unfolding ip octets_from by simp
next
  assume labels: "labels = map (\<lambda>b. dec (unat b)) (rev (octets ip))"
  obtain a b c d where o: "octets ip = [a, b, c, d]" by (simp add: octets_def)
  have "reverse_octet (dec (unat x)) = Some x" for x using reverse_octet_iff by blast
  then show "reverse_ipv4 labels = Some ip" using labels o unat_octets [of ip] by (simp add: reverse_ipv4_def)
qed

text \<open>Nibbles.\<close>

lemma hex_value_iff: "hex_value c = Some d \<longleftrightarrow> d < 16 \<and> to_lower c = hex_char d"
proof -
  define n where "n = (of_char c :: nat)"
  have c: "c = char_of n" "n < 256" "(of_char c :: nat) = n" by (simp_all add: n_def)
  have eq: "char_of m = (char_of k :: char) \<longleftrightarrow> m = k" if "m < 256" "k < 256" for m k :: nat
    using that by simp
  show ?thesis
    unfolding hex_value_def hex_char_def to_lower_def Let_def c(3) using c(2)
    by (auto simp: c(1) eq split: if_splits)
qed

definition nibbles_value :: "nat list \<Rightarrow> nat" where
  "nibbles_value ds = foldl (\<lambda>v d. v * 16 + d) 0 ds"

lemma nibbles_value_snoc [simp]: "nibbles_value (ds @ [d]) = nibbles_value ds * 16 + d"
  by (simp add: nibbles_value_def)

lemma nibbles_value_less: "list_all (\<lambda>d. d < 16) ds \<Longrightarrow> nibbles_value ds < 16 ^ length ds"
proof (induction ds rule: rev_induct)
  case (snoc d ds)
  then show ?case by (simp add: list_all_append)
qed (simp add: nibbles_value_def)

lemma nibbles_of_value: "list_all (\<lambda>d. d < 16) ds \<Longrightarrow> rev ds = map (\<lambda>i. nibbles_value ds div 16 ^ i mod 16) [0..<length ds]"
proof (induction ds rule: rev_induct)
  case (snoc d ds)
  have "map (\<lambda>i. nibbles_value (ds @ [d]) div 16 ^ i mod 16) [0..<Suc (length ds)] =
      nibbles_value (ds @ [d]) mod 16 # map (\<lambda>i. nibbles_value (ds @ [d]) div 16 ^ Suc i mod 16) [0..<length ds]"
    by (simp add: upt_conv_Cons map_Suc_upt [symmetric] del: upt_Suc)
  moreover have "nibbles_value (ds @ [d]) div 16 ^ Suc i = nibbles_value ds div 16 ^ i" for i
    using snoc.prems by (simp add: div_mult2_eq list_all_append)
  ultimately show ?case using snoc by (simp add: list_all_append)
qed simp

lemma value_of_nibbles: "v < 16 ^ k \<Longrightarrow> nibbles_value (rev (map (\<lambda>i. v div 16 ^ i mod 16) [0..<k])) = v"
proof (induction k arbitrary: v)
  case (Suc k)
  have "map (\<lambda>i. v div 16 ^ i mod 16) [0..<Suc k] = v mod 16 # map (\<lambda>i. (v div 16) div 16 ^ i mod 16) [0..<k]"
    by (simp add: upt_conv_Cons map_Suc_upt [symmetric] div_mult2_eq del: upt_Suc)
  moreover have "nibbles_value (rev (map (\<lambda>i. (v div 16) div 16 ^ i mod 16) [0..<k])) = v div 16"
    using Suc.prems by (intro Suc.IH) (simp add: less_mult_imp_div_less)
  ultimately show ?case by simp
qed (simp add: nibbles_value_def)

lemma shift_nibble:
  assumes "d < 16"
  shows "push_bit 4 b OR of_nat d = b * 16 + (of_nat d :: u128)"
proof -
  have "push_bit 4 b AND of_nat d = (0 :: u128)"
  proof (rule bit_word_eqI)
    fix n
    assume "n < LENGTH(128)"
    have "\<not> bit d n" if "4 \<le> n"
    proof -
      have "take_bit 4 d = d" using assms by (simp add: take_bit_eq_mod)
      then show ?thesis using that by (metis bit_take_bit_iff not_le)
    qed
    then show "bit (push_bit 4 b AND of_nat d) n = bit (0 :: u128) n" by (auto simp: bit_simps)
  qed
  then show ?thesis by (simp add: disjunctive_add_eq_or [symmetric] push_bit_eq_mult)
qed

lemma foldl_nibbles_cong:
  "(of_nat x :: u128) = of_nat y \<Longrightarrow> of_nat (foldl (\<lambda>v d. v * 16 + d) x ds) = (of_nat (foldl (\<lambda>v d. v * 16 + d) y ds) :: u128)"
  by (induction ds arbitrary: x y) simp_all

lemma reverse_nibbles_iff:
  "reverse_nibbles b labels = Some r \<longleftrightarrow>
     (\<exists>ds. list_all (\<lambda>d. d < 16) ds \<and> map (map to_lower) labels = map (\<lambda>d. [hex_char d]) ds \<and>
        r = of_nat (foldl (\<lambda>v d. v * 16 + d) (unat b) ds))"
proof (induction labels arbitrary: b)
  case Nil
  then show ?case by auto
next
  case (Cons label labels)
  show ?case
  proof
    assume "reverse_nibbles b (label # labels) = Some r"
    then obtain c d where c: "label = [c]" "hex_value c = Some d" "reverse_nibbles (push_bit 4 b OR of_nat d) labels = Some r"
      by (auto split: list.splits option.splits)
    then have d: "d < 16" "to_lower c = hex_char d" by (simp_all add: hex_value_iff)
    obtain ds where "list_all (\<lambda>d. d < 16) ds" "map (map to_lower) labels = map (\<lambda>d. [hex_char d]) ds"
        "r = of_nat (foldl (\<lambda>v d. v * 16 + d) (unat (push_bit 4 b OR of_nat d)) ds)"
      using c(3) Cons.IH by blast
    moreover have "of_nat (unat (push_bit 4 b OR of_nat d)) = (of_nat (unat b * 16 + d) :: u128)"
      by (simp add: shift_nibble [OF d(1)])
    ultimately show "\<exists>ds. list_all (\<lambda>d. d < 16) ds \<and> map (map to_lower) (label # labels) = map (\<lambda>d. [hex_char d]) ds \<and>
        r = of_nat (foldl (\<lambda>v d. v * 16 + d) (unat b) ds)"
      using d c(1) foldl_nibbles_cong [of "unat (push_bit 4 b OR of_nat d)" "unat b * 16 + d" ds] by (intro exI [of _ "d # ds"]) auto
  next
    assume "\<exists>ds. list_all (\<lambda>d. d < 16) ds \<and> map (map to_lower) (label # labels) = map (\<lambda>d. [hex_char d]) ds \<and>
        r = of_nat (foldl (\<lambda>v d. v * 16 + d) (unat b) ds)"
    then obtain d ds where ds: "d < 16" "list_all (\<lambda>d. d < 16) ds" "map to_lower label = [hex_char d]"
        "map (map to_lower) labels = map (\<lambda>d. [hex_char d]) ds" "r = of_nat (foldl (\<lambda>v d. v * 16 + d) (unat b * 16 + d) ds)"
      by (auto simp: map_eq_Cons_conv Cons_eq_map_conv)
    then obtain c where c: "label = [c]" "hex_value c = Some d" by (auto simp: hex_value_iff)
    have "of_nat (unat (push_bit 4 b OR of_nat d)) = (of_nat (unat b * 16 + d) :: u128)"
      by (simp add: shift_nibble [OF ds(1)])
    then have "r = of_nat (foldl (\<lambda>v d. v * 16 + d) (unat (push_bit 4 b OR of_nat d)) ds)" using ds(5) foldl_nibbles_cong by metis
    then have "reverse_nibbles (push_bit 4 b OR of_nat d) labels = Some r" using Cons.IH ds(2,4) by blast
    then show "reverse_nibbles b (label # labels) = Some r" using c by simp
  qed
qed

lemma of_nat_unat_nibbles:
  assumes "list_all (\<lambda>d. d < 16) ds" and "length ds = 32"
  shows "unat (of_nat (nibbles_value ds) :: u128) = nibbles_value ds"
proof -
  have "nibbles_value ds < 2 ^ 128" using nibbles_value_less [OF assms(1)] assms(2) by simp
  then show ?thesis by (simp add: unat_of_nat take_bit_eq_mod)
qed

lemma reverse_ipv6_iff:
  "reverse_ipv6 labels = Some ip \<longleftrightarrow> map (map to_lower) labels = map (\<lambda>i. [hex_char (unat ip div 16 ^ i mod 16)]) [0..<32]"
proof
  assume "reverse_ipv6 labels = Some ip"
  then have len: "length labels = 32" and "reverse_nibbles 0 (rev labels) = Some ip" by (auto simp: reverse_ipv6_def split: if_splits)
  then obtain ds where ds: "list_all (\<lambda>d. d < 16) ds" "map (map to_lower) (rev labels) = map (\<lambda>d. [hex_char d]) ds"
      "ip = of_nat (nibbles_value ds)"
    unfolding reverse_nibbles_iff nibbles_value_def by auto
  have "length ds = 32" using ds(2) len by (metis length_map length_rev)
  then have ip: "unat ip = nibbles_value ds" using ds of_nat_unat_nibbles by simp
  have "map (map to_lower) labels = map (\<lambda>d. [hex_char d]) (rev ds)" using ds(2) by (metis rev_map rev_rev_ident)
  also have "rev ds = map (\<lambda>i. unat ip div 16 ^ i mod 16) [0..<32]"
    using nibbles_of_value [OF ds(1)] \<open>length ds = 32\<close> ip by simp
  finally show "map (map to_lower) labels = map (\<lambda>i. [hex_char (unat ip div 16 ^ i mod 16)]) [0..<32]" by (simp add: comp_def)
next
  assume labels: "map (map to_lower) labels = map (\<lambda>i. [hex_char (unat ip div 16 ^ i mod 16)]) [0..<32]"
  define ds where "ds = rev (map (\<lambda>i. unat ip div 16 ^ i mod 16) [0..<32])"
  have "unat ip < 16 ^ 32" using unat_bound [of ip] by simp
  then have "nibbles_value ds = unat ip" unfolding ds_def by (rule value_of_nibbles)
  then have "ip = of_nat (foldl (\<lambda>v d. v * 16 + d) (unat (0 :: u128)) ds)" by (simp add: nibbles_value_def)
  moreover have "list_all (\<lambda>d. d < 16) ds" by (simp add: ds_def list_all_iff)
  moreover have "map (map to_lower) (rev labels) = map (\<lambda>d. [hex_char d]) ds" using labels by (simp add: ds_def rev_map [symmetric] comp_def)
  ultimately have "reverse_nibbles 0 (rev labels) = Some ip" unfolding reverse_nibbles_iff by blast
  moreover have "length labels = 32" using arg_cong [OF labels, of length] by simp
  ultimately show "reverse_ipv6 labels = Some ip" by (simp add: reverse_ipv6_def)
qed

lemma lower_name: "list_all (\<lambda>c. to_lower c = c) t \<Longrightarrow> eq_ignore_case s t \<longleftrightarrow> map to_lower s = t"
  by (simp add: eq_ignore_case_def list_all_iff map_idI)

lemma lower_literals: "list_all (\<lambda>c. to_lower c = c) ''arpa''" "list_all (\<lambda>c. to_lower c = c) ''in-addr''" "list_all (\<lambda>c. to_lower c = c) ''ip6''"
  by code_simp+

lemma lower_dec_labels: "map (map to_lower) labels = map (\<lambda>b. dec (unat b)) bs \<longleftrightarrow> labels = map (\<lambda>b. dec (unat b)) bs"
  by (induction labels arbitrary: bs) (auto simp: Cons_eq_map_conv map_eq_Cons_conv lower_dec)

lemma reverse_address_iff: "reverse_address labels = Some ip \<longleftrightarrow> map (map to_lower) labels = reverse_labels ip"
proof (cases "rev labels")
  case (Cons arpa rest)
  show ?thesis
  proof (cases rest)
    case Nil
    then have "labels = [arpa]" using Cons by (metis rev_singleton_conv)
    then show ?thesis by (cases ip) (simp_all add: reverse_address_def octets_def)
  next
    case rest: (Cons domain address)
    then have labels: "labels = rev address @ [domain, arpa]" using Cons by (metis append.assoc append_Cons append_Nil rev.simps(2) rev_rev_ident)
    have split: "map (map to_lower) labels = xs @ [x, y] \<longleftrightarrow>
        map (map to_lower) (rev address) = xs \<and> map to_lower domain = x \<and> map to_lower arpa = y" for xs x y
      by (simp add: labels)
    show ?thesis
      using lower_literals
      by (cases ip) (auto simp: reverse_address_def Cons rest lower_name reverse_ipv4_iff reverse_ipv6_iff split lower_dec_labels)
  qed
next
  case Nil
  then show ?thesis by (cases ip) (simp_all add: reverse_address_def octets_def)
qed

section \<open>Forwarding\<close>

text \<open>A server's answer with the client's ID; whether it is one to pass on.\<close>

definition restored :: "string \<Rightarrow> string \<Rightarrow> string" where
  "restored query answer = take 2 query @ drop 2 answer"

definition passed_on :: "string \<Rightarrow> bool" where
  "passed_on answer \<longleftrightarrow> low_code answer \<noteq> 2 \<and> low_code answer \<noteq> 5"

lemma forward_loop_result:
  "forward_loop exchange query failed upstreams =
     (let answers = map (restored query) (List.map_filter exchange upstreams)
      in case find passed_on answers of
           Some answer \<Rightarrow> Some answer
         | None \<Rightarrow> (case failed of Some f \<Rightarrow> Some f | None \<Rightarrow> (case answers of [] \<Rightarrow> None | a # _ \<Rightarrow> Some a)))"
proof (induction upstreams arbitrary: failed)
  case (Cons upstream upstreams)
  then show ?case
    by (auto simp: Let_def passed_on_def restored_def split: option.splits)
qed (simp add: Let_def split: option.split)

section \<open>Frames\<close>

lemma read_written:
  assumes "write_message m = Some bytes"
  shows "read_message (bytes @ rest) = Some (m, rest)"
proof -
  have "length m < 2 ^ 16" and bytes: "bytes = char_of (length m div 256) # char_of (length m mod 256) # m"
    using assms by (auto simp: write_message_def split: if_splits)
  then have "(of_char (char_of (length m div 256) :: char) :: nat) * 256 + of_char (char_of (length m mod 256) :: char) = length m"
    by simp
  then show ?thesis by (simp add: bytes read_message_def Let_def)
qed

lemma exchange_frames:
  assumes "\<forall>m\<in>set ms. length m < 2 ^ 16"
  shows "exchange_tcp ident query (concat (map (\<lambda>m. the (write_message m)) ms)) = exchange_udp ident query ms"
  using assms
proof (induction ms)
  case Nil
  then show ?case by (simp add: exchange_tcp.simps exchange_udp_def read_message_def)
next
  case (Cons m ms)
  then obtain bytes where bytes: "write_message m = Some bytes" by (auto simp: write_message_def)
  show ?case using Cons read_written [OF bytes] bytes
    by (simp add: exchange_tcp.simps [of ident query "bytes @ _"] exchange_udp_def)
qed

text \<open>A question as it is encoded, labels with their lengths, is read back.\<close>

definition encode_labels :: "string list \<Rightarrow> string" where
  "encode_labels labels = concat (map (\<lambda>l. char_of (length l) # l) labels) @ [CHR 0x00]"

lemma question_end_labels:
  assumes "list_all (\<lambda>l. l \<noteq> [] \<and> length l < 64) labels"
  shows "question_end (pre @ encode_labels labels @ rest) (length pre) = Some (length pre + length (encode_labels labels))"
  using assms
proof (induction labels arbitrary: pre)
  case Nil
  then show ?case by (subst question_end.simps) (simp add: encode_labels_def nth_append)
next
  case (Cons l labels)
  have "question_end (pre @ encode_labels (l # labels) @ rest) (length pre) =
      question_end (pre @ encode_labels (l # labels) @ rest) (length pre + 1 + length l)"
    using Cons.prems by (subst question_end.simps) (simp add: encode_labels_def nth_append Let_def)
  also have "pre @ encode_labels (l # labels) @ rest = (pre @ char_of (length l) # l) @ encode_labels labels @ rest"
    by (simp add: encode_labels_def)
  also have "question_end \<dots> (length pre + 1 + length l) = Some (length (pre @ char_of (length l) # l) + length (encode_labels labels))"
    using Cons.IH [of "pre @ char_of (length l) # l"] Cons.prems by simp
  finally show ?case by (simp add: encode_labels_def)
qed

lemma question_encoded:
  assumes "list_all (\<lambda>l. l \<noteq> [] \<and> length l < 64) labels" and "length header = 12" and "take 2 (drop 4 header) = [CHR 0x00, CHR 0x01]"
    and "length kind = 4"
  shows "dns_question (header @ encode_labels labels @ kind @ rest) = Some (encode_labels labels, kind)"
  using question_end_labels [OF assms(1), of header "kind @ rest"] assms(2-4)
  by (simp add: dns_question_def HEADER_LEN_def get_range_def)

section \<open>What the server promises\<close>

text \<open>C33: After any sequence of registrations and removals, a look-up gives the addresses registered under the name on
  the network and not removed since, in the order they were registered (a name qualified by the network's name
  stands for the bare one, unless it is registered itself), and an address has the first name it was registered
  under.\<close>

theorem zone_answers_registrations:
  "Zone_lookup (zone_history ops) network name = reg_lookup (fold reg_op ops []) network name \<and>
   Zone_reverse (zone_history ops) network ip = reg_reverse (fold reg_op ops []) network ip"
  unfolding zone_history_def using zone.history_answers by blast

text \<open>C32: A container learns nothing of the networks it is not on: whatever it sends, over UDP or TCP, the reply is the
  one it would get if the daemon had never registered or removed anything on other networks.\<close>

theorem dns_isolation:
  fixes hk :: "('n, 'x) Hickory_scheme"
  shows "let own_zone = zone_history (filter (\<lambda>op'. op_network op' \<in> set (sc_networks scope)) ops)
   in serve_datagram hk shuffle exchange permits own client query (zone_history ops) scope =
        serve_datagram hk shuffle exchange permits own client query own_zone scope \<and>
      serve_connection hk shuffle exchange permits query (zone_history ops) scope =
        serve_connection hk shuffle exchange permits query own_zone scope"
proof -
  have "answer_in hk shuffle query (zone_history ops) scope =
      answer_in hk shuffle query (zone_history (filter (\<lambda>op'. op_network op' \<in> set (sc_networks scope)) ops)) scope"
    by (rule answer_in_cong) (simp_all add: history_on)
  then show ?thesis by (simp add: serve_datagram_def serve_connection_def)
qed

text \<open>C34: A question of class IN for addresses is answered by the first network of the scope that has the name with an
  address of the asked family, with all of them; a name the networks have only with other addresses gets an
  answer without records; and a name none of them has is not answered locally.\<close>

theorem first_network_answers:
  fixes hk :: "('n, 'x) Hickory_scheme"
  assumes "\<And>xs. mset (shuffle xs) = mset xs" and "q_class question = ClassIN" and "q_type question \<noteq> RtPTR"
  defines "asked \<equiv> hk_to_ascii hk (q_name question)"
  shows "case local_records hk shuffle question z scope of
     None \<Rightarrow> \<forall>network\<in>set (sc_networks scope). Zone_lookup z network asked = []
   | Some records \<Rightarrow>
       (\<exists>network\<in>set (sc_networks scope). Zone_lookup z network asked \<noteq> []) \<and>
       (\<forall>r\<in>set records. rr_name r = q_name question \<and> rr_ttl r = TTL) \<and>
       mset (map rr_data records) = mset
         (case find (\<lambda>network. List.map_filter (rdata_of (q_type question)) (Zone_lookup z network asked) \<noteq> ([] :: 'n RData list)) (sc_networks scope) of
            None \<Rightarrow> []
          | Some network \<Rightarrow> List.map_filter (rdata_of (q_type question)) (Zone_lookup z network asked))"
proof -
  define found :: "'n RData list" where "found = (case find (\<lambda>network. family_records z asked (q_type question) network \<noteq> ([] :: 'n RData list)) (sc_networks scope) of
         None \<Rightarrow> [] | Some network \<Rightarrow> family_records z asked (q_type question) network)"
  define known where "known = (\<exists>network\<in>set (sc_networks scope). Zone_lookup z network asked \<noteq> [])"
  define rs where "rs = map (\<lambda>d. \<lparr>rr_name = q_name question, rr_ttl = TTL, rr_data = d\<rparr>) found"
  have local: "local_records hk shuffle question z scope = (if \<not> known then None else Some (shuffle rs))"
    using assms(2,3) search_networks_result [of z asked "q_type question" False "sc_networks scope", where 'n = 'n]
    by (simp add: local_records_def Let_def asked_def [symmetric] found_def known_def rs_def)
  have set_rs: "set (shuffle rs) = set rs" using assms(1) [of rs] by (metis set_mset_mset)
  have "mset (map rr_data (shuffle rs)) = mset (map rr_data rs)" using assms(1) [of rs] by (metis mset_map)
  then have data: "mset (map rr_data (shuffle rs)) = mset found" by (simp add: rs_def comp_def)
  show ?thesis
  proof (cases known)
    case True
    then show ?thesis using data set_rs unfolding local known_def found_def family_records_def by (auto simp: rs_def)
  qed (simp add: local known_def)
qed

text \<open>Connecting a container to further networks does not change an answer it already gets.\<close>

theorem connecting_keeps_answers:
  assumes "local_records hk shuffle question z scope = Some (r # rs)" and "\<And>xs. mset (shuffle xs) = mset xs"
  shows "local_records hk shuffle question z (scope\<lparr>sc_networks := sc_networks scope @ later\<rparr>) = Some (r # rs)"
proof -
  have "shuffle [] = []" using assms(2) [of "[]"] by simp
  then show ?thesis using local_records_append [OF assms(1)] by blast
qed

text \<open>C35: A name is read as the address whose reverse name it is, in any case of letters, and every other name as none.\<close>

theorem reverse_name_of_address: "reverse_address labels = Some ip \<longleftrightarrow> map (map to_lower) labels = reverse_labels ip"
  by (rule reverse_address_iff)

text \<open>A forwarded query gets the first answer of an upstream server that is neither SERVFAIL nor REFUSED, else the
  first of those, else SERVFAIL of the server's own; an answer is a message received that answers the query as it
  was sent, with the client's ID put back; and it is the same one over UDP and over TCP.\<close>

theorem forwarded_answer:
  assumes "\<forall>upstream. \<forall>m\<in>set (received upstream). length m < 2 ^ 16"
  shows "let udp = (\<lambda>upstream. exchange_udp (ident upstream) query (received upstream));
       tcp = (\<lambda>upstream. exchange_tcp (ident upstream) query (concat (map (\<lambda>m. the (write_message m)) (received upstream))));
       answers = map (\<lambda>m. take 2 query @ drop 2 m)
         (List.map_filter (\<lambda>upstream. find (\<lambda>m. is_answer_to m (ident upstream) (with_id (ident upstream) query)) (received upstream))
            (sc_upstreams scope))
   in forward hk udp query scope =
        (case find (\<lambda>a. low_code a \<noteq> 2 \<and> low_code a \<noteq> 5) answers of
           Some answer \<Rightarrow> answer
         | None \<Rightarrow> (case answers of answer # _ \<Rightarrow> answer | [] \<Rightarrow> failure hk query ServFail scope)) \<and>
      forward hk tcp query scope = forward hk udp query scope"
proof -
  have "exchange_tcp (ident upstream) query (concat (map (\<lambda>m. the (write_message m)) (received upstream))) =
      exchange_udp (ident upstream) query (received upstream)" for upstream
    using assms exchange_frames by blast
  then show ?thesis
    by (simp add: Let_def forward_def forward_loop_result restored_def [abs_def] passed_on_def [abs_def] exchange_udp_def split: option.split list.split)
qed

section \<open>A server\<close>

text \<open>Names as their labels, and no messages: enough of \<open>hickory_proto\<close> to look names up.\<close>

definition label_names :: "(string list) Hickory" where
  "label_names =
     \<lparr>hk_header = (\<lambda>_. None), hk_message = (\<lambda>_. None), hk_to_vec = (\<lambda>_. None), hk_emit = (\<lambda>_ _. None),
      hk_response = (\<lambda>ident opcode. \<lparr>ms_metadata = \<lparr>md_id = ident, md_message_type = IsResponse, md_op_code = opcode,
        md_authoritative = False, md_recursion_available = False, md_response_code = NoError\<rparr>, ms_queries = [], ms_answers = [],
        ms_max_payload = 512\<rparr>),
      hk_response_from_request = (\<lambda>m. m\<lparr>md_message_type := IsResponse\<rparr>),
      hk_labels = (\<lambda>n. n), hk_to_ascii = join_with ''.'', hk_from_ascii = (\<lambda>s. Some (split_on (CHR ''.'') s))\<rparr>"

definition example_zone :: Zone where
  "example_zone = zone_history
     [AddNames ''front'' (V6 7) [''Web''], AddNames ''back'' (V4 1) [''web'', ''db''], AddNames ''back'' (V4 2) [''web''],
      RemoveAddress ''back'' (V4 1)]"

definition example_question :: "(string list) Query" where
  "example_question = \<lparr>q_name = [''WEB''], q_type = RtA, q_class = ClassIN\<rparr>"

definition example_scope :: Scope where
  "example_scope = \<lparr>sc_networks = [''front'', ''back''], sc_upstreams = []\<rparr>"

lemma example_answer:
  "local_records label_names (\<lambda>xs. xs) example_question example_zone example_scope =
     Some [\<lparr>rr_name = [''WEB''], rr_ttl = 600, rr_data = RdA 2\<rparr>]"
  by code_simp

theorem first_network_answers_witness:
  "local_records label_names (\<lambda>xs. xs) example_question example_zone example_scope \<noteq> None \<and>
   (\<exists>network\<in>set (sc_networks example_scope). Zone_lookup example_zone network (hk_to_ascii label_names (q_name example_question)) \<noteq> [])"
  using first_network_answers [where shuffle = "\<lambda>xs. xs" and question = example_question and hk = label_names and z = example_zone
      and scope = example_scope] example_answer
  by (simp add: example_question_def)

theorem connecting_keeps_answers_witness:
  "local_records label_names (\<lambda>xs. xs) example_question example_zone (example_scope\<lparr>sc_networks := sc_networks example_scope @ [''other'']\<rparr>) =
     Some [\<lparr>rr_name = [''WEB''], rr_ttl = 600, rr_data = RdA 2\<rparr>]"
  by (rule connecting_keeps_answers [OF example_answer]) simp

definition example_reply :: string where
  "example_reply = [CHR 0x01, CHR 0x02, CHR 0x80, CHR 0x00, CHR 0x00, CHR 0x00, CHR 0x00, CHR 0x00, CHR 0x00, CHR 0x00, CHR 0x00, CHR 0x00]"

theorem forwarded_answer_witness:
  "forward label_names (\<lambda>upstream. exchange_udp [CHR 0x01, CHR 0x02] [CHR 0x07, CHR 0x08, CHR 0x00] [''late'', example_reply])
     [CHR 0x07, CHR 0x08, CHR 0x00] \<lparr>sc_networks = [], sc_upstreams = [(V4 1, 53)]\<rparr> =
   [CHR 0x07, CHR 0x08] @ drop 2 example_reply"
proof -
  have "\<forall>upstream. \<forall>m\<in>set ((\<lambda>_ :: IpAddr \<times> u16. [''late'', example_reply]) upstream). length m < 2 ^ 16"
    by (simp add: example_reply_def)
  note * = forwarded_answer [OF this, of "\<lambda>_. [CHR 0x01, CHR 0x02]" "[CHR 0x07, CHR 0x08, CHR 0x00]"
      "\<lparr>sc_networks = [], sc_upstreams = [(V4 1, 53)]\<rparr>" label_names]
  have "find (\<lambda>m. is_answer_to m [CHR 0x01, CHR 0x02] (with_id [CHR 0x01, CHR 0x02] [CHR 0x07, CHR 0x08, CHR 0x00])) [''late'', example_reply] =
      Some example_reply"
    by code_simp
  moreover have "low_code ([CHR 0x07, CHR 0x08] @ drop 2 example_reply) = 0" by code_simp
  ultimately show ?thesis using * by (simp add: Let_def map_filter_def)
qed

end
