(* ===== verification/Sysctl.thy ===== *)
theory Sysctl
  imports Namespaces Btree
begin

text \<open>
  Kernel parameters of a container, \<^verbatim>\<open>rustlet-runtime/src/sysctl.rs\<close>: which keys may be set, against the
  namespaces the container gets. A \<open>HashMap\<close> of keys and values is a list of pairs with distinct keys, in any
  order. What \<open>stat\<close> says of a namespace file and the namespaces the runtime runs in are arguments
  (\<open>None\<close> is an error of the system call), and so is what a write to a file of \<^verbatim>\<open>/proc\<close> does to the kernel.
\<close>

record Sysctl =
  sy_key :: string
  sy_path :: "string list"
  sy_value :: string

datatype SysctlKind = KindIpc | KindNet | KindUts

datatype SysctlError =
    NulInKey string
  | NulInValue string
  | BadComponent string string
  | UseHostname string
  | NotNamespaced string
  | UtsWithUser string
  | NeedsNew string
  | SharesHosts string
  | JoinsHosts string
  | CannotStat

definition sysctl_components :: "string \<Rightarrow> SysctlError + string list" where
  "sysctl_components key =
     (if CHR 0x00 \<in> set key then Inl (NulInKey key)
      else let sep = (if CHR 0x2F \<in> set key then CHR 0x2F else CHR ''.'');
               parts = split_on sep key
           in case find (\<lambda>p. p \<in> {[], ''.'', ''..''}) parts of
                Some bad \<Rightarrow> Inl (BadComponent key bad)
              | None \<Rightarrow> Inr parts)"

fun kind_flag :: "SysctlKind \<Rightarrow> u64" where
  "kind_flag KindIpc = NEWIPC"
| "kind_flag KindNet = NEWNET"
| "kind_flag KindUts = NEWUTS"

definition IPC_KERNEL_KEYS :: "string list" where
  "IPC_KERNEL_KEYS = [''msgmax'', ''msgmnb'', ''msgmni'', ''sem'', ''shmall'', ''shmmax'', ''shmmni'', ''shm_rmid_forced'']"

definition namespace_of :: "string \<Rightarrow> string list \<Rightarrow> SysctlError + SysctlKind" where
  "namespace_of key parts =
     (case parts of
        [a, k] \<Rightarrow>
          if a = ''kernel'' \<and> k \<in> set IPC_KERNEL_KEYS then Inr KindIpc
          else if a = ''net'' then Inr KindNet
          else if a = ''kernel'' \<and> k = ''domainname'' then Inr KindUts
          else if a = ''kernel'' \<and> k = ''hostname'' then Inl (UseHostname key)
          else Inl (NotNamespaced key)
      | a # b # _ # _ \<Rightarrow>
          if a = ''fs'' \<and> b = ''mqueue'' then Inr KindIpc
          else if a = ''net'' then Inr KindNet
          else Inl (NotNamespaced key)
      | _ \<Rightarrow> Inl (NotNamespaced key))"

text \<open>\<open>stat\<close> gives the identity of a namespace file, \<open>ours\<close> that of the runtime's own namespace of a kind.\<close>

definition check_own_namespace ::
  "(string \<Rightarrow> (u64 \<times> u64) option) \<Rightarrow> (SysctlKind \<Rightarrow> (u64 \<times> u64) option) \<Rightarrow> string \<Rightarrow> SysctlKind \<Rightarrow> NamespacePlan \<Rightarrow> SysctlError + unit" where
  "check_own_namespace stat ours key kind ns =
     (if new_user ns \<and> kind = KindUts then Inl (UtsWithUser key)
      else if flags_contain (ns_clone_flags ns) (kind_flag kind) then Inr ()
      else if new_user ns then Inl (NeedsNew key)
      else case find (\<lambda>j. jn_kind j = kind_flag kind) (ns_joins ns) of
             None \<Rightarrow> Inl (SharesHosts key)
           | Some j \<Rightarrow>
               (case stat (jn_path j) of
                  None \<Rightarrow> Inl CannotStat
                | Some joined \<Rightarrow>
                    (case ours kind of
                       None \<Rightarrow> Inl CannotStat
                     | Some own \<Rightarrow> if joined = own then Inl (JoinsHosts key) else Inr ())))"

definition sysctl_entry ::
  "(string \<Rightarrow> (u64 \<times> u64) option) \<Rightarrow> (SysctlKind \<Rightarrow> (u64 \<times> u64) option) \<Rightarrow> NamespacePlan \<Rightarrow> string \<times> string \<Rightarrow> SysctlError + Sysctl" where
  "sysctl_entry stat ours ns kv =
     (case kv of (key, val) \<Rightarrow>
        bind_result (sysctl_components key) (\<lambda>parts.
          if CHR 0x00 \<in> set val then Inl (NulInValue key)
          else bind_result (namespace_of key parts) (\<lambda>kind.
               bind_result (check_own_namespace stat ours key kind ns) (\<lambda>_.
                 Inr \<lparr>sy_key = key, sy_path = parts, sy_value = val\<rparr>))))"

definition sysctl_plan ::
  "(string \<Rightarrow> (u64 \<times> u64) option) \<Rightarrow> (SysctlKind \<Rightarrow> (u64 \<times> u64) option) \<Rightarrow> (string \<times> string) list \<Rightarrow> NamespacePlan \<Rightarrow> SysctlError + Sysctl list" where
  "sysctl_plan stat ours sysctl ns = collect_results (sysctl_entry stat ours ns) (sort_key fst sysctl)"

text \<open>\<open>apply\<close>, with the kernel's answer to a write: the first error ends it.\<close>

fun sysctl_apply :: "(string list \<Rightarrow> string \<Rightarrow> 'k \<Rightarrow> 'e + 'k) \<Rightarrow> Sysctl list \<Rightarrow> 'k \<Rightarrow> ((string \<times> string \<times> 'e) + unit) \<times> 'k" where
  "sysctl_apply proc_write [] k = (Inr (), k)"
| "sysctl_apply proc_write (s # ss) k =
     (case proc_write (''sys'' # sy_path s) (sy_value s) k of
        Inl e \<Rightarrow> (Inl (sy_key s, sy_value s, e), k)
      | Inr k \<Rightarrow> sysctl_apply proc_write ss k)"

end
