(* ===== verification/Caps.thy ===== *)
theory Caps
  imports Text
begin

text \<open>
  Capabilities, \<^verbatim>\<open>rustlet-runtime/src/caps.rs\<close> with the sets of \<^verbatim>\<open>rustlet-sys/src/caps.rs\<close>: a set is the kernel's
  64-bit mask. The names of a specification are given as the texts they serialize to. What the kernel does with the
  sets is not part of the program; the calls are modelled by their effect on the sets of the process, as far as
  the program relies on it.
\<close>

section \<open>Sets\<close>

definition CAP_NAMES :: "string list" where
  "CAP_NAMES =
    [''CAP_CHOWN'', ''CAP_DAC_OVERRIDE'', ''CAP_DAC_READ_SEARCH'', ''CAP_FOWNER'', ''CAP_FSETID'', ''CAP_KILL'', ''CAP_SETGID'',
     ''CAP_SETUID'', ''CAP_SETPCAP'', ''CAP_LINUX_IMMUTABLE'', ''CAP_NET_BIND_SERVICE'', ''CAP_NET_BROADCAST'', ''CAP_NET_ADMIN'',
     ''CAP_NET_RAW'', ''CAP_IPC_LOCK'', ''CAP_IPC_OWNER'', ''CAP_SYS_MODULE'', ''CAP_SYS_RAWIO'', ''CAP_SYS_CHROOT'',
     ''CAP_SYS_PTRACE'', ''CAP_SYS_PACCT'', ''CAP_SYS_ADMIN'', ''CAP_SYS_BOOT'', ''CAP_SYS_NICE'', ''CAP_SYS_RESOURCE'',
     ''CAP_SYS_TIME'', ''CAP_SYS_TTY_CONFIG'', ''CAP_MKNOD'', ''CAP_LEASE'', ''CAP_AUDIT_WRITE'', ''CAP_AUDIT_CONTROL'',
     ''CAP_SETFCAP'', ''CAP_MAC_OVERRIDE'', ''CAP_MAC_ADMIN'', ''CAP_SYSLOG'', ''CAP_WAKE_ALARM'', ''CAP_BLOCK_SUSPEND'',
     ''CAP_AUDIT_READ'', ''CAP_PERFMON'', ''CAP_BPF'', ''CAP_CHECKPOINT_RESTORE'']"

definition Cap_name :: "nat \<Rightarrow> string" where
  "Cap_name c = (if c < length CAP_NAMES then CAP_NAMES ! c else ''CAP_'' @ dec c)"

definition Cap_from_str :: "string \<Rightarrow> nat option" where
  "Cap_from_str s =
     (let up = map to_upper (trim s);
          full = (if strip_prefix ''CAP_'' up \<noteq> None then up else ''CAP_'' @ up)
      in position (\<lambda>n. n = full) CAP_NAMES)"

definition CapSet_all :: "nat \<Rightarrow> u64" where
  "CapSet_all last_cap = (if last_cap \<ge> 63 then - 1 else push_bit (last_cap + 1) 1 - 1)"

definition CapSet_contains :: "u64 \<Rightarrow> nat \<Rightarrow> bool" where
  "CapSet_contains s c \<longleftrightarrow> s AND push_bit c 1 \<noteq> 0"

definition CapSet_insert :: "u64 \<Rightarrow> nat \<Rightarrow> u64" where
  "CapSet_insert s c = s OR push_bit c 1"

definition CapSet_remove :: "u64 \<Rightarrow> nat \<Rightarrow> u64" where
  "CapSet_remove s c = s AND NOT (push_bit c 1)"

definition CapSet_iter :: "u64 \<Rightarrow> nat list" where
  "CapSet_iter s = filter (CapSet_contains s) [0..<64]"

definition CapSet_names :: "u64 \<Rightarrow> string list" where
  "CapSet_names s = map Cap_name (CapSet_iter s)"

definition CapSet_collect :: "nat list \<Rightarrow> u64" where
  "CapSet_collect caps = foldl CapSet_insert 0 caps"

definition DEFAULT_CAPS :: "nat list" where
  "DEFAULT_CAPS = [0, 1, 3, 4, 5, 10, 31, 6, 8, 7, 18]"

definition default_set :: u64 where
  "default_set = CapSet_collect DEFAULT_CAPS"

section \<open>The plan\<close>

record LinuxCapabilities =
  lc_bounding :: "string list option"
  lc_effective :: "string list option"
  lc_inheritable :: "string list option"
  lc_permitted :: "string list option"
  lc_ambient :: "string list option"

record CapsPlan =
  cp_last :: nat
  cp_bounding :: u64
  cp_effective :: u64
  cp_permitted :: u64
  cp_inheritable :: u64
  cp_ambient :: u64

datatype CapsError =
    UnknownCap string
  | EffectiveNotPermitted "string list"
  | InheritableNotBounding "string list"
  | AmbientNotBoth "string list"

fun caps_loop :: "nat \<Rightarrow> u64 \<Rightarrow> string list \<Rightarrow> CapsError + u64" where
  "caps_loop last_cap out [] = Inr out"
| "caps_loop last_cap out (name # names) =
     (case Cap_from_str name of
        None \<Rightarrow> Inl (UnknownCap name)
      | Some c \<Rightarrow> caps_loop last_cap (if c > last_cap then out else CapSet_insert out c) names)"

definition caps_set :: "nat \<Rightarrow> string list option \<Rightarrow> CapsError + u64" where
  "caps_set last_cap s = caps_loop last_cap 0 (case s of None \<Rightarrow> [] | Some names \<Rightarrow> names)"

definition caps_subset :: "u64 \<Rightarrow> u64 \<Rightarrow> bool" where
  "caps_subset a b \<longleftrightarrow> a AND NOT b = 0"

definition caps_validate :: "CapsPlan \<Rightarrow> CapsError + unit" where
  "caps_validate p =
     (if \<not> caps_subset (cp_effective p) (cp_permitted p) then
        Inl (EffectiveNotPermitted (CapSet_names (cp_effective p AND NOT (cp_permitted p))))
      else if \<not> caps_subset (cp_inheritable p) (cp_bounding p) then
        Inl (InheritableNotBounding (CapSet_names (cp_inheritable p AND NOT (cp_bounding p))))
      else let pi = cp_permitted p AND cp_inheritable p in
        if \<not> caps_subset (cp_ambient p) pi then Inl (AmbientNotBoth (CapSet_names (cp_ambient p AND NOT pi)))
        else Inr ())"

definition caps_from_spec :: "LinuxCapabilities \<Rightarrow> nat \<Rightarrow> CapsError + CapsPlan" where
  "caps_from_spec c last_cap =
     bind_result (caps_set last_cap (lc_bounding c)) (\<lambda>bounding.
     bind_result (caps_set last_cap (lc_effective c)) (\<lambda>effective.
     bind_result (caps_set last_cap (lc_permitted c)) (\<lambda>permitted.
     bind_result (caps_set last_cap (lc_inheritable c)) (\<lambda>inheritable.
     bind_result (caps_set last_cap (lc_ambient c)) (\<lambda>ambient.
       let plan = \<lparr>cp_last = last_cap, cp_bounding = bounding, cp_effective = effective, cp_permitted = permitted,
             cp_inheritable = inheritable, cp_ambient = ambient\<rparr>
       in bind_result (caps_validate plan) (\<lambda>_. Inr plan))))))"

section \<open>What init does with it\<close>

text \<open>The sets of the process.\<close>

record ProcCaps =
  pc_bounding :: u64
  pc_effective :: u64
  pc_permitted :: u64
  pc_inheritable :: u64
  pc_ambient :: u64

text \<open>\<open>drop_bounding\<close>: \<open>bounding_drop\<close> of every number that is not in the set.\<close>

definition drop_bounding :: "CapsPlan \<Rightarrow> ProcCaps \<Rightarrow> ProcCaps" where
  "drop_bounding p s =
     foldl (\<lambda>s c. if CapSet_contains (cp_bounding p) c then s else s\<lparr>pc_bounding := CapSet_remove (pc_bounding s) c\<rparr>) s [0..<64]"

text \<open>\<open>apply\<close>, when no call fails.\<close>

definition caps_apply :: "CapsPlan \<Rightarrow> ProcCaps \<Rightarrow> ProcCaps" where
  "caps_apply p s =
     (let s = s\<lparr>pc_effective := cp_effective p, pc_permitted := cp_permitted p, pc_inheritable := cp_inheritable p\<rparr>;
          s = s\<lparr>pc_ambient := 0\<rparr>
      in foldl (\<lambda>s c. s\<lparr>pc_ambient := CapSet_insert (pc_ambient s) c\<rparr>) s (CapSet_iter (cp_ambient p)))"

end
