(* ===== verification/Resources.thy ===== *)
theory Resources
  imports Text Btree
begin

text \<open>
  The limits of a container, \<^verbatim>\<open>rustlet-runtime/src/cgroups/resources.rs\<close>: from \<open>linux.resources\<close> of the OCI
  specification to the files of cgroup v2. The records of the specification have the fields the code reads. An \<open>i64\<close>
  is an \<open>int\<close> and a \<open>u64\<close> a \<open>nat\<close> (nothing here is added up, and the one difference is of two values in order).
  The weight of shares between the ends of their range is computed in floating point, whose functions have no
  specified precision: it is the argument \<open>float_weight\<close>.
\<close>

section \<open>The specification\<close>

record LinuxMemory =
  me_limit :: "int option"
  me_reservation :: "int option"
  me_swap :: "int option"
  me_kernel :: "int option"
  me_kernel_tcp :: "int option"
  me_swappiness :: "nat option"
  me_disable_oom_killer :: "bool option"

record LinuxCpu =
  cu_shares :: "nat option"
  cu_quota :: "int option"
  cu_burst :: "nat option"
  cu_period :: "nat option"
  cu_realtime_runtime :: "int option"
  cu_realtime_period :: "nat option"
  cu_cpus :: "string option"
  cu_mems :: "string option"
  cu_idle :: "int option"

record LinuxWeightDevice =
  wd_major :: int
  wd_minor :: int
  wd_weight :: "nat option"
  wd_leaf_weight :: "nat option"

record LinuxThrottleDevice =
  td_major :: int
  td_minor :: int
  td_rate :: nat

record LinuxBlockIo =
  bi_weight :: "nat option"
  bi_leaf_weight :: "nat option"
  bi_weight_device :: "LinuxWeightDevice list option"
  bi_read_bps :: "LinuxThrottleDevice list option"
  bi_write_bps :: "LinuxThrottleDevice list option"
  bi_read_iops :: "LinuxThrottleDevice list option"
  bi_write_iops :: "LinuxThrottleDevice list option"

record LinuxHugepageLimit =
  hp_page_size :: string
  hp_limit :: int

record LinuxNetwork =
  ne_class_id :: "nat option"
  ne_priorities :: "(string \<times> nat) list option"

record LinuxResources =
  lr_memory :: "LinuxMemory option"
  lr_cpu :: "LinuxCpu option"
  lr_pids :: "int option"
  lr_block_io :: "LinuxBlockIo option"
  lr_hugepage_limits :: "LinuxHugepageLimit list option"
  lr_network :: "LinuxNetwork option"
  lr_rdma :: "string list option"
  lr_unified :: "(string \<times> string) list option"

section \<open>Settings\<close>

record Setting =
  st_file :: string
  st_value :: string

definition Setting_new :: "string \<Rightarrow> string \<Rightarrow> Setting" where
  "Setting_new f v = \<lparr>st_file = f, st_value = v\<rparr>"

definition controller :: "Setting \<Rightarrow> string" where
  "controller s = (case split_on (CHR ''.'') (st_file s) of [] \<Rightarrow> [] | c # _ \<Rightarrow> c)"

datatype ResError =
    V1Only string
  | WeightOutOfRange nat
  | BadBytes string int
  | SwapNegative int
  | SwapNeedsLimit
  | SwapBelowLimit int int
  | BadDevice string int int
  | BadPageSize string
  | RdmaUnsupported
  | KeyIsPath string
  | KeyNotFile string
  | KeyForbidden string

definition DEFAULT_CPU_PERIOD :: nat where "DEFAULT_CPU_PERIOD = 100000"

definition FORBIDDEN_UNIFIED :: "string list" where
  "FORBIDDEN_UNIFIED =
     [''cgroup.procs'', ''cgroup.threads'', ''cgroup.kill'', ''cgroup.freeze'', ''cgroup.subtree_control'', ''cgroup.type'']"

text \<open>\<open>to_string\<close> of an \<open>i64\<close>.\<close>

definition int_text :: "int \<Rightarrow> string" where
  "int_text i = (if i < 0 then CHR ''-'' # dec (nat (- i)) else dec (nat i))"

text \<open>\<open>Option::filter\<close>.\<close>

definition opt_filter :: "('a \<Rightarrow> bool) \<Rightarrow> 'a option \<Rightarrow> 'a option" where
  "opt_filter P v = (case v of Some x \<Rightarrow> if P x then Some x else None | None \<Rightarrow> None)"

definition opt_list :: "'a list option \<Rightarrow> 'a list" where
  "opt_list v = (case v of Some xs \<Rightarrow> xs | None \<Rightarrow> [])"

definition cpu_shares_to_weight :: "(nat \<Rightarrow> nat) \<Rightarrow> nat \<Rightarrow> nat" where
  "cpu_shares_to_weight float_weight shares =
     (if shares = 0 then 0
      else if shares \<le> 2 then 1
      else if shares \<ge> 262144 then 10000
      else float_weight shares)"

definition blkio_weight_to_io_weight :: "nat \<Rightarrow> ResError + nat" where
  "blkio_weight_to_io_weight weight =
     (if \<not> (10 \<le> weight \<and> weight \<le> 1000) then Inl (WeightOutOfRange weight)
      else Inr (1 + (weight - 10) * 9999 div 990))"

definition bytes_or_max :: "string \<Rightarrow> int \<Rightarrow> ResError + string" where
  "bytes_or_max field v =
     (if v = - 1 then Inr ''max'' else if v < 0 then Inl (BadBytes field v) else Inr (int_text v))"

definition swap_max :: "int option \<Rightarrow> int option \<Rightarrow> ResError + string option" where
  "swap_max limit swap =
     (let limit = (case limit of Some l \<Rightarrow> l | None \<Rightarrow> 0);
          swap = (case swap of Some s \<Rightarrow> s | None \<Rightarrow> 0)
      in if limit = - 1 \<and> swap = 0 then Inr (Some ''max'')
         else if swap = 0 then Inr None
         else if swap = - 1 then Inr (Some ''max'')
         else if swap < 0 then Inl (SwapNegative swap)
         else if limit = 0 \<or> limit = - 1 then Inl SwapNeedsLimit
         else if swap < limit then Inl (SwapBelowLimit swap limit)
         else Inr (Some (int_text (swap - limit))))"

definition res_memory :: "LinuxMemory \<Rightarrow> ResError + Setting list" where
  "res_memory m =
     (if opt_filter (\<lambda>k. k \<noteq> 0) (me_kernel m) \<noteq> None then Inl (V1Only ''memory.kernel'')
      else if opt_filter (\<lambda>k. k \<noteq> 0) (me_kernel_tcp m) \<noteq> None then Inl (V1Only ''memory.kernelTCP'')
      else if me_swappiness m \<noteq> None then Inl (V1Only ''memory.swappiness'')
      else if me_disable_oom_killer m = Some True then Inl (V1Only ''memory.disableOOMKiller'')
      else let limit = opt_filter (\<lambda>l. l \<noteq> 0) (me_limit m) in
        bind_result (case limit of
            None \<Rightarrow> Inr []
          | Some l \<Rightarrow> bind_result (bytes_or_max ''memory.limit'' l) (\<lambda>v. Inr [Setting_new ''memory.max'' v])) (\<lambda>lim.
        bind_result (swap_max limit (me_swap m)) (\<lambda>swap.
        bind_result (case opt_filter (\<lambda>r. r \<noteq> 0) (me_reservation m) of
            None \<Rightarrow> Inr []
          | Some r \<Rightarrow> bind_result (bytes_or_max ''memory.reservation'' r) (\<lambda>v. Inr [Setting_new ''memory.low'' v])) (\<lambda>low.
          Inr (lim @ (case swap of None \<Rightarrow> [] | Some s \<Rightarrow> [Setting_new ''memory.swap.max'' s]) @ low)))))"

definition res_cpu :: "(nat \<Rightarrow> nat) \<Rightarrow> LinuxCpu \<Rightarrow> ResError + Setting list" where
  "res_cpu float_weight c =
     (if opt_filter (\<lambda>v. v \<noteq> 0) (cu_realtime_runtime c) \<noteq> None then Inl (V1Only ''cpu.realtimeRuntime'')
      else if opt_filter (\<lambda>v. v \<noteq> 0) (cu_realtime_period c) \<noteq> None then Inl (V1Only ''cpu.realtimePeriod'')
      else Inr (
        (case cu_shares c of
           None \<Rightarrow> []
         | Some shares \<Rightarrow>
             let w = cpu_shares_to_weight float_weight shares
             in if w \<noteq> 0 then [Setting_new ''cpu.weight'' (dec w)] else []) @
        (if cu_quota c \<noteq> None \<or> cu_period c \<noteq> None then
           let period = (case opt_filter (\<lambda>p. p \<noteq> 0) (cu_period c) of Some p \<Rightarrow> p | None \<Rightarrow> DEFAULT_CPU_PERIOD);
               quota = (case cu_quota c of Some q \<Rightarrow> if q > 0 then int_text q else ''max'' | None \<Rightarrow> ''max'')
           in [Setting_new ''cpu.max'' (quota @ '' '' @ dec period)]
         else []) @
        (case cu_burst c of None \<Rightarrow> [] | Some b \<Rightarrow> [Setting_new ''cpu.max.burst'' (dec b)]) @
        (case cu_idle c of None \<Rightarrow> [] | Some i \<Rightarrow> [Setting_new ''cpu.idle'' (int_text i)]) @
        (case opt_filter (\<lambda>s. s \<noteq> []) (cu_cpus c) of None \<Rightarrow> [] | Some s \<Rightarrow> [Setting_new ''cpuset.cpus'' s]) @
        (case opt_filter (\<lambda>s. s \<noteq> []) (cu_mems c) of None \<Rightarrow> [] | Some s \<Rightarrow> [Setting_new ''cpuset.mems'' s])))"

definition res_pids :: "int \<Rightarrow> Setting list" where
  "res_pids limit = [Setting_new ''pids.max'' (if limit > 0 then int_text limit else ''max'')]"

definition res_device :: "string \<Rightarrow> int \<Rightarrow> int \<Rightarrow> ResError + string" where
  "res_device field major minor =
     (if major < 0 \<or> minor < 0 then Inl (BadDevice field major minor) else Inr (int_text major @ '':'' @ int_text minor))"

definition weight_entry :: "LinuxWeightDevice \<Rightarrow> ResError + Setting list" where
  "weight_entry d =
     (if opt_filter (\<lambda>w. w \<noteq> 0) (wd_leaf_weight d) \<noteq> None then Inl (V1Only ''blockIO.weightDevice[].leafWeight'')
      else case opt_filter (\<lambda>w. w \<noteq> 0) (wd_weight d) of
             None \<Rightarrow> Inr []
           | Some w \<Rightarrow>
               bind_result (res_device ''weightDevice'' (wd_major d) (wd_minor d)) (\<lambda>dev.
               bind_result (blkio_weight_to_io_weight w) (\<lambda>v. Inr [Setting_new ''io.weight'' (dev @ '' '' @ dec v)])))"

definition throttle_entry :: "string \<Rightarrow> string \<Rightarrow> LinuxThrottleDevice \<Rightarrow> ResError + Setting list" where
  "throttle_entry field key d =
     bind_result (res_device field (td_major d) (td_minor d)) (\<lambda>dev.
       Inr [Setting_new ''io.max'' (dev @ '' '' @ key @ ''='' @ (if td_rate d = 0 then ''max'' else dec (td_rate d)))])"

text \<open>The loops over devices: the settings of each, up to the first error.\<close>

definition res_each :: "('a \<Rightarrow> ResError + Setting list) \<Rightarrow> 'a list \<Rightarrow> ResError + Setting list" where
  "res_each f xs = bind_result (collect_results f xs) (\<lambda>outs. Inr (concat outs))"

definition res_throttles :: "LinuxBlockIo \<Rightarrow> (string \<times> string \<times> LinuxThrottleDevice list) list" where
  "res_throttles b =
     [(''throttleReadBpsDevice'', ''rbps'', opt_list (bi_read_bps b)),
      (''throttleWriteBpsDevice'', ''wbps'', opt_list (bi_write_bps b)),
      (''throttleReadIOPSDevice'', ''riops'', opt_list (bi_read_iops b)),
      (''throttleWriteIOPSDevice'', ''wiops'', opt_list (bi_write_iops b))]"

definition res_block_io :: "LinuxBlockIo \<Rightarrow> ResError + Setting list" where
  "res_block_io b =
     (if opt_filter (\<lambda>w. w \<noteq> 0) (bi_leaf_weight b) \<noteq> None then Inl (V1Only ''blockIO.leafWeight'')
      else bind_result (case opt_filter (\<lambda>w. w \<noteq> 0) (bi_weight b) of
               None \<Rightarrow> Inr []
             | Some w \<Rightarrow> bind_result (blkio_weight_to_io_weight w) (\<lambda>v. Inr [Setting_new ''io.weight'' (''default '' @ dec v)])) (\<lambda>out.
           bind_result (res_each weight_entry (opt_list (bi_weight_device b))) (\<lambda>weights.
           bind_result (res_each (\<lambda>(field, key, ds). res_each (throttle_entry field key) ds) (res_throttles b)) (\<lambda>throttles.
             Inr (out @ weights @ throttles)))))"

definition is_page_size :: "string \<Rightarrow> bool" where
  "is_page_size s =
     (let digits = rev (dropWhile is_alpha (rev s)); unit = drop (length digits) s
      in digits \<noteq> [] \<and> list_all is_digit digits \<and> unit \<in> {''KB'', ''MB'', ''GB''})"

definition hugepage_entry :: "LinuxHugepageLimit \<Rightarrow> ResError + Setting list" where
  "hugepage_entry h =
     (if \<not> is_page_size (hp_page_size h) then Inl (BadPageSize (hp_page_size h))
      else bind_result (bytes_or_max ''hugepageLimits[].limit'' (hp_limit h)) (\<lambda>v.
             Inr [Setting_new (''hugetlb.'' @ hp_page_size h @ ''.max'') v]))"

fun has_dots :: "string \<Rightarrow> bool" where
  "has_dots [] \<longleftrightarrow> False"
| "has_dots [a] \<longleftrightarrow> False"
| "has_dots (a # b # s) \<longleftrightarrow> a = CHR ''.'' \<and> b = CHR ''.'' \<or> has_dots (b # s)"

definition check_unified_key :: "string \<Rightarrow> ResError + unit" where
  "check_unified_key key =
     (if CHR 0x2F \<in> set key \<or> has_dots key then Inl (KeyIsPath key)
      else case split_once (CHR ''.'') key of
             None \<Rightarrow> Inl (KeyNotFile key)
           | Some (ctl, _) \<Rightarrow>
               if ctl = [] \<or> \<not> list_all (\<lambda>c. is_alnum c \<or> c \<in> {CHR ''.'', CHR ''_'', CHR ''-''}) key then Inl (KeyNotFile key)
               else if key \<in> set FORBIDDEN_UNIFIED then Inl (KeyForbidden key)
               else Inr ())"

definition unified_entry :: "string \<times> string \<Rightarrow> ResError + Setting list" where
  "unified_entry kv = bind_result (check_unified_key (fst kv)) (\<lambda>_. Inr [Setting_new (fst kv) (snd kv)])"

definition settings_for :: "(nat \<Rightarrow> nat) \<Rightarrow> LinuxResources \<Rightarrow> ResError + Setting list" where
  "settings_for float_weight r =
     bind_result (case lr_memory r of None \<Rightarrow> Inr [] | Some m \<Rightarrow> res_memory m) (\<lambda>memory.
     bind_result (case lr_cpu r of None \<Rightarrow> Inr [] | Some c \<Rightarrow> res_cpu float_weight c) (\<lambda>cpu.
     bind_result (case lr_block_io r of None \<Rightarrow> Inr [] | Some b \<Rightarrow> res_block_io b) (\<lambda>block_io.
     bind_result (res_each hugepage_entry (opt_list (lr_hugepage_limits r))) (\<lambda>hugepages.
       if (case lr_network r of None \<Rightarrow> False | Some n \<Rightarrow> ne_class_id n \<noteq> None \<or> opt_list (ne_priorities n) \<noteq> [])
       then Inl (V1Only ''network'')
       else if opt_list (lr_rdma r) \<noteq> [] then Inl RdmaUnsupported
       else bind_result (res_each unified_entry (sort_key fst (opt_list (lr_unified r)))) (\<lambda>unified.
              Inr (memory @ cpu @ (case lr_pids r of None \<Rightarrow> [] | Some p \<Rightarrow> res_pids p) @ block_io @ hugepages @ unified))))))"

end
