(* ===== verification/LimitsCorrect.thy ===== *)
theory LimitsCorrect
  imports Sysctl Caps Resources
begin

text \<open>
  What the runtime confines a container to: the namespaces it gets and the kernel parameters it may set in them, the
  capabilities its programs can have, and the limits of its cgroup.
\<close>

section \<open>Namespaces\<close>

lemma flags_contain_iff: "flags_contain s f \<longleftrightarrow> (\<forall>n<64. bit f n \<longrightarrow> bit s n)"
  by (auto simp: flags_contain_def bit_eq_iff bit_simps)

text \<open>The number of a flag's bit: the flags are single bits, and different ones.\<close>

fun ns_bit :: "NamespaceType \<Rightarrow> nat" where
  "ns_bit NsMount = 17"
| "ns_bit NsCgroup = 25"
| "ns_bit NsUts = 26"
| "ns_bit NsIpc = 27"
| "ns_bit NsUser = 28"
| "ns_bit NsPid = 29"
| "ns_bit NsNetwork = 30"
| "ns_bit NsTime = 7"

lemma ns_flag_bit: "ns_flag t = push_bit (ns_bit t) 1"
  by (cases t) (simp_all add: NEWNS_def NEWCGROUP_def NEWUTS_def NEWIPC_def NEWUSER_def NEWPID_def NEWNET_def NEWTIME_def push_bit_eq_mult)

lemma ns_bit_inj: "ns_bit t = ns_bit u \<longleftrightarrow> t = u"
  by (cases t; cases u) simp_all

lemma ns_bit_less: "ns_bit t < 64"
  by (cases t) simp_all

lemma bit_single: "k < 64 \<Longrightarrow> bit (push_bit k (1 :: u64)) n \<longleftrightarrow> n = k"
  by (auto simp: bit_simps)

lemma bit_ns_flag: "bit (ns_flag t) n \<longleftrightarrow> n = ns_bit t"
  unfolding ns_flag_bit using bit_single ns_bit_less by blast

lemma contain_flag: "flags_contain s (ns_flag t) \<longleftrightarrow> bit s (ns_bit t)"
  using ns_bit_less by (auto simp: flags_contain_iff bit_ns_flag)

lemma ns_flag_inj: "ns_flag t = ns_flag u \<longleftrightarrow> t = u"
  using bit_ns_flag ns_bit_inj by metis

text \<open>What the loop has collected, of the namespaces it has seen.\<close>

definition ns_collected :: "LinuxNamespace list \<Rightarrow> u64 \<Rightarrow> NamespacePlan \<Rightarrow> bool" where
  "ns_collected nss seen out \<longleftrightarrow>
     distinct (map ln_type nss) \<and>
     (\<forall>t. bit seen (ns_bit t) \<longleftrightarrow> t \<in> set (map ln_type nss)) \<and>
     (\<forall>t. bit (ns_clone_flags out) (ns_bit t) \<longleftrightarrow> t \<noteq> NsCgroup \<and> (\<exists>n\<in>set nss. ln_type n = t \<and> ln_path n = None)) \<and>
     (\<forall>t path. \<lparr>jn_kind = ns_flag t, jn_path = path\<rparr> \<in> set (ns_joins out) \<longleftrightarrow> (\<exists>n\<in>set nss. ln_type n = t \<and> ln_path n = Some path)) \<and>
     (\<forall>n\<in>set nss. ln_type n \<in> {NsUser, NsMount} \<longrightarrow> ln_path n = None) \<and>
     (\<forall>j\<in>set (ns_joins out). \<exists>t. jn_kind j = ns_flag t)"

lemma ns_collected_snoc:
  assumes "ns_collected nss seen out" and "ln_type n \<notin> set (map ln_type nss)"
    and "ln_type n \<in> {NsUser, NsMount} \<longrightarrow> ln_path n = None"
    and "out' = (case ln_path n of
        None \<Rightarrow> if ln_type n = NsCgroup then out\<lparr>ns_new_cgroup := True\<rparr> else out\<lparr>ns_clone_flags := ns_clone_flags out OR ns_flag (ln_type n)\<rparr>
      | Some path \<Rightarrow> out\<lparr>ns_joins := ns_joins out @ [\<lparr>jn_kind = ns_flag (ln_type n), jn_path = path\<rparr>]\<rparr>)"
  shows "ns_collected (nss @ [n]) (seen OR ns_flag (ln_type n)) out'"
  using assms unfolding ns_collected_def
  by (cases "ln_path n") (auto simp: bit_or_iff bit_ns_flag ns_bit_inj ns_flag_inj)

lemma ns_loop_collects:
  "ns_loop seen out nss = Inr (seen', out') \<Longrightarrow> ns_collected done' seen out \<Longrightarrow> ns_collected (done' @ nss) seen' out'"
proof (induction nss arbitrary: done' seen out)
  case (Cons n nss)
  have fresh: "\<not> flags_contain seen (ns_flag (ln_type n))" using Cons.prems(1) by (auto simp: Let_def split: if_splits)
  then have new: "ln_type n \<notin> set (map ln_type done')"
    using Cons.prems(2) unfolding ns_collected_def contain_flag by blast
  define after' where "after' = (case ln_path n of
        None \<Rightarrow> if ln_type n = NsCgroup then out\<lparr>ns_new_cgroup := True\<rparr> else out\<lparr>ns_clone_flags := ns_clone_flags out OR ns_flag (ln_type n)\<rparr>
      | Some path \<Rightarrow> out\<lparr>ns_joins := ns_joins out @ [\<lparr>jn_kind = ns_flag (ln_type n), jn_path = path\<rparr>]\<rparr>)"
  have "ln_type n \<in> {NsUser, NsMount} \<longrightarrow> ln_path n = None" and step: "ns_loop (seen OR ns_flag (ln_type n)) after' nss = Inr (seen', out')"
    using Cons.prems(1) fresh by (auto simp: Let_def after'_def split: option.splits NamespaceType.splits)
  then have "ns_collected (done' @ [n]) (seen OR ns_flag (ln_type n)) after'"
    using ns_collected_snoc [OF Cons.prems(2) new _ after'_def] by blast
  from Cons.IH [OF step this] show ?case by simp
qed simp

lemma ns_collectedD:
  assumes "ns_collected nss seen ns"
  shows "bit seen (ns_bit t) \<longleftrightarrow> (\<exists>n\<in>set nss. ln_type n = t)"
    and "flags_contain (ns_clone_flags ns) (ns_flag t) \<longleftrightarrow> t \<noteq> NsCgroup \<and> (\<exists>n\<in>set nss. ln_type n = t \<and> ln_path n = None)"
    and "\<lparr>jn_kind = ns_flag t, jn_path = path\<rparr> \<in> set (ns_joins ns) \<Longrightarrow> \<exists>n\<in>set nss. ln_type n = t \<and> ln_path n = Some path"
    and "n \<in> set nss \<Longrightarrow> ln_type n = NsUser \<or> ln_type n = NsMount \<Longrightarrow> ln_path n = None"
proof -
  have "bit seen (ns_bit t) \<longleftrightarrow> t \<in> set (map ln_type nss)" using assms unfolding ns_collected_def by blast
  then show "bit seen (ns_bit t) \<longleftrightarrow> (\<exists>n\<in>set nss. ln_type n = t)" by auto
qed (use assms in \<open>unfold ns_collected_def contain_flag, blast+\<close>)

lemma namespaces_plan_collected:
  assumes "namespaces_plan nss = Inr ns"
  shows "\<exists>seen. ns_collected nss seen ns" and "\<exists>n\<in>set nss. ln_type n = NsMount \<and> ln_path n = None"
proof -
  obtain seen where loop: "ns_loop 0 \<lparr>ns_clone_flags = 0, ns_new_cgroup = False, ns_joins = []\<rparr> nss = Inr (seen, ns)"
      and mount: "flags_contain seen NEWNS"
    using assms by (auto simp: namespaces_plan_def bind_result_Inr_iff split: if_splits)
  have "ns_collected [] 0 \<lparr>ns_clone_flags = 0, ns_new_cgroup = False, ns_joins = []\<rparr>" by (simp add: ns_collected_def)
  from ns_loop_collects [OF loop this] have c: "ns_collected nss seen ns" by simp
  then show "\<exists>seen. ns_collected nss seen ns" by blast
  have "bit seen (ns_bit NsMount)" using mount contain_flag [of seen NsMount] by simp
  then show "\<exists>n\<in>set nss. ln_type n = NsMount \<and> ln_path n = None"
    using ns_collectedD(1) [OF c] ns_collectedD(4) [OF c] by blast
qed

section \<open>Kernel parameters\<close>

fun kind_type :: "SysctlKind \<Rightarrow> NamespaceType" where
  "kind_type KindIpc = NsIpc"
| "kind_type KindNet = NsNetwork"
| "kind_type KindUts = NsUts"

lemma kind_flag_type: "kind_flag k = ns_flag (kind_type k)"
  by (cases k) simp_all

text \<open>The table of the documentation: which parameters go by a namespace of which kind.\<close>

fun namespaced :: "SysctlKind \<Rightarrow> string list \<Rightarrow> bool" where
  "namespaced KindIpc parts \<longleftrightarrow>
     parts \<in> {[''kernel'', ''msgmax''], [''kernel'', ''msgmnb''], [''kernel'', ''msgmni''], [''kernel'', ''sem''], [''kernel'', ''shmall''],
       [''kernel'', ''shmmax''], [''kernel'', ''shmmni''], [''kernel'', ''shm_rmid_forced'']} \<or> (\<exists>p rest. parts = ''fs'' # ''mqueue'' # p # rest)"
| "namespaced KindNet parts \<longleftrightarrow> (\<exists>p rest. parts = ''net'' # p # rest)"
| "namespaced KindUts parts \<longleftrightarrow> parts = [''kernel'', ''domainname'']"

lemma namespace_of_ok: "namespace_of key parts = Inr k \<Longrightarrow> namespaced k parts"
  by (auto simp: namespace_of_def IPC_KERNEL_KEYS_def split: list.splits if_splits)

definition plain_part :: "string \<Rightarrow> bool" where
  "plain_part p \<longleftrightarrow> p \<notin> {[], ''.'', ''..''} \<and> CHR 0x2F \<notin> set p \<and> CHR 0x00 \<notin> set p"

lemma split_on_sub: "p \<in> set (split_on c s) \<Longrightarrow> set p \<subseteq> set s - {c}"
proof (induction s arbitrary: p)
  case (Cons x xs)
  have "set q \<subseteq> set xs - {c}" if "q = hd (split_on c xs) \<or> q \<in> set (tl (split_on c xs))" for q
    using that Cons.IH [of q] by (cases "split_on c xs") auto
  note rest = this
  show ?case
  proof (cases "x = c")
    case True
    then show ?thesis using Cons by auto
  next
    case False
    then have "p = x # hd (split_on c xs) \<or> p \<in> set (tl (split_on c xs))" using Cons.prems by simp
    then show ?thesis using rest [of "hd (split_on c xs)"] rest [of p] False by auto
  qed
qed simp

lemma sysctl_components_ok:
  assumes "sysctl_components key = Inr parts"
  shows "\<forall>p\<in>set parts. plain_part p"
proof
  fix p
  assume p: "p \<in> set parts"
  define sep where "sep = (if CHR 0x2F \<in> set key then CHR 0x2F else CHR ''.'')"
  have "parts = split_on sep key" "CHR 0x00 \<notin> set key" "find (\<lambda>p. p \<in> {[], ''.'', ''..''}) parts = None"
    using assms by (auto simp: sysctl_components_def Let_def sep_def split: if_splits option.splits)
  then show "plain_part p" using p split_on_sub [of p sep key] by (auto simp: plain_part_def find_None_iff sep_def split: if_splits)
qed

text \<open>A container has its own namespace of a kind: a new one, or one it joins that is not the runtime's; a container
  with a user namespace, a new one.\<close>

definition owns_namespace ::
  "(string \<Rightarrow> (u64 \<times> u64) option) \<Rightarrow> (SysctlKind \<Rightarrow> (u64 \<times> u64) option) \<Rightarrow> LinuxNamespace list \<Rightarrow> SysctlKind \<Rightarrow> bool" where
  "owns_namespace stat ours nss k \<longleftrightarrow>
     (\<exists>n\<in>set nss. ln_type n = kind_type k \<and>
        (case ln_path n of
           None \<Rightarrow> True
         | Some path \<Rightarrow> stat path \<noteq> None \<and> stat path \<noteq> ours k \<and> NsUser \<notin> set (map ln_type nss)))"

lemma check_own_namespace_ok:
  assumes "check_own_namespace stat ours key k ns = Inr ()" and "ns_collected nss seen ns"
  shows "owns_namespace stat ours nss k"
proof -
  have user: "new_user ns \<longleftrightarrow> (\<exists>n\<in>set nss. ln_type n = NsUser \<and> ln_path n = None)"
    using ns_collectedD(2) [OF assms(2), of NsUser] by (simp add: new_user_def)
  have flag: "flags_contain (ns_clone_flags ns) (kind_flag k) \<longleftrightarrow> (\<exists>n\<in>set nss. ln_type n = kind_type k \<and> ln_path n = None)"
  proof -
    have "kind_type k \<noteq> NsCgroup" by (cases k) simp_all
    then show ?thesis using ns_collectedD(2) [OF assms(2), of "kind_type k"] unfolding kind_flag_type by simp
  qed
  show ?thesis
  proof (cases "flags_contain (ns_clone_flags ns) (kind_flag k)")
    case True
    then obtain n where "n \<in> set nss" "ln_type n = kind_type k" "ln_path n = None" unfolding flag by blast
    then show ?thesis unfolding owns_namespace_def by (intro bexI [of _ n]) simp_all
  next
    case False
    then obtain j joined own where j: "find (\<lambda>j. jn_kind j = kind_flag k) (ns_joins ns) = Some j"
        "stat (jn_path j) = Some joined" "ours k = Some own" "joined \<noteq> own" "\<not> new_user ns"
      using assms(1) by (auto simp: check_own_namespace_def split: if_splits option.splits)
    then have "j \<in> set (ns_joins ns)" "j = \<lparr>jn_kind = ns_flag (kind_type k), jn_path = jn_path j\<rparr>"
      by (auto simp: find_Some_iff kind_flag_type)
    then have "\<lparr>jn_kind = ns_flag (kind_type k), jn_path = jn_path j\<rparr> \<in> set (ns_joins ns)" by simp
    then obtain n where "n \<in> set nss" "ln_type n = kind_type k" "ln_path n = Some (jn_path j)"
      using ns_collectedD(3) [OF assms(2)] by blast
    moreover have "NsUser \<notin> set (map ln_type nss)"
      using j(5) ns_collectedD(4) [OF assms(2)] unfolding user by auto
    ultimately show ?thesis using j unfolding owns_namespace_def by (intro bexI [of _ n]) auto
  qed
qed

section \<open>Capabilities\<close>

lemma CapSet_contains_bit: "CapSet_contains s c \<longleftrightarrow> bit s c"
  unfolding CapSet_contains_def by (rule bit_iff_and_push_bit_not_eq_0 [symmetric])

lemma bit_CapSet_insert: "c < 64 \<Longrightarrow> bit (CapSet_insert s c) n \<longleftrightarrow> bit s n \<or> n = c"
  unfolding CapSet_insert_def bit_or_iff using bit_single by blast

lemma bit_CapSet_remove: "c < 64 \<Longrightarrow> bit (CapSet_remove s c) n \<longleftrightarrow> bit s n \<and> n \<noteq> c"
  unfolding CapSet_remove_def bit_and_iff bit_not_iff_eq using bit_single by (auto dest: bit_imp_le_length)

lemma caps_subset_bits: "caps_subset a b \<longleftrightarrow> (\<forall>n. bit a n \<longrightarrow> bit b n)"
proof -
  have "caps_subset a b \<longleftrightarrow> (\<forall>n<64. bit a n \<longrightarrow> bit b n)" unfolding caps_subset_def bit_eq_iff by (auto simp: bit_simps)
  also have "\<dots> \<longleftrightarrow> (\<forall>n. bit a n \<longrightarrow> bit b n)" using bit_imp_le_length [of a] by auto
  finally show ?thesis .
qed

lemma Cap_from_str_less: "Cap_from_str s = Some c \<Longrightarrow> c < 41"
proof -
  assume "Cap_from_str s = Some c"
  then have "c < length CAP_NAMES" by (auto simp: Cap_from_str_def Let_def dest: position_Some)
  then show ?thesis by (simp add: CAP_NAMES_def)
qed

lemma Cap_names_read_back: "map Cap_from_str CAP_NAMES = map Some [0..<41]"
  by code_simp

lemma caps_loop_bits:
  "caps_loop last_cap out names = Inr s \<Longrightarrow>
     bit s n \<longleftrightarrow> bit out n \<or> n \<le> last_cap \<and> (\<exists>name\<in>set names. Cap_from_str name = Some n)"
proof (induction names arbitrary: out)
  case (Cons name names)
  then obtain c where c: "Cap_from_str name = Some c" by (auto split: option.splits)
  then have "c < 64" using Cap_from_str_less by fastforce
  then show ?case using Cons c by (auto simp: bit_CapSet_insert split: if_splits)
qed simp

text \<open>The capabilities a list of the specification names, of those the kernel knows.\<close>

definition listed_caps :: "nat \<Rightarrow> string list option \<Rightarrow> nat set" where
  "listed_caps last_cap s = {n. n \<le> last_cap \<and> (\<exists>name\<in>set (case s of None \<Rightarrow> [] | Some names \<Rightarrow> names). Cap_from_str name = Some n)}"

lemma caps_set_bits: "caps_set last_cap s = Inr m \<Longrightarrow> bit m n \<longleftrightarrow> n \<in> listed_caps last_cap s"
  unfolding caps_set_def listed_caps_def using caps_loop_bits by auto

lemma caps_from_spec_bits:
  assumes "caps_from_spec c last_cap = Inr p"
  shows "bit (cp_bounding p) n \<longleftrightarrow> n \<in> listed_caps last_cap (lc_bounding c)"
    and "bit (cp_ambient p) n \<longleftrightarrow> n \<in> listed_caps last_cap (lc_ambient c)"
    and "bit (cp_effective p) n \<longleftrightarrow> n \<in> listed_caps last_cap (lc_effective c)"
    and "bit (cp_permitted p) n \<longleftrightarrow> n \<in> listed_caps last_cap (lc_permitted c)"
    and "bit (cp_inheritable p) n \<longleftrightarrow> n \<in> listed_caps last_cap (lc_inheritable c)"
    and "caps_validate p = Inr ()"
  using assms by (auto simp: caps_from_spec_def bind_result_Inr_iff Let_def caps_set_bits)

lemma caps_validate_bits:
  assumes "caps_validate p = Inr ()"
  shows "bit (cp_effective p) n \<Longrightarrow> bit (cp_permitted p) n"
    and "bit (cp_inheritable p) n \<Longrightarrow> bit (cp_bounding p) n"
    and "bit (cp_ambient p) n \<Longrightarrow> bit (cp_permitted p) n \<and> bit (cp_inheritable p) n"
  using assms by (auto simp: caps_validate_def Let_def caps_subset_bits bit_and_iff split: if_splits)

lemma drop_bounding_bits: "bit (pc_bounding (drop_bounding p s)) n \<longleftrightarrow> bit (pc_bounding s) n \<and> bit (cp_bounding p) n"
proof -
  have "bit (pc_bounding (foldl (\<lambda>s c. if CapSet_contains (cp_bounding p) c then s
      else s\<lparr>pc_bounding := CapSet_remove (pc_bounding s) c\<rparr>) s cs)) n \<longleftrightarrow>
    bit (pc_bounding s) n \<and> (n \<in> set cs \<longrightarrow> bit (cp_bounding p) n)" if "set cs \<subseteq> {0..<64}" for cs
    using that
  proof (induction cs arbitrary: s)
    case (Cons c cs)
    then show ?case by (auto simp: CapSet_contains_bit bit_CapSet_remove)
  qed simp
  from this [of "[0..<64]"] show ?thesis unfolding drop_bounding_def by (auto dest: bit_imp_le_length)
qed

lemma caps_apply_bits:
  shows "pc_bounding (caps_apply p s) = pc_bounding s" and "pc_inheritable (caps_apply p s) = cp_inheritable p"
    and "pc_permitted (caps_apply p s) = cp_permitted p" and "pc_effective (caps_apply p s) = cp_effective p"
    and "bit (pc_ambient (caps_apply p s)) n \<longleftrightarrow> bit (cp_ambient p) n"
proof -
  let ?f = "foldl (\<lambda>(s :: ProcCaps) c. s\<lparr>pc_ambient := CapSet_insert (pc_ambient s) c\<rparr>)"
  have same: "pc_bounding (?f s cs) = pc_bounding s" "pc_inheritable (?f s cs) = pc_inheritable s"
      "pc_permitted (?f s cs) = pc_permitted s" "pc_effective (?f s cs) = pc_effective s" for s cs
    by (induction cs arbitrary: s) simp_all
  have raised: "bit (pc_ambient (?f s cs)) n \<longleftrightarrow> bit (pc_ambient s) n \<or> n \<in> set cs" if "set cs \<subseteq> {0..<64}" for s cs
    using that by (induction cs arbitrary: s) (auto simp: bit_CapSet_insert)
  have "n \<in> set (CapSet_iter (cp_ambient p)) \<longleftrightarrow> bit (cp_ambient p) n"
    using bit_imp_le_length [of "cp_ambient p" n] by (auto simp: CapSet_iter_def CapSet_contains_bit)
  moreover have "set (CapSet_iter (cp_ambient p)) \<subseteq> {0..<64}" by (auto simp: CapSet_iter_def)
  ultimately show "bit (pc_ambient (caps_apply p s)) n \<longleftrightarrow> bit (cp_ambient p) n"
    using raised [of "CapSet_iter (cp_ambient p)"] by (simp add: caps_apply_def Let_def)
  show "pc_bounding (caps_apply p s) = pc_bounding s" "pc_inheritable (caps_apply p s) = cp_inheritable p"
      "pc_permitted (caps_apply p s) = cp_permitted p" "pc_effective (caps_apply p s) = cp_effective p"
    by (simp_all add: caps_apply_def Let_def same)
qed

text \<open>What capabilities(7) says of \<open>execve\<close>: the bounding and inheritable sets stay, the ambient set does not grow, and the
  new permitted set comes from the inheritable, bounding and ambient sets.\<close>

definition execve_laws :: "(ProcCaps \<Rightarrow> 'f \<Rightarrow> ProcCaps) \<Rightarrow> bool" where
  "execve_laws exec \<longleftrightarrow>
     (\<forall>s f. pc_bounding (exec s f) = pc_bounding s \<and> pc_inheritable (exec s f) = pc_inheritable s \<and>
        caps_subset (pc_ambient (exec s f)) (pc_ambient s) \<and>
        caps_subset (pc_permitted (exec s f)) (pc_inheritable s OR pc_bounding s OR pc_ambient (exec s f)) \<and>
        caps_subset (pc_effective (exec s f)) (pc_permitted (exec s f)))"

text \<open>The sets that a program cannot leave, however it is replaced.\<close>

definition confined :: "u64 \<Rightarrow> ProcCaps \<Rightarrow> bool" where
  "confined b s \<longleftrightarrow> caps_subset (pc_bounding s) b \<and> caps_subset (pc_inheritable s) b \<and> caps_subset (pc_ambient s) b"

lemma exec_confined:
  assumes "execve_laws exec" and "confined b s"
  shows "confined b (exec s f) \<and> caps_subset (pc_permitted (exec s f)) b \<and> caps_subset (pc_effective (exec s f)) b"
proof -
  have laws: "pc_bounding (exec s f) = pc_bounding s" "pc_inheritable (exec s f) = pc_inheritable s"
      "caps_subset (pc_ambient (exec s f)) (pc_ambient s)"
      "caps_subset (pc_permitted (exec s f)) (pc_inheritable s OR pc_bounding s OR pc_ambient (exec s f))"
      "caps_subset (pc_effective (exec s f)) (pc_permitted (exec s f))"
    using assms(1) unfolding execve_laws_def by blast+
  show ?thesis using assms(2) laws(3-5) unfolding confined_def laws(1,2) caps_subset_bits bit_or_iff by blast
qed

lemma execs_confined:
  assumes "execve_laws exec" and "confined b s" and "fs \<noteq> []"
  shows "confined b (foldl exec s fs) \<and> caps_subset (pc_permitted (foldl exec s fs)) b \<and> caps_subset (pc_effective (foldl exec s fs)) b"
  using assms(3,2)
proof (induction fs rule: rev_induct)
  case (snoc f fs)
  have "confined b (foldl exec s fs)" using snoc by (cases "fs = []") auto
  then show ?case using exec_confined [OF assms(1)] by simp
qed simp

lemma init_confined:
  assumes "caps_from_spec c last_cap = Inr p"
  shows "confined (cp_bounding p) (caps_apply p (drop_bounding p s))"
  using caps_validate_bits [OF caps_from_spec_bits(6) [OF assms]]
  unfolding confined_def caps_subset_bits caps_apply_bits drop_bounding_bits by blast

section \<open>Limits\<close>

text \<open>A file of the cgroup that holds a limit: in the cgroup's directory, of a controller, and not a control file.\<close>

definition limit_file :: "string \<Rightarrow> bool" where
  "limit_file f \<longleftrightarrow>
     CHR 0x2F \<notin> set f \<and> \<not> has_dots f \<and> f \<notin> set FORBIDDEN_UNIFIED \<and> (\<exists>ctl name. f = ctl @ CHR ''.'' # name \<and> ctl \<noteq> [])"

definition limit_files :: "Setting list \<Rightarrow> bool" where
  "limit_files ss \<longleftrightarrow> list_all (\<lambda>s. limit_file (st_file s)) ss"

lemma limit_files_append [simp]: "limit_files (xs @ ys) \<longleftrightarrow> limit_files xs \<and> limit_files ys"
  by (simp add: limit_files_def)

lemma limit_files_Cons [simp]: "limit_files (Setting_new f v # ss) \<longleftrightarrow> limit_file f \<and> limit_files ss"
  by (simp add: limit_files_def Setting_new_def)

lemma limit_files_Nil [simp]: "limit_files []"
  by (simp add: limit_files_def)

definition limit_file_check :: "string \<Rightarrow> bool" where
  "limit_file_check f \<longleftrightarrow> CHR 0x2F \<notin> set f \<and> \<not> has_dots f \<and> f \<notin> set FORBIDDEN_UNIFIED \<and>
     (case split_once (CHR ''.'') f of Some (ctl, _) \<Rightarrow> ctl \<noteq> [] | None \<Rightarrow> False)"

lemma limit_file_checked: "limit_file_check f \<Longrightarrow> limit_file f"
  unfolding limit_file_check_def limit_file_def by (auto simp: split_once_Some split: option.splits) blast

lemma fixed_files: "list_all limit_file [''memory.max'', ''memory.low'', ''memory.swap.max'', ''cpu.weight'', ''cpu.max'', ''cpu.max.burst'',
    ''cpu.idle'', ''cpuset.cpus'', ''cpuset.mems'', ''pids.max'', ''io.weight'', ''io.max'']"
proof -
  have "list_all limit_file_check [''memory.max'', ''memory.low'', ''memory.swap.max'', ''cpu.weight'', ''cpu.max'', ''cpu.max.burst'',
    ''cpu.idle'', ''cpuset.cpus'', ''cpuset.mems'', ''pids.max'', ''io.weight'', ''io.max'']"
    by code_simp
  then show ?thesis using limit_file_checked by (auto simp: list_all_iff)
qed

lemmas fixed_file [simp] = fixed_files [simplified]

lemma res_each_files:
  assumes "res_each f xs = Inr out" and "\<And>x ss. x \<in> set xs \<Longrightarrow> f x = Inr ss \<Longrightarrow> limit_files ss"
  shows "limit_files out"
proof -
  obtain outs where outs: "collect_results f xs = Inr outs" "out = concat outs"
    using assms(1) by (auto simp: res_each_def bind_result_Inr_iff)
  have "limit_files ss" if "ss \<in> set outs" for ss
    using that outs(1) assms(2) collect_results_set [of f xs outs] by blast
  then show ?thesis using outs(2) by (auto simp: limit_files_def list_all_iff)
qed

lemma res_memory_files: "res_memory m = Inr out \<Longrightarrow> limit_files out"
  by (auto simp: res_memory_def Let_def bind_result_Inr_iff split: if_splits option.splits)

lemma res_cpu_files: "res_cpu float_weight c = Inr out \<Longrightarrow> limit_files out"
  by (auto simp: res_cpu_def Let_def split: if_splits option.split)

lemma weight_entry_files: "weight_entry d = Inr ss \<Longrightarrow> limit_files ss"
  by (auto simp: weight_entry_def bind_result_Inr_iff split: if_splits option.splits)

lemma throttle_entry_files: "throttle_entry field key d = Inr ss \<Longrightarrow> limit_files ss"
  by (auto simp: throttle_entry_def bind_result_Inr_iff)

lemma res_block_io_files:
  assumes "res_block_io b = Inr out"
  shows "limit_files out"
proof -
  obtain first weights throttles where parts: "out = first @ weights @ throttles"
      "res_each weight_entry (opt_list (bi_weight_device b)) = Inr weights"
      "res_each (\<lambda>(field, key, ds). res_each (throttle_entry field key) ds) (res_throttles b) = Inr throttles"
      and "(case opt_filter (\<lambda>w. w \<noteq> 0) (bi_weight b) of None \<Rightarrow> Inr []
        | Some w \<Rightarrow> bind_result (blkio_weight_to_io_weight w) (\<lambda>v. Inr [Setting_new ''io.weight'' (''default '' @ dec v)])) = Inr first"
    using assms by (auto simp: res_block_io_def bind_result_Inr_iff split: if_splits)
  then have "limit_files first" by (auto simp: bind_result_Inr_iff split: option.splits)
  moreover have "limit_files weights" using parts(2) weight_entry_files by (rule res_each_files)
  moreover have "limit_files throttles"
    using parts(3) by (rule res_each_files) (auto intro: res_each_files throttle_entry_files)
  ultimately show ?thesis by (simp add: parts(1))
qed

lemma has_dots_append: "has_dots (a @ b) \<longleftrightarrow> has_dots a \<or> has_dots b \<or> a \<noteq> [] \<and> b \<noteq> [] \<and> last a = CHR ''.'' \<and> hd b = CHR ''.''"
proof (induction a rule: has_dots.induct)
  case (2 c)
  then show ?case by (cases b) auto
qed auto

lemma no_dots: "CHR ''.'' \<notin> set a \<Longrightarrow> \<not> has_dots a"
  by (induction a rule: has_dots.induct) auto

lemma is_page_size_chars: "is_page_size s \<Longrightarrow> s \<noteq> [] \<and> list_all is_alnum s"
proof -
  assume page: "is_page_size s"
  define digits where "digits = rev (dropWhile is_alpha (rev s))"
  have "s = digits @ drop (length digits) s"
    unfolding digits_def by (metis append_eq_conv_conj rev_append rev_rev_ident takeWhile_dropWhile_id)
  moreover have "digits \<noteq> []" "list_all is_digit digits" "drop (length digits) s \<in> {''KB'', ''MB'', ''GB''}"
    using page by (auto simp: is_page_size_def digits_def Let_def)
  moreover have "list_all is_alnum u" if "u \<in> {''KB'', ''MB'', ''GB''}" for u
    using that by (auto simp: is_alnum_def is_alpha_def)
  ultimately show ?thesis by (metis Nil_is_append_conv is_alnum_def list_all_append list.pred_mono_strong)
qed

lemma hugepage_file: "is_page_size s \<Longrightarrow> limit_file (''hugetlb.'' @ s @ ''.max'')"
proof -
  assume "is_page_size s"
  then have s: "s \<noteq> []" "list_all is_alnum s" using is_page_size_chars by blast+
  then have "CHR ''.'' \<notin> set s" "CHR 0x2F \<notin> set s"
    by (auto simp: list_all_iff is_alnum_def is_alpha_def is_digit_def dest!: bspec)
  moreover have "last s \<noteq> CHR ''.''" "hd s \<noteq> CHR ''.''" using s(1) calculation(1) last_in_set hd_in_set by metis+
  ultimately have "\<not> has_dots (''hugetlb.'' @ s @ ''.max'')"
    using s(1) no_dots [of s] unfolding has_dots_append by simp
  moreover have "''hugetlb.'' @ s @ ''.max'' \<notin> set FORBIDDEN_UNIFIED" by (simp add: FORBIDDEN_UNIFIED_def)
  moreover have "\<exists>ctl name. ''hugetlb.'' @ s @ ''.max'' = ctl @ CHR ''.'' # name \<and> ctl \<noteq> []"
    by (intro exI [of _ "''hugetlb''"] exI [of _ "s @ ''.max''"]) simp
  ultimately show ?thesis using \<open>CHR 0x2F \<notin> set s\<close> unfolding limit_file_def by (intro conjI) simp_all
qed

lemma hugepage_entry_files: "hugepage_entry h = Inr ss \<Longrightarrow> limit_files ss"
  using hugepage_file by (auto simp: hugepage_entry_def bind_result_Inr_iff split: if_splits)

lemma unified_entry_files:
  assumes "unified_entry kv = Inr ss"
  shows "limit_files ss"
proof -
  have "check_unified_key (fst kv) = Inr ()" "ss = [Setting_new (fst kv) (snd kv)]"
    using assms by (auto simp: unified_entry_def bind_result_Inr_iff)
  moreover from this have "limit_file_check (fst kv)"
    by (auto simp: check_unified_key_def limit_file_check_def split: if_splits option.splits)
  ultimately show ?thesis using limit_file_checked by simp
qed

section \<open>What the runtime promises\<close>

text \<open>The values of the parameters: one for the machine, and for each namespace (told by its identity) one of its own.\<close>

record SysKernel =
  sk_global :: "string list \<Rightarrow> string"
  sk_own :: "SysctlKind \<times> u64 \<times> u64 \<Rightarrow> string list \<Rightarrow> string"

definition changes_only :: "SysctlKind \<times> u64 \<times> u64 \<Rightarrow> SysKernel \<Rightarrow> SysKernel \<Rightarrow> bool" where
  "changes_only ns k k' \<longleftrightarrow> sk_global k' = sk_global k \<and> (\<forall>n. n \<noteq> ns \<longrightarrow> sk_own k' n = sk_own k n)"

text \<open>What the documentation of \<^verbatim>\<open>sysctl.rs\<close> relies on of the kernel, for a writer in the namespaces \<open>me\<close>: a write to a parameter of the
  table goes to the copy of the writer's namespace. Some of \<open>net.core\<close> are of the machine; in a network namespace that is
  not the host's they are missing or read-only, so there too a write that succeeds goes to the copy. Nothing is said of other
  paths, nor of ones that climb.\<close>

definition sysctl_laws :: "(SysctlKind \<Rightarrow> u64 \<times> u64) \<Rightarrow> ((SysctlKind \<Rightarrow> u64 \<times> u64) \<Rightarrow> string list \<Rightarrow> string \<Rightarrow> SysKernel \<Rightarrow> 'e + SysKernel) \<Rightarrow> bool" where
  "sysctl_laws host proc_write \<longleftrightarrow>
     (\<forall>me kind parts val k k'. (\<forall>p\<in>set parts. plain_part p) \<and> namespaced kind parts \<and> (kind = KindNet \<longrightarrow> me KindNet \<noteq> host KindNet) \<and>
        proc_write me (''sys'' # parts) val k = Inr k' \<longrightarrow> changes_only (kind, me kind) k k')"

text \<open>The namespaces of the container's first process: a new one is nobody else's, one with a path is the one of the path, and
  one that is not listed is the runtime's.\<close>

definition container_namespaces ::
  "(string \<Rightarrow> (u64 \<times> u64) option) \<Rightarrow> (SysctlKind \<Rightarrow> u64 \<times> u64) \<Rightarrow> LinuxNamespace list \<Rightarrow> (SysctlKind \<Rightarrow> u64 \<times> u64) \<Rightarrow> bool" where
  "container_namespaces stat host nss me \<longleftrightarrow>
     (\<forall>n\<in>set nss. \<forall>k. ln_type n = kind_type k \<longrightarrow>
        (case ln_path n of None \<Rightarrow> me k \<noteq> host k | Some path \<Rightarrow> stat path = Some (me k))) \<and>
     (\<forall>k. kind_type k \<notin> set (map ln_type nss) \<longrightarrow> me k = host k)"

lemma sysctl_entry_ok:
  assumes "sysctl_entry stat ours ns kv = Inr s" "ns_collected nss seen ns"
  shows "(\<forall>p\<in>set (sy_path s). plain_part p) \<and> (\<exists>k. namespaced k (sy_path s) \<and> owns_namespace stat ours nss k) \<and> (sy_key s, sy_value s) = kv"
proof -
  obtain key val parts k where "kv = (key, val)" and s: "s = \<lparr>sy_key = key, sy_path = parts, sy_value = val\<rparr>"
      and parts: "sysctl_components key = Inr parts" "namespace_of key parts = Inr k" "check_own_namespace stat ours key k ns = Inr ()"
    using assms(1) by (auto simp: sysctl_entry_def bind_result_Inr_iff split: prod.splits if_splits)
  then show ?thesis
    using sysctl_components_ok [OF parts(1)] namespace_of_ok [OF parts(2)] check_own_namespace_ok [OF parts(3) assms(2)] by auto
qed

lemma sysctl_plan_ok:
  assumes "namespaces_plan nss = Inr ns" "sysctl_plan stat ours sysctl ns = Inr out"
  shows "\<forall>s\<in>set out. (\<forall>p\<in>set (sy_path s). plain_part p) \<and> (\<exists>k. namespaced k (sy_path s) \<and> owns_namespace stat ours nss k)"
    and "map (\<lambda>s. (sy_key s, sy_value s)) out = sort_key fst sysctl"
proof -
  obtain seen where seen: "ns_collected nss seen ns" using namespaces_plan_collected(1) [OF assms(1)] by blast
  have each: "list_all2 (\<lambda>kv s. sysctl_entry stat ours ns kv = Inr s) (sort_key fst sysctl) out"
    using assms(2) unfolding sysctl_plan_def collect_results_Inr_iff .
  then show "\<forall>s\<in>set out. (\<forall>p\<in>set (sy_path s). plain_part p) \<and> (\<exists>k. namespaced k (sy_path s) \<and> owns_namespace stat ours nss k)"
    using sysctl_entry_ok [OF _ seen] by (induction rule: list_all2_induct) auto
  show "map (\<lambda>s. (sy_key s, sy_value s)) out = sort_key fst sysctl"
    using each sysctl_entry_ok [OF _ seen] by (induction rule: list_all2_induct) auto
qed

lemma owned_not_host:
  assumes "owns_namespace stat ours nss k" "container_namespaces stat host nss me" "ours = (\<lambda>k. Some (host k))"
  shows "me k \<noteq> host k"
proof -
  obtain n where n: "n \<in> set nss" "ln_type n = kind_type k"
      "case ln_path n of None \<Rightarrow> True | Some path \<Rightarrow> stat path \<noteq> None \<and> stat path \<noteq> ours k \<and> NsUser \<notin> set (map ln_type nss)"
    using assms(1) unfolding owns_namespace_def by blast
  have "case ln_path n of None \<Rightarrow> me k \<noteq> host k | Some path \<Rightarrow> stat path = Some (me k)"
    using assms(2) n(1,2) unfolding container_namespaces_def by blast
  then show ?thesis using n(3) assms(3) by (auto split: option.splits)
qed

lemma sysctl_apply_own:
  assumes "sysctl_laws host proc_write"
    and "\<forall>s\<in>set out. (\<forall>p\<in>set (sy_path s). plain_part p) \<and> (\<exists>kind. namespaced kind (sy_path s) \<and> me kind \<noteq> host kind)"
    and "snd (sysctl_apply (proc_write me) out k) = k'"
  shows "sk_global k' = sk_global k \<and> (\<forall>kind id. id \<noteq> me kind \<or> me kind = host kind \<longrightarrow> sk_own k' (kind, id) = sk_own k (kind, id))"
  using assms(2,3)
proof (induction out arbitrary: k)
  case (Cons s out)
  show ?case
  proof (cases "proc_write me (''sys'' # sy_path s) (sy_value s) k")
    case (Inl e)
    then show ?thesis using Cons.prems(2) by auto
  next
    case (Inr j)
    obtain kind where kind: "namespaced kind (sy_path s)" "me kind \<noteq> host kind" "\<forall>p\<in>set (sy_path s). plain_part p"
      using Cons.prems(1) by auto
    then have "kind = KindNet \<longrightarrow> me KindNet \<noteq> host KindNet" by blast
    then have j: "changes_only (kind, me kind) k j"
      using assms(1) kind Inr unfolding sysctl_laws_def by blast
    have "snd (sysctl_apply (proc_write me) out j) = k'" using Cons.prems(2) Inr by simp
    then have rest: "sk_global k' = sk_global j \<and>
        (\<forall>kind id. id \<noteq> me kind \<or> me kind = host kind \<longrightarrow> sk_own k' (kind, id) = sk_own j (kind, id))"
      using Cons.IH[of j] Cons.prems(1) by simp
    have "sk_own j (kind', i) = sk_own k (kind', i)" if "i \<noteq> me kind' \<or> me kind' = host kind'" for kind' i
    proof -
      have "(kind', i) \<noteq> (kind, me kind)" using that kind(2) by auto
      then show ?thesis using j unfolding changes_only_def by blast
    qed
    then show ?thesis using rest j unfolding changes_only_def by metis
  qed
qed simp

text \<open>C37: A container's kernel parameters never reach the host: when init, in the container's namespaces, has written those of a
  plan (all of them, or until one fails), every value of the machine and of every namespace that is not one of
  the container's own is what it was. The plan has every key that was asked for, each with a path of plain names below
  \<^verbatim>\<open>/proc/sys\<close>, and with a user namespace it only uses namespaces created with it. What is relied on of the kernel is \<open>sysctl_laws\<close>.\<close>

theorem sysctls_stay_in_container:
  assumes "namespaces_plan nss = Inr ns" and "sysctl_plan stat (\<lambda>k. Some (host k)) sysctl ns = Inr out"
    and "sysctl_laws host proc_write" and "container_namespaces stat host nss me"
    and "snd (sysctl_apply (proc_write me) out k) = k'"
  shows "sk_global k' = sk_global k \<and>
    (\<forall>kind id. id \<noteq> me kind \<or> me kind = host kind \<longrightarrow> sk_own k' (kind, id) = sk_own k (kind, id)) \<and>
    map (\<lambda>s. (sy_key s, sy_value s)) out = sort_key fst sysctl \<and>
    (\<forall>s\<in>set out. (\<forall>p\<in>set (sy_path s). plain_part p) \<and>
       (NsUser \<in> set (map ln_type nss) \<longrightarrow>
          (\<exists>kind. namespaced kind (sy_path s) \<and> (\<exists>n\<in>set nss. ln_type n = kind_type kind \<and> ln_path n = None))))"
proof -
  note plan = sysctl_plan_ok[OF assms(1,2)]
  have "\<forall>s\<in>set out. (\<forall>p\<in>set (sy_path s). plain_part p) \<and> (\<exists>kind. namespaced kind (sy_path s) \<and> me kind \<noteq> host kind)"
    using plan(1) owned_not_host[OF _ assms(4) refl] by blast
  note own = sysctl_apply_own[OF assms(3) this assms(5)]
  have "\<exists>kind. namespaced kind (sy_path s) \<and> (\<exists>n\<in>set nss. ln_type n = kind_type kind \<and> ln_path n = None)"
    if "s \<in> set out" "NsUser \<in> set (map ln_type nss)" for s
    using plan(1) that unfolding owns_namespace_def by (force split: option.splits)
  then show ?thesis using own plan by blast
qed

text \<open>C36: However often the programs of a container replace themselves, none ever has a capability that the bounding list
  of the specification does not name, or that the kernel does not know.\<close>

theorem caps_stay_bounded:
  assumes "caps_from_spec c last_cap = Inr p" and "execve_laws exec" and "programs \<noteq> []"
  shows "let s = foldl exec (caps_apply p (drop_bounding p start)) programs
    in \<forall>n. bit (pc_permitted s) n \<or> bit (pc_effective s) n \<or> bit (pc_inheritable s) n \<or> bit (pc_ambient s) n \<longrightarrow>
         n \<in> listed_caps last_cap (lc_bounding c)"
  using execs_confined [OF assms(2) init_confined [OF assms(1)] assms(3), of start] caps_from_spec_bits(1) [OF assms(1)]
  unfolding confined_def caps_subset_bits Let_def by blast

text \<open>C38: A setting is written to a file of a controller in the container's own cgroup, never to another directory and
  never to a control file such as cgroup.procs or cgroup.freeze; and with a memory limit and a swap limit, which counts
  both, the container gets the first of memory and the rest of swap.\<close>

theorem settings_are_limits:
  assumes "settings_for float_weight r = Inr out"
  shows "(\<forall>s\<in>set out. limit_file (st_file s)) \<and>
    (\<forall>m l s. lr_memory r = Some m \<and> me_limit m = Some l \<and> 0 < l \<and> me_swap m = Some s \<and> 0 < s \<longrightarrow>
       l \<le> s \<and> Setting_new ''memory.max'' (dec (nat l)) \<in> set out \<and> Setting_new ''memory.swap.max'' (dec (nat s - nat l)) \<in> set out)"
proof -
  obtain memory cpu block_io hugepages unified where
      out: "out = memory @ cpu @ (case lr_pids r of None \<Rightarrow> [] | Some p \<Rightarrow> res_pids p) @ block_io @ hugepages @ unified"
      and memory: "(case lr_memory r of None \<Rightarrow> Inr [] | Some m \<Rightarrow> res_memory m) = Inr memory"
      and cpu: "(case lr_cpu r of None \<Rightarrow> Inr [] | Some c \<Rightarrow> res_cpu float_weight c) = Inr cpu"
      and block_io: "(case lr_block_io r of None \<Rightarrow> Inr [] | Some b \<Rightarrow> res_block_io b) = Inr block_io"
      and hugepages: "res_each hugepage_entry (opt_list (lr_hugepage_limits r)) = Inr hugepages"
      and unified: "res_each unified_entry (sort_key fst (opt_list (lr_unified r))) = Inr unified"
    using assms unfolding settings_for_def by (auto simp: bind_result_Inr_iff split: if_splits)
  have "limit_files memory" using memory res_memory_files by (auto split: option.splits)
  moreover have "limit_files cpu" using cpu res_cpu_files by (auto split: option.splits)
  moreover have "limit_files block_io" using block_io res_block_io_files by (auto split: option.splits)
  moreover have "limit_files hugepages" using hugepages hugepage_entry_files by (rule res_each_files)
  moreover have "limit_files unified" using unified unified_entry_files by (rule res_each_files)
  ultimately have "limit_files out" unfolding out by (simp add: res_pids_def split: option.split)
  moreover have "l \<le> s \<and> Setting_new ''memory.max'' (dec (nat l)) \<in> set out \<and> Setting_new ''memory.swap.max'' (dec (nat s - nat l)) \<in> set out"
    if "lr_memory r = Some m" "me_limit m = Some l" "0 < l" "me_swap m = Some s" "0 < s" for m l s
  proof -
    have "res_memory m = Inr memory" using memory that(1) by simp
    then have "l \<le> s \<and> Setting_new ''memory.max'' (int_text l) \<in> set memory \<and> Setting_new ''memory.swap.max'' (int_text (s - l)) \<in> set memory"
      using that by (auto simp: res_memory_def Let_def opt_filter_def bytes_or_max_def swap_max_def bind_result_Inr_iff split: if_splits option.splits)
    then show ?thesis using that by (auto simp: out int_text_def nat_diff_distrib)
  qed
  ultimately show ?thesis by (auto simp: limit_files_def list_all_iff)
qed

section \<open>Examples\<close>

definition example_namespaces :: "LinuxNamespace list" where
  "example_namespaces = [\<lparr>ln_type = NsMount, ln_path = None\<rparr>, \<lparr>ln_type = NsNetwork, ln_path = Some ''/run/netns/a''\<rparr>]"

definition example_ns :: NamespacePlan where
  "example_ns = \<lparr>ns_clone_flags = NEWNS, ns_new_cgroup = False, ns_joins = [\<lparr>jn_kind = NEWNET, jn_path = ''/run/netns/a''\<rparr>]\<rparr>"

definition example_sysctl :: Sysctl where
  "example_sysctl = \<lparr>sy_key = ''net.a'', sy_path = [''net'', ''a''], sy_value = ''1''\<rparr>"

text \<open>A kernel that keeps a copy for each namespace and refuses every other parameter.\<close>

definition example_write :: "(SysctlKind \<Rightarrow> u64 \<times> u64) \<Rightarrow> string list \<Rightarrow> string \<Rightarrow> SysKernel \<Rightarrow> unit + SysKernel" where
  "example_write me path val k =
     (case namespace_of [] (tl path) of
        Inl _ \<Rightarrow> Inl ()
      | Inr kind \<Rightarrow> Inr (k\<lparr>sk_own := (sk_own k)((kind, me kind) := (sk_own k (kind, me kind))(tl path := val))\<rparr>))"

lemma namespaced_once: "namespaced a parts \<Longrightarrow> namespaced b parts \<Longrightarrow> a = b"
  by (cases a; cases b) auto

lemma example_write_laws: "sysctl_laws host example_write"
  unfolding sysctl_laws_def
proof (intro allI impI, elim conjE)
  fix me :: "SysctlKind \<Rightarrow> u64 \<times> u64" and kind parts val k k'
  assume kind: "namespaced kind parts" and "example_write me (''sys'' # parts) val k = Inr k'"
  then obtain kind' where "namespace_of [] parts = Inr kind'"
      and k': "k' = k\<lparr>sk_own := (sk_own k)((kind', me kind') := (sk_own k (kind', me kind'))(parts := val))\<rparr>"
    by (auto simp: example_write_def split: sum.splits)
  then have "kind' = kind" using namespaced_once[OF namespace_of_ok kind] by blast
  then show "changes_only (kind, me kind) k k'" by (simp add: changes_only_def k')
qed

definition example_kernel :: SysKernel where
  "example_kernel = \<lparr>sk_global = (\<lambda>_. ''0''), sk_own = (\<lambda>_ _. ''0'')\<rparr>"

theorem sysctls_stay_in_container_witness:
  "sk_own (snd (sysctl_apply (example_write ((\<lambda>_. (1, 3))(KindNet := (1, 2)))) [example_sysctl] example_kernel)) (KindNet, 1, 3) [''net'', ''a''] = ''0'' \<and>
   sk_own (snd (sysctl_apply (example_write ((\<lambda>_. (1, 3))(KindNet := (1, 2)))) [example_sysctl] example_kernel)) (KindNet, 1, 2) [''net'', ''a''] = ''1''"
proof -
  let ?me = "(\<lambda>_. (1, 3))(KindNet := (1, 2)) :: SysctlKind \<Rightarrow> u64 \<times> u64"
  have ns: "namespaces_plan example_namespaces = Inr example_ns" by code_simp
  have sysctl: "sysctl_plan (\<lambda>_. Some (1, 2)) (\<lambda>_. Some (1, 3)) [(''net.a'', ''1'')] example_ns = Inr [example_sysctl]" by code_simp
  have kinds: "kind_type k = NsNetwork \<longleftrightarrow> k = KindNet" "kind_type k \<noteq> NsMount" for k by (cases k; simp)+
  have me: "container_namespaces (\<lambda>_. Some (1, 2)) (\<lambda>_. (1, 3)) example_namespaces ?me"
    by (auto simp: container_namespaces_def example_namespaces_def kinds eq_commute[of "NsNetwork"] eq_commute[of NsMount])
  show ?thesis
    using sysctls_stay_in_container [OF ns sysctl example_write_laws me refl, of example_kernel]
    by (simp add: example_kernel_def) (simp add: example_write_def example_sysctl_def namespace_of_def IPC_KERNEL_KEYS_def)
qed

text \<open>A kernel after the documented rules, with a file's permitted and inheritable sets.\<close>

definition example_exec :: "ProcCaps \<Rightarrow> u64 \<times> u64 \<Rightarrow> ProcCaps" where
  "example_exec s f =
     (let permitted = (pc_inheritable s AND snd f) OR (fst f AND pc_bounding s) OR pc_ambient s
      in s\<lparr>pc_permitted := permitted, pc_effective := permitted\<rparr>)"

definition example_caps :: LinuxCapabilities where
  "example_caps = \<lparr>lc_bounding = Some [''CAP_CHOWN'', ''CAP_KILL''], lc_effective = Some [''CAP_KILL''], lc_inheritable = None,
     lc_permitted = Some [''CAP_KILL''], lc_ambient = None\<rparr>"

definition example_plan :: CapsPlan where
  "example_plan = \<lparr>cp_last = 40, cp_bounding = 33, cp_effective = 32, cp_permitted = 32, cp_inheritable = 0, cp_ambient = 0\<rparr>"

lemma example_exec_laws: "execve_laws example_exec"
  unfolding execve_laws_def caps_subset_bits by (auto simp: example_exec_def Let_def bit_or_iff bit_and_iff)

theorem caps_stay_bounded_witness:
  "{n. bit (pc_permitted (foldl example_exec (caps_apply example_plan (drop_bounding example_plan
     \<lparr>pc_bounding = - 1, pc_effective = - 1, pc_permitted = - 1, pc_inheritable = 0, pc_ambient = 0\<rparr>)) [(- 1, 0), (- 1, - 1)])) n}
   \<subseteq> listed_caps 40 (lc_bounding example_caps)"
proof -
  have "caps_from_spec example_caps 40 = Inr example_plan" by code_simp
  from caps_stay_bounded [OF this example_exec_laws] show ?thesis unfolding Let_def by blast
qed

definition example_limits :: LinuxResources where
  "example_limits =
     \<lparr>lr_memory = Some \<lparr>me_limit = Some 64, me_reservation = None, me_swap = Some 96, me_kernel = None, me_kernel_tcp = None,
        me_swappiness = None, me_disable_oom_killer = None\<rparr>,
      lr_cpu = None, lr_pids = Some 0, lr_block_io = None, lr_hugepage_limits = None, lr_network = None, lr_rdma = None,
      lr_unified = Some [(''memory.high'', ''50'')]\<rparr>"

theorem settings_are_limits_witness:
  "settings_for (\<lambda>_. 1) example_limits =
     Inr [Setting_new ''memory.max'' ''64'', Setting_new ''memory.swap.max'' ''32'', Setting_new ''pids.max'' ''max'', Setting_new ''memory.high'' ''50''] \<and>
   limit_file ''memory.high''"
proof -
  have out: "settings_for (\<lambda>_. 1) example_limits =
     Inr [Setting_new ''memory.max'' ''64'', Setting_new ''memory.swap.max'' ''32'', Setting_new ''pids.max'' ''max'', Setting_new ''memory.high'' ''50'']"
    by code_simp
  show ?thesis using out settings_are_limits [OF out] by (simp add: Setting_new_def)
qed

end
