(* ===== verification/LogReader.thy ===== *)
theory LogReader
  imports Logs Text
begin

text \<open>
  Reading a container's log while the shim writes it, \<^verbatim>\<open>rustletd/src/logs.rs\<close>. Files are told apart by their inodes,
  so the file system here has them: a name (\<open>0\<close> is \<open>container.log\<close>, \<open>n\<close> is \<open>container.log.n\<close>) stands for an inode, and an open
  file is an inode with a position. The shim's writer (\<^verbatim>\<open>rustlet-shim/src/logfile.rs\<close>) is given on this file system too; its
  files by name are those of \<^verbatim>\<open>Logs\<close>.

  A new file has an inode that no file has or had; the kernel gives one again only when nobody has it open. System calls
  succeed, but for files that do not exist. Reading an entry from its line (\<open>serde_json\<close>) and times (\<open>chrono\<close>, in
  nanoseconds) are arguments.
\<close>

section \<open>Files\<close>

record LogFs =
  fs_names :: "nat \<rightharpoonup> nat"
  fs_data :: "nat \<Rightarrow> u8 list"
  fs_next :: nat

text \<open>The files by name.\<close>

definition fs_files :: "LogFs \<Rightarrow> log_files" where
  "fs_files fs n = map_option (fs_data fs) (fs_names fs n)"

definition fs_append :: "nat \<Rightarrow> u8 list \<Rightarrow> LogFs \<Rightarrow> LogFs" where
  "fs_append ino bytes fs = fs\<lparr>fs_data := (fs_data fs)(ino := fs_data fs ino @ bytes)\<rparr>"

definition fs_rename :: "nat \<Rightarrow> nat \<Rightarrow> LogFs \<Rightarrow> LogFs option" where
  "fs_rename a b fs =
     (case fs_names fs a of
        None \<Rightarrow> None
      | Some ino \<Rightarrow> Some (fs\<lparr>fs_names := (fs_names fs)(a := None, b \<mapsto> ino)\<rparr>))"

text \<open>\<open>open_append\<close>: the file, created if it does not exist.\<close>

definition fs_open_append :: "LogFs \<Rightarrow> LogFs \<times> nat" where
  "fs_open_append fs =
     (case fs_names fs 0 of
        Some ino \<Rightarrow> (fs, ino)
      | None \<Rightarrow>
          (fs\<lparr>fs_names := (fs_names fs)(0 \<mapsto> fs_next fs), fs_data := (fs_data fs)(fs_next fs := []), fs_next := fs_next fs + 1\<rparr>,
           fs_next fs))"

section \<open>The shim's writer\<close>

record ShimWriter =
  sw_file :: nat
  sw_log :: LogWriter

fun fs_shift :: "nat \<Rightarrow> LogFs \<Rightarrow> LogFs" where
  "fs_shift 0 fs = fs"
| "fs_shift (Suc n) fs = fs_shift n (case fs_rename (Suc n) (Suc n + 1) fs of None \<Rightarrow> fs | Some fs' \<Rightarrow> fs')"

definition fs_rotate :: "LogFs \<times> ShimWriter \<Rightarrow> (LogFs \<times> ShimWriter) option" where
  "fs_rotate fw =
     (let (fs, w) = fw; keep = lw_max_files (sw_log w) - 1
      in if keep = 0 then
           Some (fs\<lparr>fs_data := (fs_data fs)(sw_file w := [])\<rparr>, w\<lparr>sw_log := (sw_log w)\<lparr>lw_size := 0\<rparr>\<rparr>)
         else case fs_rename 0 1 (fs_shift (keep - 1) fs) of
                None \<Rightarrow> None
              | Some fs \<Rightarrow>
                  (case fs_open_append fs of
                     (fs, ino) \<Rightarrow> Some (fs, \<lparr>sw_file = ino, sw_log = (sw_log w)\<lparr>lw_size := 0\<rparr>\<rparr>)))"

definition fs_needs_rotation :: "ShimWriter \<Rightarrow> u8 list \<Rightarrow> bool" where
  "fs_needs_rotation w line \<longleftrightarrow> lw_size (sw_log w) > 0 \<and> lw_size (sw_log w) + length line > lw_max_size (sw_log w)"

text \<open>\<open>write\<close> up to \<open>write_all\<close>, and all of it.\<close>

definition fs_prepare :: "LogFs \<times> ShimWriter \<Rightarrow> u8 list \<Rightarrow> (LogFs \<times> ShimWriter) option" where
  "fs_prepare fw line = (if fs_needs_rotation (snd fw) line then fs_rotate fw else Some fw)"

definition fs_write :: "LogFs \<times> ShimWriter \<Rightarrow> u8 list \<Rightarrow> (LogFs \<times> ShimWriter) option" where
  "fs_write fw line =
     (case fs_prepare fw line of
        None \<Rightarrow> None
      | Some (fs, w) \<Rightarrow>
          Some (fs_append (sw_file w) line fs, w\<lparr>sw_log := (sw_log w)\<lparr>lw_size := lw_size (sw_log w) + length line\<rparr>\<rparr>))"

text \<open>The same writer, one system call at a time, on the lines it has still to write. A \<open>write\<close> is in a rotation (the number
  is that of the next file to rename), about to create the file, or has bytes left (of so many); \<open>write_all\<close> writes at least one byte and at most all
  that are left in a call, and \<open>n\<close> is how many.\<close>

datatype WriterAt = Idle | Shifting nat "u8 list" | Creating "u8 list" | Putting "u8 list" nat

record Shim =
  sh_fs :: LogFs
  sh_writer :: ShimWriter
  sh_at :: WriterAt
  sh_lines :: "u8 list list"

definition shim_begin :: "Shim \<Rightarrow> Shim" where
  "shim_begin s =
     (case sh_lines s of
        [] \<Rightarrow> s
      | l # ls \<Rightarrow>
          let s = s\<lparr>sh_lines := ls\<rparr>; w = sh_writer s; keep = lw_max_files (sw_log w) - 1
          in if \<not> fs_needs_rotation w l then s\<lparr>sh_at := Putting l (length l)\<rparr>
             else if keep = 0 then
               s\<lparr>sh_fs := (sh_fs s)\<lparr>fs_data := (fs_data (sh_fs s))(sw_file w := [])\<rparr>,
                 sh_writer := w\<lparr>sw_log := (sw_log w)\<lparr>lw_size := 0\<rparr>\<rparr>, sh_at := Putting l (length l)\<rparr>
             else s\<lparr>sh_at := Shifting (keep - 1) l\<rparr>)"

definition shim_step :: "nat \<Rightarrow> Shim \<Rightarrow> Shim" where
  "shim_step n s =
     (case sh_at s of
        Idle \<Rightarrow> shim_begin s
      | Shifting (Suc k) l \<Rightarrow>
          s\<lparr>sh_fs := (case fs_rename (Suc k) (Suc k + 1) (sh_fs s) of None \<Rightarrow> sh_fs s | Some fs \<Rightarrow> fs), sh_at := Shifting k l\<rparr>
      | Shifting 0 l \<Rightarrow>
          (case fs_rename 0 1 (sh_fs s) of
             None \<Rightarrow> s\<lparr>sh_at := Idle\<rparr>
           | Some fs \<Rightarrow> s\<lparr>sh_fs := fs, sh_at := Creating l\<rparr>)
      | Creating l \<Rightarrow>
          (case fs_open_append (sh_fs s) of
             (fs, ino) \<Rightarrow>
               s\<lparr>sh_fs := fs, sh_writer := \<lparr>sw_file = ino, sw_log = (sw_log (sh_writer s))\<lparr>lw_size := 0\<rparr>\<rparr>, sh_at := Putting l (length l)\<rparr>)
      | Putting l len \<Rightarrow>
          let n = max 1 n; w = sh_writer s;
              s = s\<lparr>sh_fs := fs_append (sw_file w) (take n l) (sh_fs s)\<rparr>
          in if drop n l = []
             then s\<lparr>sh_writer := w\<lparr>sw_log := (sw_log w)\<lparr>lw_size := lw_size (sw_log w) + len\<rparr>\<rparr>, sh_at := Idle\<rparr>
             else s\<lparr>sh_at := Putting (drop n l) len\<rparr>)"

definition shim_run :: "nat list \<Rightarrow> Shim \<Rightarrow> Shim" where
  "shim_run ns s = foldl (\<lambda>s n. shim_step n s) s ns"

section \<open>Entries\<close>

datatype LogStream = Stdout | Stderr

record LogEntry =
  le_ts :: string
  le_stream :: LogStream
  le_log :: string

record LogFilter =
  fl_since :: "int option"
  fl_until :: "int option"
  fl_stdout :: bool
  fl_stderr :: bool

definition passes :: "(string \<Rightarrow> int option) \<Rightarrow> LogFilter \<Rightarrow> LogEntry \<Rightarrow> bool" where
  "passes rfc3339 f e =
     (let stream = (case le_stream e of Stdout \<Rightarrow> fl_stdout f | Stderr \<Rightarrow> fl_stderr f)
      in if \<not> stream then False
         else if fl_since f = None \<and> fl_until f = None then True
         else case rfc3339 (le_ts e) of
                None \<Rightarrow> True
              | Some t \<Rightarrow>
                  (case fl_since f of None \<Rightarrow> True | Some s \<Rightarrow> t \<ge> s) \<and> (case fl_until f of None \<Rightarrow> True | Some u \<Rightarrow> t < u))"

datatype TimeError = NotATime string | BadFraction string | OutOfRange string

definition parse_time :: "(string \<Rightarrow> int option) \<Rightarrow> (int \<Rightarrow> nat \<Rightarrow> int option) \<Rightarrow> string \<Rightarrow> TimeError + int" where
  "parse_time rfc3339 from_timestamp s =
     (case rfc3339 s of
        Some t \<Rightarrow> Inr t
      | None \<Rightarrow>
          let (secs, frac) = (case split_once (CHR ''.'') s of Some p \<Rightarrow> p | None \<Rightarrow> (s, []))
          in case parse_int 64 secs of
               None \<Rightarrow> Inl (NotATime s)
             | Some n \<Rightarrow>
                 bind_result (if frac = [] then Inr 0
                    else let digits = take 9 frac
                         in case parse_uint 32 digits of
                              None \<Rightarrow> Inl (BadFraction s)
                            | Some f \<Rightarrow> Inr (f * 10 ^ (9 - length digits))) (\<lambda>nanos.
                   case from_timestamp n nanos of None \<Rightarrow> Inl (OutOfRange s) | Some t \<Rightarrow> Inr t))"

text \<open>What the client asks for.\<close>

record LogsQuery =
  lq_follow :: bool
  lq_tail :: "nat option"
  lq_since :: "string option"
  lq_until :: "string option"
  lq_stdout :: bool
  lq_stderr :: bool

definition LogsQuery_default :: LogsQuery where
  "LogsQuery_default =
     \<lparr>lq_follow = False, lq_tail = None, lq_since = None, lq_until = None, lq_stdout = True, lq_stderr = True\<rparr>"

definition opt_time :: "(string \<Rightarrow> TimeError + int) \<Rightarrow> string option \<Rightarrow> TimeError + int option" where
  "opt_time parse s = (case s of None \<Rightarrow> Inr None | Some s \<Rightarrow> (case parse s of Inl e \<Rightarrow> Inl e | Inr t \<Rightarrow> Inr (Some t)))"

definition LogFilter_new :: "(string \<Rightarrow> TimeError + int) \<Rightarrow> LogsQuery \<Rightarrow> TimeError + LogFilter" where
  "LogFilter_new parse q =
     bind_result (opt_time parse (lq_since q)) (\<lambda>since.
     bind_result (opt_time parse (lq_until q)) (\<lambda>until.
     Inr \<lparr>fl_since = since, fl_until = until, fl_stdout = lq_stdout q, fl_stderr = lq_stderr q\<rparr>))"

text \<open>The entries of complete lines, and the incomplete rest.\<close>

function parse_lines :: "(u8 list \<Rightarrow> 'e option) \<Rightarrow> u8 list \<Rightarrow> 'e list \<times> u8 list" where
  "parse_lines decode bytes =
     (case position (\<lambda>b. b = newline) bytes of
        None \<Rightarrow> ([], bytes)
      | Some i \<Rightarrow>
          (case parse_lines decode (drop (i + 1) bytes) of
             (entries, rest) \<Rightarrow>
               (case decode (take i bytes) of Some e \<Rightarrow> (e # entries, rest) | None \<Rightarrow> (entries, rest))))"
  by pat_completeness auto
termination
  by (relation "measure (\<lambda>(_, bytes). length bytes)") (auto dest: position_Some)

declare parse_lines.simps [simp del]

section \<open>The reader\<close>

text \<open>The shim goes on writing and rotating while the reader reads, so every system call of the reader finds files of its own: a look
  is a sequence of them, and \<open>look k\<close> is what the \<open>k\<close>-th call finds. To drain a file is one call.\<close>

record Position =
  po_file :: "(nat \<times> nat) option"
  po_ino :: nat
  po_partial :: "u8 list"

definition drain :: "(u8 list \<Rightarrow> 'e option) \<Rightarrow> ('e \<Rightarrow> bool) \<Rightarrow> LogFs \<Rightarrow> Position \<Rightarrow> 'e list \<times> Position" where
  "drain decode pass fs pos =
     (case po_file pos of
        None \<Rightarrow> ([], pos)
      | Some (ino, at) \<Rightarrow>
          let content = fs_data fs ino;
              (at, partial) = (if length content < at then (0, []) else (at, po_partial pos))
          in case parse_lines decode (partial @ drop at content) of
               (entries, rest) \<Rightarrow> (filter pass entries, pos\<lparr>po_file := Some (ino, length content), po_partial := rest\<rparr>))"

text \<open>\<open>names n\<close> are the names when number \<open>n\<close> is opened.\<close>

fun open_loop :: "(nat \<Rightarrow> nat \<rightharpoonup> nat) \<Rightarrow> nat option \<Rightarrow> nat list \<Rightarrow> nat list \<Rightarrow> nat list" where
  "open_loop names stop out [] = out"
| "open_loop names stop out (n # ns) =
     (case names n n of
        None \<Rightarrow> open_loop names stop out ns
      | Some ino \<Rightarrow>
          if Some ino = stop then out
          else open_loop names stop (if ino \<in> set out then out else out @ [ino]) ns)"

text \<open>\<open>highest_number\<close>, with a bound on the numbers a directory can have.\<close>

definition highest_number :: "(nat \<rightharpoonup> nat) \<Rightarrow> nat \<Rightarrow> nat" where
  "highest_number names bound = (case filter (\<lambda>n. names n \<noteq> None) (rev [1..<bound + 1]) of [] \<Rightarrow> 0 | n # _ \<Rightarrow> n)"

text \<open>The walk: the call \<open>i\<close> lists the directory, and the ones after it open the numbers. The second result is the number of the call
  that comes next.\<close>

definition open_newest_first :: "nat \<Rightarrow> (nat \<Rightarrow> LogFs) \<Rightarrow> nat \<Rightarrow> nat option \<Rightarrow> nat list \<times> nat" where
  "open_newest_first bound look i stop =
     (let last_number = highest_number (fs_names (look i)) bound + 2
      in (open_loop (\<lambda>n. fs_names (look (i + 1 + n))) stop [] [0..<last_number + 1], i + 1 + last_number + 1))"

fun drain_all :: "(u8 list \<Rightarrow> 'e option) \<Rightarrow> ('e \<Rightarrow> bool) \<Rightarrow> (nat \<Rightarrow> LogFs) \<Rightarrow> nat \<Rightarrow> nat list \<Rightarrow> Position \<Rightarrow> 'e list \<times> Position" where
  "drain_all decode pass look i [] pos = ([], pos)"
| "drain_all decode pass look i (ino # inos) pos =
     (case drain decode pass (look i) \<lparr>po_file = Some (ino, 0), po_ino = ino, po_partial = []\<rparr> of
        (out, pos) \<Rightarrow> (case drain_all decode pass look (i + 1) inos pos of (out', pos) \<Rightarrow> (out @ out', pos)))"

definition after_rotation :: "(u8 list \<Rightarrow> 'e option) \<Rightarrow> ('e \<Rightarrow> bool) \<Rightarrow> nat \<Rightarrow> (nat \<Rightarrow> LogFs) \<Rightarrow> Position \<Rightarrow> 'e list \<times> Position" where
  "after_rotation decode pass bound look pos =
     (case fs_names (look 1) 0 of
        None \<Rightarrow> ([], pos)
      | Some current \<Rightarrow>
          if po_file pos \<noteq> None \<and> current = po_ino pos then ([], pos)
          else case drain decode pass (look 2) pos of
                 (rest, pos) \<Rightarrow>
                   (case open_newest_first bound look 3 (if po_file pos \<noteq> None then Some (po_ino pos) else None) of
                      (newer, i) \<Rightarrow>
                        (case drain_all decode pass look i (rev newer) pos of (out, pos) \<Rightarrow> (rest @ out, pos))))"

definition read_new :: "(u8 list \<Rightarrow> 'e option) \<Rightarrow> ('e \<Rightarrow> bool) \<Rightarrow> nat \<Rightarrow> (nat \<Rightarrow> LogFs) \<Rightarrow> Position \<Rightarrow> 'e list \<times> Position" where
  "read_new decode pass bound look pos =
     (case drain decode pass (look 0) pos of
        (first, pos) \<Rightarrow> (case after_rotation decode pass bound look pos of (rest, pos) \<Rightarrow> (first @ rest, pos)))"

text \<open>The deque of the last entries.\<close>

definition keep_entry :: "nat option \<Rightarrow> 'e list \<Rightarrow> 'e \<Rightarrow> 'e list" where
  "keep_entry tail out e =
     (if tail = Some 0 then out
      else let out = out @ [e]
           in case tail of Some n \<Rightarrow> if length out > n then tl out else out | None \<Rightarrow> out)"

fun existing_loop :: "(u8 list \<Rightarrow> 'e option) \<Rightarrow> ('e \<Rightarrow> bool) \<Rightarrow> nat option \<Rightarrow> (nat \<Rightarrow> LogFs) \<Rightarrow> nat \<Rightarrow> 'e list \<Rightarrow> Position \<Rightarrow> nat list \<Rightarrow> 'e list \<times> Position" where
  "existing_loop decode pass tail look i out pos [] = (out, pos)"
| "existing_loop decode pass tail look i out pos (ino # inos) =
     (let content = fs_data (look i) ino
      in case parse_lines decode content of
           (entries, rest) \<Rightarrow>
             existing_loop decode pass tail look (i + 1) (foldl (keep_entry tail) out (filter pass entries))
               \<lparr>po_file = Some (ino, length content), po_ino = ino, po_partial = rest\<rparr> inos)"

definition existing :: "(u8 list \<Rightarrow> 'e option) \<Rightarrow> ('e \<Rightarrow> bool) \<Rightarrow> nat option \<Rightarrow> nat \<Rightarrow> (nat \<Rightarrow> LogFs) \<Rightarrow> 'e list \<times> Position" where
  "existing decode pass tail bound look =
     (case open_newest_first bound look 0 None of
        (files, i) \<Rightarrow> existing_loop decode pass tail look i [] \<lparr>po_file = None, po_ino = 0, po_partial = []\<rparr> (rev files))"

text \<open>\<open>follow\<close>: what it sends, for each look, with whether the container ran before it.\<close>

fun follow :: "(u8 list \<Rightarrow> 'e option) \<Rightarrow> ('e \<Rightarrow> bool) \<Rightarrow> nat \<Rightarrow> Position \<Rightarrow> (bool \<times> (nat \<Rightarrow> LogFs)) list \<Rightarrow> 'e list" where
  "follow decode pass bound pos [] = []"
| "follow decode pass bound pos ((running, look) # looks) =
     (case read_new decode pass bound look pos of
        (out, pos) \<Rightarrow> out @ (if \<not> running then [] else follow decode pass bound pos looks))"

text \<open>The handler of a request for logs, for a container that exists and a client that reads to the end.\<close>

definition container_logs ::
  "(string \<Rightarrow> int option) \<Rightarrow> (int \<Rightarrow> nat \<Rightarrow> int option) \<Rightarrow> (u8 list \<Rightarrow> LogEntry option) \<Rightarrow> nat \<Rightarrow> LogsQuery \<Rightarrow> (nat \<Rightarrow> LogFs) \<Rightarrow>
   (bool \<times> (nat \<Rightarrow> LogFs)) list \<Rightarrow> TimeError + LogEntry list" where
  "container_logs rfc3339 from_timestamp decode bound q look looks =
     bind_result (LogFilter_new (parse_time rfc3339 from_timestamp) q) (\<lambda>filt.
       case existing decode (passes rfc3339 filt) (lq_tail q) bound look of
         (entries, pos) \<Rightarrow>
           Inr (entries @ (if lq_follow q then follow decode (passes rfc3339 filt) bound pos looks else [])))"

end
