(* ===== verification/LogSteps.thy ===== *)
theory LogSteps
  imports LogReader LogsCorrect "HOL-Library.Sublist"
begin

text \<open>
  The shim one system call at a time, and the walk over the names of its files. In every state of a rotation the names are known
  (\<open>names_at\<close>), and a step loses no text (\<open>follows\<close>); the steps of a write make up \<open>fs_write\<close>. The walk
  (\<open>open_newest_first\<close>) finds the newest files, newest first and each once, though a rotation goes on while it opens them.
\<close>

section \<open>Lines\<close>

lemma position_appendI: "position P xs = Some i \<Longrightarrow> position P (xs @ ys) = Some i"
  by (induction xs arbitrary: i) (auto split: if_splits)

lemma parse_lines_append:
  "parse_lines decode (xs @ ys) =
     (let (es, rest) = parse_lines decode xs; (fs, rest) = parse_lines decode (rest @ ys) in (es @ fs, rest))"
proof (induction decode xs rule: parse_lines.induct)
  case (1 decode xs)
  show ?case
  proof (cases "position (\<lambda>b. b = newline) xs")
    case None
    then show ?thesis by (subst parse_lines.simps[of decode xs]) (simp split: prod.splits)
  next
    case (Some i)
    note at = position_appendI[OF Some, of ys] Some
    have "i < length xs" using position_Some[OF Some] by simp
    then have step: "parse_lines decode (xs @ ys) =
        (case parse_lines decode (drop (i + 1) xs @ ys) of (es, rest) \<Rightarrow>
           (case decode (take i xs) of Some e \<Rightarrow> (e # es, rest) | None \<Rightarrow> (es, rest)))"
      by (subst parse_lines.simps) (simp add: at(1))
    have "parse_lines decode xs =
        (case parse_lines decode (drop (i + 1) xs) of (es, rest) \<Rightarrow>
           (case decode (take i xs) of Some e \<Rightarrow> (e # es, rest) | None \<Rightarrow> (es, rest)))"
      by (subst parse_lines.simps) (simp add: at(2))
    with step "1"[OF Some] show ?thesis
      by (cases "parse_lines decode (drop (i + 1) xs)") (simp split: prod.splits option.splits)
  qed
qed

lemma parse_lines_Nil [simp]: "parse_lines decode [] = ([], [])"
  by (simp add: parse_lines.simps)

lemma parse_lines_line:
  "newline \<notin> set xs \<Longrightarrow> parse_lines decode (xs @ [newline]) = (case decode xs of None \<Rightarrow> [] | Some e \<Rightarrow> [e], [])"
proof -
  assume "newline \<notin> set xs"
  then have "position (\<lambda>b. b = newline) (xs @ [newline]) = Some (length xs)"
    using position_append[of xs "\<lambda>b. b = newline" "[newline]"] by auto
  then show ?thesis by (subst parse_lines.simps) (simp split: option.splits)
qed

text \<open>A line as the shim writes it, and text that ends with one.\<close>

definition is_line :: "u8 list \<Rightarrow> bool" where
  "is_line l \<longleftrightarrow> l \<noteq> [] \<and> last l = newline \<and> newline \<notin> set (butlast l)"

definition whole :: "u8 list \<Rightarrow> bool" where
  "whole bytes \<longleftrightarrow> bytes = [] \<or> last bytes = newline"

lemma whole_append: "whole xs \<Longrightarrow> is_line l \<Longrightarrow> whole (xs @ l)"
  by (simp add: whole_def is_line_def)

lemma parse_rest: "newline \<notin> set (snd (parse_lines decode xs))"
proof (induction decode xs rule: parse_lines.induct)
  case (1 decode xs)
  show ?case
  proof (cases "position (\<lambda>b. b = newline) xs")
    case None
    then have "newline \<notin> set xs" by (auto simp: position_None)
    with None show ?thesis by (subst parse_lines.simps) simp
  next
    case (Some i)
    with "1"[OF Some] show ?thesis
      by (subst parse_lines.simps) (cases "parse_lines decode (drop (i + 1) xs)", simp split: option.splits)
  qed
qed

lemma parse_whole: "whole xs \<Longrightarrow> snd (parse_lines decode xs) = []"
proof (cases xs rule: rev_cases)
  case (snoc ys y)
  assume "whole xs"
  then have "xs = ys @ [newline]" using snoc by (simp add: whole_def)
  then show ?thesis
    using parse_lines_line[OF parse_rest, of decode decode ys] parse_lines_append[of decode ys "[newline]"]
    by (simp split: prod.splits)
qed simp

definition entries :: "(u8 list \<Rightarrow> 'e option) \<Rightarrow> u8 list \<Rightarrow> 'e list" where
  "entries decode bytes = fst (parse_lines decode bytes)"

lemma entries_append: "entries decode (xs @ ys) = entries decode xs @ entries decode (snd (parse_lines decode xs) @ ys)"
  unfolding entries_def by (subst parse_lines_append) (simp split: prod.splits)

lemma rest_append: "snd (parse_lines decode (xs @ ys)) = snd (parse_lines decode (snd (parse_lines decode xs) @ ys))"
  by (subst parse_lines_append) (simp split: prod.splits)

lemma entries_whole: "whole xs \<Longrightarrow> entries decode (xs @ ys) = entries decode xs @ entries decode ys"
  by (subst entries_append) (simp add: parse_whole)

lemma entries_lines: "list_all is_line ls \<Longrightarrow> entries decode (concat ls) = List.map_filter decode (map butlast ls)"
proof (induction ls)
  case Nil
  then show ?case by (simp add: entries_def List.map_filter_def)
next
  case (Cons l ls)
  then have l: "l = butlast l @ [newline]" "newline \<notin> set (butlast l)" "whole l"
    by (auto simp: is_line_def whole_def) (metis append_butlast_last_id)
  have "entries decode l = (case decode (butlast l) of None \<Rightarrow> [] | Some e \<Rightarrow> [e])"
    unfolding entries_def using parse_lines_line[OF l(2), of decode] l(1) by simp
  then show ?case using Cons l(3)
    by (simp add: entries_whole List.map_filter_def split: option.splits)
qed

lemma entries_whole_concat:
  "list_all whole xss \<Longrightarrow> entries decode (concat xss @ ys) = concat (map (entries decode) xss) @ entries decode ys"
  by (induction xss) (simp_all add: entries_whole)

section \<open>The shim\<close>

text \<open>Inodes number the files as they are created, so a file's number says how many are newer. \<open>idx\<close> is the file with so many
  newer ones, of \<open>N\<close> files.\<close>

definition idx :: "nat \<Rightarrow> nat \<Rightarrow> nat option" where
  "idx N j = (if j < N then Some (N - 1 - j) else None)"

text \<open>The names while a rotation of \<open>max\<close> files goes on: those from \<open>m\<close> on are already one up.\<close>

definition names_at :: "nat \<Rightarrow> nat \<Rightarrow> nat \<Rightarrow> nat \<rightharpoonup> nat" where
  "names_at N max_files m k =
     (if max_files \<le> k \<or> k = m then None else if k < m then idx N k else idx N (k - 1))"

abbreviation max_of :: "Shim \<Rightarrow> nat" where
  "max_of s \<equiv> lw_max_files (sw_log (sh_writer s))"

abbreviation N_of :: "Shim \<Rightarrow> nat" where
  "N_of s \<equiv> fs_next (sh_fs s)"

abbreviation data_of :: "Shim \<Rightarrow> nat \<Rightarrow> u8 list" where
  "data_of s \<equiv> fs_data (sh_fs s)"

definition moved :: "Shim \<Rightarrow> nat" where
  "moved s = (case sh_at s of Shifting k _ \<Rightarrow> if k = max_of s - 2 then max_of s else k + 1 | Creating _ \<Rightarrow> 0 | _ \<Rightarrow> max_of s)"

definition rotating :: "Shim \<Rightarrow> bool" where
  "rotating s = (case sh_at s of Shifting _ _ \<Rightarrow> True | Creating _ \<Rightarrow> True | _ \<Rightarrow> False)"

text \<open>What is left of the line that is being written, and the whole text: of every file there was, oldest first.\<close>

definition unwritten :: "Shim \<Rightarrow> u8 list" where
  "unwritten s = (case sh_at s of Idle \<Rightarrow> [] | Shifting _ l \<Rightarrow> l | Creating l \<Rightarrow> l | Putting l _ \<Rightarrow> l)"

definition all_text :: "Shim \<Rightarrow> u8 list" where
  "all_text s = concat (map (data_of s) [0..<N_of s])"

definition shim_ok :: "Shim \<Rightarrow> bool" where
  "shim_ok s \<longleftrightarrow> 2 \<le> max_of s \<and> 1 \<le> N_of s \<and> sw_file (sh_writer s) = N_of s - 1 \<and>
     fs_names (sh_fs s) = names_at (N_of s) (max_of s) (moved s) \<and>
     (\<forall>i < N_of s - 1. whole (data_of s i)) \<and>
     (case sh_at s of
        Putting l _ \<Rightarrow> l \<noteq> [] \<and> last l = newline
      | Shifting k l \<Rightarrow> k \<le> max_of s - 2 \<and> l \<noteq> [] \<and> last l = newline \<and> whole (data_of s (N_of s - 1))
      | Creating l \<Rightarrow> l \<noteq> [] \<and> last l = newline \<and> whole (data_of s (N_of s - 1))
      | Idle \<Rightarrow> whole (data_of s (N_of s - 1))) \<and>
     (\<forall>l\<in>set (sh_lines s). l \<noteq> [] \<and> last l = newline)"

lemma moved_le: "shim_ok s \<Longrightarrow> moved s \<le> max_of s \<and> moved s \<noteq> max_of s - 1"
  by (auto simp: shim_ok_def moved_def split: WriterAt.splits)

lemma names_full: "names_at N mx mx k = (if k < mx then idx N k else None)"
  by (simp add: names_at_def)

text \<open>A step keeps all this, gives nothing up, and changes only the newest file.\<close>

definition follows :: "Shim \<Rightarrow> Shim \<Rightarrow> bool" where
  "follows s t \<longleftrightarrow> max_of t = max_of s \<and> N_of s \<le> N_of t \<and> (N_of t = N_of s \<longrightarrow> moved t \<le> moved s) \<and>
     (\<forall>i < N_of s - 1. data_of t i = data_of s i) \<and> prefix (data_of s (N_of s - 1)) (data_of t (N_of s - 1)) \<and>
     all_text t @ unwritten t @ concat (sh_lines t) = all_text s @ unwritten s @ concat (sh_lines s)"

lemma step_begin:
  assumes "shim_ok s" "sh_at s = Idle"
  shows "shim_ok (shim_begin s) \<and> follows s (shim_begin s)"
proof (cases "sh_lines s")
  case Nil
  then show ?thesis using assms by (simp add: shim_begin_def follows_def)
next
  case (Cons l ls)
  have keep: "2 \<le> max_of s" using assms(1) by (simp add: shim_ok_def)
  show ?thesis
  proof (cases "fs_needs_rotation (sh_writer s) l")
    case True
    then have "shim_begin s = s\<lparr>sh_lines := ls, sh_at := Shifting (max_of s - 2) l\<rparr>"
      using Cons keep by (simp add: shim_begin_def Let_def numeral_2_eq_2)
    then show ?thesis using assms Cons by (auto simp: shim_ok_def follows_def moved_def unwritten_def all_text_def)
  next
    case False
    then have "shim_begin s = s\<lparr>sh_lines := ls, sh_at := Putting l (length l)\<rparr>"
      using Cons by (simp add: shim_begin_def Let_def)
    then show ?thesis using assms Cons by (auto simp: shim_ok_def follows_def moved_def unwritten_def all_text_def)
  qed
qed

lemma names_shift:
  assumes "k + 2 \<le> mx" "k + 1 \<le> mx - 2" and "m = (if k + 1 = mx - 2 then mx else k + 2)"
  shows "(names_at N mx m)(Suc k := None, Suc (Suc k) := names_at N mx m (Suc k)) = names_at N mx (Suc k)"
proof
  fix j
  consider "j < Suc k" | "j = Suc k" | "j = Suc (Suc k)" | "Suc (Suc k) < j" by linarith
  then show "((names_at N mx m)(Suc k := None, Suc (Suc k) := names_at N mx m (Suc k))) j = names_at N mx (Suc k) j"
  proof cases
    case 3
    have "k + 3 \<le> mx" using assms(2) by simp
    then show ?thesis using 3 assms(3) by (simp add: names_at_def)
  next
    case 4
    have "k + 3 \<le> mx" using assms(2) by simp
    then have "m = (if mx = k + 3 then mx else k + 2)" using assms(3) by auto
    then show ?thesis using 4 \<open>k + 3 \<le> mx\<close> by (cases "mx = k + 3") (simp_all add: names_at_def)
  qed (use assms in \<open>simp_all add: names_at_def split: if_splits\<close>)
qed

lemma step_shift:
  assumes "shim_ok s" "sh_at s = Shifting (Suc k) l"
  shows "shim_ok (shim_step n s) \<and> follows s (shim_step n s)"
proof -
  have k: "k + 2 \<le> max_of s" "k + 1 \<le> max_of s - 2" using assms by (auto simp: shim_ok_def)
  let ?m = "if k + 1 = max_of s - 2 then max_of s else k + 2"
  have moved: "moved s = ?m" using assms(2) by (simp add: moved_def)
  define fs where "fs = (case fs_rename (Suc k) (Suc k + 1) (sh_fs s) of None \<Rightarrow> sh_fs s | Some fs \<Rightarrow> fs)"
  have old: "fs_names (sh_fs s) = names_at (N_of s) (max_of s) ?m" using assms(1) moved by (simp add: shim_ok_def)
  have "fs_names (sh_fs s) (Suc (Suc k)) = None" if "fs_names (sh_fs s) (Suc k) = None"
  proof (cases "k + 1 = max_of s - 2")
    case True
    then show ?thesis using that k unfolding old by (simp add: names_at_def idx_def split: if_splits)
  next
    case False
    then show ?thesis unfolding old by (simp add: names_at_def)
  qed
  then have "fs_names fs = (fs_names (sh_fs s))(Suc k := None, Suc (Suc k) := fs_names (sh_fs s) (Suc k))"
    by (auto simp: fs_def fs_rename_def split: option.split)
  then have names: "fs_names fs = names_at (N_of s) (max_of s) (Suc k)"
    unfolding old using names_shift[OF k refl, of "N_of s"] by simp
  have data: "fs_data fs = data_of s" "fs_next fs = N_of s" by (auto simp: fs_def fs_rename_def split: option.split)
  have step: "shim_step n s = s\<lparr>sh_fs := fs, sh_at := Shifting k l\<rparr>" using assms(2) by (simp add: shim_step_def fs_def)
  have "moved (shim_step n s) = Suc k" using k by (simp add: step moved_def)
  then show ?thesis using assms names data moved by (auto simp: step shim_ok_def follows_def unwritten_def all_text_def)
qed

lemma step_rename:
  assumes "shim_ok s" "sh_at s = Shifting 0 l"
  shows "shim_ok (shim_step n s) \<and> follows s (shim_step n s)"
proof -
  let ?m = "if max_of s = 2 then 2 else 1"
  have mx: "2 \<le> max_of s" "1 \<le> N_of s" using assms(1) by (auto simp: shim_ok_def)
  have moved: "moved s = ?m" using assms(2) mx by (auto simp: moved_def)
  have old: "fs_names (sh_fs s) = names_at (N_of s) (max_of s) ?m" using assms(1) moved by (simp add: shim_ok_def)
  have first: "fs_names (sh_fs s) 0 = Some (N_of s - 1)" unfolding old using mx by (auto simp: names_at_def idx_def)
  define fs where "fs = (sh_fs s)\<lparr>fs_names := (fs_names (sh_fs s))(0 := None, 1 \<mapsto> N_of s - 1)\<rparr>"
  have step: "shim_step n s = s\<lparr>sh_fs := fs, sh_at := Creating l\<rparr>"
    using assms(2) first by (simp add: shim_step_def fs_def fs_rename_def)
  have "fs_names fs = names_at (N_of s) (max_of s) 0"
    unfolding fs_def old using mx by (auto simp: names_at_def idx_def fun_eq_iff)
  then show ?thesis using assms mx by (auto simp: step fs_def shim_ok_def follows_def moved_def unwritten_def all_text_def)
qed

lemma step_create:
  assumes "shim_ok s" "sh_at s = Creating l"
  shows "shim_ok (shim_step n s) \<and> follows s (shim_step n s)"
proof -
  have mx: "2 \<le> max_of s" "1 \<le> N_of s" using assms(1) by (auto simp: shim_ok_def)
  have old: "fs_names (sh_fs s) = names_at (N_of s) (max_of s) 0" using assms by (simp add: shim_ok_def moved_def)
  define fs where "fs = (sh_fs s)\<lparr>fs_names := (fs_names (sh_fs s))(0 \<mapsto> N_of s), fs_data := (data_of s)(N_of s := []), fs_next := N_of s + 1\<rparr>"
  have step: "shim_step n s = s\<lparr>sh_fs := fs, sh_writer := \<lparr>sw_file = N_of s, sw_log = (sw_log (sh_writer s))\<lparr>lw_size := 0\<rparr>\<rparr>,
      sh_at := Putting l (length l)\<rparr>"
    using assms(2) old by (simp add: shim_step_def fs_def fs_open_append_def names_at_def)
  have names: "fs_names fs = names_at (Suc (N_of s)) (max_of s) (max_of s)"
    unfolding fs_def old using mx by (auto simp: names_at_def idx_def fun_eq_iff)
  have "all_text (shim_step n s) = all_text s"
    unfolding all_text_def by (simp add: step fs_def fun_upd_def) (rule arg_cong[of _ _ concat], simp)
  moreover have "whole (data_of s i)" if "i < N_of s" for i
    using assms that by (cases "i = N_of s - 1") (auto simp: shim_ok_def)
  ultimately show ?thesis using assms mx names
    by (auto simp: step fs_def shim_ok_def follows_def moved_def unwritten_def)
qed

lemma step_put:
  assumes "shim_ok s" "sh_at s = Putting l len"
  shows "shim_ok (shim_step n s) \<and> follows s (shim_step n s)"
proof -
  have s: "2 \<le> max_of s" "1 \<le> N_of s" "sw_file (sh_writer s) = N_of s - 1" "l \<noteq> []" "last l = newline"
    using assms by (auto simp: shim_ok_def)
  define k where "k = max 1 n"
  define fs where "fs = fs_append (N_of s - 1) (take k l) (sh_fs s)"
  have fs: "fs_names fs = fs_names (sh_fs s)" "fs_next fs = N_of s" "fs_data fs = (data_of s)(N_of s - 1 := data_of s (N_of s - 1) @ take k l)"
    by (simp_all add: fs_def fs_append_def)
  have at: "sh_fs (shim_step n s) = fs" "sh_lines (shim_step n s) = sh_lines s" "max_of (shim_step n s) = max_of s"
      "sw_file (sh_writer (shim_step n s)) = N_of s - 1"
      "sh_at (shim_step n s) = (if drop k l = [] then Idle else Putting (drop k l) len)"
    using assms(2) s(3) by (simp_all add: shim_step_def Let_def fs_def k_def)
  have moved: "moved (shim_step n s) = moved s" using at assms(2) by (simp add: moved_def)
  have files: "[0..<N_of s] = [0..<N_of s - 1] @ [N_of s - 1]" using s(2) by (cases "N_of s") auto
  have "all_text (shim_step n s) = all_text s @ take k l"
    unfolding all_text_def at fs files by (simp add: fun_upd_def) (rule arg_cong[of _ _ concat], simp)
  moreover have "unwritten (shim_step n s) = drop k l" "unwritten s = l" using at assms(2) by (simp_all add: unwritten_def)
  moreover have "whole (data_of s (N_of s - 1) @ take k l)" if "drop k l = []"
    using that s(4,5) by (simp add: whole_def)
  moreover have "last (drop k l) = newline" if "drop k l \<noteq> []" using that s(5) by (simp add: last_drop)
  ultimately show ?thesis
    using assms moved at fs s by (auto simp: shim_ok_def follows_def)
qed

lemma shim_step_ok: "shim_ok s \<Longrightarrow> shim_ok (shim_step n s) \<and> follows s (shim_step n s)"
proof (cases "sh_at s")
  case Idle
  then have "shim_step n s = shim_begin s" by (simp add: shim_step_def)
  then show "shim_ok s \<Longrightarrow> ?thesis" using step_begin[OF _ Idle] by simp
next
  case (Shifting k l)
  then show "shim_ok s \<Longrightarrow> ?thesis" using step_shift[of s] step_rename[of s] by (cases k) auto
next
  case (Creating l)
  then show "shim_ok s \<Longrightarrow> ?thesis" using step_create by blast
next
  case (Putting l len)
  then show "shim_ok s \<Longrightarrow> ?thesis" using step_put by blast
qed

lemma follows_refl [simp]: "follows s s"
  by (simp add: follows_def)

lemma follows_trans:
  assumes "follows s t" "follows t u" "1 \<le> N_of s"
  shows "follows s u"
proof -
  have N: "N_of s \<le> N_of t" "N_of t \<le> N_of u" using assms by (auto simp: follows_def)
  have "prefix (data_of s (N_of s - 1)) (data_of u (N_of s - 1))"
  proof (cases "N_of t = N_of s")
    case True
    then have "prefix (data_of t (N_of s - 1)) (data_of u (N_of s - 1))" using assms(2) by (simp add: follows_def)
    moreover have "prefix (data_of s (N_of s - 1)) (data_of t (N_of s - 1))" using assms(1) by (simp add: follows_def)
    ultimately show ?thesis by simp
  next
    case False
    then have "data_of u (N_of s - 1) = data_of t (N_of s - 1)"
      using assms(2,3) N by (simp add: follows_def)
    then show ?thesis using assms(1) by (simp add: follows_def)
  qed
  moreover have "data_of u i = data_of s i" if "i < N_of s - 1" for i
    using assms N that by (simp add: follows_def)
  moreover have "moved u \<le> moved s" if "N_of u = N_of s"
  proof -
    have "N_of t = N_of s" "N_of u = N_of t" using N that by simp_all
    then show ?thesis using assms by (simp add: follows_def)
  qed
  ultimately show ?thesis using assms N by (simp add: follows_def)
qed

lemma shim_run_ok: "shim_ok s \<Longrightarrow> shim_ok (shim_run ns s) \<and> follows s (shim_run ns s)"
proof (induction ns arbitrary: s)
  case Nil
  then show ?case by (simp add: shim_run_def)
next
  case (Cons n ns)
  have "shim_run (n # ns) s = shim_run ns (shim_step n s)" by (simp add: shim_run_def)
  moreover have "1 \<le> N_of s" using Cons.prems by (simp add: shim_ok_def)
  ultimately show ?case
    using Cons.IH[of "shim_step n s"] shim_step_ok[OF Cons.prems, of n] follows_trans by metis
qed

lemma shim_run_append: "shim_run (ms @ ns) s = shim_run ns (shim_run ms s)"
  by (simp add: shim_run_def)

text \<open>The states that the calls of a look find: before each the shim takes some steps, and after the last of the list it waits.\<close>

definition at_call :: "Shim \<Rightarrow> nat list list \<Rightarrow> nat \<Rightarrow> Shim" where
  "at_call s nss k = shim_run (concat (take (Suc k) nss)) s"

definition in_order :: "Shim \<Rightarrow> (nat \<Rightarrow> Shim) \<Rightarrow> Shim \<Rightarrow> bool" where
  "in_order s st t \<longleftrightarrow> shim_ok s \<and> shim_ok t \<and> follows s t \<and> (\<forall>k. shim_ok (st k) \<and> follows s (st k) \<and> follows (st k) t \<and>
     (\<forall>k'. k \<le> k' \<longrightarrow> follows (st k) (st k')))"

lemma take_le_split: "k \<le> k' \<Longrightarrow> take k' xs = take k xs @ take (k' - k) (drop k xs)"
  by (metis le_add_diff_inverse take_add)

lemma at_call_in_order: "shim_ok s \<Longrightarrow> in_order s (at_call s nss) (shim_run (concat nss) s)"
proof -
  assume ok: "shim_ok s"
  have run: "shim_ok (at_call s nss k)" "follows s (at_call s nss k)" for k
    using shim_run_ok[OF ok] by (simp_all add: at_call_def)
  have "follows (at_call s nss k) (shim_run (concat nss) s)" for k
  proof -
    have "shim_run (concat nss) s = shim_run (concat (drop (Suc k) nss)) (at_call s nss k)"
      unfolding at_call_def by (simp flip: shim_run_append concat_append)
    then show ?thesis using shim_run_ok[OF run(1)] by simp
  qed
  moreover have "follows (at_call s nss k) (at_call s nss k')" if "k \<le> k'" for k k'
  proof -
    have "at_call s nss k' = shim_run (concat (take (Suc k' - Suc k) (drop (Suc k) nss))) (at_call s nss k)"
      unfolding at_call_def using take_le_split[of "Suc k" "Suc k'" nss] that by (simp flip: shim_run_append concat_append)
    then show ?thesis using shim_run_ok[OF run(1)] by simp
  qed
  ultimately show ?thesis using ok run shim_run_ok[OF ok] by (simp add: in_order_def)
qed

lemma shim_run_Cons: "shim_run (n # ns) s = shim_run ns (shim_step n s)"
  by (simp add: shim_run_def)

lemma shim_shifts: "sh_at s = Shifting k l \<Longrightarrow> shim_run (replicate k 0) s = s\<lparr>sh_fs := fs_shift k (sh_fs s), sh_at := Shifting 0 l\<rparr>"
proof (induction k arbitrary: s)
  case 0
  then show ?case by (simp add: shim_run_def)
next
  case (Suc k)
  let ?fs = "case fs_rename (Suc k) (Suc k + 1) (sh_fs s) of None \<Rightarrow> sh_fs s | Some fs \<Rightarrow> fs"
  have "shim_step 0 s = s\<lparr>sh_fs := ?fs, sh_at := Shifting k l\<rparr>" using Suc.prems by (simp add: shim_step_def)
  then show ?case using Suc.IH[of "shim_step 0 s"] by (simp add: shim_run_Cons)
qed

text \<open>The system calls of a write make up \<open>fs_write\<close>.\<close>

lemma shim_puts:
  "sh_at s = Putting l len \<Longrightarrow> shim_step (length l) s =
     s\<lparr>sh_fs := fs_append (sw_file (sh_writer s)) l (sh_fs s),
       sh_writer := (sh_writer s)\<lparr>sw_log := (sw_log (sh_writer s))\<lparr>lw_size := lw_size (sw_log (sh_writer s)) + len\<rparr>\<rparr>, sh_at := Idle\<rparr>"
  by (simp add: shim_step_def Let_def max_def not_le)

lemma shim_writes:
  assumes "sh_at s = Idle" "sh_lines s = l # ls" "fs_write (sh_fs s, sh_writer s) l = Some (fs, w)"
  shows "\<exists>ns. shim_run ns s = s\<lparr>sh_fs := fs, sh_writer := w, sh_lines := ls\<rparr>"
proof -
  let ?w = "sh_writer s"
  let ?keep = "lw_max_files (sw_log ?w) - 1"
  have one: "shim_step 0 s = shim_begin s" using assms(1) by (simp add: shim_step_def)
  obtain gs v where prepared: "fs_prepare (sh_fs s, ?w) l = Some (gs, v)" "fs = fs_append (sw_file v) l gs"
      "w = v\<lparr>sw_log := (sw_log v)\<lparr>lw_size := lw_size (sw_log v) + length l\<rparr>\<rparr>"
    using assms(3) by (auto simp: fs_write_def split: option.splits)
  have "\<exists>ns. shim_run ns s = s\<lparr>sh_fs := gs, sh_writer := v, sh_at := Putting l (length l), sh_lines := ls\<rparr>"
  proof (cases "fs_needs_rotation ?w l \<and> ?keep \<noteq> 0")
    case False
    then have "shim_step 0 s = s\<lparr>sh_fs := gs, sh_writer := v, sh_at := Putting l (length l), sh_lines := ls\<rparr>"
      using prepared(1) assms(2) unfolding one
      by (cases "fs_needs_rotation ?w l") (auto simp: shim_begin_def Let_def fs_prepare_def fs_rotate_def)
    then show ?thesis by (intro exI[of _ "[0]"]) (simp add: shim_run_def)
  next
    case True
    then have start: "shim_step 0 s = s\<lparr>sh_at := Shifting (?keep - 1) l, sh_lines := ls\<rparr>"
      using assms(2) unfolding one by (simp add: shim_begin_def Let_def)
    obtain hs where hs: "fs_rename 0 1 (fs_shift (?keep - 1) (sh_fs s)) = Some hs" "gs = fst (fs_open_append hs)"
        "v = \<lparr>sw_file = snd (fs_open_append hs), sw_log = (sw_log ?w)\<lparr>lw_size := 0\<rparr>\<rparr>"
      using prepared(1) True by (auto simp: fs_prepare_def fs_rotate_def Let_def split: option.splits prod.splits)
    have "shim_run (0 # replicate (?keep - 1) 0) s = s\<lparr>sh_fs := fs_shift (?keep - 1) (sh_fs s), sh_at := Shifting 0 l, sh_lines := ls\<rparr>"
      using shim_shifts[of "shim_step 0 s" "?keep - 1" l] start by (simp add: shim_run_Cons)
    then have "shim_run ((0 # replicate (?keep - 1) 0) @ [0, 0]) s =
        s\<lparr>sh_fs := gs, sh_writer := v, sh_at := Putting l (length l), sh_lines := ls\<rparr>"
      unfolding shim_run_append using hs by (simp add: shim_run_def shim_step_def split: prod.splits)
    then show ?thesis by blast
  qed
  then obtain ns where "shim_run ns s = s\<lparr>sh_fs := gs, sh_writer := v, sh_at := Putting l (length l), sh_lines := ls\<rparr>" by blast
  then have "shim_run (ns @ [length l]) s = s\<lparr>sh_fs := fs, sh_writer := w, sh_lines := ls\<rparr>"
    unfolding shim_run_append using prepared(2,3) assms(1) by (simp add: shim_run_def shim_puts)
  then show ?thesis by blast
qed

section \<open>The walk over the names\<close>

lemma open_loop_none: "(\<And>n. n \<in> set ns \<Longrightarrow> names n n = None) \<Longrightarrow> open_loop names stop out ns = out"
  by (induction ns) auto

lemma open_loop_known:
  "(\<And>n ino. n \<in> set ns \<Longrightarrow> names n n = Some ino \<Longrightarrow> ino \<in> set out) \<Longrightarrow> open_loop names None out ns = out"
  by (induction ns) (auto split: option.splits)

lemma highest_number_Suc:
  "highest_number names (Suc b) = (if names (Suc b) \<noteq> None then Suc b else highest_number names b)"
  by (simp add: highest_number_def)

lemma highest_number_ge: "1 \<le> n \<Longrightarrow> n \<le> b \<Longrightarrow> names n \<noteq> None \<Longrightarrow> n \<le> highest_number names b"
proof (induction b)
  case (Suc b)
  then show ?case by (cases "n = Suc b") (simp_all add: highest_number_Suc)
qed simp

lemma highest_number_le: "(\<And>n. m < n \<Longrightarrow> names n = None) \<Longrightarrow> highest_number names b \<le> m"
proof (induction b)
  case 0
  then show ?case by (simp add: highest_number_def)
next
  case (Suc b)
  then show ?case by (simp add: highest_number_Suc) (metis linorder_not_le option.distinct(1))
qed

lemma highest_of_shim:
  assumes "shim_ok s" "max_of s \<le> bound"
  shows "min (N_of s) (max_of s) - 1 \<le> highest_number (fs_names (sh_fs s)) bound"
    and "highest_number (fs_names (sh_fs s)) bound \<le> max_of s - 1"
proof -
  have s: "2 \<le> max_of s" "1 \<le> N_of s" and names: "fs_names (sh_fs s) = names_at (N_of s) (max_of s) (moved s)"
    using assms(1) by (auto simp: shim_ok_def)
  show "highest_number (fs_names (sh_fs s)) bound \<le> max_of s - 1"
    using s by (intro highest_number_le) (auto simp: names names_at_def)
  let ?h = "min (N_of s) (max_of s) - 1"
  have h: "?h < max_of s" "?h < N_of s" using s by linarith+
  show "?h \<le> highest_number (fs_names (sh_fs s)) bound"
  proof (cases "?h = 0")
    case False
    consider "?h < moved s" | "moved s < ?h" | "?h = moved s" by linarith
    then show ?thesis
    proof cases
      case 1
      then have "names_at (N_of s) (max_of s) (moved s) ?h \<noteq> None" using h by (simp add: names_at_def idx_def)
      then show ?thesis using highest_number_ge[of ?h bound] names assms(2) False by simp
    next
      case 2
      then have "names_at (N_of s) (max_of s) (moved s) ?h \<noteq> None" using h by (simp add: names_at_def idx_def)
      then show ?thesis using highest_number_ge[of ?h bound] names assms(2) False by simp
    next
      case 3
      then have "?h \<noteq> max_of s - 1" using moved_le[OF assms(1)] by simp
      then have up: "Suc ?h < max_of s" "N_of s - 1 = ?h" by (simp_all add: min_def split: if_splits)
      then have "names_at (N_of s) (max_of s) (moved s) (Suc ?h) \<noteq> None" using s 3 by (simp add: names_at_def idx_def)
      then have "Suc ?h \<le> highest_number (fs_names (sh_fs s)) bound"
        using up(1) assms(2) unfolding names by (intro highest_number_ge) linarith+
      then show ?thesis by simp
    qed
  qed simp
qed

definition newest :: "nat \<Rightarrow> nat \<Rightarrow> nat list" where
  "newest N j = map (\<lambda>i. N - 1 - i) [0..<j]"

lemma newest_all: "i < N \<Longrightarrow> i \<in> set (newest N N)"
  by (auto simp: newest_def image_iff intro!: bexI[of _ "N - 1 - i"])

text \<open>The files found are the newest ones, newest first, each once, however far a rotation gets meanwhile: \<open>\<mu> n\<close> is how far it
  is when number \<open>n\<close> is opened. One open either meets the file the walk ends at, or goes on.\<close>

lemma walk_open:
  assumes names: "names n n = names_at N mx (\<mu> n) n" and n: "n < mx" "j = n \<or> n = Suc j \<and> \<mu> n < n"
    and r: "j \<le> r" "r \<le> N" "\<not> (r = j \<and> r = N)" "stop = (if r < N then Some (N - 1 - r) else None)"
  shows "r = j \<and> open_loop names stop (newest N j) (n # ns) = newest N j \<or>
    (\<exists>j'. open_loop names stop (newest N j) (n # ns) = open_loop names stop (newest N j') ns \<and> j' \<le> r \<and>
      (j' = Suc n \<or> j' = n \<and> \<mu> n \<le> n))"
proof (cases "n = \<mu> n")
  case True
  then show ?thesis using n r(1) by (intro disjI2 exI[of _ j]) (auto simp: names names_at_def)
next
  case False
  define i where "i = (if n < \<mu> n then n else n - 1)"
  have i: "i \<le> j" "j \<le> Suc i" "i < N" using n r False by (auto simp: i_def)
  then have found: "names n n = Some (N - 1 - i)" using n(1) False unfolding i_def by (cases "n < \<mu> n") (simp_all add: names names_at_def idx_def)
  have mem: "N - 1 - i \<in> set (newest N j) \<longleftrightarrow> i < j" using i(1,3) by (auto simp: newest_def)
  have grow: "newest N j @ [N - 1 - j] = newest N (Suc j)" by (simp add: newest_def)
  show ?thesis
  proof (cases "i = r")
    case True
    then have "stop = Some (N - 1 - i)" using r i(3) by simp
    then show ?thesis using True i(1) r(1) by (simp add: found)
  next
    case False
    then have other: "Some (N - 1 - i) \<noteq> stop" "i < r" using r i by (auto split: if_splits)
    show ?thesis
    proof (cases "i < j")
      case True
      then have "open_loop names stop (newest N j) (n # ns) = open_loop names stop (newest N j) ns" using other mem by (simp add: found)
      then show ?thesis using True n r(1) \<open>n \<noteq> \<mu> n\<close> i_def by (intro disjI2 exI[of _ j]) (auto split: if_splits)
    next
      case False
      then have "i = j" using i(1) by simp
      then have "open_loop names stop (newest N j) (n # ns) = open_loop names stop (newest N (Suc j)) ns"
        using other mem grow by (simp add: found)
      then show ?thesis using \<open>i = j\<close> other(2) n \<open>n \<noteq> \<mu> n\<close> i_def by (intro disjI2 exI[of _ "Suc j"]) (auto split: if_splits)
    qed
  qed
qed

lemma walk:
  assumes names: "\<And>n. n < L \<Longrightarrow> names n n = names_at N mx (\<mu> n) n"
    and anti: "\<And>n n'. n \<le> n' \<Longrightarrow> n' < L \<Longrightarrow> \<mu> n' \<le> \<mu> n"
    and r: "r \<le> N" "stop = (if r < N then Some (N - 1 - r) else None)"
  shows "n \<le> L \<Longrightarrow> j \<le> r \<Longrightarrow> n \<le> mx \<Longrightarrow> j = n \<or> n = Suc j \<and> \<mu> j \<le> j \<Longrightarrow>
    \<exists>j'. open_loop names stop (newest N j) [n..<L] = newest N j' \<and>
      j' \<le> r \<and> (r \<le> j' \<or> min L mx - 1 \<le> j' \<and> ((\<forall>n < L. mx \<le> \<mu> n) \<longrightarrow> min L mx \<le> j'))"
proof (induction "L - n" arbitrary: n j)
  case 0
  then have "n = L" by simp
  then show ?case using 0 by (intro exI[of _ j]) auto
next
  case (Suc d)
  then have n: "n < L" by simp
  then have upt: "[n..<L] = n # [Suc n..<L]" by (rule upt_conv_Cons)
  show ?case
  proof (cases "n = mx")
    case True
    then have "open_loop names stop (newest N j) [n..<L] = newest N j"
      by (intro open_loop_none) (simp add: names names_at_def)
    moreover have "\<not> (\<forall>n < L. mx \<le> \<mu> n)" if "n = Suc j" "\<mu> j \<le> j"
      using that True n by (intro notI) (metis Suc_lessD le_trans not_less_eq_eq)
    ultimately show ?thesis using Suc.prems True n by (intro exI[of _ j]) auto
  next
    case False
    show ?thesis
    proof (cases "r = j \<and> r = N")
      case True
      then have "stop = None" using r by simp
      moreover have "ino \<in> set (newest N j)" if "m \<in> set [n..<L]" "names m m = Some ino" for m ino
        using that True newest_all[of ino N] by (auto simp: names names_at_def idx_def split: if_splits)
      ultimately have "open_loop names stop (newest N j) [n..<L] = newest N j" using open_loop_known by metis
      then show ?thesis using True by (intro exI[of _ j]) simp
    next
      case False
      have shape: "j = n \<or> n = Suc j \<and> \<mu> n < n" using Suc.prems(4) anti[of j n] n by auto
      have "n < mx" "d = L - Suc n" using \<open>n \<noteq> mx\<close> Suc.prems(3) Suc.hyps(2) by simp_all
      then show ?thesis
        using walk_open[of names n N mx \<mu> j r stop, OF names[OF n] \<open>n < mx\<close> shape Suc.prems(2) r(1) False r(2), of "[Suc n..<L]"] Suc.hyps(1)[of "Suc n"] n
        unfolding upt by (elim disjE exE conjE) (auto intro: exI[of _ j])
    qed
  qed
qed

text \<open>While a walk that lists the directory with the call \<open>c\<close> goes on, one rotation at most ends, and no other begins; or none.\<close>

definition one_rotation :: "(nat \<Rightarrow> Shim) \<Rightarrow> nat \<Rightarrow> bool" where
  "one_rotation st c \<longleftrightarrow> N_of (st (Suc c)) \<le> Suc (N_of (st c)) \<and>
     (\<forall>n < max_of (st c) + 2. N_of (st (Suc c + n)) = N_of (st (Suc c)) \<or>
        N_of (st (Suc c + n)) = Suc (N_of (st (Suc c))) \<and> \<not> rotating (st (Suc c + n)))"

definition no_rotation :: "(nat \<Rightarrow> Shim) \<Rightarrow> nat \<Rightarrow> bool" where
  "no_rotation st c \<longleftrightarrow>
     (\<forall>n < max_of (st c) + 2. N_of (st (Suc c + n)) = N_of (st (Suc c)) \<and> \<not> rotating (st (Suc c + n)))"

lemma one_rotation_code [code]:
  "one_rotation st c \<longleftrightarrow> N_of (st (Suc c)) \<le> Suc (N_of (st c)) \<and>
     list_all (\<lambda>n. let s = st (Suc c + n) in N_of s = N_of (st (Suc c)) \<or> N_of s = Suc (N_of (st (Suc c))) \<and> \<not> rotating s)
       [0..<max_of (st c) + 2]"
  by (simp only: one_rotation_def list_all_iff Let_def set_upt Ball_def atLeastLessThan_iff le0 simp_thms)

lemma no_rotation_code [code]:
  "no_rotation st c \<longleftrightarrow>
     list_all (\<lambda>n. N_of (st (Suc c + n)) = N_of (st (Suc c)) \<and> \<not> rotating (st (Suc c + n))) [0..<max_of (st c) + 2]"
  by (simp only: no_rotation_def list_all_iff set_upt Ball_def atLeastLessThan_iff le0 simp_thms)

lemma in_orderD:
  assumes "in_order s st t"
  shows "shim_ok (st k)" "max_of (st k) = max_of s" "k \<le> k' \<Longrightarrow> follows (st k) (st k')" "follows s (st k)" "follows (st k) t"
  using assms by (auto simp: in_order_def follows_def)

lemma moved_still: "\<not> rotating s \<Longrightarrow> moved s = max_of s"
  by (simp add: rotating_def moved_def split: WriterAt.splits)

lemma names_created: "0 < n \<Longrightarrow> names_at (Suc N) mx mx n = names_at N mx 0 n"
  by (cases n) (simp_all add: names_at_def idx_def)

lemma walk_finds:
  fixes st N c
  defines "N \<equiv> N_of (st (Suc c))"
  assumes order: "in_order s st t" and bound: "max_of s \<le> bound" and one: "one_rotation st c"
    and r: "r \<le> N" "stop = (if r < N then Some (N - 1 - r) else None)"
  shows "\<exists>j i. open_newest_first bound (\<lambda>k. sh_fs (st k)) c stop = (newest N j, i) \<and> Suc c \<le> i \<and> j \<le> r \<and>
    (r \<le> j \<or> min N (max_of s - 1) \<le> j \<and> (no_rotation st c \<longrightarrow> min N (max_of s) \<le> j))"
proof -
  let ?mx = "max_of s"
  note st = in_orderD[OF order]
  define L where "L = highest_number (fs_names (sh_fs (st c))) bound + 3"
  have ok: "shim_ok (st k)" "max_of (st k) = ?mx" "fs_names (sh_fs (st k)) = names_at (N_of (st k)) ?mx (moved (st k))" for k
    using st(1,2)[of k] by (auto simp: shim_ok_def)
  have mx: "2 \<le> ?mx" "1 \<le> N_of (st c)" using ok(1)[of c] ok(2)[of c] by (auto simp: shim_ok_def)
  have "min (N_of (st c)) ?mx + 2 \<le> L" "L \<le> ?mx + 2"
    using highest_of_shim[of "st c" bound] ok bound mx unfolding L_def by simp_all
  moreover have "N \<le> Suc (N_of (st c))" using one by (simp add: one_rotation_def N_def)
  ultimately have L: "min (Suc N) (Suc ?mx) \<le> L" "L \<le> ?mx + 2" by linarith+
  define \<mu> where "\<mu> n = (if N_of (st (Suc c + n)) = N then moved (st (Suc c + n)) else 0)" for n
  have stage: "N_of (st (Suc c + n)) = N \<or> N_of (st (Suc c + n)) = Suc N \<and> \<not> rotating (st (Suc c + n))" if "n < L" for n
    using one that L unfolding one_rotation_def N_def ok(2) by (meson less_le_trans)
  have names: "fs_names (sh_fs (st (Suc c + n))) n = names_at N ?mx (\<mu> n) n" if n: "n < L" for n
  proof (cases "N_of (st (Suc c + n)) = N")
    case True
    then show ?thesis using ok(3)[of "Suc c + n"] by (simp add: \<mu>_def)
  next
    case False
    then have "N_of (st (Suc c + n)) = Suc N" "moved (st (Suc c + n)) = ?mx"
      using stage[OF n] moved_still ok(2) by auto
    moreover have "0 < n" using False by (cases n) (simp_all add: N_def)
    ultimately show ?thesis using ok(3)[of "Suc c + n"] False names_created[of n N ?mx] by (simp add: \<mu>_def)
  qed
  have anti: "\<mu> n' \<le> \<mu> n" if "n \<le> n'" for n n'
  proof (cases "N_of (st (Suc c + n')) = N")
    case True
    have "N_of (st (Suc c + n)) \<le> N_of (st (Suc c + n'))" "N \<le> N_of (st (Suc c + n))"
      using st(3)[of "Suc c + n" "Suc c + n'"] st(3)[of "Suc c" "Suc c + n"] that by (simp_all add: follows_def N_def)
    then have "N_of (st (Suc c + n)) = N" using True by simp
    then show ?thesis using True st(3)[of "Suc c + n" "Suc c + n'"] that by (simp add: \<mu>_def follows_def)
  qed (simp add: \<mu>_def)
  have calm: "?mx \<le> \<mu> n" if "no_rotation st c" "n < L" for n
    using that L moved_still[of "st (Suc c + n)"] ok(2) by (simp add: no_rotation_def \<mu>_def N_def)
  obtain j where j: "open_loop (\<lambda>n. fs_names (sh_fs (st (Suc c + n)))) stop (newest N 0) [0..<L] = newest N j"
      "j \<le> r" "r \<le> j \<or> min L ?mx - 1 \<le> j \<and> ((\<forall>n < L. ?mx \<le> \<mu> n) \<longrightarrow> min L ?mx \<le> j)"
    using walk[of L "\<lambda>n. fs_names (sh_fs (st (Suc c + n)))" N ?mx \<mu> r stop 0 0] names anti r by auto
  have "r \<le> j \<or> min N (?mx - 1) \<le> j \<and> (no_rotation st c \<longrightarrow> min N ?mx \<le> j)"
    using j(3) calm L by auto
  moreover have "open_newest_first bound (\<lambda>k. sh_fs (st k)) c stop = (newest N j, c + 1 + L)"
    using j(1) by (simp add: open_newest_first_def Let_def L_def newest_def add.commute add.left_commute numeral_3_eq_3 del: upt_Suc)
  ultimately show ?thesis using j(2) by (intro exI[of _ j] exI[of _ "c + 1 + L"]) simp
qed

lemma rev_newest: "j \<le> N \<Longrightarrow> rev (newest N j) = [N - j..<N]"
proof (induction j)
  case (Suc j)
  then have "[N - Suc j..<N] = (N - Suc j) # [N - j..<N]" by (subst upt_conv_Cons) (simp_all add: Suc_diff_Suc)
  then show ?case using Suc by (simp add: newest_def)
qed (simp add: newest_def)

end
