(* ===== verification/LogReaderCorrect.thy ===== *)
theory LogReaderCorrect
  imports LogSteps
begin

text \<open>
  The log's reader and writer together: the writer on inodes refines the log of names, and a client that reads the log and follows
  it gets every entry once and in order, with the system calls of the shim falling between those of the reader. What the reader has read
  is the text of the files before its own and a part of its own (\<open>pos_at\<close>, \<open>seen\<close>); every look adds to it.
\<close>

section \<open>The writer's files\<close>

text \<open>The files of the log, newest first.\<close>

definition chain :: "nat list \<Rightarrow> LogFs \<times> ShimWriter \<Rightarrow> bool" where
  "chain inos fw \<longleftrightarrow>
     inos \<noteq> [] \<and> distinct inos \<and> length inos \<le> lw_max_files (sw_log (snd fw)) \<and> 2 \<le> lw_max_files (sw_log (snd fw)) \<and>
     fs_names (fst fw) = (\<lambda>k. if k < length inos then Some (inos ! k) else None) \<and>
     list_all (\<lambda>i. i < fs_next (fst fw)) inos \<and> sw_file (snd fw) = hd inos \<and>
     lw_size (sw_log (snd fw)) = length (fs_data (fst fw) (hd inos))"

lemma fs_shift_data [simp]: "fs_data (fs_shift n fs) = fs_data fs" "fs_next (fs_shift n fs) = fs_next fs"
  by (induction n arbitrary: fs) (simp_all add: fs_rename_def split: option.split)

lemma fs_shift_names:
  assumes "\<forall>k. 1 \<le> k \<and> k \<le> n \<and> fs_names fs k = None \<longrightarrow> fs_names fs (k + 1) = None"
  shows "fs_names (fs_shift n fs) k =
    (if k = 0 \<or> n + 1 < k \<or> n = 0 then fs_names fs k else if k = 1 then None else fs_names fs (k - 1))"
  using assms
proof (induction n arbitrary: fs)
  case (Suc n)
  define gs where "gs = (case fs_rename (Suc n) (Suc n + 1) fs of None \<Rightarrow> fs | Some fs' \<Rightarrow> fs')"
  have gs: "fs_names gs = (fs_names fs)(Suc n := None, Suc (Suc n) := fs_names fs (Suc n))"
  proof (cases "fs_names fs (Suc n)")
    case None
    moreover have "fs_names fs (Suc (Suc n)) = None" using Suc.prems None by auto
    ultimately show ?thesis by (auto simp: gs_def fs_rename_def)
  next
    case (Some ino)
    then show ?thesis by (simp add: gs_def fs_rename_def)
  qed
  have "\<forall>k. 1 \<le> k \<and> k \<le> n \<and> fs_names gs k = None \<longrightarrow> fs_names gs (k + 1) = None"
    using Suc.prems by (auto simp: gs)
  moreover have "fs_shift (Suc n) fs = fs_shift n gs" by (simp add: gs_def)
  ultimately show ?case using Suc.IH[of gs] gs
    by (auto simp: less_Suc_eq le_less_Suc_eq not_less)
qed simp

lemma chain_rotate:
  assumes "chain inos (fs, w)"
  defines "inos' \<equiv> take (lw_max_files (sw_log w)) (fs_next fs # inos)"
  shows "\<exists>fs' w'. fs_rotate (fs, w) = Some (fs', w') \<and> chain inos' (fs', w') \<and> sw_log w' = (sw_log w)\<lparr>lw_size := 0\<rparr> \<and>
    fs_data fs' = (fs_data fs)(fs_next fs := []) \<and> fs_next fs' = Suc (fs_next fs)"
proof -
  let ?m = "lw_max_files (sw_log w)"
  have chain: "inos \<noteq> []" "distinct inos" "length inos \<le> ?m" "2 \<le> ?m"
      "fs_names fs = (\<lambda>k. if k < length inos then Some (inos ! k) else None)" "list_all (\<lambda>i. i < fs_next fs) inos"
    using assms(1) by (simp_all add: chain_def)
  define gs where "gs = fs_shift (?m - 2) fs"
  have names: "fs_names gs k = (if k = 0 \<or> ?m - 2 + 1 < k \<or> ?m - 2 = 0 then fs_names fs k else if k = 1 then None else fs_names fs (k - 1))" for k
    unfolding gs_def by (rule fs_shift_names) (auto simp: chain(5))
  have first: "fs_names gs 0 = Some (inos ! 0)" using chain(1) by (simp add: names chain(5))
  let ?fs = "gs\<lparr>fs_names := (fs_names gs)(0 \<mapsto> fs_next fs, 1 \<mapsto> inos ! 0), fs_data := (fs_data fs)(fs_next fs := []), fs_next := Suc (fs_next fs)\<rparr>"
  have rotate: "fs_rotate (fs, w) = Some (?fs, \<lparr>sw_file = fs_next fs, sw_log = (sw_log w)\<lparr>lw_size := 0\<rparr>\<rparr>)"
    using chain(4) first
    by (simp add: fs_rotate_def Let_def fs_rename_def fs_open_append_def gs_def[symmetric] numeral_2_eq_2[symmetric] fun_upd_twist)
      (simp add: gs_def)
  have "fs_names ?fs = (\<lambda>k. if k < length inos' then Some (inos' ! k) else None)"
  proof
    fix k
    show "fs_names ?fs k = (if k < length inos' then Some (inos' ! k) else None)"
      using chain(1,3,4) by (cases k) (auto simp: inos'_def names chain(5) nth_Cons' min_def)
  qed
  moreover have "list_all (\<lambda>i. i < Suc (fs_next fs)) inos'"
    using chain(6) unfolding inos'_def list_all_iff by (auto dest!: in_set_takeD intro: less_SucI)
  moreover have "distinct inos'" using chain(2,6) by (auto simp: inos'_def list_all_iff intro!: distinct_take)
  ultimately show ?thesis
    using rotate chain(4) by (simp add: chain_def) (simp add: inos'_def take_Cons' )
qed

text \<open>A write begins by rotating, or not.\<close>

definition after_prepare :: "LogFs \<times> ShimWriter \<Rightarrow> u8 list \<Rightarrow> nat list \<Rightarrow> nat list" where
  "after_prepare fw line inos =
     (if fs_needs_rotation (snd fw) line then take (lw_max_files (sw_log (snd fw))) (fs_next (fst fw) # inos) else inos)"

lemma chain_prepare:
  assumes "chain inos (fs, w)"
  shows "\<exists>fs' w'. fs_prepare (fs, w) line = Some (fs', w') \<and> chain (after_prepare (fs, w) line inos) (fs', w') \<and>
    lw_max_files (sw_log w') = lw_max_files (sw_log w) \<and>
    (fs_needs_rotation w line \<longrightarrow> fs_data fs' = (fs_data fs)(fs_next fs := []) \<and> fs_next fs' = Suc (fs_next fs)) \<and>
    (\<not> fs_needs_rotation w line \<longrightarrow> fs' = fs \<and> w' = w)"
  using chain_rotate[OF assms] assms by (cases "fs_needs_rotation w line") (auto simp: fs_prepare_def after_prepare_def)

lemma chain_append:
  assumes "chain inos (fs, w)"
  shows "chain inos (fs_append (sw_file w) bytes fs, w\<lparr>sw_log := (sw_log w)\<lparr>lw_size := lw_size (sw_log w) + length bytes\<rparr>\<rparr>)"
  using assms by (simp add: chain_def fs_append_def)

section \<open>The files by name\<close>

lemma files_rename: "log_rename a b (fs_files fs) = map_option fs_files (fs_rename a b fs)"
  by (cases "fs_names fs a") (auto simp: log_rename_def fs_rename_def fs_files_def)

lemma files_shift: "fs_files (fs_shift n fs) = shift_files n (fs_files fs)"
  by (induction n arbitrary: fs) (simp_all add: files_rename split: option.split)

lemma files_open:
  assumes "\<forall>k i. fs_names fs k = Some i \<longrightarrow> i < fs_next fs"
  shows "fs_files (fst (fs_open_append fs)) = open_append (fs_files fs)"
proof
  fix k
  show "fs_files (fst (fs_open_append fs)) k = open_append (fs_files fs) k"
    using assms by (cases "fs_names fs 0"; cases "fs_names fs k") (auto simp: fs_open_append_def fs_files_def open_append_def)
qed

lemma files_append:
  assumes "chain inos (fs, w)"
  shows "fs_files (fs_append (sw_file w) bytes fs) = (fs_files fs)(0 \<mapsto> the (fs_files fs 0) @ bytes)"
proof
  fix k
  have "inos ! k \<noteq> hd inos" if "0 < k" "k < length inos"
    using that assms nth_eq_iff_index_eq[of inos k 0] by (auto simp: chain_def hd_conv_nth)
  then show "fs_files (fs_append (sw_file w) bytes fs) k = ((fs_files fs)(0 \<mapsto> the (fs_files fs 0) @ bytes)) k"
    using assms by (auto simp: chain_def fs_files_def fs_append_def hd_conv_nth)
qed

lemma names_shift_bounded:
  "\<forall>k i. fs_names fs k = Some i \<longrightarrow> i < m \<Longrightarrow> fs_names (fs_shift n fs) k = Some i \<Longrightarrow> i < m"
proof (induction n arbitrary: fs)
  case (Suc n)
  let ?gs = "case fs_rename (Suc n) (Suc n + 1) fs of None \<Rightarrow> fs | Some fs' \<Rightarrow> fs'"
  have "\<forall>k i. fs_names ?gs k = Some i \<longrightarrow> i < m"
    using Suc.prems(1) by (cases "fs_names fs (Suc n)") (auto simp: fs_rename_def)
  then show ?case using Suc.IH[of ?gs] Suc.prems(2) by simp
qed simp

lemma files_rotate:
  assumes "chain inos (fs, w)" "fs_rotate (fs, w) = Some (fs', w')"
  shows "rotate_log (fs_files fs, sw_log w) = Some (fs_files fs', sw_log w')"
proof -
  let ?gs = "fs_shift (lw_max_files (sw_log w) - 2) fs"
  have m: "2 \<le> lw_max_files (sw_log w)" using assms(1) by (simp add: chain_def)
  have old: "\<forall>k i. fs_names fs k = Some i \<longrightarrow> i < fs_next fs"
    using assms(1) by (auto simp: chain_def list_all_iff)
  obtain hs where hs: "fs_rename 0 1 ?gs = Some hs" "fs' = fst (fs_open_append hs)" "sw_log w' = (sw_log w)\<lparr>lw_size := 0\<rparr>"
    using assms(2) m by (auto simp: fs_rotate_def Let_def numeral_2_eq_2 split: if_splits option.splits prod.splits)
  have "\<forall>k i. fs_names hs k = Some i \<longrightarrow> i < fs_next hs"
    using hs(1) names_shift_bounded[OF old] by (auto simp: fs_rename_def split: option.splits if_splits)
  then show ?thesis
    using m hs files_open[of hs] files_rename[of 0 1 ?gs]
    by (simp add: rotate_log_def Let_def files_shift numeral_2_eq_2)
qed

text \<open>A log of three files at most, with a limit of five bytes.\<close>

definition example_log :: "LogFs \<times> ShimWriter" where
  "example_log =
     (\<lparr>fs_names = [0 \<mapsto> 1, 1 \<mapsto> 0], fs_data = (\<lambda>i. if i = 0 then [97, 10] else [98, 10]), fs_next = 2\<rparr>,
      \<lparr>sw_file = 1, sw_log = \<lparr>lw_size = 2, lw_max_size = 5, lw_max_files = 3\<rparr>\<rparr>)"

lemma example_chain: "chain [1, 0] example_log"
  by (auto simp: chain_def example_log_def fun_eq_iff less_Suc_eq nth_Cons')

text \<open>C40: the shim's writer on inodes does to the files by name what the log of names says, so its guarantees hold of it; it never
  fails for want of a file, and the files stay a chain of distinct ones, no more than \<open>max_files\<close>.\<close>

theorem inode_writer_refines:
  assumes "chain inos (fs, w)"
  shows "\<exists>fs' w' inos'. fs_write (fs, w) line = Some (fs', w') \<and> chain inos' (fs', w') \<and>
    LogWriter_write (fs_files fs, sw_log w) line = Some (fs_files fs', sw_log w')"
proof -
  let ?inos = "after_prepare (fs, w) line inos"
  obtain gs v where prepare: "fs_prepare (fs, w) line = Some (gs, v)" "chain ?inos (gs, v)"
    using chain_prepare[OF assms, of line] by auto
  have names: "(if fs_needs_rotation w line then rotate_log (fs_files fs, sw_log w) else Some (fs_files fs, sw_log w)) =
      Some (fs_files gs, sw_log v)"
    using prepare(1) files_rotate[OF assms] by (simp add: fs_prepare_def split: if_splits)
  let ?v = "v\<lparr>sw_log := (sw_log v)\<lparr>lw_size := lw_size (sw_log v) + length line\<rparr>\<rparr>"
  have "fs_write (fs, w) line = Some (fs_append (sw_file v) line gs, ?v)" by (simp add: fs_write_def prepare(1))
  moreover have "LogWriter_write (fs_files fs, sw_log w) line = Some (fs_files (fs_append (sw_file v) line gs), sw_log ?v)"
    using names files_append[OF prepare(2), of line] by (simp add: LogWriter_write_def fs_needs_rotation_def)
  ultimately show ?thesis using chain_append[OF prepare(2), of line] by blast
qed

theorem inode_writer_refines_witness:
  "\<exists>fs' w'. fs_write example_log [99, 10] = Some (fs', w') \<and>
     LogWriter_write (fs_files (fst example_log), sw_log (snd example_log)) [99, 10] = Some (fs_files fs', sw_log w')"
  using inode_writer_refines[of "[1, 0]" "fst example_log" "snd example_log" "[99, 10]"] example_chain
  by simp blast

section \<open>Where the reader is\<close>

text \<open>The reader has read the files before \<open>i\<close>, and \<open>at\<close> bytes of \<open>i\<close>.\<close>

definition pos_at :: "(u8 list \<Rightarrow> 'e option) \<Rightarrow> Shim \<Rightarrow> Position \<Rightarrow> nat \<Rightarrow> nat \<Rightarrow> bool" where
  "pos_at decode s pos i at \<longleftrightarrow> po_file pos = Some (i, at) \<and> po_ino pos = i \<and> i < N_of s \<and> at \<le> length (data_of s i) \<and>
     po_partial pos = snd (parse_lines decode (take at (data_of s i)))"

definition seen :: "Shim \<Rightarrow> nat \<Rightarrow> nat \<Rightarrow> u8 list" where
  "seen s i at = concat (map (data_of s) [0..<i]) @ take at (data_of s i)"

definition shown :: "(u8 list \<Rightarrow> 'e option) \<Rightarrow> ('e \<Rightarrow> bool) \<Rightarrow> u8 list \<Rightarrow> 'e list" where
  "shown decode pass bytes = filter pass (entries decode bytes)"

lemma shown_prefix: "prefix xs ys \<Longrightarrow> prefix (shown decode pass xs) (shown decode pass ys)"
  by (elim prefixE) (simp add: shown_def entries_append[of decode xs])

lemma follows_data: "follows s t \<Longrightarrow> i < N_of s \<Longrightarrow> prefix (data_of s i) (data_of t i)"
  by (cases "i = N_of s - 1") (auto simp: follows_def)

lemma follows_final: "follows s t \<Longrightarrow> Suc i < N_of s \<Longrightarrow> data_of t i = data_of s i"
  by (auto simp: follows_def)

lemma follows_take: "follows s t \<Longrightarrow> i < N_of s \<Longrightarrow> at \<le> length (data_of s i) \<Longrightarrow> take at (data_of t i) = take at (data_of s i)"
  by (auto dest!: follows_data simp: prefix_def)

lemma follows_older: "follows s t \<Longrightarrow> i < N_of s \<Longrightarrow> concat (map (data_of t) [0..<i]) = concat (map (data_of s) [0..<i])"
  by (intro arg_cong[of _ _ concat] map_cong) (auto intro!: follows_final)

lemma seen_follows: "follows s t \<Longrightarrow> i < N_of s \<Longrightarrow> at \<le> length (data_of s i) \<Longrightarrow> seen t i at = seen s i at"
  by (simp add: seen_def follows_take follows_older)

lemma pos_at_follows: "follows s t \<Longrightarrow> pos_at decode s pos i at \<Longrightarrow> pos_at decode t pos i at"
  using follows_data[of s t i, THEN prefix_length_le] by (auto simp: pos_at_def follows_take) (auto simp: follows_def)

lemma older_whole: "shim_ok s \<Longrightarrow> i < N_of s \<Longrightarrow> entries decode (concat (map (data_of s) [0..<i]) @ ys) =
    concat (map (entries decode) (map (data_of s) [0..<i])) @ entries decode ys"
  by (rule entries_whole_concat) (simp add: list_all_iff shim_ok_def)

lemma shown_seen: "shim_ok s \<Longrightarrow> i < N_of s \<Longrightarrow> shown decode pass (seen s i at) =
    shown decode pass (concat (map (data_of s) [0..<i])) @ shown decode pass (take at (data_of s i))"
  unfolding shown_def seen_def
  using older_whole[of s i decode "[]"] older_whole[of s i decode "take at (data_of s i)"]
  by (simp add: entries_def[of decode "[]"])

lemma drain_at:
  assumes "shim_ok s" "pos_at decode s pos i at"
  obtains out pos' where "drain decode pass (sh_fs s) pos = (out, pos')" "pos_at decode s pos' i (length (data_of s i))"
    "shown decode pass (seen s i (length (data_of s i))) = shown decode pass (seen s i at) @ out"
proof -
  let ?x = "take at (data_of s i)" and ?y = "drop at (data_of s i)"
  have pos: "po_file pos = Some (i, at)" "po_ino pos = i" "i < N_of s" "at \<le> length (data_of s i)"
      "po_partial pos = snd (parse_lines decode ?x)"
    using assms(2) by (auto simp: pos_at_def)
  obtain es rest where parsed: "parse_lines decode (po_partial pos @ ?y) = (es, rest)" by (cases "parse_lines decode (po_partial pos @ ?y)")
  let ?pos = "pos\<lparr>po_file := Some (i, length (data_of s i)), po_partial := rest\<rparr>"
  have "drain decode pass (sh_fs s) pos = (filter pass es, ?pos)"
    using pos(1,4) parsed by (simp add: drain_def Let_def)
  moreover have "snd (parse_lines decode (?x @ ?y)) = rest" using rest_append[of decode ?x ?y] parsed pos(5) by simp
  then have "pos_at decode s ?pos i (length (data_of s i))" using pos by (simp add: pos_at_def)
  moreover have "entries decode (?x @ ?y) = entries decode ?x @ es"
    using entries_append[of decode ?x ?y] parsed pos(5) by (simp add: entries_def)
  then have "shown decode pass (seen s i (length (data_of s i))) = shown decode pass (seen s i at) @ filter pass es"
    unfolding shown_seen[OF assms(1) pos(3)] by (simp add: shown_def)
  ultimately show ?thesis using that by blast
qed

lemma pos_at_start: "i < N_of s \<Longrightarrow> pos_at decode s \<lparr>po_file = Some (i, 0), po_ino = i, po_partial = []\<rparr> i 0"
  by (simp add: pos_at_def)

lemma seen_all: "seen s i (length (data_of s i)) = concat (map (data_of s) [0..<Suc i])"
  by (simp add: seen_def)

text \<open>Reading the files from \<open>a\<close> to the newest, each when its turn comes.\<close>

lemma drain_files:
  assumes order: "in_order s st t"
  shows "a < M \<Longrightarrow> M \<le> N_of (st k) \<Longrightarrow>
    \<exists>out pos' k'. k \<le> k' \<and> drain_all decode pass (\<lambda>k. sh_fs (st k)) k [a..<M] pos = (out, pos') \<and>
      pos_at decode (st k') pos' (M - 1) (length (data_of (st k') (M - 1))) \<and>
      shown decode pass (seen (st k') (M - 1) (length (data_of (st k') (M - 1)))) =
      shown decode pass (concat (map (data_of (st k)) [0..<a])) @ out"
proof (induction "M - a" arbitrary: a k pos)
  case (Suc d)
  note st = in_orderD[OF order]
  have a: "a < N_of (st k)" using Suc.prems by simp
  let ?start = "\<lparr>po_file = Some (a, 0), po_ino = a, po_partial = []\<rparr>"
  obtain out pos' where first: "drain decode pass (sh_fs (st k)) ?start = (out, pos')"
      "pos_at decode (st k) pos' a (length (data_of (st k) a))"
      "shown decode pass (seen (st k) a (length (data_of (st k) a))) = shown decode pass (seen (st k) a 0) @ out"
    by (rule drain_at[OF st(1) pos_at_start[OF a]])
  have older: "seen (st k) a 0 = concat (map (data_of (st k)) [0..<a])" by (simp add: seen_def)
  have upt: "[a..<M] = a # [Suc a..<M]" using Suc.prems by (simp add: upt_conv_Cons)
  show ?case
  proof (cases "Suc a = M")
    case True
    then have "M - 1 = a" "[Suc a..<M] = []" by simp_all
    then show ?thesis using first older upt by (intro exI[of _ out] exI[of _ pos'] exI[of _ k]) simp
  next
    case False
    then have more: "Suc a < M" "Suc a < N_of (st k)" using Suc.prems by simp_all
    have d: "d = M - Suc a" using Suc.hyps(2) by simp
    have N: "M \<le> N_of (st (Suc k))" using Suc.prems st(3)[of k "Suc k"] by (simp add: follows_def)
    obtain out' pos'' k' where rest: "Suc k \<le> k'" "drain_all decode pass (\<lambda>k. sh_fs (st k)) (Suc k) [Suc a..<M] pos' = (out', pos'')"
        "pos_at decode (st k') pos'' (M - 1) (length (data_of (st k') (M - 1)))"
        "shown decode pass (seen (st k') (M - 1) (length (data_of (st k') (M - 1)))) =
           shown decode pass (concat (map (data_of (st (Suc k))) [0..<Suc a])) @ out'"
      using Suc.hyps(1)[of "Suc a" "Suc k" pos'] d more N by blast
    have "concat (map (data_of (st (Suc k))) [0..<Suc a]) = seen (st k) a (length (data_of (st k) a))"
      unfolding seen_all using follows_older[OF st(3)[of k "Suc k"] more(2)] by simp
    then have "shown decode pass (seen (st k') (M - 1) (length (data_of (st k') (M - 1)))) =
        shown decode pass (concat (map (data_of (st k)) [0..<a])) @ out @ out'"
      using rest(4) first(3) older by simp
    moreover have "drain_all decode pass (\<lambda>k. sh_fs (st k)) k [a..<M] pos = (out @ out', pos'')"
      using first(1) rest(2) by (simp add: upt)
    ultimately show ?thesis using rest(1,3) by (intro exI[of _ "out @ out'"] exI[of _ pos''] exI[of _ k']) simp
  qed
qed simp

section \<open>A look\<close>

text \<open>The reader's file is not yet out of reach when the walk begins: it is one of the last \<open>log_max_files\<close> ones, or only just not.\<close>

definition in_reach :: "(nat \<Rightarrow> Shim) \<Rightarrow> nat \<Rightarrow> bool" where
  "in_reach st i \<longleftrightarrow> N_of (st 4) \<le> i + max_of (st 3) \<or> no_rotation st 3 \<and> N_of (st 4) \<le> Suc i + max_of (st 3)"

lemma current_file: "shim_ok s \<Longrightarrow> fs_names (sh_fs s) 0 = Some i \<Longrightarrow> i = N_of s - 1"
  by (auto simp: shim_ok_def names_at_def idx_def split: if_splits)

lemma current_exists: "shim_ok s \<Longrightarrow> \<not> rotating s \<Longrightarrow> fs_names (sh_fs s) 0 = Some (N_of s - 1)"
  using moved_still[of s] by (simp add: shim_ok_def names_at_def idx_def)

lemma walk_newer:
  assumes order: "in_order s st t" and bound: "max_of s \<le> bound" and one: "one_rotation st 3" and reach: "in_reach st i"
    and i: "Suc i < N_of (st 4)"
  obtains c where "open_newest_first bound (\<lambda>k. sh_fs (st k)) 3 (Some i) = (rev [Suc i..<N_of (st 4)], c)" "4 \<le> c"
proof -
  let ?N = "N_of (st 4)"
  have call: "Suc 3 = (4::nat)" by simp
  have r: "?N - Suc i \<le> ?N" "Some i = (if ?N - Suc i < ?N then Some (?N - 1 - (?N - Suc i)) else None)" using i by simp_all
  obtain j c where walk: "open_newest_first bound (\<lambda>k. sh_fs (st k)) 3 (Some i) = (newest ?N j, c)" "4 \<le> c" "j \<le> ?N - Suc i"
      "?N - Suc i \<le> j \<or> min ?N (max_of s - 1) \<le> j \<and> (no_rotation st 3 \<longrightarrow> min ?N (max_of s) \<le> j)"
    using walk_finds[OF order bound one, unfolded call, OF r] by blast
  have "max_of (st 3) = max_of s" using in_orderD(2)[OF order] .
  then have "j = ?N - Suc i" using walk(3,4) reach i unfolding in_reach_def by auto
  then have "newest ?N j = rev [Suc i..<?N]" using rev_newest[of j ?N] i by (simp flip: rev_swap)
  then show ?thesis using walk(1,2) that by simp
qed

lemma after_rotation_reads:
  assumes order: "in_order s st t" and bound: "max_of s \<le> bound" and one: "one_rotation st 3" and reach: "in_reach st i"
    and pos: "pos_at decode (st 0) pos i (length (data_of (st 0) i))"
  shows "\<exists>out pos' k i' at'. after_rotation decode pass bound (\<lambda>k. sh_fs (st k)) pos = (out, pos') \<and> pos_at decode (st k) pos' i' at' \<and>
    shown decode pass (seen (st k) i' at') = shown decode pass (seen (st 0) i (length (data_of (st 0) i))) @ out \<and>
    ((\<forall>k. st k = t) \<and> \<not> rotating t \<longrightarrow> i' = N_of t - 1 \<and> at' = length (data_of t i'))"
proof -
  note st = in_orderD[OF order]
  have ours: "po_file pos = Some (i, length (data_of (st 0) i))" "po_ino pos = i" "i < N_of (st 0)" using pos by (auto simp: pos_at_def)
  consider (gap) "fs_names (sh_fs (st 1)) 0 = None" | (same) "fs_names (sh_fs (st 1)) 0 = Some i"
    | (other) c where "fs_names (sh_fs (st 1)) 0 = Some c" "c \<noteq> i" by (cases "fs_names (sh_fs (st 1)) 0") auto
  then show ?thesis
  proof cases
    case gap
    then have "\<not> ((\<forall>k. st k = t) \<and> \<not> rotating t)" using current_exists[OF st(1)[of 1]] by (metis option.distinct(1))
    moreover have "after_rotation decode pass bound (\<lambda>k. sh_fs (st k)) pos = ([], pos)" using gap by (simp add: after_rotation_def)
    ultimately show ?thesis using pos append_Nil2 by metis
  next
    case same
    then have "i = N_of (st 1) - 1" using current_file[OF st(1)] by blast
    then have "(\<forall>k. st k = t) \<and> \<not> rotating t \<longrightarrow> i = N_of t - 1 \<and> length (data_of (st 0) i) = length (data_of t i)" by metis
    moreover have "after_rotation decode pass bound (\<lambda>k. sh_fs (st k)) pos = ([], pos)"
      using same ours by (simp add: after_rotation_def)
    ultimately show ?thesis using pos append_Nil2 by metis
  next
    case other
    have up: "N_of (st 0) \<le> N_of (st 1)" "N_of (st 1) \<le> N_of (st 2)" "N_of (st 2) \<le> N_of (st 4)"
      using st(3)[of 0 1] st(3)[of 1 2] st(3)[of 2 4] by (auto simp: follows_def)
    then have i: "Suc i < N_of (st 1)" using other ours(3) current_file[OF st(1)[of 1] other(1)] by auto
    let ?len = "length (data_of (st 0) i)"
    have pos2: "pos_at decode (st 2) pos i ?len" by (rule pos_at_follows[OF st(3) pos]) simp
    obtain out pos' where rest: "drain decode pass (sh_fs (st 2)) pos = (out, pos')" "pos_at decode (st 2) pos' i (length (data_of (st 2) i))"
        "shown decode pass (seen (st 2) i (length (data_of (st 2) i))) = shown decode pass (seen (st 2) i ?len) @ out"
      by (rule drain_at[OF st(1) pos2])
    have stop: "po_file pos' \<noteq> None" "po_ino pos' = i" using rest(2) by (auto simp: pos_at_def)
    obtain c where walk: "open_newest_first bound (\<lambda>k. sh_fs (st k)) 3 (Some i) = (rev [Suc i..<N_of (st 4)], c)" "4 \<le> c"
      using walk_newer[OF order bound one reach] i up by (metis less_le_trans)
    have newer: "Suc i < N_of (st 4)" "N_of (st 4) \<le> N_of (st c)" using i up st(3)[OF walk(2)] by (auto simp: follows_def)
    obtain out' pos'' k' where files: "c \<le> k'" "drain_all decode pass (\<lambda>k. sh_fs (st k)) c [Suc i..<N_of (st 4)] pos' = (out', pos'')"
        "pos_at decode (st k') pos'' (N_of (st 4) - 1) (length (data_of (st k') (N_of (st 4) - 1)))"
        "shown decode pass (seen (st k') (N_of (st 4) - 1) (length (data_of (st k') (N_of (st 4) - 1)))) =
           shown decode pass (concat (map (data_of (st c)) [0..<Suc i])) @ out'"
      using drain_files[OF order newer, of decode pass pos'] by blast
    have "concat (map (data_of (st c)) [0..<Suc i]) = seen (st 2) i (length (data_of (st 2) i))"
      unfolding seen_all using follows_older[of "st 2" "st c" "Suc i"] st(3)[of 2 c] walk(2) i up by simp
    moreover have "seen (st 2) i ?len = seen (st 0) i ?len" using seen_follows[OF st(3)[of 0 2] ours(3)] by simp
    ultimately have "shown decode pass (seen (st k') (N_of (st 4) - 1) (length (data_of (st k') (N_of (st 4) - 1)))) =
        shown decode pass (seen (st 0) i ?len) @ out @ out'"
      using files(4) rest(3) by simp
    moreover have "after_rotation decode pass bound (\<lambda>k. sh_fs (st k)) pos = (out @ out', pos'')"
      using other ours stop rest(1) walk(1) files(2) by (simp add: after_rotation_def)
    moreover have "(\<forall>k. st k = t) \<and> \<not> rotating t \<longrightarrow> N_of (st 4) - 1 = N_of t - 1 \<and>
        length (data_of (st k') (N_of (st 4) - 1)) = length (data_of t (N_of (st 4) - 1))" by metis
    ultimately show ?thesis using files(3) by metis
  qed
qed

lemma read_new_reads:
  assumes order: "in_order s st t" and bound: "max_of s \<le> bound" and one: "one_rotation st 3" and reach: "in_reach st (po_ino pos)"
    and pos: "pos_at decode s pos i at"
  shows "\<exists>out pos' i' at'. read_new decode pass bound (\<lambda>k. sh_fs (st k)) pos = (out, pos') \<and> pos_at decode t pos' i' at' \<and>
    shown decode pass (seen t i' at') = shown decode pass (seen s i at) @ out \<and>
    ((\<forall>k. st k = t) \<and> \<not> rotating t \<longrightarrow> i' = N_of t - 1 \<and> at' = length (data_of t i'))"
proof -
  note st = in_orderD[OF order]
  have i: "po_ino pos = i" "i < N_of s" "at \<le> length (data_of s i)" using pos by (auto simp: pos_at_def)
  obtain out pos1 where first: "drain decode pass (sh_fs (st 0)) pos = (out, pos1)" "pos_at decode (st 0) pos1 i (length (data_of (st 0) i))"
      "shown decode pass (seen (st 0) i (length (data_of (st 0) i))) = shown decode pass (seen (st 0) i at) @ out"
    by (rule drain_at[OF st(1) pos_at_follows[OF st(4) pos]])
  obtain out' pos' k i' at' where rest: "after_rotation decode pass bound (\<lambda>k. sh_fs (st k)) pos1 = (out', pos')" "pos_at decode (st k) pos' i' at'"
      "shown decode pass (seen (st k) i' at') = shown decode pass (seen (st 0) i (length (data_of (st 0) i))) @ out'"
      "(\<forall>k. st k = t) \<and> \<not> rotating t \<longrightarrow> i' = N_of t - 1 \<and> at' = length (data_of t i')"
    using after_rotation_reads[OF order bound one reach[unfolded i(1)] first(2), of pass] by blast
  have "seen t i' at' = seen (st k) i' at'" using seen_follows[OF st(5)] rest(2) by (simp add: pos_at_def)
  moreover have "seen (st 0) i at = seen s i at" using seen_follows[OF st(4) i(2,3)] .
  ultimately have "shown decode pass (seen t i' at') = shown decode pass (seen s i at) @ out @ out'" using first(3) rest(3) by simp
  moreover have "read_new decode pass bound (\<lambda>k. sh_fs (st k)) pos = (out @ out', pos')" using first(1) rest(1) by (simp add: read_new_def)
  ultimately show ?thesis using pos_at_follows[OF st(5) rest(2)] rest(4) by blast
qed

section \<open>The entries already written\<close>

definition last_entries :: "nat option \<Rightarrow> 'e list \<Rightarrow> 'e list" where
  "last_entries tail xs = (case tail of None \<Rightarrow> xs | Some n \<Rightarrow> drop (length xs - n) xs)"

lemma keep_entries:
  "out = last_entries tail ys \<Longrightarrow> foldl (keep_entry tail) out xs = last_entries tail (ys @ xs)"
proof (induction xs arbitrary: out ys)
  case (Cons x xs)
  have "keep_entry tail out x = last_entries tail (ys @ [x])"
    unfolding Cons.prems
    by (auto simp: keep_entry_def last_entries_def Let_def drop_Suc[symmetric] Suc_diff_le not_le tl_drop split: option.split)
  from Cons.IH[OF this] show ?case by simp
qed simp

lemma existing_loop_drains:
  "existing_loop decode pass tail look k out pos inos =
     (foldl (keep_entry tail) out (fst (drain_all decode pass look k inos pos)), snd (drain_all decode pass look k inos pos))"
  by (induction inos arbitrary: k out pos) (simp_all add: drain_def Let_def split: prod.splits)

lemma existing_reads:
  assumes order: "in_order s st t" and bound: "max_of s \<le> bound" and one: "one_rotation st 0"
  shows "\<exists>k found pos i at. existing decode pass tail bound (\<lambda>k. sh_fs (st k)) = (last_entries tail found, pos) \<and>
    k \<le> N_of (st 1) - (if no_rotation st 0 then max_of s else max_of s - 1) \<and> k < N_of t \<and> pos_at decode t pos i at \<and>
    shown decode pass (seen t i at) = shown decode pass (concat (map (data_of t) [0..<k])) @ found"
proof -
  note st = in_orderD[OF order]
  let ?N = "N_of (st 1)"
  have call: "Suc 0 = (1::nat)" by simp
  have r: "?N \<le> ?N" "None = (if ?N < ?N then Some (?N - 1 - ?N) else None)" by simp_all
  obtain j c where walk: "open_newest_first bound (\<lambda>k. sh_fs (st k)) 0 None = (newest ?N j, c)" "1 \<le> c" "j \<le> ?N"
      "?N \<le> j \<or> min ?N (max_of s - 1) \<le> j \<and> (no_rotation st 0 \<longrightarrow> min ?N (max_of s) \<le> j)"
    using walk_finds[OF order bound one, unfolded call, OF r] by blast
  have size: "2 \<le> max_of s" "1 \<le> ?N" "?N \<le> N_of (st c)" "?N \<le> N_of t"
    using st(1)[of 1] st(2)[of 1] st(3)[OF walk(2)] st(5)[of 1] by (auto simp: shim_ok_def follows_def)
  then have j: "?N - j < ?N" "?N - j \<le> ?N - (if no_rotation st 0 then max_of s else max_of s - 1)" using walk(3,4) by auto
  let ?pos = "\<lparr>po_file = None, po_ino = 0, po_partial = []\<rparr>"
  obtain out pos k' where files: "c \<le> k'" "drain_all decode pass (\<lambda>k. sh_fs (st k)) c [?N - j..<?N] ?pos = (out, pos)"
      "pos_at decode (st k') pos (?N - 1) (length (data_of (st k') (?N - 1)))"
      "shown decode pass (seen (st k') (?N - 1) (length (data_of (st k') (?N - 1)))) =
         shown decode pass (concat (map (data_of (st c)) [0..<?N - j])) @ out"
    using drain_files[OF order j(1) size(3), of decode pass ?pos] by blast
  have empty: "[] = last_entries tail ([] :: 'b list)" by (simp add: last_entries_def split: option.split)
  have "existing decode pass tail bound (\<lambda>k. sh_fs (st k)) = (last_entries tail out, pos)"
    unfolding existing_def walk(1) prod.case rev_newest[OF walk(3)] existing_loop_drains files(2)
    using keep_entries[OF empty, of out] by simp
  moreover have "concat (map (data_of (st c)) [0..<?N - j]) = concat (map (data_of t) [0..<?N - j])"
    using follows_older[OF st(5)[of c], of "?N - j"] j(1) size(3) by simp
  moreover have "seen t (?N - 1) (length (data_of (st k') (?N - 1))) = seen (st k') (?N - 1) (length (data_of (st k') (?N - 1)))"
    using seen_follows[OF st(5)] files(3) by (simp add: pos_at_def)
  ultimately have "shown decode pass (seen t (?N - 1) (length (data_of (st k') (?N - 1)))) =
      shown decode pass (concat (map (data_of t) [0..<?N - j])) @ out"
    "existing decode pass tail bound (\<lambda>k. sh_fs (st k)) = (last_entries tail out, pos)"
    using files(4) by simp_all
  moreover have "?N - j < N_of t" using j(1) size(4) by linarith
  ultimately show ?thesis using pos_at_follows[OF st(5) files(3)] j(2) by blast
qed

section \<open>Following\<close>

text \<open>What a sequence of looks finds, from a state of the shim: each is given by the steps the shim takes before each of its calls. The
  shim goes on from one to the next.\<close>

fun looks_from :: "Shim \<Rightarrow> nat list list list \<Rightarrow> (nat \<Rightarrow> LogFs) list" where
  "looks_from s [] = []"
| "looks_from s (look # looks) = (\<lambda>k. sh_fs (at_call s look k)) # looks_from (shim_run (concat look) s) looks"

fun keeps_up :: "(u8 list \<Rightarrow> 'e option) \<Rightarrow> ('e \<Rightarrow> bool) \<Rightarrow> nat \<Rightarrow> Shim \<Rightarrow> Position \<Rightarrow> nat list list list \<Rightarrow> bool" where
  "keeps_up decode pass bound s pos [] \<longleftrightarrow> True"
| "keeps_up decode pass bound s pos (look # looks) \<longleftrightarrow>
     one_rotation (at_call s look) 3 \<and> in_reach (at_call s look) (po_ino pos) \<and>
     keeps_up decode pass bound (shim_run (concat look) s)
       (snd (read_new decode pass bound (\<lambda>k. sh_fs (at_call s look k)) pos)) looks"

lemma follow_reads:
  assumes "shim_ok s" "max_of s \<le> bound" "pos_at decode s pos i at" "keeps_up decode pass bound s pos looks"
  shows "\<exists>pos' i' at'. pos_at decode (shim_run (concat (concat looks)) s) pos' i' at' \<and>
    shown decode pass (seen (shim_run (concat (concat looks)) s) i' at') =
      shown decode pass (seen s i at) @ follow decode pass bound pos (map (Pair True) (looks_from s looks)) \<and>
    (\<forall>ys. follow decode pass bound pos (map (Pair True) (looks_from s looks) @ ys) =
      follow decode pass bound pos (map (Pair True) (looks_from s looks)) @ follow decode pass bound pos' ys) \<and>
    (\<forall>later. keeps_up decode pass bound s pos (looks @ later) =
      keeps_up decode pass bound (shim_run (concat (concat looks)) s) pos' later)"
  using assms
proof (induction looks arbitrary: s pos i at)
  case Nil
  then show ?case
    by (intro exI[of _ pos] exI[of _ i] exI[of _ at]) (simp add: shim_run_def)
next
  case (Cons look looks)
  let ?t = "shim_run (concat look) s" and ?look = "\<lambda>k. sh_fs (at_call s look k)"
  let ?u = "shim_run (concat (concat (look # looks))) s"
  have u: "?u = shim_run (concat (concat looks)) ?t" by (simp add: shim_run_append)
  have ok: "shim_ok ?t" "max_of ?t \<le> bound" using shim_run_ok[OF Cons.prems(1), of "concat look"] Cons.prems(2) by (auto simp: follows_def)
  have fair: "one_rotation (at_call s look) 3" "in_reach (at_call s look) (po_ino pos)"
      "keeps_up decode pass bound ?t (snd (read_new decode pass bound ?look pos)) looks"
    using Cons.prems(4) by simp_all
  obtain out pos1 i1 at1 where first: "read_new decode pass bound ?look pos = (out, pos1)" "pos_at decode ?t pos1 i1 at1"
      "shown decode pass (seen ?t i1 at1) = shown decode pass (seen s i at) @ out"
    using read_new_reads[OF at_call_in_order[OF Cons.prems(1)] Cons.prems(2) fair(1,2) Cons.prems(3), of pass] by blast
  obtain pos' i' at' where rest: "pos_at decode ?u pos' i' at'"
      "shown decode pass (seen ?u i' at') =
         shown decode pass (seen ?t i1 at1) @ follow decode pass bound pos1 (map (Pair True) (looks_from ?t looks))"
      "\<And>ys. follow decode pass bound pos1 (map (Pair True) (looks_from ?t looks) @ ys) =
         follow decode pass bound pos1 (map (Pair True) (looks_from ?t looks)) @ follow decode pass bound pos' ys"
      "\<And>later. keeps_up decode pass bound ?t pos1 (looks @ later) = keeps_up decode pass bound ?u pos' later"
    using Cons.IH[OF ok first(2)] fair(3) first(1) unfolding u by auto
  have "follow decode pass bound pos (map (Pair True) (looks_from s (look # looks)) @ ys) =
      out @ follow decode pass bound pos1 (map (Pair True) (looks_from ?t looks) @ ys)" for ys
    using first(1) by simp
  from this[of "[]"] this rest first fair(1,2) show ?case
    by (intro exI[of _ pos'] exI[of _ i'] exI[of _ at']) simp
qed

text \<open>All that the shim has written and has still to write.\<close>

definition logged :: "Shim \<Rightarrow> u8 list" where
  "logged s = all_text s @ unwritten s @ concat (sh_lines s)"

lemma whole_prefix_lines: "list_all is_line ls \<Longrightarrow> prefix xs (concat ls) \<Longrightarrow> whole xs \<Longrightarrow> \<exists>m. xs = concat (take m ls)"
proof (induction ls arbitrary: xs)
  case (Cons l ls)
  then have l: "newline \<notin> set (butlast l)" by (simp add: is_line_def)
  consider "xs = []" | ys where "xs = l @ ys" | zs where "xs \<noteq> []" "l = xs @ zs" "zs \<noteq> []"
  proof (cases "prefix xs l")
    case True
    then obtain zs where "l = xs @ zs" by (elim prefixE)
    then show ?thesis using that by (cases "zs = []") auto
  next
    case False
    then show ?thesis using that prefix_append[of xs l "concat ls"] Cons.prems(2) by auto
  qed
  then show ?case
  proof cases
    case 1
    then show ?thesis by (intro exI[of _ 0]) simp
  next
    case (2 ys)
    then have "whole ys" "prefix ys (concat ls)" using Cons.prems by (auto simp: whole_def last_append split: if_splits)
    then obtain m where "ys = concat (take m ls)" using Cons.IH Cons.prems(1) by auto
    then show ?thesis using 2 by (intro exI[of _ "Suc m"]) simp
  next
    case (3 zs)
    then have "last xs = newline" "last xs \<in> set (butlast l)"
      using Cons.prems(3) last_in_set[of xs] by (simp_all add: whole_def butlast_append)
    then show ?thesis using l by simp
  qed
qed (auto simp: whole_def)

lemma whole_concat: "list_all whole xss \<Longrightarrow> whole (concat xss)"
  by (induction xss) (auto simp: whole_def last_append)

lemma shown_lines:
  assumes "list_all is_line ls" "prefix (concat (map (data_of s) [0..<k])) (concat ls)" "shim_ok s" "k < N_of s"
  obtains m where "concat (map (data_of s) [0..<k]) = concat (take m ls)"
    "shown decode pass (concat ls) = shown decode pass (concat (map (data_of s) [0..<k])) @
       filter pass (List.map_filter decode (map butlast (drop m ls)))"
proof -
  let ?old = "concat (map (data_of s) [0..<k])"
  have "whole ?old" using assms(3,4) by (intro whole_concat) (auto simp: list_all_iff shim_ok_def)
  then obtain m where m: "?old = concat (take m ls)" using whole_prefix_lines[OF assms(1,2)] by blast
  have "concat ls = concat (take m ls) @ concat (drop m ls)" by (metis append_take_drop_id concat_append)
  then have "shown decode pass (concat ls) = shown decode pass ?old @ shown decode pass (concat (drop m ls))"
    unfolding shown_def using entries_whole[OF \<open>whole ?old\<close>, of decode "concat (drop m ls)"] m by simp
  moreover have "list_all is_line (drop m ls)" using assms(1) by (auto simp: list_all_iff dest: in_set_dropD)
  ultimately show ?thesis using that[OF m] entries_lines[of "drop m ls" decode] by (simp add: shown_def)
qed

lemma seen_prefix: "i < N_of s \<Longrightarrow> prefix (seen s i at) (all_text s)"
proof -
  assume "i < N_of s"
  then have "[0..<N_of s] = [0..<i] @ i # [Suc i..<N_of s]"
    using upt_add_eq_append[of 0 i "N_of s - i"] upt_conv_Cons[of i "N_of s"] by simp
  then have "all_text s = seen s i at @ drop at (data_of s i) @ concat (map (data_of s) [Suc i..<N_of s])"
    unfolding all_text_def seen_def by simp
  then show ?thesis by simp
qed

lemma quiet_look:
  assumes "shim_ok s" "max_of s \<le> bound" "\<not> rotating s" "pos_at decode s pos i at" "keeps_up decode pass bound s pos [[]]"
  shows "shown decode pass (all_text s) =
    shown decode pass (seen s i at) @ follow decode pass bound pos [(False, \<lambda>_. sh_fs s)]"
proof -
  have call: "at_call s [] = (\<lambda>_. s)" "shim_run (concat []) s = s" by (auto simp: at_call_def shim_run_def)
  have order: "in_order s (\<lambda>_. s) s" using at_call_in_order[OF assms(1), of "[]"] call by simp
  have "one_rotation (\<lambda>_. s) 3" "in_reach (\<lambda>_. s) (po_ino pos)" using assms(5) call by simp_all
  from read_new_reads[OF order assms(2) this assms(4), of pass] obtain out pos' where
    out: "read_new decode pass bound (\<lambda>_. sh_fs s) pos = (out, pos')"
      "shown decode pass (seen s (N_of s - 1) (length (data_of s (N_of s - 1)))) = shown decode pass (seen s i at) @ out"
    using assms(3) by auto
  have "Suc (N_of s - 1) = N_of s" using assms(1) by (simp add: shim_ok_def)
  then have "seen s (N_of s - 1) (length (data_of s (N_of s - 1))) = all_text s" unfolding seen_all all_text_def by simp
  then show ?thesis using out by simp
qed

text \<open>C39: what a client gets that asks for the log and follows it, when any number of the shim's system calls (renames, the
  creation of a file, parts of a line written) fall before each one of the reader's. \<open>s\<close> is the shim, whatever it is doing, when the request
  comes; \<open>ls\<close> are all the lines of the log, those written and those still to be; \<open>start\<close> and \<open>looks\<close> are the shim's steps
  before each call of \<open>existing\<close> and of the looks of \<open>follow\<close>. What \<open>existing\<close> finds (the answer has the last \<open>tail\<close> entries of it) and
  what \<open>follow\<close> sends are together the entries, of those that pass, of the lines from some \<open>m\<close> on: in order, none twice, none left out
  between; and they are all of them once the shim is idle with nothing left to write and the last look is over. The lines before \<open>m\<close> are
  those of the files before \<open>k\<close>: the files that \<open>log_max_files\<close> had already removed when the walk of \<open>existing\<close> began, and at most one more if a
  rotation goes on in that walk.

  The conditions: \<open>log_max_files\<close> is at least \<open>2\<close>, reading a file to its end is one call, while the names are walked at most one rotation
  ends and no other begins (\<open>one_rotation\<close>; \<open>overtaken_walk\<close> below shows why), and when a walk begins the follower's file is among the last
  \<open>log_max_files\<close>, or just after them if nothing rotates meanwhile (\<open>in_reach\<close>).\<close>

theorem follower_reads_every_entry:
  assumes states: "t = shim_run (concat start) s" "u = shim_run (concat (concat looks)) t"
    and ok: "shim_ok s" "max_of s \<le> bound" and lines: "logged s = concat ls" "list_all is_line ls"
    and first: "existing decode pass tail bound (\<lambda>k. sh_fs (at_call s start k)) = (first, pos)" "one_rotation (at_call s start) 0"
    and looks: "keeps_up decode pass bound t pos looks"
  shows "\<exists>k m found. k \<le> N_of (at_call s start 1) - (if no_rotation (at_call s start) 0 then max_of s else max_of s - 1) \<and>
    concat (take m ls) = concat (map (data_of u) [0..<k]) \<and> first = last_entries tail found \<and>
    prefix (found @ follow decode pass bound pos (map (Pair True) (looks_from t looks)))
      (filter pass (List.map_filter decode (map butlast (drop m ls)))) \<and>
    (sh_at u = Idle \<and> sh_lines u = [] \<and> keeps_up decode pass bound t pos (looks @ [[]]) \<longrightarrow>
      found @ follow decode pass bound pos (map (Pair True) (looks_from t looks) @ [(False, \<lambda>_. sh_fs u)]) =
      filter pass (List.map_filter decode (map butlast (drop m ls))))"
proof -
  let ?st = "at_call s start" and ?sent = "follow decode pass bound pos (map (Pair True) (looks_from t looks))"
  obtain k found i at where start: "first = last_entries tail found" "k \<le> N_of (?st 1) - (if no_rotation ?st 0 then max_of s else max_of s - 1)"
      "k < N_of t" "pos_at decode t pos i at"
      "shown decode pass (seen t i at) = shown decode pass (concat (map (data_of t) [0..<k])) @ found"
    using existing_reads[OF at_call_in_order[OF ok(1)] ok(2) first(2), of decode pass tail] first(1) unfolding states(1) by auto
  have t: "shim_ok t" "max_of t \<le> bound" "follows s t" using shim_run_ok[OF ok(1)] ok(2) unfolding states(1) by (auto simp: follows_def)
  have u: "shim_ok u" "follows t u" "max_of u \<le> bound" "follows s u"
    using shim_run_ok[OF t(1)] shim_run_ok[OF ok(1), of "concat start @ concat (concat looks)"] ok(2)
    unfolding states shim_run_append by (auto simp: follows_def)
  obtain pos' i' at' where sent: "pos_at decode u pos' i' at'"
      "shown decode pass (seen u i' at') = shown decode pass (seen t i at) @ ?sent"
      "\<And>ys. follow decode pass bound pos (map (Pair True) (looks_from t looks) @ ys) = ?sent @ follow decode pass bound pos' ys"
      "\<And>later. keeps_up decode pass bound t pos (looks @ later) = keeps_up decode pass bound u pos' later"
    using follow_reads[OF t(1,2) start(4) looks] unfolding states(2) by blast
  let ?old = "concat (map (data_of u) [0..<k])"
  have old: "?old = concat (map (data_of t) [0..<k])" "k < N_of u"
    using follows_older[OF u(2) start(3)] start(3) u(2) by (auto simp: follows_def)
  have everything: "concat ls = all_text u @ unwritten u @ concat (sh_lines u)" using u(4) lines(1) by (simp add: logged_def follows_def)
  then have within: "prefix ?old (concat ls)" using seen_prefix[OF old(2), of 0] by (auto simp: seen_def prefix_def)
  obtain m where m: "?old = concat (take m ls)"
      "shown decode pass (concat ls) = shown decode pass ?old @ filter pass (List.map_filter decode (map butlast (drop m ls)))"
    by (rule shown_lines[OF lines(2) within u(1) old(2)])
  have got: "shown decode pass (seen u i' at') = shown decode pass ?old @ found @ ?sent"
    using sent(2) start(5) old(1) by simp
  have "prefix (seen u i' at') (concat ls)" using seen_prefix[of i' u at'] sent(1) everything by (auto simp: pos_at_def prefix_def)
  from shown_prefix[OF this, of decode pass]
  have part: "prefix (found @ ?sent) (filter pass (List.map_filter decode (map butlast (drop m ls))))" by (simp add: got m(2))
  have "found @ ?sent @ follow decode pass bound pos' [(False, \<lambda>_. sh_fs u)] = filter pass (List.map_filter decode (map butlast (drop m ls)))"
    if "sh_at u = Idle" "sh_lines u = []" "keeps_up decode pass bound t pos (looks @ [[]])"
  proof -
    have "\<not> rotating u" "concat ls = all_text u" using that everything by (simp_all add: rotating_def unwritten_def)
    then show ?thesis using quiet_look[OF u(1,3) _ sent(1), of pass] that(3) sent(4) got m(2) by simp
  qed
  then show ?thesis using start(1,2) m(1)[symmetric] part sent(3) by metis
qed

text \<open>A log of three files at most, with a limit of five bytes, and three lines to write. The container's log is asked for while the
  first of them is half written; the other half comes, and then a rotation, between the follower's first read and its \<open>stat\<close>.\<close>

definition example_shim :: Shim where
  "example_shim =
     \<lparr>sh_fs = \<lparr>fs_names = [0 \<mapsto> 0], fs_data = (\<lambda>_. [97, 10]), fs_next = 1\<rparr>,
      sh_writer = \<lparr>sw_file = 0, sw_log = \<lparr>lw_size = 2, lw_max_size = 5, lw_max_files = 3\<rparr>\<rparr>, sh_at = Idle,
      sh_lines = [[98, 10], [99, 10], [100, 10]]\<rparr>"

definition example_start :: "nat list list" where
  "example_start = [[0], [1]]"

definition example_looks :: "nat list list list" where
  "example_looks = [[[], [2, 0, 0, 0, 0], [], [], [1]], [[9, 0, 9]]]"

definition example_position :: Position where
  "example_position = snd (existing Some (\<lambda>_. True) None 3 (\<lambda>k. sh_fs (at_call example_shim example_start k)))"

lemma example_shim_ok: "shim_ok example_shim"
  by (auto simp: shim_ok_def example_shim_def moved_def names_at_def idx_def whole_def fun_eq_iff)

lemma example_first:
  "existing Some (\<lambda>_. True) None 3 (\<lambda>k. sh_fs (at_call example_shim example_start k)) = ([[97]], example_position)"
  by code_simp

lemma example_keeps_up:
  "keeps_up Some (\<lambda>_. True) 3 (shim_run (concat example_start) example_shim) example_position (example_looks @ [[]])"
  by code_simp

lemma example_one: "one_rotation (at_call example_shim example_start) 0"
  by code_simp

lemma example_end:
  "sh_at (shim_run (concat (concat example_looks)) (shim_run (concat example_start) example_shim)) = Idle"
  "sh_lines (shim_run (concat (concat example_looks)) (shim_run (concat example_start) example_shim)) = []"
  by code_simp+

theorem follower_reads_every_entry_witness:
  "[[97]] @ follow Some (\<lambda>_. True) 3 example_position
     (map (Pair True) (looks_from (shim_run (concat example_start) example_shim) example_looks) @
      [(False, \<lambda>_. sh_fs (shim_run (concat (concat example_looks)) (shim_run (concat example_start) example_shim)))]) =
   [[97], [98], [99], [100]] \<and> one_rotation (at_call example_shim example_start) 0 \<and>
   keeps_up Some (\<lambda>_. True) 3 (shim_run (concat example_start) example_shim) example_position (example_looks @ [[]])"
proof -
  let ?ls = "[[97, 10], [98, 10], [99, 10], [100, 10]] :: u8 list list"
  have lines: "logged example_shim = concat ?ls" "list_all is_line ?ls"
    by (simp_all add: logged_def all_text_def unwritten_def example_shim_def is_line_def)
  have max: "max_of example_shim = 3" "N_of (at_call example_shim example_start 1) = 1" by code_simp+
  then have bound: "max_of example_shim \<le> 3" by simp
  have looks: "keeps_up Some (\<lambda>_. True) 3 (shim_run (concat example_start) example_shim) example_position example_looks" by code_simp
  obtain k m where all: "k \<le> 1 - (if no_rotation (at_call example_shim example_start) 0 then 3 else 3 - 1)"
      "concat (take m ?ls) = concat (map (data_of (shim_run (concat (concat example_looks)) (shim_run (concat example_start) example_shim))) [0..<k])"
      "[[97]] @ follow Some (\<lambda>_. True) 3 example_position
        (map (Pair True) (looks_from (shim_run (concat example_start) example_shim) example_looks) @
         [(False, \<lambda>_. sh_fs (shim_run (concat (concat example_looks)) (shim_run (concat example_start) example_shim)))]) =
       filter (\<lambda>_. True) (List.map_filter Some (map butlast (drop m ?ls)))"
    using follower_reads_every_entry[OF refl refl example_shim_ok bound lines example_first example_one looks]
      example_keeps_up example_end unfolding max by (auto simp: last_entries_def)
  have "k = 0" using all(1) by (simp split: if_splits)
  then have "m = 0" using all(2) by (cases m) simp_all
  then show ?thesis using all(3) example_one example_keeps_up by (simp add: List.map_filter_def)
qed

section \<open>A walk that rotations overtake\<close>

text \<open>When two rotations come between two opens, the walk gets a file after a newer one: from file \<open>4\<close>, it opens \<open>5\<close> as
  \<open>container.log\<close>, then \<open>6\<close> as \<open>container.log.1\<close>, and reads \<open>6\<close> first and \<open>5\<close> last; the next look reads \<open>6\<close> again.\<close>

definition overtaken_look :: "nat \<Rightarrow> LogFs" where
  "overtaken_look k =
     \<lparr>fs_names = (if k < 5 then [0 \<mapsto> 5, 1 \<mapsto> 4] else [0 \<mapsto> 7, 1 \<mapsto> 6, 2 \<mapsto> 5, 3 \<mapsto> 4]), fs_data = (\<lambda>i. [of_nat i, newline]), fs_next = 8\<rparr>"

lemma overtaken_walk:
  "fst (open_newest_first 3 overtaken_look 3 (Some 4)) = [5, 6] \<and>
   (case read_new Some (\<lambda>_. True) 3 overtaken_look \<lparr>po_file = Some (4, 2), po_ino = 4, po_partial = []\<rparr> of
      (out, pos) \<Rightarrow> out = [[6], [5]] \<and> fst (read_new Some (\<lambda>_. True) 3 (\<lambda>_. overtaken_look 5) pos) = [[6], [7]])"
  by code_simp

end
