(* ===== verification/Spec2Isabelle.thy ===== *)
theory Spec2Isabelle
  imports SeccompCorrect DevicesFilter IpamCorrect InterpolateCorrect LogsCorrect ExpandGrammar UsernsCorrect DurationsCorrect BuildPlanCorrect ContextCorrect HealthCorrect ProjectCorrect UsersCorrect LifecycleCorrect DnsCorrect LimitsCorrect LogReaderCorrect
begin

text \<open>
  A verification library for Rustlet, a Linux container engine written in Rust: an OCI runtime
  (\<^verbatim>\<open>rustlet-runtime\<close>), a process per container (\<^verbatim>\<open>rustlet-shim\<close>), a daemon (\<^verbatim>\<open>rustletd\<close>) with its
  networks (\<^verbatim>\<open>rustlet-net\<close>) and images (\<^verbatim>\<open>rustlet-image\<close>), builds from Containerfiles
  (\<^verbatim>\<open>rustlet-build\<close>), applications from compose files (\<^verbatim>\<open>rustlet-compose\<close>), and clients
  (\<^verbatim>\<open>rustlet-client\<close>, the command line and a desktop application). All paths below are under
  \<^verbatim>\<open>src/crates\<close>.

  The library models the code that decides: what a filter lets through, which address is given, what a
  file or a text means, which stages are built, what is written where. The code around it moves bytes
  between the kernel, sockets, files and a database.

  \<^bold>\<open>Shared theories.\<close> \<^verbatim>\<open>Prelude\<close> has the machine integers, results as sums (\<open>bind_result\<close> is the
  question mark of Rust) and the interface \<open>forward_machine\<close>: an interpreter whose program counter only
  grows, which both bytecode interpreters provide. \<^verbatim>\<open>Text\<close> has the functions of \<open>str\<close>; a text is the
  list of its bytes. \<^verbatim>\<open>Btree\<close> has \<open>BTreeMap\<close> as its entries in order and the interface \<open>ordered_map\<close>.
  \<^verbatim>\<open>Worklist\<close> has the interface \<open>worklist\<close>, a loop that marks what it pops and pushes what that needs, which
  the planner of builds and the order of services provide.

  \<^bold>\<open>Runtime: seccomp\<close> (\<^verbatim>\<open>rustlet-runtime/src/seccomp\<close>). \<^verbatim>\<open>Cbpf\<close>: the instruction encoding, the kernel's
  load-time checks and the interpreter (\<^verbatim>\<open>interp.rs\<close>); an accepted program returns a verdict.
  \<^verbatim>\<open>Assembler\<close>: labels and far jumps (\<^verbatim>\<open>asm.rs\<close>), refining a symbolic meaning. \<^verbatim>\<open>Seccomp\<close>: the compiler
  (\<^verbatim>\<open>compile.rs\<close>); \<^verbatim>\<open>SeccompSimplify\<close>, \<^verbatim>\<open>SeccompDispatch\<close> and \<^verbatim>\<open>SeccompCodegen\<close> treat its passes and
  \<^verbatim>\<open>SeccompCorrect\<close> joins them: the filter of a profile decides what the profile says on every syscall.

  \<^bold>\<open>Runtime: devices\<close> (\<^verbatim>\<open>rustlet-runtime/src/cgroups/devices\<close>). \<^verbatim>\<open>Ebpf\<close>: the encoding, the checker and the
  interpreter; \<^verbatim>\<open>Devices\<close>: rules, the reference decision, the optimiser and the compiler;
  \<^verbatim>\<open>DevicesCorrect\<close> and \<^verbatim>\<open>DevicesFilter\<close>: a built filter decides as the reference, only listed devices are
  reachable, the default devices stay.

  \<^bold>\<open>Runtime: user namespaces\<close> (\<^verbatim>\<open>rustlet-runtime/src/userns.rs\<close>, with the parts of \<^verbatim>\<open>mounts.rs\<close> and
  \<^verbatim>\<open>namespaces.rs\<close> it reads). \<^verbatim>\<open>Userns\<close>, \<^verbatim>\<open>UsernsCorrect\<close>: maps are injective, never reach the host's root and
  never wrap; merged maps are equal when the maps agree. Ids keep their 32 bits.

  \<^bold>\<open>Runtime: confinement\<close> (\<^verbatim>\<open>rustlet-runtime/src\<close>). \<^verbatim>\<open>Namespaces\<close>: which are created and joined
  (\<^verbatim>\<open>namespaces.rs\<close>); \<^verbatim>\<open>Sysctl\<close>: kernel parameters (\<^verbatim>\<open>sysctl.rs\<close>); \<^verbatim>\<open>Caps\<close>: capabilities (\<^verbatim>\<open>caps.rs\<close>, with
  \<^verbatim>\<open>rustlet-sys/src/caps.rs\<close>); \<^verbatim>\<open>Resources\<close>: limits (\<^verbatim>\<open>cgroups/resources.rs\<close>). \<^verbatim>\<open>LimitsCorrect\<close>: writing the parameters
  changes nothing outside the namespaces the container owns, capabilities never leave the bounding list, settings are limits of its own
  cgroup.

  \<^bold>\<open>Networks\<close> (\<^verbatim>\<open>rustlet-net/src\<close>). \<^verbatim>\<open>Ipam\<close>, \<^verbatim>\<open>IpamCorrect\<close> (\<^verbatim>\<open>ipam.rs\<close>): subnets of both families as blocks
  (\<open>address_blocks\<close>, \<open>host_range\<close>, \<open>subnet_search\<close>, interpreted for both), searches and allocators. \<^verbatim>\<open>Dns\<close>,
  \<^verbatim>\<open>DnsZone\<close>, \<^verbatim>\<open>DnsCorrect\<close> (\<^verbatim>\<open>dns.rs\<close>): the zone stands for registrations (\<open>name_registry\<close>), a container's answers come from
  its own networks only, reverse names, and forwarding.

  \<^bold>\<open>Streams\<close> (\<^verbatim>\<open>rustlet-shim/src/logfile.rs\<close>, \<^verbatim>\<open>rustlet-client/src/ndjson.rs\<close>). \<^verbatim>\<open>Logs\<close>, \<^verbatim>\<open>LogsCorrect\<close>: the line
  splitter against a byte-by-byte reference, the rotating log, the client's line buffer as a queue
  (\<open>line_source\<close>), and the items of a response.

  \<^bold>\<open>Compose\<close> (\<^verbatim>\<open>rustlet-compose/src\<close>). \<^verbatim>\<open>Interpolate\<close>, \<^verbatim>\<open>InterpolateCorrect\<close>: variables in texts and
  documents, and \<^verbatim>\<open>.env\<close> files (\<^verbatim>\<open>interpolate.rs\<close>). \<^verbatim>\<open>Project\<close>, \<^verbatim>\<open>ProjectCorrect\<close>: the order services start
  in (\<^verbatim>\<open>project.rs\<close>): each once and after what it depends on, or a cycle that is one.

  \<^bold>\<open>Builds\<close> (\<^verbatim>\<open>rustlet-build/src\<close>). \<^verbatim>\<open>Expand\<close>, \<^verbatim>\<open>ExpandCorrect\<close>, \<^verbatim>\<open>ExpandGrammar\<close>: variables and quotes of instructions
  (\<^verbatim>\<open>expand.rs\<close>), with a grammar of them and its meaning, which the code finds. \<^verbatim>\<open>Durations\<close>, \<^verbatim>\<open>DurationsCorrect\<close>: durations of \<^verbatim>\<open>config.rs\<close>. \<^verbatim>\<open>Dockerfile\<close>,
  \<^verbatim>\<open>DockerfileCorrect\<close>: the parser (\<^verbatim>\<open>parser.rs\<close>). \<^verbatim>\<open>BuildOps\<close>: instructions expanded and checked
  (\<^verbatim>\<open>op.rs\<close>). \<^verbatim>\<open>BuildPlan\<close>, \<^verbatim>\<open>BuildPlanCorrect\<close>: stages, arguments, bases (\<^verbatim>\<open>plan.rs\<close>); the stages of a plan are
  those the target reaches, a parsed healthcheck applies. \<^verbatim>\<open>Ignore\<close>, \<^verbatim>\<open>IgnoreCorrect\<close>: clean paths
  (\<^verbatim>\<open>path.rs\<close>) and ignore files (\<^verbatim>\<open>ignore.rs\<close>). \<^verbatim>\<open>Context\<close>, \<^verbatim>\<open>ContextCorrect\<close>: the packed context
  (\<^verbatim>\<open>context.rs\<close>), which rests on the rules of \<^verbatim>\<open>Ignore\<close>: the archive is that of a reference without
  skipped directories.

  \<^bold>\<open>Images\<close> (\<^verbatim>\<open>rustlet-image/src/user.rs\<close>). \<^verbatim>\<open>Users\<close>, \<^verbatim>\<open>UsersCorrect\<close>: passwd and group files and what a
  \<open>USER\<close> means against them: a relation on the lines of the files says which ids and groups it names, and the code
  finds exactly those; a written file is read back.

  \<^bold>\<open>Daemon\<close> (\<^verbatim>\<open>rustletd/src\<close>, \<^verbatim>\<open>rustlet-spec/src/container.rs\<close>). \<^verbatim>\<open>Health\<close>, \<^verbatim>\<open>HealthCorrect\<close>: healthchecks
  (\<^verbatim>\<open>health.rs\<close>). \<^verbatim>\<open>Lifecycle\<close>, \<^verbatim>\<open>LifecycleCorrect\<close>: the life of a container (\<^verbatim>\<open>lifecycle.rs\<close>,
  \<^verbatim>\<open>container.rs\<close>) as a step relation in which exits and kills come between the beginning and the end of
  an operation that holds the lock; an invariant of every reachable state, that a recorded stop lasts
  and that a crash is restarted by the policy alone, after the delay it asks for. The lemma \<open>stop_is_lost\<close> shows the one stop that does not last.
  \<^verbatim>\<open>LogReader\<close>, \<^verbatim>\<open>LogSteps\<close>, \<^verbatim>\<open>LogReaderCorrect\<close>: reading logs while the shim writes them (\<^verbatim>\<open>logs.rs\<close>), on files
  with inodes and one system call at a time on both sides; the shim's writer refines the log of \<^verbatim>\<open>Logs\<close>, and a client that
  reads and follows the log gets every entry once and in order, if at most one rotation falls into a walk over the names and
  no more than \<open>log_max_files\<close> between two looks. The lemma \<open>overtaken_walk\<close> shows what more rotations during a walk do.

  \<^bold>\<open>How code is modelled.\<close> A function of the source is a function here, a structure is a record, an enum is
  a datatype. State is passed and returned. An error is a value of a sum, and messages are
  constructors; a panic is an error or \<open>None\<close> of its own, and shown not to happen where the code relies
  on it. Loops are recursive functions with a proof of termination. The only fuel is that of the
  interpreters, the length of the program, which the checks make enough, and the nesting bound of the
  lexer, which is the source's own. Integers that can overflow keep their width; counters that count
  things in memory are natural numbers.

  \<^bold>\<open>Parameters.\<close> The syscall table (generated by the build), serde's JSON and YAML readers, the decoder of a
  stream's item, the crates \<open>regex\<close> and \<open>hickory_proto\<close> (the record \<open>Hickory\<close>), the shuffling of records, fresh
  message IDs, what \<open>stat\<close> says and a weight computed in floating point, and the times of \<open>chrono\<close>, are arguments of the definitions. What is relied on of them is
  a named hypothesis (for \<open>regex\<close> the predicate \<open>regex_laws\<close>, for the kernel's \<open>execve\<close> the predicate
  \<open>execve_laws\<close>, for what it does with a write below \<^verbatim>\<open>/proc/sys\<close> the predicate \<open>sysctl_laws\<close>), and a concrete instance shows that it
  can hold.

  \<^bold>\<open>Not modelled.\<close> System calls and what the kernel does (\<^verbatim>\<open>rustlet-sys\<close>, the creation of containers,
  cgroup files, netlink, nftables), processes and sockets (the shim's server, the port proxy, the
  daemon's tasks), the database, HTTP, tar and registry traffic, the command line and the desktop
  application. They are input and output; what they decide is in the parts above. Image documents,
  the compose model and the daemon's network code also decide things and are not modelled yet.
\<close>

end
